(* ===== verification/Sommelier_Prelude.thy ===== *)
theory Sommelier_Prelude
  imports Main "HOL-Library.Word" "HOL-Library.AList"
begin

text \<open>
  Shared vocabulary of the development: the machine integers of the Rust code, its
  \<open>checked_add\<close> on \<open>usize\<close>, hash maps whose iteration the code relies on, and the
  generic run of a component over a list of operations, with the contract that lifts an
  invariant of one operation to every run.

  Rust's \<open>u8\<close>, \<open>u16\<close>, \<open>u32\<close>, \<open>u64\<close> are words of their width.  An \<open>i32\<close> is the
  integer it denotes (the operations that can leave its range write that out), a raw file
  descriptor likewise.  \<open>usize\<close> is a natural number below \<open>2 ^ 64\<close>: the supported
  targets are x86_64 and aarch64, which are also little endian (\<open>from_ne_bytes\<close>).
\<close>

unbundle bit_operations_syntax

section \<open>Machine integers\<close>

type_synonym u8 = "8 word"
type_synonym u16 = "16 word"
type_synonym u32 = "32 word"
type_synonym u64 = "64 word"
type_synonym i32 = int
type_synonym raw_fd = int

text \<open>A Rust \<open>String\<close> is the list of its UTF-8 bytes; \<open>len\<close> counts bytes.\<close>

type_synonym rust_string = "u8 list"

text \<open>An encoded message together with its descriptors, as the outgoing queues hold them.\<close>

type_synonym packet = "u8 list \<times> raw_fd list"

definition usize_limit :: nat where
  "usize_limit = 2 ^ 64"

definition usize_checked_add :: "nat \<Rightarrow> nat \<Rightarrow> nat option" where
  "usize_checked_add a b = (if a + b < usize_limit then Some (a + b) else None)"

lemma usize_checked_add_fits [simp]:
  "a + b < usize_limit \<Longrightarrow> usize_checked_add a b = Some (a + b)"
  by (simp add: usize_checked_add_def)

lemma usize_checked_add_SomeD:
  "usize_checked_add a b = Some c \<Longrightarrow> c = a + b \<and> c < usize_limit"
  by (auto simp: usize_checked_add_def split: if_splits)

lemma unat_u32_less: "unat (x :: u32) < 2 ^ 32"
  using unsigned_less [of x, where 'a = nat] by simp

text \<open>\<open>x as i32\<close> and \<open>x as u32\<close> reinterpret the 32 bits.\<close>

definition as_i32 :: "u32 \<Rightarrow> i32" where
  "as_i32 v = sint v"

definition as_u32 :: "i32 \<Rightarrow> u32" where
  "as_u32 v = word_of_int v"

definition in_i32 :: "int \<Rightarrow> bool" where
  "in_i32 v \<longleftrightarrow> - (2 ^ 31) \<le> v \<and> v < 2 ^ 31"

lemma as_u32_as_i32 [simp]: "as_u32 (as_i32 v) = v"
  by (simp add: as_u32_def as_i32_def)

lemma as_i32_as_u32 [simp]: "in_i32 v \<Longrightarrow> as_i32 (as_u32 v) = v"
  by (simp add: as_i32_def as_u32_def in_i32_def sint_sbintrunc' signed_take_bit_int_eq_self)

section \<open>Hash maps that are iterated\<close>

text \<open>
  A Rust \<open>HashMap\<close> that is only looked up is a partial function.  One that the code also
  iterates is the association list of its entries in iteration order (which Rust leaves
  open), with distinct keys.
\<close>

type_synonym ('k, 'v) hmap = "('k \<times> 'v) list"

definition hm_ok :: "('k, 'v) hmap \<Rightarrow> bool" where
  "hm_ok m \<longleftrightarrow> distinct (map fst m)"

definition hm_get :: "('k, 'v) hmap \<Rightarrow> 'k \<Rightarrow> 'v option" where
  "hm_get m k = map_of m k"

definition hm_insert :: "'k \<Rightarrow> 'v \<Rightarrow> ('k, 'v) hmap \<Rightarrow> ('k, 'v) hmap" where
  "hm_insert k v m = AList.update k v m"

definition hm_remove :: "'k \<Rightarrow> ('k, 'v) hmap \<Rightarrow> ('k, 'v) hmap" where
  "hm_remove k m = AList.delete k m"

definition hm_retain :: "('k \<Rightarrow> 'v \<Rightarrow> bool) \<Rightarrow> ('k, 'v) hmap \<Rightarrow> ('k, 'v) hmap" where
  "hm_retain p m = filter (\<lambda>(k, v). p k v) m"

text \<open>The contract of such a map: what a lookup returns after each operation.\<close>

locale hash_map =
  fixes ok :: "'m \<Rightarrow> bool"
    and get :: "'m \<Rightarrow> 'k \<Rightarrow> 'v option"
    and put :: "'k \<Rightarrow> 'v \<Rightarrow> 'm \<Rightarrow> 'm"
    and del :: "'k \<Rightarrow> 'm \<Rightarrow> 'm"
    and keep :: "('k \<Rightarrow> 'v \<Rightarrow> bool) \<Rightarrow> 'm \<Rightarrow> 'm"
    and entries :: "'m \<Rightarrow> ('k \<times> 'v) set"
  assumes get_put: "ok m \<Longrightarrow> get (put k v m) = (get m)(k \<mapsto> v)"
    and get_del: "ok m \<Longrightarrow> get (del k m) = (get m)(k := None)"
    and get_keep: "ok m \<Longrightarrow>
      get (keep p m) k = (case get m k of Some v \<Rightarrow> if p k v then Some v else None | None \<Rightarrow> None)"
    and entries_get: "ok m \<Longrightarrow> (k, v) \<in> entries m \<longleftrightarrow> get m k = Some v"
    and ok_put: "ok m \<Longrightarrow> ok (put k v m)"
    and ok_del: "ok m \<Longrightarrow> ok (del k m)"
    and ok_keep: "ok m \<Longrightarrow> ok (keep p m)"
begin

lemma get_put_same: "ok m \<Longrightarrow> get (put k v m) k = Some v"
  by (simp add: get_put)

lemma get_del_same: "ok m \<Longrightarrow> get (del k m) k = None"
  by (simp add: get_del)

lemma entries_put: "ok m \<Longrightarrow>
  (x, y) \<in> entries (put k v m) \<longleftrightarrow> (x = k \<and> y = v) \<or> (x \<noteq> k \<and> (x, y) \<in> entries m)"
  by (auto simp: entries_get get_put ok_put)

lemma entries_del: "ok m \<Longrightarrow>
  (x, y) \<in> entries (del k m) \<longleftrightarrow> x \<noteq> k \<and> (x, y) \<in> entries m"
  by (auto simp: entries_get get_del ok_del)

lemma entries_keep: "ok m \<Longrightarrow>
  (x, y) \<in> entries (keep p m) \<longleftrightarrow> (x, y) \<in> entries m \<and> p x y"
  by (auto simp: entries_get get_keep ok_keep split: option.splits if_splits)

lemma entries_functional:
  "ok m \<Longrightarrow> (k, v) \<in> entries m \<Longrightarrow> (k, w) \<in> entries m \<Longrightarrow> v = w"
  by (simp add: entries_get)

end

lemma hm_get_retain_aux:
  "distinct (map fst m) \<Longrightarrow> map_of (filter (\<lambda>(k, v). p k v) m) k =
     (case map_of m k of Some v \<Rightarrow> if p k v then Some v else None | None \<Rightarrow> None)"
proof (induction m)
  case Nil
  then show ?case by simp
next
  case (Cons x m)
  then show ?case
    by (cases x) (auto split: option.splits simp: map_of_eq_None_iff)
qed

interpretation hm: hash_map hm_ok hm_get hm_insert hm_remove hm_retain set
proof
  fix m :: "('k, 'v) hmap" and k v p
  assume ok: "hm_ok m"
  show "hm_get (hm_insert k v m) = (hm_get m)(k \<mapsto> v)"
    by (simp add: hm_get_def hm_insert_def update_conv' fun_eq_iff)
  show "hm_get (hm_remove k m) = (hm_get m)(k := None)"
    by (simp add: hm_get_def hm_remove_def delete_conv' fun_eq_iff)
  show "hm_get (hm_retain p m) k =
      (case hm_get m k of Some v \<Rightarrow> if p k v then Some v else None | None \<Rightarrow> None)"
    using ok by (simp add: hm_get_def hm_retain_def hm_ok_def hm_get_retain_aux)
  show "(k, v) \<in> set m \<longleftrightarrow> hm_get m k = Some v"
    using ok by (simp add: hm_get_def hm_ok_def)
  show "hm_ok (hm_insert k v m)"
    using ok by (simp add: hm_ok_def hm_insert_def distinct_update)
  show "hm_ok (hm_remove k m)"
    using ok by (simp add: hm_ok_def hm_remove_def distinct_delete)
  show "hm_ok (hm_retain p m)"
    using ok by (auto simp: hm_ok_def hm_retain_def distinct_map inj_on_def)
qed

lemma hm_get_insert [simp]: "hm_get (hm_insert k v m) = (hm_get m)(k \<mapsto> v)"
  by (simp add: hm_get_def hm_insert_def update_conv' fun_eq_iff)

lemma hm_get_remove [simp]: "hm_get (hm_remove k m) = (hm_get m)(k := None)"
  by (simp add: hm_get_def hm_remove_def delete_conv' fun_eq_iff)

lemma hm_remove_absent [simp]: "hm_get m k = None \<Longrightarrow> hm_remove k m = m"
  by (simp add: hm_get_def hm_remove_def delete_idem map_of_eq_None_iff)

lemma hm_get_Nil [simp]: "hm_get [] k = None"
  by (simp add: hm_get_def)

lemma hm_ok_Nil [simp]: "hm_ok []"
  by (simp add: hm_ok_def)

section \<open>Runs of a component\<close>

text \<open>
  A component is driven by a list of operations.  \<open>run_ops\<close> applies them in order; an
  operation that the callers only issue in some states is guarded by \<open>ok\<close>.
\<close>

primrec run_ops :: "('s \<Rightarrow> 'e \<Rightarrow> 's) \<Rightarrow> 's \<Rightarrow> 'e list \<Rightarrow> 's" where
  "run_ops step s [] = s"
| "run_ops step s (e # es) = run_ops step (step s e) es"

primrec ops_allowed :: "('s \<Rightarrow> 'e \<Rightarrow> bool) \<Rightarrow> ('s \<Rightarrow> 'e \<Rightarrow> 's) \<Rightarrow> 's \<Rightarrow> 'e list \<Rightarrow> bool" where
  "ops_allowed ok step s [] = True"
| "ops_allowed ok step s (e # es) = (ok s e \<and> ops_allowed ok step (step s e) es)"

locale guarded_machine =
  fixes step :: "'s \<Rightarrow> 'e \<Rightarrow> 's"
    and allowed :: "'s \<Rightarrow> 'e \<Rightarrow> bool"
    and inv :: "'s \<Rightarrow> bool"
  assumes step_inv: "inv s \<Longrightarrow> allowed s e \<Longrightarrow> inv (step s e)"
begin

lemma run_inv: "inv s \<Longrightarrow> ops_allowed allowed step s es \<Longrightarrow> inv (run_ops step s es)"
  by (induction es arbitrary: s) (auto intro: step_inv)

lemma run_inv_prefix:
  "inv s \<Longrightarrow> ops_allowed allowed step s (es @ fs) \<Longrightarrow> inv (run_ops step s es)"
  by (induction es arbitrary: s) (auto intro: step_inv)

end

locale machine = guarded_machine step "\<lambda>_ _. True" inv
  for step :: "'s \<Rightarrow> 'e \<Rightarrow> 's" and inv :: "'s \<Rightarrow> bool"
begin

lemma run_always: "inv s \<Longrightarrow> inv (run_ops step s es)"
  by (induction es arbitrary: s) (auto intro: step_inv)

end

lemma run_ops_append: "run_ops step s (es @ fs) = run_ops step (run_ops step s es) fs"
  by (induction es arbitrary: s) auto

end
