(* ===== verification/Wire.thy ===== *)
theory Wire
  imports Sommelier_Prelude
begin

text \<open>
  The Wayland wire codec of \<^verbatim>\<open>sommelier/src/wire.rs\<close>: the cursor \<open>WireMessage\<close> with its
  typed reads, the \<open>MessageBuilder\<close> with its typed writes, and the framing of a complete
  message.  A read returns its result together with the cursor it leaves behind, also on
  an error, because the code advances the cursor past a length word before it rejects the
  body.  The locale \<open>wire_codec\<close> is the contract the generated dispatchers rely on: what a
  write appends, a read at that offset returns, consuming exactly that many bytes.
\<close>

section \<open>Errors and messages\<close>

datatype action = Forward | Drop

datatype protocol_error =
    InsufficientData
  | InvalidString
  | MissingFd
  | InvalidObjectId u32
  | UnsupportedVersion u32 u32 u32
  | MessageTooLarge nat
  | InvalidMessageLength nat
  | TrailingData
  | UnknownOpcode u16

record wire_message =
  msg_sender_id :: u32
  msg_opcode :: u16
  msg_payload :: "u8 list"
  msg_fds :: "raw_fd list"
  msg_offset :: nat
  msg_fd_offset :: nat

record message_builder =
  mb_payload :: "u8 list"
  mb_fds :: "raw_fd list"

type_synonym 'a read_result = "(protocol_error + 'a) \<times> wire_message"

section \<open>Native-endian words\<close>

definition u32_to_ne_bytes :: "u32 \<Rightarrow> u8 list" where
  "u32_to_ne_bytes v =
     [ucast v, ucast (drop_bit 8 v), ucast (drop_bit 16 v), ucast (drop_bit 24 v)]"

definition u32_from_ne_bytes :: "u8 list \<Rightarrow> u32" where
  "u32_from_ne_bytes bs =
     (case bs of
        [b0, b1, b2, b3] \<Rightarrow>
          ucast b0 OR push_bit 8 (ucast b1) OR push_bit 16 (ucast b2) OR push_bit 24 (ucast b3)
      | _ \<Rightarrow> 0)"

definition u16_from_ne_bytes :: "u8 \<Rightarrow> u8 \<Rightarrow> u16" where
  "u16_from_ne_bytes b0 b1 = ucast b0 OR push_bit 8 (ucast b1)"

lemma length_u32_to_ne_bytes [simp]: "length (u32_to_ne_bytes v) = 4"
  by (simp add: u32_to_ne_bytes_def)

lemma u32_bytes_roundtrip [simp]: "u32_from_ne_bytes (u32_to_ne_bytes v) = v"
proof -
  have "bit (u32_from_ne_bytes (u32_to_ne_bytes v)) n = bit v n" if n: "n < 32" for n
  proof -
    consider "n < 8" | "8 \<le> n" "n < 16" | "16 \<le> n" "n < 24" | "24 \<le> n"
      by linarith
    then show ?thesis
      using n by cases (auto simp: u32_from_ne_bytes_def u32_to_ne_bytes_def bit_simps)
  qed
  then show ?thesis
    by (intro bit_word_eqI) simp
qed

section \<open>UTF-8 validation (\<open>std::str::from_utf8\<close>)\<close>

definition utf8_cont :: "u8 \<Rightarrow> bool" where
  "utf8_cont b \<longleftrightarrow> 0x80 \<le> b \<and> b \<le> 0xBF"

definition utf8_three :: "u8 \<Rightarrow> u8 \<Rightarrow> bool" where
  "utf8_three b c \<longleftrightarrow>
     (b = 0xE0 \<and> 0xA0 \<le> c \<and> c \<le> 0xBF) \<or>
     (0xE1 \<le> b \<and> b \<le> 0xEC \<and> utf8_cont c) \<or>
     (b = 0xED \<and> 0x80 \<le> c \<and> c \<le> 0x9F) \<or>
     (0xEE \<le> b \<and> b \<le> 0xEF \<and> utf8_cont c)"

definition utf8_four :: "u8 \<Rightarrow> u8 \<Rightarrow> bool" where
  "utf8_four b c \<longleftrightarrow>
     (b = 0xF0 \<and> 0x90 \<le> c \<and> c \<le> 0xBF) \<or>
     (0xF1 \<le> b \<and> b \<le> 0xF3 \<and> utf8_cont c) \<or>
     (b = 0xF4 \<and> 0x80 \<le> c \<and> c \<le> 0x8F)"

fun utf8_valid :: "u8 list \<Rightarrow> bool" where
  "utf8_valid [] = True"
| "utf8_valid (b # bs) =
     (if b < 0x80 then utf8_valid bs
      else case bs of
        [] \<Rightarrow> False
      | c # cs \<Rightarrow>
          if 0xC2 \<le> b \<and> b \<le> 0xDF then utf8_cont c \<and> utf8_valid cs
          else (case cs of
             [] \<Rightarrow> False
           | d # ds \<Rightarrow>
               if utf8_three b c then utf8_cont d \<and> utf8_valid ds
               else (case ds of
                  [] \<Rightarrow> False
                | e # es \<Rightarrow> utf8_four b c \<and> utf8_cont d \<and> utf8_cont e \<and> utf8_valid es)))"

text \<open>\<open>str::is_char_boundary\<close>: the ends of the string and every byte that starts a character.\<close>

definition is_char_boundary :: "rust_string \<Rightarrow> nat \<Rightarrow> bool" where
  "is_char_boundary s i \<longleftrightarrow>
     i = 0 \<or> i = length s \<or> (i < length s \<and> \<not> utf8_cont (s ! i))"

section \<open>Reading\<close>

definition wire_message_new ::
    "u32 \<Rightarrow> u16 \<Rightarrow> u8 list \<Rightarrow> raw_fd list \<Rightarrow> wire_message" where
  "wire_message_new sender op pl fds =
     \<lparr>msg_sender_id = sender, msg_opcode = op, msg_payload = pl, msg_fds = fds,
      msg_offset = 0, msg_fd_offset = 0\<rparr>"

definition slice :: "'a list \<Rightarrow> nat \<Rightarrow> nat \<Rightarrow> 'a list" where
  "slice xs a b = take (b - a) (drop a xs)"

definition read_u32 :: "wire_message \<Rightarrow> u32 read_result" where
  "read_u32 m =
     (case usize_checked_add (msg_offset m) 4 of
        None \<Rightarrow> (Inl InsufficientData, m)
      | Some end_ \<Rightarrow>
          if end_ > length (msg_payload m) then (Inl InsufficientData, m)
          else (Inr (u32_from_ne_bytes (slice (msg_payload m) (msg_offset m) end_)),
                m\<lparr>msg_offset := end_\<rparr>))"

definition read_i32 :: "wire_message \<Rightarrow> i32 read_result" where
  "read_i32 m = (case read_u32 m of (r, m') \<Rightarrow> (map_sum id as_i32 r, m'))"

definition read_fixed :: "wire_message \<Rightarrow> i32 read_result" where
  "read_fixed m = read_i32 m"

text \<open>\<open>value & !3\<close> on a \<open>usize\<close>.\<close>

definition align_down4 :: "nat \<Rightarrow> nat" where
  "align_down4 n = n div 4 * 4"

definition byte_position :: "u8 \<Rightarrow> u8 list \<Rightarrow> nat option" where
  "byte_position b bs =
     (let n = length (takeWhile (\<lambda>x. x \<noteq> b) bs) in if n < length bs then Some n else None)"

text \<open>
  The bytes of a string argument: they must end in a NUL, are cut at the first one, and
  must then be UTF-8.
\<close>

definition terminated_string :: "u8 list \<Rightarrow> protocol_error + rust_string" where
  "terminated_string bytes =
     (if bytes = [] \<or> last bytes \<noteq> 0 then Inl InvalidString
      else
        let null_pos =
              (case byte_position 0 bytes of Some p \<Rightarrow> p | None \<Rightarrow> length bytes - 1);
            s = take null_pos bytes
        in if utf8_valid s then Inr s else Inl InvalidString)"

definition read_string_value :: "bool \<Rightarrow> wire_message \<Rightarrow> rust_string option read_result" where
  "read_string_value nullable m =
     (case read_u32 m of
        (Inl e, m1) \<Rightarrow> (Inl e, m1)
      | (Inr v, m1) \<Rightarrow>
          let len = unat v in
          if len = 0 then (if nullable then Inr None else Inl InvalidString, m1)
          else case map_option align_down4 (usize_checked_add len 3) of
            None \<Rightarrow> (Inl InsufficientData, m1)
          | Some padded_len \<Rightarrow>
             (case usize_checked_add (msg_offset m1) padded_len of
                None \<Rightarrow> (Inl InsufficientData, m1)
              | Some end_ \<Rightarrow>
                  if end_ > length (msg_payload m1) then (Inl InsufficientData, m1)
                  else case usize_checked_add (msg_offset m1) len of
                    None \<Rightarrow> (Inl InsufficientData, m1)
                  | Some bytes_end \<Rightarrow>
                      (case terminated_string (slice (msg_payload m1) (msg_offset m1) bytes_end) of
                         Inl e \<Rightarrow> (Inl e, m1)
                       | Inr s \<Rightarrow> (Inr (Some s), m1\<lparr>msg_offset := end_\<rparr>))))"

definition read_string :: "wire_message \<Rightarrow> rust_string read_result" where
  "read_string m =
     (case read_string_value False m of
        (Inl e, m') \<Rightarrow> (Inl e, m')
      | (Inr None, m') \<Rightarrow> (Inl InvalidString, m')
      | (Inr (Some s), m') \<Rightarrow> (Inr s, m'))"

definition read_nullable_string :: "wire_message \<Rightarrow> rust_string option read_result" where
  "read_nullable_string m = read_string_value True m"

definition read_array :: "wire_message \<Rightarrow> u8 list read_result" where
  "read_array m =
     (case read_u32 m of
        (Inl e, m1) \<Rightarrow> (Inl e, m1)
      | (Inr v, m1) \<Rightarrow>
          let len = unat v in
          case map_option align_down4 (usize_checked_add len 3) of
            None \<Rightarrow> (Inl InsufficientData, m1)
          | Some padded_len \<Rightarrow>
             (case usize_checked_add (msg_offset m1) padded_len of
                None \<Rightarrow> (Inl InsufficientData, m1)
              | Some end_ \<Rightarrow>
                  if end_ > length (msg_payload m1) then (Inl InsufficientData, m1)
                  else case usize_checked_add (msg_offset m1) len of
                    None \<Rightarrow> (Inl InsufficientData, m1)
                  | Some bytes_end \<Rightarrow>
                      (Inr (slice (msg_payload m1) (msg_offset m1) bytes_end),
                       m1\<lparr>msg_offset := end_\<rparr>)))"

definition read_fd :: "wire_message \<Rightarrow> raw_fd read_result" where
  "read_fd m =
     (if msg_fd_offset m < length (msg_fds m)
      then (Inr (msg_fds m ! msg_fd_offset m), m\<lparr>msg_fd_offset := msg_fd_offset m + 1\<rparr>)
      else (Inl MissingFd, m))"

definition is_payload_consumed :: "wire_message \<Rightarrow> bool" where
  "is_payload_consumed m \<longleftrightarrow> msg_offset m = length (msg_payload m)"

section \<open>Writing\<close>

definition message_builder_new :: message_builder where
  "message_builder_new = \<lparr>mb_payload = [], mb_fds = []\<rparr>"

definition write_u32 :: "u32 \<Rightarrow> message_builder \<Rightarrow> message_builder" where
  "write_u32 v b = b\<lparr>mb_payload := mb_payload b @ u32_to_ne_bytes v\<rparr>"

definition write_i32 :: "i32 \<Rightarrow> message_builder \<Rightarrow> message_builder" where
  "write_i32 v b = write_u32 (as_u32 v) b"

definition write_fixed :: "i32 \<Rightarrow> message_builder \<Rightarrow> message_builder" where
  "write_fixed v b = write_i32 v b"

definition padding_of :: "u32 \<Rightarrow> u32" where
  "padding_of len = ((len + 3) AND NOT 3) - len"

definition write_string :: "rust_string \<Rightarrow> message_builder \<Rightarrow> message_builder" where
  "write_string s b =
     (let len = of_nat (length s) + 1;
          b1 = write_u32 len b
      in b1\<lparr>mb_payload := mb_payload b1 @ s @ [0] @ replicate (unat (padding_of len)) 0\<rparr>)"

definition write_nullable_string :: "rust_string option \<Rightarrow> message_builder \<Rightarrow> message_builder" where
  "write_nullable_string v b =
     (case v of Some s \<Rightarrow> write_string s b | None \<Rightarrow> write_u32 0 b)"

definition write_array :: "u8 list \<Rightarrow> message_builder \<Rightarrow> message_builder" where
  "write_array v b =
     (let len = of_nat (length v);
          b1 = write_u32 len b
      in b1\<lparr>mb_payload := mb_payload b1 @ v @ replicate (unat (padding_of len)) 0\<rparr>)"

definition write_fd :: "raw_fd \<Rightarrow> message_builder \<Rightarrow> message_builder" where
  "write_fd fd b = b\<lparr>mb_fds := mb_fds b @ [fd]\<rparr>"

definition try_build_message ::
    "message_builder \<Rightarrow> u32 \<Rightarrow> u16 \<Rightarrow> protocol_error + u8 list" where
  "try_build_message b sender op =
     (case usize_checked_add (length (mb_payload b)) 8 of
        None \<Rightarrow> Inl (MessageTooLarge (usize_limit - 1))
      | Some total_len \<Rightarrow>
          if total_len > 0xFFFF then Inl (MessageTooLarge total_len)
          else if total_len mod 4 \<noteq> 0 then Inl (InvalidMessageLength total_len)
          else Inr (u32_to_ne_bytes sender @
                    u32_to_ne_bytes (push_bit 16 (of_nat total_len) OR ucast op) @
                    mb_payload b))"

text \<open>\<open>build_message\<close> panics where \<open>try_build_message\<close> fails: \<open>None\<close> is the panic.\<close>

definition build_message :: "message_builder \<Rightarrow> u32 \<Rightarrow> u16 \<Rightarrow> u8 list option" where
  "build_message b sender op =
     (case try_build_message b sender op of Inl _ \<Rightarrow> None | Inr msg \<Rightarrow> Some msg)"

section \<open>Padding\<close>

lemma align_down4_mod [simp]: "align_down4 n mod 4 = 0"
  by (simp add: align_down4_def)

lemma unat_and_not_3: "unat ((x :: u32) AND NOT 3) = align_down4 (unat x)"
proof -
  have m: "(3 :: u32) = mask 2"
    by (simp add: mask_eq_exp_minus_1)
  have "x AND NOT 3 = push_bit 2 (drop_bit 2 x)"
    unfolding m
  proof (rule bit_word_eqI)
    fix n :: nat
    assume "n < LENGTH(32)"
    then show "bit (x AND NOT (mask 2)) n = bit (push_bit 2 (drop_bit 2 x)) n"
    proof (cases "2 \<le> n")
      case True
      then obtain k where "n = 2 + k"
        using le_Suc_ex by blast
      with \<open>n < LENGTH(32)\<close> show ?thesis
        by (simp add: bit_and_iff bit_not_iff bit_mask_iff bit_push_bit_iff bit_drop_bit_eq
          del: mask_numeral)
    next
      case False
      then show ?thesis
        by (simp add: bit_and_iff bit_not_iff bit_mask_iff bit_push_bit_iff del: mask_numeral)
    qed
  qed
  also have "unat \<dots> = (unat x div 4) * 4 mod 2 ^ 32"
    unfolding unsigned_push_bit_eq unat_drop_bit_eq
    by (simp add: push_bit_eq_mult drop_bit_eq_div take_bit_eq_mod)
  also have "\<dots> = (unat x div 4) * 4"
  proof -
    have "unat x div 4 * 4 \<le> unat x" by simp
    also have "unat x < 2 ^ 32" by (rule unat_u32_less)
    finally show ?thesis by simp
  qed
  finally show ?thesis by (simp add: align_down4_def)
qed

lemma align_down4_between: "n \<le> align_down4 (n + 3) \<and> align_down4 (n + 3) < n + 4"
  by (simp add: align_down4_def) arith

lemma unat_padding_of:
  assumes "unat len + 3 < 2 ^ 32"
  shows "unat (padding_of len) = align_down4 (unat len + 3) - unat len"
proof -
  have "unat (len + 3) = unat len + 3"
    using assms by (simp add: unat_word_ariths)
  then have u: "unat ((len + 3) AND NOT 3) = align_down4 (unat len + 3)"
    by (simp only: unat_and_not_3)
  then have "len \<le> (len + 3) AND NOT 3"
    unfolding word_le_nat_alt u using align_down4_between [of "unat len"] by simp
  then show ?thesis
    unfolding padding_of_def by (simp only: unat_sub u)
qed

section \<open>The codec contract\<close>

text \<open>
  \<open>bytes v\<close> is what a write of \<open>v\<close> appends.  A read positioned at these bytes returns
  \<open>v\<close> and stops right behind them; the appended length is a multiple of four.  Buffers
  longer than half the address space cannot exist (\<open>isize::MAX\<close>).
\<close>

definition vec_limit :: nat where
  "vec_limit = 2 ^ 63"

primrec write_all :: "('a \<Rightarrow> message_builder \<Rightarrow> message_builder) \<Rightarrow> 'a list \<Rightarrow>
    message_builder \<Rightarrow> message_builder" where
  "write_all wr [] b = b"
| "write_all wr (v # vs) b = write_all wr vs (wr v b)"

primrec read_all :: "(wire_message \<Rightarrow> 'a read_result) \<Rightarrow> nat \<Rightarrow> wire_message \<Rightarrow>
    'a list read_result" where
  "read_all rd 0 m = (Inr [], m)"
| "read_all rd (Suc n) m =
     (case rd m of
        (Inl e, m') \<Rightarrow> (Inl e, m')
      | (Inr v, m') \<Rightarrow> (case read_all rd n m' of (r, m'') \<Rightarrow> (map_sum id ((#) v) r, m'')))"

locale wire_codec =
  fixes wr :: "'a \<Rightarrow> message_builder \<Rightarrow> message_builder"
    and rd :: "wire_message \<Rightarrow> 'a read_result"
    and bytes :: "'a \<Rightarrow> u8 list"
    and valid :: "'a \<Rightarrow> bool"
  assumes wr_appends: "wr v b = b\<lparr>mb_payload := mb_payload b @ bytes v\<rparr>"
    and rd_bytes: "valid v \<Longrightarrow> msg_payload m = pre @ bytes v @ rest \<Longrightarrow>
      msg_offset m = length pre \<Longrightarrow> length (msg_payload m) < vec_limit \<Longrightarrow>
      rd m = (Inr v, m\<lparr>msg_offset := length (pre @ bytes v)\<rparr>)"
    and bytes_aligned: "valid v \<Longrightarrow> 4 dvd length (bytes v)"
begin

lemma wr_payload: "mb_payload (wr v b) = mb_payload b @ bytes v"
  by (simp add: wr_appends)

lemma wr_fds: "mb_fds (wr v b) = mb_fds b"
  by (simp add: wr_appends)

lemma wr_aligned: "valid v \<Longrightarrow> 4 dvd length (mb_payload b) \<Longrightarrow> 4 dvd length (mb_payload (wr v b))"
  by (simp add: wr_appends bytes_aligned)

lemma write_all_appends: "write_all wr vs b = b\<lparr>mb_payload := mb_payload b @ concat (map bytes vs)\<rparr>"
  by (induction vs arbitrary: b) (simp_all add: wr_appends)

lemma read_all_bytes:
  "list_all valid vs \<Longrightarrow> msg_payload m = pre @ concat (map bytes vs) @ rest \<Longrightarrow>
   msg_offset m = length pre \<Longrightarrow> length (msg_payload m) < vec_limit \<Longrightarrow>
   read_all rd (length vs) m = (Inr vs, m\<lparr>msg_offset := length (pre @ concat (map bytes vs))\<rparr>)"
proof (induction vs arbitrary: m pre)
  case Nil
  then show ?case by simp
next
  case (Cons v vs)
  let ?m' = "m\<lparr>msg_offset := length (pre @ bytes v)\<rparr>"
  have 1: "rd m = (Inr v, ?m')"
    using Cons.prems by (intro rd_bytes [where rest = "concat (map bytes vs) @ rest"]) simp_all
  have "read_all rd (length vs) ?m' =
      (Inr vs, ?m'\<lparr>msg_offset := length ((pre @ bytes v) @ concat (map bytes vs))\<rparr>)"
    using Cons.prems by (intro Cons.IH) simp_all
  then show ?case
    by (simp add: 1)
qed

lemma roundtrip:
  assumes "valid v" and "length (mb_payload b @ bytes v) < vec_limit"
  shows "rd ((wire_message_new s op (mb_payload (wr v b)) fds)\<lparr>msg_offset := length (mb_payload b)\<rparr>)
    = (Inr v, (wire_message_new s op (mb_payload (wr v b)) fds)
        \<lparr>msg_offset := length (mb_payload (wr v b))\<rparr>)"
  using assms rd_bytes [of v _ "mb_payload b" "[]"]
  by (simp add: wire_message_new_def wr_appends)

end

section \<open>The codecs of the message arguments\<close>

definition u32_bytes :: "u32 \<Rightarrow> u8 list" where
  "u32_bytes v = u32_to_ne_bytes v"

definition i32_bytes :: "i32 \<Rightarrow> u8 list" where
  "i32_bytes v = u32_to_ne_bytes (as_u32 v)"

definition string_bytes :: "rust_string \<Rightarrow> u8 list" where
  "string_bytes s = u32_to_ne_bytes (of_nat (length s) + 1) @ s @ [0] @
     replicate (unat (padding_of (of_nat (length s) + 1))) 0"

definition nullable_string_bytes :: "rust_string option \<Rightarrow> u8 list" where
  "nullable_string_bytes v = (case v of Some s \<Rightarrow> string_bytes s | None \<Rightarrow> u32_to_ne_bytes 0)"

definition array_bytes :: "u8 list \<Rightarrow> u8 list" where
  "array_bytes v = u32_to_ne_bytes (of_nat (length v)) @ v @
     replicate (unat (padding_of (of_nat (length v)))) 0"

text \<open>
  A string fits when its length word does not overflow and it carries no NUL, which the
  reader takes for the end of the string.
\<close>

definition wire_string :: "rust_string \<Rightarrow> bool" where
  "wire_string s \<longleftrightarrow> utf8_valid s \<and> 0 \<notin> set s \<and> length s + 4 < 2 ^ 32"

definition wire_array :: "u8 list \<Rightarrow> bool" where
  "wire_array v \<longleftrightarrow> length v + 3 < 2 ^ 32"

lemma slice_middle: "slice (pre @ xs @ rest) (length pre) (length pre + length xs) = xs"
  by (simp add: slice_def)

lemma limits [simp]: "n < vec_limit \<Longrightarrow> n < usize_limit"
  by (simp add: vec_limit_def usize_limit_def)

lemma read_u32_at:
  assumes "msg_payload m = pre @ u32_to_ne_bytes v @ rest"
    and "msg_offset m = length pre" and "length (msg_payload m) < vec_limit"
  shows "read_u32 m = (Inr v, m\<lparr>msg_offset := length pre + 4\<rparr>)"
proof -
  have "slice (msg_payload m) (length pre) (length pre + 4) = u32_to_ne_bytes v"
    using slice_middle [of pre "u32_to_ne_bytes v" rest] by (simp add: assms(1))
  moreover have "length pre + 4 < usize_limit"
    using assms by (intro limits) simp
  ultimately show ?thesis
    using assms by (simp add: read_u32_def)
qed

lemma unat_of_nat_u32: "n < 2 ^ 32 \<Longrightarrow> unat (of_nat n :: u32) = n"
  by (simp add: unat_of_nat take_bit_nat_eq_self)

lemma padded_length:
  assumes "n + 3 < 2 ^ 32"
  shows "n + unat (padding_of (of_nat n)) = align_down4 (n + 3)"
  using assms align_down4_between [of n] unat_padding_of [of "of_nat n"]
  by (simp add: unat_of_nat_u32)

lemma align_down4_dvd: "4 dvd align_down4 n"
  by (simp add: align_down4_def)

lemma array_body_length: "wire_array v \<Longrightarrow>
    length (v @ replicate (unat (padding_of (of_nat (length v)))) (0 :: u8)) =
    align_down4 (length v + 3)"
  using padded_length [of "length v"] by (simp add: wire_array_def)

lemma string_body_length: "wire_string s \<Longrightarrow>
    length (s @ [0] @ replicate (unat (padding_of (of_nat (length s) + 1))) (0 :: u8)) =
    align_down4 (length s + 1 + 3)"
  using padded_length [of "length s + 1"] by (simp add: wire_string_def add.commute)

interpretation u32_codec: wire_codec write_u32 read_u32 u32_bytes "\<lambda>_. True"
  by unfold_locales (auto simp: write_u32_def u32_bytes_def read_u32_at)

lemma read_i32_at:
  assumes "in_i32 v" and "msg_payload m = pre @ u32_to_ne_bytes (as_u32 v) @ rest"
    and "msg_offset m = length pre" and "length (msg_payload m) < vec_limit"
  shows "read_i32 m = (Inr v, m\<lparr>msg_offset := length pre + 4\<rparr>)"
  using assms(1) read_u32_at [OF assms(2-)] by (simp add: read_i32_def)

interpretation i32_codec: wire_codec write_i32 read_i32 i32_bytes in_i32
  by unfold_locales (auto simp: write_i32_def write_u32_def i32_bytes_def read_i32_at)

interpretation fixed_codec: wire_codec write_fixed read_fixed i32_bytes in_i32
  by unfold_locales
    (auto simp: write_fixed_def read_fixed_def write_i32_def write_u32_def i32_bytes_def read_i32_at)

lemma read_array_at:
  assumes v: "wire_array v" and pl: "msg_payload m = pre @ array_bytes v @ rest"
    and off: "msg_offset m = length pre" and len: "length (msg_payload m) < vec_limit"
  shows "read_array m = (Inr v, m\<lparr>msg_offset := length (pre @ array_bytes v)\<rparr>)"
proof -
  let ?pad = "replicate (unat (padding_of (of_nat (length v)))) (0 :: u8)"
  let ?len = "of_nat (length v) :: u32"
  let ?padded = "align_down4 (length v + 3)"
  have u: "unat ?len = length v"
    using v by (intro unat_of_nat_u32) (simp add: wire_array_def)
  have 1: "read_u32 m = (Inr ?len, m\<lparr>msg_offset := length pre + 4\<rparr>)"
    using pl off len by (intro read_u32_at) (simp_all add: array_bytes_def)
  have body: "length v + length ?pad = ?padded"
    using array_body_length [OF v] by simp
  then have total: "length (msg_payload m) = length pre + 4 + ?padded + length rest"
    by (simp add: pl array_bytes_def)
  have v3: "length v + 3 < usize_limit"
    using v by (simp add: wire_array_def usize_limit_def)
  have lim: "length pre + 4 + ?padded < usize_limit" "length pre + 4 + length v < usize_limit"
    using len body by (auto intro!: limits simp: total)
  have sl: "slice (msg_payload m) (length pre + 4) (length pre + 4 + length v) = v"
    using slice_middle [of "pre @ u32_to_ne_bytes ?len" v "?pad @ rest"]
    by (simp add: pl array_bytes_def)
  show ?thesis
    using total body lim v3 sl by (simp add: read_array_def 1 u array_bytes_def)
qed

interpretation array_codec: wire_codec write_array read_array array_bytes wire_array
proof
  fix v and b :: message_builder
  show "write_array v b = b\<lparr>mb_payload := mb_payload b @ array_bytes v\<rparr>"
    by (simp add: write_array_def write_u32_def array_bytes_def Let_def)
next
  fix v rest pre and m :: wire_message
  assume "wire_array v" "msg_payload m = pre @ array_bytes v @ rest"
    "msg_offset m = length pre" "length (msg_payload m) < vec_limit"
  then show "read_array m = (Inr v, m\<lparr>msg_offset := length (pre @ array_bytes v)\<rparr>)"
    by (rule read_array_at)
next
  fix v
  assume "wire_array v"
  from array_body_length [OF this] show "4 dvd length (array_bytes v)"
    by (simp add: array_bytes_def align_down4_dvd)
qed

lemma byte_position_terminator:
  "0 \<notin> set s \<Longrightarrow> byte_position 0 (s @ [0]) = Some (length s)"
proof -
  assume "0 \<notin> set s"
  then have "takeWhile (\<lambda>x. x \<noteq> 0) (s @ [0]) = s"
    by (subst takeWhile_append2) auto
  then show ?thesis by (simp add: byte_position_def)
qed

lemma read_string_value_at:
  assumes s: "wire_string s" and pl: "msg_payload m = pre @ string_bytes s @ rest"
    and off: "msg_offset m = length pre" and len: "length (msg_payload m) < vec_limit"
  shows "read_string_value nullable m =
    (Inr (Some s), m\<lparr>msg_offset := length (pre @ string_bytes s)\<rparr>)"
proof -
  define w where "w = (of_nat (length s) + 1 :: u32)"
  define n where "n = length s + 1"
  define o4 where "o4 = length pre + 4"
  define fin where "fin = length (pre @ string_bytes s)"
  let ?pad = "replicate (unat (padding_of w)) (0 :: u8)"
  have bytes: "string_bytes s = u32_to_ne_bytes w @ (s @ [0]) @ ?pad"
    by (simp add: string_bytes_def w_def)
  have u: "unat w = n"
    using s unat_of_nat_u32 [of n] by (simp add: w_def n_def wire_string_def add.commute)
  have 1: "read_u32 m = (Inr w, m\<lparr>msg_offset := o4\<rparr>)"
    using pl off len unfolding o4_def by (intro read_u32_at) (simp_all add: bytes)
  have body: "n + length ?pad = align_down4 (n + 3)"
    using string_body_length [OF s] by (simp add: w_def n_def)
  then have fin: "o4 + align_down4 (n + 3) = fin"
    by (simp add: o4_def fin_def bytes n_def)
  have fin_le: "\<not> fin > length (msg_payload m)"
    by (simp add: fin_def pl)
  have "n + 3 < usize_limit"
    using s by (simp add: n_def wire_string_def usize_limit_def)
  then have add3: "usize_checked_add n 3 = Some (n + 3)"
    by simp
  have "fin < usize_limit"
    using len fin_le by (intro limits) simp
  then have add1: "usize_checked_add o4 (align_down4 (n + 3)) = Some fin"
    and add2: "usize_checked_add o4 n = Some (o4 + n)"
    using fin body by (simp_all add: usize_checked_add_def)
  have sl: "slice (msg_payload m) o4 (o4 + n) = s @ [0]"
    using slice_middle [of "pre @ u32_to_ne_bytes w" "s @ [0]" "?pad @ rest"]
    by (simp add: pl bytes o4_def n_def)
  have ts: "terminated_string (s @ [0]) = Inr s"
    using s byte_position_terminator [of s] by (simp add: terminated_string_def wire_string_def)
  have "n \<noteq> 0"
    by (simp add: n_def)
  then show ?thesis
    unfolding fin_def [symmetric]
    using fin_le by (simp add: read_string_value_def 1 u add1 add2 add3 sl ts)
qed

lemma string_bytes_aligned: "wire_string s \<Longrightarrow> 4 dvd length (string_bytes s)"
  using string_body_length [of s] by (simp add: string_bytes_def align_down4_dvd)

interpretation string_codec: wire_codec write_string read_string string_bytes wire_string
proof
  fix v and b :: message_builder
  show "write_string v b = b\<lparr>mb_payload := mb_payload b @ string_bytes v\<rparr>"
    by (simp add: write_string_def write_u32_def string_bytes_def Let_def)
qed (simp_all add: read_string_def read_string_value_at string_bytes_aligned)

definition wire_nullable_string :: "rust_string option \<Rightarrow> bool" where
  "wire_nullable_string v = (case v of Some s \<Rightarrow> wire_string s | None \<Rightarrow> True)"

interpretation nullable_string_codec:
  wire_codec write_nullable_string read_nullable_string nullable_string_bytes wire_nullable_string
proof
  fix v and b :: message_builder
  show "write_nullable_string v b = b\<lparr>mb_payload := mb_payload b @ nullable_string_bytes v\<rparr>"
    by (simp add: write_nullable_string_def nullable_string_bytes_def string_codec.wr_appends
        write_u32_def split: option.split)
next
  fix v rest pre and m :: wire_message
  assume "wire_nullable_string v" "msg_payload m = pre @ nullable_string_bytes v @ rest"
    "msg_offset m = length pre" "length (msg_payload m) < vec_limit"
  show "read_nullable_string m =
      (Inr v, m\<lparr>msg_offset := length (pre @ nullable_string_bytes v)\<rparr>)"
  proof (cases v)
    case None
    with \<open>msg_payload m = _\<close> \<open>msg_offset m = _\<close> \<open>length (msg_payload m) < _\<close>
    have "read_u32 m = (Inr 0, m\<lparr>msg_offset := length pre + 4\<rparr>)"
      by (intro read_u32_at) (simp_all add: nullable_string_bytes_def)
    with None show ?thesis
      by (simp add: read_nullable_string_def read_string_value_def nullable_string_bytes_def)
  next
    case (Some s)
    then show ?thesis
      using \<open>wire_nullable_string v\<close> \<open>msg_payload m = _\<close> \<open>msg_offset m = _\<close>
        \<open>length (msg_payload m) < _\<close>
      by (simp add: read_nullable_string_def wire_nullable_string_def nullable_string_bytes_def
          read_string_value_at)
  qed
next
  fix v
  show "wire_nullable_string v \<Longrightarrow> 4 dvd length (nullable_string_bytes v)"
    by (simp add: wire_nullable_string_def nullable_string_bytes_def string_bytes_aligned
      split: option.splits)
qed

section \<open>Reads on arbitrary input\<close>

text \<open>
  Whatever bytes the peer sent, a read leaves the message alone, never moves a cursor
  backwards or past the end, and a string it returns is NUL-free UTF-8.
\<close>

datatype read_op = RdU32 | RdI32 | RdFixed | RdString | RdNullableString | RdArray | RdFd

definition read_step :: "wire_message \<Rightarrow> read_op \<Rightarrow> wire_message" where
  "read_step m op =
     (case op of
        RdU32 \<Rightarrow> snd (read_u32 m)
      | RdI32 \<Rightarrow> snd (read_i32 m)
      | RdFixed \<Rightarrow> snd (read_fixed m)
      | RdString \<Rightarrow> snd (read_string m)
      | RdNullableString \<Rightarrow> snd (read_nullable_string m)
      | RdArray \<Rightarrow> snd (read_array m)
      | RdFd \<Rightarrow> snd (read_fd m))"

definition cursor_ok :: "wire_message \<Rightarrow> bool" where
  "cursor_ok m \<longleftrightarrow> msg_offset m \<le> length (msg_payload m) \<and> msg_fd_offset m \<le> length (msg_fds m)"

definition cursor_advances :: "wire_message \<Rightarrow> wire_message \<Rightarrow> bool" where
  "cursor_advances m m' \<longleftrightarrow>
     msg_sender_id m' = msg_sender_id m \<and> msg_opcode m' = msg_opcode m \<and>
     msg_payload m' = msg_payload m \<and> msg_fds m' = msg_fds m \<and>
     msg_offset m \<le> msg_offset m' \<and> msg_fd_offset m \<le> msg_fd_offset m' \<and>
     (cursor_ok m \<longrightarrow> cursor_ok m')"

lemma cursor_advances_refl [simp]: "cursor_advances m m"
  by (simp add: cursor_advances_def)

lemma cursor_advances_trans:
  "cursor_advances m m' \<Longrightarrow> cursor_advances m' m'' \<Longrightarrow> cursor_advances m m''"
  by (auto simp: cursor_advances_def)

lemma cursor_advances_offset:
  "msg_offset m \<le> n \<Longrightarrow> n \<le> length (msg_payload m) \<Longrightarrow> cursor_advances m (m\<lparr>msg_offset := n\<rparr>)"
  by (simp add: cursor_advances_def cursor_ok_def)

lemma cursor_advances_ok: "cursor_advances m m' \<Longrightarrow> cursor_ok m \<Longrightarrow> cursor_ok m'"
  by (simp add: cursor_advances_def)

lemma read_u32_advances: "cursor_advances m (snd (read_u32 m))"
  by (auto simp: read_u32_def intro!: cursor_advances_offset dest: usize_checked_add_SomeD
      split: option.splits)

lemma read_i32_advances: "cursor_advances m (snd (read_i32 m))"
  using read_u32_advances [of m] by (cases "read_u32 m") (simp add: read_i32_def)

lemma read_array_advances: "cursor_advances m (snd (read_array m))"
proof -
  obtain r m1 where r: "read_u32 m = (r, m1)"
    by fastforce
  have "cursor_advances m m1"
    using read_u32_advances [of m] by (simp add: r)
  moreover have "cursor_advances m1 (snd (read_array m))"
    by (auto simp: read_array_def r Let_def intro!: cursor_advances_offset
        dest!: usize_checked_add_SomeD split: option.splits sum.splits)
  ultimately show ?thesis
    by (rule cursor_advances_trans)
qed

lemma read_string_value_advances: "cursor_advances m (snd (read_string_value nullable m))"
proof -
  obtain r m1 where r: "read_u32 m = (r, m1)"
    by fastforce
  have "cursor_advances m m1"
    using read_u32_advances [of m] by (simp add: r)
  moreover have "cursor_advances m1 (snd (read_string_value nullable m))"
    by (auto simp: read_string_value_def r Let_def intro!: cursor_advances_offset
        dest!: usize_checked_add_SomeD split: option.splits sum.splits)
  ultimately show ?thesis
    by (rule cursor_advances_trans)
qed

lemma read_string_advances: "cursor_advances m (snd (read_string m))"
  using read_string_value_advances [of m False]
  by (auto simp: read_string_def split: sum.splits option.splits prod.splits)

lemma read_fd_advances: "cursor_advances m (snd (read_fd m))"
  by (auto simp: read_fd_def cursor_advances_def cursor_ok_def)

lemma read_step_advances: "cursor_advances m (read_step m op)"
  by (cases op) (simp_all add: read_step_def read_fixed_def read_nullable_string_def
    read_u32_advances read_i32_advances read_string_advances read_string_value_advances
    read_array_advances read_fd_advances)

interpretation reader: machine read_step "\<lambda>m. cursor_advances m0 m" for m0
  by unfold_locales (blast intro: cursor_advances_trans read_step_advances)

lemma byte_position_take: "byte_position b bs = Some p \<Longrightarrow> b \<notin> set (take p bs)"
proof -
  assume "byte_position b bs = Some p"
  then have "take p bs = takeWhile (\<lambda>x. x \<noteq> b) bs"
    by (auto simp: byte_position_def Let_def takeWhile_eq_take [symmetric] split: if_splits)
  then show ?thesis
    by (auto dest: set_takeWhileD)
qed

lemma byte_position_last: "bs \<noteq> [] \<Longrightarrow> last bs = b \<Longrightarrow> \<exists>p. byte_position b bs = Some p"
proof -
  assume bs: "bs \<noteq> []" "last bs = b"
  have "length (takeWhile (\<lambda>x. x \<noteq> b) bs) \<noteq> length bs"
  proof
    assume "length (takeWhile (\<lambda>x. x \<noteq> b) bs) = length bs"
    then have "takeWhile (\<lambda>x. x \<noteq> b) bs = bs"
      by (metis takeWhile_eq_take take_all order_refl)
    then show False
      using bs last_in_set by (auto simp: takeWhile_eq_all_conv)
  qed
  moreover have "length (takeWhile (\<lambda>x. x \<noteq> b) bs) \<le> length bs"
    by (rule length_takeWhile_le)
  ultimately show ?thesis
    by (simp add: byte_position_def)
qed

text \<open>Hence the \<open>unwrap_or\<close> of the NUL search is never taken.\<close>

lemma terminated_string_sound:
  assumes "terminated_string bytes = Inr s"
  shows "utf8_valid s \<and> 0 \<notin> set s"
proof -
  from assms have "bytes \<noteq> []" "last bytes = 0"
    by (auto simp: terminated_string_def split: if_splits)
  then obtain p where p: "byte_position 0 bytes = Some p"
    using byte_position_last by blast
  with assms have "s = take p bytes" "utf8_valid s"
    by (auto simp: terminated_string_def Let_def split: if_splits)
  with byte_position_take [OF p] show ?thesis
    by simp
qed

lemma read_string_value_result:
  "pred_sum (\<lambda>_. True) (pred_option (\<lambda>s. utf8_valid s \<and> 0 \<notin> set s))
     (fst (read_string_value nullable m))"
proof (cases "read_u32 m")
  case (Pair r m1)
  then show ?thesis
    by (cases r) (auto simp: read_string_value_def Let_def dest: terminated_string_sound
      split: option.splits sum.splits)
qed

lemma read_string_value_sound:
  assumes "read_string_value nullable m = (Inr (Some s), m')"
  shows "utf8_valid s \<and> 0 \<notin> set s"
  using read_string_value_result [of nullable m] unfolding assms by simp

section \<open>Framing\<close>

text \<open>A builder filled by the codecs above is always word aligned, so only its size can fail.\<close>

lemma try_build_message_length:
  "try_build_message b s op = Inr msg \<Longrightarrow>
     length msg = length (mb_payload b) + 8 \<and> length msg \<le> 0xFFFF \<and> length msg mod 4 = 0"
  by (auto simp: try_build_message_def usize_checked_add_def split: if_split_asm) presburger

lemma try_build_message_ok:
  assumes "length (mb_payload b) + 8 \<le> 0xFFFF" and "4 dvd length (mb_payload b)"
  shows "try_build_message b s op =
     Inr (u32_to_ne_bytes s @
          u32_to_ne_bytes (push_bit 16 (of_nat (length (mb_payload b) + 8)) OR ucast op) @
          mb_payload b)"
proof -
  have "(length (mb_payload b) + 8) mod 4 = 0"
    using assms(2) by presburger
  with assms(1) show ?thesis
    by (simp add: try_build_message_def usize_checked_add_def usize_limit_def)
qed

end
