(* ===== verification/Shadow_Table.thy ===== *)
theory Shadow_Table
  imports Wire
begin

text \<open>
  The object-ID translation table of \<^verbatim>\<open>sommelier/src/state.rs\<close>: the two directions of the
  guest/host mapping, the interface and version metadata on both sides, and the three sets
  of IDs whose reuse must wait (retired host objects, host-only objects and guest objects
  whose destructor has not been acknowledged).  Every method of \<open>ShadowTable\<close> that changes
  the table is a function here; the two allocators are the source's bounded scans, where
  \<open>None\<close> is the panic on exhaustion.
\<close>

section \<open>Object identifiers and serials\<close>

datatype guest_id = GuestId (guest_raw: u32)

datatype host_id = HostId (host_raw: u32)

instantiation host_id :: linorder
begin

definition less_eq_host_id :: "host_id \<Rightarrow> host_id \<Rightarrow> bool" where
  "less_eq_host_id a b \<longleftrightarrow> host_raw a \<le> host_raw b"

definition less_host_id :: "host_id \<Rightarrow> host_id \<Rightarrow> bool" where
  "less_host_id a b \<longleftrightarrow> host_raw a < host_raw b"

instance
  by standard (auto simp: less_eq_host_id_def less_host_id_def host_id.expand)

end

text \<open>Serial comparison across the wrapping \<open>u32\<close> space.\<close>

definition serial_is_after :: "u32 \<Rightarrow> u32 \<Rightarrow> bool" where
  "serial_is_after candidate previous =
     (let distance = candidate - previous in distance \<noteq> 0 \<and> distance < 2 ^ 31)"

section \<open>The table\<close>

record shadow_table =
  guest_to_host :: "u32 \<rightharpoonup> u32"
  host_to_guest :: "u32 \<rightharpoonup> u32"
  interfaces :: "u32 \<rightharpoonup> string"
  host_interfaces :: "u32 \<rightharpoonup> string"
  guest_versions :: "u32 \<rightharpoonup> u32"
  host_versions :: "u32 \<rightharpoonup> u32"
  retired_host_ids :: "u32 set"
  pending_destroy_host_ids :: "u32 set"
  pending_destroy_guest_ids :: "u32 set"
  next_host_id :: u32
  next_guest_server_id :: u32

definition GUEST_SERVER_ID_START :: u32 where
  "GUEST_SERVER_ID_START = 0xff000000"

definition UNKNOWN_OBJECT_VERSION :: u32 where
  "UNKNOWN_OBJECT_VERSION = 0xffffffff"

definition shadow_table_new :: shadow_table where
  "shadow_table_new =
     \<lparr>guest_to_host = Map.empty, host_to_guest = Map.empty, interfaces = Map.empty,
      host_interfaces = Map.empty, guest_versions = Map.empty, host_versions = Map.empty,
      retired_host_ids = {}, pending_destroy_host_ids = {}, pending_destroy_guest_ids = {},
      next_host_id = 2, next_guest_server_id = GUEST_SERVER_ID_START\<rparr>"

subsection \<open>Allocation\<close>

definition host_id_free :: "shadow_table \<Rightarrow> u32 \<Rightarrow> bool" where
  "host_id_free t i \<longleftrightarrow>
     i \<ge> 2 \<and> host_to_guest t i = None \<and> host_interfaces t i = None \<and>
     i \<notin> retired_host_ids t \<and> i \<notin> pending_destroy_host_ids t"

fun allocate_host_loop :: "nat \<Rightarrow> shadow_table \<Rightarrow> u32 option \<times> shadow_table" where
  "allocate_host_loop n t =
     (if n = 0 then (None, t)
      else
        let i = next_host_id t;
            t' = t\<lparr>next_host_id := max (i + 1) 2\<rparr>
        in if host_id_free t' i then (Some i, t') else allocate_host_loop (n - 1) t')"

declare allocate_host_loop.simps [simp del]

definition allocate_host_id :: "shadow_table \<Rightarrow> u32 option \<times> shadow_table" where
  "allocate_host_id t = allocate_host_loop (2 ^ 32) t"

definition guest_server_id_free :: "shadow_table \<Rightarrow> u32 \<Rightarrow> bool" where
  "guest_server_id_free t i \<longleftrightarrow>
     i \<ge> GUEST_SERVER_ID_START \<and> guest_to_host t i = None \<and> interfaces t i = None"

fun allocate_guest_server_loop :: "nat \<Rightarrow> shadow_table \<Rightarrow> u32 option \<times> shadow_table" where
  "allocate_guest_server_loop n t =
     (if n = 0 then (None, t)
      else
        let i = next_guest_server_id t;
            t' = t\<lparr>next_guest_server_id :=
                     if i = 0xffffffff then GUEST_SERVER_ID_START else i + 1\<rparr>
        in if guest_server_id_free t' i then (Some i, t')
           else allocate_guest_server_loop (n - 1) t')"

declare allocate_guest_server_loop.simps [simp del]

definition allocate_guest_server_id :: "shadow_table \<Rightarrow> u32 option \<times> shadow_table" where
  "allocate_guest_server_id t = allocate_guest_server_loop (0x00ffffff + 1) t"

subsection \<open>Mapping and lookup\<close>

definition map_id :: "u32 \<Rightarrow> u32 \<Rightarrow> shadow_table \<Rightarrow> shadow_table" where
  "map_id guest host t =
     (let old_host = guest_to_host t guest;
          t1 = t\<lparr>guest_to_host := (guest_to_host t)(guest \<mapsto> host)\<rparr>;
          t2 = (case old_host of
                  Some oh \<Rightarrow>
                    if oh \<noteq> host \<and> host_to_guest t1 oh = Some guest
                    then t1\<lparr>host_to_guest := (host_to_guest t1)(oh := None),
                            host_versions := (host_versions t1)(oh := None)\<rparr>
                    else t1
                | None \<Rightarrow> t1);
          old_guest = host_to_guest t2 host;
          t3 = t2\<lparr>host_to_guest := (host_to_guest t2)(host \<mapsto> guest)\<rparr>
      in case old_guest of
           Some og \<Rightarrow>
             if og \<noteq> guest \<and> guest_to_host t3 og = Some host
             then t3\<lparr>guest_to_host := (guest_to_host t3)(og := None),
                     interfaces := (interfaces t3)(og := None),
                     guest_versions := (guest_versions t3)(og := None)\<rparr>
             else t3
         | None \<Rightarrow> t3)"

definition get_host_id :: "shadow_table \<Rightarrow> u32 \<Rightarrow> u32 option" where
  "get_host_id t guest = guest_to_host t guest"

definition get_guest_id :: "shadow_table \<Rightarrow> u32 \<Rightarrow> u32 option" where
  "get_guest_id t host = host_to_guest t host"

definition host_id_of :: "shadow_table \<Rightarrow> guest_id \<Rightarrow> host_id option" where
  "host_id_of t guest = map_option HostId (guest_to_host t (guest_raw guest))"

definition guest_id_of :: "shadow_table \<Rightarrow> host_id \<Rightarrow> guest_id option" where
  "guest_id_of t host = map_option GuestId (host_to_guest t (host_raw host))"

definition guest_object_matches :: "shadow_table \<Rightarrow> u32 \<Rightarrow> string \<Rightarrow> bool" where
  "guest_object_matches t guest interface \<longleftrightarrow> interfaces t guest = Some interface"

definition is_local_only_guest_object :: "shadow_table \<Rightarrow> u32 \<Rightarrow> bool" where
  "is_local_only_guest_object t guest =
     (case interfaces t guest of
        Some name \<Rightarrow> name \<in> {''wl_shm'', ''wl_shm_pool'', ''zwp_text_input_manager_v3'',
          ''zwp_linux_dmabuf_feedback_v1'', ''gtk_shell1'', ''gtk_surface1''}
      | None \<Rightarrow> False)"

definition host_object_matches :: "shadow_table \<Rightarrow> u32 \<Rightarrow> string \<Rightarrow> bool" where
  "host_object_matches t host interface \<longleftrightarrow>
     host_interfaces t host = Some interface \<or>
     (case host_to_guest t host of
        Some guest \<Rightarrow> interfaces t guest = Some interface
      | None \<Rightarrow> False)"

definition is_guest_id_available :: "shadow_table \<Rightarrow> u32 \<Rightarrow> bool" where
  "is_guest_id_available t guest \<longleftrightarrow>
     guest > 1 \<and> guest < GUEST_SERVER_ID_START \<and>
     guest_to_host t guest = None \<and> interfaces t guest = None"

definition is_guest_server_id :: "u32 \<Rightarrow> bool" where
  "is_guest_server_id guest \<longleftrightarrow> guest \<ge> GUEST_SERVER_ID_START"

definition is_host_id_available :: "shadow_table \<Rightarrow> u32 \<Rightarrow> bool" where
  "is_host_id_available t host \<longleftrightarrow>
     host > 1 \<and> host_to_guest t host = None \<and> host_interfaces t host = None \<and>
     host \<notin> retired_host_ids t \<and> host \<notin> pending_destroy_host_ids t"

definition is_event_sender_known :: "shadow_table \<Rightarrow> u32 \<Rightarrow> bool" where
  "is_event_sender_known t host \<longleftrightarrow> host_to_guest t host \<noteq> None \<or> host_interfaces t host \<noteq> None"

definition get_interface :: "shadow_table \<Rightarrow> u32 \<Rightarrow> string option" where
  "get_interface t guest = interfaces t guest"

definition get_host_interface :: "shadow_table \<Rightarrow> u32 \<Rightarrow> string option" where
  "get_host_interface t host = host_interfaces t host"

definition guest_object_version :: "shadow_table \<Rightarrow> u32 \<Rightarrow> u32 option" where
  "guest_object_version t guest =
     (case guest_versions t guest of
        Some v \<Rightarrow> Some v
      | None \<Rightarrow> Option.bind (guest_to_host t guest) (host_versions t))"

definition host_object_version :: "shadow_table \<Rightarrow> u32 \<Rightarrow> u32 option" where
  "host_object_version t host =
     (case host_versions t host of
        Some v \<Rightarrow> Some v
      | None \<Rightarrow> Option.bind (host_to_guest t host) (guest_versions t))"

subsection \<open>Interface registration\<close>

definition track_interface :: "u32 \<Rightarrow> string \<Rightarrow> shadow_table \<Rightarrow> shadow_table" where
  "track_interface guest interface t =
     t\<lparr>interfaces := (interfaces t)(guest \<mapsto> interface),
       guest_versions := (case guest_versions t guest of
          Some _ \<Rightarrow> guest_versions t
        | None \<Rightarrow> (guest_versions t)(guest \<mapsto> UNKNOWN_OBJECT_VERSION))\<rparr>"

definition track_interface_with_version ::
    "u32 \<Rightarrow> string \<Rightarrow> u32 \<Rightarrow> shadow_table \<Rightarrow> shadow_table" where
  "track_interface_with_version guest interface version t =
     t\<lparr>interfaces := (interfaces t)(guest \<mapsto> interface),
       guest_versions := (guest_versions t)(guest \<mapsto> version)\<rparr>"

definition track_host_interface :: "u32 \<Rightarrow> string \<Rightarrow> shadow_table \<Rightarrow> shadow_table" where
  "track_host_interface host interface t =
     t\<lparr>host_interfaces := (host_interfaces t)(host \<mapsto> interface),
       host_versions := (case host_versions t host of
          Some _ \<Rightarrow> host_versions t
        | None \<Rightarrow> (host_versions t)(host \<mapsto> UNKNOWN_OBJECT_VERSION))\<rparr>"

definition track_host_interface_with_version ::
    "u32 \<Rightarrow> string \<Rightarrow> u32 \<Rightarrow> shadow_table \<Rightarrow> shadow_table" where
  "track_host_interface_with_version host interface version t =
     t\<lparr>host_interfaces := (host_interfaces t)(host \<mapsto> interface),
       host_versions := (host_versions t)(host \<mapsto> version)\<rparr>"

definition set_host_version :: "u32 \<Rightarrow> u32 \<Rightarrow> shadow_table \<Rightarrow> shadow_table" where
  "set_host_version host version t = t\<lparr>host_versions := (host_versions t)(host \<mapsto> version)\<rparr>"

subsection \<open>Destruction\<close>

definition is_pending_destroy_guest :: "shadow_table \<Rightarrow> u32 \<Rightarrow> bool" where
  "is_pending_destroy_guest t guest \<longleftrightarrow> guest \<in> pending_destroy_guest_ids t"

definition is_pending_destroy_host :: "shadow_table \<Rightarrow> u32 \<Rightarrow> bool" where
  "is_pending_destroy_host t host =
     (case host_to_guest t host of
        Some guest \<Rightarrow> is_pending_destroy_guest t guest
      | None \<Rightarrow> False)"

definition is_pending_destroy_host_only :: "shadow_table \<Rightarrow> u32 \<Rightarrow> bool" where
  "is_pending_destroy_host_only t host \<longleftrightarrow> host \<in> pending_destroy_host_ids t"

definition mark_pending_destroy :: "u32 \<Rightarrow> shadow_table \<Rightarrow> shadow_table" where
  "mark_pending_destroy guest t =
     (if guest_to_host t guest \<noteq> None
      then t\<lparr>pending_destroy_guest_ids := insert guest (pending_destroy_guest_ids t)\<rparr>
      else t)"

definition mark_pending_destroy_host :: "u32 \<Rightarrow> shadow_table \<Rightarrow> bool \<times> shadow_table" where
  "mark_pending_destroy_host host t =
     (if host_to_guest t host \<noteq> None \<or> host_interfaces t host = None then (False, t)
      else (host \<notin> pending_destroy_host_ids t,
            t\<lparr>host_interfaces := (host_interfaces t)(host := None),
              host_versions := (host_versions t)(host := None),
              retired_host_ids := retired_host_ids t - {host},
              pending_destroy_host_ids := insert host (pending_destroy_host_ids t)\<rparr>))"

definition consume_host_delete_id :: "u32 \<Rightarrow> shadow_table \<Rightarrow> bool \<times> shadow_table" where
  "consume_host_delete_id host t =
     (host \<in> pending_destroy_host_ids t,
      t\<lparr>pending_destroy_host_ids := pending_destroy_host_ids t - {host}\<rparr>)"

definition clear_pending_destroy_guest :: "u32 \<Rightarrow> shadow_table \<Rightarrow> shadow_table" where
  "clear_pending_destroy_guest guest t =
     t\<lparr>pending_destroy_guest_ids := pending_destroy_guest_ids t - {guest}\<rparr>"

definition remove_host_interface :: "u32 \<Rightarrow> shadow_table \<Rightarrow> shadow_table" where
  "remove_host_interface host t =
     t\<lparr>host_interfaces := (host_interfaces t)(host := None),
       host_versions := (host_versions t)(host := None),
       retired_host_ids := retired_host_ids t - {host},
       pending_destroy_host_ids := pending_destroy_host_ids t - {host}\<rparr>"

definition retire_host_interface :: "u32 \<Rightarrow> shadow_table \<Rightarrow> shadow_table" where
  "retire_host_interface host t =
     t\<lparr>host_interfaces := (host_interfaces t)(host := None),
       host_versions := (host_versions t)(host := None),
       pending_destroy_host_ids := pending_destroy_host_ids t - {host},
       retired_host_ids := insert host (retired_host_ids t)\<rparr>"

definition remove_id :: "u32 \<Rightarrow> shadow_table \<Rightarrow> shadow_table" where
  "remove_id guest t =
     (let t1 = t\<lparr>pending_destroy_guest_ids := pending_destroy_guest_ids t - {guest}\<rparr>;
          t2 = (case guest_to_host t1 guest of
                  Some host \<Rightarrow>
                    t1\<lparr>guest_to_host := (guest_to_host t1)(guest := None),
                       host_to_guest := (host_to_guest t1)(host := None),
                       host_interfaces := (host_interfaces t1)(host := None),
                       host_versions := (host_versions t1)(host := None)\<rparr>
                | None \<Rightarrow> t1)
      in t2\<lparr>interfaces := (interfaces t2)(guest := None),
            guest_versions := (guest_versions t2)(guest := None)\<rparr>)"

definition remove_guest_mapping :: "u32 \<Rightarrow> shadow_table \<Rightarrow> shadow_table" where
  "remove_guest_mapping guest t =
     (let guest_interface = interfaces t guest;
          t1 = t\<lparr>interfaces := (interfaces t)(guest := None),
                 guest_versions := (guest_versions t)(guest := None)\<rparr>
      in case guest_to_host t1 guest of
           None \<Rightarrow> t1
         | Some host \<Rightarrow>
             let t2 = t1\<lparr>guest_to_host := (guest_to_host t1)(guest := None)\<rparr>;
                 t3 = (if host_to_guest t2 host = Some guest
                       then t2\<lparr>host_to_guest := (host_to_guest t2)(host := None)\<rparr> else t2)
             in case (host_interfaces t3 host, guest_interface) of
                  (None, Some interface) \<Rightarrow>
                    t3\<lparr>host_interfaces := (host_interfaces t3)(host \<mapsto> interface)\<rparr>
                | _ \<Rightarrow> t3)"

definition retire_server_destroyed_object ::
    "u32 \<Rightarrow> shadow_table \<Rightarrow> host_id option \<times> shadow_table" where
  "retire_server_destroyed_object guest t =
     (case guest_to_host t guest of
        None \<Rightarrow> (None, t)
      | Some host \<Rightarrow>
          (case mark_pending_destroy_host host (remove_guest_mapping guest t) of
             (marked, t') \<Rightarrow> (if marked then Some (HostId host) else None, t')))"

definition retire_guest_object :: "u32 \<Rightarrow> shadow_table \<Rightarrow> shadow_table" where
  "retire_guest_object guest t =
     (let interface = interfaces t guest;
          t1 = t\<lparr>interfaces := (interfaces t)(guest := None),
                 guest_versions := (guest_versions t)(guest := None)\<rparr>
      in case (guest_to_host t1 guest, interface) of
           (Some host, Some name) \<Rightarrow>
             t1\<lparr>pending_destroy_guest_ids := insert guest (pending_destroy_guest_ids t1),
                host_interfaces := (case host_interfaces t1 host of
                    Some _ \<Rightarrow> host_interfaces t1
                  | None \<Rightarrow> (host_interfaces t1)(host \<mapsto> name)),
                host_versions := (case host_versions t1 host of
                    Some _ \<Rightarrow> host_versions t1
                  | None \<Rightarrow> (host_versions t1)(host \<mapsto> UNKNOWN_OBJECT_VERSION))\<rparr>
         | _ \<Rightarrow> t1)"

section \<open>The table as a machine\<close>

datatype shadow_op =
    AllocateHostId
  | AllocateGuestServerId
  | MapId u32 u32
  | TrackInterface u32 string
  | TrackInterfaceWithVersion u32 string u32
  | TrackHostInterface u32 string
  | TrackHostInterfaceWithVersion u32 string u32
  | SetHostVersion u32 u32
  | MarkPendingDestroy u32
  | MarkPendingDestroyHost u32
  | ConsumeHostDeleteId u32
  | ClearPendingDestroyGuest u32
  | RemoveHostInterface u32
  | RetireHostInterface u32
  | RemoveId u32
  | RemoveGuestMapping u32
  | RetireServerDestroyedObject u32
  | RetireGuestObject u32

primrec shadow_step :: "shadow_table \<Rightarrow> shadow_op \<Rightarrow> shadow_table" where
  "shadow_step t AllocateHostId = snd (allocate_host_id t)"
| "shadow_step t AllocateGuestServerId = snd (allocate_guest_server_id t)"
| "shadow_step t (MapId g h) = map_id g h t"
| "shadow_step t (TrackInterface g i) = track_interface g i t"
| "shadow_step t (TrackInterfaceWithVersion g i v) = track_interface_with_version g i v t"
| "shadow_step t (TrackHostInterface h i) = track_host_interface h i t"
| "shadow_step t (TrackHostInterfaceWithVersion h i v) = track_host_interface_with_version h i v t"
| "shadow_step t (SetHostVersion h v) = set_host_version h v t"
| "shadow_step t (MarkPendingDestroy g) = mark_pending_destroy g t"
| "shadow_step t (MarkPendingDestroyHost h) = snd (mark_pending_destroy_host h t)"
| "shadow_step t (ConsumeHostDeleteId h) = snd (consume_host_delete_id h t)"
| "shadow_step t (ClearPendingDestroyGuest g) = clear_pending_destroy_guest g t"
| "shadow_step t (RemoveHostInterface h) = remove_host_interface h t"
| "shadow_step t (RetireHostInterface h) = retire_host_interface h t"
| "shadow_step t (RemoveId g) = remove_id g t"
| "shadow_step t (RemoveGuestMapping g) = remove_guest_mapping g t"
| "shadow_step t (RetireServerDestroyedObject g) = snd (retire_server_destroyed_object g t)"
| "shadow_step t (RetireGuestObject g) = retire_guest_object g t"

subsection \<open>The contract of an ID scan\<close>

text \<open>
  Both allocators advance a cursor until it meets a free ID.  The contract is the loop
  equation and that only the cursor changes; freshness, the frame and progress follow.
\<close>

locale id_scan =
  fixes scan :: "nat \<Rightarrow> 's \<Rightarrow> u32 option \<times> 's"
    and cursor :: "'s \<Rightarrow> u32"
    and put_cursor :: "u32 \<Rightarrow> 's \<Rightarrow> 's"
    and advance :: "u32 \<Rightarrow> u32"
    and free :: "'s \<Rightarrow> u32 \<Rightarrow> bool"
  assumes scan_eq: "scan n s =
      (if n = 0 then (None, s)
       else
         let i = cursor s; s' = put_cursor (advance i) s
         in if free s' i then (Some i, s') else scan (n - 1) s')"
    and cursor_put: "cursor (put_cursor c s) = c"
    and put_put: "put_cursor d (put_cursor c s) = put_cursor d s"
    and put_same: "put_cursor (cursor s) s = s"
    and free_put: "free (put_cursor c s) i = free s i"
begin

lemma scan_0: "scan 0 s = (None, s)"
  by (subst scan_eq) simp

lemma scan_Suc: "scan (Suc n) s =
  (if free s (cursor s) then (Some (cursor s), put_cursor (advance (cursor s)) s)
   else scan n (put_cursor (advance (cursor s)) s))"
  by (subst scan_eq) (simp add: Let_def free_put)

lemma frame: "\<exists>c. snd (scan n s) = put_cursor c s"
proof (induction n arbitrary: s)
  case 0
  then show ?case
    by (auto simp: scan_0 intro: exI [of _ "cursor s"] put_same [symmetric])
next
  case (Suc n)
  show ?case
    using Suc.IH [of "put_cursor (advance (cursor s)) s"] by (auto simp: scan_Suc put_put)
qed

lemma sound: "fst (scan n s) = Some i \<Longrightarrow> free s i"
proof (induction n arbitrary: s)
  case 0
  then show ?case by (simp add: scan_0)
next
  case (Suc n)
  then show ?case
    using Suc.IH [of "put_cursor (advance (cursor s)) s"]
    by (auto simp: scan_Suc free_put split: if_splits)
qed

lemma complete:
  "free s f \<Longrightarrow> (advance ^^ k) (cursor s) = f \<Longrightarrow> k < n \<Longrightarrow> \<exists>i. fst (scan n s) = Some i"
proof (induction k arbitrary: n s)
  case 0
  then obtain m where "n = Suc m"
    by (cases n) auto
  with 0 show ?case
    by (simp add: scan_Suc)
next
  case (Suc k)
  then obtain m where n: "n = Suc m" "k < m"
    by (cases n) auto
  let ?s = "put_cursor (advance (cursor s)) s"
  have "\<exists>i. fst (scan m ?s) = Some i"
    using Suc.prems n by (intro Suc.IH) (simp_all add: free_put cursor_put funpow_swap1)
  with n show ?case
    by (simp add: scan_Suc)
qed

end

definition next_host_cursor :: "u32 \<Rightarrow> u32" where
  "next_host_cursor c = max (c + 1) 2"

definition next_guest_server_cursor :: "u32 \<Rightarrow> u32" where
  "next_guest_server_cursor c = (if c = 0xffffffff then GUEST_SERVER_ID_START else c + 1)"

interpretation host_scan: id_scan allocate_host_loop next_host_id
  "\<lambda>c t. t\<lparr>next_host_id := c\<rparr>" next_host_cursor host_id_free
proof
  fix n and t :: shadow_table
  show "allocate_host_loop n t =
      (if n = 0 then (None, t)
       else
         let i = next_host_id t; t' = t\<lparr>next_host_id := next_host_cursor i\<rparr>
         in if host_id_free t' i then (Some i, t') else allocate_host_loop (n - 1) t')"
    by (subst allocate_host_loop.simps) (simp add: Let_def next_host_cursor_def)
qed (simp_all add: host_id_free_def)

interpretation guest_server_scan: id_scan allocate_guest_server_loop next_guest_server_id
  "\<lambda>c t. t\<lparr>next_guest_server_id := c\<rparr>" next_guest_server_cursor guest_server_id_free
proof
  fix n and t :: shadow_table
  show "allocate_guest_server_loop n t =
      (if n = 0 then (None, t)
       else
         let i = next_guest_server_id t;
             t' = t\<lparr>next_guest_server_id := next_guest_server_cursor i\<rparr>
         in if guest_server_id_free t' i then (Some i, t')
            else allocate_guest_server_loop (n - 1) t')"
    by (subst allocate_guest_server_loop.simps) (simp add: Let_def next_guest_server_cursor_def)
qed (simp_all add: guest_server_id_free_def)

lemma host_id_free_iff_available: "host_id_free t i = is_host_id_available t i"
proof -
  have "2 \<le> i \<longleftrightarrow> 1 < i"
    by (simp add: word_le_nat_alt word_less_nat_alt) arith
  then show ?thesis
    by (simp add: host_id_free_def is_host_id_available_def)
qed

subsection \<open>The scans visit every candidate\<close>

text \<open>
  The cursor of the host scan steps through \<open>2 .. u32::MAX\<close> cyclically, so the bound of
  \<open>2 ^ 32\<close> iterations is enough: the panic is reached only when no host ID is free.
\<close>

lemma unat_next_host_cursor:
  "unat (next_host_cursor c) = (if unat c = 2 ^ 32 - 1 then 2 else max (unat c + 1) 2)"
proof (cases "unat c = 2 ^ 32 - 1")
  case True
  then have "unat (c + 1) = 0"
    by (simp add: unat_word_ariths)
  then have "c + 1 = 0"
    by (simp add: unat_eq_zero)
  with True show ?thesis
    by (simp add: next_host_cursor_def max_def)
next
  case False
  with unat_u32_less [of c] have "unat (c + 1) = unat c + 1"
    by (simp add: unat_word_ariths)
  with False show ?thesis
    by (simp add: next_host_cursor_def max_def word_le_nat_alt)
qed

lemma next_host_cursor_forward:
  "2 \<le> unat c \<Longrightarrow> unat c + k < 2 ^ 32 \<Longrightarrow> unat ((next_host_cursor ^^ k) c) = unat c + k"
  by (induction k) (auto simp: unat_next_host_cursor)

lemma next_host_cursor_reaches:
  assumes "2 \<le> unat f"
  shows "\<exists>k < 2 ^ 32. (next_host_cursor ^^ k) c = f"
proof -
  have f: "unat f < 2 ^ 32" by (rule unat_u32_less)
  have from_two: "(next_host_cursor ^^ (unat f - 2)) d = f" if "unat d = 2" for d
    using next_host_cursor_forward [of d "unat f - 2"] that assms f
    by (simp add: word_unat_eq_iff)
  consider "unat c < 2" | "2 \<le> unat c" "unat c \<le> unat f" | "2 \<le> unat c" "unat f < unat c"
    by linarith
  then show ?thesis
  proof cases
    case 1
    then have "unat (next_host_cursor c) = 2"
      by (simp add: unat_next_host_cursor)
    from from_two [OF this] have "(next_host_cursor ^^ Suc (unat f - 2)) c = f"
      by (simp add: funpow_swap1)
    with f assms show ?thesis
      by (intro exI [of _ "Suc (unat f - 2)"]) simp
  next
    case 2
    with next_host_cursor_forward [of c "unat f - unat c"] f show ?thesis
      by (intro exI [of _ "unat f - unat c"]) (simp add: word_unat_eq_iff)
  next
    case 3
    define k where "k = 2 ^ 32 - 1 - unat c"
    have c: "unat c < 2 ^ 32" by (rule unat_u32_less)
    with 3 next_host_cursor_forward [of c k]
    have "unat ((next_host_cursor ^^ k) c) = 2 ^ 32 - 1"
      by (simp add: k_def)
    then have "unat ((next_host_cursor ^^ Suc k) c) = 2"
      by (simp add: unat_next_host_cursor)
    from from_two [OF this] have "(next_host_cursor ^^ (unat f - 2 + Suc k)) c = f"
      by (simp only: funpow_add o_def)
    moreover have "unat f - 2 + Suc k < 2 ^ 32"
      using 3 c by (simp add: k_def)
    ultimately show ?thesis by blast
  qed
qed

lemma allocate_host_id_complete:
  assumes "is_host_id_available t f"
  shows "\<exists>i. fst (allocate_host_id t) = Some i"
proof -
  have free: "host_id_free t f"
    using assms by (simp add: host_id_free_iff_available)
  then have "2 \<le> unat f"
    by (simp add: host_id_free_def word_le_nat_alt)
  from next_host_cursor_reaches [OF this]
  obtain k where "k < 2 ^ 32" "(next_host_cursor ^^ k) (next_host_id t) = f"
    by blast
  then show ?thesis
    unfolding allocate_host_id_def using free by (intro host_scan.complete)
qed

lemma allocate_host_id_fresh:
  "fst (allocate_host_id t) = Some i \<Longrightarrow> is_host_id_available t i"
  unfolding allocate_host_id_def
  by (drule host_scan.sound) (simp add: host_id_free_iff_available)

lemma allocate_host_id_frame: "\<exists>c. snd (allocate_host_id t) = t\<lparr>next_host_id := c\<rparr>"
  unfolding allocate_host_id_def by (rule host_scan.frame)

lemma unat_next_guest_server_cursor:
  "unat (next_guest_server_cursor c) =
     (if unat c = 2 ^ 32 - 1 then unat GUEST_SERVER_ID_START else unat c + 1)"
proof (cases "unat c = 2 ^ 32 - 1")
  case True
  then have "c = 0xffffffff"
    by (simp add: word_unat_eq_iff)
  with True show ?thesis
    by (simp add: next_guest_server_cursor_def)
next
  case False
  with unat_u32_less [of c] have "unat (c + 1) = unat c + 1"
    by (simp add: unat_word_ariths)
  with False show ?thesis
    by (auto simp: next_guest_server_cursor_def)
qed

lemma next_guest_server_cursor_forward:
  "unat c + k < 2 ^ 32 \<Longrightarrow> unat ((next_guest_server_cursor ^^ k) c) = unat c + k"
  by (induction k) (auto simp: unat_next_guest_server_cursor)

lemma next_guest_server_cursor_reaches:
  assumes "GUEST_SERVER_ID_START \<le> f" and "GUEST_SERVER_ID_START \<le> c"
  shows "\<exists>k < 0x01000000. (next_guest_server_cursor ^^ k) c = f"
proof (cases "unat c \<le> unat f")
  case True
  with next_guest_server_cursor_forward [of c "unat f - unat c"] unat_u32_less [of f] assms
  show ?thesis
    by (intro exI [of _ "unat f - unat c"])
      (simp add: word_unat_eq_iff word_le_nat_alt GUEST_SERVER_ID_START_def)
next
  case False
  define k where "k = 2 ^ 32 - 1 - unat c"
  have c: "unat c < 2 ^ 32" by (rule unat_u32_less)
  then have "unat ((next_guest_server_cursor ^^ k) c) = 2 ^ 32 - 1"
    using next_guest_server_cursor_forward [of c k] by (simp add: k_def)
  then have start: "unat ((next_guest_server_cursor ^^ Suc k) c) = unat GUEST_SERVER_ID_START"
    by (simp add: unat_next_guest_server_cursor)
  define j where "j = unat f - unat GUEST_SERVER_ID_START"
  have f: "unat f < 2 ^ 32" by (rule unat_u32_less)
  have "unat ((next_guest_server_cursor ^^ j) ((next_guest_server_cursor ^^ Suc k) c)) = unat f"
    using next_guest_server_cursor_forward [of "(next_guest_server_cursor ^^ Suc k) c" j]
      assms(1) f unfolding start by (simp add: j_def word_le_nat_alt)
  then have "(next_guest_server_cursor ^^ (j + Suc k)) c = f"
    by (simp only: funpow_add o_def word_unat_eq_iff)
  moreover have "j + Suc k < 0x01000000"
    using False assms c f
    by (simp add: j_def k_def word_le_nat_alt GUEST_SERVER_ID_START_def)
  ultimately show ?thesis by blast
qed

lemma allocate_guest_server_id_complete:
  assumes "guest_server_id_free t f" and "GUEST_SERVER_ID_START \<le> next_guest_server_id t"
  shows "\<exists>i. fst (allocate_guest_server_id t) = Some i"
proof -
  have "GUEST_SERVER_ID_START \<le> f"
    using assms(1) by (simp add: guest_server_id_free_def)
  from next_guest_server_cursor_reaches [OF this assms(2)]
  obtain k where "k < 0x01000000"
    "(next_guest_server_cursor ^^ k) (next_guest_server_id t) = f"
    by blast
  then show ?thesis
    unfolding allocate_guest_server_id_def using assms(1)
    by (intro guest_server_scan.complete) simp_all
qed

lemma allocate_guest_server_id_fresh:
  "fst (allocate_guest_server_id t) = Some i \<Longrightarrow> guest_server_id_free t i"
  unfolding allocate_guest_server_id_def by (rule guest_server_scan.sound)

lemma allocate_guest_server_id_frame:
  "\<exists>c. snd (allocate_guest_server_id t) = t\<lparr>next_guest_server_id := c\<rparr>"
  unfolding allocate_guest_server_id_def by (rule guest_server_scan.frame)

section \<open>Invariants\<close>

text \<open>
  \<open>paired\<close>: the two directions of the mapping are mutually inverse.  \<open>reserved_ok\<close>: a host
  ID waiting for its acknowledgement, or reserved until the connection ends, is neither
  mapped nor registered, and is never in both sets.
\<close>

definition paired :: "shadow_table \<Rightarrow> bool" where
  "paired t \<longleftrightarrow> (\<forall>g h. guest_to_host t g = Some h \<longleftrightarrow> host_to_guest t h = Some g)"

definition reserved_ids :: "shadow_table \<Rightarrow> u32 set" where
  "reserved_ids t = retired_host_ids t \<union> pending_destroy_host_ids t"

definition reserved_ok :: "shadow_table \<Rightarrow> bool" where
  "reserved_ok t \<longleftrightarrow>
     (\<forall>h \<in> reserved_ids t. host_to_guest t h = None \<and> host_interfaces t h = None) \<and>
     retired_host_ids t \<inter> pending_destroy_host_ids t = {}"

lemma pairedD: "paired t \<Longrightarrow> guest_to_host t g = Some h \<Longrightarrow> host_to_guest t h = Some g"
  by (simp add: paired_def)

lemma pairedD': "paired t \<Longrightarrow> host_to_guest t h = Some g \<Longrightarrow> guest_to_host t g = Some h"
  by (simp add: paired_def)

lemma paired_iff: "paired t \<Longrightarrow> host_to_guest t h = Some g \<longleftrightarrow> guest_to_host t g = Some h"
  by (simp add: paired_def)

lemma pairedI:
  "(\<And>g h. guest_to_host t g = Some h \<Longrightarrow> host_to_guest t h = Some g) \<Longrightarrow>
   (\<And>g h. host_to_guest t h = Some g \<Longrightarrow> guest_to_host t g = Some h) \<Longrightarrow> paired t"
  unfolding paired_def by blast

lemma paired_None: "paired t \<Longrightarrow> host_to_guest t h = None \<longleftrightarrow> (\<forall>g. guest_to_host t g \<noteq> Some h)"
  by (metis not_Some_eq paired_iff)

lemma paired_inj:
  "guest_to_host t g = Some h \<Longrightarrow> paired t \<Longrightarrow> guest_to_host t g' = Some h \<Longrightarrow> g = g'"
  by (metis option.inject paired_iff)

lemma paired_new: "paired shadow_table_new"
  by (simp add: paired_def shadow_table_new_def)

lemma reserved_ok_new: "reserved_ok shadow_table_new"
  by (simp add: reserved_ok_def reserved_ids_def shadow_table_new_def)

lemma paired_cong:
  "guest_to_host t' = guest_to_host t \<Longrightarrow> host_to_guest t' = host_to_guest t \<Longrightarrow>
   paired t' = paired t"
  by (simp add: paired_def)

lemma map_id_maps:
  assumes "paired t"
  shows "guest_to_host (map_id g h t) =
      (\<lambda>x. if x = g then Some h else if guest_to_host t x = Some h then None
           else guest_to_host t x)"
    and "host_to_guest (map_id g h t) =
      (\<lambda>x. if x = h then Some g else if host_to_guest t x = Some g then None
           else host_to_guest t x)"
  by (auto simp: map_id_def Let_def paired_iff [OF assms] paired_None [OF assms]
      fun_eq_iff dest: paired_inj [OF _ assms] split: option.splits)

lemma paired_map_id: "paired t \<Longrightarrow> paired (map_id g h t)"
  by (rule pairedI) (auto simp: map_id_maps paired_iff dest: paired_inj split: if_splits)

lemma remove_id_maps:
  assumes "paired t"
  shows "guest_to_host (remove_id g t) = (guest_to_host t)(g := None)"
    and "host_to_guest (remove_id g t) =
      (\<lambda>x. if host_to_guest t x = Some g then None else host_to_guest t x)"
  by (auto simp: remove_id_def Let_def paired_iff [OF assms] paired_None [OF assms]
      fun_eq_iff dest: paired_inj [OF _ assms] split: option.splits)

lemma remove_guest_mapping_maps:
  assumes "paired t"
  shows "guest_to_host (remove_guest_mapping g t) = (guest_to_host t)(g := None)"
    and "host_to_guest (remove_guest_mapping g t) =
      (\<lambda>x. if host_to_guest t x = Some g then None else host_to_guest t x)"
  by (auto simp: remove_guest_mapping_def Let_def paired_iff [OF assms] paired_None [OF assms]
      fun_eq_iff dest: paired_inj [OF _ assms] split: option.splits)

lemma paired_drop:
  "paired t \<Longrightarrow> guest_to_host t' = (guest_to_host t)(g := None) \<Longrightarrow>
   host_to_guest t' = (\<lambda>x. if host_to_guest t x = Some g then None else host_to_guest t x) \<Longrightarrow>
   paired t'"
  by (rule pairedI) (auto simp: paired_iff dest: paired_inj split: if_splits)

lemma mark_pending_destroy_host_frame:
  "guest_to_host (snd (mark_pending_destroy_host h t)) = guest_to_host t"
  "host_to_guest (snd (mark_pending_destroy_host h t)) = host_to_guest t"
  by (simp_all add: mark_pending_destroy_host_def)

lemma paired_step: "paired t \<Longrightarrow> paired (shadow_step t e)"
proof (induction e)
  case AllocateHostId
  with allocate_host_id_frame [of t] show ?case
    by (auto simp: paired_def)
next
  case AllocateGuestServerId
  with allocate_guest_server_id_frame [of t] show ?case
    by (auto simp: paired_def)
next
  case (RemoveId g)
  then show ?case
    using remove_id_maps [of t g] by (auto intro: paired_drop)
next
  case (RemoveGuestMapping g)
  then show ?case
    using remove_guest_mapping_maps [of t g] by (auto intro: paired_drop)
next
  case (RetireServerDestroyedObject g)
  have "paired (remove_guest_mapping g t)"
    using remove_guest_mapping_maps [OF RetireServerDestroyedObject] RetireServerDestroyedObject
    by (rule_tac paired_drop)
  then have "paired (snd (mark_pending_destroy_host h (remove_guest_mapping g t)))" for h
    by (simp add: paired_def mark_pending_destroy_host_frame)
  with RetireServerDestroyedObject show ?case
    by (simp add: retire_server_destroyed_object_def split: option.split prod.split)
      (metis snd_conv)
next
  case (RetireGuestObject g)
  then show ?case
    by (auto simp: retire_guest_object_def Let_def paired_def split: option.splits)
next
  case (MapId g h)
  then show ?case
    by (simp add: paired_map_id)
qed (auto simp: track_interface_def track_interface_with_version_def
    track_host_interface_def track_host_interface_with_version_def set_host_version_def
    mark_pending_destroy_def mark_pending_destroy_host_frame consume_host_delete_id_def
    clear_pending_destroy_guest_def remove_host_interface_def retire_host_interface_def
    cong: paired_cong simp: paired_def)

interpretation shadow_pairing: machine shadow_step paired
  by unfold_locales (rule paired_step)

subsection \<open>Reserved IDs\<close>

text \<open>
  What the callers guarantee: a host ID is mapped or registered only when it is not
  reserved (it comes from \<open>allocate_host_id\<close> or passed \<open>is_host_id_available\<close>), and only
  a host-only object is retired.
\<close>

definition shadow_op_allowed :: "shadow_table \<Rightarrow> shadow_op \<Rightarrow> bool" where
  "shadow_op_allowed t e =
     (case e of
        MapId g h \<Rightarrow> h \<notin> reserved_ids t
      | TrackHostInterface h i \<Rightarrow> h \<notin> reserved_ids t
      | TrackHostInterfaceWithVersion h i v \<Rightarrow> h \<notin> reserved_ids t
      | RetireHostInterface h \<Rightarrow> host_to_guest t h = None
      | _ \<Rightarrow> True)"

definition table_ok :: "shadow_table \<Rightarrow> bool" where
  "table_ok t \<longleftrightarrow> paired t \<and> reserved_ok t"

lemma reserved_okI:
  "(\<And>h. h \<in> retired_host_ids t \<Longrightarrow> h \<notin> pending_destroy_host_ids t \<and>
      host_to_guest t h = None \<and> host_interfaces t h = None) \<Longrightarrow>
   (\<And>h. h \<in> pending_destroy_host_ids t \<Longrightarrow>
      host_to_guest t h = None \<and> host_interfaces t h = None) \<Longrightarrow> reserved_ok t"
  by (auto simp: reserved_ok_def reserved_ids_def)

lemma reserved_okD:
  "reserved_ok t \<Longrightarrow> h \<in> retired_host_ids t \<Longrightarrow>
     h \<notin> pending_destroy_host_ids t \<and> host_to_guest t h = None \<and> host_interfaces t h = None"
  "reserved_ok t \<Longrightarrow> h \<in> pending_destroy_host_ids t \<Longrightarrow>
     host_to_guest t h = None \<and> host_interfaces t h = None"
  by (auto simp: reserved_ok_def reserved_ids_def)

lemma reserved_ok_mapped:
  "reserved_ok t \<Longrightarrow> host_to_guest t h = Some g \<Longrightarrow> h \<notin> reserved_ids t"
  by (auto simp: reserved_ids_def dest: reserved_okD)

lemma reserved_ok_paired:
  "guest_to_host t g = Some h \<Longrightarrow> reserved_ok t \<Longrightarrow> paired t \<Longrightarrow>
     h \<notin> retired_host_ids t \<and> h \<notin> pending_destroy_host_ids t"
  by (metis option.distinct(1) pairedD reserved_okD)

lemma reserved_ok_map_id:
  assumes "reserved_ok t" "paired t" "h \<notin> reserved_ids t"
  shows "reserved_ok (map_id g h t)"
proof -
  have r: "retired_host_ids (map_id g h t) = retired_host_ids t"
    "pending_destroy_host_ids (map_id g h t) = pending_destroy_host_ids t"
    "host_interfaces (map_id g h t) = host_interfaces t"
    by (simp_all add: map_id_def Let_def split: option.splits)
  show ?thesis
    using assms by (intro reserved_okI) (auto simp: r map_id_maps reserved_ids_def dest: reserved_okD)
qed

lemma remove_guest_mapping_sets:
  "retired_host_ids (remove_guest_mapping g t) = retired_host_ids t"
  "pending_destroy_host_ids (remove_guest_mapping g t) = pending_destroy_host_ids t"
  "pending_destroy_guest_ids (remove_guest_mapping g t) = pending_destroy_guest_ids t"
  by (simp_all add: remove_guest_mapping_def Let_def split: option.splits)

lemma remove_guest_mapping_interfaces:
  "host_interfaces (remove_guest_mapping g t) =
     (case (guest_to_host t g, interfaces t g) of
        (Some h, Some i) \<Rightarrow>
          (if host_interfaces t h = None then (host_interfaces t)(h \<mapsto> i) else host_interfaces t)
      | _ \<Rightarrow> host_interfaces t)"
  by (auto simp: remove_guest_mapping_def Let_def split: option.splits)

lemma reserved_ok_remove_guest_mapping:
  assumes "reserved_ok t" "paired t"
  shows "reserved_ok (remove_guest_mapping g t)"
  using assms
  by (intro reserved_okI)
    (auto simp: remove_guest_mapping_sets remove_guest_mapping_interfaces
      remove_guest_mapping_maps paired_None split: option.splits if_splits dest: reserved_okD)

lemma reserved_ok_mark_pending_destroy_host:
  "reserved_ok t \<Longrightarrow> reserved_ok (snd (mark_pending_destroy_host h t))"
  by (intro reserved_okI) (auto simp: mark_pending_destroy_host_def dest: reserved_okD
      split: if_splits)

lemma reserved_ok_remove_id:
  assumes "reserved_ok t" "paired t"
  shows "reserved_ok (remove_id g t)"
  using assms
  by (intro reserved_okI)
    (auto simp: remove_id_def Let_def split: option.splits dest: reserved_okD)

lemma reserved_ok_retire_guest_object:
  assumes "reserved_ok t" "paired t"
  shows "reserved_ok (retire_guest_object g t)"
  using assms
  by (intro reserved_okI)
    (auto simp: retire_guest_object_def Let_def split: option.splits if_splits
      dest: reserved_okD reserved_ok_paired)

lemma reserved_ok_step:
  assumes ok: "reserved_ok t" and p: "paired t" and allowed: "shadow_op_allowed t e"
  shows "reserved_ok (shadow_step t e)"
proof (cases e)
  case AllocateHostId
  with ok allocate_host_id_frame [of t] show ?thesis
    by (auto simp: reserved_ok_def reserved_ids_def)
next
  case AllocateGuestServerId
  with ok allocate_guest_server_id_frame [of t] show ?thesis
    by (auto simp: reserved_ok_def reserved_ids_def)
next
  case (RetireServerDestroyedObject g)
  have "reserved_ok (snd (mark_pending_destroy_host h (remove_guest_mapping g t)))" for h
    using ok p by (intro reserved_ok_mark_pending_destroy_host reserved_ok_remove_guest_mapping)
  with ok RetireServerDestroyedObject show ?thesis
    by (simp add: retire_server_destroyed_object_def split: option.split prod.split)
      (metis snd_conv)
qed (use ok p allowed in \<open>auto simp: reserved_ok_map_id reserved_ok_remove_guest_mapping
    reserved_ok_mark_pending_destroy_host reserved_ok_remove_id reserved_ok_retire_guest_object
    track_interface_def track_interface_with_version_def track_host_interface_def
    track_host_interface_with_version_def set_host_version_def mark_pending_destroy_def
    consume_host_delete_id_def clear_pending_destroy_guest_def remove_host_interface_def
    retire_host_interface_def shadow_op_allowed_def reserved_ids_def
    intro!: reserved_okI dest: reserved_okD\<close>)

interpretation shadow_guarded: guarded_machine shadow_step shadow_op_allowed table_ok
  by unfold_locales (simp add: table_ok_def paired_step reserved_ok_step)

lemma table_ok_new: "table_ok shadow_table_new"
  by (simp add: table_ok_def paired_new reserved_ok_new)

subsection \<open>A reservation lasts until its acknowledgement\<close>

definition releases :: "u32 \<Rightarrow> shadow_op \<Rightarrow> bool" where
  "releases h e \<longleftrightarrow> e = ConsumeHostDeleteId h \<or> e = RemoveHostInterface h"

lemma remove_id_sets:
  "retired_host_ids (remove_id g t) = retired_host_ids t"
  "pending_destroy_host_ids (remove_id g t) = pending_destroy_host_ids t"
  by (simp_all add: remove_id_def Let_def split: option.splits)

lemma map_id_sets:
  "retired_host_ids (map_id g h t) = retired_host_ids t"
  "pending_destroy_host_ids (map_id g h t) = pending_destroy_host_ids t"
  by (simp_all add: map_id_def Let_def split: option.splits)

lemma retire_guest_object_sets:
  "retired_host_ids (retire_guest_object g t) = retired_host_ids t"
  "pending_destroy_host_ids (retire_guest_object g t) = pending_destroy_host_ids t"
  by (simp_all add: retire_guest_object_def Let_def split: option.splits)

lemma reserved_mark:
  "h \<in> reserved_ids t \<Longrightarrow> h \<in> reserved_ids (snd (mark_pending_destroy_host h' t))"
  by (auto simp: reserved_ids_def mark_pending_destroy_host_def)

lemma reserved_remove_guest_mapping:
  "reserved_ids (remove_guest_mapping g t) = reserved_ids t"
  by (simp add: reserved_ids_def remove_guest_mapping_sets)

lemma reserved_step: "h \<in> reserved_ids t \<Longrightarrow> \<not> releases h e \<Longrightarrow> h \<in> reserved_ids (shadow_step t e)"
proof (cases e)
  case AllocateHostId
  then show "h \<in> reserved_ids t \<Longrightarrow> ?thesis"
    using allocate_host_id_frame [of t] by (auto simp: reserved_ids_def)
next
  case AllocateGuestServerId
  then show "h \<in> reserved_ids t \<Longrightarrow> ?thesis"
    using allocate_guest_server_id_frame [of t] by (auto simp: reserved_ids_def)
next
  case (RetireServerDestroyedObject g)
  have "h \<in> reserved_ids t \<Longrightarrow>
      h \<in> reserved_ids (snd (mark_pending_destroy_host h' (remove_guest_mapping g t)))" for h'
    by (intro reserved_mark) (simp add: reserved_remove_guest_mapping)
  with RetireServerDestroyedObject show "h \<in> reserved_ids t \<Longrightarrow> ?thesis"
    by (simp add: retire_server_destroyed_object_def split: option.split prod.split)
      (metis snd_conv)
qed (auto simp: reserved_mark reserved_remove_guest_mapping releases_def,
    auto simp: reserved_ids_def remove_id_sets map_id_sets retire_guest_object_sets
      track_interface_def track_interface_with_version_def track_host_interface_def
      track_host_interface_with_version_def set_host_version_def mark_pending_destroy_def
      consume_host_delete_id_def clear_pending_destroy_guest_def remove_host_interface_def
      retire_host_interface_def)

interpretation reservation: guarded_machine shadow_step
  "\<lambda>t e. shadow_op_allowed t e \<and> \<not> releases h e"
  "\<lambda>t. table_ok t \<and> h \<in> reserved_ids t" for h
  by unfold_locales (use reserved_step shadow_guarded.step_inv in blast)

lemma reserved_unavailable:
  "table_ok t \<Longrightarrow> h \<in> reserved_ids t \<Longrightarrow>
     \<not> is_host_id_available t h \<and> \<not> is_event_sender_known t h \<and> get_guest_id t h = None"
  by (auto simp: table_ok_def reserved_ids_def is_host_id_available_def is_event_sender_known_def
      get_guest_id_def dest: reserved_okD)

lemma allocate_host_id_avoids: "\<not> is_host_id_available t h \<Longrightarrow> fst (allocate_host_id t) \<noteq> Some h"
  using allocate_host_id_fresh by blast

section \<open>Properties\<close>

text \<open>C18: After any sequence of table operations the two translation directions are mutually
  inverse: a guest ID translates to a host ID exactly when that host ID translates back.\<close>

theorem shadow_translation_inverse:
  "get_host_id (run_ops shadow_step shadow_table_new es) g = Some h \<longleftrightarrow>
   get_guest_id (run_ops shadow_step shadow_table_new es) h = Some g"
  using shadow_pairing.run_always [OF paired_new, of es]
  by (simp add: get_host_id_def get_guest_id_def paired_def)

text \<open>Allocating a host ID returns an available ID and changes only the scan cursor; the
  exhaustion panic happens only when no host ID is available at all.\<close>

theorem allocate_host_id_total:
  "case allocate_host_id t of
     (Some i, t') \<Rightarrow> is_host_id_available t i \<and> t' = t\<lparr>next_host_id := next_host_id t'\<rparr>
   | (None, t') \<Rightarrow> \<not> (\<exists>i. is_host_id_available t i)"
proof -
  obtain r t' where a: "allocate_host_id t = (r, t')"
    by fastforce
  obtain c where "t' = t\<lparr>next_host_id := c\<rparr>"
    using allocate_host_id_frame [of t] by (auto simp: a)
  then have frame: "t' = t\<lparr>next_host_id := next_host_id t'\<rparr>"
    by simp
  show ?thesis
  proof (cases r)
    case None
    with allocate_host_id_complete [of t] a show ?thesis
      by auto
  next
    case (Some i)
    with allocate_host_id_fresh [of t i] a frame show ?thesis
      by simp
  qed
qed

text \<open>Once the host ID of a destroyed object is reserved, no operation that respects the
  callers' discipline makes it allocatable, mapped or dispatchable again until the host
  acknowledges it (or the registration is dropped).\<close>

theorem reserved_host_id_not_reused:
  assumes "table_ok t" and "h \<in> reserved_ids t"
    and "ops_allowed (\<lambda>s e. shadow_op_allowed s e \<and> \<not> releases h e) shadow_step t es"
  shows "fst (allocate_host_id (run_ops shadow_step t es)) \<noteq> Some h
       \<and> get_guest_id (run_ops shadow_step t es) h = None
       \<and> \<not> is_event_sender_known (run_ops shadow_step t es) h"
proof -
  have "table_ok (run_ops shadow_step t es) \<and> h \<in> reserved_ids (run_ops shadow_step t es)"
    using assms by (intro reservation.run_inv) simp_all
  then show ?thesis
    using reserved_unavailable allocate_host_id_avoids by blast
qed

theorem reserved_host_id_not_reused_witness:
  "fst (allocate_host_id (run_ops shadow_step
      (shadow_table_new\<lparr>pending_destroy_host_ids := {2}\<rparr>)
      [MapId 5 3, RetireServerDestroyedObject 5])) \<noteq> Some 2"
proof -
  let ?t = "shadow_table_new\<lparr>pending_destroy_host_ids := {2}\<rparr>"
  have ok: "table_ok ?t"
    by (simp add: table_ok_def paired_def reserved_ok_def reserved_ids_def shadow_table_new_def)
  have mem: "2 \<in> reserved_ids ?t"
    by (simp add: reserved_ids_def)
  have allowed: "ops_allowed (\<lambda>s e. shadow_op_allowed s e \<and> \<not> releases 2 e) shadow_step ?t
      [MapId 5 3, RetireServerDestroyedObject 5]"
    by (simp add: shadow_op_allowed_def releases_def reserved_ids_def shadow_table_new_def)
  show ?thesis
    using reserved_host_id_not_reused [OF ok mem allowed] by blast
qed

text \<open>Completing a server-destroyed object removes the guest side at once, keeps the host
  ID unusable, and hands it back exactly when the host's \<open>delete_id\<close> is consumed.\<close>

theorem retire_server_destroyed_reserves:
  assumes "paired t" and "retire_server_destroyed_object g t = (Some (HostId h), t')"
    and "h > 1"
  shows "get_host_id t g = Some h \<and> get_host_id t' g = None \<and> get_interface t' g = None
       \<and> \<not> is_event_sender_known t' h \<and> \<not> is_host_id_available t' h
       \<and> fst (consume_host_delete_id h t') \<and> is_host_id_available (snd (consume_host_delete_id h t')) h"
proof -
  have g: "guest_to_host t g = Some h"
    and m: "mark_pending_destroy_host h (remove_guest_mapping g t) = (True, t')"
    using assms(2) by (auto simp: retire_server_destroyed_object_def split: option.splits prod.splits
        if_splits)
  have i: "interfaces (remove_guest_mapping g t) g = None"
    by (simp add: remove_guest_mapping_def Let_def split: option.splits)
  have t': "guest_to_host t' g = None" "host_to_guest t' h = None" "host_interfaces t' h = None"
    "interfaces t' g = None" "h \<in> pending_destroy_host_ids t'" "h \<notin> retired_host_ids t'"
    using m i remove_guest_mapping_maps [OF assms(1), of g]
    by (auto simp: mark_pending_destroy_host_def split: if_splits)
  with g assms(3) show ?thesis
    by (simp add: get_host_id_def get_interface_def is_event_sender_known_def
        is_host_id_available_def consume_host_delete_id_def)
qed

theorem retire_server_destroyed_reserves_witness:
  "is_host_id_available (snd (consume_host_delete_id 9
     (snd (retire_server_destroyed_object 5
       (track_interface 5 ''wl_callback'' (map_id 5 9 shadow_table_new)))))) 9"
proof -
  let ?t = "track_interface 5 ''wl_callback'' (map_id 5 9 shadow_table_new)"
  have p: "paired ?t"
    using paired_map_id [OF paired_new, of 5 9] by (simp add: paired_def track_interface_def)
  have r: "retire_server_destroyed_object 5 ?t =
      (Some (HostId 9), snd (retire_server_destroyed_object 5 ?t))"
    by (simp add: retire_server_destroyed_object_def mark_pending_destroy_host_def
        remove_guest_mapping_def track_interface_def map_id_def shadow_table_new_def)
  show ?thesis
    using retire_server_destroyed_reserves [OF p r] by simp
qed

end
