(* ===== verification/Render_Buffer.thy ===== *)
theory Render_Buffer
  imports Shadow_Table
begin

text \<open>
  The render-buffer part of \<^verbatim>\<open>sommelier/src/state/render.rs\<close>: the backing storage of a
  buffer with the mappings and descriptors its destructors give back, the use and
  ownership phases, and \<open>RenderBufferRegistry\<close>, keyed by host ID.  The abstract
  specification is a map from host IDs to lifecycles on which every operation is an edge of
  a small state machine; the locale \<open>buffer_registry\<close> states that a registry simulates it.
\<close>

section \<open>Backing storage\<close>

text \<open>What a destructor hands back to the kernel.\<close>

datatype sys_release = Munmap nat nat | CloseFd raw_fd

definition MAP_FAILED :: nat where
  "MAP_FAILED = 2 ^ 64 - 1"

record pool_state =
  client_fd :: raw_fd
  client_ptr :: nat
  pool_size :: nat

definition pool_state_drop :: "pool_state \<Rightarrow> sys_release list" where
  "pool_state_drop p =
     (if client_ptr p \<noteq> 0 \<and> client_ptr p \<noteq> MAP_FAILED
      then [Munmap (client_ptr p) (pool_size p)] else []) @
     (if client_fd p \<ge> 0 then [CloseFd (client_fd p)] else [])"

text \<open>
  \<open>buf_pool\<close> names the shared \<open>Arc<PoolState>\<close> and \<open>buf_bo\<close> the GBM buffer object, which
  is owned by a library; both are opaque here.
\<close>

record buffer_state =
  buf_pool :: nat
  buf_offset :: i32
  buf_width :: i32
  buf_height :: i32
  buf_stride :: u32
  buf_format :: u32
  buf_bo :: "nat option"
  buf_dmabuf_fd :: "raw_fd option"
  buf_bo_stride :: u32
  buf_plane1_offset :: nat
  buf_plane1_stride :: nat
  buf_dmabuf_sync :: bool
  buf_dest_ptr :: nat
  buf_dest_size :: nat
  buf_needs_full_copy :: bool

text \<open>The destructor unmaps the output; the field \<open>dmabuf_fd: Option<OwnedFd>\<close> closes itself.\<close>

definition buffer_state_drop :: "buffer_state \<Rightarrow> sys_release list" where
  "buffer_state_drop b =
     (if buf_dest_ptr b \<noteq> 0 \<and> buf_dest_ptr b \<noteq> MAP_FAILED
      then [Munmap (buf_dest_ptr b) (buf_dest_size b)] else []) @
     (case buf_dmabuf_fd b of Some fd \<Rightarrow> [CloseFd fd] | None \<Rightarrow> [])"

section \<open>Phases of a buffer\<close>

datatype render_buffer_use =
    NeverSubmitted
  | AwaitingRelease (has_detached_use: bool)
  | Released

definition use_awaiting :: render_buffer_use where
  "use_awaiting = AwaitingRelease False"

definition is_awaiting_release :: "render_buffer_use \<Rightarrow> bool" where
  "is_awaiting_release u = (case u of AwaitingRelease _ \<Rightarrow> True | _ \<Rightarrow> False)"

datatype render_buffer_lifecycle =
    GuestAlive render_buffer_use
  | GuestDestroyed render_buffer_use
  | HostDestroyQueued

definition use_state_of :: "render_buffer_lifecycle \<Rightarrow> render_buffer_use option" where
  "use_state_of l =
     (case l of GuestAlive u \<Rightarrow> Some u | GuestDestroyed u \<Rightarrow> Some u | HostDestroyQueued \<Rightarrow> None)"

definition is_guest_destroyed :: "render_buffer_lifecycle \<Rightarrow> bool" where
  "is_guest_destroyed l = (case l of GuestDestroyed _ \<Rightarrow> True | _ \<Rightarrow> False)"

datatype render_buffer_backing =
    LocalCopy buffer_state
  | Native "i32 \<times> i32" "raw_fd list"

record active_render_buffer =
  arb_backing :: render_buffer_backing
  arb_use_state :: render_buffer_use
  arb_implicit_sync_fallback :: bool

datatype render_buffer =
    RbGuestAlive active_render_buffer
  | RbGuestDestroyed active_render_buffer
  | RbHostDestroyQueued

text \<open>What dropping a buffer generation gives back.\<close>

definition backing_drop :: "render_buffer_backing \<Rightarrow> sys_release list" where
  "backing_drop b =
     (case b of LocalCopy s \<Rightarrow> buffer_state_drop s | Native sz fds \<Rightarrow> map CloseFd fds)"

definition active :: "render_buffer \<Rightarrow> active_render_buffer option" where
  "active rb =
     (case rb of
        RbGuestAlive b \<Rightarrow> Some b
      | RbGuestDestroyed b \<Rightarrow> Some b
      | RbHostDestroyQueued \<Rightarrow> None)"

text \<open>A write through the reference that \<open>active_mut\<close> returns.\<close>

definition active_mut :: "active_render_buffer \<Rightarrow> render_buffer \<Rightarrow> render_buffer" where
  "active_mut b rb =
     (case rb of
        RbGuestAlive _ \<Rightarrow> RbGuestAlive b
      | RbGuestDestroyed _ \<Rightarrow> RbGuestDestroyed b
      | RbHostDestroyQueued \<Rightarrow> RbHostDestroyQueued)"

definition lifecycle_of :: "render_buffer \<Rightarrow> render_buffer_lifecycle" where
  "lifecycle_of rb =
     (case rb of
        RbGuestAlive b \<Rightarrow> GuestAlive (arb_use_state b)
      | RbGuestDestroyed b \<Rightarrow> GuestDestroyed (arb_use_state b)
      | RbHostDestroyQueued \<Rightarrow> HostDestroyQueued)"

section \<open>The registry\<close>

type_synonym render_registry = "(host_id, render_buffer) hmap"

definition register_active ::
    "host_id \<Rightarrow> render_buffer_backing \<Rightarrow> render_registry \<Rightarrow> bool \<times> render_registry" where
  "register_active h backing r =
     (case hm_get r h of
        None \<Rightarrow> (True, hm_insert h (RbGuestAlive
          \<lparr>arb_backing = backing, arb_use_state = NeverSubmitted,
           arb_implicit_sync_fallback = False\<rparr>) r)
      | Some _ \<Rightarrow> (False, r))"

definition register_local ::
    "host_id \<Rightarrow> buffer_state \<Rightarrow> render_registry \<Rightarrow> bool \<times> render_registry" where
  "register_local h backing r = register_active h (LocalCopy backing) r"

definition register_native ::
    "host_id \<Rightarrow> i32 \<times> i32 \<Rightarrow> raw_fd list \<Rightarrow> render_registry \<Rightarrow> bool \<times> render_registry" where
  "register_native h sz sync_fds r = register_active h (Native sz sync_fds) r"

definition contains :: "render_registry \<Rightarrow> host_id \<Rightarrow> bool" where
  "contains r h \<longleftrightarrow> hm_get r h \<noteq> None"

text \<open>\<open>self.entries.get(&host_id)?.active()?\<close>\<close>

definition get_active :: "render_registry \<Rightarrow> host_id \<Rightarrow> active_render_buffer option" where
  "get_active r h = Option.bind (hm_get r h) active"

definition put_active ::
    "host_id \<Rightarrow> active_render_buffer \<Rightarrow> render_registry \<Rightarrow> render_registry" where
  "put_active h b r =
     (case hm_get r h of Some rb \<Rightarrow> hm_insert h (active_mut b rb) r | None \<Rightarrow> r)"

definition local_copy :: "render_registry \<Rightarrow> host_id \<Rightarrow> buffer_state option" where
  "local_copy r h =
     (case get_active r h of
        None \<Rightarrow> None
      | Some b \<Rightarrow> (case arb_backing b of LocalCopy s \<Rightarrow> Some s | Native _ _ \<Rightarrow> None))"

text \<open>A write of the buffer state behind \<open>local_copy_mut\<close>.\<close>

definition local_copy_mut :: "host_id \<Rightarrow> buffer_state \<Rightarrow> render_registry \<Rightarrow> render_registry" where
  "local_copy_mut h s r =
     (case get_active r h of
        None \<Rightarrow> r
      | Some b \<Rightarrow>
         (case arb_backing b of
            LocalCopy _ \<Rightarrow> put_active h (b\<lparr>arb_backing := LocalCopy s\<rparr>) r
          | Native _ _ \<Rightarrow> r))"

definition dimensions :: "render_registry \<Rightarrow> host_id \<Rightarrow> (i32 \<times> i32) option" where
  "dimensions r h =
     (case get_active r h of
        None \<Rightarrow> None
      | Some b \<Rightarrow>
         (case arb_backing b of
            LocalCopy s \<Rightarrow> Some (buf_width s, buf_height s)
          | Native sz _ \<Rightarrow> Some sz))"

definition native_sync_fds :: "render_registry \<Rightarrow> host_id \<Rightarrow> raw_fd list option" where
  "native_sync_fds r h =
     (case get_active r h of
        None \<Rightarrow> None
      | Some b \<Rightarrow> (case arb_backing b of Native _ fds \<Rightarrow> Some fds | LocalCopy _ \<Rightarrow> None))"

definition uses_implicit_sync_fallback :: "render_registry \<Rightarrow> host_id \<Rightarrow> bool" where
  "uses_implicit_sync_fallback r h =
     (case get_active r h of Some b \<Rightarrow> arb_implicit_sync_fallback b | None \<Rightarrow> False)"

definition enable_implicit_sync_fallback ::
    "host_id \<Rightarrow> render_registry \<Rightarrow> bool \<times> render_registry" where
  "enable_implicit_sync_fallback h r =
     (case get_active r h of
        None \<Rightarrow> (False, r)
      | Some b \<Rightarrow>
         (case arb_backing b of
            LocalCopy _ \<Rightarrow> (False, r)
          | Native _ _ \<Rightarrow> (True, put_active h (b\<lparr>arb_implicit_sync_fallback := True\<rparr>) r)))"

definition lifecycle :: "render_registry \<Rightarrow> host_id \<Rightarrow> render_buffer_lifecycle option" where
  "lifecycle r h = map_option lifecycle_of (hm_get r h)"

definition lifecycles :: "render_registry \<Rightarrow> (host_id \<times> render_buffer_lifecycle) list" where
  "lifecycles r =
     concat (map (\<lambda>h. case lifecycle r h of Some l \<Rightarrow> [(h, l)] | None \<Rightarrow> []) (map fst r))"

definition registry_remove :: "host_id \<Rightarrow> render_registry \<Rightarrow> bool \<times> render_registry" where
  "registry_remove h r = (contains r h, hm_remove h r)"

definition can_submit :: "render_registry \<Rightarrow> host_id \<Rightarrow> bool" where
  "can_submit r h = (case hm_get r h of Some rb \<Rightarrow> active rb \<noteq> None | None \<Rightarrow> False)"

definition can_detach :: "render_registry \<Rightarrow> host_id \<Rightarrow> bool" where
  "can_detach r h =
     (case get_active r h of Some b \<Rightarrow> arb_use_state b \<noteq> NeverSubmitted | None \<Rightarrow> False)"

definition submit :: "host_id \<Rightarrow> render_registry \<Rightarrow> bool \<times> render_registry" where
  "submit h r =
     (case get_active r h of
        None \<Rightarrow> (False, r)
      | Some b \<Rightarrow>
         (True,
          case arb_use_state b of
            AwaitingRelease _ \<Rightarrow> r
          | _ \<Rightarrow> put_active h (b\<lparr>arb_use_state := use_awaiting\<rparr>) r))"

definition release :: "host_id \<Rightarrow> render_registry \<Rightarrow> bool \<times> render_registry" where
  "release h r =
     (case get_active r h of
        None \<Rightarrow> (False, r)
      | Some b \<Rightarrow>
          if \<not> is_awaiting_release (arb_use_state b) then (False, r)
          else (True, put_active h (b\<lparr>arb_use_state := Released\<rparr>) r))"

definition detach :: "host_id \<Rightarrow> render_registry \<Rightarrow> bool \<times> render_registry" where
  "detach h r =
     (case get_active r h of
        None \<Rightarrow> (False, r)
      | Some b \<Rightarrow>
         (case arb_use_state b of
            AwaitingRelease _ \<Rightarrow> (True, put_active h (b\<lparr>arb_use_state := AwaitingRelease True\<rparr>) r)
          | Released \<Rightarrow> (True, r)
          | NeverSubmitted \<Rightarrow> (False, r)))"

definition end_last_surface_use ::
    "host_id \<Rightarrow> bool \<Rightarrow> render_registry \<Rightarrow> bool \<times> render_registry" where
  "end_last_surface_use h has_other_current r =
     (case get_active r h of
        None \<Rightarrow> (False, r)
      | Some b \<Rightarrow>
          if has_other_current then (True, r)
          else case arb_use_state b of
            AwaitingRelease detached \<Rightarrow>
              (True, if \<not> detached then put_active h (b\<lparr>arb_use_state := NeverSubmitted\<rparr>) r
                     else r)
          | Released \<Rightarrow> (True, r)
          | NeverSubmitted \<Rightarrow> (False, r))"

text \<open>\<open>None\<close> is a failed \<open>debug_assert!\<close>.\<close>

definition finalize_attachment ::
    "host_id option \<Rightarrow> host_id option \<Rightarrow> render_registry \<Rightarrow> (bool \<times> render_registry) option" where
  "finalize_attachment previous nxt r =
     (if previous = nxt
      then Some (case nxt of None \<Rightarrow> (True, r) | Some h \<Rightarrow> submit h r)
      else if (case previous of Some h \<Rightarrow> \<not> can_detach r h | None \<Rightarrow> False) \<or>
              (case nxt of Some h \<Rightarrow> \<not> can_submit r h | None \<Rightarrow> False)
      then Some (False, r)
      else
        Option.bind
          (case previous of
             None \<Rightarrow> Some r
           | Some h \<Rightarrow> (case detach h r of (detached, r1) \<Rightarrow> if detached then Some r1 else None))
          (\<lambda>r1. case nxt of
             None \<Rightarrow> Some (True, r1)
           | Some h \<Rightarrow> (case submit h r1 of (submitted, r2) \<Rightarrow>
                          if submitted then Some (True, r2) else None)))"

definition mark_guest_destroyed :: "host_id \<Rightarrow> render_registry \<Rightarrow> bool \<times> render_registry" where
  "mark_guest_destroyed h r =
     (case hm_get r h of
        Some (RbGuestAlive b) \<Rightarrow> (True, hm_insert h (RbGuestDestroyed b) r)
      | _ \<Rightarrow> (False, r))"

definition mark_host_destroy_queued ::
    "host_id \<Rightarrow> render_registry \<Rightarrow> bool \<times> render_registry" where
  "mark_host_destroy_queued h r =
     (case hm_get r h of
        None \<Rightarrow> (False, r)
      | Some RbHostDestroyQueued \<Rightarrow> (False, r)
      | Some _ \<Rightarrow> (True, hm_insert h RbHostDestroyQueued r))"

section \<open>The abstract specification\<close>

text \<open>
  Seen from outside a registry is a map from host IDs to lifecycles.  \<open>life_edge f h\<close> moves
  the use phase of \<open>h\<close> along \<open>f\<close>; the operation is refused, without effect, when \<open>h\<close> has no
  use phase or \<open>f\<close> has no edge there.
\<close>

type_synonym lifemap = "host_id \<Rightarrow> render_buffer_lifecycle option"

datatype buffer_op =
    RegisterLocal host_id buffer_state
  | RegisterNative host_id "i32 \<times> i32" "raw_fd list"
  | WriteLocalCopy host_id buffer_state
  | EnableImplicitSync host_id
  | RemoveBuffer host_id
  | SubmitBuffer host_id
  | ReleaseBuffer host_id
  | DetachBuffer host_id
  | EndLastSurfaceUse host_id bool
  | FinalizeAttachment "host_id option" "host_id option"
  | MarkGuestDestroyed host_id
  | MarkHostDestroyQueued host_id

definition set_use :: "render_buffer_use \<Rightarrow> render_buffer_lifecycle \<Rightarrow> render_buffer_lifecycle" where
  "set_use u l =
     (case l of
        GuestAlive _ \<Rightarrow> GuestAlive u
      | GuestDestroyed _ \<Rightarrow> GuestDestroyed u
      | HostDestroyQueued \<Rightarrow> HostDestroyQueued)"

definition life_use :: "lifemap \<Rightarrow> host_id \<Rightarrow> render_buffer_use option" where
  "life_use m h = Option.bind (m h) use_state_of"

definition life_edge ::
    "(render_buffer_use \<Rightarrow> render_buffer_use option) \<Rightarrow> host_id \<Rightarrow> lifemap \<Rightarrow> bool \<times> lifemap" where
  "life_edge f h m =
     (case (m h, Option.bind (life_use m h) f) of
        (Some l, Some u) \<Rightarrow> (True, m(h \<mapsto> set_use u l))
      | _ \<Rightarrow> (False, m))"

definition submit_edge :: "render_buffer_use \<Rightarrow> render_buffer_use option" where
  "submit_edge u = Some (if is_awaiting_release u then u else AwaitingRelease False)"

definition release_edge :: "render_buffer_use \<Rightarrow> render_buffer_use option" where
  "release_edge u = (if is_awaiting_release u then Some Released else None)"

definition detach_edge :: "render_buffer_use \<Rightarrow> render_buffer_use option" where
  "detach_edge u =
     (case u of
        NeverSubmitted \<Rightarrow> None
      | AwaitingRelease _ \<Rightarrow> Some (AwaitingRelease True)
      | Released \<Rightarrow> Some Released)"

definition end_edge :: "bool \<Rightarrow> render_buffer_use \<Rightarrow> render_buffer_use option" where
  "end_edge other u =
     (if other then Some u
      else case u of
        NeverSubmitted \<Rightarrow> None
      | AwaitingRelease d \<Rightarrow> Some (if d then u else NeverSubmitted)
      | Released \<Rightarrow> Some Released)"

definition life_register :: "host_id \<Rightarrow> lifemap \<Rightarrow> bool \<times> lifemap" where
  "life_register h m =
     (if m h = None then (True, m(h \<mapsto> GuestAlive NeverSubmitted)) else (False, m))"

text \<open>An attachment replacement is both edges or neither.\<close>

definition life_finalize ::
    "host_id option \<Rightarrow> host_id option \<Rightarrow> lifemap \<Rightarrow> bool \<times> lifemap" where
  "life_finalize p n m =
     (let (ok1, m1) = (case p of Some h \<Rightarrow> if n = p then (True, m) else life_edge detach_edge h m
                               | None \<Rightarrow> (True, m));
          (ok2, m2) = (case n of Some h \<Rightarrow> life_edge submit_edge h m1 | None \<Rightarrow> (True, m1))
      in if ok1 \<and> ok2 then (True, m2) else (False, m))"

definition life_apply :: "buffer_op \<Rightarrow> lifemap \<Rightarrow> bool \<times> lifemap" where
  "life_apply e m =
     (case e of
        RegisterLocal h s \<Rightarrow> life_register h m
      | RegisterNative h sz fds \<Rightarrow> life_register h m
      | RemoveBuffer h \<Rightarrow> (m h \<noteq> None, m(h := None))
      | SubmitBuffer h \<Rightarrow> life_edge submit_edge h m
      | ReleaseBuffer h \<Rightarrow> life_edge release_edge h m
      | DetachBuffer h \<Rightarrow> life_edge detach_edge h m
      | EndLastSurfaceUse h other \<Rightarrow> life_edge (end_edge other) h m
      | FinalizeAttachment p n \<Rightarrow> life_finalize p n m
      | MarkGuestDestroyed h \<Rightarrow>
         (case m h of
            Some (GuestAlive u) \<Rightarrow> (True, m(h \<mapsto> GuestDestroyed u))
          | _ \<Rightarrow> (False, m))
      | MarkHostDestroyQueued h \<Rightarrow>
         (if life_use m h = None then (False, m) else (True, m(h \<mapsto> HostDestroyQueued)))
      | _ \<Rightarrow> (False, m))"

text \<open>The two operations that only touch the backing leave every lifecycle alone.\<close>

definition touches_backing_only :: "buffer_op \<Rightarrow> bool" where
  "touches_backing_only e =
     (case e of WriteLocalCopy _ _ \<Rightarrow> True | EnableImplicitSync _ \<Rightarrow> True | _ \<Rightarrow> False)"

definition life_step :: "lifemap \<Rightarrow> buffer_op \<Rightarrow> lifemap" where
  "life_step m e = snd (life_apply e m)"

text \<open>\<open>ends_use h e\<close>: the operations that may complete a use of \<open>h\<close> that was detached.\<close>

definition ends_use :: "host_id \<Rightarrow> buffer_op \<Rightarrow> bool" where
  "ends_use h e \<longleftrightarrow> e \<in> {ReleaseBuffer h, RemoveBuffer h, MarkHostDestroyQueued h}"

definition use_latched :: "lifemap \<Rightarrow> host_id \<Rightarrow> bool" where
  "use_latched m h \<longleftrightarrow> life_use m h = Some (AwaitingRelease True)"

text \<open>The phase only grows while a generation is registered.\<close>

definition life_phase :: "render_buffer_lifecycle option \<Rightarrow> nat" where
  "life_phase l =
     (case l of
        None \<Rightarrow> 0
      | Some (GuestAlive _) \<Rightarrow> 1
      | Some (GuestDestroyed _) \<Rightarrow> 2
      | Some HostDestroyQueued \<Rightarrow> 3)"

lemmas edge_defs = submit_edge_def release_edge_def detach_edge_def end_edge_def
  is_awaiting_release_def

lemma life_edge_other: "h' \<noteq> h \<Longrightarrow> snd (life_edge f h m) h' = m h'"
  by (simp add: life_edge_def split: option.splits)

lemma life_edge_phase: "life_phase (snd (life_edge f h m) h') = life_phase (m h')"
  by (auto simp: life_edge_def life_phase_def set_use_def
    split: option.splits render_buffer_lifecycle.splits)

lemma life_edge_latched:
  "f (AwaitingRelease True) = Some (AwaitingRelease True) \<Longrightarrow> use_latched m h \<Longrightarrow>
     use_latched (snd (life_edge f h' m)) h"
  by (auto simp: life_edge_def use_latched_def life_use_def set_use_def use_state_of_def
    split: option.splits render_buffer_lifecycle.splits)

lemma life_finalize_snd:
  "snd (life_finalize p n m) = m \<or>
   snd (life_finalize p n m) =
     (let m1 = (case p of Some h \<Rightarrow> if n = p then m else snd (life_edge detach_edge h m) | None \<Rightarrow> m)
      in case n of Some h \<Rightarrow> snd (life_edge submit_edge h m1) | None \<Rightarrow> m1)"
  by (auto simp: life_finalize_def Let_def split: option.splits prod.splits if_splits)

lemma life_step_latched:
  assumes "use_latched m h" and "\<not> ends_use h e"
  shows "use_latched (life_step m e) h"
proof (cases e)
  case (FinalizeAttachment p n)
  have "use_latched (snd (life_finalize p n m)) h"
    using life_finalize_snd [of p n m] assms(1)
    by (auto simp: Let_def edge_defs intro!: life_edge_latched split: option.splits)
  with FinalizeAttachment show ?thesis
    by (simp add: life_step_def life_apply_def)
next
  case (ReleaseBuffer h')
  with assms show ?thesis
    by (auto simp: life_step_def life_apply_def ends_use_def use_latched_def life_use_def
        life_edge_other)
next
  case (MarkGuestDestroyed h')
  with assms(1) show ?thesis
    by (auto simp: life_step_def life_apply_def use_latched_def life_use_def use_state_of_def
        split: option.splits render_buffer_lifecycle.splits)
qed (use assms in \<open>auto simp: life_step_def life_apply_def ends_use_def edge_defs
      life_register_def intro: life_edge_latched\<close>,
    use assms in \<open>auto simp: use_latched_def life_use_def\<close>)

lemma life_step_phase:
  "life_step m e h \<noteq> None \<Longrightarrow> life_phase (m h) \<le> life_phase (life_step m e h)"
proof (cases e)
  case (FinalizeAttachment p n)
  have "life_phase (snd (life_finalize p n m) h) = life_phase (m h)"
    using life_finalize_snd [of p n m]
    by (auto simp: Let_def life_edge_phase split: option.splits)
  with FinalizeAttachment show ?thesis
    by (simp add: life_step_def life_apply_def)
qed (auto simp: life_step_def life_apply_def life_edge_phase life_register_def,
    auto simp: life_phase_def split: option.splits render_buffer_lifecycle.splits if_splits)

section \<open>The registry contract\<close>

locale buffer_registry =
  fixes life :: "'r \<Rightarrow> lifemap"
    and perform :: "buffer_op \<Rightarrow> 'r \<Rightarrow> bool \<times> 'r"
  assumes simulates: "\<not> touches_backing_only e \<Longrightarrow>
      perform e r = (ok, r') \<Longrightarrow> life_apply e (life r) = (ok, life r')"
    and backing_only: "touches_backing_only e \<Longrightarrow> life (snd (perform e r)) = life r"
begin

lemma life_perform: "life (snd (perform e r)) = life_step (life r) e"
proof (cases "touches_backing_only e")
  case True
  then show ?thesis
    by (auto simp: backing_only life_step_def life_apply_def touches_backing_only_def
        split: buffer_op.splits)
next
  case False
  obtain ok r' where "perform e r = (ok, r')"
    by fastforce
  with simulates [OF False this] show ?thesis
    by (simp add: life_step_def)
qed

lemma life_run:
  "life (run_ops (\<lambda>r e. snd (perform e r)) r es) = run_ops life_step (life r) es"
  by (induction es arbitrary: r) (simp_all add: life_perform)

lemma latched_until_release:
  assumes "use_latched (life r) h" and "\<forall>e\<in>set es. \<not> ends_use h e"
  shows "use_latched (life (run_ops (\<lambda>r e. snd (perform e r)) r es)) h"
  using assms by (induction es arbitrary: r) (simp_all add: life_perform life_step_latched)

end

definition buffer_apply :: "buffer_op \<Rightarrow> render_registry \<Rightarrow> bool \<times> render_registry" where
  "buffer_apply e r =
     (case e of
        RegisterLocal h s \<Rightarrow> register_local h s r
      | RegisterNative h sz fds \<Rightarrow> register_native h sz fds r
      | WriteLocalCopy h s \<Rightarrow> (True, local_copy_mut h s r)
      | EnableImplicitSync h \<Rightarrow> enable_implicit_sync_fallback h r
      | RemoveBuffer h \<Rightarrow> registry_remove h r
      | SubmitBuffer h \<Rightarrow> submit h r
      | ReleaseBuffer h \<Rightarrow> release h r
      | DetachBuffer h \<Rightarrow> detach h r
      | EndLastSurfaceUse h other \<Rightarrow> end_last_surface_use h other r
      | FinalizeAttachment p n \<Rightarrow>
         (case finalize_attachment p n r of Some x \<Rightarrow> x | None \<Rightarrow> (False, r))
      | MarkGuestDestroyed h \<Rightarrow> mark_guest_destroyed h r
      | MarkHostDestroyQueued h \<Rightarrow> mark_host_destroy_queued h r)"

definition buffer_step :: "render_registry \<Rightarrow> buffer_op \<Rightarrow> render_registry" where
  "buffer_step r e = snd (buffer_apply e r)"

lemma lifecycle_insert [simp]:
  "lifecycle (hm_insert h rb r) = (lifecycle r)(h \<mapsto> lifecycle_of rb)"
  by (simp add: lifecycle_def fun_eq_iff)

lemma lifecycle_remove [simp]: "lifecycle (hm_remove h r) = (lifecycle r)(h := None)"
  by (simp add: lifecycle_def fun_eq_iff)

lemma get_active_lifecycle:
  assumes "get_active r h = Some b"
  shows "\<exists>l. lifecycle r h = Some l \<and> use_state_of l = Some (arb_use_state b) \<and>
       (\<forall>b'. lifecycle (put_active h b' r) = (lifecycle r)(h \<mapsto> set_use (arb_use_state b') l))"
proof -
  from assms obtain rb where rb: "hm_get r h = Some rb" "active rb = Some b"
    by (auto simp: get_active_def split: bind_splits)
  have "use_state_of (lifecycle_of rb) = Some (arb_use_state b)"
    "\<And>b'. lifecycle_of (active_mut b' rb) = set_use (arb_use_state b') (lifecycle_of rb)"
    using rb(2) by (cases rb; simp add: active_def lifecycle_of_def use_state_of_def
        active_mut_def set_use_def)+
  with rb(1) show ?thesis
    by (intro exI [of _ "lifecycle_of rb"]) (simp add: lifecycle_def put_active_def fun_eq_iff)
qed

lemma get_active_None: "get_active r h = None \<Longrightarrow> life_use (lifecycle r) h = None"
  by (auto simp: get_active_def life_use_def lifecycle_def active_def lifecycle_of_def
      use_state_of_def split: bind_splits option.splits render_buffer.splits)

lemma lifecycle_set_use_id: "use_state_of l = Some u \<Longrightarrow> set_use u l = l"
  by (auto simp: use_state_of_def set_use_def split: render_buffer_lifecycle.splits)

text \<open>A use-phase operation of the registry is the edge it is named after.\<close>

lemma use_op_simulates:
  assumes "get_active r h = None \<Longrightarrow> (ok, r') = (False, r)"
    and "\<And>b. get_active r h = Some b \<Longrightarrow> f (arb_use_state b) = None \<Longrightarrow> (ok, r') = (False, r)"
    and "\<And>b u. get_active r h = Some b \<Longrightarrow> f (arb_use_state b) = Some u \<Longrightarrow>
      ok \<and> (r' = put_active h (b\<lparr>arb_use_state := u\<rparr>) r \<or> (u = arb_use_state b \<and> r' = r))"
  shows "life_edge f h (lifecycle r) = (ok, lifecycle r')"
proof (cases "get_active r h")
  case None
  with assms(1) show ?thesis
    by (auto simp: life_edge_def get_active_None split: option.split)
next
  case (Some b)
  from get_active_lifecycle [OF this] obtain l where
    l: "lifecycle r h = Some l" "use_state_of l = Some (arb_use_state b)"
    "\<And>b'. lifecycle (put_active h b' r) = (lifecycle r)(h \<mapsto> set_use (arb_use_state b') l)"
    by blast
  then have e: "life_edge f h (lifecycle r) = (case f (arb_use_state b) of
      Some u \<Rightarrow> (True, (lifecycle r)(h \<mapsto> set_use u l)) | None \<Rightarrow> (False, lifecycle r))"
    by (simp add: life_edge_def life_use_def)
  show ?thesis
  proof (cases "f (arb_use_state b)")
    case None
    with assms(2) [OF Some] e show ?thesis
      by simp
  next
    case (Some u)
    from assms(3) [OF \<open>get_active r h = Some b\<close> this]
    show ?thesis
      using e Some l by (auto simp: lifecycle_set_use_id fun_upd_idem)
  qed
qed

lemma submit_simulates: "life_edge submit_edge h (lifecycle r) = (fst (submit h r), lifecycle (snd (submit h r)))"
  by (rule use_op_simulates) (auto simp: submit_def edge_defs use_awaiting_def
    split: render_buffer_use.splits)

lemma release_simulates:
  "life_edge release_edge h (lifecycle r) = (fst (release h r), lifecycle (snd (release h r)))"
  by (rule use_op_simulates) (auto simp: release_def edge_defs split: render_buffer_use.splits if_splits)

lemma detach_simulates: "life_edge detach_edge h (lifecycle r) = (fst (detach h r), lifecycle (snd (detach h r)))"
  by (rule use_op_simulates) (auto simp: detach_def edge_defs split: render_buffer_use.splits)

lemma end_simulates:
  "life_edge (end_edge other) h (lifecycle r) =
     (fst (end_last_surface_use h other r), lifecycle (snd (end_last_surface_use h other r)))"
  by (rule use_op_simulates) (auto simp: end_last_surface_use_def edge_defs
    split: render_buffer_use.splits if_splits)

lemma can_detach_iff: "can_detach r h \<longleftrightarrow> fst (detach h r)"
  by (auto simp: can_detach_def detach_def split: option.splits render_buffer_use.splits)

lemma can_submit_iff: "can_submit r h \<longleftrightarrow> fst (submit h r)"
  by (auto simp: can_submit_def submit_def get_active_def split: option.splits)

lemma submit_iff_life: "fst (submit h r) \<longleftrightarrow> life_use (lifecycle r) h \<noteq> None"
  using submit_simulates [of h r]
  by (auto simp: life_edge_def life_use_def submit_edge_def split: option.splits bind_splits)

lemma submit_after_detach: "h \<noteq> h' \<Longrightarrow> fst (submit h (snd (detach h' r))) = fst (submit h r)"
proof -
  assume "h \<noteq> h'"
  moreover have "lifecycle (snd (detach h' r)) = snd (life_edge detach_edge h' (lifecycle r))"
    by (simp add: detach_simulates)
  ultimately show ?thesis
    by (simp add: submit_iff_life life_use_def life_edge_other)
qed

text \<open>The pre-validation is what makes the two \<open>debug_assert!\<close>s hold.\<close>

lemma finalize_attachment_cases:
  assumes "p \<noteq> n"
  shows "finalize_attachment p n r =
    (let ok1 = (case p of Some h \<Rightarrow> fst (detach h r) | None \<Rightarrow> True);
         r1 = (case p of Some h \<Rightarrow> snd (detach h r) | None \<Rightarrow> r);
         ok2 = (case n of Some h \<Rightarrow> fst (submit h r1) | None \<Rightarrow> True);
         r2 = (case n of Some h \<Rightarrow> snd (submit h r1) | None \<Rightarrow> r1)
     in Some (if ok1 \<and> ok2 then (True, r2) else (False, r)))"
  using assms
  by (auto simp: finalize_attachment_def Let_def can_detach_iff can_submit_iff
      submit_after_detach split: option.splits prod.splits)
    (metis fst_conv snd_conv submit_after_detach)+

lemma finalize_simulates:
  obtains ok r' where "finalize_attachment p n r = Some (ok, r')"
    and "life_finalize p n (lifecycle r) = (ok, lifecycle r')" and "\<not> ok \<Longrightarrow> r' = r"
proof (cases "p = n")
  case True
  show ?thesis
  proof (cases n)
    case None
    with True that [of True r] show ?thesis
      by (simp add: finalize_attachment_def life_finalize_def)
  next
    case (Some h)
    have "\<not> fst (submit h r) \<Longrightarrow> snd (submit h r) = r"
      by (auto simp: submit_def split: option.splits)
    with True Some that [of "fst (submit h r)" "snd (submit h r)"] show ?thesis
      by (auto simp: finalize_attachment_def life_finalize_def submit_simulates)
  qed
next
  case False
  define r1 where "r1 = (case p of Some h \<Rightarrow> snd (detach h r) | None \<Rightarrow> r)"
  define r2 where "r2 = (case n of Some h \<Rightarrow> snd (submit h r1) | None \<Rightarrow> r1)"
  define ok where "ok \<longleftrightarrow> (case p of Some h \<Rightarrow> fst (detach h r) | None \<Rightarrow> True) \<and>
    (case n of Some h \<Rightarrow> fst (submit h r1) | None \<Rightarrow> True)"
  have "finalize_attachment p n r = Some (ok, if ok then r2 else r)"
    unfolding r2_def ok_def r1_def using False by (simp add: finalize_attachment_cases Let_def)
  moreover have "life_finalize p n (lifecycle r) = (ok, lifecycle (if ok then r2 else r))"
    using False by (auto simp: life_finalize_def r1_def r2_def ok_def Let_def
        submit_simulates detach_simulates split: option.split)
  ultimately show ?thesis
    using that by simp
qed

interpretation rb: buffer_registry lifecycle buffer_apply
proof
  fix e :: buffer_op and r ok r'
  assume perform: "buffer_apply e r = (ok, r')" and e: "\<not> touches_backing_only e"
  show "life_apply e (lifecycle r) = (ok, lifecycle r')"
  proof (cases e)
    case (FinalizeAttachment p n)
    with perform show ?thesis
      by (rule_tac finalize_simulates [of p n r]) (simp add: buffer_apply_def life_apply_def)
  next
    case (MarkGuestDestroyed h)
    with perform show ?thesis
      by (auto simp: buffer_apply_def life_apply_def mark_guest_destroyed_def lifecycle_def
          lifecycle_of_def fun_eq_iff split: option.splits render_buffer.splits)
  next
    case (MarkHostDestroyQueued h)
    with perform show ?thesis
      by (auto simp: buffer_apply_def life_apply_def mark_host_destroy_queued_def lifecycle_def
          life_use_def use_state_of_def lifecycle_of_def fun_eq_iff
          split: option.splits render_buffer.splits)
  qed (use perform e in \<open>auto simp: buffer_apply_def life_apply_def touches_backing_only_def
        submit_simulates release_simulates detach_simulates end_simulates\<close>,
      use perform in \<open>auto simp: buffer_apply_def register_local_def register_native_def
        register_active_def life_register_def registry_remove_def contains_def lifecycle_def
        lifecycle_of_def fun_eq_iff split: option.splits\<close>)
next
  fix e :: buffer_op and r
  assume "touches_backing_only e"
  then show "lifecycle (snd (buffer_apply e r)) = lifecycle r"
    by (auto simp: touches_backing_only_def buffer_apply_def local_copy_mut_def
        enable_implicit_sync_fallback_def lifecycle_set_use_id fun_upd_idem
        dest!: get_active_lifecycle
        split: buffer_op.splits option.splits render_buffer_backing.splits)
qed

section \<open>Generations\<close>

lemma buffer_step_life: "lifecycle (buffer_step r e) = life_step (lifecycle r) e"
  by (simp add: buffer_step_def rb.life_perform)

lemma buffer_step_eq: "buffer_step = (\<lambda>r e. snd (buffer_apply e r))"
  by (simp add: buffer_step_def fun_eq_iff)

lemma life_phase_pos: "life_phase l > 0 \<longleftrightarrow> l \<noteq> None"
  by (auto simp: life_phase_def split: option.splits render_buffer_lifecycle.splits)

lemma life_finalize_phase: "life_phase (snd (life_finalize p n m) h) = life_phase (m h)"
  using life_finalize_snd [of p n m] by (auto simp: Let_def life_edge_phase split: option.splits)

lemma life_step_keeps:
  "m h \<noteq> None \<Longrightarrow> e \<noteq> RemoveBuffer h \<Longrightarrow> life_step m e h \<noteq> None"
proof (cases e)
  case (FinalizeAttachment p n)
  then show "m h \<noteq> None \<Longrightarrow> ?thesis"
    using life_finalize_phase [of p n m h] unfolding life_phase_pos [symmetric]
    by (simp add: life_step_def life_apply_def)
qed (auto simp: life_step_def life_apply_def life_edge_def life_register_def
    split: option.splits render_buffer_lifecycle.splits)

definition phase_of :: "render_registry \<Rightarrow> host_id \<Rightarrow> nat" where
  "phase_of r h = life_phase (lifecycle r h)"

lemma phase_step: "e \<noteq> RemoveBuffer h \<Longrightarrow> phase_of r h \<le> phase_of (buffer_step r e) h"
proof (cases "lifecycle r h = None")
  case True
  then show ?thesis
    by (simp add: phase_of_def life_phase_def)
next
  case False
  assume "e \<noteq> RemoveBuffer h"
  with False life_step_keeps life_step_phase show ?thesis
    by (simp add: phase_of_def buffer_step_life)
qed

interpretation phases: guarded_machine buffer_step "\<lambda>r e. e \<noteq> RemoveBuffer h"
  "\<lambda>r. n \<le> phase_of r h" for h n
  by unfold_locales (use phase_step order_trans in blast)

text \<open>The host destructors that a run of the registry reports as newly queued.\<close>

primrec destroys_queued :: "host_id \<Rightarrow> render_registry \<Rightarrow> buffer_op list \<Rightarrow> nat" where
  "destroys_queued h r [] = 0"
| "destroys_queued h r (e # es) =
     (if e = MarkHostDestroyQueued h \<and> fst (buffer_apply e r) then 1 else 0) +
     destroys_queued h (buffer_step r e) es"

lemma mark_queued_phase:
  "fst (mark_host_destroy_queued h r) \<longleftrightarrow> phase_of r h \<in> {1, 2}"
  "fst (mark_host_destroy_queued h r) \<Longrightarrow> phase_of (snd (mark_host_destroy_queued h r)) h = 3"
  by (auto simp: mark_host_destroy_queued_def phase_of_def lifecycle_def life_phase_def
      lifecycle_of_def split: option.splits render_buffer.splits)

lemma phase_le_3: "phase_of r h \<le> 3"
  by (auto simp: phase_of_def life_phase_def split: option.splits render_buffer_lifecycle.splits)

lemma destroys_queued_terminal:
  "3 \<le> phase_of r h \<Longrightarrow> \<forall>e\<in>set es. e \<noteq> RemoveBuffer h \<Longrightarrow> destroys_queued h r es = 0"
proof (induction es arbitrary: r)
  case (Cons e es)
  then have "3 \<le> phase_of (buffer_step r e) h"
    using phase_step [of e h r] by simp
  with Cons mark_queued_phase(1) [of h r] show ?case
    by (auto simp: buffer_apply_def)
qed simp

lemma destroys_queued_bound:
  "\<forall>e\<in>set es. e \<noteq> RemoveBuffer h \<Longrightarrow> destroys_queued h r es \<le> 1"
proof (induction es arbitrary: r)
  case (Cons e es)
  show ?case
  proof (cases "e = MarkHostDestroyQueued h \<and> fst (buffer_apply e r)")
    case True
    then have "fst (mark_host_destroy_queued h r)"
      by (auto simp: buffer_apply_def)
    with True have "3 \<le> phase_of (buffer_step r e) h"
      by (simp add: mark_queued_phase(2) buffer_apply_def buffer_step_def)
    with True Cons.prems show ?thesis
      by (simp add: destroys_queued_terminal)
  qed (use Cons in auto)
qed simp

section \<open>Properties\<close>

text \<open>C19: Every run of the render-buffer registry is a run of the abstract lifecycle machine:
  observing the lifecycles of the concrete registry commutes with every operation.\<close>

theorem buffer_registry_refines:
  "lifecycle (run_ops buffer_step r es) = run_ops life_step (lifecycle r) es"
  unfolding buffer_step_eq by (rule rb.life_run)

text \<open>Replacing a surface's attachment is atomic: it never fails its assertions, it succeeds
  exactly when the old buffer can be detached and the new one submitted, a success performs
  both transitions and a failure leaves the registry untouched.\<close>

theorem finalize_attachment_atomic:
  "case finalize_attachment p n r of
     None \<Rightarrow> False
   | Some (ok, r') \<Rightarrow>
       ok = ((p = n \<or> p = None \<or> can_detach r (the p)) \<and> (n = None \<or> can_submit r (the n))) \<and>
       life_finalize p n (lifecycle r) = (ok, lifecycle r') \<and> (ok \<or> r' = r)"
proof -
  obtain ok r' where f: "finalize_attachment p n r = Some (ok, r')"
    "life_finalize p n (lifecycle r) = (ok, lifecycle r')" "\<not> ok \<Longrightarrow> r' = r"
    using finalize_simulates [of p n r] by blast
  moreover have "ok = ((p = n \<or> p = None \<or> can_detach r (the p)) \<and> (n = None \<or> can_submit r (the n)))"
  proof (cases "p = n")
    case True
    with f(1) show ?thesis
      by (auto simp: finalize_attachment_def can_submit_iff split: option.splits)
  next
    case False
    with f(1) show ?thesis
      by (cases p; cases n) (auto simp: finalize_attachment_cases Let_def can_detach_iff
        can_submit_iff submit_after_detach split: if_splits)
  qed
  ultimately show ?thesis
    by auto
qed

text \<open>A use that was detached before its release stays open, whatever else happens to the
  buffer (resubmission, destruction of its last surface, guest destruction), until the
  host's release, the queued host destructor or the removal of the generation.\<close>

theorem detached_use_latched:
  assumes "life_use (lifecycle r) h = Some (AwaitingRelease True)"
    and "\<forall>e\<in>set es. \<not> ends_use h e"
  shows "life_use (lifecycle (run_ops buffer_step r es)) h = Some (AwaitingRelease True)"
  using rb.latched_until_release assms unfolding use_latched_def buffer_step_eq by blast

theorem detached_use_latched_witness:
  "life_use (lifecycle (run_ops buffer_step
     (run_ops buffer_step [] [RegisterNative (HostId 7) (4, 4) [], SubmitBuffer (HostId 7),
        DetachBuffer (HostId 7)])
     [SubmitBuffer (HostId 7), EndLastSurfaceUse (HostId 7) False, MarkGuestDestroyed (HostId 7)]))
   (HostId 7) = Some (AwaitingRelease True)"
proof -
  let ?r = "run_ops buffer_step [] [RegisterNative (HostId 7) (4, 4) [], SubmitBuffer (HostId 7),
        DetachBuffer (HostId 7)]"
  have l: "life_use (lifecycle ?r) (HostId 7) = Some (AwaitingRelease True)"
    by (simp add: buffer_step_life life_step_def life_apply_def life_register_def life_edge_def
        life_use_def use_state_of_def edge_defs set_use_def lifecycle_def)
  show ?thesis
    using detached_use_latched [OF l, of "[SubmitBuffer (HostId 7),
        EndLastSurfaceUse (HostId 7) False, MarkGuestDestroyed (HostId 7)]"]
    by (simp add: ends_use_def)
qed

text \<open>The host destructor of a buffer generation is queued at most once, and the ownership
  phase of a registered generation never moves backwards.\<close>

theorem host_destroy_queued_once:
  assumes "\<forall>e\<in>set es. e \<noteq> RemoveBuffer h"
  shows "destroys_queued h r es \<le> 1 \<and> phase_of r h \<le> phase_of (run_ops buffer_step r es) h"
proof -
  have "ops_allowed (\<lambda>r e. e \<noteq> RemoveBuffer h) buffer_step r es"
    using assms by (induction es arbitrary: r) auto
  then have "phase_of r h \<le> phase_of (run_ops buffer_step r es) h"
    by (intro phases.run_inv) simp_all
  with destroys_queued_bound [OF assms, of r] show ?thesis
    by simp
qed

theorem host_destroy_queued_once_witness:
  "destroys_queued (HostId 7) []
     [RegisterNative (HostId 7) (4, 4) [], MarkHostDestroyQueued (HostId 7),
      MarkHostDestroyQueued (HostId 7)] \<le> 1"
  using host_destroy_queued_once [of "[RegisterNative (HostId 7) (4, 4) [],
      MarkHostDestroyQueued (HostId 7), MarkHostDestroyQueued (HostId 7)]" "HostId 7" "[]"]
  by simp

end
