(* ===== verification/Surface_State.thy ===== *)
theory Surface_State
  imports Sommelier_Prelude
begin

text \<open>
  The double-buffered surface state of \<^verbatim>\<open>sommelier/src/state/render.rs\<close>: damage regions with
  their cap, the content snapshot, viewports, and the atomic \<open>prepare_commit\<close> of
  \<open>wl_surface.commit\<close> with its \<open>rollback\<close>.
\<close>

section \<open>Damage\<close>

record damage_rect =
  dr_x :: i32
  dr_y :: i32
  dr_width :: i32
  dr_height :: i32

record viewport_state =
  vp_source :: "(i32 \<times> i32 \<times> i32 \<times> i32) option"
  vp_destination :: "(i32 \<times> i32) option"

definition viewport_new :: viewport_state where
  "viewport_new = \<lparr>vp_source = None, vp_destination = None\<rparr>"

definition viewport_is_identity :: "viewport_state \<Rightarrow> bool" where
  "viewport_is_identity v \<longleftrightarrow> vp_source v = None \<and> vp_destination v = None"

definition MAX_PENDING_DAMAGE_RECTS :: nat where
  "MAX_PENDING_DAMAGE_RECTS = 256"

datatype damage_region = NoDamage | Rects "damage_rect list" | FullDamage

definition damage_push :: "damage_rect \<Rightarrow> damage_region \<Rightarrow> damage_region" where
  "damage_push rect d =
     (if d = FullDamage \<or> dr_width rect \<le> 0 \<or> dr_height rect \<le> 0 then d
      else case d of
        NoDamage \<Rightarrow> Rects [rect]
      | Rects rects \<Rightarrow>
          if length rects \<ge> MAX_PENDING_DAMAGE_RECTS then FullDamage else Rects (rects @ [rect])
      | FullDamage \<Rightarrow> d)"

definition is_full :: "damage_region \<Rightarrow> bool" where
  "is_full d \<longleftrightarrow> d = FullDamage"

definition damage_rects :: "damage_region \<Rightarrow> damage_rect list" where
  "damage_rects d = (case d of Rects rects \<Rightarrow> rects | _ \<Rightarrow> [])"

text \<open>\<open>take\<close> returns the region and leaves the empty one.\<close>

definition damage_take :: "damage_region \<Rightarrow> damage_region \<times> damage_region" where
  "damage_take d = (d, NoDamage)"

definition damage_from_vec :: "damage_rect list \<Rightarrow> damage_region" where
  "damage_from_vec rects = foldl (\<lambda>d r. damage_push r d) NoDamage rects"

section \<open>Surface contents and attachments\<close>

record surface_content_snapshot =
  sc_buffer_id :: "u32 option"
  sc_dimensions :: "(i32 \<times> i32) option"

definition snapshot_from_buffer :: "u32 \<Rightarrow> surface_content_snapshot" where
  "snapshot_from_buffer buffer = \<lparr>sc_buffer_id = Some buffer, sc_dimensions = None\<rparr>"

datatype surface_attachment = Unchanged | Detach | Attach u32

definition attachment_buffer_id :: "surface_attachment \<Rightarrow> u32 option" where
  "attachment_buffer_id a = (case a of Attach b \<Rightarrow> Some b | _ \<Rightarrow> None)"

definition transition_from ::
    "surface_attachment \<Rightarrow> u32 option \<Rightarrow> (u32 option \<times> u32 option) option" where
  "transition_from a previous =
     (case a of
        Unchanged \<Rightarrow> None
      | Detach \<Rightarrow> Some (previous, None)
      | Attach b \<Rightarrow> Some (previous, Some b))"

record surface_state =
  current_content :: "surface_content_snapshot option"
  pending_attachment :: surface_attachment
  pending_surface_damage :: damage_region
  pending_buffer_damage :: damage_region
  pending_buffer_scale :: "i32 option"
  current_buffer_scale :: i32
  pending_buffer_transform :: "i32 option"
  current_buffer_transform :: i32
  pending_offset :: "(i32 \<times> i32) option"
  pending_attach_offset :: "(i32 \<times> i32) option"
  viewport :: "viewport_state option"
  pending_viewport :: "viewport_state option option"

definition surface_state_default :: surface_state where
  "surface_state_default =
     \<lparr>current_content = None, pending_attachment = Unchanged,
      pending_surface_damage = NoDamage, pending_buffer_damage = NoDamage,
      pending_buffer_scale = None, current_buffer_scale = 1,
      pending_buffer_transform = None, current_buffer_transform = 0,
      pending_offset = None, pending_attach_offset = None,
      viewport = None, pending_viewport = None\<rparr>"

record surface_commit =
  previous :: surface_state
  commit_state :: surface_state
  attachment :: surface_attachment
  surface_damage :: damage_region
  buffer_damage :: damage_region
  buffer_offset :: "i32 \<times> i32"

definition current_buffer_id :: "surface_state \<Rightarrow> u32 option" where
  "current_buffer_id s = Option.bind (current_content s) sc_buffer_id"

definition current_buffer_dimensions :: "surface_state \<Rightarrow> (i32 \<times> i32) option" where
  "current_buffer_dimensions s = Option.bind (current_content s) sc_dimensions"

definition set_current_buffer_dimensions ::
    "u32 \<Rightarrow> (i32 \<times> i32) option \<Rightarrow> surface_state \<Rightarrow> bool \<times> surface_state" where
  "set_current_buffer_dimensions buffer dims s =
     (case current_content s of
        Some content \<Rightarrow>
          if sc_buffer_id content = Some buffer
          then (True, s\<lparr>current_content := Some (content\<lparr>sc_dimensions := dims\<rparr>)\<rparr>)
          else (False, s)
      | None \<Rightarrow> (False, s))"

definition clear_current_buffer_reference :: "u32 \<Rightarrow> surface_state \<Rightarrow> surface_state" where
  "clear_current_buffer_reference buffer s =
     (case current_content s of
        None \<Rightarrow> s
      | Some content \<Rightarrow>
          if sc_buffer_id content \<noteq> Some buffer then s
          else if sc_dimensions content = None then s\<lparr>current_content := None\<rparr>
          else s\<lparr>current_content := Some (content\<lparr>sc_buffer_id := None\<rparr>)\<rparr>)"

section \<open>Commits\<close>

definition prepare_commit :: "surface_state \<Rightarrow> surface_commit \<times> surface_state" where
  "prepare_commit s =
     (let att = pending_attachment s;
          s1 = s\<lparr>pending_attachment := Unchanged\<rparr>;
          s2 = (case att of
                  Unchanged \<Rightarrow> s1
                | Detach \<Rightarrow> s1\<lparr>current_content := None\<rparr>
                | Attach b \<Rightarrow> s1\<lparr>current_content := Some (snapshot_from_buffer b)\<rparr>);
          s3 = (case pending_buffer_scale s2 of
                  Some scale \<Rightarrow>
                    s2\<lparr>pending_buffer_scale := None, current_buffer_scale := scale\<rparr>
                | None \<Rightarrow> s2);
          s4 = (case pending_buffer_transform s3 of
                  Some transform \<Rightarrow>
                    s3\<lparr>pending_buffer_transform := None, current_buffer_transform := transform\<rparr>
                | None \<Rightarrow> s3);
          offset =
            (case pending_offset s4 of
               Some xy \<Rightarrow> xy
             | None \<Rightarrow> (case pending_attach_offset s4 of Some xy \<Rightarrow> xy | None \<Rightarrow> (0, 0)));
          s5 = s4\<lparr>pending_offset := None, pending_attach_offset := None\<rparr>;
          s6 = (case pending_viewport s5 of
                  Some v \<Rightarrow> s5\<lparr>pending_viewport := None, viewport := v\<rparr>
                | None \<Rightarrow> s5);
          (sd, left1) = damage_take (pending_surface_damage s6);
          s7 = s6\<lparr>pending_surface_damage := left1\<rparr>;
          (bd, left2) = damage_take (pending_buffer_damage s7);
          s8 = s7\<lparr>pending_buffer_damage := left2\<rparr>
      in (\<lparr>previous = s, commit_state = s8, attachment = att, surface_damage = sd,
           buffer_damage = bd, buffer_offset = offset\<rparr>, s8))"

definition has_buffer_attach :: "surface_commit \<Rightarrow> bool" where
  "has_buffer_attach c = (case attachment c of Attach _ \<Rightarrow> True | _ \<Rightarrow> False)"

definition attached_buffer_id :: "surface_commit \<Rightarrow> u32 option" where
  "attached_buffer_id c = attachment_buffer_id (attachment c)"

definition attachment_transition :: "surface_commit \<Rightarrow> (u32 option \<times> u32 option) option" where
  "attachment_transition c = transition_from (attachment c) (current_buffer_id (previous c))"

definition has_full_damage :: "surface_commit \<Rightarrow> bool" where
  "has_full_damage c \<longleftrightarrow> is_full (surface_damage c) \<or> is_full (buffer_damage c)"

definition uses_full_mapping :: "surface_commit \<Rightarrow> bool" where
  "uses_full_mapping c \<longleftrightarrow>
     current_buffer_scale (commit_state c) \<noteq> 1 \<or>
     current_buffer_transform (commit_state c) \<noteq> 0 \<or>
     (has_buffer_attach c \<and> buffer_offset c \<noteq> (0, 0)) \<or>
     (case viewport (commit_state c) of Some v \<Rightarrow> \<not> viewport_is_identity v | None \<Rightarrow> False)"

definition has_invalid_fractional_viewport :: "surface_commit \<Rightarrow> bool" where
  "has_invalid_fractional_viewport c =
     (case viewport (commit_state c) of
        None \<Rightarrow> False
      | Some v \<Rightarrow>
         (case vp_source v of
            None \<Rightarrow> False
          | Some (_, _, width, height) \<Rightarrow>
              vp_destination v = None \<and> (width mod 256 \<noteq> 0 \<or> height mod 256 \<noteq> 0)))"

definition rollback :: "surface_commit \<Rightarrow> surface_state \<Rightarrow> surface_state" where
  "rollback c surface = previous c"

section \<open>Facts about damage\<close>

definition damage_ok :: "damage_region \<Rightarrow> bool" where
  "damage_ok d \<longleftrightarrow>
     (case d of
        Rects rs \<Rightarrow> rs \<noteq> [] \<and> length rs \<le> MAX_PENDING_DAMAGE_RECTS \<and>
          (\<forall>r\<in>set rs. 0 < dr_width r \<and> 0 < dr_height r)
      | _ \<Rightarrow> True)"

text \<open>A region accounts for a rectangle when it is empty, recorded, or everything is damaged.\<close>

definition damage_covers :: "damage_region \<Rightarrow> damage_rect \<Rightarrow> bool" where
  "damage_covers d r \<longleftrightarrow>
     dr_width r \<le> 0 \<or> dr_height r \<le> 0 \<or> is_full d \<or> r \<in> set (damage_rects d)"

lemma damage_ok_push: "damage_ok d \<Longrightarrow> damage_ok (damage_push r d)"
  by (auto simp: damage_ok_def damage_push_def MAX_PENDING_DAMAGE_RECTS_def
      split: damage_region.splits)

lemma damage_covers_pushed: "damage_covers (damage_push r d) r"
  by (auto simp: damage_covers_def damage_push_def is_full_def damage_rects_def
      split: damage_region.splits)

lemma damage_covers_push: "damage_covers d r \<Longrightarrow> damage_covers (damage_push r' d) r"
  by (auto simp: damage_covers_def damage_push_def is_full_def damage_rects_def
      split: damage_region.splits if_splits)

interpretation damage: machine "\<lambda>d r. damage_push r d" damage_ok
  by unfold_locales (rule damage_ok_push)

interpretation damage_cover: machine "\<lambda>d r. damage_push r d" "\<lambda>d. damage_covers d r" for r
  by unfold_locales (rule damage_covers_push)

lemma damage_run_covers:
  "r \<in> set rs \<Longrightarrow> damage_covers (run_ops (\<lambda>d r. damage_push r d) d rs) r"
proof (induction rs arbitrary: d)
  case (Cons a rs)
  then show ?case
    by (auto intro: damage_cover.run_always damage_covers_pushed)
qed simp

lemma damage_from_vec_run: "damage_from_vec rs = run_ops (\<lambda>d r. damage_push r d) NoDamage rs"
proof -
  have "foldl (\<lambda>d r. damage_push r d) d rs = run_ops (\<lambda>d r. damage_push r d) d rs" for d
    by (induction rs arbitrary: d) simp_all
  then show ?thesis
    by (simp add: damage_from_vec_def)
qed

text \<open>The region as a function of the damaging requests alone.\<close>

definition damaging :: "damage_rect \<Rightarrow> bool" where
  "damaging r \<longleftrightarrow> 0 < dr_width r \<and> 0 < dr_height r"

definition damage_of :: "damage_rect list \<Rightarrow> damage_region" where
  "damage_of ps =
     (if ps = [] then NoDamage
      else if length ps \<le> MAX_PENDING_DAMAGE_RECTS then Rects ps else FullDamage)"

lemma damage_push_of:
  "damage_push r (damage_of ps) = damage_of (if damaging r then ps @ [r] else ps)"
  by (auto simp: damage_push_def damage_of_def damaging_def MAX_PENDING_DAMAGE_RECTS_def)

lemma damage_run_of:
  "run_ops (\<lambda>d r. damage_push r d) (damage_of ps) rs = damage_of (ps @ filter damaging rs)"
  by (induction rs arbitrary: ps) (simp_all add: damage_push_of)

section \<open>Facts about commits\<close>

definition nothing_pending :: "surface_state \<Rightarrow> bool" where
  "nothing_pending s \<longleftrightarrow>
     pending_attachment s = Unchanged \<and> pending_surface_damage s = NoDamage \<and>
     pending_buffer_damage s = NoDamage \<and> pending_buffer_scale s = None \<and>
     pending_buffer_transform s = None \<and> pending_offset s = None \<and>
     pending_attach_offset s = None \<and> pending_viewport s = None"

text \<open>The state a commit makes current, field by field.\<close>

definition committed :: "surface_state \<Rightarrow> surface_state" where
  "committed s =
     \<lparr>current_content =
        (case pending_attachment s of
           Unchanged \<Rightarrow> current_content s
         | Detach \<Rightarrow> None
         | Attach b \<Rightarrow> Some \<lparr>sc_buffer_id = Some b, sc_dimensions = None\<rparr>),
      pending_attachment = Unchanged, pending_surface_damage = NoDamage,
      pending_buffer_damage = NoDamage, pending_buffer_scale = None,
      current_buffer_scale =
        (case pending_buffer_scale s of Some v \<Rightarrow> v | None \<Rightarrow> current_buffer_scale s),
      pending_buffer_transform = None,
      current_buffer_transform =
        (case pending_buffer_transform s of Some v \<Rightarrow> v | None \<Rightarrow> current_buffer_transform s),
      pending_offset = None, pending_attach_offset = None,
      viewport = (case pending_viewport s of Some v \<Rightarrow> v | None \<Rightarrow> viewport s),
      pending_viewport = None\<rparr>"

lemma prepare_commit_snd: "snd (prepare_commit s) = committed s"
  by (cases "pending_attachment s"; cases "pending_buffer_scale s";
      cases "pending_buffer_transform s"; cases "pending_viewport s")
    (simp_all add: prepare_commit_def committed_def damage_take_def snapshot_from_buffer_def Let_def)

lemma nothing_pending_committed: "nothing_pending (committed s)"
  by (simp add: nothing_pending_def committed_def)

lemma committed_idle: "nothing_pending s \<Longrightarrow> committed s = s"
  by (simp add: nothing_pending_def committed_def)

lemma prepare_commit_shape:
  "previous (fst (prepare_commit s)) = s"
  "commit_state (fst (prepare_commit s)) = snd (prepare_commit s)"
  "attachment (fst (prepare_commit s)) = pending_attachment s"
  by (simp_all add: prepare_commit_def damage_take_def Let_def)

lemma prepare_commit_damage:
  "surface_damage (fst (prepare_commit s)) = pending_surface_damage s"
  "buffer_damage (fst (prepare_commit s)) = pending_buffer_damage s"
  by (simp_all add: prepare_commit_def damage_take_def Let_def
      split: option.split surface_attachment.split)

lemma prepare_commit_offset:
  "buffer_offset (fst (prepare_commit s)) =
     (case pending_offset s of
        Some xy \<Rightarrow> xy
      | None \<Rightarrow> (case pending_attach_offset s of Some xy \<Rightarrow> xy | None \<Rightarrow> (0, 0)))"
  by (simp add: prepare_commit_def damage_take_def Let_def
      split: option.split surface_attachment.split)

section \<open>Properties\<close>

text \<open>The damage accumulated for one commit is exactly the list of its non-empty
  rectangles while at most 256 of them arrived, and the explicit full damage after that: no
  request is lost and the list stays bounded.\<close>

theorem damage_from_vec_exact:
  "damage_from_vec rs = damage_of (filter damaging rs)
   \<and> length (damage_rects (damage_from_vec rs)) \<le> MAX_PENDING_DAMAGE_RECTS
   \<and> list_all (damage_covers (damage_from_vec rs)) rs"
proof -
  have "damage_from_vec rs = damage_of ([] @ filter damaging rs)"
    using damage_run_of [of "[]" rs] by (simp add: damage_from_vec_run damage_of_def)
  moreover have "length (damage_rects (damage_of ps)) \<le> MAX_PENDING_DAMAGE_RECTS" for ps
    by (simp add: damage_of_def damage_rects_def)
  moreover have "list_all (damage_covers (damage_from_vec rs)) rs"
    by (simp add: list_all_iff damage_from_vec_run damage_run_covers)
  ultimately show ?thesis
    by simp
qed

text \<open>A commit applies every pending field at once and leaves nothing pending, the
  explicit offset wins over the legacy one but both are consumed, a second commit changes
  nothing, and rolling the commit back restores the exact state before it.\<close>

theorem prepare_commit_atomic:
  "case prepare_commit s of (c, s') \<Rightarrow>
     s' = committed s \<and> commit_state c = s' \<and> nothing_pending s' \<and>
     attachment c = pending_attachment s \<and>
     surface_damage c = pending_surface_damage s \<and> buffer_damage c = pending_buffer_damage s \<and>
     buffer_offset c =
       (case pending_offset s of
          Some xy \<Rightarrow> xy
        | None \<Rightarrow> (case pending_attach_offset s of Some xy \<Rightarrow> xy | None \<Rightarrow> (0, 0))) \<and>
     snd (prepare_commit s') = s' \<and> rollback c s' = s"
proof (cases "prepare_commit s")
  case (Pair c s')
  then have "s' = committed s"
    using prepare_commit_snd [of s] by simp
  with Pair show ?thesis
    using prepare_commit_shape [of s] prepare_commit_damage [of s] prepare_commit_offset [of s]
    by (simp add: prepare_commit_snd nothing_pending_committed committed_idle rollback_def)
qed

end
