(* ===== verification/Text_Input_State.thy ===== *)
theory Text_Input_State
  imports Shadow_Table
begin

text \<open>
  The text-input bridge state of \<^verbatim>\<open>sommelier/src/state/input.rs\<close>: the double-buffered
  v3 editor state, the activation generations of the host object, and the two-phase
  transactions, in which a plan is prepared from the state, encoded by the handler, and
  only then finished.  A \<open>finish\<close> returns \<open>None\<close> where one of the source's
  \<open>debug_assert_eq!\<close>s fails; the locale \<open>two_phase\<close> states what those assertions demand.
\<close>

section \<open>State\<close>

definition MAX_PENDING_IME_DELETES :: nat where
  "MAX_PENDING_IME_DELETES = 256"

datatype host_activation_state = Inactive | Active | Draining host_id

record text_input_state =
  host_v1_id :: u32
  host_ext_id :: "u32 option"
  guest_seat :: u32
  active_surface :: "u32 option"
  pending_enabled :: bool
  committed_enabled :: bool
  enabled_dirty :: bool
  pending_surrounding_text :: "(rust_string \<times> i32 \<times> i32) option"
  committed_surrounding_text :: "(rust_string \<times> i32 \<times> i32) option"
  surrounding_text_dirty :: bool
  content_hint :: u32
  content_purpose :: u32
  committed_content_type :: "(u32 \<times> u32) option"
  content_type_dirty :: bool
  cursor_rect :: "(i32 \<times> i32 \<times> i32 \<times> i32) option"
  cursor_rect_dirty :: bool
  text_change_cause :: u32
  current_preedit :: rust_string
  guest_commit_serial :: u32
  pending_preedit_cursor :: "i32 option"
  pending_preedit_selection :: "(u32 \<times> u32) option"
  pending_deletes :: "(u32 \<times> u32) list"
  pending_cursor_position :: "(i32 \<times> i32) option"
  host_activation :: host_activation_state

record guest_commit_plan =
  gc_host_v1_id :: u32
  gc_host_ext_id :: "u32 option"
  gc_guest_seat :: u32
  gc_serial :: u32
  gc_enabled :: bool
  gc_enable_conflict :: bool
  gc_resets_composition :: bool
  gc_surrounding_text :: "(rust_string \<times> i32 \<times> i32) option option"
  gc_has_surrounding_text :: bool
  gc_content_type :: "(u32 \<times> u32) option"
  gc_cursor_rect :: "(i32 \<times> i32 \<times> i32 \<times> i32) option"

record host_preedit_plan =
  hp_guest_seat :: u32
  hp_done_serial :: u32
  hp_had_preedit :: bool
  hp_selection :: "(u32 \<times> u32) option"
  hp_cursor :: "i32 option"

record host_commit_plan =
  hc_guest_seat :: u32
  hc_done_serial :: u32
  hc_had_preedit :: bool
  hc_deletes :: "(u32 \<times> u32) list"
  hc_cursor_position :: "(i32 \<times> i32) option"

record preedit_region_plan =
  pr_guest_seat :: u32
  pr_surrounding_text :: rust_string
  pr_surrounding_cursor :: i32
  pr_done_serial :: u32
  pr_selection :: "(u32 \<times> u32) option"
  pr_cursor :: "i32 option"

record confirm_preedit_plan =
  cp_guest_seat :: u32
  cp_done_serial :: u32
  cp_preedit_text :: rust_string

definition text_input_new ::
    "u32 \<Rightarrow> u32 option \<Rightarrow> u32 \<Rightarrow> u32 option \<Rightarrow> text_input_state" where
  "text_input_new v1 ext seat surface =
     \<lparr>host_v1_id = v1, host_ext_id = ext, guest_seat = seat, active_surface = surface,
      pending_enabled = False, committed_enabled = False, enabled_dirty = False,
      pending_surrounding_text = None, committed_surrounding_text = None,
      surrounding_text_dirty = False, content_hint = 0, content_purpose = 0,
      committed_content_type = None, content_type_dirty = False, cursor_rect = None,
      cursor_rect_dirty = False, text_change_cause = 0, current_preedit = [],
      guest_commit_serial = 0, pending_preedit_cursor = None,
      pending_preedit_selection = None, pending_deletes = [],
      pending_cursor_position = None, host_activation = Inactive\<rparr>"

section \<open>Host activation generations\<close>

definition host_is_active :: "text_input_state \<Rightarrow> bool" where
  "host_is_active s \<longleftrightarrow> host_activation s = Active"

definition activate_host :: "text_input_state \<Rightarrow> bool \<times> text_input_state" where
  "activate_host s =
     (if host_activation s \<noteq> Inactive then (False, s)
      else (True, s\<lparr>host_activation := Active\<rparr>))"

definition begin_host_draining :: "host_id \<Rightarrow> text_input_state \<Rightarrow> bool \<times> text_input_state" where
  "begin_host_draining callback s =
     (if host_activation s \<noteq> Active then (False, s)
      else (True, s\<lparr>host_activation := Draining callback\<rparr>))"

definition complete_host_draining :: "host_id \<Rightarrow> text_input_state \<Rightarrow> bool \<times> text_input_state" where
  "complete_host_draining callback s =
     (if host_activation s \<noteq> Draining callback then (False, s)
      else (True, s\<lparr>host_activation := Inactive\<rparr>))"

definition deactivate_host_without_barrier :: "text_input_state \<Rightarrow> bool \<times> text_input_state" where
  "deactivate_host_without_barrier s =
     (if host_activation s \<noteq> Active then (False, s)
      else (True, s\<lparr>host_activation := Inactive\<rparr>))"

section \<open>Guest requests\<close>

definition clear_host_composition :: "text_input_state \<Rightarrow> text_input_state" where
  "clear_host_composition s =
     s\<lparr>current_preedit := [], pending_preedit_cursor := None,
       pending_preedit_selection := None, pending_deletes := [],
       pending_cursor_position := None\<rparr>"

definition apply_focus ::
    "u32 option \<Rightarrow> text_input_state \<Rightarrow> u32 option \<times> text_input_state" where
  "apply_focus surface s =
     (active_surface s,
      (clear_host_composition
        (s\<lparr>pending_enabled := False, committed_enabled := False, enabled_dirty := False,
           pending_surrounding_text := None, committed_surrounding_text := None,
           surrounding_text_dirty := False, content_hint := 0, content_purpose := 0,
           committed_content_type := None, content_type_dirty := False,
           cursor_rect := None, cursor_rect_dirty := False, text_change_cause := 0\<rparr>))
        \<lparr>active_surface := surface\<rparr>)"

definition begin_destroy :: "text_input_state \<Rightarrow> text_input_state" where
  "begin_destroy s = s\<lparr>committed_enabled := False, active_surface := None\<rparr>"

definition begin_enabled_transaction :: "bool \<Rightarrow> text_input_state \<Rightarrow> text_input_state" where
  "begin_enabled_transaction enabled s =
     s\<lparr>pending_enabled := enabled, enabled_dirty := True,
       pending_surrounding_text := None, surrounding_text_dirty := True,
       content_hint := 0, content_purpose := 0, content_type_dirty := True,
       cursor_rect := None, cursor_rect_dirty := True, text_change_cause := 0\<rparr>"

definition set_surrounding_text ::
    "rust_string \<Rightarrow> i32 \<Rightarrow> i32 \<Rightarrow> text_input_state \<Rightarrow> text_input_state" where
  "set_surrounding_text str cursor anchor s =
     s\<lparr>pending_surrounding_text := Some (str, cursor, anchor), surrounding_text_dirty := True\<rparr>"

definition set_text_change_cause :: "u32 \<Rightarrow> text_input_state \<Rightarrow> text_input_state" where
  "set_text_change_cause cause s = s\<lparr>text_change_cause := cause\<rparr>"

definition set_content_type :: "u32 \<Rightarrow> u32 \<Rightarrow> text_input_state \<Rightarrow> text_input_state" where
  "set_content_type hint purpose s =
     s\<lparr>content_hint := hint, content_purpose := purpose,
       content_type_dirty :=
         (enabled_dirty s \<or> committed_content_type s \<noteq> Some (hint, purpose))\<rparr>"

definition set_cursor_rect ::
    "i32 \<times> i32 \<times> i32 \<times> i32 \<Rightarrow> text_input_state \<Rightarrow> text_input_state" where
  "set_cursor_rect rect s = s\<lparr>cursor_rect := Some rect, cursor_rect_dirty := True\<rparr>"

subsection \<open>The guest commit transaction\<close>

definition prepare_guest_commit :: "bool \<Rightarrow> text_input_state \<Rightarrow> guest_commit_plan" where
  "prepare_guest_commit enable_conflict s =
     (let resets = enabled_dirty s;
          enabled = (if resets \<and> \<not> enable_conflict then pending_enabled s
                     else committed_enabled s);
          effective = (if surrounding_text_dirty s then pending_surrounding_text s
                       else committed_surrounding_text s)
      in \<lparr>gc_host_v1_id = host_v1_id s, gc_host_ext_id = host_ext_id s,
          gc_guest_seat = guest_seat s, gc_serial = guest_commit_serial s + 1,
          gc_enabled = enabled, gc_enable_conflict = enable_conflict,
          gc_resets_composition = resets,
          gc_surrounding_text =
            (if surrounding_text_dirty s then Some (pending_surrounding_text s) else None),
          gc_has_surrounding_text = (effective \<noteq> None),
          gc_content_type =
            (if content_type_dirty s then Some (content_hint s, content_purpose s) else None),
          gc_cursor_rect =
            (if cursor_rect_dirty s
             then Some (case cursor_rect s of Some r \<Rightarrow> r | None \<Rightarrow> (0, 0, 0, 0)) else None)\<rparr>)"

definition finish_guest_commit ::
    "guest_commit_plan \<Rightarrow> text_input_state \<Rightarrow> text_input_state option" where
  "finish_guest_commit p s =
     (if gc_host_v1_id p \<noteq> host_v1_id s \<or> gc_host_ext_id p \<noteq> host_ext_id s \<or>
         gc_guest_seat p \<noteq> guest_seat s \<or> gc_serial p \<noteq> guest_commit_serial s + 1
      then None
      else
        let s1 = s\<lparr>guest_commit_serial := gc_serial p\<rparr>;
            s2 = (if gc_resets_composition p
                  then clear_host_composition
                    ((if gc_enable_conflict p then s1\<lparr>pending_enabled := committed_enabled s1\<rparr>
                      else s1\<lparr>pending_enabled := gc_enabled p, committed_enabled := gc_enabled p\<rparr>)
                      \<lparr>enabled_dirty := False\<rparr>)
                  else s1);
            s3 = (case gc_surrounding_text p of
                    Some t \<Rightarrow> s2\<lparr>surrounding_text_dirty := False, committed_surrounding_text := t\<rparr>
                  | None \<Rightarrow> s2);
            s4 = (case gc_content_type p of
                    Some t \<Rightarrow> s3\<lparr>content_type_dirty := False, committed_content_type := Some t\<rparr>
                  | None \<Rightarrow> s3);
            s5 = (if gc_cursor_rect p \<noteq> None then s4\<lparr>cursor_rect_dirty := False\<rparr> else s4)
        in Some (s5\<lparr>text_change_cause := 0\<rparr>))"

section \<open>Host events\<close>

definition record_preedit_selection ::
    "u32 \<Rightarrow> u32 \<Rightarrow> text_input_state \<Rightarrow> text_input_state" where
  "record_preedit_selection index len s = s\<lparr>pending_preedit_selection := Some (index, len)\<rparr>"

definition record_preedit_cursor :: "i32 \<Rightarrow> text_input_state \<Rightarrow> text_input_state" where
  "record_preedit_cursor index s = s\<lparr>pending_preedit_cursor := Some index\<rparr>"

definition record_cursor_position :: "i32 \<Rightarrow> i32 \<Rightarrow> text_input_state \<Rightarrow> text_input_state" where
  "record_cursor_position index anchor s = s\<lparr>pending_cursor_position := Some (index, anchor)\<rparr>"

definition record_delete :: "u32 \<Rightarrow> u32 \<Rightarrow> text_input_state \<Rightarrow> bool \<times> text_input_state" where
  "record_delete before after s =
     (if length (pending_deletes s) \<ge> MAX_PENDING_IME_DELETES then (False, s)
      else (True, s\<lparr>pending_deletes := pending_deletes s @ [(before, after)]\<rparr>))"

definition prepare_host_preedit :: "text_input_state \<Rightarrow> host_preedit_plan option" where
  "prepare_host_preedit s =
     (if host_is_active s
      then Some \<lparr>hp_guest_seat = guest_seat s, hp_done_serial = guest_commit_serial s,
                 hp_had_preedit = (current_preedit s \<noteq> []),
                 hp_selection = pending_preedit_selection s,
                 hp_cursor = pending_preedit_cursor s\<rparr>
      else None)"

definition finish_host_preedit ::
    "host_preedit_plan \<Rightarrow> rust_string \<Rightarrow> bool \<Rightarrow> bool \<Rightarrow> text_input_state \<Rightarrow>
     (bool \<times> text_input_state) option" where
  "finish_host_preedit p str reset_commit_is_empty backspace_held s =
     (if hp_done_serial p \<noteq> guest_commit_serial s \<or>
         hp_selection p \<noteq> pending_preedit_selection s \<or>
         hp_cursor p \<noteq> pending_preedit_cursor s \<or>
         hp_had_preedit p \<noteq> (current_preedit s \<noteq> [])
      then None
      else Some
        (str = [] \<and> hp_had_preedit p \<and> reset_commit_is_empty \<and> backspace_held,
         s\<lparr>pending_preedit_selection := None, pending_preedit_cursor := None,
           current_preedit := str\<rparr>))"

definition prepare_host_commit :: "text_input_state \<Rightarrow> host_commit_plan option" where
  "prepare_host_commit s =
     (if host_is_active s
      then Some \<lparr>hc_guest_seat = guest_seat s, hc_done_serial = guest_commit_serial s,
                 hc_had_preedit = (current_preedit s \<noteq> []),
                 hc_deletes = pending_deletes s,
                 hc_cursor_position = pending_cursor_position s\<rparr>
      else None)"

definition finish_host_commit ::
    "host_commit_plan \<Rightarrow> text_input_state \<Rightarrow> text_input_state option" where
  "finish_host_commit p s =
     (if hc_done_serial p \<noteq> guest_commit_serial s \<or> hc_deletes p \<noteq> pending_deletes s \<or>
         hc_cursor_position p \<noteq> pending_cursor_position s \<or>
         hc_had_preedit p \<noteq> (current_preedit s \<noteq> [])
      then None
      else Some (clear_host_composition s))"

definition prepare_preedit_region :: "text_input_state \<Rightarrow> preedit_region_plan option" where
  "prepare_preedit_region s =
     (if \<not> host_is_active s then None
      else case committed_surrounding_text s of
        None \<Rightarrow> None
      | Some (str, cursor, _) \<Rightarrow>
          Some \<lparr>pr_guest_seat = guest_seat s, pr_surrounding_text = str,
                pr_surrounding_cursor = cursor, pr_done_serial = guest_commit_serial s,
                pr_selection = pending_preedit_selection s,
                pr_cursor = pending_preedit_cursor s\<rparr>)"

definition finish_preedit_region ::
    "preedit_region_plan \<Rightarrow> rust_string \<Rightarrow> text_input_state \<Rightarrow> text_input_state option" where
  "finish_preedit_region p preedit_text s =
     (if pr_done_serial p \<noteq> guest_commit_serial s \<or>
         pr_selection p \<noteq> pending_preedit_selection s \<or>
         pr_cursor p \<noteq> pending_preedit_cursor s
      then None
      else Some (s\<lparr>pending_preedit_selection := None, pending_preedit_cursor := None,
                   current_preedit := preedit_text\<rparr>))"

definition prepare_confirm_preedit :: "text_input_state \<Rightarrow> confirm_preedit_plan option" where
  "prepare_confirm_preedit s =
     (if host_is_active s
      then Some \<lparr>cp_guest_seat = guest_seat s, cp_done_serial = guest_commit_serial s,
                 cp_preedit_text = current_preedit s\<rparr>
      else None)"

definition finish_confirm_preedit ::
    "confirm_preedit_plan \<Rightarrow> text_input_state \<Rightarrow> text_input_state option" where
  "finish_confirm_preedit p s =
     (if cp_done_serial p \<noteq> guest_commit_serial s \<or> cp_preedit_text p \<noteq> current_preedit s
      then None
      else Some (s\<lparr>current_preedit := [], pending_preedit_cursor := None,
                   pending_preedit_selection := None\<rparr>))"

section \<open>Activation barriers\<close>

type_synonym activation_barriers = "host_id \<rightharpoonup> u32 \<times> u32"

definition barrier_install ::
    "host_id \<Rightarrow> u32 \<Rightarrow> u32 \<Rightarrow> activation_barriers \<Rightarrow> bool \<times> activation_barriers" where
  "barrier_install callback guest_text_input v1 b =
     (if b callback \<noteq> None then (False, b)
      else (True, b(callback \<mapsto> (guest_text_input, v1))))"

definition barrier_complete ::
    "host_id \<Rightarrow> activation_barriers \<Rightarrow> (u32 \<times> u32) option \<times> activation_barriers" where
  "barrier_complete callback b = (b callback, b(callback := None))"

section \<open>The transaction contract\<close>

text \<open>
  A plan taken in a state can be finished in exactly the states that show the same view:
  what the handler does between the two phases must not touch it.
\<close>

locale two_phase =
  fixes prepare :: "text_input_state \<Rightarrow> 'p option"
    and finish :: "'p \<Rightarrow> text_input_state \<Rightarrow> text_input_state option"
    and view :: "text_input_state \<Rightarrow> 'v"
  assumes finish_iff: "prepare s = Some p \<Longrightarrow> finish p s' \<noteq> None \<longleftrightarrow> view s' = view s"
begin

lemma finish_own: "prepare s = Some p \<Longrightarrow> \<exists>s'. finish p s = Some s'"
  using finish_iff [of s p s] by auto

lemma finish_after_run:
  assumes "prepare s = Some p" and "\<And>t e. e \<in> set es \<Longrightarrow> view (step t e) = view t"
  shows "finish p (run_ops step s es) \<noteq> None"
proof -
  have "view (run_ops step s es) = view s"
    using assms(2) by (induction es arbitrary: s) simp_all
  with finish_iff [OF assms(1)] show ?thesis
    by simp
qed

lemma stale_plan: "prepare s = Some p \<Longrightarrow> view s' \<noteq> view s \<Longrightarrow> finish p s' = None"
  using finish_iff by blast

end

definition guest_commit_view :: "text_input_state \<Rightarrow> u32 \<times> u32 option \<times> u32 \<times> u32" where
  "guest_commit_view s = (host_v1_id s, host_ext_id s, guest_seat s, guest_commit_serial s)"

interpretation guest_commit: two_phase "\<lambda>s. Some (prepare_guest_commit conflict s)"
  finish_guest_commit guest_commit_view for conflict
  by unfold_locales
    (auto simp: prepare_guest_commit_def finish_guest_commit_def guest_commit_view_def Let_def)

interpretation host_preedit: two_phase prepare_host_preedit
  "\<lambda>p s. map_option snd (finish_host_preedit p str blank held s)"
  "\<lambda>s. (guest_commit_serial s, pending_preedit_selection s, pending_preedit_cursor s,
       current_preedit s = [])" for str blank held
  by unfold_locales
    (auto simp: prepare_host_preedit_def finish_host_preedit_def split: if_splits)

interpretation host_commit: two_phase prepare_host_commit finish_host_commit
  "\<lambda>s. (guest_commit_serial s, pending_deletes s, pending_cursor_position s,
       current_preedit s = [])"
  by unfold_locales (auto simp: prepare_host_commit_def finish_host_commit_def split: if_splits)

interpretation preedit_region: two_phase prepare_preedit_region
  "\<lambda>p. finish_preedit_region p str"
  "\<lambda>s. (guest_commit_serial s, pending_preedit_selection s, pending_preedit_cursor s)" for str
  by unfold_locales
    (auto simp: prepare_preedit_region_def finish_preedit_region_def split: if_splits option.splits)

interpretation confirm_preedit: two_phase prepare_confirm_preedit finish_confirm_preedit
  "\<lambda>s. (guest_commit_serial s, current_preedit s)"
  by unfold_locales
    (auto simp: prepare_confirm_preedit_def finish_confirm_preedit_def split: if_splits)

section \<open>Runs\<close>

text \<open>
  The operations a handler performs on one text input, a transaction being its two phases
  in a row.
\<close>

datatype text_op =
    ActivateHost
  | BeginHostDraining host_id
  | CompleteHostDraining host_id
  | DeactivateHostWithoutBarrier
  | ApplyFocus "u32 option"
  | BeginDestroy
  | BeginEnabledTransaction bool
  | SetSurroundingText rust_string i32 i32
  | SetTextChangeCause u32
  | SetContentType u32 u32
  | SetCursorRect "i32 \<times> i32 \<times> i32 \<times> i32"
  | GuestCommit bool
  | RecordPreeditSelection u32 u32
  | RecordPreeditCursor i32
  | RecordCursorPosition i32 i32
  | RecordDelete u32 u32
  | HostPreedit rust_string bool bool
  | HostCommit
  | PreeditRegion rust_string
  | ConfirmPreedit

text \<open>The two phases in a row: nothing is finished when nothing could be prepared.\<close>

definition transact ::
    "(text_input_state \<Rightarrow> 'p option) \<Rightarrow> ('p \<Rightarrow> text_input_state \<Rightarrow> text_input_state option) \<Rightarrow>
     text_input_state \<Rightarrow> text_input_state" where
  "transact prepare finish s =
     (case Option.bind (prepare s) (\<lambda>p. finish p s) of Some s' \<Rightarrow> s' | None \<Rightarrow> s)"

definition text_step :: "text_input_state \<Rightarrow> text_op \<Rightarrow> text_input_state" where
  "text_step s e =
     (case e of
        ActivateHost \<Rightarrow> snd (activate_host s)
      | BeginHostDraining cb \<Rightarrow> snd (begin_host_draining cb s)
      | CompleteHostDraining cb \<Rightarrow> snd (complete_host_draining cb s)
      | DeactivateHostWithoutBarrier \<Rightarrow> snd (deactivate_host_without_barrier s)
      | ApplyFocus surface \<Rightarrow> snd (apply_focus surface s)
      | BeginDestroy \<Rightarrow> begin_destroy s
      | BeginEnabledTransaction b \<Rightarrow> begin_enabled_transaction b s
      | SetSurroundingText str c a \<Rightarrow> set_surrounding_text str c a s
      | SetTextChangeCause c \<Rightarrow> set_text_change_cause c s
      | SetContentType h p \<Rightarrow> set_content_type h p s
      | SetCursorRect r \<Rightarrow> set_cursor_rect r s
      | GuestCommit conflict \<Rightarrow>
          transact (\<lambda>s. Some (prepare_guest_commit conflict s)) finish_guest_commit s
      | RecordPreeditSelection i l \<Rightarrow> record_preedit_selection i l s
      | RecordPreeditCursor i \<Rightarrow> record_preedit_cursor i s
      | RecordCursorPosition i a \<Rightarrow> record_cursor_position i a s
      | RecordDelete b a \<Rightarrow> snd (record_delete b a s)
      | HostPreedit str blank held \<Rightarrow>
          transact prepare_host_preedit
            (\<lambda>p s. map_option snd (finish_host_preedit p str blank held s)) s
      | HostCommit \<Rightarrow> transact prepare_host_commit finish_host_commit s
      | PreeditRegion str \<Rightarrow> transact prepare_preedit_region (\<lambda>p. finish_preedit_region p str) s
      | ConfirmPreedit \<Rightarrow> transact prepare_confirm_preedit finish_confirm_preedit s)"

lemmas guest_op_defs = activate_host_def begin_host_draining_def complete_host_draining_def
  deactivate_host_without_barrier_def apply_focus_def begin_destroy_def
  begin_enabled_transaction_def set_surrounding_text_def set_text_change_cause_def
  set_content_type_def set_cursor_rect_def clear_host_composition_def

lemmas host_op_defs = record_preedit_selection_def record_preedit_cursor_def
  record_cursor_position_def record_delete_def

text \<open>What each transaction does to the state.\<close>

lemma guest_commit_result:
  "finish_guest_commit (prepare_guest_commit conflict s) s = Some
     ((if enabled_dirty s then clear_host_composition s else s)
      \<lparr>guest_commit_serial := guest_commit_serial s + 1,
       pending_enabled :=
         (if enabled_dirty s \<and> conflict then committed_enabled s else pending_enabled s),
       committed_enabled :=
         (if enabled_dirty s \<and> \<not> conflict then pending_enabled s else committed_enabled s),
       enabled_dirty := False,
       committed_surrounding_text :=
         (if surrounding_text_dirty s then pending_surrounding_text s
          else committed_surrounding_text s),
       surrounding_text_dirty := False,
       committed_content_type :=
         (if content_type_dirty s then Some (content_hint s, content_purpose s)
          else committed_content_type s),
       content_type_dirty := False,
       cursor_rect_dirty := False,
       text_change_cause := 0\<rparr>)"
  by (cases s) (simp add: finish_guest_commit_def prepare_guest_commit_def Let_def
      clear_host_composition_def del: not_None_eq)

lemma transact_guest_commit:
  "transact (\<lambda>s. Some (prepare_guest_commit conflict s)) finish_guest_commit s =
     the (finish_guest_commit (prepare_guest_commit conflict s) s)"
  by (simp add: transact_def guest_commit_result)

text \<open>A host transaction only ends or replaces the composition.\<close>

lemma transact_host:
  "\<exists>pre cur sel del pos. transact prepare_host_preedit
      (\<lambda>p s. map_option snd (finish_host_preedit p str blank held s)) s =
    s\<lparr>current_preedit := pre, pending_preedit_cursor := cur, pending_preedit_selection := sel,
      pending_deletes := del, pending_cursor_position := pos\<rparr> \<and> del \<in> {pending_deletes s, []}"
  "\<exists>pre cur sel del pos. transact prepare_host_commit finish_host_commit s =
    s\<lparr>current_preedit := pre, pending_preedit_cursor := cur, pending_preedit_selection := sel,
      pending_deletes := del, pending_cursor_position := pos\<rparr> \<and> del \<in> {pending_deletes s, []}"
  "\<exists>pre cur sel del pos. transact prepare_preedit_region (\<lambda>p. finish_preedit_region p str) s =
    s\<lparr>current_preedit := pre, pending_preedit_cursor := cur, pending_preedit_selection := sel,
      pending_deletes := del, pending_cursor_position := pos\<rparr> \<and> del \<in> {pending_deletes s, []}"
  "\<exists>pre cur sel del pos. transact prepare_confirm_preedit finish_confirm_preedit s =
    s\<lparr>current_preedit := pre, pending_preedit_cursor := cur, pending_preedit_selection := sel,
      pending_deletes := del, pending_cursor_position := pos\<rparr> \<and> del \<in> {pending_deletes s, []}"
  by (cases s; auto simp: transact_def finish_host_preedit_def finish_host_commit_def
      finish_preedit_region_def finish_confirm_preedit_def clear_host_composition_def
      split: option.split bind_splits)+

definition is_host_transaction :: "text_op \<Rightarrow> bool" where
  "is_host_transaction e =
     (case e of HostPreedit _ _ _ \<Rightarrow> True | HostCommit \<Rightarrow> True | PreeditRegion _ \<Rightarrow> True
      | ConfirmPreedit \<Rightarrow> True | _ \<Rightarrow> False)"

lemma host_transaction_frame:
  "is_host_transaction e \<Longrightarrow>
     \<exists>pre cur sel del pos. text_step s e =
       s\<lparr>current_preedit := pre, pending_preedit_cursor := cur, pending_preedit_selection := sel,
         pending_deletes := del, pending_cursor_position := pos\<rparr> \<and> del \<in> {pending_deletes s, []}"
  by (cases e; simp only: is_host_transaction_def text_step_def text_op.case transact_host)

definition is_guest_commit :: "text_op \<Rightarrow> bool" where
  "is_guest_commit e = (case e of GuestCommit _ \<Rightarrow> True | _ \<Rightarrow> False)"

lemma text_step_serial:
  "guest_commit_serial (text_step s e) =
     guest_commit_serial s + (if is_guest_commit e then 1 else 0)"
proof (cases "is_host_transaction e")
  case True
  then show ?thesis
    using host_transaction_frame [of e s]
    by (auto simp: is_host_transaction_def is_guest_commit_def split: text_op.splits)
next
  case False
  then show ?thesis
    by (cases e) (simp_all add: is_host_transaction_def is_guest_commit_def text_step_def
        guest_op_defs host_op_defs transact_guest_commit guest_commit_result)
qed

lemma text_step_draining:
  "host_activation s = Draining cb \<Longrightarrow> e \<noteq> CompleteHostDraining cb \<Longrightarrow>
     host_activation (text_step s e) = Draining cb"
proof (cases "is_host_transaction e")
  case True
  then show "host_activation s = Draining cb \<Longrightarrow> ?thesis"
    using host_transaction_frame [of e s] by auto
next
  case False
  then show "host_activation s = Draining cb \<Longrightarrow> e \<noteq> CompleteHostDraining cb \<Longrightarrow> ?thesis"
    by (cases e) (simp_all add: is_host_transaction_def text_step_def
        guest_op_defs host_op_defs transact_guest_commit guest_commit_result)
qed

interpretation draining: guarded_machine text_step "\<lambda>s e. e \<noteq> CompleteHostDraining cb"
  "\<lambda>s. host_activation s = Draining cb" for cb
  by unfold_locales (rule text_step_draining)

definition deletes_ok :: "text_input_state \<Rightarrow> bool" where
  "deletes_ok s \<longleftrightarrow> length (pending_deletes s) \<le> MAX_PENDING_IME_DELETES"

text \<open>An enable or disable request has reset, and therefore marked, the whole editor state.\<close>

definition replay_ok :: "text_input_state \<Rightarrow> bool" where
  "replay_ok s \<longleftrightarrow>
     (enabled_dirty s \<longrightarrow> surrounding_text_dirty s \<and> content_type_dirty s \<and> cursor_rect_dirty s) \<and>
     (content_type_dirty s \<or> committed_content_type s = Some (content_hint s, content_purpose s) \<or>
      committed_content_type s = None \<and> content_hint s = 0 \<and> content_purpose s = 0)"

lemma text_step_ok:
  assumes "deletes_ok s \<and> replay_ok s"
  shows "deletes_ok (text_step s e) \<and> replay_ok (text_step s e)"
proof (cases "is_host_transaction e")
  case True
  with assms show ?thesis
    using host_transaction_frame [of e s]
    by (auto simp: deletes_ok_def replay_ok_def MAX_PENDING_IME_DELETES_def)
next
  case False
  with assms show ?thesis
    by (cases e) (auto simp: is_host_transaction_def text_step_def deletes_ok_def replay_ok_def
        guest_op_defs host_op_defs transact_guest_commit guest_commit_result
        MAX_PENDING_IME_DELETES_def)
qed

interpretation text_inv: machine text_step "\<lambda>s. deletes_ok s \<and> replay_ok s"
  by unfold_locales (rule text_step_ok)

lemma text_input_new_ok: "deletes_ok (text_input_new v e seat f) \<and> replay_ok (text_input_new v e seat f)"
  by (simp add: deletes_ok_def replay_ok_def text_input_new_def)

lemma guest_commit_plan_fields:
  "gc_serial (prepare_guest_commit conflict s) = guest_commit_serial s + 1"
  "gc_enabled (prepare_guest_commit conflict s) =
     (if enabled_dirty s \<and> \<not> conflict then pending_enabled s else committed_enabled s)"
  "gc_has_surrounding_text (prepare_guest_commit conflict s) =
     ((if surrounding_text_dirty s then pending_surrounding_text s
       else committed_surrounding_text s) \<noteq> None)"
  "gc_surrounding_text (prepare_guest_commit conflict s) =
     (if surrounding_text_dirty s then Some (pending_surrounding_text s) else None)"
  "gc_content_type (prepare_guest_commit conflict s) =
     (if content_type_dirty s then Some (content_hint s, content_purpose s) else None)"
  by (simp_all add: prepare_guest_commit_def Let_def)

section \<open>Properties\<close>

text \<open>A guest commit finished right after it was prepared never fails its assertions,
  publishes exactly what its plan told the host, leaves nothing dirty, keeps the host
  activation, and its plan cannot be finished a second time.\<close>

theorem guest_commit_transaction:
  "let p = prepare_guest_commit conflict s in
   case finish_guest_commit p s of
     None \<Rightarrow> False
   | Some s' \<Rightarrow>
       guest_commit_serial s' = gc_serial p \<and> gc_serial p = guest_commit_serial s + 1 \<and>
       committed_enabled s' = gc_enabled p \<and>
       (committed_surrounding_text s' \<noteq> None) = gc_has_surrounding_text p \<and>
       gc_surrounding_text p \<in> {None, Some (committed_surrounding_text s')} \<and>
       gc_content_type p \<in> {None, committed_content_type s'} \<and>
       \<not> enabled_dirty s' \<and> \<not> surrounding_text_dirty s' \<and> \<not> content_type_dirty s' \<and>
       \<not> cursor_rect_dirty s' \<and> host_activation s' = host_activation s \<and>
       finish_guest_commit p s' = None"
proof -
  let ?p = "prepare_guest_commit conflict s"
  define s' where "s' = the (finish_guest_commit ?p s)"
  have f: "finish_guest_commit ?p s = Some s'"
    by (simp add: s'_def guest_commit_result)
  have serial: "guest_commit_serial s' = guest_commit_serial s + 1"
    by (simp add: s'_def guest_commit_result)
  have "finish_guest_commit ?p s' = None"
    by (rule guest_commit.stale_plan [of conflict s]) (simp_all add: guest_commit_view_def serial)
  with f show ?thesis
    by (simp add: Let_def guest_commit_plan_fields)
      (simp add: s'_def guest_commit_result clear_host_composition_def)
qed

text \<open>The serial sent with \<open>done\<close> counts, modulo 2 to the 32, exactly the guest commits
  of the object: no other request, focus change or host event moves it.\<close>

theorem guest_commit_serial_counts:
  "guest_commit_serial (run_ops text_step s es) =
     guest_commit_serial s + of_nat (length (filter is_guest_commit es))"
  by (induction es arbitrary: s) (simp_all add: text_step_serial)

text \<open>While a host activation is being drained, nothing but the matching sync callback ends
  the draining: until then every host event is refused and the object cannot be activated
  again.\<close>

theorem draining_generation_latched:
  assumes "begin_host_draining cb s = (True, s')" and "CompleteHostDraining cb \<notin> set es"
  shows "let t = run_ops text_step s' es in
     host_activation t = Draining cb \<and> activate_host t = (False, t) \<and>
     prepare_host_preedit t = None \<and> prepare_host_commit t = None \<and>
     prepare_preedit_region t = None \<and> prepare_confirm_preedit t = None"
proof -
  have "ops_allowed (\<lambda>s e. e \<noteq> CompleteHostDraining cb) text_step s' es"
    using assms(2) by (induction es arbitrary: s') auto
  moreover have "host_activation s' = Draining cb"
    using assms(1) by (auto simp: begin_host_draining_def split: if_splits)
  ultimately have "host_activation (run_ops text_step s' es) = Draining cb"
    by (intro draining.run_inv)
  then show ?thesis
    by (simp add: Let_def activate_host_def prepare_host_preedit_def prepare_host_commit_def
        prepare_preedit_region_def prepare_confirm_preedit_def host_is_active_def)
qed

theorem draining_generation_latched_witness:
  "host_activation (run_ops text_step
     (snd (begin_host_draining (HostId 9) (snd (activate_host (text_input_new 3 None 4 None)))))
     [ApplyFocus (Some 5), ActivateHost, CompleteHostDraining (HostId 8)]) = Draining (HostId 9)"
proof -
  let ?s = "snd (activate_host (text_input_new 3 None 4 None))"
  have "begin_host_draining (HostId 9) ?s = (True, snd (begin_host_draining (HostId 9) ?s))"
    by (simp add: begin_host_draining_def activate_host_def text_input_new_def)
  from draining_generation_latched [OF this,
      of "[ApplyFocus (Some 5), ActivateHost, CompleteHostDraining (HostId 8)]"]
  show ?thesis
    by (simp add: Let_def)
qed

text \<open>In every state the bridge reaches, a commit that carries an enable or disable
  request replays the whole editor state to the host, and at most 256 deletions are kept.\<close>

theorem enable_replays_editor_state:
  assumes "s = run_ops text_step (text_input_new v1 ext seat surface) es"
    and "gc_resets_composition (prepare_guest_commit conflict s)"
  shows "gc_surrounding_text (prepare_guest_commit conflict s) = Some (pending_surrounding_text s)
       \<and> gc_content_type (prepare_guest_commit conflict s) = Some (content_hint s, content_purpose s)
       \<and> gc_cursor_rect (prepare_guest_commit conflict s) \<noteq> None
       \<and> length (pending_deletes s) \<le> MAX_PENDING_IME_DELETES"
proof -
  have "deletes_ok s \<and> replay_ok s"
    unfolding assms(1) by (rule text_inv.run_always) (rule text_input_new_ok)
  with assms(2) show ?thesis
    by (auto simp: deletes_ok_def replay_ok_def prepare_guest_commit_def Let_def)
qed

theorem enable_replays_editor_state_witness:
  "gc_content_type (prepare_guest_commit False (run_ops text_step (text_input_new 3 None 4 None)
     [SetContentType 1 2, GuestCommit False, BeginEnabledTransaction True, SetContentType 1 2])) =
   Some (1, 2)"
proof -
  define s where "s = run_ops text_step (text_input_new 3 None 4 None)
     [SetContentType 1 2, GuestCommit False, BeginEnabledTransaction True, SetContentType 1 2]"
  have "gc_resets_composition (prepare_guest_commit False s)"
    by (simp add: s_def prepare_guest_commit_def text_step_def set_content_type_def Let_def
        begin_enabled_transaction_def)
  from enable_replays_editor_state [OF s_def this]
  have "gc_content_type (prepare_guest_commit False s) = Some (content_hint s, content_purpose s)"
    by simp
  moreover have "content_hint s = 1" "content_purpose s = 2"
    by (simp_all add: s_def text_step_def set_content_type_def)
  ultimately show ?thesis
    by (simp add: s_def)
qed

end
