(* ===== verification/Key_Generation.thy ===== *)
theory Key_Generation
  imports Shadow_Table
begin

text \<open>
  \<open>KeyGenerationRegistry\<close> of \<^verbatim>\<open>sommelier/src/state/input.rs\<close>: one record per pressed key
  of a host keyboard that holds its physical state, the ChromeOS peek provenance, the IME
  repeat state and the exclusive owner of its guest delivery, together with the guest
  presses of earlier generations whose release is still to come.
\<close>

section \<open>Data\<close>

record peek_key_provenance =
  pk_serial :: u32
  pk_time :: u32
  pk_sequence :: u64
  pk_eligible :: bool

record peek_watermark =
  pw_keyboard :: host_id
  pw_sequence :: u64

datatype guest_key_owner = Physical | TextInputKeysym | ImeRecovery

datatype guest_key_event =
    PhysicalPress (pp_repeated: bool) (pp_host_accelerator: bool) (pp_ime_repeat_active: bool)
  | PhysicalRelease
  | TextInputPress u32
  | TextInputRepeat
  | TextInputRelease u32
  | RecoverIme

datatype guest_key_delivery = DropKey | ForwardKey | EmitBalancedPair

record guest_key_decision =
  delivery :: guest_key_delivery
  ack_handled :: "bool option"
  ends_repeat :: bool

record retired_guest_release =
  rr_owner :: guest_key_owner
  rr_press_serial :: "u32 option"
  rr_release_serial :: "u32 option"
  rr_next_press_serial :: "u32 option"

datatype physical_key_state = Unseen | Held | KeyReleased

record key_generation =
  kg_id :: u64
  kg_physical_state :: physical_key_state
  kg_peek :: "peek_key_provenance option"
  kg_peek_press_serial :: "u32 option"
  kg_physical_release_serial :: "u32 option"
  kg_backspace_repeat_cancelled :: bool
  kg_ime_repeat_owner :: "u32 option"
  kg_guest_owner :: "guest_key_owner option"
  kg_guest_press_serial :: "u32 option"
  kg_host_accelerator_suppressed :: bool

definition key_generation_new :: "u64 \<Rightarrow> key_generation" where
  "key_generation_new i =
     \<lparr>kg_id = i, kg_physical_state = Unseen, kg_peek = None, kg_peek_press_serial = None,
      kg_physical_release_serial = None, kg_backspace_repeat_cancelled = False,
      kg_ime_repeat_owner = None, kg_guest_owner = None, kg_guest_press_serial = None,
      kg_host_accelerator_suppressed = False\<rparr>"

definition is_unreferenced :: "key_generation \<Rightarrow> bool" where
  "is_unreferenced g \<longleftrightarrow>
     kg_physical_state g \<noteq> Held \<and> kg_peek g = None \<and> \<not> kg_backspace_repeat_cancelled g \<and>
     kg_ime_repeat_owner g = None \<and> kg_guest_owner g = None \<and>
     \<not> kg_host_accelerator_suppressed g"

text \<open>The inner map is the only one whose entries are iterated without a predicate on the key.\<close>

record key_registry =
  next_generation :: u64
  kr_entries :: "host_id \<rightharpoonup> (u32, key_generation) hmap"
  retired_guest_releases :: "host_id \<times> u32 \<rightharpoonup> retired_guest_release list"
  latest_peek_sequences :: "u32 \<times> u32 option \<rightharpoonup> peek_watermark"

definition key_registry_default :: key_registry where
  "key_registry_default =
     \<lparr>next_generation = 0, kr_entries = Map.empty, retired_guest_releases = Map.empty,
      latest_peek_sequences = Map.empty\<rparr>"

text \<open>\<open>HashMap::retain\<close> on a map that is otherwise only looked up.\<close>

definition map_retain :: "('k \<Rightarrow> 'v \<Rightarrow> bool) \<Rightarrow> ('k \<rightharpoonup> 'v) \<Rightarrow> ('k \<rightharpoonup> 'v)" where
  "map_retain p m = (\<lambda>k. case m k of Some v \<Rightarrow> if p k v then Some v else None | None \<Rightarrow> None)"

section \<open>Entries\<close>

text \<open>\<open>entries.get(&keyboard).and_then(|keys| keys.get(&key))\<close>\<close>

definition kg_get :: "key_registry \<Rightarrow> host_id \<Rightarrow> u32 \<Rightarrow> key_generation option" where
  "kg_get r kb key = Option.bind (kr_entries r kb) (\<lambda>keys. hm_get keys key)"

text \<open>A write through \<open>entries.get_mut(&keyboard).and_then(|keys| keys.get_mut(&key))\<close>.\<close>

definition kg_modify ::
    "host_id \<Rightarrow> u32 \<Rightarrow> (key_generation \<Rightarrow> key_generation) \<Rightarrow> key_registry \<Rightarrow> key_registry" where
  "kg_modify kb key f r =
     (case kr_entries r kb of
        None \<Rightarrow> r
      | Some keys \<Rightarrow>
         (case hm_get keys key of
            None \<Rightarrow> r
          | Some g \<Rightarrow> r\<lparr>kr_entries := (kr_entries r)(kb \<mapsto> hm_insert key (f g) keys)\<rparr>))"

text \<open>\<open>if let Some(keys) = entries.get_mut(&keyboard) { keys.remove(&key); }\<close>\<close>

definition kg_remove :: "host_id \<Rightarrow> u32 \<Rightarrow> key_registry \<Rightarrow> key_registry" where
  "kg_remove kb key r =
     (case kr_entries r kb of
        None \<Rightarrow> r
      | Some keys \<Rightarrow> r\<lparr>kr_entries := (kr_entries r)(kb \<mapsto> hm_remove key keys)\<rparr>)"

definition kg_modify_all ::
    "host_id \<Rightarrow> (key_generation \<Rightarrow> key_generation) \<Rightarrow> key_registry \<Rightarrow> key_registry" where
  "kg_modify_all kb f r =
     (case kr_entries r kb of
        None \<Rightarrow> r
      | Some keys \<Rightarrow>
          r\<lparr>kr_entries := (kr_entries r)(kb \<mapsto> map (\<lambda>(k, g). (k, f g)) keys)\<rparr>)"

definition kg_keys :: "key_registry \<Rightarrow> host_id \<Rightarrow> u32 list" where
  "kg_keys r kb = (case kr_entries r kb of Some keys \<Rightarrow> map fst keys | None \<Rightarrow> [])"

definition allocate_generation :: "key_registry \<Rightarrow> u64 \<times> key_registry" where
  "allocate_generation r =
     (let n = max (next_generation r + 1) 1 in (n, r\<lparr>next_generation := n\<rparr>))"

definition ensure_generation :: "host_id \<Rightarrow> u32 \<Rightarrow> key_registry \<Rightarrow> key_registry" where
  "ensure_generation kb key r =
     (if kg_get r kb key \<noteq> None then r
      else case allocate_generation r of
        (i, r1) \<Rightarrow>
          let keys = (case kr_entries r1 kb of Some keys \<Rightarrow> keys | None \<Rightarrow> [])
          in r1\<lparr>kr_entries := (kr_entries r1)(kb \<mapsto> hm_insert key (key_generation_new i) keys)\<rparr>)"

definition prune_key :: "host_id \<Rightarrow> u32 \<Rightarrow> key_registry \<Rightarrow> key_registry" where
  "prune_key kb key r =
     (let remove = (case kg_get r kb key of Some g \<Rightarrow> is_unreferenced g | None \<Rightarrow> False);
          r1 = (if remove then kg_remove kb key r else r)
      in if kr_entries r1 kb = Some [] then r1\<lparr>kr_entries := (kr_entries r1)(kb := None)\<rparr>
         else r1)"

definition clear_keyboard :: "host_id \<Rightarrow> key_registry \<Rightarrow> key_registry" where
  "clear_keyboard kb r =
     r\<lparr>kr_entries := (kr_entries r)(kb := None),
       retired_guest_releases := map_retain (\<lambda>(k, _) _. k \<noteq> kb) (retired_guest_releases r),
       latest_peek_sequences := map_retain (\<lambda>_ w. pw_keyboard w \<noteq> kb) (latest_peek_sequences r)\<rparr>"

section \<open>Peek watermarks\<close>

definition record_latest_peek ::
    "u32 \<Rightarrow> u32 option \<Rightarrow> host_id \<Rightarrow> u64 \<Rightarrow> key_registry \<Rightarrow> key_registry" where
  "record_latest_peek seat surface kb sequence r =
     r\<lparr>latest_peek_sequences := (latest_peek_sequences r)
        ((seat, surface) \<mapsto> \<lparr>pw_keyboard = kb, pw_sequence = sequence\<rparr>)\<rparr>"

definition latest_peek_sequence :: "key_registry \<Rightarrow> u32 \<Rightarrow> u32 option \<Rightarrow> u64 option" where
  "latest_peek_sequence r seat surface =
     map_option pw_sequence (latest_peek_sequences r (seat, surface))"

definition clear_peek_watermarks_for_seat :: "u32 \<Rightarrow> key_registry \<Rightarrow> key_registry" where
  "clear_peek_watermarks_for_seat seat r =
     r\<lparr>latest_peek_sequences := map_retain (\<lambda>(s, _) _. s \<noteq> seat) (latest_peek_sequences r)\<rparr>"

definition clear_peek_watermarks_for_surface :: "u32 \<Rightarrow> key_registry \<Rightarrow> key_registry" where
  "clear_peek_watermarks_for_surface surface r =
     r\<lparr>latest_peek_sequences :=
        map_retain (\<lambda>(_, s) _. s \<noteq> Some surface) (latest_peek_sequences r)\<rparr>"

section \<open>Queries\<close>

definition physically_held :: "key_registry \<Rightarrow> host_id \<Rightarrow> u32 \<Rightarrow> bool" where
  "physically_held r kb key =
     (case kg_get r kb key of Some g \<Rightarrow> kg_physical_state g = Held | None \<Rightarrow> False)"

definition physical_released :: "key_registry \<Rightarrow> host_id \<Rightarrow> u32 \<Rightarrow> bool" where
  "physical_released r kb key =
     (case kg_get r kb key of Some g \<Rightarrow> kg_physical_state g = KeyReleased | None \<Rightarrow> False)"

definition peek_press_serial :: "key_registry \<Rightarrow> host_id \<Rightarrow> u32 \<Rightarrow> u32 option" where
  "peek_press_serial r kb key = Option.bind (kg_get r kb key) kg_peek_press_serial"

definition physical_release_serial :: "key_registry \<Rightarrow> host_id \<Rightarrow> u32 \<Rightarrow> u32 option" where
  "physical_release_serial r kb key = Option.bind (kg_get r kb key) kg_physical_release_serial"

definition any_physically_held :: "key_registry \<Rightarrow> host_id \<Rightarrow> bool" where
  "any_physically_held r kb =
     (case kr_entries r kb of
        Some keys \<Rightarrow> list_ex (\<lambda>(_, g). kg_physical_state g = Held) keys
      | None \<Rightarrow> False)"

definition peek :: "key_registry \<Rightarrow> host_id \<Rightarrow> u32 \<Rightarrow> peek_key_provenance option" where
  "peek r kb key = Option.bind (kg_get r kb key) kg_peek"

definition peek_keys :: "key_registry \<Rightarrow> host_id \<Rightarrow> (u32 \<times> peek_key_provenance) list" where
  "peek_keys r kb =
     (case kr_entries r kb of
        Some keys \<Rightarrow> concat (map (\<lambda>(k, g). case kg_peek g of Some p \<Rightarrow> [(k, p)] | None \<Rightarrow> []) keys)
      | None \<Rightarrow> [])"

definition backspace_repeat_cancelled :: "key_registry \<Rightarrow> host_id \<Rightarrow> u32 \<Rightarrow> bool" where
  "backspace_repeat_cancelled r kb key =
     (case kg_get r kb key of Some g \<Rightarrow> kg_backspace_repeat_cancelled g | None \<Rightarrow> False)"

definition ime_repeat_owner :: "key_registry \<Rightarrow> host_id \<Rightarrow> u32 \<Rightarrow> u32 option" where
  "ime_repeat_owner r kb key = Option.bind (kg_get r kb key) kg_ime_repeat_owner"

definition ime_repeat_active :: "key_registry \<Rightarrow> host_id \<Rightarrow> u32 \<Rightarrow> bool" where
  "ime_repeat_active r kb key \<longleftrightarrow> ime_repeat_owner r kb key \<noteq> None"

definition guest_owner :: "key_registry \<Rightarrow> host_id \<Rightarrow> u32 \<Rightarrow> guest_key_owner option" where
  "guest_owner r kb key = Option.bind (kg_get r kb key) kg_guest_owner"

definition guest_press_serial :: "key_registry \<Rightarrow> host_id \<Rightarrow> u32 \<Rightarrow> u32 option" where
  "guest_press_serial r kb key = Option.bind (kg_get r kb key) kg_guest_press_serial"

definition host_accelerator_suppressed :: "key_registry \<Rightarrow> host_id \<Rightarrow> u32 \<Rightarrow> bool" where
  "host_accelerator_suppressed r kb key =
     (case kg_get r kb key of Some g \<Rightarrow> kg_host_accelerator_suppressed g | None \<Rightarrow> False)"

section \<open>Retired guest presses\<close>

definition take_retired_guest_release ::
    "host_id \<Rightarrow> u32 \<Rightarrow> (retired_guest_release \<Rightarrow> bool) \<Rightarrow> key_registry \<Rightarrow> bool \<times> key_registry" where
  "take_retired_guest_release kb key p r =
     (case retired_guest_releases r (kb, key) of
        None \<Rightarrow> (False, r)
      | Some pending \<Rightarrow>
         (case List.extract p pending of
            None \<Rightarrow> (False, r)
          | Some (before, _, after) \<Rightarrow>
              (True, r\<lparr>retired_guest_releases := (retired_guest_releases r)
                 ((kb, key) := (if before @ after = [] then None else Some (before @ after)))\<rparr>)))"

definition take_pending_physical_release ::
    "host_id \<Rightarrow> u32 \<Rightarrow> u32 \<Rightarrow> key_registry \<Rightarrow> bool \<times> key_registry" where
  "take_pending_physical_release kb key serial =
     take_retired_guest_release kb key
       (\<lambda>x. rr_owner x = Physical \<and> rr_release_serial x = Some serial)"

definition option_or :: "'a option \<Rightarrow> 'a option \<Rightarrow> 'a option" where
  "option_or a b = (case a of Some _ \<Rightarrow> a | None \<Rightarrow> b)"

definition take_pending_text_input_release ::
    "host_id \<Rightarrow> u32 \<Rightarrow> u32 \<Rightarrow> key_registry \<Rightarrow> bool \<times> key_registry" where
  "take_pending_text_input_release kb key serial r =
     (let current_press_serial =
            Option.bind (kg_get r kb key)
              (\<lambda>g. option_or (kg_guest_press_serial g) (kg_peek_press_serial g))
      in take_retired_guest_release kb key
           (\<lambda>x. rr_owner x = TextInputKeysym \<and>
              (case rr_press_serial x of Some p \<Rightarrow> serial_is_after serial p | None \<Rightarrow> False) \<and>
              (case option_or (rr_next_press_serial x) current_press_serial of
                 Some c \<Rightarrow> \<not> serial_is_after serial c
               | None \<Rightarrow> True)) r)"

text \<open>The guest press of a released generation that still awaits its release, if it can be matched.\<close>

definition retired_release_of :: "key_generation \<Rightarrow> u32 option \<Rightarrow> retired_guest_release option" where
  "retired_release_of g next_press =
     (case kg_guest_owner g of
        Some Physical \<Rightarrow>
          map_option (\<lambda>rs. \<lparr>rr_owner = Physical, rr_press_serial = kg_guest_press_serial g,
            rr_release_serial = Some rs, rr_next_press_serial = next_press\<rparr>)
            (kg_physical_release_serial g)
      | Some TextInputKeysym \<Rightarrow>
          map_option (\<lambda>ps. \<lparr>rr_owner = TextInputKeysym, rr_press_serial = Some ps,
            rr_release_serial = None, rr_next_press_serial = next_press\<rparr>)
            (kg_guest_press_serial g)
      | _ \<Rightarrow> None)"

definition retire_released_generation ::
    "host_id \<Rightarrow> u32 \<Rightarrow> u32 option \<Rightarrow> key_registry \<Rightarrow> bool \<times> key_registry" where
  "retire_released_generation kb key next_press r =
     (case kg_get r kb key of
        None \<Rightarrow> (False, r)
      | Some g \<Rightarrow>
          if kg_physical_state g \<noteq> KeyReleased then (False, r)
          else
            let r1 = (case retired_release_of g next_press of
                        None \<Rightarrow> r
                      | Some x \<Rightarrow> r\<lparr>retired_guest_releases := (retired_guest_releases r)
                          ((kb, key) \<mapsto> (case retired_guest_releases r (kb, key) of
                             Some xs \<Rightarrow> xs @ [x] | None \<Rightarrow> [x]))\<rparr>)
            in (True, kg_remove kb key r1))"

section \<open>Physical observations\<close>

definition observe_physical_press ::
    "host_id \<Rightarrow> u32 \<Rightarrow> u32 option \<Rightarrow> key_registry \<Rightarrow> key_registry" where
  "observe_physical_press kb key next_press r =
     kg_modify kb key (\<lambda>g. g\<lparr>kg_physical_state := Held\<rparr>)
       (ensure_generation kb key (snd (retire_released_generation kb key next_press r)))"

definition observe_physical_event ::
    "host_id \<Rightarrow> u32 \<Rightarrow> u32 \<Rightarrow> u32 option \<Rightarrow> key_registry \<Rightarrow> key_registry" where
  "observe_physical_event kb key state serial r =
     (if state = 1 then observe_physical_press kb key None r
      else if state = 2 then
        (if physically_held r kb key
         then kg_modify kb key (\<lambda>g. g\<lparr>kg_physical_state := Held\<rparr>) r else r)
      else if state = 0 then
        let r1 = kg_modify kb key
              (\<lambda>g. g\<lparr>kg_physical_state := KeyReleased,
                 kg_physical_release_serial :=
                   (case serial of Some _ \<Rightarrow> serial | None \<Rightarrow> kg_physical_release_serial g),
                 kg_backspace_repeat_cancelled := False, kg_ime_repeat_owner := None\<rparr>) r;
            r2 = (if \<not> any_physically_held r1 kb
                  then fold (prune_key kb) (kg_keys r1 kb)
                         (kg_modify_all kb (\<lambda>g. g\<lparr>kg_peek := None\<rparr>) r1)
                  else r1)
        in prune_key kb key r2
      else r)"

definition install_enter_snapshot :: "host_id \<Rightarrow> u32 list \<Rightarrow> key_registry \<Rightarrow> key_registry" where
  "install_enter_snapshot kb keys r =
     fold (\<lambda>key r. kg_modify kb key
             (\<lambda>g. g\<lparr>kg_physical_state := Held, kg_guest_owner := Some Physical\<rparr>)
             (ensure_generation kb key r))
       keys (clear_keyboard kb r)"

definition observe_peek_press ::
    "host_id \<Rightarrow> u32 \<Rightarrow> u32 \<Rightarrow> u32 \<Rightarrow> bool \<Rightarrow> key_registry \<Rightarrow> u64 \<times> key_registry" where
  "observe_peek_press kb key serial time eligible r =
     (let r1 = (if physically_held r kb key then r
                else observe_physical_press kb key (Some serial) r);
          r2 = ensure_generation kb key r1;
          sequence = (case kg_get r2 kb key of Some g \<Rightarrow> kg_id g | None \<Rightarrow> 0)
      in (sequence,
          kg_modify kb key
            (\<lambda>g. g\<lparr>kg_peek_press_serial := Some serial,
               kg_peek := Some \<lparr>pk_serial = serial, pk_time = time, pk_sequence = sequence,
                               pk_eligible = eligible\<rparr>\<rparr>) r2))"

definition refresh_peek :: "host_id \<Rightarrow> u32 \<Rightarrow> u32 \<Rightarrow> u32 \<Rightarrow> key_registry \<Rightarrow> key_registry" where
  "refresh_peek kb key serial time =
     kg_modify kb key
       (\<lambda>g. g\<lparr>kg_peek_press_serial := Some serial,
          kg_peek := map_option (\<lambda>p. p\<lparr>pk_serial := serial, pk_time := time\<rparr>) (kg_peek g)\<rparr>)"

definition observe_peek_release :: "host_id \<Rightarrow> u32 \<Rightarrow> u32 \<Rightarrow> key_registry \<Rightarrow> key_registry" where
  "observe_peek_release kb key serial = observe_physical_event kb key 0 (Some serial)"

definition invalidate_peek :: "host_id \<Rightarrow> u32 \<Rightarrow> key_registry \<Rightarrow> key_registry" where
  "invalidate_peek kb key =
     kg_modify kb key
       (\<lambda>g. g\<lparr>kg_peek := map_option (\<lambda>p. p\<lparr>pk_eligible := False\<rparr>) (kg_peek g)\<rparr>)"

section \<open>IME repeat\<close>

definition cancel_backspace_repeat :: "host_id \<Rightarrow> u32 \<Rightarrow> key_registry \<Rightarrow> key_registry" where
  "cancel_backspace_repeat kb backspace r =
     (if physically_held r kb backspace
      then kg_modify kb backspace
             (\<lambda>g. g\<lparr>kg_backspace_repeat_cancelled := True, kg_ime_repeat_owner := None\<rparr>)
             (ensure_generation kb backspace r)
      else r)"

definition arm_ime_repeat ::
    "host_id \<Rightarrow> u32 \<Rightarrow> u32 \<Rightarrow> key_registry \<Rightarrow> bool \<times> key_registry" where
  "arm_ime_repeat kb key guest_text_input r =
     (case kg_get r kb key of
        None \<Rightarrow> (False, r)
      | Some g \<Rightarrow>
          if kg_physical_state g = Held \<and> \<not> kg_backspace_repeat_cancelled g \<and>
             (case kg_ime_repeat_owner g of Some owner \<Rightarrow> owner = guest_text_input | None \<Rightarrow> True)
          then (True, kg_modify kb key (\<lambda>g. g\<lparr>kg_ime_repeat_owner := Some guest_text_input\<rparr>) r)
          else (False, r))"

definition cancel_backspace_repeat_for_owner ::
    "host_id \<Rightarrow> u32 \<Rightarrow> u32 \<Rightarrow> key_registry \<Rightarrow> bool \<times> key_registry" where
  "cancel_backspace_repeat_for_owner kb backspace guest_text_input r =
     (if ime_repeat_owner r kb backspace \<noteq> Some guest_text_input then (False, r)
      else (True, cancel_backspace_repeat kb backspace r))"

section \<open>Guest delivery\<close>

definition claim_guest_owner ::
    "host_id \<Rightarrow> u32 \<Rightarrow> guest_key_owner \<Rightarrow> key_registry \<Rightarrow> bool \<times> key_registry" where
  "claim_guest_owner kb key owner r =
     (let r1 = ensure_generation kb key r
      in if guest_owner r1 kb key \<noteq> None then (False, r1)
         else (True, kg_modify kb key (\<lambda>g. g\<lparr>kg_guest_owner := Some owner\<rparr>) r1))"

text \<open>The pair \<open>(starts_new, released)\<close> of \<open>claim_text_input_owner\<close>.\<close>

definition text_input_starts_new :: "key_generation \<Rightarrow> u32 \<Rightarrow> bool \<times> bool" where
  "text_input_starts_new g serial =
     (let newer_than_guest_press =
            (case kg_guest_press_serial g of Some p \<Rightarrow> serial_is_after serial p | None \<Rightarrow> True);
          released = (kg_physical_state g = KeyReleased);
          after_release_boundary =
            (case kg_physical_release_serial g of Some p \<Rightarrow> serial_is_after serial p | None \<Rightarrow> False);
          owner_can_start_next =
            (case kg_guest_owner g of
               Some TextInputKeysym \<Rightarrow> released
             | Some ImeRecovery \<Rightarrow> kg_physical_state g = Unseen \<or> released
             | _ \<Rightarrow> False)
      in (owner_can_start_next \<and> newer_than_guest_press \<and> (\<not> released \<or> after_release_boundary),
          released))"

text \<open>\<open>None\<close> is the failed \<open>debug_assert!(retired)\<close>.\<close>

definition claim_text_input_owner ::
    "host_id \<Rightarrow> u32 \<Rightarrow> u32 \<Rightarrow> key_registry \<Rightarrow> (bool \<times> key_registry) option" where
  "claim_text_input_owner kb key serial r =
     (let (starts_new, released) =
            (case kg_get r kb key of
               Some g \<Rightarrow> text_input_starts_new g serial
             | None \<Rightarrow> (False, False));
          r1 = (if \<not> starts_new then Some r
                else if released then
                  (case retire_released_generation kb key (Some serial) r of
                     (retired, r') \<Rightarrow> if retired then Some r' else None)
                else Some (kg_remove kb key r))
      in map_option (\<lambda>r1.
           case claim_guest_owner kb key TextInputKeysym r1 of
             (claimed, r2) \<Rightarrow>
               (claimed,
                if claimed
                then kg_modify kb key (\<lambda>g. g\<lparr>kg_guest_press_serial := Some serial\<rparr>)
                       (ensure_generation kb key r2)
                else r2)) r1)"

definition take_guest_owner ::
    "host_id \<Rightarrow> u32 \<Rightarrow> key_registry \<Rightarrow> guest_key_owner option \<times> key_registry" where
  "take_guest_owner kb key r =
     (guest_owner r kb key,
      prune_key kb key
        (kg_modify kb key
          (\<lambda>g. g\<lparr>kg_guest_owner := None,
             kg_guest_press_serial :=
               (if kg_guest_owner g = None then kg_guest_press_serial g else None)\<rparr>) r))"

definition complete_guest_owner_if ::
    "host_id \<Rightarrow> u32 \<Rightarrow> guest_key_owner \<Rightarrow> key_registry \<Rightarrow> bool \<times> key_registry" where
  "complete_guest_owner_if kb key expected r =
     (if guest_owner r kb key = Some expected
      then (True, kg_modify kb key (\<lambda>g. g\<lparr>kg_guest_owner := Some ImeRecovery\<rparr>) r)
      else (False, r))"

definition suppress_host_accelerator :: "host_id \<Rightarrow> u32 \<Rightarrow> key_registry \<Rightarrow> key_registry" where
  "suppress_host_accelerator kb key r =
     kg_modify kb key (\<lambda>g. g\<lparr>kg_host_accelerator_suppressed := True\<rparr>)
       (ensure_generation kb key r)"

definition take_host_accelerator_suppression ::
    "host_id \<Rightarrow> u32 \<Rightarrow> key_registry \<Rightarrow> bool \<times> key_registry" where
  "take_host_accelerator_suppression kb key r =
     (host_accelerator_suppressed r kb key,
      prune_key kb key (kg_modify kb key (\<lambda>g. g\<lparr>kg_host_accelerator_suppressed := False\<rparr>) r))"

definition clear_accelerator_suppressions :: "host_id \<Rightarrow> key_registry \<Rightarrow> key_registry" where
  "clear_accelerator_suppressions kb r =
     fold (prune_key kb) (kg_keys r kb)
       (kg_modify_all kb (\<lambda>g. g\<lparr>kg_host_accelerator_suppressed := False\<rparr>) r)"

section \<open>The delivery reducer\<close>

definition owner_forwarded :: "guest_key_owner option \<Rightarrow> bool" where
  "owner_forwarded owner \<longleftrightarrow> owner = Some Physical \<or> owner = Some TextInputKeysym"

definition decide :: "guest_key_delivery \<Rightarrow> bool option \<Rightarrow> bool \<Rightarrow> guest_key_decision" where
  "decide d ack ends = \<lparr>delivery = d, ack_handled = ack, ends_repeat = ends\<rparr>"

text \<open>\<open>let claimed = self.claim_guest_owner(..); debug_assert!(claimed)\<close>: \<open>None\<close> is the failure.\<close>

definition claim_asserted ::
    "host_id \<Rightarrow> u32 \<Rightarrow> guest_key_owner \<Rightarrow> key_registry \<Rightarrow> key_registry option" where
  "claim_asserted kb key owner r =
     (case claim_guest_owner kb key owner r of (claimed, r1) \<Rightarrow> if claimed then Some r1 else None)"

text \<open>A physical press, once a recovery claim has been made if one is due.\<close>

definition physical_press_decide ::
    "host_id \<Rightarrow> u32 \<Rightarrow> bool \<Rightarrow> bool \<Rightarrow> bool \<Rightarrow> bool \<Rightarrow> key_registry \<Rightarrow>
     (guest_key_decision \<times> key_registry) option" where
  "physical_press_decide kb key repeated host_accelerator forwarded suppress_for_ime r =
     (let accelerator_was_suppressed = host_accelerator_suppressed r kb key
      in if accelerator_was_suppressed \<or> host_accelerator then
           Some (decide DropKey (Some False) False,
                 if \<not> forwarded then suppress_host_accelerator kb key r else r)
         else if suppress_for_ime then Some (decide DropKey (Some False) False, r)
         else if forwarded \<and> \<not> repeated then Some (decide DropKey (Some True) False, r)
         else if repeated then
           Some (decide (if forwarded then ForwardKey else DropKey) (Some forwarded) False, r)
         else map_option (\<lambda>r2. (decide ForwardKey (Some True) False, r2))
                (claim_asserted kb key Physical r))"

definition physical_press_transition ::
    "host_id \<Rightarrow> u32 \<Rightarrow> bool \<Rightarrow> bool \<Rightarrow> bool \<Rightarrow> key_registry \<Rightarrow>
     (guest_key_decision \<times> key_registry) option" where
  "physical_press_transition kb key repeated host_accelerator ime_active r =
     (let owner = guest_owner r kb key;
          forwarded = owner_forwarded owner;
          ime_recovered = (owner = Some ImeRecovery);
          suppress_for_ime = (ime_recovered \<or> (ime_active \<and> \<not> forwarded))
      in Option.bind
           (if suppress_for_ime \<and> owner = None then claim_asserted kb key ImeRecovery r else Some r)
           (physical_press_decide kb key repeated host_accelerator forwarded suppress_for_ime))"

definition physical_release_transition ::
    "host_id \<Rightarrow> u32 \<Rightarrow> key_registry \<Rightarrow> guest_key_decision \<times> key_registry" where
  "physical_release_transition kb key r =
     (let (accelerator_suppressed, r1) = take_host_accelerator_suppression kb key r;
          owner = guest_owner r1 kb key;
          ime_recovered = (owner = Some ImeRecovery);
          forwarded = owner_forwarded owner;
          r2 = (if \<not> ime_recovered then snd (take_guest_owner kb key r1) else r1)
      in (decide (if forwarded \<and> \<not> accelerator_suppressed \<and> \<not> ime_recovered
                  then ForwardKey else DropKey) (Some forwarded) True, r2))"

definition text_input_press_transition ::
    "host_id \<Rightarrow> u32 \<Rightarrow> u32 \<Rightarrow> key_registry \<Rightarrow> (guest_key_decision \<times> key_registry) option" where
  "text_input_press_transition kb key serial r =
     (let accelerator_generation =
            (host_accelerator_suppressed r kb key \<or>
             (physically_held r kb key \<and>
              (case peek r kb key of Some p \<Rightarrow> \<not> pk_eligible p | None \<Rightarrow> False)))
      in if accelerator_generation \<or> guest_owner r kb key = Some Physical
         then Some (decide DropKey None False, r)
         else map_option
                (\<lambda>(claimed, r1). (decide (if claimed then ForwardKey else DropKey) None False, r1))
                (claim_text_input_owner kb key serial r))"

definition text_input_release_transition ::
    "host_id \<Rightarrow> u32 \<Rightarrow> u32 \<Rightarrow> key_registry \<Rightarrow> guest_key_decision \<times> key_registry" where
  "text_input_release_transition kb key serial r =
     (let (retired, r1) = take_pending_text_input_release kb key serial r;
          (current, r2) =
            (if retired then (True, r1)
             else
               let serial_is_current =
                     (case guest_press_serial r1 kb key of
                        Some p \<Rightarrow> serial_is_after serial p
                      | None \<Rightarrow> True)
               in if serial_is_current then complete_guest_owner_if kb key TextInputKeysym r1
                  else (False, r1))
      in (decide (if current then ForwardKey else DropKey) None (current \<and> \<not> retired), r2))"

definition recover_ime_transition ::
    "host_id \<Rightarrow> u32 \<Rightarrow> key_registry \<Rightarrow> (guest_key_decision \<times> key_registry) option" where
  "recover_ime_transition kb key r =
     (let owner = guest_owner r kb key
      in if owner_forwarded owner then Some (decide DropKey None False, r)
         else map_option (\<lambda>r1. (decide EmitBalancedPair None False, r1))
                (if owner = None then claim_asserted kb key ImeRecovery r else Some r))"

definition transition_guest_key ::
    "host_id \<Rightarrow> u32 \<Rightarrow> guest_key_event \<Rightarrow> key_registry \<Rightarrow>
     (guest_key_decision \<times> key_registry) option" where
  "transition_guest_key kb key event r =
     (case event of
        PhysicalPress repeated host_accelerator ime_active \<Rightarrow>
          physical_press_transition kb key repeated host_accelerator ime_active r
      | PhysicalRelease \<Rightarrow> Some (physical_release_transition kb key r)
      | TextInputPress serial \<Rightarrow> text_input_press_transition kb key serial r
      | TextInputRepeat \<Rightarrow>
          Some (decide (if owner_forwarded (guest_owner r kb key) then ForwardKey else DropKey)
                  None False, r)
      | TextInputRelease serial \<Rightarrow> Some (text_input_release_transition kb key serial r)
      | RecoverIme \<Rightarrow> recover_ime_transition kb key r)"

section \<open>Views of the primitive operations\<close>

text \<open>
  Every operation is understood through \<open>kg_get\<close>, the generation of a key, and the list of
  retired presses.
\<close>

lemma kg_get_modify [simp]:
  "kg_get (kg_modify kb key f r) kb' key' =
     (if kb' = kb \<and> key' = key then map_option f (kg_get r kb key) else kg_get r kb' key')"
  by (auto simp: kg_get_def kg_modify_def split: option.splits)

lemma kg_get_remove [simp]:
  "kg_get (kg_remove kb key r) kb' key' =
     (if kb' = kb \<and> key' = key then None else kg_get r kb' key')"
  by (auto simp: kg_get_def kg_remove_def split: option.splits)

lemma hm_get_map: "hm_get (map (\<lambda>(k, g). (k, f g)) m) k = map_option f (hm_get m k)"
  by (simp add: hm_get_def map_of_map)

lemma kg_get_modify_all [simp]:
  "kg_get (kg_modify_all kb f r) kb' key =
     (if kb' = kb then map_option f (kg_get r kb key) else kg_get r kb' key)"
  by (auto simp: kg_get_def kg_modify_all_def hm_get_map split: option.splits)

definition fresh_generation :: "key_registry \<Rightarrow> key_generation" where
  "fresh_generation r = key_generation_new (max (next_generation r + 1) 1)"

lemma kg_get_ensure [simp]:
  "kg_get (ensure_generation kb key r) kb' key' =
     (if kb' = kb \<and> key' = key
      then Some (case kg_get r kb key of Some g \<Rightarrow> g | None \<Rightarrow> fresh_generation r)
      else kg_get r kb' key')"
  by (auto simp: kg_get_def ensure_generation_def allocate_generation_def fresh_generation_def Let_def
      split: option.splits)

lemma kg_get_prune [simp]:
  "kg_get (prune_key kb key r) kb' key' =
     (if kb' = kb \<and> key' = key
      then (case kg_get r kb key of
              Some g \<Rightarrow> if is_unreferenced g then None else Some g
            | None \<Rightarrow> None)
      else kg_get r kb' key')"
proof -
  have drop: "kg_get (if kr_entries s kb = Some []
      then s\<lparr>kr_entries := (kr_entries s)(kb := None)\<rparr> else s) = kg_get s" for s
    by (auto simp: kg_get_def fun_eq_iff)
  show ?thesis
    by (simp add: prune_key_def Let_def drop split: option.splits)
qed

lemma retired_frame [simp]:
  "retired_guest_releases (kg_modify kb key f r) = retired_guest_releases r"
  "retired_guest_releases (kg_remove kb key r) = retired_guest_releases r"
  "retired_guest_releases (kg_modify_all kb f r) = retired_guest_releases r"
  "retired_guest_releases (ensure_generation kb key r) = retired_guest_releases r"
  "retired_guest_releases (prune_key kb key r) = retired_guest_releases r"
  by (simp_all add: kg_modify_def kg_remove_def kg_modify_all_def ensure_generation_def
      allocate_generation_def prune_key_def Let_def split: option.split)

text \<open>Removing a generation nothing refers to.\<close>

definition referenced :: "key_generation option \<Rightarrow> key_generation option" where
  "referenced og = (case og of Some g \<Rightarrow> if is_unreferenced g then None else Some g | None \<Rightarrow> None)"

lemma referenced_idem [simp]: "referenced (referenced og) = referenced og"
  by (simp add: referenced_def split: option.split)

lemma kg_get_prune_view:
  "kg_get (prune_key kb key r) kb' key' =
     (if kb' = kb \<and> key' = key then referenced (kg_get r kb key) else kg_get r kb' key')"
  by (simp add: referenced_def)

lemma kg_get_prunes:
  "kg_get (fold (prune_key kb) ks r) kb' key =
     (if kb' = kb \<and> key \<in> set ks then referenced (kg_get r kb key) else kg_get r kb' key)"
proof (induction ks arbitrary: r)
  case (Cons k ks)
  then show ?case
    by (auto simp: kg_get_prune_view simp del: kg_get_prune)
qed simp

lemma retired_prunes [simp]:
  "retired_guest_releases (fold (prune_key kb) ks r) = retired_guest_releases r"
  by (induction ks arbitrary: r) auto

lemma kg_keys_iff: "key \<in> set (kg_keys r kb) \<longleftrightarrow> kg_get r kb key \<noteq> None"
proof (cases "kr_entries r kb")
  case (Some keys)
  have "key \<in> fst ` set keys \<longleftrightarrow> map_of keys key \<noteq> None"
    by (metis map_of_eq_None_iff)
  with Some show ?thesis
    by (simp add: kg_keys_def kg_get_def hm_get_def)
qed (simp add: kg_keys_def kg_get_def)

lemma kg_keys_modify_all [simp]: "kg_keys (kg_modify_all kb f r) kb = kg_keys r kb"
  by (auto simp: kg_keys_def kg_modify_all_def split: option.split)

lemma kg_get_prune_all:
  "kg_get (fold (prune_key kb) (kg_keys r kb) (kg_modify_all kb f r)) kb' key =
     (if kb' = kb then referenced (map_option f (kg_get r kb key)) else kg_get r kb' key)"
  by (auto simp: kg_get_prunes kg_keys_iff referenced_def split: option.split)

section \<open>Well-formed generations\<close>

definition gen_ok :: "key_generation \<Rightarrow> bool" where
  "gen_ok g \<longleftrightarrow>
     \<not> is_unreferenced g \<and>
     (kg_host_accelerator_suppressed g \<longrightarrow> \<not> owner_forwarded (kg_guest_owner g)) \<and>
     (kg_guest_owner g = Some TextInputKeysym \<longrightarrow> kg_guest_press_serial g \<noteq> None) \<and>
     (kg_physical_state g = KeyReleased \<longrightarrow> kg_physical_release_serial g \<noteq> None)"

definition key_ok :: "key_generation option \<Rightarrow> bool" where
  "key_ok og \<longleftrightarrow> (\<forall>g. og = Some g \<longrightarrow> gen_ok g)"

definition registry_ok :: "key_registry \<Rightarrow> bool" where
  "registry_ok r \<longleftrightarrow> (\<forall>kb key. key_ok (kg_get r kb key))"

text \<open>
  The guest presses of a key that are still open: the one its current owner delivered and
  those of retired generations.
\<close>

definition owner_open :: "key_generation option \<Rightarrow> nat" where
  "owner_open og = (if owner_forwarded (Option.bind og kg_guest_owner) then 1 else 0)"

definition retired_open :: "key_registry \<Rightarrow> host_id \<Rightarrow> u32 \<Rightarrow> nat" where
  "retired_open r kb key =
     (case retired_guest_releases r (kb, key) of Some xs \<Rightarrow> length xs | None \<Rightarrow> 0)"

definition open_presses :: "key_registry \<Rightarrow> host_id \<Rightarrow> u32 \<Rightarrow> nat" where
  "open_presses r kb key = owner_open (kg_get r kb key) + retired_open r kb key"

lemma registry_okD: "registry_ok r \<Longrightarrow> kg_get r kb key = Some g \<Longrightarrow> gen_ok g"
  by (auto simp: registry_ok_def key_ok_def)

lemma key_ok_simps [simp]: "key_ok None" "key_ok (Some g) = gen_ok g"
  by (simp_all add: key_ok_def)

text \<open>
  A change of the registry that only concerns one key, keeps it well formed and moves its
  open presses by \<open>d\<close>.
\<close>

definition key_change :: "key_registry \<Rightarrow> key_registry \<Rightarrow> host_id \<Rightarrow> u32 \<Rightarrow> int \<Rightarrow> bool" where
  "key_change r r' kb key d \<longleftrightarrow>
     registry_ok r' \<and>
     (\<forall>kb' key'. int (open_presses r' kb' key') =
        int (open_presses r kb' key') + (if kb' = kb \<and> key' = key then d else 0))"

lemma key_changeI:
  assumes "registry_ok r" and "key_ok (kg_get r' kb key)"
    and "\<And>kb' key'. (kb', key') \<noteq> (kb, key) \<Longrightarrow> kg_get r' kb' key' = kg_get r kb' key'"
    and "\<And>kb' key'. (kb', key') \<noteq> (kb, key) \<Longrightarrow>
      retired_guest_releases r' (kb', key') = retired_guest_releases r (kb', key')"
    and "int (open_presses r' kb key) = int (open_presses r kb key) + d"
  shows "key_change r r' kb key d"
  unfolding key_change_def
proof (intro conjI allI)
  show "registry_ok r'"
    using assms(1-3) by (auto simp: registry_ok_def) (metis)
next
  fix kb' key'
  show "int (open_presses r' kb' key') =
      int (open_presses r kb' key') + (if kb' = kb \<and> key' = key then d else 0)"
    using assms(3-5) by (cases "(kb', key') = (kb, key)")
      (auto simp: open_presses_def retired_open_def)
qed

lemma key_change_refl: "registry_ok r \<Longrightarrow> key_change r r kb key 0"
  by (simp add: key_change_def)

lemma key_change_trans:
  "key_change r r' kb key a \<Longrightarrow> key_change r' r'' kb key b \<Longrightarrow> key_change r r'' kb key (a + b)"
  by (simp add: key_change_def)

declare kg_get_prune [simp del] kg_get_prune_view [simp]

lemma retired_open_frame [simp]:
  "retired_open (kg_modify kb key f r) = retired_open r"
  "retired_open (kg_remove kb key r) = retired_open r"
  "retired_open (ensure_generation kb key r) = retired_open r"
  "retired_open (prune_key kb key r) = retired_open r"
  by (simp_all add: retired_open_def fun_eq_iff)

text \<open>The generation \<open>ensure_generation\<close> hands out.\<close>

definition ensured :: "key_registry \<Rightarrow> host_id \<Rightarrow> u32 \<Rightarrow> key_generation" where
  "ensured r kb key = (case kg_get r kb key of Some g \<Rightarrow> g | None \<Rightarrow> fresh_generation r)"

lemma kg_get_ensured:
  "kg_get (kg_modify kb key f (ensure_generation kb key r)) kb key = Some (f (ensured r kb key))"
  by (simp add: ensured_def)

lemma ensured_cases:
  obtains (old) "kg_get r kb key = Some (ensured r kb key)"
  | (new) i where "kg_get r kb key = None" "ensured r kb key = key_generation_new i"
  by (cases "kg_get r kb key") (simp_all add: ensured_def fresh_generation_def)

lemma fresh_owner [simp]: "kg_guest_owner (key_generation_new i) = None"
  by (simp add: key_generation_new_def)

lemma owner_open_simps [simp]:
  "owner_open None = 0"
  "owner_open (Some g) = (if owner_forwarded (kg_guest_owner g) then 1 else 0)"
  by (simp_all add: owner_open_def owner_forwarded_def)

lemma owner_forwarded_simps [simp]:
  "owner_forwarded None = False" "owner_forwarded (Some Physical) = True"
  "owner_forwarded (Some TextInputKeysym) = True" "owner_forwarded (Some ImeRecovery) = False"
  by (simp_all add: owner_forwarded_def)

lemma modify_ensure_change:
  assumes "registry_ok r" and "gen_ok (f (ensured r kb key))"
    and "d = int (owner_open (Some (f (ensured r kb key)))) - int (owner_open (kg_get r kb key))"
  shows "key_change r (kg_modify kb key f (ensure_generation kb key r)) kb key d"
  using assms(1)
proof (rule key_changeI)
  show "key_ok (kg_get (kg_modify kb key f (ensure_generation kb key r)) kb key)"
    unfolding kg_get_ensured using assms(2) by simp
  show "int (open_presses (kg_modify kb key f (ensure_generation kb key r)) kb key) =
      int (open_presses r kb key) + d"
    unfolding open_presses_def kg_get_ensured using assms(3) by simp
qed auto

lemma modify_change:
  assumes "registry_ok r" and "\<And>g. kg_get r kb key = Some g \<Longrightarrow> gen_ok (f g)"
    and "d = int (owner_open (map_option f (kg_get r kb key))) - int (owner_open (kg_get r kb key))"
  shows "key_change r (kg_modify kb key f r) kb key d"
  using assms by (intro key_changeI) (auto simp: open_presses_def key_ok_def)

lemma guest_owner_open: "owner_open (kg_get r kb key) = (if owner_forwarded (guest_owner r kb key) then 1 else 0)"
  by (simp add: owner_open_def guest_owner_def)

lemma claim_asserted_eq:
  "guest_owner r kb key = None \<Longrightarrow> claim_asserted kb key owner r =
     Some (kg_modify kb key (\<lambda>g. g\<lparr>kg_guest_owner := Some owner\<rparr>) (ensure_generation kb key r))"
  by (auto simp: claim_asserted_def claim_guest_owner_def guest_owner_def Let_def
      fresh_generation_def split: bind_splits option.splits)

lemma ensured_owner: "kg_guest_owner (ensured r kb key) = guest_owner r kb key"
  by (cases rule: ensured_cases [of r kb key]) (simp_all add: guest_owner_def)

lemma ensured_ok:
  "registry_ok r \<Longrightarrow>
     (kg_host_accelerator_suppressed (ensured r kb key) \<longrightarrow>
        \<not> owner_forwarded (kg_guest_owner (ensured r kb key))) \<and>
     (kg_guest_owner (ensured r kb key) = Some TextInputKeysym \<longrightarrow>
        kg_guest_press_serial (ensured r kb key) \<noteq> None) \<and>
     (kg_physical_state (ensured r kb key) = KeyReleased \<longrightarrow>
        kg_physical_release_serial (ensured r kb key) \<noteq> None)"
proof (cases rule: ensured_cases [of r kb key])
  case old
  assume "registry_ok r"
  from registry_okD [OF this old] show ?thesis
    by (simp add: gen_ok_def)
qed (simp add: key_generation_new_def)

lemma claim_change:
  assumes "registry_ok r" and "guest_owner r kb key = None"
    and "owner = Physical \<Longrightarrow> \<not> host_accelerator_suppressed r kb key" and "owner \<noteq> TextInputKeysym"
  shows "key_change r (kg_modify kb key (\<lambda>g. g\<lparr>kg_guest_owner := Some owner\<rparr>)
      (ensure_generation kb key r)) kb key (if owner = Physical then 1 else 0)"
proof (rule modify_ensure_change [OF assms(1)])
  have "owner = Physical \<Longrightarrow> \<not> kg_host_accelerator_suppressed (ensured r kb key)"
    using assms(3) by (cases rule: ensured_cases [of r kb key])
      (auto simp: host_accelerator_suppressed_def key_generation_new_def)
  then show "gen_ok ((ensured r kb key)\<lparr>kg_guest_owner := Some owner\<rparr>)"
    using ensured_ok [OF assms(1), of kb key] assms(4)
    by (cases owner) (auto simp: gen_ok_def is_unreferenced_def)
  show "(if owner = Physical then 1 else 0) =
      int (owner_open (Some ((ensured r kb key)\<lparr>kg_guest_owner := Some owner\<rparr>))) -
      int (owner_open (kg_get r kb key))"
    using assms(2,4) by (cases owner) (simp_all add: guest_owner_open)
qed

lemma suppress_change:
  assumes "registry_ok r" and "\<not> owner_forwarded (guest_owner r kb key)"
  shows "key_change r (suppress_host_accelerator kb key r) kb key 0"
  unfolding suppress_host_accelerator_def
proof (rule modify_ensure_change [OF assms(1)])
  show "gen_ok ((ensured r kb key)\<lparr>kg_host_accelerator_suppressed := True\<rparr>)"
    using ensured_ok [OF assms(1), of kb key] assms(2) ensured_owner [of r kb key]
    by (auto simp: gen_ok_def is_unreferenced_def)
  show "0 = int (owner_open (Some ((ensured r kb key)\<lparr>kg_host_accelerator_suppressed := True\<rparr>))) -
      int (owner_open (kg_get r kb key))"
    using assms(2) by (simp add: guest_owner_open ensured_owner)
qed

section \<open>Every transition is accounted for\<close>

lemma decide_simps [simp]:
  "delivery (decide d a e) = d" "ack_handled (decide d a e) = a" "ends_repeat (decide d a e) = e"
  by (simp_all add: decide_def)

text \<open>What an event does to the guest's view of the key when it is forwarded.\<close>

definition event_effect :: "guest_key_event \<Rightarrow> int" where
  "event_effect e =
     (case e of
        PhysicalPress repeated _ _ \<Rightarrow> if repeated then 0 else 1
      | PhysicalRelease \<Rightarrow> - 1
      | TextInputPress _ \<Rightarrow> 1
      | TextInputRepeat \<Rightarrow> 0
      | TextInputRelease _ \<Rightarrow> - 1
      | RecoverIme \<Rightarrow> 0)"

definition accounted ::
    "key_registry \<Rightarrow> host_id \<Rightarrow> u32 \<Rightarrow> guest_key_event \<Rightarrow>
     (guest_key_decision \<times> key_registry) option \<Rightarrow> bool" where
  "accounted r kb key e res =
     (case res of
        None \<Rightarrow> False
      | Some (d, r') \<Rightarrow>
          key_change r r' kb key (if delivery d = ForwardKey then event_effect e else 0))"

lemma accounted_Some [simp]:
  "accounted r kb key e (Some (d, r')) =
     key_change r r' kb key (if delivery d = ForwardKey then event_effect e else 0)"
  by (simp add: accounted_def)

lemma press_decide_accounted:
  assumes ok: "registry_ok r" and owner: "owner_forwarded (guest_owner r kb key) = forwarded"
    and ime: "\<not> forwarded \<Longrightarrow> \<not> suppress \<Longrightarrow> guest_owner r kb key = None"
  shows "accounted r kb key (PhysicalPress repeated accel active)
    (physical_press_decide kb key repeated accel forwarded suppress r)"
proof -
  have "key_change r (if \<not> forwarded then suppress_host_accelerator kb key r else r) kb key 0"
    using suppress_change [OF ok] key_change_refl [OF ok] owner by simp
  moreover have "accounted r kb key (PhysicalPress False accel active)
      (map_option (\<lambda>r2. (decide ForwardKey (Some True) False, r2)) (claim_asserted kb key Physical r))"
    if "\<not> host_accelerator_suppressed r kb key" "\<not> forwarded" "\<not> suppress"
    using claim_change [OF ok ime [OF that(2,3)], of Physical] that
    by (simp add: claim_asserted_eq ime event_effect_def)
  ultimately show ?thesis
    by (auto simp: physical_press_decide_def Let_def key_change_refl ok event_effect_def)
qed

lemma accounted_after:
  "key_change r r1 kb key 0 \<Longrightarrow> accounted r1 kb key e res \<Longrightarrow> accounted r kb key e res"
  by (auto simp: accounted_def split: option.splits dest: key_change_trans)

lemma claimed_owner:
  "guest_owner (kg_modify kb key (\<lambda>g. g\<lparr>kg_guest_owner := Some owner\<rparr>)
     (ensure_generation kb key r)) kb key = Some owner"
  by (simp add: guest_owner_def split: option.split)

lemma physical_press_accounted:
  assumes ok: "registry_ok r"
  shows "accounted r kb key (PhysicalPress repeated accel active)
    (physical_press_transition kb key repeated accel active r)"
proof (cases "active \<and> guest_owner r kb key = None")
  case True
  let ?r1 = "kg_modify kb key (\<lambda>g. g\<lparr>kg_guest_owner := Some ImeRecovery\<rparr>)
    (ensure_generation kb key r)"
  have ch: "key_change r ?r1 kb key 0"
    using claim_change [OF ok, of kb key ImeRecovery] True by simp
  then have "registry_ok ?r1"
    by (simp add: key_change_def)
  then have "accounted ?r1 kb key (PhysicalPress repeated accel active)
      (physical_press_decide kb key repeated accel False True ?r1)"
    by (rule press_decide_accounted) (simp_all add: claimed_owner)
  then have "accounted r kb key (PhysicalPress repeated accel active)
      (physical_press_decide kb key repeated accel False True ?r1)"
    by (rule accounted_after [OF ch])
  with True show ?thesis
    by (simp add: physical_press_transition_def Let_def claim_asserted_eq)
next
  case False
  let ?fw = "owner_forwarded (guest_owner r kb key)"
  let ?su = "guest_owner r kb key = Some ImeRecovery \<or> (active \<and> \<not> ?fw)"
  have "accounted r kb key (PhysicalPress repeated accel active)
      (physical_press_decide kb key repeated accel ?fw ?su r)"
    using False
    by (intro press_decide_accounted [OF ok])
      (cases "guest_owner r kb key"; cases "the (guest_owner r kb key)"; auto)+
  moreover have "physical_press_transition kb key repeated accel active r =
      physical_press_decide kb key repeated accel ?fw ?su r"
    using False by (auto simp: physical_press_transition_def Let_def)
  ultimately show ?thesis
    by simp
qed

text \<open>Operations that end with a prune only have to keep the clauses about single fields.\<close>

definition fields_ok :: "key_generation \<Rightarrow> bool" where
  "fields_ok g \<longleftrightarrow>
     (kg_host_accelerator_suppressed g \<longrightarrow> \<not> owner_forwarded (kg_guest_owner g)) \<and>
     (kg_guest_owner g = Some TextInputKeysym \<longrightarrow> kg_guest_press_serial g \<noteq> None) \<and>
     (kg_physical_state g = KeyReleased \<longrightarrow> kg_physical_release_serial g \<noteq> None)"

lemma gen_ok_fields: "gen_ok g \<longleftrightarrow> \<not> is_unreferenced g \<and> fields_ok g"
  by (auto simp: gen_ok_def fields_ok_def)

lemma key_ok_referenced: "(\<And>g. og = Some g \<Longrightarrow> fields_ok g) \<Longrightarrow> key_ok (referenced og)"
  by (auto simp: referenced_def key_ok_def gen_ok_fields split: option.splits if_splits)

lemma owner_open_referenced [simp]: "owner_open (referenced og) = owner_open og"
  by (auto simp: referenced_def is_unreferenced_def split: option.splits)

lemma prune_change:
  assumes ok: "registry_ok r" and f: "\<And>g. kg_get r kb key = Some g \<Longrightarrow> fields_ok (f g)"
    and d: "d = int (owner_open (map_option f (kg_get r kb key))) - int (owner_open (kg_get r kb key))"
  shows "key_change r (prune_key kb key (kg_modify kb key f r)) kb key d"
  using ok
proof (rule key_changeI)
  show "key_ok (kg_get (prune_key kb key (kg_modify kb key f r)) kb key)"
    using f by (auto intro: key_ok_referenced)
qed (use d in \<open>auto simp: open_presses_def\<close>)

lemma registry_fields: "registry_ok r \<Longrightarrow> kg_get r kb key = Some g \<Longrightarrow> fields_ok g"
  using registry_okD gen_ok_fields by blast

lemma take_suppression_change:
  "registry_ok r \<Longrightarrow> key_change r (snd (take_host_accelerator_suppression kb key r)) kb key 0"
  unfolding take_host_accelerator_suppression_def snd_conv
  by (rule prune_change) (auto simp: owner_open_def fields_ok_def dest!: registry_fields
      split: option.split bind_splits)

lemma take_suppression_owner:
  "guest_owner (snd (take_host_accelerator_suppression kb key r)) kb key = guest_owner r kb key"
  by (auto simp: take_host_accelerator_suppression_def guest_owner_def referenced_def
      is_unreferenced_def split: option.split)

lemma take_owner_change:
  "registry_ok r \<Longrightarrow> key_change r (snd (take_guest_owner kb key r)) kb key
     (if owner_forwarded (guest_owner r kb key) then - 1 else 0)"
  unfolding take_guest_owner_def snd_conv
proof (rule prune_change)
  fix g
  assume "registry_ok r" "kg_get r kb key = Some g"
  from registry_fields [OF this] show "fields_ok (g\<lparr>kg_guest_owner := None,
      kg_guest_press_serial :=
        (if kg_guest_owner g = None then kg_guest_press_serial g else None)\<rparr>)"
    by (simp add: fields_ok_def)
next
  show "(if owner_forwarded (guest_owner r kb key) then - 1 else 0) =
      int (owner_open (map_option (\<lambda>g. g\<lparr>kg_guest_owner := None, kg_guest_press_serial :=
        (if kg_guest_owner g = None then kg_guest_press_serial g else None)\<rparr>) (kg_get r kb key))) -
      int (owner_open (kg_get r kb key))"
    by (cases "kg_get r kb key") (simp_all add: guest_owner_def)
qed

lemma suppressed_not_forwarded:
  "registry_ok r \<Longrightarrow> host_accelerator_suppressed r kb key \<Longrightarrow> \<not> owner_forwarded (guest_owner r kb key)"
  by (auto simp: host_accelerator_suppressed_def guest_owner_def gen_ok_def
      dest!: registry_okD split: option.splits)

lemma physical_release_accounted:
  assumes ok: "registry_ok r"
  shows "accounted r kb key PhysicalRelease (Some (physical_release_transition kb key r))"
proof -
  let ?r1 = "snd (take_host_accelerator_suppression kb key r)"
  have ch: "key_change r ?r1 kb key 0"
    using take_suppression_change [OF ok] .
  then have ok1: "registry_ok ?r1"
    by (simp add: key_change_def)
  have sup: "fst (take_host_accelerator_suppression kb key r) \<Longrightarrow>
      \<not> owner_forwarded (guest_owner r kb key)"
    using suppressed_not_forwarded [OF ok] by (simp add: take_host_accelerator_suppression_def)
  have "accounted ?r1 kb key PhysicalRelease (Some (physical_release_transition kb key r))"
    using sup take_owner_change [OF ok1, of kb key] key_change_refl [OF ok1]
    by (auto simp: physical_release_transition_def Let_def split_beta take_suppression_owner
        event_effect_def)
  with ch show ?thesis
    by (rule accounted_after)
qed

lemma recover_accounted:
  assumes ok: "registry_ok r"
  shows "accounted r kb key RecoverIme (recover_ime_transition kb key r)"
  using claim_change [OF ok, of kb key ImeRecovery] key_change_refl [OF ok]
  by (simp add: recover_ime_transition_def Let_def claim_asserted_eq event_effect_def)

section \<open>Retired presses\<close>

lemma retired_open_take:
  assumes "take_retired_guest_release kb key p r = (taken, r')"
  shows "int (retired_open r' kb' key') =
      int (retired_open r kb' key') - (if taken \<and> kb' = kb \<and> key' = key then 1 else 0)"
    and "kr_entries r' = kr_entries r"
    and "(kb', key') \<noteq> (kb, key) \<Longrightarrow>
      retired_guest_releases r' (kb', key') = retired_guest_releases r (kb', key')"
  using assms
  by (auto simp: take_retired_guest_release_def retired_open_def extract_Some_iff
      split: option.splits if_splits)

lemma take_retired_change:
  assumes ok: "registry_ok r" and "take_retired_guest_release kb key p r = (taken, r')"
  shows "key_change r r' kb key (if taken then - 1 else 0)"
  using ok
proof (rule key_changeI)
  have same: "kg_get r' = kg_get r"
    using retired_open_take(2) [OF assms(2)] by (simp add: kg_get_def fun_eq_iff)
  then show "key_ok (kg_get r' kb key)"
    using ok by (simp add: registry_ok_def)
  show "int (open_presses r' kb key) = int (open_presses r kb key) + (if taken then - 1 else 0)"
    using retired_open_take(1) [OF assms(2), of kb key] same by (simp add: open_presses_def)
  show "kg_get r' kb' key' = kg_get r kb' key'" for kb' key'
    by (simp add: same)
qed (rule retired_open_take(3) [OF assms(2)])

text \<open>A released generation hands its open press over to the retired ones.\<close>

lemma retired_release_open:
  "gen_ok g \<Longrightarrow> kg_physical_state g = KeyReleased \<Longrightarrow>
     (retired_release_of g n \<noteq> None) = owner_forwarded (kg_guest_owner g)"
  by (auto simp: retired_release_of_def gen_ok_def owner_forwarded_def
      split: option.splits guest_key_owner.splits)

lemma retire_change:
  assumes ok: "registry_ok r"
  shows "key_change r (snd (retire_released_generation kb key n r)) kb key 0"
proof (cases "kg_get r kb key")
  case None
  with ok show ?thesis
    by (simp add: retire_released_generation_def key_change_refl)
next
  case (Some g)
  show ?thesis
  proof (cases "kg_physical_state g = KeyReleased")
    case False
    with Some ok show ?thesis
      by (simp add: retire_released_generation_def key_change_refl)
  next
    case True
    have open_: "(retired_release_of g n \<noteq> None) = owner_forwarded (kg_guest_owner g)"
      using retired_release_open registry_okD [OF ok Some] True by blast
    show ?thesis
      using ok
    proof (rule key_changeI)
      show "int (open_presses (snd (retire_released_generation kb key n r)) kb key) =
          int (open_presses r kb key) + 0"
        using open_ Some True
        by (auto simp: retire_released_generation_def Let_def open_presses_def retired_open_def
            split: option.splits)
    qed (use Some True in \<open>auto simp: retire_released_generation_def Let_def kg_get_def kg_remove_def
          split: option.splits\<close>)
  qed
qed

lemma remove_change:
  "registry_ok r \<Longrightarrow> \<not> owner_forwarded (guest_owner r kb key) \<Longrightarrow>
     key_change r (kg_remove kb key r) kb key 0"
  by (rule key_changeI) (auto simp: open_presses_def guest_owner_open)

lemma complete_change:
  assumes ok: "registry_ok r" and "complete_guest_owner_if kb key TextInputKeysym r = (completed, r')"
  shows "key_change r r' kb key (if completed then - 1 else 0)"
proof (cases "guest_owner r kb key = Some TextInputKeysym")
  case True
  then have r': "completed" "r' = kg_modify kb key (\<lambda>g. g\<lparr>kg_guest_owner := Some ImeRecovery\<rparr>) r"
    using assms(2) by (simp_all add: complete_guest_owner_if_def)
  have "key_change r (kg_modify kb key (\<lambda>g. g\<lparr>kg_guest_owner := Some ImeRecovery\<rparr>) r) kb key (- 1)"
    using ok
  proof (rule modify_change)
    fix g
    assume "kg_get r kb key = Some g"
    from registry_okD [OF ok this] show "gen_ok (g\<lparr>kg_guest_owner := Some ImeRecovery\<rparr>)"
      by (simp add: gen_ok_def is_unreferenced_def)
  qed (use True in \<open>auto simp: guest_owner_def split: bind_splits\<close>)
  with r' show ?thesis
    by simp
next
  case False
  with assms show ?thesis
    by (simp add: complete_guest_owner_if_def key_change_refl)
qed

lemma text_input_release_accounted:
  assumes ok: "registry_ok r"
  shows "accounted r kb key (TextInputRelease serial)
    (Some (text_input_release_transition kb key serial r))"
proof -
  obtain taken r1 where t: "take_pending_text_input_release kb key serial r = (taken, r1)"
    by fastforce
  have ch: "key_change r r1 kb key (if taken then - 1 else 0)"
    using t by (intro take_retired_change [OF ok]) (simp add: take_pending_text_input_release_def Let_def)
  show ?thesis
  proof (cases taken)
    case True
    with t ch show ?thesis
      by (simp add: text_input_release_transition_def event_effect_def)
  next
    case False
    with ch have ok1: "registry_ok r1" and ch0: "key_change r r1 kb key 0"
      by (simp_all add: key_change_def)
    obtain completed r2 where c: "complete_guest_owner_if kb key TextInputKeysym r1 = (completed, r2)"
      by fastforce
    have "accounted r1 kb key (TextInputRelease serial)
        (Some (text_input_release_transition kb key serial r))"
      using t False c complete_change [OF ok1 c] key_change_refl [OF ok1]
      by (cases completed) (simp_all add: text_input_release_transition_def Let_def event_effect_def)
    with ch0 show ?thesis
      by (rule accounted_after)
  qed
qed

text \<open>The end of \<open>claim_text_input_owner\<close>: the claim and the serial of its press.\<close>

definition text_claim :: "host_id \<Rightarrow> u32 \<Rightarrow> u32 \<Rightarrow> key_registry \<Rightarrow> bool \<times> key_registry" where
  "text_claim kb key serial r =
     (case claim_guest_owner kb key TextInputKeysym r of
        (claimed, r2) \<Rightarrow>
          (claimed,
           if claimed
           then kg_modify kb key (\<lambda>g. g\<lparr>kg_guest_press_serial := Some serial\<rparr>)
                  (ensure_generation kb key r2)
           else r2))"

lemma ensure_present: "kg_get r kb key \<noteq> None \<Longrightarrow> ensure_generation kb key r = r"
  by (simp add: ensure_generation_def)

lemma text_claim_change:
  assumes ok: "registry_ok r" and sup: "\<not> host_accelerator_suppressed r kb key"
    and c: "text_claim kb key serial r = (claimed, r')"
  shows "key_change r r' kb key (if claimed then 1 else 0)"
proof (cases "guest_owner r kb key")
  case None
  let ?g = "(ensured r kb key)\<lparr>kg_guest_owner := Some TextInputKeysym,
    kg_guest_press_serial := Some serial\<rparr>"
  have c': "claimed" "r' = kg_modify kb key (\<lambda>g. g\<lparr>kg_guest_press_serial := Some serial\<rparr>)
      (ensure_generation kb key (kg_modify kb key (\<lambda>g. g\<lparr>kg_guest_owner := Some TextInputKeysym\<rparr>)
        (ensure_generation kb key r)))"
    using None c by (auto simp: text_claim_def claim_guest_owner_def Let_def guest_owner_def
        fresh_generation_def split: bind_splits option.splits)
  then have g: "kg_get r' kb key = Some ?g"
    by (simp add: ensured_def)
  have "\<not> kg_host_accelerator_suppressed (ensured r kb key)"
    using sup by (cases rule: ensured_cases [of r kb key])
      (auto simp: host_accelerator_suppressed_def key_generation_new_def)
  then have "gen_ok ?g"
    using ensured_ok [OF ok, of kb key] by (auto simp: gen_ok_def is_unreferenced_def)
  then have "key_change r r' kb key 1"
    using ok None
  proof (intro key_changeI)
    show "int (open_presses r' kb key) = int (open_presses r kb key) + 1"
      using None unfolding open_presses_def g by (simp add: c' guest_owner_open)
  qed (simp_all add: g, auto simp: c')
  with c' show ?thesis
    by simp
next
  case (Some owner)
  then have "kg_get r kb key \<noteq> None"
    by (auto simp: guest_owner_def split: bind_splits)
  with Some c ok show ?thesis
    by (auto simp: text_claim_def claim_guest_owner_def ensure_present key_change_refl)
qed

text \<open>Its beginning: a new text-input generation replaces a finished one.\<close>

lemma text_input_press_accounted:
  assumes ok: "registry_ok r"
  shows "accounted r kb key (TextInputPress serial) (text_input_press_transition kb key serial r)"
proof (cases "host_accelerator_suppressed r kb key \<or> guest_owner r kb key = Some Physical \<or>
    (physically_held r kb key \<and>
      (case peek r kb key of Some p \<Rightarrow> \<not> pk_eligible p | None \<Rightarrow> False))")
  case True
  then show ?thesis
    by (auto simp: text_input_press_transition_def Let_def key_change_refl [OF ok])
next
  case False
  have finish: ?thesis
    if r1: "key_change r r1 kb key 0" "\<not> host_accelerator_suppressed r1 kb key"
      and claim: "claim_text_input_owner kb key serial r = Some (text_claim kb key serial r1)" for r1
  proof -
    obtain claimed r' where c: "text_claim kb key serial r1 = (claimed, r')"
      by fastforce
    from r1(1) have "registry_ok r1"
      by (simp add: key_change_def)
    from text_claim_change [OF this r1(2) c]
    have "accounted r1 kb key (TextInputPress serial) (text_input_press_transition kb key serial r)"
      using False by (auto simp: text_input_press_transition_def Let_def claim c event_effect_def)
    with r1(1) show ?thesis
      by (rule accounted_after)
  qed
  note claim_defs = claim_text_input_owner_def text_claim_def Let_def
  show ?thesis
  proof (cases "kg_get r kb key")
    case None
    with False key_change_refl [OF ok] show ?thesis
      by (intro finish [of r]) (simp_all add: claim_defs)
  next
    case (Some g)
    obtain starts_new released where n: "text_input_starts_new g serial = (starts_new, released)"
      by fastforce
    consider "\<not> starts_new" | "starts_new" "released" | "starts_new" "\<not> released"
      by blast
    then show ?thesis
    proof cases
      case 1
      with False Some n key_change_refl [OF ok] show ?thesis
        by (intro finish [of r]) (simp_all add: claim_defs)
    next
      case 2
      let ?r1 = "snd (retire_released_generation kb key (Some serial) r)"
      from 2 n have "kg_physical_state g = KeyReleased"
        by (simp add: text_input_starts_new_def Let_def)
      with Some have ret: "fst (retire_released_generation kb key (Some serial) r)"
        "kg_get ?r1 kb key = None"
        by (simp_all add: retire_released_generation_def Let_def)
      show ?thesis
      proof (rule finish [of ?r1])
        show "key_change r ?r1 kb key 0"
          by (rule retire_change [OF ok])
        show "\<not> host_accelerator_suppressed ?r1 kb key"
          using ret(2) by (simp add: host_accelerator_suppressed_def)
        show "claim_text_input_owner kb key serial r = Some (text_claim kb key serial ?r1)"
          using 2 Some n ret(1) by (simp add: claim_defs split_beta)
      qed
    next
      case 3
      then have "\<not> owner_forwarded (guest_owner r kb key)"
        using n Some by (auto simp: text_input_starts_new_def Let_def guest_owner_def
            split: option.splits guest_key_owner.splits)
      with 3 Some n remove_change [OF ok] show ?thesis
        by (intro finish [of "kg_remove kb key r"])
          (simp_all add: claim_defs host_accelerator_suppressed_def)
    qed
  qed
qed

lemma transition_accounted:
  assumes "registry_ok r"
  shows "accounted r kb key e (transition_guest_key kb key e r)"
  using assms by (cases e) (simp_all add: transition_guest_key_def physical_press_accounted
      physical_release_accounted text_input_press_accounted text_input_release_accounted
      recover_accounted key_change_refl event_effect_def)

section \<open>Observations leave the guest's view alone\<close>

definition quiet :: "key_registry \<Rightarrow> key_registry \<Rightarrow> bool" where
  "quiet r r' \<longleftrightarrow> registry_ok r' \<and> (\<forall>kb key. open_presses r' kb key = open_presses r kb key)"

lemma key_change_quiet: "key_change r r' kb key 0 \<Longrightarrow> quiet r r'"
  by (simp add: key_change_def quiet_def)

lemma quiet_refl: "registry_ok r \<Longrightarrow> quiet r r"
  by (simp add: quiet_def)

lemma quiet_trans: "quiet r r' \<Longrightarrow> quiet r' r'' \<Longrightarrow> quiet r r''"
  by (simp add: quiet_def)

lemma quiet_same:
  "registry_ok r \<Longrightarrow> kr_entries r' = kr_entries r \<Longrightarrow>
     retired_guest_releases r' = retired_guest_releases r \<Longrightarrow> quiet r r'"
  by (simp add: quiet_def registry_ok_def kg_get_def open_presses_def retired_open_def)

lemma modify_quiet:
  assumes ok: "registry_ok r" and f: "\<And>g. gen_ok g \<Longrightarrow> kg_get r kb key = Some g \<Longrightarrow>
      gen_ok (f g) \<and> kg_guest_owner (f g) = kg_guest_owner g"
  shows "quiet r (kg_modify kb key f r)"
proof (rule key_change_quiet)
  show "key_change r (kg_modify kb key f r) kb key 0"
    using ok
  proof (rule modify_change)
    show "0 = int (owner_open (map_option f (kg_get r kb key))) - int (owner_open (kg_get r kb key))"
      using f registry_okD [OF ok] by (cases "kg_get r kb key") simp_all
  qed (use f registry_okD [OF ok] in blast)
qed

lemma observe_physical_press_quiet:
  assumes ok: "registry_ok r"
  shows "quiet r (observe_physical_press kb key n r)"
proof -
  let ?r1 = "snd (retire_released_generation kb key n r)"
  have ch: "key_change r ?r1 kb key 0"
    by (rule retire_change [OF ok])
  then have ok1: "registry_ok ?r1"
    by (simp add: key_change_def)
  have "key_change ?r1 (observe_physical_press kb key n r) kb key 0"
    unfolding observe_physical_press_def
  proof (rule modify_ensure_change [OF ok1])
    show "gen_ok ((ensured ?r1 kb key)\<lparr>kg_physical_state := Held\<rparr>)"
      using ensured_ok [OF ok1, of kb key] by (simp add: gen_ok_def is_unreferenced_def)
  qed (simp add: guest_owner_open ensured_owner)
  then show ?thesis
    using ch by (blast intro: quiet_trans key_change_quiet)
qed

text \<open>Clearing a field of every generation of a keyboard and pruning them all.\<close>

lemma prune_all_quiet:
  assumes ok: "registry_ok r"
    and f: "\<And>g. kg_guest_owner (f g) = kg_guest_owner g" "\<And>g. fields_ok g \<Longrightarrow> fields_ok (f g)"
  shows "quiet r (fold (prune_key kb) (kg_keys r kb) (kg_modify_all kb f r))"
proof -
  have "owner_open (map_option f og) = owner_open og" for og
    by (cases og) (simp_all add: f)
  moreover have "key_ok (referenced (map_option f (kg_get r kb key)))" for key
    using registry_fields [OF ok] f by (auto intro!: key_ok_referenced)
  ultimately show ?thesis
    using ok by (auto simp: quiet_def registry_ok_def kg_get_prune_all open_presses_def
        retired_open_def)
qed

lemma observe_release_quiet:
  assumes ok: "registry_ok r"
  shows "quiet r (observe_physical_event kb key 0 (Some serial) r)"
proof -
  define rel :: "key_generation \<Rightarrow> key_generation" where "rel = (\<lambda>g. g\<lparr>kg_physical_state := KeyReleased,
     kg_physical_release_serial := Some serial,
     kg_backspace_repeat_cancelled := False, kg_ime_repeat_owner := None\<rparr>)"
  define r1 where "r1 = kg_modify kb key rel r"
  define nopeek :: "key_generation \<Rightarrow> key_generation" where "nopeek = (\<lambda>g. g\<lparr>kg_peek := None\<rparr>)"
  define r2 where "r2 = (if \<not> any_physically_held r1 kb
    then fold (prune_key kb) (kg_keys r1 kb) (kg_modify_all kb nopeek r1) else r1)"
  have r': "observe_physical_event kb key 0 (Some serial) r = prune_key kb key r2"
    by (simp add: observe_physical_event_def Let_def r1_def r2_def rel_def nopeek_def)
  have f1: "fields_ok (rel g)" "kg_guest_owner (rel g) = kg_guest_owner g"
    "fields_ok (nopeek g) = fields_ok g" "kg_guest_owner (nopeek g) = kg_guest_owner g"
    if "fields_ok g" for g
    using that by (simp_all add: rel_def nopeek_def fields_ok_def)
  have g2: "kg_get r2 kb' key' =
      (if kb' = kb \<and> \<not> any_physically_held r1 kb
       then referenced (map_option nopeek (kg_get r1 kb key')) else kg_get r1 kb' key')" for kb' key'
    by (simp add: r2_def kg_get_prune_all)
  have f: "fields_ok g" if "kg_get r1 kb' key' = Some g" for kb' key' g
    using that registry_fields [OF ok] f1 by (auto simp: r1_def split: if_splits)
  have o: "owner_open (kg_get r1 kb' key') = owner_open (kg_get r kb' key')" for kb' key'
    using registry_fields [OF ok] f1 by (cases "kg_get r kb key") (auto simp: r1_def)
  have onp: "owner_open (map_option nopeek og) = owner_open og" for og
    by (cases og) (simp_all add: nopeek_def)
  have ok_other: "key_ok (kg_get r1 kb' key')" if "(kb', key') \<noteq> (kb, key)" for kb' key'
    using that ok by (auto simp: r1_def registry_ok_def)
  have "key_ok (kg_get (prune_key kb key r2) kb' key')" for kb' key'
    using f ok_other [of kb' key']
    by (auto simp: g2 f1(3) intro!: key_ok_referenced)
  moreover have "owner_open (kg_get (prune_key kb key r2) kb' key') = owner_open (kg_get r kb' key')"
    for kb' key'
    by (auto simp: g2 o onp)
  moreover have "retired_guest_releases (prune_key kb key r2) = retired_guest_releases r"
    by (simp add: r2_def r1_def)
  ultimately show ?thesis
    unfolding r' quiet_def registry_ok_def open_presses_def retired_open_def by simp
qed

lemma observe_event_quiet:
  assumes ok: "registry_ok r"
  shows "quiet r (observe_physical_event kb key state (Some serial) r)"
proof -
  consider "state = 1" | "state = 2" | "state = 0" | "state \<notin> {0, 1, 2}"
    by blast
  then show ?thesis
  proof cases
    case 2
    have "quiet r (kg_modify kb key (\<lambda>g. g\<lparr>kg_physical_state := Held\<rparr>) r)"
      using ok by (rule modify_quiet) (simp add: gen_ok_def is_unreferenced_def)
    with 2 ok show ?thesis
      by (simp add: observe_physical_event_def quiet_refl)
  next
    case 3
    with observe_release_quiet [OF ok] show ?thesis
      by simp
  qed (use ok in \<open>simp_all add: observe_physical_event_def observe_physical_press_quiet quiet_refl\<close>)
qed

lemma observe_peek_press_quiet:
  assumes ok: "registry_ok r"
  shows "quiet r (snd (observe_peek_press kb key serial time eligible r))"
proof -
  let ?r1 = "if physically_held r kb key then r else observe_physical_press kb key (Some serial) r"
  have q: "quiet r ?r1"
    using observe_physical_press_quiet [OF ok] quiet_refl [OF ok] by simp
  then have ok1: "registry_ok ?r1"
    by (simp add: quiet_def)
  have "quiet ?r1 (snd (observe_peek_press kb key serial time eligible r))"
    unfolding observe_peek_press_def Let_def snd_conv
  proof (rule key_change_quiet, rule modify_ensure_change [OF ok1])
    show "gen_ok ((ensured ?r1 kb key)\<lparr>kg_peek_press_serial := Some serial, kg_peek := Some p\<rparr>)" for p
      using ensured_ok [OF ok1, of kb key] by (auto simp: gen_ok_def is_unreferenced_def)
  qed (simp add: guest_owner_open ensured_owner)
  with q show ?thesis
    by (rule quiet_trans)
qed

lemma cancel_backspace_quiet:
  assumes ok: "registry_ok r"
  shows "quiet r (cancel_backspace_repeat kb key r)"
  unfolding cancel_backspace_repeat_def
proof (simp add: quiet_refl [OF ok], rule impI, rule key_change_quiet,
    rule modify_ensure_change [OF ok])
  assume "physically_held r kb key"
  show "gen_ok ((ensured r kb key)\<lparr>kg_backspace_repeat_cancelled := True, kg_ime_repeat_owner := None\<rparr>)"
    using ensured_ok [OF ok, of kb key] by (auto simp: gen_ok_def is_unreferenced_def)
qed (simp add: guest_owner_open ensured_owner)

lemma arm_quiet:
  assumes ok: "registry_ok r"
  shows "quiet r (snd (arm_ime_repeat kb key ti r))"
proof -
  have "quiet r (kg_modify kb key (\<lambda>g. g\<lparr>kg_ime_repeat_owner := Some ti\<rparr>) r)"
    using ok by (rule modify_quiet) (simp add: gen_ok_def is_unreferenced_def)
  with quiet_refl [OF ok] show ?thesis
    by (simp add: arm_ime_repeat_def split: option.split)
qed

lemma clear_suppressions_quiet: "registry_ok r \<Longrightarrow> quiet r (clear_accelerator_suppressions kb r)"
  unfolding clear_accelerator_suppressions_def
  using prune_all_quiet [of r "\<lambda>g. g\<lparr>kg_host_accelerator_suppressed := False\<rparr>" kb]
  by (simp add: fields_ok_def kg_keys_def kg_modify_all_def)

lemma clear_keyboard_view:
  "kg_get (clear_keyboard kb r) kb' key = (if kb' = kb then None else kg_get r kb' key)"
  "open_presses (clear_keyboard kb r) kb' key = (if kb' = kb then 0 else open_presses r kb' key)"
  by (auto simp: clear_keyboard_def kg_get_def open_presses_def retired_open_def map_retain_def
      split: option.split)

lemma key_change_other:
  assumes "key_change r r' kb key d" and "kb' \<noteq> kb"
  shows "open_presses r' kb' k = open_presses r kb' k"
proof -
  have "int (open_presses r' kb' k) =
      int (open_presses r kb' k) + (if kb' = kb \<and> k = key then d else 0)"
    using assms(1) by (simp add: key_change_def)
  with assms(2) show ?thesis
    by simp
qed

lemma install_step_ok:
  fixes key :: u32
  assumes ok: "registry_ok r"
    and own: "\<forall>key g. kg_get r kb key = Some g \<longrightarrow> kg_guest_owner g = Some Physical"
  defines "r' \<equiv> kg_modify kb key
      (\<lambda>g. g\<lparr>kg_physical_state := Held, kg_guest_owner := Some Physical\<rparr>)
      (ensure_generation kb key r)"
  shows "registry_ok r'" and "\<forall>key g. kg_get r' kb key = Some g \<longrightarrow> kg_guest_owner g = Some Physical"
    and "kb' \<noteq> kb \<Longrightarrow> open_presses r' kb' k = open_presses r kb' k"
proof -
  have "\<not> kg_host_accelerator_suppressed (ensured r kb key)"
    using ensured_ok [OF ok, of kb key] own
    by (cases rule: ensured_cases [of r kb key]) (auto simp: key_generation_new_def)
  then have ch: "key_change r r' kb key
      (int (owner_open (Some ((ensured r kb key)\<lparr>kg_physical_state := Held,
        kg_guest_owner := Some Physical\<rparr>))) - int (owner_open (kg_get r kb key)))"
    unfolding r'_def by (intro modify_ensure_change [OF ok]) (simp_all add: gen_ok_def is_unreferenced_def)
  then show "registry_ok r'"
    by (simp add: key_change_def)
  show "kb' \<noteq> kb \<Longrightarrow> open_presses r' kb' k = open_presses r kb' k"
    by (rule key_change_other [OF ch])
  show "\<forall>key g. kg_get r' kb key = Some g \<longrightarrow> kg_guest_owner g = Some Physical"
    using own by (auto simp: r'_def split: if_splits)
qed

lemma install_snapshot_ok:
  assumes ok: "registry_ok r"
  shows "registry_ok (install_enter_snapshot kb keys r)"
    and "kb' \<noteq> kb \<Longrightarrow> open_presses (install_enter_snapshot kb keys r) kb' k = open_presses r kb' k"
proof -
  let ?f = "\<lambda>key r. kg_modify kb key
             (\<lambda>g. g\<lparr>kg_physical_state := Held, kg_guest_owner := Some Physical\<rparr>)
             (ensure_generation kb key r)"
  let ?own = "\<lambda>r. \<forall>key g. kg_get r kb key = Some g \<longrightarrow> kg_guest_owner g = Some Physical"
  have run: "registry_ok r \<Longrightarrow> ?own r \<Longrightarrow> registry_ok (fold ?f keys r) \<and>
      (kb' \<noteq> kb \<longrightarrow> open_presses (fold ?f keys r) kb' k = open_presses r kb' k)" for r
  proof (induction keys arbitrary: r)
    case (Cons key keys)
    then show ?case
      using install_step_ok(1,2) [OF Cons.prems, of key] install_step_ok(3) [OF Cons.prems]
      by simp
  qed simp
  have "registry_ok (clear_keyboard kb r)"
    using ok by (auto simp: registry_ok_def clear_keyboard_view)
  moreover have "?own (clear_keyboard kb r)"
    by (simp add: clear_keyboard_view)
  ultimately have "registry_ok (fold ?f keys (clear_keyboard kb r)) \<and>
      (kb' \<noteq> kb \<longrightarrow> open_presses (fold ?f keys (clear_keyboard kb r)) kb' k =
         open_presses (clear_keyboard kb r) kb' k)"
    by (rule run)
  then show "registry_ok (install_enter_snapshot kb keys r)"
    and "kb' \<noteq> kb \<Longrightarrow> open_presses (install_enter_snapshot kb keys r) kb' k = open_presses r kb' k"
    by (simp_all add: install_enter_snapshot_def clear_keyboard_view)
qed

section \<open>Runs\<close>

text \<open>
  The operations the handlers issue.  Every physical observation carries the serial of its
  event, as in \<open>update_host_keyboard_key_state\<close> and \<open>observe_peek_release\<close>.
\<close>

datatype key_op =
    ObservePhysical host_id u32 u32 u32
  | ObservePeekPress host_id u32 u32 u32 bool
  | RefreshPeek host_id u32 u32 u32
  | InvalidatePeek host_id u32
  | CancelBackspaceRepeat host_id u32
  | CancelBackspaceRepeatForOwner host_id u32 u32
  | ArmImeRepeat host_id u32 u32
  | ClearAcceleratorSuppressions host_id
  | TakePendingPhysicalRelease host_id u32 u32
  | TransitionGuestKey host_id u32 guest_key_event
  | RecordLatestPeek u32 "u32 option" host_id u64
  | ClearPeekWatermarksForSeat u32
  | ClearPeekWatermarksForSurface u32
  | ClearKeyboard host_id
  | InstallEnterSnapshot host_id "u32 list"

definition key_step :: "key_registry \<Rightarrow> key_op \<Rightarrow> key_registry" where
  "key_step r e =
     (case e of
        ObservePhysical kb key state serial \<Rightarrow> observe_physical_event kb key state (Some serial) r
      | ObservePeekPress kb key serial time eligible \<Rightarrow>
          snd (observe_peek_press kb key serial time eligible r)
      | RefreshPeek kb key serial time \<Rightarrow> refresh_peek kb key serial time r
      | InvalidatePeek kb key \<Rightarrow> invalidate_peek kb key r
      | CancelBackspaceRepeat kb key \<Rightarrow> cancel_backspace_repeat kb key r
      | CancelBackspaceRepeatForOwner kb key ti \<Rightarrow> snd (cancel_backspace_repeat_for_owner kb key ti r)
      | ArmImeRepeat kb key ti \<Rightarrow> snd (arm_ime_repeat kb key ti r)
      | ClearAcceleratorSuppressions kb \<Rightarrow> clear_accelerator_suppressions kb r
      | TakePendingPhysicalRelease kb key serial \<Rightarrow> snd (take_pending_physical_release kb key serial r)
      | TransitionGuestKey kb key event \<Rightarrow>
         (case transition_guest_key kb key event r of Some (_, r') \<Rightarrow> r' | None \<Rightarrow> r)
      | RecordLatestPeek seat surface kb sequence \<Rightarrow> record_latest_peek seat surface kb sequence r
      | ClearPeekWatermarksForSeat seat \<Rightarrow> clear_peek_watermarks_for_seat seat r
      | ClearPeekWatermarksForSurface surface \<Rightarrow> clear_peek_watermarks_for_surface surface r
      | ClearKeyboard kb \<Rightarrow> clear_keyboard kb r
      | InstallEnterSnapshot kb keys \<Rightarrow> install_enter_snapshot kb keys r)"

text \<open>
  Presses minus releases of one key that an operation makes the guest see: a forwarded
  decision, or a pending physical release that was matched (the handler forwards it).
\<close>

definition guest_delta :: "host_id \<Rightarrow> u32 \<Rightarrow> key_registry \<Rightarrow> key_op \<Rightarrow> int" where
  "guest_delta kb key r e =
     (case e of
        TransitionGuestKey kb' key' event \<Rightarrow>
         (case transition_guest_key kb' key' event r of
            Some (d, _) \<Rightarrow>
              if kb = kb' \<and> key = key' \<and> delivery d = ForwardKey then event_effect event else 0
          | None \<Rightarrow> 0)
      | TakePendingPhysicalRelease kb' key' serial \<Rightarrow>
          if kb = kb' \<and> key = key' \<and> fst (take_pending_physical_release kb' key' serial r)
          then - 1 else 0
      | _ \<Rightarrow> 0)"

primrec guest_balance :: "host_id \<Rightarrow> u32 \<Rightarrow> key_registry \<Rightarrow> key_op list \<Rightarrow> int" where
  "guest_balance kb key r [] = 0"
| "guest_balance kb key r (e # es) =
     guest_delta kb key r e + guest_balance kb key (key_step r e) es"

text \<open>The focus changes of a keyboard, at which the guest forgets its pressed keys.\<close>

definition resets_keyboard :: "host_id \<Rightarrow> key_op \<Rightarrow> bool" where
  "resets_keyboard kb e =
     (case e of
        ClearKeyboard kb' \<Rightarrow> kb' = kb
      | InstallEnterSnapshot kb' _ \<Rightarrow> kb' = kb
      | _ \<Rightarrow> False)"

lemma quiet_step:
  assumes "quiet r r'"
  shows "registry_ok r' \<and> int (open_presses r' kb key) = int (open_presses r kb key) + 0"
  using assms by (simp add: quiet_def)

lemma key_step_sound:
  assumes ok: "registry_ok r"
  shows "registry_ok (key_step r e) \<and> (\<not> resets_keyboard kb e \<longrightarrow>
    int (open_presses (key_step r e) kb key) = int (open_presses r kb key) + guest_delta kb key r e)"
proof (cases e)
  case (TransitionGuestKey kb' key' event)
  obtain d r' where t: "transition_guest_key kb' key' event r = Some (d, r')"
    and ch: "key_change r r' kb' key' (if delivery d = ForwardKey then event_effect event else 0)"
    using transition_accounted [OF ok, of kb' key' event]
    by (auto simp: accounted_def split: option.splits)
  with TransitionGuestKey show ?thesis
    by (simp add: key_step_def guest_delta_def key_change_def)
next
  case (TakePendingPhysicalRelease kb' key' serial)
  obtain taken r' where t: "take_pending_physical_release kb' key' serial r = (taken, r')"
    by fastforce
  then have "key_change r r' kb' key' (if taken then - 1 else 0)"
    unfolding take_pending_physical_release_def by (rule take_retired_change [OF ok])
  with t TakePendingPhysicalRelease show ?thesis
    by (simp add: key_step_def guest_delta_def key_change_def)
next
  case (RefreshPeek kb' key' serial time)
  have "quiet r (refresh_peek kb' key' serial time r)"
    unfolding refresh_peek_def using ok
    by (rule modify_quiet) (simp add: gen_ok_def is_unreferenced_def)
  with RefreshPeek show ?thesis
    by (simp add: key_step_def guest_delta_def quiet_def)
next
  case (InvalidatePeek kb' key')
  have "quiet r (invalidate_peek kb' key' r)"
    unfolding invalidate_peek_def using ok
    by (rule modify_quiet) (simp add: gen_ok_def is_unreferenced_def)
  with InvalidatePeek show ?thesis
    by (simp add: key_step_def guest_delta_def quiet_def)
next
  case (ClearKeyboard kb')
  with ok show ?thesis
    by (auto simp: key_step_def guest_delta_def resets_keyboard_def registry_ok_def
        clear_keyboard_view)
next
  case (InstallEnterSnapshot kb' keys)
  with install_snapshot_ok [OF ok] show ?thesis
    by (simp add: key_step_def guest_delta_def resets_keyboard_def)
next
  case (RecordLatestPeek seat surface kb' sequence)
  have "quiet r (record_latest_peek seat surface kb' sequence r)"
    using ok by (rule quiet_same) (simp_all add: record_latest_peek_def)
  with RecordLatestPeek show ?thesis
    by (simp add: key_step_def guest_delta_def quiet_def)
next
  case (ClearPeekWatermarksForSeat seat)
  have "quiet r (clear_peek_watermarks_for_seat seat r)"
    using ok by (rule quiet_same) (simp_all add: clear_peek_watermarks_for_seat_def)
  with ClearPeekWatermarksForSeat show ?thesis
    by (simp add: key_step_def guest_delta_def quiet_def)
next
  case (ClearPeekWatermarksForSurface surface)
  have "quiet r (clear_peek_watermarks_for_surface surface r)"
    using ok by (rule quiet_same) (simp_all add: clear_peek_watermarks_for_surface_def)
  with ClearPeekWatermarksForSurface show ?thesis
    by (simp add: key_step_def guest_delta_def quiet_def)
next
  case (CancelBackspaceRepeatForOwner kb' key' ti)
  have "quiet r (snd (cancel_backspace_repeat_for_owner kb' key' ti r))"
    using cancel_backspace_quiet [OF ok] quiet_refl [OF ok]
    by (simp add: cancel_backspace_repeat_for_owner_def)
  with CancelBackspaceRepeatForOwner show ?thesis
    by (simp add: key_step_def guest_delta_def quiet_def)
qed (use observe_event_quiet [OF ok] observe_peek_press_quiet [OF ok] cancel_backspace_quiet [OF ok]
    arm_quiet [OF ok] clear_suppressions_quiet [OF ok]
    in \<open>simp_all add: key_step_def guest_delta_def quiet_def\<close>)

interpretation key_machine: machine key_step registry_ok
  by unfold_locales (use key_step_sound in blast)

lemma registry_ok_default: "registry_ok key_registry_default"
  by (simp add: registry_ok_def kg_get_def key_registry_default_def)

lemma guest_balance_open:
  "registry_ok r \<Longrightarrow> \<forall>e\<in>set es. \<not> resets_keyboard kb e \<Longrightarrow>
     int (open_presses (run_ops key_step r es) kb key) =
       int (open_presses r kb key) + guest_balance kb key r es"
proof (induction es arbitrary: r)
  case (Cons e es)
  then show ?case
    using key_step_sound [of r e kb key] by simp
qed simp

section \<open>Decisions\<close>

definition is_physical :: "guest_key_event \<Rightarrow> bool" where
  "is_physical e = (case e of PhysicalPress _ _ _ \<Rightarrow> True | PhysicalRelease \<Rightarrow> True | _ \<Rightarrow> False)"

lemma claim_text_input_some: "claim_text_input_owner kb key serial r \<noteq> None"
proof (cases "kg_get r kb key")
  case None
  then show ?thesis
    by (simp add: claim_text_input_owner_def)
next
  case (Some g)
  then show ?thesis
    by (auto simp: claim_text_input_owner_def text_input_starts_new_def retire_released_generation_def
        Let_def split: prod.split)
qed

lemma suppressed_claim:
  "host_accelerator_suppressed (kg_modify kb key (\<lambda>g. g\<lparr>kg_guest_owner := owner\<rparr>)
     (ensure_generation kb key r)) kb key = host_accelerator_suppressed r kb key"
  by (simp add: host_accelerator_suppressed_def fresh_generation_def key_generation_new_def
      split: option.split)

lemma suppress_owner: "guest_owner (suppress_host_accelerator kb key r) kb key = guest_owner r kb key"
  by (simp add: suppress_host_accelerator_def guest_owner_def fresh_generation_def split: option.split)

text \<open>The outcome of a physical press as a table over the owner and the flags.\<close>

definition press_outcome :: "guest_key_owner option \<Rightarrow> bool \<Rightarrow> bool \<Rightarrow> bool \<Rightarrow> bool \<Rightarrow> guest_key_decision" where
  "press_outcome owner suppressed repeated accel active =
     (if suppressed \<or> accel then decide DropKey (Some False) False
      else case owner of
        Some ImeRecovery \<Rightarrow> decide DropKey (Some False) False
      | Some _ \<Rightarrow> decide (if repeated then ForwardKey else DropKey) (Some True) False
      | None \<Rightarrow> if active \<or> repeated then decide DropKey (Some False) False
                else decide ForwardKey (Some True) False)"

definition press_owner :: "guest_key_owner option \<Rightarrow> bool \<Rightarrow> bool \<Rightarrow> bool \<Rightarrow> bool \<Rightarrow> guest_key_owner option" where
  "press_owner owner suppressed repeated accel active =
     (case owner of
        Some ow \<Rightarrow> Some ow
      | None \<Rightarrow>
          if active then Some ImeRecovery
          else if suppressed \<or> accel \<or> repeated then None else Some Physical)"

section \<open>Properties\<close>

text \<open>Counting from a focus change of the keyboard, the presses of a key shown to the guest
  minus its releases are exactly the presses still open in the registry, whatever the order
  in which the physical, peek and text-input channels deliver their events: no key is
  released without a press and none is forgotten.\<close>

theorem guest_presses_balanced:
  assumes "r = key_step (run_ops key_step key_registry_default before) (ClearKeyboard kb)"
    and "\<forall>e\<in>set es. \<not> resets_keyboard kb e"
  shows "guest_balance kb key r es = int (open_presses (run_ops key_step r es) kb key)"
proof -
  have "registry_ok (run_ops key_step key_registry_default before)"
    by (rule key_machine.run_always) (rule registry_ok_default)
  then have "registry_ok r"
    unfolding assms(1) using key_step_sound by blast
  from guest_balance_open [OF this assms(2), of key]
  show ?thesis
    unfolding assms(1) by (simp add: key_step_def clear_keyboard_view)
qed

theorem guest_presses_balanced_witness:
  "guest_balance (HostId 5) 30 (key_step key_registry_default (ClearKeyboard (HostId 5)))
     [ObservePhysical (HostId 5) 30 1 10, TransitionGuestKey (HostId 5) 30 (PhysicalPress False False False),
      ObservePhysical (HostId 5) 30 0 11, TransitionGuestKey (HostId 5) 30 PhysicalRelease] =
   int (open_presses (run_ops key_step (key_step key_registry_default (ClearKeyboard (HostId 5)))
     [ObservePhysical (HostId 5) 30 1 10, TransitionGuestKey (HostId 5) 30 (PhysicalPress False False False),
      ObservePhysical (HostId 5) 30 0 11, TransitionGuestKey (HostId 5) 30 PhysicalRelease])
     (HostId 5) 30)"
  by (rule guest_presses_balanced [of _ "[]"]) (simp_all add: resets_keyboard_def)

text \<open>The delivery reducer never fails its assertions; a decision carries an
  acknowledgement exactly for events of the physical keyboard, and a balanced pair is emitted
  exactly for an IME recovery of a key no channel has open.\<close>

theorem transition_guest_key_total:
  "case transition_guest_key kb key e r of
     None \<Rightarrow> False
   | Some (d, r') \<Rightarrow>
       (ack_handled d \<noteq> None) = is_physical e \<and>
       (delivery d = EmitBalancedPair) =
         (e = RecoverIme \<and> \<not> owner_forwarded (guest_owner r kb key))"
proof (cases e)
  case (PhysicalPress repeated accel active)
  then show ?thesis
    by (cases "guest_owner r kb key"; cases "the (guest_owner r kb key)")
      (auto simp: transition_guest_key_def physical_press_transition_def physical_press_decide_def
        claim_asserted_eq is_physical_def Let_def claimed_owner split: option.split)
next
  case (TextInputPress serial)
  with claim_text_input_some [of kb key serial r] show ?thesis
    by (auto simp: transition_guest_key_def text_input_press_transition_def is_physical_def Let_def)
next
  case (TextInputRelease serial)
  then show ?thesis
    by (auto simp: transition_guest_key_def text_input_release_transition_def is_physical_def Let_def
        split: prod.split)
qed (auto simp: transition_guest_key_def physical_release_transition_def recover_ime_transition_def
    is_physical_def Let_def claim_asserted_eq split: prod.split)

text \<open>The decision for a physical press, and the owner it leaves behind, on every branch:
  accelerators are never shown to the guest, a key that is already open only forwards
  repeats, IME-owned keys are swallowed, and a fresh press claims the key.\<close>

theorem physical_press_decision:
  "case transition_guest_key kb key (PhysicalPress repeated accel active) r of
     None \<Rightarrow> False
   | Some (d, r') \<Rightarrow>
       d = press_outcome (guest_owner r kb key) (host_accelerator_suppressed r kb key)
             repeated accel active \<and>
       guest_owner r' kb key = press_owner (guest_owner r kb key)
             (host_accelerator_suppressed r kb key) repeated accel active"
  by (cases "guest_owner r kb key"; cases "the (guest_owner r kb key)")
    (auto simp: transition_guest_key_def physical_press_transition_def physical_press_decide_def
      claim_asserted_eq Let_def claimed_owner suppressed_claim suppress_owner press_outcome_def
      press_owner_def split: option.split)

text \<open>The registry never keeps a generation nothing refers to, and a key hidden from the
  guest as a host accelerator is never at the same time open for the guest.\<close>

theorem generations_referenced:
  "case kg_get (run_ops key_step key_registry_default es) kb key of
     None \<Rightarrow> True
   | Some g \<Rightarrow>
       \<not> is_unreferenced g \<and>
       \<not> (kg_host_accelerator_suppressed g \<and> owner_forwarded (kg_guest_owner g))"
proof -
  have "registry_ok (run_ops key_step key_registry_default es)"
    by (rule key_machine.run_always) (rule registry_ok_default)
  then show ?thesis
    by (auto simp: gen_ok_def dest: registry_okD split: option.split)
qed

end
