(* ===== verification/Keyboard_Focus.thy ===== *)
theory Keyboard_Focus
  imports Key_Generation
begin

text \<open>
  \<open>KeyboardFocusRegistry\<close> of \<^verbatim>\<open>sommelier/src/state/input.rs\<close>: which surface each host
  keyboard has entered, the superseded enters whose leave the guest still expects, and the
  seat-level focus changes derived from them.  The map of keyboards is iterated, so it is an
  association list in an arbitrary order; the invariant makes the results independent of
  that order.
\<close>

section \<open>State\<close>

record keyboard_focus =
  kf_guest_seat :: u32
  kf_guest_surface :: u32
  kf_host_surface :: u32

record seat_focus_change =
  sf_guest_seat :: u32
  sf_previous_surface :: "u32 option"
  sf_current_surface :: "u32 option"

record keyboard_focus_update =
  accepted :: bool
  seat_changes :: "seat_focus_change list"
  retired_keyboards :: "host_id list"

definition focus_update_default :: keyboard_focus_update where
  "focus_update_default = \<lparr>accepted = False, seat_changes = [], retired_keyboards = []\<rparr>"

record focus_registry =
  keyboards :: "(host_id, keyboard_focus) hmap"
  retired_guest_enters :: "host_id \<times> u32 \<rightharpoonup> keyboard_focus"

definition focus_registry_default :: focus_registry where
  "focus_registry_default = \<lparr>keyboards = [], retired_guest_enters = Map.empty\<rparr>"

section \<open>Operations\<close>

definition surface_for_seat :: "focus_registry \<Rightarrow> u32 \<Rightarrow> u32 option" where
  "surface_for_seat r seat =
     map_option kf_guest_surface
       (List.find (\<lambda>f. kf_guest_seat f = seat) (map snd (keyboards r)))"

definition focus_for_keyboard :: "focus_registry \<Rightarrow> host_id \<Rightarrow> keyboard_focus option" where
  "focus_for_keyboard r kb = hm_get (keyboards r) kb"

definition keyboard_owns_surface :: "focus_registry \<Rightarrow> host_id \<Rightarrow> u32 \<Rightarrow> bool" where
  "keyboard_owns_surface r kb surface =
     (case focus_for_keyboard r kb of Some f \<Rightarrow> kf_guest_surface f = surface | None \<Rightarrow> False)"

text \<open>The change of one seat between two registries, if there is one.\<close>

definition seat_change_of :: "focus_registry \<Rightarrow> u32 \<times> u32 option \<Rightarrow> seat_focus_change option" where
  "seat_change_of r' sp =
     (case sp of (seat, previous_surface) \<Rightarrow>
        let current_surface = surface_for_seat r' seat
        in if previous_surface \<noteq> current_surface
           then Some \<lparr>sf_guest_seat = seat, sf_previous_surface = previous_surface,
                      sf_current_surface = current_surface\<rparr>
           else None)"

definition drop_retired_enters :: "host_id \<Rightarrow> focus_registry \<Rightarrow> focus_registry" where
  "drop_retired_enters kb r =
     r\<lparr>retired_guest_enters := map_retain (\<lambda>(k, _) _. k \<noteq> kb) (retired_guest_enters r)\<rparr>"

definition retire_keyboard :: "host_id \<Rightarrow> host_id \<Rightarrow> focus_registry \<Rightarrow> focus_registry" where
  "retire_keyboard host_keyboard kb r =
     (case hm_get (keyboards r) kb of
        None \<Rightarrow> r
      | Some f \<Rightarrow>
          let r1 = r\<lparr>keyboards := hm_remove kb (keyboards r)\<rparr>
          in if kb \<noteq> host_keyboard
             then r1\<lparr>retired_guest_enters :=
                       (retired_guest_enters r1)((kb, kf_host_surface f) \<mapsto> f)\<rparr>
             else r1)"

definition focus_enter ::
    "host_id \<Rightarrow> keyboard_focus \<Rightarrow> focus_registry \<Rightarrow> keyboard_focus_update \<times> focus_registry" where
  "focus_enter host_keyboard focus r =
     (if focus_for_keyboard r host_keyboard = Some focus then (focus_update_default, r)
      else
        let affected_seats = remdups_adj (sort
              (kf_guest_seat focus #
               (case focus_for_keyboard r host_keyboard of
                  Some previous \<Rightarrow> [kf_guest_seat previous]
                | None \<Rightarrow> [])));
            previous_surfaces = map (\<lambda>seat. (seat, surface_for_seat r seat)) affected_seats;
            r1 = drop_retired_enters host_keyboard r;
            retired = sort (map fst (filter (\<lambda>(kb, current).
                  kb = host_keyboard \<or>
                  (kf_guest_seat current = kf_guest_seat focus \<and>
                   kf_guest_surface current \<noteq> kf_guest_surface focus)) (keyboards r1)));
            r2 = fold (retire_keyboard host_keyboard) retired r1;
            r3 = r2\<lparr>keyboards := hm_insert host_keyboard focus (keyboards r2)\<rparr>
        in (\<lparr>accepted = True,
             seat_changes = List.map_filter (seat_change_of r3) previous_surfaces,
             retired_keyboards = retired\<rparr>, r3))"

definition remove_keyboard ::
    "host_id \<Rightarrow> keyboard_focus \<Rightarrow> focus_registry \<Rightarrow> keyboard_focus_update \<times> focus_registry" where
  "remove_keyboard host_keyboard focus r =
     (let previous_surface = surface_for_seat r (kf_guest_seat focus);
          r1 = r\<lparr>keyboards := hm_remove host_keyboard (keyboards r)\<rparr>
      in (\<lparr>accepted = True,
           seat_changes =
             List.map_filter (seat_change_of r1) [(kf_guest_seat focus, previous_surface)],
           retired_keyboards = [host_keyboard]\<rparr>, r1))"

definition focus_leave ::
    "host_id \<Rightarrow> u32 \<Rightarrow> focus_registry \<Rightarrow> keyboard_focus_update \<times> focus_registry" where
  "focus_leave host_keyboard host_surface r =
     (case focus_for_keyboard r host_keyboard of
        None \<Rightarrow>
          if retired_guest_enters r (host_keyboard, host_surface) \<noteq> None
          then (focus_update_default\<lparr>accepted := True\<rparr>,
                r\<lparr>retired_guest_enters :=
                    (retired_guest_enters r)((host_keyboard, host_surface) := None)\<rparr>)
          else (focus_update_default, r)
      | Some focus \<Rightarrow>
          if kf_host_surface focus \<noteq> host_surface then (focus_update_default, r)
          else remove_keyboard host_keyboard focus r)"

definition focus_release ::
    "host_id \<Rightarrow> focus_registry \<Rightarrow> keyboard_focus_update \<times> focus_registry" where
  "focus_release host_keyboard r =
     (let r1 = drop_retired_enters host_keyboard r
      in case focus_for_keyboard r1 host_keyboard of
           None \<Rightarrow> (focus_update_default, r1)
         | Some focus \<Rightarrow> remove_keyboard host_keyboard focus r1)"

definition focus_destroy_surface ::
    "u32 \<Rightarrow> focus_registry \<Rightarrow> keyboard_focus_update \<times> focus_registry" where
  "focus_destroy_surface guest_surface r =
     (let affected_seats = remdups_adj (sort (map kf_guest_seat
            (filter (\<lambda>f. kf_guest_surface f = guest_surface) (map snd (keyboards r)))));
          retired = sort (map fst
            (filter (\<lambda>(_, f). kf_guest_surface f = guest_surface) (keyboards r)));
          r1 = fold (\<lambda>kb r. r\<lparr>keyboards := hm_remove kb (keyboards r)\<rparr>) retired r;
          r2 = r1\<lparr>retired_guest_enters :=
            map_retain (\<lambda>_ f. kf_guest_surface f \<noteq> guest_surface) (retired_guest_enters r1)\<rparr>
      in (\<lparr>accepted = (retired \<noteq> []),
           seat_changes = map (\<lambda>seat. \<lparr>sf_guest_seat = seat,
             sf_previous_surface = Some guest_surface,
             sf_current_surface = surface_for_seat r2 seat\<rparr>) affected_seats,
           retired_keyboards = retired\<rparr>, r2))"

section \<open>The invariant\<close>

text \<open>
  Keyboards on one seat agree on the surface, and a retired enter belongs to a keyboard
  without a current focus.
\<close>

definition focus_ok :: "focus_registry \<Rightarrow> bool" where
  "focus_ok r \<longleftrightarrow>
     hm_ok (keyboards r) \<and>
     (\<forall>k1 f1 k2 f2. focus_for_keyboard r k1 = Some f1 \<and> focus_for_keyboard r k2 = Some f2 \<and>
        kf_guest_seat f1 = kf_guest_seat f2 \<longrightarrow> kf_guest_surface f1 = kf_guest_surface f2) \<and>
     (\<forall>kb s f. retired_guest_enters r (kb, s) = Some f \<longrightarrow>
        focus_for_keyboard r kb = None \<and> kf_host_surface f = s)"

lemma focus_okI:
  "hm_ok (keyboards r) \<Longrightarrow>
   (\<And>k1 f1 k2 f2. focus_for_keyboard r k1 = Some f1 \<Longrightarrow> focus_for_keyboard r k2 = Some f2 \<Longrightarrow>
      kf_guest_seat f1 = kf_guest_seat f2 \<Longrightarrow> kf_guest_surface f1 = kf_guest_surface f2) \<Longrightarrow>
   (\<And>kb s f. retired_guest_enters r (kb, s) = Some f \<Longrightarrow>
      focus_for_keyboard r kb = None \<and> kf_host_surface f = s) \<Longrightarrow> focus_ok r"
  unfolding focus_ok_def by blast

lemma focus_okD:
  "focus_ok r \<Longrightarrow> hm_ok (keyboards r)"
  "focus_ok r \<Longrightarrow> focus_for_keyboard r k1 = Some f1 \<Longrightarrow> focus_for_keyboard r k2 = Some f2 \<Longrightarrow>
     kf_guest_seat f1 = kf_guest_seat f2 \<Longrightarrow> kf_guest_surface f1 = kf_guest_surface f2"
  "focus_ok r \<Longrightarrow> retired_guest_enters r (kb, s) = Some f \<Longrightarrow>
     focus_for_keyboard r kb = None \<and> kf_host_surface f = s"
  unfolding focus_ok_def by blast+

lemma focus_ok_sub:
  assumes "focus_ok r" and "\<And>kb f. focus_for_keyboard r' kb = Some f \<Longrightarrow> focus_for_keyboard r kb = Some f"
    and "hm_ok (keyboards r')"
    and "\<And>kb s f. retired_guest_enters r' (kb, s) = Some f \<Longrightarrow>
      focus_for_keyboard r' kb = None \<and> kf_host_surface f = s"
  shows "focus_ok r'"
  using assms(3)
proof (rule focus_okI)
  fix k1 f1 k2 f2
  assume "focus_for_keyboard r' k1 = Some f1" "focus_for_keyboard r' k2 = Some f2"
    "kf_guest_seat f1 = kf_guest_seat f2"
  then show "kf_guest_surface f1 = kf_guest_surface f2"
    by (intro focus_okD(2) [OF assms(1) assms(2) assms(2)])
qed (rule assms(4))

lemma keyboards_entry:
  "hm_ok (keyboards r) \<Longrightarrow> (kb, f) \<in> set (keyboards r) \<longleftrightarrow> focus_for_keyboard r kb = Some f"
  by (simp add: focus_for_keyboard_def hm.entries_get)

lemma surface_for_seat_None:
  assumes "hm_ok (keyboards r)"
  shows "surface_for_seat r seat = None \<longleftrightarrow>
     (\<forall>kb f. focus_for_keyboard r kb = Some f \<longrightarrow> kf_guest_seat f \<noteq> seat)"
proof -
  have "surface_for_seat r seat = None \<longleftrightarrow> (\<forall>(kb, f)\<in>set (keyboards r). kf_guest_seat f \<noteq> seat)"
    by (auto simp: surface_for_seat_def find_None_iff)
  also have "\<dots> \<longleftrightarrow> (\<forall>kb f. focus_for_keyboard r kb = Some f \<longrightarrow> kf_guest_seat f \<noteq> seat)"
    unfolding keyboards_entry [OF assms, symmetric] by blast
  finally show ?thesis .
qed

lemma find_entry: "List.find P (map snd xs) = Some f \<Longrightarrow> P f \<and> (\<exists>k. (k, f) \<in> set xs)"
  by (induction xs) (auto split: if_splits)

text \<open>The result of the search does not depend on the order of the map.\<close>

lemma surface_for_seat_Some:
  assumes "focus_ok r"
  shows "surface_for_seat r seat = Some s \<longleftrightarrow>
     (\<exists>kb f. focus_for_keyboard r kb = Some f \<and> kf_guest_seat f = seat \<and> kf_guest_surface f = s)"
proof
  assume "surface_for_seat r seat = Some s"
  then obtain f where f: "List.find (\<lambda>f. kf_guest_seat f = seat) (map snd (keyboards r)) = Some f"
    "kf_guest_surface f = s"
    by (auto simp: surface_for_seat_def)
  from find_entry [OF f(1)] obtain kb where "(kb, f) \<in> set (keyboards r)" "kf_guest_seat f = seat"
    using find_entry by blast
  then have "focus_for_keyboard r kb = Some f" "kf_guest_seat f = seat"
    unfolding keyboards_entry [OF focus_okD(1) [OF assms]] .
  with f(2) show "\<exists>kb f. focus_for_keyboard r kb = Some f \<and> kf_guest_seat f = seat \<and> kf_guest_surface f = s"
    by blast
next
  assume "\<exists>kb f. focus_for_keyboard r kb = Some f \<and> kf_guest_seat f = seat \<and> kf_guest_surface f = s"
  then obtain kb f where kb: "focus_for_keyboard r kb = Some f" "kf_guest_seat f = seat"
    "kf_guest_surface f = s"
    by blast
  then have "surface_for_seat r seat \<noteq> None"
    by (auto simp: surface_for_seat_None [OF focus_okD(1) [OF assms]])
  then obtain f' where f': "List.find (\<lambda>f. kf_guest_seat f = seat) (map snd (keyboards r)) = Some f'"
    by (auto simp: surface_for_seat_def)
  from find_entry [OF f'] obtain kb' where "(kb', f') \<in> set (keyboards r)" "kf_guest_seat f' = seat"
    using find_entry by blast
  then have "focus_for_keyboard r kb' = Some f'" "kf_guest_seat f' = seat"
    unfolding keyboards_entry [OF focus_okD(1) [OF assms]] .
  with kb assms have "kf_guest_surface f' = s"
    by (metis focus_okD(2))
  with f' show "surface_for_seat r seat = Some s"
    by (simp add: surface_for_seat_def)
qed

section \<open>Exact updates\<close>

text \<open>
  What a focus operation must report: precisely the seats whose surface changed, with their
  old and new surface, and precisely the keyboards whose focus was lost or replaced.
\<close>

definition update_exact ::
    "focus_registry \<Rightarrow> keyboard_focus_update \<Rightarrow> focus_registry \<Rightarrow> bool" where
  "update_exact r u r' \<longleftrightarrow>
     set (seat_changes u) =
       {c. sf_previous_surface c = surface_for_seat r (sf_guest_seat c) \<and>
           sf_current_surface c = surface_for_seat r' (sf_guest_seat c) \<and>
           sf_previous_surface c \<noteq> sf_current_surface c} \<and>
     set (retired_keyboards u) =
       {kb. focus_for_keyboard r kb \<noteq> None \<and> focus_for_keyboard r' kb \<noteq> focus_for_keyboard r kb}"

lemma update_exact_default:
  "keyboards r' = keyboards r \<Longrightarrow> seat_changes u = [] \<Longrightarrow> retired_keyboards u = [] \<Longrightarrow> update_exact r u r'"
  by (auto simp: update_exact_def surface_for_seat_def focus_for_keyboard_def)

lemma seat_changes_exact:
  assumes "\<And>seat. seat \<notin> set seats \<Longrightarrow> surface_for_seat r' seat = surface_for_seat r seat"
  shows "set (List.map_filter (seat_change_of r') (map (\<lambda>seat. (seat, surface_for_seat r seat)) seats)) =
    {c. sf_previous_surface c = surface_for_seat r (sf_guest_seat c) \<and>
        sf_current_surface c = surface_for_seat r' (sf_guest_seat c) \<and>
        sf_previous_surface c \<noteq> sf_current_surface c}" (is "?A = ?B")
proof
  show "?A \<subseteq> ?B"
    by (auto simp: List.map_filter_def seat_change_of_def Let_def split: if_splits)
  show "?B \<subseteq> ?A"
  proof
    fix c :: seat_focus_change
    assume "c \<in> ?B"
    then have "seat_change_of r' (sf_guest_seat c, surface_for_seat r (sf_guest_seat c)) = Some c"
      by (auto simp: seat_change_of_def Let_def)
    moreover have "sf_guest_seat c \<in> set seats"
      using assms [of "sf_guest_seat c"] \<open>c \<in> ?B\<close> by fastforce
    ultimately show "c \<in> ?A"
      by (force simp: List.map_filter_def image_iff)
  qed
qed

lemma surface_unchanged:
  assumes "focus_ok r" "focus_ok r'"
    and "\<And>kb f. kf_guest_seat f = seat \<Longrightarrow>
      focus_for_keyboard r' kb = Some f \<longleftrightarrow> focus_for_keyboard r kb = Some f"
  shows "surface_for_seat r' seat = surface_for_seat r seat"
proof -
  have "surface_for_seat r' seat = Some s \<longleftrightarrow> surface_for_seat r seat = Some s" for s
    using assms(3) by (auto simp: surface_for_seat_Some [OF assms(1)] surface_for_seat_Some [OF assms(2)])
  then show ?thesis
    by (metis option.exhaust)
qed

subsection \<open>Enter\<close>

lemma retire_fold_view:
  "focus_for_keyboard (fold (retire_keyboard hk) ks r) kb =
     (if kb \<in> set ks then None else focus_for_keyboard r kb)"
proof (induction ks arbitrary: r)
  case (Cons k ks)
  have "focus_for_keyboard (retire_keyboard hk k r) kb =
      (if kb = k then None else focus_for_keyboard r kb)"
    by (auto simp: retire_keyboard_def focus_for_keyboard_def Let_def split: option.split)
  with Cons show ?case
    by auto
qed simp

lemma retire_fold_hm_ok: "hm_ok (keyboards r) \<Longrightarrow> hm_ok (keyboards (fold (retire_keyboard hk) ks r))"
  by (induction ks arbitrary: r)
    (auto simp: retire_keyboard_def Let_def hm.ok_del split: option.split)

lemma retire_fold_enters:
  "retired_guest_enters (fold (retire_keyboard hk) ks r) (k, s) = Some f \<Longrightarrow>
     retired_guest_enters r (k, s) = Some f \<or>
     (k \<in> set ks \<and> k \<noteq> hk \<and> focus_for_keyboard r k = Some f \<and> kf_host_surface f = s)"
proof (induction ks arbitrary: r)
  case (Cons k' ks)
  have step: "retired_guest_enters (retire_keyboard hk k' r) (k, s) = Some f \<Longrightarrow>
      retired_guest_enters r (k, s) = Some f \<or>
      (k = k' \<and> k \<noteq> hk \<and> focus_for_keyboard r k = Some f \<and> kf_host_surface f = s)"
    by (auto simp: retire_keyboard_def Let_def focus_for_keyboard_def split: option.splits if_splits)
  have view: "focus_for_keyboard (retire_keyboard hk k' r) k = Some f \<Longrightarrow>
      focus_for_keyboard r k = Some f"
    using retire_fold_view [of hk "[k']" r k] by (simp split: if_splits)
  from Cons.prems have "retired_guest_enters (fold (retire_keyboard hk) ks (retire_keyboard hk k' r))
      (k, s) = Some f"
    by simp
  from Cons.IH [OF this] show ?case
    using step view by auto
qed simp

text \<open>The registry after an accepted enter, as lookups.\<close>

lemma focus_enter_view:
  assumes ok: "focus_ok r" and new: "focus_for_keyboard r hk \<noteq> Some focus"
    and e: "focus_enter hk focus r = (u, r')"
  shows "focus_for_keyboard r' kb =
      (if kb = hk then Some focus
       else case focus_for_keyboard r kb of
         Some c \<Rightarrow> if kf_guest_seat c = kf_guest_seat focus \<and>
                     kf_guest_surface c \<noteq> kf_guest_surface focus then None else Some c
       | None \<Rightarrow> None)"
    and "retired_guest_enters r' (k, s) = Some f \<Longrightarrow> k \<noteq> hk \<and> focus_for_keyboard r' k = None \<and>
      kf_host_surface f = s"
    and "hm_ok (keyboards r')"
    and "set (retired_keyboards u) = {kb. \<exists>c. focus_for_keyboard r kb = Some c \<and>
      (kb = hk \<or> kf_guest_seat c = kf_guest_seat focus \<and> kf_guest_surface c \<noteq> kf_guest_surface focus)}"
proof -
  let ?p = "\<lambda>(kb, current). kb = hk \<or> (kf_guest_seat current = kf_guest_seat focus \<and>
      kf_guest_surface current \<noteq> kf_guest_surface focus)"
  define r1 where "r1 = drop_retired_enters hk r"
  define ks where "ks = sort (map fst (filter ?p (keyboards r1)))"
  define r2 where "r2 = fold (retire_keyboard hk) ks r1"
  have r': "r' = r2\<lparr>keyboards := hm_insert hk focus (keyboards r2)\<rparr>" "retired_keyboards u = ks"
    using e new by (auto simp: focus_enter_def Let_def r1_def ks_def r2_def)
  have kb1: "keyboards r1 = keyboards r"
    by (simp add: r1_def drop_retired_enters_def)
  then have f1: "focus_for_keyboard r1 = focus_for_keyboard r"
    by (simp add: focus_for_keyboard_def fun_eq_iff)
  have ks: "kb \<in> set ks \<longleftrightarrow> (\<exists>c. focus_for_keyboard r kb = Some c \<and> (kb = hk \<or>
      kf_guest_seat c = kf_guest_seat focus \<and> kf_guest_surface c \<noteq> kf_guest_surface focus))" for kb
    unfolding keyboards_entry [OF focus_okD(1) [OF ok], symmetric] by (force simp: ks_def kb1)
  have f2: "focus_for_keyboard r2 kb = (if kb \<in> set ks then None else focus_for_keyboard r kb)" for kb
    by (simp add: r2_def retire_fold_view f1)
  have f': "focus_for_keyboard r' kb = (if kb = hk then Some focus else focus_for_keyboard r2 kb)" for kb
    by (simp add: r' focus_for_keyboard_def)
  show "focus_for_keyboard r' kb =
      (if kb = hk then Some focus
       else case focus_for_keyboard r kb of
         Some c \<Rightarrow> if kf_guest_seat c = kf_guest_seat focus \<and>
                     kf_guest_surface c \<noteq> kf_guest_surface focus then None else Some c
       | None \<Rightarrow> None)"
    by (auto simp: f' f2 ks split: option.split)
  show "set (retired_keyboards u) = {kb. \<exists>c. focus_for_keyboard r kb = Some c \<and>
      (kb = hk \<or> kf_guest_seat c = kf_guest_seat focus \<and> kf_guest_surface c \<noteq> kf_guest_surface focus)}"
    by (auto simp: r' ks)
  have "hm_ok (keyboards r2)"
    unfolding r2_def by (rule retire_fold_hm_ok) (simp add: kb1 focus_okD(1) [OF ok])
  then show "hm_ok (keyboards r')"
    by (simp add: r' hm.ok_put)
  assume "retired_guest_enters r' (k, s) = Some f"
  then have "retired_guest_enters r2 (k, s) = Some f"
    by (simp add: r')
  from retire_fold_enters [OF this [unfolded r2_def]]
  show "k \<noteq> hk \<and> focus_for_keyboard r' k = None \<and> kf_host_surface f = s"
  proof
    assume "retired_guest_enters r1 (k, s) = Some f"
    then have "k \<noteq> hk" "retired_guest_enters r (k, s) = Some f"
      by (auto simp: r1_def drop_retired_enters_def map_retain_def split: option.splits if_splits)
    with focus_okD(3) [OF ok] show ?thesis
      by (auto simp: f' f2)
  qed (auto simp: f' f2)
qed

lemma focus_enter_exact:
  assumes ok: "focus_ok r" and e: "focus_enter hk focus r = (u, r')"
  shows "focus_ok r' \<and> update_exact r u r'"
proof (cases "focus_for_keyboard r hk = Some focus")
  case True
  with ok e show ?thesis
    by (auto simp: focus_enter_def focus_update_default_def intro!: update_exact_default)
next
  case False
  note view = focus_enter_view [OF ok False e]
  have ok': "focus_ok r'"
  proof (rule focus_okI)
    fix k1 f1 k2 f2
    assume "focus_for_keyboard r' k1 = Some f1" "focus_for_keyboard r' k2 = Some f2"
      "kf_guest_seat f1 = kf_guest_seat f2"
    moreover have old: "f = focus \<or> focus_for_keyboard r k = Some f \<and>
        (kf_guest_seat f = kf_guest_seat focus \<longrightarrow> kf_guest_surface f = kf_guest_surface focus)"
      if "focus_for_keyboard r' k = Some f" for k f
      using that by (auto simp: view(1) split: if_splits option.splits)
    ultimately show "kf_guest_surface f1 = kf_guest_surface f2"
      using old [of k1 f1] old [of k2 f2] focus_okD(2) [OF ok, of k1 f1 k2 f2] by metis
  qed (use view in blast)+
  let ?seats = "remdups_adj (sort (kf_guest_seat focus #
      (case focus_for_keyboard r hk of Some previous \<Rightarrow> [kf_guest_seat previous] | None \<Rightarrow> [])))"
  have changes: "seat_changes u = List.map_filter (seat_change_of r')
      (map (\<lambda>seat. (seat, surface_for_seat r seat)) ?seats)"
    using e False by (auto simp: focus_enter_def Let_def)
  have same: "surface_for_seat r' seat = surface_for_seat r seat" if "seat \<notin> set ?seats" for seat
    using ok ok'
  proof (rule surface_unchanged)
    fix kb and f :: keyboard_focus
    assume "kf_guest_seat f = seat"
    moreover from that have "seat \<noteq> kf_guest_seat focus"
      "\<And>p. focus_for_keyboard r hk = Some p \<Longrightarrow> seat \<noteq> kf_guest_seat p"
      unfolding remdups_adj_set set_sort by auto
    ultimately show "focus_for_keyboard r' kb = Some f \<longleftrightarrow> focus_for_keyboard r kb = Some f"
      by (auto simp: view(1) split: option.splits)
  qed
  have "set (retired_keyboards u) =
      {kb. focus_for_keyboard r kb \<noteq> None \<and> focus_for_keyboard r' kb \<noteq> focus_for_keyboard r kb}"
    using False by (auto simp: view(1,4) split: option.splits if_splits)
  with ok' seat_changes_exact [of ?seats, OF same, folded changes] show ?thesis
    unfolding update_exact_def by (intro conjI)
qed

subsection \<open>Leave, release and surface destruction\<close>

lemma remove_keyboard_exact:
  assumes ok: "focus_ok r" and f: "focus_for_keyboard r hk = Some focus"
    and e: "remove_keyboard hk focus r = (u, r')"
  shows "focus_ok r' \<and> update_exact r u r'"
proof -
  have r': "r' = r\<lparr>keyboards := hm_remove hk (keyboards r)\<rparr>" "retired_keyboards u = [hk]"
    and changes: "seat_changes u = List.map_filter (seat_change_of r')
      (map (\<lambda>seat. (seat, surface_for_seat r seat)) [kf_guest_seat focus])"
    using e by (auto simp: remove_keyboard_def Let_def)
  have view: "focus_for_keyboard r' kb = (if kb = hk then None else focus_for_keyboard r kb)" for kb
    by (simp add: r' focus_for_keyboard_def)
  have ok': "focus_ok r'"
    using ok
  proof (rule focus_ok_sub)
    show "hm_ok (keyboards r')"
      using focus_okD(1) [OF ok] by (simp add: r' hm.ok_del)
    show "focus_for_keyboard r' kb = None \<and> kf_host_surface f = s"
      if "retired_guest_enters r' (kb, s) = Some f" for kb s f
      using that focus_okD(3) [OF ok, of kb s f] by (simp add: r' view [unfolded r'])
  qed (simp add: view split: if_splits)
  have same: "surface_for_seat r' seat = surface_for_seat r seat"
    if "seat \<notin> set [kf_guest_seat focus]" for seat
    using ok ok' by (rule surface_unchanged) (use that f in \<open>auto simp: view\<close>)
  note exact = seat_changes_exact [of "[kf_guest_seat focus]", OF same, folded changes]
  have "set (retired_keyboards u) =
      {kb. focus_for_keyboard r kb \<noteq> None \<and> focus_for_keyboard r' kb \<noteq> focus_for_keyboard r kb}"
    using f by (auto simp: r'(2) view)
  with ok' exact show ?thesis
    unfolding update_exact_def by (intro conjI)
qed

lemma focus_leave_exact:
  assumes ok: "focus_ok r" and e: "focus_leave hk surface r = (u, r')"
  shows "focus_ok r' \<and> update_exact r u r'"
proof (cases "focus_for_keyboard r hk")
  case None
  have "focus_ok (r\<lparr>retired_guest_enters := (retired_guest_enters r)((hk, surface) := None)\<rparr>)"
    using ok by (auto simp: focus_ok_def focus_for_keyboard_def)
  with None ok e show ?thesis
    by (auto simp: focus_leave_def focus_update_default_def intro!: update_exact_default
        split: if_splits)
next
  case (Some focus)
  with ok e remove_keyboard_exact [OF ok Some] show ?thesis
    by (auto simp: focus_leave_def focus_update_default_def intro!: update_exact_default
        split: if_splits)
qed

lemma drop_retired_ok:
  "focus_ok r \<Longrightarrow> focus_ok (drop_retired_enters hk r)"
  unfolding focus_ok_def
  by (auto simp: drop_retired_enters_def focus_for_keyboard_def map_retain_def
      split: option.splits if_splits)

lemma drop_retired_same:
  "focus_for_keyboard (drop_retired_enters hk r) = focus_for_keyboard r"
  "surface_for_seat (drop_retired_enters hk r) = surface_for_seat r"
  by (simp_all add: drop_retired_enters_def focus_for_keyboard_def surface_for_seat_def fun_eq_iff)

lemma focus_release_exact:
  assumes ok: "focus_ok r" and e: "focus_release hk r = (u, r')"
  shows "focus_ok r' \<and> update_exact r u r'"
proof (cases "focus_for_keyboard r hk")
  case None
  with e have "r' = drop_retired_enters hk r" "u = focus_update_default"
    by (auto simp: focus_release_def Let_def drop_retired_same)
  moreover have "update_exact r focus_update_default (drop_retired_enters hk r)"
    by (rule update_exact_default) (simp_all add: focus_update_default_def drop_retired_enters_def)
  ultimately show ?thesis
    by (simp add: drop_retired_ok [OF ok])
next
  case (Some focus)
  with e have "remove_keyboard hk focus (drop_retired_enters hk r) = (u, r')"
    by (simp add: focus_release_def Let_def drop_retired_same)
  from remove_keyboard_exact [OF drop_retired_ok [OF ok] _ this] Some show ?thesis
    by (simp add: drop_retired_same update_exact_def)
qed

lemma remove_fold_view:
  "focus_for_keyboard (fold (\<lambda>kb r. r\<lparr>keyboards := hm_remove kb (keyboards r)\<rparr>) ks r) kb =
     (if kb \<in> set ks then None else focus_for_keyboard r kb)"
  "retired_guest_enters (fold (\<lambda>kb r. r\<lparr>keyboards := hm_remove kb (keyboards r)\<rparr>) ks r) =
     retired_guest_enters r"
  "hm_ok (keyboards r) \<Longrightarrow>
     hm_ok (keyboards (fold (\<lambda>kb r. r\<lparr>keyboards := hm_remove kb (keyboards r)\<rparr>) ks r))"
  by (induction ks arbitrary: r) (auto simp: focus_for_keyboard_def hm.ok_del)

lemma focus_destroy_exact:
  assumes ok: "focus_ok r" and e: "focus_destroy_surface gs r = (u, r')"
  shows "focus_ok r' \<and> update_exact r u r'"
proof -
  let ?seats = "remdups_adj (sort (map kf_guest_seat
            (filter (\<lambda>f. kf_guest_surface f = gs) (map snd (keyboards r)))))"
  define ks where "ks = sort (map fst (filter (\<lambda>(_, f). kf_guest_surface f = gs) (keyboards r)))"
  define r1 where "r1 = fold (\<lambda>kb r. r\<lparr>keyboards := hm_remove kb (keyboards r)\<rparr>) ks r"
  have r': "r' = r1\<lparr>retired_guest_enters :=
      map_retain (\<lambda>_ f. kf_guest_surface f \<noteq> gs) (retired_guest_enters r1)\<rparr>"
    and u: "retired_keyboards u = ks"
    "seat_changes u = map (\<lambda>seat. \<lparr>sf_guest_seat = seat, sf_previous_surface = Some gs,
             sf_current_surface = surface_for_seat r' seat\<rparr>) ?seats"
    using e by (auto simp: focus_destroy_surface_def Let_def ks_def r1_def)
  note entry = keyboards_entry [OF focus_okD(1) [OF ok], symmetric]
  have ks: "kb \<in> set ks \<longleftrightarrow> (\<exists>f. focus_for_keyboard r kb = Some f \<and> kf_guest_surface f = gs)" for kb
    unfolding entry by (force simp: ks_def)
  have seats: "seat \<in> set ?seats \<longleftrightarrow>
      (\<exists>kb f. focus_for_keyboard r kb = Some f \<and> kf_guest_seat f = seat \<and> kf_guest_surface f = gs)" for seat
    unfolding entry by force
  have f1: "focus_for_keyboard r' kb = focus_for_keyboard r1 kb" for kb
    by (simp add: r' focus_for_keyboard_def)
  have view: "focus_for_keyboard r' kb = (if kb \<in> set ks then None else focus_for_keyboard r kb)" for kb
    by (simp add: f1) (simp add: r1_def remove_fold_view)
  have ok': "focus_ok r'"
    using ok
  proof (rule focus_ok_sub)
    show "hm_ok (keyboards r')"
      using focus_okD(1) [OF ok] by (simp add: r' r1_def remove_fold_view)
    show "focus_for_keyboard r' kb = None \<and> kf_host_surface f = s"
      if "retired_guest_enters r' (kb, s) = Some f" for kb s f
      using that focus_okD(3) [OF ok, of kb s f]
      by (auto simp: view) (auto simp: r' r1_def remove_fold_view map_retain_def
          split: option.splits if_splits)
  qed (simp add: view split: if_splits)
  have prev: "surface_for_seat r seat = Some gs" if "seat \<in> set ?seats" for seat
    using that unfolding seats surface_for_seat_Some [OF ok] .
  have none: "surface_for_seat r' seat = None" if "seat \<in> set ?seats" for seat
    unfolding surface_for_seat_None [OF focus_okD(1) [OF ok']]
  proof (intro allI impI notI)
    fix kb f
    assume f: "focus_for_keyboard r' kb = Some f" "kf_guest_seat f = seat"
    then have "focus_for_keyboard r kb = Some f" "kb \<notin> set ks"
      by (auto simp: view split: if_splits)
    with f(2) that show False
      unfolding seats ks by (metis focus_okD(2) [OF ok])
  qed
  have same: "surface_for_seat r' seat = surface_for_seat r seat" if "seat \<notin> set ?seats" for seat
    using ok ok'
  proof (rule surface_unchanged)
    fix kb and f :: keyboard_focus
    assume "kf_guest_seat f = seat"
    then have "kf_guest_surface f \<noteq> gs" if "focus_for_keyboard r kb = Some f"
      using that \<open>seat \<notin> set ?seats\<close> unfolding seats by blast
    then have "focus_for_keyboard r kb = Some f \<Longrightarrow> kb \<notin> set ks"
      unfolding ks by auto
    then show "focus_for_keyboard r' kb = Some f \<longleftrightarrow> focus_for_keyboard r kb = Some f"
      by (auto simp: view)
  qed
  have "set (seat_changes u) =
    {c. sf_previous_surface c = surface_for_seat r (sf_guest_seat c) \<and>
        sf_current_surface c = surface_for_seat r' (sf_guest_seat c) \<and>
        sf_previous_surface c \<noteq> sf_current_surface c}" (is "_ = ?B")
  proof
    show "set (seat_changes u) \<subseteq> ?B"
    proof
      fix c
      assume "c \<in> set (seat_changes u)"
      then obtain seat where "seat \<in> set ?seats" "c = \<lparr>sf_guest_seat = seat,
          sf_previous_surface = Some gs, sf_current_surface = surface_for_seat r' seat\<rparr>"
        unfolding u(2) set_map by blast
      with prev none show "c \<in> ?B"
        by simp
    qed
    show "?B \<subseteq> set (seat_changes u)"
    proof
      fix c :: seat_focus_change
      assume c: "c \<in> ?B"
      then have seat: "sf_guest_seat c \<in> set ?seats"
        using same [of "sf_guest_seat c"] by fastforce
      with c have eq: "c = \<lparr>sf_guest_seat = sf_guest_seat c, sf_previous_surface = Some gs,
          sf_current_surface = surface_for_seat r' (sf_guest_seat c)\<rparr>"
        using prev by (cases c) auto
      have "\<lparr>sf_guest_seat = sf_guest_seat c, sf_previous_surface = Some gs,
          sf_current_surface = surface_for_seat r' (sf_guest_seat c)\<rparr> \<in> set (seat_changes u)"
        unfolding u(2) set_map using seat by (rule imageI)
      then show "c \<in> set (seat_changes u)"
        by (subst eq)
    qed
  qed
  moreover have "kb \<in> set ks \<longleftrightarrow>
      focus_for_keyboard r kb \<noteq> None \<and> focus_for_keyboard r' kb \<noteq> focus_for_keyboard r kb" for kb
  proof (cases "kb \<in> set ks")
    case True
    then obtain f where "focus_for_keyboard r kb = Some f"
      unfolding ks by blast
    with True show ?thesis
      by (simp add: view)
  qed (simp add: view)
  then have "set (retired_keyboards u) =
      {kb. focus_for_keyboard r kb \<noteq> None \<and> focus_for_keyboard r' kb \<noteq> focus_for_keyboard r kb}"
    unfolding u(1) by blast
  ultimately show ?thesis
    using ok' unfolding update_exact_def by (intro conjI)
qed

section \<open>Runs\<close>

datatype focus_op =
    FocusEnter host_id keyboard_focus
  | FocusLeave host_id u32
  | FocusRelease host_id
  | FocusDestroySurface u32

definition focus_apply ::
    "focus_op \<Rightarrow> focus_registry \<Rightarrow> keyboard_focus_update \<times> focus_registry" where
  "focus_apply e r =
     (case e of
        FocusEnter kb focus \<Rightarrow> focus_enter kb focus r
      | FocusLeave kb surface \<Rightarrow> focus_leave kb surface r
      | FocusRelease kb \<Rightarrow> focus_release kb r
      | FocusDestroySurface surface \<Rightarrow> focus_destroy_surface surface r)"

definition focus_step :: "focus_registry \<Rightarrow> focus_op \<Rightarrow> focus_registry" where
  "focus_step r e = snd (focus_apply e r)"

lemma focus_apply_exact:
  assumes ok: "focus_ok r" and e: "focus_apply e r = (u, r')"
  shows "focus_ok r' \<and> update_exact r u r'"
proof (cases e)
  case (FocusEnter kb focus)
  with e show ?thesis
    by (intro focus_enter_exact [OF ok, of kb focus]) (simp add: focus_apply_def)
next
  case (FocusLeave kb surface)
  with e show ?thesis
    by (intro focus_leave_exact [OF ok, of kb surface]) (simp add: focus_apply_def)
next
  case (FocusRelease kb)
  with e show ?thesis
    by (intro focus_release_exact [OF ok, of kb]) (simp add: focus_apply_def)
next
  case (FocusDestroySurface surface)
  with e show ?thesis
    by (intro focus_destroy_exact [OF ok, of surface]) (simp add: focus_apply_def)
qed

interpretation focus_machine: machine focus_step focus_ok
proof
  fix r e
  assume "focus_ok r"
  then show "focus_ok (focus_step r e)"
    using focus_apply_exact by (cases "focus_apply e r") (simp add: focus_step_def)
qed

lemma focus_ok_default: "focus_ok focus_registry_default"
  by (simp add: focus_ok_def focus_registry_default_def focus_for_keyboard_def)

text \<open>
  The enters of a keyboard that the guest has seen and not yet been told to leave, by host
  surface.
\<close>

definition awaits_leave :: "focus_registry \<Rightarrow> host_id \<Rightarrow> u32 \<Rightarrow> bool" where
  "awaits_leave r kb surface \<longleftrightarrow>
     (case focus_for_keyboard r kb of
        Some f \<Rightarrow> kf_host_surface f = surface
      | None \<Rightarrow> retired_guest_enters r (kb, surface) \<noteq> None)"

section \<open>Properties\<close>

text \<open>In every reachable state the surface of a seat is the one every keyboard focused on
  that seat owns, so the answer does not depend on the order of the hash map.\<close>

theorem surface_for_seat_agrees:
  "surface_for_seat (run_ops focus_step focus_registry_default es) seat = Some s \<longleftrightarrow>
     (\<exists>kb f. focus_for_keyboard (run_ops focus_step focus_registry_default es) kb = Some f \<and>
       kf_guest_seat f = seat \<and> kf_guest_surface f = s)"
  by (rule surface_for_seat_Some) (rule focus_machine.run_always [OF focus_ok_default])

text \<open>Every focus operation reports exactly the seats whose surface it changed, with the old
  and the new surface, and exactly the keyboards whose focus it ended or replaced, so the
  text-input objects and key states projected from the report never diverge.\<close>

theorem focus_update_exact:
  "case focus_apply e (run_ops focus_step focus_registry_default es) of
     (u, r') \<Rightarrow> update_exact (run_ops focus_step focus_registry_default es) u r'"
  using focus_apply_exact [OF focus_machine.run_always [OF focus_ok_default], of e es]
  by (cases "focus_apply e (run_ops focus_step focus_registry_default es)") simp

text \<open>A leave is accepted exactly when the guest still awaits it for that keyboard and
  surface, and it is consumed: the same leave is not accepted again.\<close>

theorem focus_leave_once:
  "case focus_leave kb surface (run_ops focus_step focus_registry_default es) of
     (u, r') \<Rightarrow>
       accepted u = awaits_leave (run_ops focus_step focus_registry_default es) kb surface \<and>
       \<not> accepted (fst (focus_leave kb surface r'))"
proof -
  define r where "r = run_ops focus_step focus_registry_default es"
  have ok: "focus_ok r"
    unfolding r_def by (rule focus_machine.run_always [OF focus_ok_default])
  have "case focus_leave kb surface r of (u, r') \<Rightarrow>
      accepted u = awaits_leave r kb surface \<and> \<not> accepted (fst (focus_leave kb surface r'))"
  proof (cases "focus_for_keyboard r kb")
    case None
    then show ?thesis
      by (auto simp: focus_leave_def awaits_leave_def focus_update_default_def focus_for_keyboard_def)
  next
    case (Some f)
    have "retired_guest_enters r (kb, surface) = None"
      using focus_okD(3) [OF ok, of kb surface] Some by (cases "retired_guest_enters r (kb, surface)") auto
    with Some show ?thesis
      by (auto simp: focus_leave_def awaits_leave_def focus_update_default_def remove_keyboard_def
          focus_for_keyboard_def Let_def)
  qed
  then show ?thesis
    by (simp add: r_def)
qed

end
