(* ===== verification/Accelerator.thy ===== *)
theory Accelerator
  imports Sommelier_Prelude
begin

text \<open>
  The parser of \<open>SOMMELIER_ACCELERATORS\<close> (\<^verbatim>\<open>sommelier/src/accelerator.rs\<close>).  A string is
  the list of its code points; every character the parser cuts at is ASCII, so byte and
  code-point positions cut the same places.  The two libxkbcommon functions are parameters:
  \<open>keysym_from_name\<close> (case-insensitive lookup, \<open>KEY_NoSymbol\<close> = 0 for an unknown name) and
  \<open>keysym_to_lower\<close>.
\<close>

section \<open>Strings\<close>

type_synonym code_points = "nat list"

definition lit :: "string \<Rightarrow> code_points" where
  "lit s = map of_char s"

text \<open>The Unicode property \<open>White_Space\<close>, which \<open>str::trim\<close> removes.\<close>

definition is_white_space :: "nat \<Rightarrow> bool" where
  "is_white_space c \<longleftrightarrow>
     (9 \<le> c \<and> c \<le> 13) \<or> c = 32 \<or> c = 0x85 \<or> c = 0xA0 \<or> c = 0x1680 \<or>
     (0x2000 \<le> c \<and> c \<le> 0x200A) \<or> c = 0x2028 \<or> c = 0x2029 \<or> c = 0x202F \<or>
     c = 0x205F \<or> c = 0x3000"

definition trim :: "code_points \<Rightarrow> code_points" where
  "trim s = rev (dropWhile is_white_space (rev (dropWhile is_white_space s)))"

definition to_ascii_lowercase :: "code_points \<Rightarrow> code_points" where
  "to_ascii_lowercase s = map (\<lambda>c. if 65 \<le> c \<and> c \<le> 90 then c + 32 else c) s"

text \<open>\<open>str::split\<close> on one character: always at least one piece, empty pieces included.\<close>

fun split_on :: "nat \<Rightarrow> code_points \<Rightarrow> code_points list" where
  "split_on d [] = [[]]"
| "split_on d (c # cs) =
     (if c = d then [] # split_on d cs
      else case split_on d cs of p # ps \<Rightarrow> (c # p) # ps | [] \<Rightarrow> [[c]])"

section \<open>Accelerators\<close>

definition CONTROL_MASK :: u32 where "CONTROL_MASK = push_bit 0 1"
definition ALT_MASK :: u32 where "ALT_MASK = push_bit 1 1"
definition SHIFT_MASK :: u32 where "SHIFT_MASK = push_bit 2 1"
definition SUPER_MASK :: u32 where "SUPER_MASK = push_bit 3 1"

record accelerator =
  acc_modifiers :: u32
  acc_symbol :: u32

datatype parse_error = InvalidModifier code_points | InvalidKeysym code_points

definition modifier_mask :: "code_points \<Rightarrow> u32 option" where
  "modifier_mask mod_tag =
     (let t = to_ascii_lowercase mod_tag
      in if t = lit ''<control>'' \<or> t = lit ''<ctrl>'' then Some CONTROL_MASK
         else if t = lit ''<alt>'' \<or> t = lit ''<meta>'' then Some ALT_MASK
         else if t = lit ''<shift>'' then Some SHIFT_MASK
         else if t = lit ''<super>'' \<or> t = lit ''<win>'' \<or> t = lit ''<search>''
         then Some SUPER_MASK
         else None)"

text \<open>The loop over leading tags: 60 is \<open>'<'\<close> and 62 is \<open>'>'\<close>.\<close>

function parse_modifiers :: "u32 \<Rightarrow> code_points \<Rightarrow> parse_error + u32 \<times> code_points" where
  "parse_modifiers modifiers token =
     (case token of
        [] \<Rightarrow> Inr (modifiers, token)
      | c # _ \<Rightarrow>
          if c \<noteq> 60 then Inr (modifiers, token)
          else if 62 \<notin> set token then Inl (InvalidModifier token)
          else
            let end_idx = length (takeWhile (\<lambda>x. x \<noteq> 62) token);
                mod_tag = take (end_idx + 1) token
            in case modifier_mask mod_tag of
                 None \<Rightarrow> Inl (InvalidModifier token)
               | Some flag \<Rightarrow> parse_modifiers (modifiers OR flag) (drop (end_idx + 1) token))"
  by pat_completeness auto
termination
  by (relation "measure (\<lambda>(_, token). length token)") auto

declare parse_modifiers.simps [simp del]

definition parse_accelerator ::
    "(code_points \<Rightarrow> u32) \<Rightarrow> (u32 \<Rightarrow> u32) \<Rightarrow> code_points \<Rightarrow> parse_error + accelerator" where
  "parse_accelerator keysym_from_name keysym_to_lower token0 =
     (case parse_modifiers 0 (trim token0) of
        Inl e \<Rightarrow> Inl e
      | Inr (modifiers, token) \<Rightarrow>
          if token = [] then Inl (InvalidKeysym (lit ''Empty keysym''))
          else
            let keysym = keysym_from_name token
            in if keysym = 0 then Inl (InvalidKeysym token)
               else Inr \<lparr>acc_modifiers = modifiers, acc_symbol = keysym_to_lower keysym\<rparr>)"

fun parse_tokens ::
    "(code_points \<Rightarrow> u32) \<Rightarrow> (u32 \<Rightarrow> u32) \<Rightarrow> code_points list \<Rightarrow> parse_error + accelerator list" where
  "parse_tokens from_name to_lower [] = Inr []"
| "parse_tokens from_name to_lower (token0 # rest) =
     (let token = trim token0
      in if token = [] then parse_tokens from_name to_lower rest
         else case parse_accelerator from_name to_lower token of
           Inl e \<Rightarrow> Inl e
         | Inr a \<Rightarrow>
            (case parse_tokens from_name to_lower rest of
               Inl e \<Rightarrow> Inl e
             | Inr accs \<Rightarrow> Inr (a # accs)))"

text \<open>44 is the comma.\<close>

definition parse_accelerators ::
    "(code_points \<Rightarrow> u32) \<Rightarrow> (u32 \<Rightarrow> u32) \<Rightarrow> code_points \<Rightarrow> parse_error + accelerator list" where
  "parse_accelerators from_name to_lower s = parse_tokens from_name to_lower (split_on 44 s)"

text \<open>
  The match of \<open>is_host_accelerator\<close> (\<^verbatim>\<open>handler/keyboard.rs\<close>) once XKB has resolved the
  pressed key to a keysym in the current state.
\<close>

definition accelerator_match ::
    "(u32 \<Rightarrow> u32) \<Rightarrow> accelerator list \<Rightarrow> u32 \<Rightarrow> u32 \<Rightarrow> bool" where
  "accelerator_match keysym_to_lower accelerators modifiers keysym =
     (keysym \<noteq> 0 \<and>
      list_ex (\<lambda>a. modifiers = acc_modifiers a \<and> keysym_to_lower keysym = acc_symbol a) accelerators)"

section \<open>The accepted grammar\<close>

text \<open>
  The documented modifier tags with the bit each stands for (control 0, alt 1, shift 2, super 3).
  A tag is written between angle brackets, its letters in either case.
\<close>

definition documented_tags :: "(string \<times> u32) list" where
  "documented_tags =
     [(''control'', 1), (''ctrl'', 1), (''alt'', 2), (''meta'', 2), (''shift'', 4),
      (''super'', 8), (''win'', 8), (''search'', 8)]"

definition same_letter :: "nat \<Rightarrow> nat \<Rightarrow> bool" where
  "same_letter c l \<longleftrightarrow> c = l \<or> (97 \<le> l \<and> l \<le> 122 \<and> c + 32 = l)"

definition documented_tag :: "code_points \<times> u32 \<Rightarrow> bool" where
  "documented_tag t \<longleftrightarrow>
     list_ex (\<lambda>(word, bits). snd t = bits \<and> list_all2 same_letter (fst t) ([60] @ lit word @ [62]))
       documented_tags"

text \<open>
  An entry is a sequence of modifier tags followed by a keysym name.  The entries that can be
  written in the variable are those whose name has no comma, does not start like a tag and is
  not surrounded by white space.
\<close>

type_synonym entry = "(code_points \<times> u32) list \<times> code_points"

definition name_ok :: "code_points \<Rightarrow> bool" where
  "name_ok n \<longleftrightarrow> n \<noteq> [] \<and> hd n \<noteq> 60 \<and> 44 \<notin> set n \<and>
     \<not> is_white_space (hd n) \<and> \<not> is_white_space (last n)"

definition entry_ok :: "(code_points \<Rightarrow> u32) \<Rightarrow> entry \<Rightarrow> bool" where
  "entry_ok from_name e =
     (list_all documented_tag (fst e) \<and> name_ok (snd e) \<and> from_name (snd e) \<noteq> 0)"

definition entry_text :: "entry \<Rightarrow> code_points" where
  "entry_text e = concat (map fst (fst e)) @ snd e"

definition entry_accelerator ::
    "(code_points \<Rightarrow> u32) \<Rightarrow> (u32 \<Rightarrow> u32) \<Rightarrow> entry \<Rightarrow> accelerator" where
  "entry_accelerator from_name to_lower e =
     \<lparr>acc_modifiers = foldl (OR) 0 (map snd (fst e)),
      acc_symbol = to_lower (from_name (snd e))\<rparr>"

fun comma_separated :: "code_points list \<Rightarrow> code_points" where
  "comma_separated [] = []"
| "comma_separated [t] = t"
| "comma_separated (t # ts) = t @ [44] @ comma_separated ts"

lemma same_letters_lower:
  "list_all2 same_letter t u \<Longrightarrow> \<forall>l\<in>set u. l < 65 \<or> 90 < l \<Longrightarrow> to_ascii_lowercase t = u"
  unfolding to_ascii_lowercase_def
  by (induction rule: list_all2_induct) (auto simp: same_letter_def)

lemma documented_mask: "documented_tag t \<Longrightarrow> modifier_mask (fst t) = Some (snd t)"
proof -
  assume "documented_tag t"
  then obtain word bits where w: "(word, bits) \<in> set documented_tags" "snd t = bits"
      "list_all2 same_letter (fst t) ([60] @ lit word @ [62])"
    by (auto simp: documented_tag_def list_ex_iff)
  from w(1) have "\<forall>l\<in>set ([60] @ lit word @ [62]). l < 65 \<or> 90 < l"
    by (auto simp: documented_tags_def lit_def)
  from same_letters_lower [OF w(3) this] w(1,2) show ?thesis
    by (auto simp: documented_tags_def modifier_mask_def Let_def lit_def CONTROL_MASK_def ALT_MASK_def
        SHIFT_MASK_def SUPER_MASK_def)
qed

lemma lower_inverse:
  "map (\<lambda>c::nat. if 65 \<le> c \<and> c \<le> 90 then c + 32 else c) t = m \<Longrightarrow> d < 65 \<Longrightarrow> d \<notin> set m \<Longrightarrow> d \<notin> set t"
  by auto

lemma tag_shape:
  assumes "modifier_mask tag \<noteq> None"
  obtains t where "tag = 60 # t @ [62]" "62 \<notin> set t" "44 \<notin> set t"
proof -
  let ?f = "\<lambda>c::nat. if 65 \<le> c \<and> c \<le> 90 then c + 32 else c"
  have "\<exists>m. map ?f tag = 60 # m @ [62] \<and> 62 \<notin> set m \<and> 44 \<notin> set m"
    using assms by (auto simp: modifier_mask_def Let_def to_ascii_lowercase_def lit_def
        simp flip: append_Cons split: if_splits)
  then obtain m where m: "map ?f tag = 60 # m @ [62]" "62 \<notin> set m" "44 \<notin> set m"
    by (elim exE conjE)
  from m(1) obtain a t b where t: "tag = a # t @ [b]" "?f a = 60" "map ?f t = m" "?f b = 62"
    by (auto simp: map_eq_Cons_conv map_eq_append_conv)
  have "62 \<notin> set t" "44 \<notin> set t"
    using lower_inverse [OF t(3), of 62] lower_inverse [OF t(3), of 44] m(2,3) by simp_all
  with t that [of t] show ?thesis
    by (simp split: if_splits)
qed

lemma parse_modifiers_tag:
  assumes "modifier_mask tag = Some k"
  shows "parse_modifiers m (tag @ rest) = parse_modifiers (m OR k) rest"
proof -
  have "modifier_mask tag \<noteq> None"
    using assms by simp
  then obtain t where t: "tag = 60 # t @ [62]" "62 \<notin> set t"
    by (rule tag_shape)
  have "takeWhile (\<lambda>x. x \<noteq> 62) ((60 # t) @ 62 # rest) = (60 # t) @ takeWhile (\<lambda>x. x \<noteq> 62) (62 # rest)"
    using t(2) by (intro takeWhile_append2) auto
  then have tw: "takeWhile (\<lambda>x. x \<noteq> 62) (60 # t @ 62 # rest) = 60 # t"
    by simp
  have "take (length (60 # t) + 1) (60 # t @ 62 # rest) = tag"
    "drop (length (60 # t) + 1) (60 # t @ 62 # rest) = rest"
    by (simp_all add: t(1))
  then show ?thesis
    using assms t(1) by (subst parse_modifiers.simps) (simp add: tw Let_def del: takeWhile.simps)
qed

lemma parse_modifiers_tags:
  assumes "list_all documented_tag tags" and "name_ok n"
  shows "parse_modifiers m (concat (map fst tags) @ n) = Inr (foldl (OR) m (map snd tags), n)"
  using assms(1)
proof (induction tags arbitrary: m)
  case Nil
  from assms(2) obtain c cs where "n = c # cs" "c \<noteq> 60"
    by (cases n) (auto simp: name_ok_def)
  then show ?case
    by (subst parse_modifiers.simps) simp
next
  case (Cons tag tags)
  then show ?case
    using parse_modifiers_tag [OF documented_mask, of tag] by simp
qed

lemma trim_clean:
  "s \<noteq> [] \<Longrightarrow> \<not> is_white_space (hd s) \<Longrightarrow> \<not> is_white_space (last s) \<Longrightarrow> trim s = s"
proof -
  assume s: "s \<noteq> []" "\<not> is_white_space (hd s)" "\<not> is_white_space (last s)"
  then have "dropWhile is_white_space s = s"
    by (cases s) auto
  moreover have "dropWhile is_white_space (rev s) = rev s"
    using s by (cases s rule: rev_cases) auto
  ultimately show ?thesis
    by (simp add: trim_def)
qed

lemma entry_text_clean:
  assumes "entry_ok fn e"
  shows "entry_text e \<noteq> []" and "trim (entry_text e) = entry_text e" and "44 \<notin> set (entry_text e)"
proof -
  obtain tags n where e: "e = (tags, n)"
    by fastforce
  with assms have n: "name_ok n" and tags: "\<And>t. t \<in> set tags \<Longrightarrow> modifier_mask (fst t) \<noteq> None"
    using documented_mask by (force simp: entry_ok_def list_all_iff)+
  show ne: "entry_text e \<noteq> []"
    using n by (simp add: e entry_text_def name_ok_def)
  have "\<not> is_white_space (hd (entry_text e))"
  proof (cases tags)
    case Nil
    with n show ?thesis
      by (simp add: e entry_text_def name_ok_def)
  next
    case (Cons tag rest)
    then have "modifier_mask (fst tag) \<noteq> None"
      by (intro tags) simp
    then obtain t where "fst tag = 60 # t @ [62]"
      by (rule tag_shape)
    with Cons show ?thesis
      by (simp add: e entry_text_def is_white_space_def)
  qed
  moreover have "\<not> is_white_space (last (entry_text e))"
    using n by (simp add: e entry_text_def name_ok_def)
  ultimately show "trim (entry_text e) = entry_text e"
    by (rule trim_clean [OF ne])
  have "44 \<notin> set (fst t)" if "t \<in> set tags" for t
    by (rule tag_shape [OF tags [OF that]]) auto
  with n show "44 \<notin> set (entry_text e)"
    by (auto simp: e entry_text_def name_ok_def)
qed

lemma parse_accelerator_entry:
  assumes "entry_ok fn e"
  shows "parse_accelerator fn lo (entry_text e) = Inr (entry_accelerator fn lo e)"
proof -
  have "name_ok (snd e)" "list_all documented_tag (fst e)" "fn (snd e) \<noteq> 0"
    using assms by (simp_all add: entry_ok_def)
  moreover from this(1) have "snd e \<noteq> []"
    by (simp add: name_ok_def)
  ultimately show ?thesis
    unfolding parse_accelerator_def entry_text_clean(2) [OF assms]
    by (simp add: entry_text_def parse_modifiers_tags entry_accelerator_def)
qed

lemma split_on_none: "d \<notin> set s \<Longrightarrow> split_on d s = [s]"
  by (induction s) auto

lemma split_on_append: "d \<notin> set s \<Longrightarrow> split_on d (s @ d # rest) = s # split_on d rest"
  by (induction s) (auto split: list.split)

lemma split_comma:
  "\<forall>t\<in>set ts. 44 \<notin> set t \<Longrightarrow> ts \<noteq> [] \<Longrightarrow> split_on 44 (comma_separated ts) = ts"
  by (induction ts rule: comma_separated.induct) (auto simp: split_on_none split_on_append)

lemma parse_tokens_entries:
  "\<forall>e\<in>set es. entry_ok fn e \<Longrightarrow>
     parse_tokens fn lo (map entry_text es) = Inr (map (entry_accelerator fn lo) es)"
proof (induction es)
  case (Cons e es)
  then have e: "entry_ok fn e"
    by simp
  from Cons entry_text_clean(1,2) [OF e] parse_accelerator_entry [OF e, of lo] show ?case
    by simp
qed simp

section \<open>Properties\<close>

text \<open>C20: Every list of entries in the documented grammar (any tags of the documented table, in any
  order and letter case, then a keysym name), written with commas between the entries, parses to
  exactly the accelerators it describes: the union of the bits the table gives its tags, and the
  keysym in lower case.\<close>

theorem parse_accelerators_roundtrip:
  assumes "\<forall>e\<in>set es. entry_ok from_name e"
  shows "parse_accelerators from_name to_lower (comma_separated (map entry_text es)) =
    Inr (map (entry_accelerator from_name to_lower) es)"
proof (cases es)
  case Nil
  then show ?thesis
    by (simp add: parse_accelerators_def trim_def)
next
  case (Cons e es')
  have "44 \<notin> set (entry_text e)" if "e \<in> set es" for e
    using assms that entry_text_clean(3) by blast
  then have "\<forall>t\<in>set (map entry_text es). 44 \<notin> set t"
    unfolding set_map by blast
  then have "split_on 44 (comma_separated (map entry_text es)) = map entry_text es"
    by (rule split_comma) (simp add: Cons)
  then show ?thesis
    using parse_tokens_entries [OF assms] by (simp add: parse_accelerators_def)
qed

theorem parse_accelerators_roundtrip_witness:
  "parse_accelerators (\<lambda>n. if n = lit ''Tab'' then 0xff09 else 0) id
     (lit ''<Alt><SHIFT>Tab,Tab,<Ctrl><win>Tab'') =
   Inr [\<lparr>acc_modifiers = 6, acc_symbol = 0xff09\<rparr>, \<lparr>acc_modifiers = 0, acc_symbol = 0xff09\<rparr>,
     \<lparr>acc_modifiers = 9, acc_symbol = 0xff09\<rparr>]"
proof -
  let ?fn = "\<lambda>n. if n = lit ''Tab'' then 0xff09 else 0"
  let ?es = "[([(lit ''<Alt>'', 2), (lit ''<SHIFT>'', 4)], lit ''Tab''), ([], lit ''Tab''),
    ([(lit ''<Ctrl>'', 1), (lit ''<win>'', 8)], lit ''Tab'')]"
  have ok: "\<forall>e\<in>set ?es. entry_ok ?fn e"
    by (simp add: entry_ok_def name_ok_def documented_tag_def documented_tags_def)
      (simp add: lit_def is_white_space_def same_letter_def)
  have "comma_separated (map entry_text ?es) = lit ''<Alt><SHIFT>Tab,Tab,<Ctrl><win>Tab''"
    by (simp add: entry_text_def lit_def)
  with parse_accelerators_roundtrip [OF ok, of id] show ?thesis
    by (simp add: entry_accelerator_def)
qed

end
