(* ===== verification/Context_State.thy ===== *)
theory Context_State
  imports Render_Buffer Surface_State Text_Input_State Keyboard_Focus Accelerator
begin

text \<open>
  The connection state \<open>Context\<close> (\<^verbatim>\<open>sommelier/src/state.rs\<close>) that all handlers share, with the
  small records it stores.  Its fields keep their names and order.  The handles of the
  environment are left out: the GBM allocator, the VirtWayland channel and the join handles of
  the clipboard tasks.  \<open>pools\<close> holds shared pointers (\<open>Arc<PoolState>\<close>): addresses in a
  store of pools.
\<close>

record pending_param =
  pp_fd :: raw_fd
  pp_plane_idx :: u32
  pp_offset :: u32
  pp_stride :: u32
  pp_modifier_hi :: u32
  pp_modifier_lo :: u32

record pending_native_create =
  pn_guest_params_id :: u32
  pn_dimensions :: "i32 \<times> i32"
  pn_sync_fds :: "raw_fd list"

record dmabuf_capability_state =
  format_modifiers :: "(u32 \<times> u64) list"
  capability_ready :: bool

record gtk_shell_state =
  startup_id :: "rust_string option"
  shell_surfaces :: "u32 set"

record gtk_surface_state =
  gs_shell_id :: u32
  gs_wl_surface_id :: u32
  gs_host_zaura_surface_id :: "u32 option"

record host_global =
  hg_interface :: string
  hg_version :: u32

record pending_dmabuf_global =
  pg_registry_host_id :: u32
  pg_name :: u32
  pg_version :: u32
  pg_generation :: u64

record ctx =
  shadow_table :: shadow_table
  pools :: "(u32, nat) hmap"
  render_buffers :: render_registry
  pending_native_creates :: "host_id \<rightharpoonup> pending_native_create"
  orphaned_dmabuf_params :: "u32 \<rightharpoonup> u32"
  surfaces :: "(u32, surface_state) hmap"
  text_inputs :: "(u32, text_input_state) hmap"
  keyboard_to_seat :: "(u32, u32) hmap"
  kb_focus :: focus_registry
  last_sender_id :: u32
  client_to_host_queue :: "packet list"
  host_to_client_queue :: "packet list"
  fatal_protocol_error :: bool
  synthetic_keyboard_serial :: u32
  host_dmabuf_id :: "u32 option"
  host_dmabuf_global_name :: "u32 option"
  host_shm_id :: "u32 option"
  host_shm_global_name :: "u32 option"
  host_text_input_manager_v1_global_name :: "u32 option"
  host_text_input_extension_v1_global_name :: "u32 option"
  host_keyboard_extension_global_name :: "u32 option"
  host_zaura_shell_global_name :: "u32 option"
  host_shm_formats :: "u32 set"
  host_wl_shm_formats :: "u32 set"
  host_dmabuf_shm_formats :: "u32 set"
  shm_guest_formats :: "(u32, u32 set) hmap"
  stale_shm_guest_objects :: "u32 set"
  stale_shm_pools :: "u32 set"
  host_text_input_manager_v1_id :: "u32 option"
  host_text_input_extension_v1_id :: "u32 option"
  host_keyboard_extension_id :: "host_id option"
  keyboard_to_extended_keyboard :: "host_id \<rightharpoonup> host_id"
  extended_keyboard_to_keyboard :: "host_id \<rightharpoonup> host_id"
  key_generations :: key_registry
  keyboard_repeatable_keys :: "host_id \<rightharpoonup> u32 set"
  keyboard_keysym_to_keycode :: "host_id \<rightharpoonup> (u32 \<rightharpoonup> u32)"
  accelerators :: "accelerator list"
  supported_formats :: "u32 set"
  host_globals :: "u32 \<rightharpoonup> host_global"
  hidden_host_globals :: "u32 \<rightharpoonup> string"
  registry_global_names :: "(u32, u32 set) hmap"
  registry_global_removed :: "u32 \<rightharpoonup> u32 set"
  registry_global_generations :: "u32 \<rightharpoonup> (u32 \<rightharpoonup> u64)"
  registry_global_visibility :: "u32 \<rightharpoonup> (u32 \<rightharpoonup> bool)"
  global_generations :: "u32 \<rightharpoonup> u64"
  next_global_generation :: u64
  removed_host_globals :: "u32 set"
  pending_params :: "(u32, pending_param list) hmap"
  used_dmabuf_params :: "u32 set"
  feedback_index_maps :: "u32 \<rightharpoonup> (u16 \<rightharpoonup> u16)"
  synthetic_feedback_objects :: "(u32, u64) hmap"
  synthetic_feedback_refresh_pending :: "u32 set"
  dmabuf_capabilities :: "u64 \<rightharpoonup> dmabuf_capability_state"
  host_dmabuf_generation :: "u64 option"
  dmabuf_capability_callbacks :: "(u32, u64) hmap"
  gtk_shell_capability_callbacks :: "u32 \<rightharpoonup> u32"
  text_input_activation_barriers :: activation_barriers
  pending_dmabuf_globals :: "pending_dmabuf_global list"
  dmabuf_guest_generations :: "(u32, u64) hmap"
  gpu_accel :: bool
  xdg_decoration :: bool
  host_zaura_shell_id :: "u32 option"
  host_zaura_shell_version :: u32
  vm_identifier :: rust_string
  wl_surface_to_zaura_surface :: "u32 \<rightharpoonup> u32"
  gtk_shells :: "u32 \<rightharpoonup> gtk_shell_state"
  gtk_surfaces :: "(u32, gtk_surface_state) hmap"
  xdg_surface_to_wl_surface :: "(u32, u32) hmap"
  xdg_toplevel_to_wl_surface :: "(u32, u32) hmap"
  viewport_to_wl_surface :: "(u32, u32) hmap"

section \<open>A new context\<close>

text \<open>The bytes of an ASCII literal, as a Rust \<open>&str\<close>.\<close>

definition str_bytes :: "string \<Rightarrow> rust_string" where
  "str_bytes s = map of_char s"

definition resolve_vm_identifier :: "rust_string option \<Rightarrow> rust_string" where
  "resolve_vm_identifier v =
     (case v of Some i \<Rightarrow> if i = [] then str_bytes ''termina'' else i | None \<Rightarrow> str_bytes ''termina'')"

text \<open>A malformed \<open>SOMMELIER_ACCELERATORS\<close> disables the filter instead of stopping the proxy.\<close>

definition accelerators_of_env ::
    "(code_points \<Rightarrow> u32) \<Rightarrow> (u32 \<Rightarrow> u32) \<Rightarrow> code_points \<Rightarrow> accelerator list" where
  "accelerators_of_env from_name to_lower env =
     (case parse_accelerators from_name to_lower env of Inr l \<Rightarrow> l | Inl _ \<Rightarrow> [])"

definition context_new :: "bool \<Rightarrow> bool \<Rightarrow> accelerator list \<Rightarrow> rust_string option \<Rightarrow> ctx" where
  "context_new gpu xdg accs vm_env =
     \<lparr>shadow_table = shadow_table_new, pools = [], render_buffers = [],
      pending_native_creates = Map.empty, orphaned_dmabuf_params = Map.empty, surfaces = [],
      text_inputs = [], keyboard_to_seat = [], kb_focus = focus_registry_default,
      last_sender_id = 0, client_to_host_queue = [], host_to_client_queue = [],
      fatal_protocol_error = False, synthetic_keyboard_serial = 0, host_dmabuf_id = None,
      host_dmabuf_global_name = None, host_shm_id = None, host_shm_global_name = None,
      host_text_input_manager_v1_global_name = None,
      host_text_input_extension_v1_global_name = None,
      host_keyboard_extension_global_name = None, host_zaura_shell_global_name = None,
      host_shm_formats = {}, host_wl_shm_formats = {}, host_dmabuf_shm_formats = {},
      shm_guest_formats = [], stale_shm_guest_objects = {}, stale_shm_pools = {},
      host_text_input_manager_v1_id = None, host_text_input_extension_v1_id = None,
      host_keyboard_extension_id = None, keyboard_to_extended_keyboard = Map.empty,
      extended_keyboard_to_keyboard = Map.empty, key_generations = key_registry_default,
      keyboard_repeatable_keys = Map.empty, keyboard_keysym_to_keycode = Map.empty,
      accelerators = accs, supported_formats = {}, host_globals = Map.empty,
      hidden_host_globals = Map.empty, registry_global_names = [],
      registry_global_removed = Map.empty, registry_global_generations = Map.empty,
      registry_global_visibility = Map.empty, global_generations = Map.empty,
      next_global_generation = 1, removed_host_globals = {}, pending_params = [],
      used_dmabuf_params = {}, feedback_index_maps = Map.empty, synthetic_feedback_objects = [],
      synthetic_feedback_refresh_pending = {}, dmabuf_capabilities = Map.empty,
      host_dmabuf_generation = None, dmabuf_capability_callbacks = [],
      gtk_shell_capability_callbacks = Map.empty, text_input_activation_barriers = Map.empty,
      pending_dmabuf_globals = [], dmabuf_guest_generations = [], gpu_accel = gpu,
      xdg_decoration = xdg, host_zaura_shell_id = None, host_zaura_shell_version = 0,
      vm_identifier = resolve_vm_identifier vm_env, wl_surface_to_zaura_surface = Map.empty,
      gtk_shells = Map.empty, gtk_surfaces = [], xdg_surface_to_wl_surface = [],
      xdg_toplevel_to_wl_surface = [], viewport_to_wl_surface = []\<rparr>"

abbreviation context_empty :: ctx where
  "context_empty \<equiv> context_new False False [] None"

end
