(* ===== verification/Context_Buffers.thy ===== *)
theory Context_Buffers
  imports Context_State
begin

text \<open>
  The part of \<open>Context\<close> (\<^verbatim>\<open>sommelier/src/state.rs\<close>) that ties guest buffer IDs to the
  render-buffer registry: every lookup goes through the translation table to the host
  generation, and the queued host destructor applies the ID-ownership policy.  The
  destructor of \<open>Context\<close> closes the descriptors that never left its queues.
\<close>

text \<open>Run a registry operation on the context's registry.\<close>

definition with_registry ::
    "(render_registry \<Rightarrow> bool \<times> render_registry) \<Rightarrow> 'h ctx_scheme \<Rightarrow> bool \<times> 'h ctx_scheme" where
  "with_registry f c = (case f (render_buffers c) of (ok, r) \<Rightarrow> (ok, c\<lparr>render_buffers := r\<rparr>))"

section \<open>Buffer operations\<close>

definition render_buffer_host_id :: "'h ctx_scheme \<Rightarrow> u32 \<Rightarrow> host_id option" where
  "render_buffer_host_id c guest_buffer =
     (case get_host_id (shadow_table c) guest_buffer of
        Some h \<Rightarrow> if contains (render_buffers c) (HostId h) then Some (HostId h) else None
      | None \<Rightarrow> None)"

definition register_local_buffer ::
    "u32 \<Rightarrow> u32 \<Rightarrow> buffer_state \<Rightarrow> 'h ctx_scheme \<Rightarrow> (bool \<times> 'h ctx_scheme) option" where
  "register_local_buffer guest_buffer host_buffer backing c =
     (if get_host_id (shadow_table c) guest_buffer = Some host_buffer
      then Some (with_registry (register_local (HostId host_buffer) backing) c)
      else None)"

definition register_native_buffer ::
    "u32 \<Rightarrow> i32 \<times> i32 \<Rightarrow> raw_fd list \<Rightarrow> 'h ctx_scheme \<Rightarrow> bool \<times> 'h ctx_scheme" where
  "register_native_buffer host_buffer sz sync_fds =
     with_registry (register_native (HostId host_buffer) sz sync_fds)"

definition local_buffer :: "'h ctx_scheme \<Rightarrow> u32 \<Rightarrow> buffer_state option" where
  "local_buffer c guest_buffer =
     Option.bind (render_buffer_host_id c guest_buffer) (local_copy (render_buffers c))"

definition render_buffer_lifecycles :: "'h ctx_scheme \<Rightarrow> (host_id \<times> render_buffer_lifecycle) list" where
  "render_buffer_lifecycles c = lifecycles (render_buffers c)"

definition buffer_dimensions_for_host :: "'h ctx_scheme \<Rightarrow> host_id \<Rightarrow> (i32 \<times> i32) option" where
  "buffer_dimensions_for_host c h = dimensions (render_buffers c) h"

definition buffer_dimensions :: "'h ctx_scheme \<Rightarrow> u32 \<Rightarrow> (i32 \<times> i32) option" where
  "buffer_dimensions c guest_buffer =
     Option.bind (render_buffer_host_id c guest_buffer) (buffer_dimensions_for_host c)"

definition native_buffer_sync_fds :: "'h ctx_scheme \<Rightarrow> u32 \<Rightarrow> raw_fd list option" where
  "native_buffer_sync_fds c guest_buffer =
     Option.bind (render_buffer_host_id c guest_buffer) (native_sync_fds (render_buffers c))"

definition native_buffer_uses_implicit_sync :: "'h ctx_scheme \<Rightarrow> u32 \<Rightarrow> bool" where
  "native_buffer_uses_implicit_sync c guest_buffer =
     (case render_buffer_host_id c guest_buffer of
        Some h \<Rightarrow> uses_implicit_sync_fallback (render_buffers c) h
      | None \<Rightarrow> False)"

definition on_guest_buffer ::
    "(host_id \<Rightarrow> render_registry \<Rightarrow> bool \<times> render_registry) \<Rightarrow> u32 \<Rightarrow> 'h ctx_scheme \<Rightarrow> bool \<times> 'h ctx_scheme" where
  "on_guest_buffer f guest_buffer c =
     (case render_buffer_host_id c guest_buffer of
        None \<Rightarrow> (False, c)
      | Some h \<Rightarrow> with_registry (f h) c)"

definition enable_native_buffer_implicit_sync :: "u32 \<Rightarrow> 'h ctx_scheme \<Rightarrow> bool \<times> 'h ctx_scheme" where
  "enable_native_buffer_implicit_sync = on_guest_buffer enable_implicit_sync_fallback"

definition host_buffer_use :: "'h ctx_scheme \<Rightarrow> u32 \<Rightarrow> render_buffer_use option" where
  "host_buffer_use c guest_buffer =
     Option.bind (render_buffer_host_id c guest_buffer)
       (\<lambda>h. Option.bind (lifecycle (render_buffers c) h) use_state_of)"

definition mark_buffer_released :: "u32 \<Rightarrow> 'h ctx_scheme \<Rightarrow> bool \<times> 'h ctx_scheme" where
  "mark_buffer_released = on_guest_buffer release"

definition finish_surface_destroy_use :: "u32 \<Rightarrow> bool \<Rightarrow> 'h ctx_scheme \<Rightarrow> bool \<times> 'h ctx_scheme" where
  "finish_surface_destroy_use guest_buffer has_other_current =
     on_guest_buffer (\<lambda>h. end_last_surface_use h has_other_current) guest_buffer"

text \<open>The closure \<open>resolve\<close>: \<open>None\<close> when a named buffer has no live generation.\<close>

definition resolve_attachment :: "'h ctx_scheme \<Rightarrow> u32 option \<Rightarrow> host_id option option" where
  "resolve_attachment c guest_buffer =
     (case guest_buffer of
        Some g \<Rightarrow> map_option Some (render_buffer_host_id c g)
      | None \<Rightarrow> Some None)"

definition finalize_surface_attachment ::
    "u32 option \<Rightarrow> u32 option \<Rightarrow> 'h ctx_scheme \<Rightarrow> (bool \<times> 'h ctx_scheme) option" where
  "finalize_surface_attachment previous_guest next_guest c =
     (case resolve_attachment c previous_guest of
        None \<Rightarrow> Some (False, c)
      | Some p \<Rightarrow>
         (case resolve_attachment c next_guest of
            None \<Rightarrow> Some (False, c)
          | Some n \<Rightarrow>
              map_option (\<lambda>(ok, r). (ok, c\<lparr>render_buffers := r\<rparr>))
                (finalize_attachment p n (render_buffers c))))"

definition mark_buffer_guest_destroyed :: "u32 \<Rightarrow> 'h ctx_scheme \<Rightarrow> bool \<times> 'h ctx_scheme" where
  "mark_buffer_guest_destroyed = on_guest_buffer mark_guest_destroyed"

definition remove_render_buffer_host :: "u32 \<Rightarrow> 'h ctx_scheme \<Rightarrow> bool \<times> 'h ctx_scheme" where
  "remove_render_buffer_host host_buffer = with_registry (registry_remove (HostId host_buffer))"

definition complete_queued_buffer_destroy :: "u32 \<Rightarrow> host_id \<Rightarrow> 'h ctx_scheme \<Rightarrow> bool \<times> 'h ctx_scheme" where
  "complete_queued_buffer_destroy guest_buffer h c =
     (if get_host_id (shadow_table c) guest_buffer \<noteq> Some (host_raw h) then (False, c)
      else if is_guest_server_id guest_buffer then
        (case with_registry (registry_remove h) c of
           (removed, c1) \<Rightarrow>
             if \<not> removed then (False, c1)
             else (True, c1\<lparr>shadow_table := remove_id guest_buffer (shadow_table c1)\<rparr>))
      else if contains (render_buffers c) h then
        (case with_registry (mark_host_destroy_queued h) c of
           (queued, c1) \<Rightarrow>
             if \<not> queued then (False, c1)
             else (True, c1\<lparr>shadow_table := mark_pending_destroy guest_buffer (shadow_table c1)\<rparr>))
      else (True, c\<lparr>shadow_table := mark_pending_destroy guest_buffer (shadow_table c)\<rparr>))"

definition buffer_is_submitted :: "'h ctx_scheme \<Rightarrow> u32 \<Rightarrow> bool" where
  "buffer_is_submitted c guest_buffer =
     (case host_buffer_use c guest_buffer of Some u \<Rightarrow> is_awaiting_release u | None \<Rightarrow> False)"

definition buffer_is_released :: "'h ctx_scheme \<Rightarrow> u32 \<Rightarrow> bool" where
  "buffer_is_released c guest_buffer \<longleftrightarrow> host_buffer_use c guest_buffer = Some Released"

definition host_buffer_is_guest_destroyed :: "'h ctx_scheme \<Rightarrow> u32 \<Rightarrow> bool" where
  "host_buffer_is_guest_destroyed c host_buffer =
     (case lifecycle (render_buffers c) (HostId host_buffer) of
        Some l \<Rightarrow> is_guest_destroyed l
      | None \<Rightarrow> False)"

section \<open>Dropping the context\<close>

text \<open>
  The descriptors \<open>close\<close> is called on, in the order of the hash set's iteration, which is
  some order of the distinct ones.
\<close>

definition context_owned_fds :: "'h ctx_scheme \<Rightarrow> raw_fd list" where
  "context_owned_fds c =
     concat (map snd (client_to_host_queue c)) @ concat (map snd (host_to_client_queue c)) @
     concat (map (\<lambda>(_, params). map pp_fd params) (pending_params c))"

definition context_drop :: "'h ctx_scheme \<Rightarrow> raw_fd list" where
  "context_drop c = filter (\<lambda>fd. fd \<ge> 0) (remdups (context_owned_fds c))"

section \<open>Facts\<close>

lemma registry_remove_contains: "fst (registry_remove h r) \<longleftrightarrow> contains r h"
  by (simp add: registry_remove_def)

lemma contains_lifecycle: "contains r h \<longleftrightarrow> lifecycle r h \<noteq> None"
  by (simp add: contains_def lifecycle_def)

lemma remove_id_unmaps:
  "guest_to_host t g = Some h \<Longrightarrow> guest_to_host (remove_id g t) g = None \<and>
     host_to_guest (remove_id g t) h = None \<and> interfaces (remove_id g t) g = None"
  by (simp add: remove_id_def Let_def)

lemma complete_client_range:
  assumes "get_host_id (shadow_table c) g = Some (host_raw h)" "\<not> is_guest_server_id g"
  shows "complete_queued_buffer_destroy g h c =
    (if lifecycle (render_buffers c) h = Some HostDestroyQueued then (False, c)
     else (True, c\<lparr>shadow_table := mark_pending_destroy g (shadow_table c),
       render_buffers := (if contains (render_buffers c) h
         then hm_insert h RbHostDestroyQueued (render_buffers c) else render_buffers c)\<rparr>))"
  using assms
  by (auto simp: complete_queued_buffer_destroy_def with_registry_def mark_host_destroy_queued_def
      contains_def lifecycle_def lifecycle_of_def split: option.splits render_buffer.splits)

section \<open>Properties\<close>

text \<open>When the host destructor of a client-created buffer enters the outgoing stream, its
  storage is given up but both IDs stay reserved until \<open>delete_id\<close>; a second attempt for a
  registered generation is refused without effect.\<close>

theorem complete_client_buffer_destroy:
  assumes "get_host_id (shadow_table c) g = Some (host_raw h)" and "\<not> is_guest_server_id g"
    and "contains (render_buffers c) h"
  shows "case complete_queued_buffer_destroy g h c of (ok, c') \<Rightarrow>
      ok = (lifecycle (render_buffers c) h \<noteq> Some HostDestroyQueued) \<and> (ok \<or> c' = c) \<and>
      get_host_id (shadow_table c') g = Some (host_raw h) \<and>
      \<not> is_guest_id_available (shadow_table c') g \<and>
      (\<not> ok \<or> is_pending_destroy_guest (shadow_table c') g) \<and>
      get_active (render_buffers c') h = None \<and>
      lifecycle (render_buffers c') h = Some HostDestroyQueued \<and>
      complete_queued_buffer_destroy g h c' = (False, c')"
proof -
  let ?c = "c\<lparr>shadow_table := mark_pending_destroy g (shadow_table c),
       render_buffers := hm_insert h RbHostDestroyQueued (render_buffers c)\<rparr>"
  have t: "get_host_id (mark_pending_destroy g (shadow_table c)) g = Some (host_raw h)"
    using assms(1) by (simp add: get_host_id_def mark_pending_destroy_def)
  have "complete_queued_buffer_destroy g h ?c = (False, ?c)"
    using t assms(2) by (subst complete_client_range) (simp_all add: lifecycle_of_def)
  moreover have "get_active r h = None" if "lifecycle r h = Some HostDestroyQueued" for r
  proof -
    from that obtain rb where "hm_get r h = Some rb" "lifecycle_of rb = HostDestroyQueued"
      by (auto simp: lifecycle_def)
    then show ?thesis
      by (cases rb) (simp_all add: get_active_def active_def lifecycle_of_def)
  qed
  ultimately show ?thesis
    using assms t by (auto simp: complete_client_range lifecycle_of_def is_guest_id_available_def
        get_host_id_def is_pending_destroy_guest_def mark_pending_destroy_def)
qed

theorem complete_client_buffer_destroy_witness:
  "lifecycle (render_buffers (snd (complete_queued_buffer_destroy 5 (HostId 9)
     (context_empty\<lparr>shadow_table := map_id 5 9 shadow_table_new,
        render_buffers := snd (register_native (HostId 9) (4, 4) [] [])\<rparr>)))) (HostId 9) =
   Some HostDestroyQueued"
proof -
  let ?c = "context_empty\<lparr>shadow_table := map_id 5 9 shadow_table_new,
    render_buffers := snd (register_native (HostId 9) (4, 4) [] [])\<rparr>"
  have g: "get_host_id (shadow_table ?c) 5 = Some (host_raw (HostId 9))"
    by (simp add: get_host_id_def map_id_def shadow_table_new_def)
  have s: "\<not> is_guest_server_id 5"
    by (simp add: is_guest_server_id_def GUEST_SERVER_ID_START_def)
  have r: "contains (render_buffers ?c) (HostId 9)"
    by (simp add: contains_def register_native_def register_active_def)
  show ?thesis
    using complete_client_buffer_destroy [OF g s r]
    by (cases "complete_queued_buffer_destroy 5 (HostId 9) ?c") simp
qed

text \<open>For a server-created buffer the queued destructor is the last step of the
  generation: a success removes the storage and both directions of the mapping at once, a
  failure changes nothing.\<close>

theorem complete_server_buffer_destroy:
  assumes "is_guest_server_id g"
  shows "case complete_queued_buffer_destroy g h c of (ok, c') \<Rightarrow>
      ok = (get_host_id (shadow_table c) g = Some (host_raw h) \<and> contains (render_buffers c) h) \<and>
      (if ok then \<not> contains (render_buffers c') h \<and> get_host_id (shadow_table c') g = None \<and>
                  get_guest_id (shadow_table c') (host_raw h) = None \<and>
                  guest_server_id_free (shadow_table c') g
       else c' = c)"
  using assms remove_id_unmaps [of "shadow_table c" g "host_raw h"]
  by (auto simp: complete_queued_buffer_destroy_def with_registry_def registry_remove_def
      get_host_id_def get_guest_id_def contains_def guest_server_id_free_def is_guest_server_id_def)

theorem complete_server_buffer_destroy_witness:
  "fst (complete_queued_buffer_destroy 0xff000001 (HostId 9)
     (context_empty\<lparr>shadow_table := map_id 0xff000001 9 shadow_table_new,
        render_buffers := snd (register_native (HostId 9) (4, 4) [] [])\<rparr>))"
proof -
  let ?c = "context_empty\<lparr>shadow_table := map_id 0xff000001 9 shadow_table_new,
    render_buffers := snd (register_native (HostId 9) (4, 4) [] [])\<rparr>"
  have s: "is_guest_server_id 0xff000001"
    by (simp add: is_guest_server_id_def GUEST_SERVER_ID_START_def)
  have g: "get_host_id (shadow_table ?c) 0xff000001 = Some (host_raw (HostId 9))"
    by (simp add: get_host_id_def map_id_def shadow_table_new_def)
  have r: "contains (render_buffers ?c) (HostId 9)"
    by (simp add: contains_def register_native_def register_active_def)
  show ?thesis
    using complete_server_buffer_destroy [OF s, where h = "HostId 9" and c = ?c] g r
    by (auto split: prod.splits)
qed

text \<open>Dropping a context closes every descriptor still owned by its queues and pending
  dma-buf parameters exactly once, even when one was listed twice, and nothing else.\<close>

theorem context_drop_closes_once:
  "distinct (context_drop c) \<and>
   set (context_drop c) = {fd. 0 \<le> fd \<and>
     (\<exists>m fds. fd \<in> set fds \<and>
       ((m, fds) \<in> set (client_to_host_queue c) \<or> (m, fds) \<in> set (host_to_client_queue c)))} \<union>
     {fd. 0 \<le> fd \<and> (\<exists>i ps p. (i, ps) \<in> set (pending_params c) \<and> p \<in> set ps \<and> pp_fd p = fd)}"
  by (auto simp: context_drop_def context_owned_fds_def) force+

end
