(* ===== verification/Connection.thy ===== *)
theory Connection
  imports Wire
begin

text \<open>
  One end of the proxy (\<^verbatim>\<open>sommelier/src/connection.rs\<close>): the ordered buffers of received
  bytes and descriptors, the decoder of the \<open>SCM_RIGHTS\<close> control buffer, the readiness test
  of the run loop and the send loop.  The kernel is the environment: what a receive or a
  \<open>sendmsg\<close> returns is an argument.  A \<open>close\<close> is recorded in the order it happens.
\<close>

section \<open>Closing received descriptors\<close>

fun close_received_loop :: "raw_fd set \<Rightarrow> raw_fd list \<Rightarrow> raw_fd list" where
  "close_received_loop unique_fds [] = []"
| "close_received_loop unique_fds (fd # fds) =
     (if fd \<ge> 0 \<and> fd \<notin> unique_fds then fd # close_received_loop (insert fd unique_fds) fds
      else close_received_loop unique_fds fds)"

definition close_received_fds :: "raw_fd list \<Rightarrow> raw_fd list" where
  "close_received_fds fds = close_received_loop {} fds"

lemma set_close_received_loop: "set (close_received_loop s fds) = {fd \<in> set fds. 0 \<le> fd} - s"
  by (induction s fds rule: close_received_loop.induct) auto

lemma distinct_close_received_loop: "distinct (close_received_loop s fds)"
  by (induction s fds rule: close_received_loop.induct) (auto simp: set_close_received_loop)

lemma set_close_received_fds [simp]: "set (close_received_fds fds) = {fd \<in> set fds. 0 \<le> fd}"
  by (simp add: close_received_fds_def set_close_received_loop)

lemma distinct_close_received_fds [simp]: "distinct (close_received_fds fds)"
  by (simp add: close_received_fds_def distinct_close_received_loop)

section \<open>The control buffer of a received message\<close>

text \<open>
  \<open>mh_control\<close> is the address of the buffer (0 is the null pointer), \<open>mh_bytes\<close> the bytes the
  kernel left in it, so that \<open>msg_controllen\<close> is their number.  The layout is that of a 64-bit
  glibc target: \<open>cmsg_len\<close> is a \<open>size_t\<close>, level and type are 32-bit integers.
\<close>

record msghdr =
  mh_control :: nat
  mh_bytes :: "u8 list"
  mh_flags :: u32

datatype control_error =
    ControlAddressOverflow
  | HeaderOutsideBuffer
  | TruncatedHeader
  | InvalidControlLength
  | PayloadNotFdAligned
  | PayloadAddressOverflow
  | PayloadEndOverflow
  | MessageEndOverflow
  | PayloadExceedsMessage
  | AlignmentOverflow
  | ChainOverflow
  | TruncatedAncillary

definition SOL_SOCKET :: i32 where "SOL_SOCKET = 1"
definition SCM_RIGHTS :: i32 where "SCM_RIGHTS = 1"
definition MSG_CTRUNC :: u32 where "MSG_CTRUNC = 8"

definition header_size :: nat where "header_size = 16"
definition word_align :: nat where "word_align = 8"
definition raw_fd_size :: nat where "raw_fd_size = 4"

text \<open>
  A read through a raw pointer: \<open>None\<close> when it touches a byte outside the control buffer,
  which would be undefined behaviour.
\<close>

definition peek_bytes :: "msghdr \<Rightarrow> nat \<Rightarrow> nat \<Rightarrow> u8 list option" where
  "peek_bytes m addr n =
     (if mh_control m \<le> addr \<and> addr + n \<le> mh_control m + length (mh_bytes m)
      then Some (take n (drop (addr - mh_control m) (mh_bytes m))) else None)"

fun nat_of_ne_bytes :: "u8 list \<Rightarrow> nat" where
  "nat_of_ne_bytes [] = 0"
| "nat_of_ne_bytes (b # bs) = unat b + 256 * nat_of_ne_bytes bs"

definition peek_usize :: "msghdr \<Rightarrow> nat \<Rightarrow> nat option" where
  "peek_usize m addr = map_option nat_of_ne_bytes (peek_bytes m addr 8)"

definition peek_i32 :: "msghdr \<Rightarrow> nat \<Rightarrow> i32 option" where
  "peek_i32 m addr = map_option (\<lambda>bs. as_i32 (u32_from_ne_bytes bs)) (peek_bytes m addr 4)"

fun peek_fds :: "msghdr \<Rightarrow> nat \<Rightarrow> nat \<Rightarrow> raw_fd list option" where
  "peek_fds m addr 0 = Some []"
| "peek_fds m addr (Suc n) =
     (case peek_i32 m addr of
        None \<Rightarrow> None
      | Some fd \<Rightarrow> map_option ((#) fd) (peek_fds m (addr + raw_fd_size) n))"

text \<open>An error carries the descriptors that were closed before it was returned.\<close>

type_synonym decode_result = "control_error \<times> raw_fd list + raw_fd list"

definition reject_control :: "control_error \<Rightarrow> raw_fd list \<Rightarrow> decode_result" where
  "reject_control e fds = Inl (e, close_received_fds fds)"

definition rights_payload :: "msghdr \<Rightarrow> nat \<Rightarrow> nat \<Rightarrow> raw_fd list \<Rightarrow> decode_result option" where
  "rights_payload m current cmsg_len fds =
     (let payload_len = cmsg_len - header_size
      in if payload_len mod raw_fd_size \<noteq> 0 then Some (reject_control PayloadNotFdAligned fds)
         else case usize_checked_add current header_size of
           None \<Rightarrow> Some (reject_control PayloadAddressOverflow fds)
         | Some data_addr \<Rightarrow>
            (case usize_checked_add data_addr payload_len of
               None \<Rightarrow> Some (reject_control PayloadEndOverflow fds)
             | Some data_end \<Rightarrow>
                (case usize_checked_add current cmsg_len of
                   None \<Rightarrow> Some (reject_control MessageEndOverflow fds)
                 | Some message_end \<Rightarrow>
                     if data_end > message_end then Some (reject_control PayloadExceedsMessage fds)
                     else map_option (\<lambda>new. Inr (fds @ new))
                            (peek_fds m data_addr (payload_len div raw_fd_size)))))"

definition align_up8 :: "nat \<Rightarrow> nat option" where
  "align_up8 n = map_option (\<lambda>l. l div word_align * word_align) (usize_checked_add n (word_align - 1))"

text \<open>One control message: \<open>Inr (fds, next)\<close> with the address of the next header, if any.\<close>

definition control_message ::
    "msghdr \<Rightarrow> nat \<Rightarrow> raw_fd list \<Rightarrow> (control_error \<times> raw_fd list + raw_fd list \<times> nat option) option" where
  "control_message m current fds =
     (let control_start = mh_control m;
          control_len = length (mh_bytes m);
          control_end = control_start + control_len
      in if current < control_start then Some (Inl (HeaderOutsideBuffer, close_received_fds fds))
         else if current - control_start > control_len \<or>
                 control_len - (current - control_start) < header_size
         then Some (Inl (TruncatedHeader, close_received_fds fds))
         else case peek_usize m current of
           None \<Rightarrow> None
         | Some cmsg_len \<Rightarrow>
             if cmsg_len < header_size \<or> cmsg_len > control_end - current
             then Some (Inl (InvalidControlLength, close_received_fds fds))
             else
               (case peek_i32 m (current + 8) of
                  None \<Rightarrow> None
                | Some level \<Rightarrow>
                   (case peek_i32 m (current + 12) of
                      None \<Rightarrow> None
                    | Some ty \<Rightarrow>
                       (case (if level = SOL_SOCKET \<and> ty = SCM_RIGHTS
                              then rights_payload m current cmsg_len fds else Some (Inr fds)) of
                          None \<Rightarrow> None
                        | Some (Inl e) \<Rightarrow> Some (Inl e)
                        | Some (Inr fds') \<Rightarrow>
                           (case align_up8 cmsg_len of
                              None \<Rightarrow> Some (Inl (AlignmentOverflow, close_received_fds fds'))
                            | Some aligned_len \<Rightarrow>
                               (case usize_checked_add current aligned_len of
                                  None \<Rightarrow> Some (Inl (ChainOverflow, close_received_fds fds'))
                                | Some next_addr \<Rightarrow>
                                    if next_addr \<ge> control_end \<or> control_end - next_addr < header_size
                                    then Some (Inr (fds', None))
                                    else Some (Inr (fds', Some next_addr))))))))"

text \<open>
  The loop over the headers.  Its fuel is the number of headers that fit in the buffer; a
  header is at least 16 bytes long, so it is never used up (\<open>decode_in_bounds\<close>).
\<close>

fun decode_control_loop :: "nat \<Rightarrow> msghdr \<Rightarrow> nat \<Rightarrow> raw_fd list \<Rightarrow> decode_result option" where
  "decode_control_loop 0 m current fds = None"
| "decode_control_loop (Suc n) m current fds =
     (case control_message m current fds of
        None \<Rightarrow> None
      | Some (Inl e) \<Rightarrow> Some (Inl e)
      | Some (Inr (fds', None)) \<Rightarrow> Some (Inr fds')
      | Some (Inr (fds', Some next_addr)) \<Rightarrow> decode_control_loop n m next_addr fds')"

definition decode_unix_control_fds :: "msghdr \<Rightarrow> decode_result option" where
  "decode_unix_control_fds m =
     (case usize_checked_add (mh_control m) (length (mh_bytes m)) of
        None \<Rightarrow> Some (Inl (ControlAddressOverflow, []))
      | Some _ \<Rightarrow>
         (case (if length (mh_bytes m) \<ge> header_size \<and> mh_control m \<noteq> 0
                then decode_control_loop (length (mh_bytes m) div header_size) m (mh_control m) []
                else Some (Inr [])) of
            None \<Rightarrow> None
          | Some (Inl e) \<Rightarrow> Some (Inl e)
          | Some (Inr fds) \<Rightarrow>
              if mh_flags m AND MSG_CTRUNC \<noteq> 0 then Some (reject_control TruncatedAncillary fds)
              else Some (Inr fds)))"

lemma peek_bytes_in:
  "mh_control m \<le> addr \<Longrightarrow> addr + n \<le> mh_control m + length (mh_bytes m) \<Longrightarrow>
     \<exists>bs. peek_bytes m addr n = Some bs"
  by (simp add: peek_bytes_def)

lemma peek_usize_in:
  "mh_control m \<le> addr \<Longrightarrow> addr + 8 \<le> mh_control m + length (mh_bytes m) \<Longrightarrow>
     peek_usize m addr \<noteq> None"
  using peek_bytes_in [of m addr 8] by (auto simp: peek_usize_def)

lemma peek_i32_in:
  "mh_control m \<le> addr \<Longrightarrow> addr + 4 \<le> mh_control m + length (mh_bytes m) \<Longrightarrow>
     peek_i32 m addr \<noteq> None"
  using peek_bytes_in [of m addr 4] by (auto simp: peek_i32_def)

lemma peek_fds_in:
  "mh_control m \<le> addr \<Longrightarrow> addr + 4 * n \<le> mh_control m + length (mh_bytes m) \<Longrightarrow>
     peek_fds m addr n \<noteq> None"
proof (induction n arbitrary: addr)
  case (Suc n)
  then have "peek_i32 m addr \<noteq> None" "peek_fds m (addr + raw_fd_size) n \<noteq> None"
    by (intro peek_i32_in Suc.IH; simp add: raw_fd_size_def)+
  then show ?case
    by auto
qed simp

definition header_in :: "msghdr \<Rightarrow> nat \<Rightarrow> bool" where
  "header_in m current \<longleftrightarrow>
     mh_control m \<le> current \<and> current + header_size \<le> mh_control m + length (mh_bytes m)"

lemma rights_payload_in:
  assumes "header_in m current" "header_size \<le> l" "l \<le> mh_control m + length (mh_bytes m) - current"
  shows "rights_payload m current l fds \<noteq> None"
proof -
  have "peek_fds m (current + header_size) ((l - header_size) div raw_fd_size) \<noteq> None"
    using assms by (intro peek_fds_in) (auto simp: header_in_def raw_fd_size_def)
  then show ?thesis
    by (auto simp: rights_payload_def Let_def split: option.splits dest!: usize_checked_add_SomeD)
qed

lemma align_up8_ge: "align_up8 n = Some k \<Longrightarrow> n \<le> k"
  by (auto simp: align_up8_def word_align_def dest!: usize_checked_add_SomeD)

lemma control_message_in:
  assumes h: "header_in m current"
  shows "control_message m current fds \<noteq> None"
proof -
  have "peek_usize m current \<noteq> None" "peek_i32 m (current + 8) \<noteq> None"
    "peek_i32 m (current + 12) \<noteq> None"
    using h by (intro peek_usize_in peek_i32_in; simp add: header_in_def header_size_def)+
  moreover have "l < header_size \<or> mh_control m + length (mh_bytes m) - current < l"
    if "rights_payload m current l fds = None" for l
    using rights_payload_in [OF h, of l fds] that by (meson not_less)
  ultimately show ?thesis
    by (auto simp: control_message_def Let_def split: option.splits sum.splits if_splits)
qed

lemma control_message_next:
  assumes "header_in m current" "control_message m current fds = Some (Inr (fds', Some nx))"
  shows "header_in m nx \<and> current + header_size \<le> nx"
  using assms
  by (auto simp: control_message_def Let_def header_in_def split: option.splits sum.splits if_splits
      dest!: align_up8_ge usize_checked_add_SomeD)

lemma decode_control_loop_in:
  "header_in m current \<Longrightarrow>
   (mh_control m + length (mh_bytes m) - current) div header_size \<le> n \<Longrightarrow>
     decode_control_loop n m current fds \<noteq> None"
proof (induction n arbitrary: current fds)
  case 0
  then show ?case
    by (auto simp: header_in_def header_size_def)
next
  case (Suc n)
  obtain r where r: "control_message m current fds = Some r"
    using control_message_in [OF Suc.prems(1)] by blast
  have "decode_control_loop n m nx fds' \<noteq> None" if "r = Inr (fds', Some nx)" for fds' nx
  proof (rule Suc.IH)
    have nx: "header_in m nx" "current + header_size \<le> nx"
      using control_message_next [OF Suc.prems(1)] r that by simp_all
    then show "header_in m nx" by simp
    have "(mh_control m + length (mh_bytes m) - nx) div header_size
        \<le> (mh_control m + length (mh_bytes m) - current - header_size) div header_size"
      using nx by (intro div_le_mono) simp
    also have "\<dots> \<le> n"
      using Suc.prems by (simp add: header_in_def header_size_def)
    finally show "(mh_control m + length (mh_bytes m) - nx) div header_size \<le> n" .
  qed
  then show ?case
    by (auto simp: r split: sum.splits option.splits)
qed

section \<open>Control buffers as the kernel fills them\<close>

text \<open>
  A control message is either a batch of descriptors or another kind (credentials, time
  stamps).  Each starts aligned; behind the last one fewer bytes are left than its padding and
  another header need, which covers a buffer the kernel cut short.
\<close>

datatype control_msg = Rights "raw_fd list" | OtherControl i32 i32 "u8 list"

fun nat_to_ne_bytes :: "nat \<Rightarrow> nat \<Rightarrow> u8 list" where
  "nat_to_ne_bytes 0 n = []"
| "nat_to_ne_bytes (Suc k) n = of_nat n # nat_to_ne_bytes k (n div 256)"

lemma length_nat_to_ne_bytes [simp]: "length (nat_to_ne_bytes k n) = k"
  by (induction k arbitrary: n) auto

lemma nat_bytes_roundtrip: "nat_of_ne_bytes (nat_to_ne_bytes k n) = n mod 256 ^ k"
proof (induction k arbitrary: n)
  case (Suc k)
  have "n mod (256 * 256 ^ k) = 256 * (n div 256 mod 256 ^ k) + n mod 256"
    by (rule mod_mult2_eq)
  then show ?case
    by (simp add: Suc unat_of_nat take_bit_eq_mod)
qed simp

fun control_ok :: "control_msg \<Rightarrow> bool" where
  "control_ok (Rights fds) = list_all in_i32 fds"
| "control_ok (OtherControl level ty payload) =
     (in_i32 level \<and> in_i32 ty \<and> \<not> (level = SOL_SOCKET \<and> ty = SCM_RIGHTS))"

fun control_level :: "control_msg \<Rightarrow> i32" where
  "control_level (Rights fds) = SOL_SOCKET"
| "control_level (OtherControl level ty payload) = level"

fun control_type :: "control_msg \<Rightarrow> i32" where
  "control_type (Rights fds) = SCM_RIGHTS"
| "control_type (OtherControl level ty payload) = ty"

fun control_payload :: "control_msg \<Rightarrow> u8 list" where
  "control_payload (Rights fds) = concat (map i32_bytes fds)"
| "control_payload (OtherControl level ty payload) = payload"

fun control_fds :: "control_msg \<Rightarrow> raw_fd list" where
  "control_fds (Rights fds) = fds"
| "control_fds (OtherControl level ty payload) = []"

definition control_len :: "control_msg \<Rightarrow> nat" where
  "control_len c = header_size + length (control_payload c)"

definition control_body :: "control_msg \<Rightarrow> u8 list" where
  "control_body c = nat_to_ne_bytes 8 (control_len c) @ u32_to_ne_bytes (as_u32 (control_level c)) @
     u32_to_ne_bytes (as_u32 (control_type c)) @ control_payload c"

definition control_space :: "control_msg \<Rightarrow> nat" where
  "control_space c = (control_len c + 7) div 8 * 8"

definition control_bytes :: "control_msg \<Rightarrow> u8 list" where
  "control_bytes c = control_body c @ replicate (control_space c - control_len c) 0"

lemma length_control_body [simp]: "length (control_body c) = control_len c"
  by (simp add: control_body_def control_len_def header_size_def)

lemma control_space_bounds: "control_len c \<le> control_space c \<and> control_space c < control_len c + 8"
  unfolding control_space_def by presburger

lemma length_control_bytes [simp]: "length (control_bytes c) = control_space c"
  using control_space_bounds [of c] by (simp add: control_bytes_def)

lemma control_level_type:
  "control_ok c \<Longrightarrow> in_i32 (control_level c) \<and> in_i32 (control_type c)"
  by (cases c) (auto simp: in_i32_def SOL_SOCKET_def SCM_RIGHTS_def)

lemma peek_bytes_at:
  assumes "mh_bytes m = pre @ xs @ post" "addr = mh_control m + length pre" "n = length xs"
  shows "peek_bytes m addr n = Some xs"
  using assms by (simp add: peek_bytes_def)

lemma peek_i32_at:
  assumes "mh_bytes m = pre @ u32_to_ne_bytes (as_u32 v) @ post"
    and "addr = mh_control m + length pre" and "in_i32 v"
  shows "peek_i32 m addr = Some v"
  using peek_bytes_at [OF assms(1,2), of 4] assms(3) by (simp add: peek_i32_def)

lemma peek_fds_at:
  "list_all in_i32 fds \<Longrightarrow> mh_bytes m = pre @ concat (map i32_bytes fds) @ post \<Longrightarrow>
     addr = mh_control m + length pre \<Longrightarrow> peek_fds m addr (length fds) = Some fds"
proof (induction fds arbitrary: pre addr)
  case (Cons fd fds)
  have "peek_i32 m addr = Some fd"
    using Cons.prems by (intro peek_i32_at) (auto simp: i32_bytes_def)
  moreover have "peek_fds m (addr + raw_fd_size) (length fds) = Some fds"
    using Cons.prems by (intro Cons.IH [of "pre @ i32_bytes fd"]) (auto simp: i32_bytes_def raw_fd_size_def)
  ultimately show ?case
    by simp
qed simp

lemma length_fd_bytes [simp]: "length (concat (map i32_bytes fds)) = 4 * length fds"
  by (induction fds) (auto simp: i32_bytes_def)

text \<open>The address arithmetic on a buffer that ends below the top of the address space.\<close>

definition control_fits :: "msghdr \<Rightarrow> bool" where
  "control_fits m \<longleftrightarrow> mh_control m + length (mh_bytes m) + 2 * header_size < usize_limit"

lemma rights_payload_at:
  assumes fits: "control_fits m" and bytes: "mh_bytes m = pre @ control_body (Rights new) @ post"
    and cur: "current = mh_control m + length pre" and ok: "list_all in_i32 new"
  shows "rights_payload m current (control_len (Rights new)) fds = Some (Inr (fds @ new))"
proof -
  let ?l = "control_len (Rights new)"
  have l: "?l = header_size + 4 * length new"
    by (simp add: control_len_def)
  have "length (mh_bytes m) = length pre + ?l + length post"
    by (simp add: bytes)
  then have "current + ?l < usize_limit"
    using fits by (simp add: control_fits_def cur)
  then have "usize_checked_add current header_size = Some (current + header_size)"
    "usize_checked_add (current + header_size) (4 * length new) = Some (current + ?l)"
    "usize_checked_add current ?l = Some (current + ?l)"
    by (simp_all add: l)
  moreover have "peek_fds m (current + header_size) (length new) = Some new"
    using bytes ok cur
    by (intro peek_fds_at [where pre = "pre @ nat_to_ne_bytes 8 ?l @ u32_to_ne_bytes (as_u32 SOL_SOCKET)
          @ u32_to_ne_bytes (as_u32 SCM_RIGHTS)" and post = post])
      (simp_all add: control_body_def header_size_def)
  ultimately show ?thesis
    by (simp add: rights_payload_def l raw_fd_size_def)
qed

lemma control_message_at:
  assumes fits: "control_fits m" and bytes: "mh_bytes m = pre @ control_body c @ post"
    and cur: "current = mh_control m + length pre" and ok: "control_ok c"
  shows "control_message m current fds =
    Some (Inr (fds @ control_fds c,
      if length post < control_space c - control_len c + header_size then None
      else Some (current + control_space c)))"
proof -
  let ?l = "control_len c"
  have len: "length (mh_bytes m) = length pre + ?l + length post"
    by (simp add: bytes)
  have l16: "header_size \<le> ?l"
    by (simp add: control_len_def)
  have l_lim: "?l < 2 ^ 64" "?l + 7 < usize_limit" "current + control_space c < usize_limit"
    using fits len control_space_bounds [of c] unfolding cur
    by (simp_all add: control_fits_def usize_limit_def header_size_def)
  have "peek_bytes m current 8 = Some (nat_to_ne_bytes 8 ?l)"
    using bytes cur by (intro peek_bytes_at) (simp_all add: control_body_def)
  with l_lim(1) have size: "peek_usize m current = Some ?l"
    by (simp add: peek_usize_def nat_bytes_roundtrip)
  have level: "peek_i32 m (current + 8) = Some (control_level c)"
    using bytes cur control_level_type [OF ok]
    by (intro peek_i32_at [where pre = "pre @ nat_to_ne_bytes 8 ?l"]) (simp_all add: control_body_def)
  have ty: "peek_i32 m (current + 12) = Some (control_type c)"
    using bytes cur control_level_type [OF ok]
    by (intro peek_i32_at [where pre = "pre @ nat_to_ne_bytes 8 ?l @ u32_to_ne_bytes (as_u32 (control_level c))"])
      (simp_all add: control_body_def)
  have payload: "(if control_level c = SOL_SOCKET \<and> control_type c = SCM_RIGHTS
      then rights_payload m current ?l fds else Some (Inr fds)) = Some (Inr (fds @ control_fds c))"
  proof (cases c)
    case (Rights new)
    then show ?thesis
      using rights_payload_at [OF fits _ cur, of new post fds] bytes ok by simp
  next
    case (OtherControl level ty payload)
    then show ?thesis
      using ok by auto
  qed
  have align: "align_up8 ?l = Some (control_space c)"
    using l_lim(2) by (simp add: align_up8_def word_align_def control_space_def)
  have add: "usize_checked_add current (control_space c) = Some (current + control_space c)"
    using l_lim(3) by simp
  have "0 < header_size"
    by (simp add: header_size_def)
  then show ?thesis
    using len l16 control_space_bounds [of c]
    by (auto simp: control_message_def Let_def payload [unfolded cur] align cur
        size [unfolded cur] level [unfolded cur] ty [unfolded cur] add [unfolded cur])
qed

lemma decode_control_loop_at:
  assumes fits: "control_fits m" and last: "control_ok c"
    and rest: "length rest < control_space c - control_len c + header_size"
  shows "list_all control_ok cs \<Longrightarrow> length cs < n \<Longrightarrow>
    mh_bytes m = pre @ concat (map control_bytes cs) @ control_body c @ rest \<Longrightarrow>
    current = mh_control m + length pre \<Longrightarrow>
    decode_control_loop n m current fds = Some (Inr (fds @ concat (map control_fds (cs @ [c]))))"
proof (induction cs arbitrary: n pre current fds)
  case Nil
  then obtain k where "n = Suc k"
    by (cases n) auto
  with control_message_at [OF fits, of pre c rest current fds] Nil last rest show ?case
    by simp
next
  case (Cons d ds)
  then obtain k where k: "n = Suc k"
    by (cases n) auto
  let ?pad = "replicate (control_space d - control_len d) 0"
  let ?post = "?pad @ concat (map control_bytes ds) @ control_body c @ rest"
  have "length ?post \<ge> control_space d - control_len d + header_size"
    by (simp add: control_len_def)
  moreover have "mh_bytes m = pre @ control_body d @ ?post"
    using Cons.prems by (simp add: control_bytes_def [of d])
  ultimately have "control_message m current fds =
      Some (Inr (fds @ control_fds d, Some (current + control_space d)))"
    using control_message_at [OF fits, of pre d ?post current fds] Cons.prems(1,4) by simp
  moreover have "decode_control_loop k m (current + control_space d) (fds @ control_fds d)
      = Some (Inr ((fds @ control_fds d) @ concat (map control_fds (ds @ [c]))))"
    using Cons.prems k by (intro Cons.IH [of k "pre @ control_bytes d"]) simp_all
  ultimately show ?case
    by (simp add: k)
qed

lemma sum_spaces: "header_size * length cs \<le> length (concat (map control_bytes cs))"
proof (induction cs)
  case (Cons c cs)
  then show ?case
    using control_space_bounds [of c] by (simp add: control_len_def)
qed simp

lemma decode_control_at:
  assumes fits: "control_fits m" and "mh_control m \<noteq> 0" and ok: "list_all control_ok (cs @ [c])"
    and bytes: "mh_bytes m = concat (map control_bytes cs) @ control_body c @ rest"
    and rest: "length rest < control_space c - control_len c + header_size"
  shows "decode_unix_control_fds m =
    (let fds = concat (map control_fds (cs @ [c]))
     in if mh_flags m AND MSG_CTRUNC \<noteq> 0 then Some (Inl (TruncatedAncillary, close_received_fds fds))
        else Some (Inr fds))"
proof -
  have len: "header_size * Suc (length cs) \<le> length (mh_bytes m)"
    using sum_spaces [of cs] by (simp add: bytes control_len_def)
  then have "length cs < length (mh_bytes m) div header_size"
    using div_le_mono [OF len, of header_size] by (simp add: header_size_def)
  then have "decode_control_loop (length (mh_bytes m) div header_size) m (mh_control m) []
      = Some (Inr ([] @ concat (map control_fds (cs @ [c]))))"
    using ok bytes by (intro decode_control_loop_at [OF fits _ rest, where pre = "[]"]) simp_all
  moreover have "usize_checked_add (mh_control m) (length (mh_bytes m)) \<noteq> None"
    using fits by (simp add: control_fits_def)
  moreover have "header_size \<le> length (mh_bytes m)"
    using len by (simp add: header_size_def)
  ultimately show ?thesis
    using assms(2) by (auto simp: decode_unix_control_fds_def reject_control_def Let_def)
qed

section \<open>The connection\<close>

record connection =
  read_buf :: "u8 list"
  read_fds :: "raw_fd list"
  ambiguous_untracked_fd :: bool

definition connection_new :: connection where
  "connection_new = \<lparr>read_buf = [], read_fds = [], ambiguous_untracked_fd = False\<rparr>"

text \<open>
  The result of one receive on either transport.  On a Unix socket it is \<open>recvmsg\<close> followed by
  the decoder above; the descriptors a rejected control buffer carried are closed.
\<close>

datatype transport_result = Received "u8 list" "raw_fd list" | NoData | ReceiveFailed

datatype recvmsg_outcome = MessageReceived "u8 list" msghdr | RecvWouldBlock | RecvError

definition recv_unix_message :: "recvmsg_outcome \<Rightarrow> (transport_result \<times> raw_fd list) option" where
  "recv_unix_message r =
     (case r of
        RecvError \<Rightarrow> Some (ReceiveFailed, [])
      | RecvWouldBlock \<Rightarrow> Some (NoData, [])
      | MessageReceived bytes m \<Rightarrow>
         (case decode_unix_control_fds m of
            None \<Rightarrow> None
          | Some (Inl (_, closed)) \<Rightarrow> Some (ReceiveFailed, closed)
          | Some (Inr fds) \<Rightarrow> Some (Received bytes fds, [])))"

definition append_received :: "u8 list \<Rightarrow> raw_fd list \<Rightarrow> connection \<Rightarrow> connection" where
  "append_received bytes fds conn =
     conn\<lparr>read_buf := read_buf conn @ bytes, read_fds := read_fds conn @ fds\<rparr>"

text \<open>\<open>Inr None\<close>: the non-blocking transport has no data; \<open>Inl ()\<close>: an I/O error.\<close>

definition try_recv :: "transport_result \<Rightarrow> connection \<Rightarrow> (unit + nat option) \<times> connection" where
  "try_recv r conn =
     (case r of
        Received bytes fds \<Rightarrow> (Inr (Some (length bytes)), append_received bytes fds conn)
      | NoData \<Rightarrow> (Inr None, conn)
      | ReceiveFailed \<Rightarrow> (Inl (), conn))"

text \<open>\<open>recv\<close> retries while the transport would block; \<open>None\<close> while it is still waiting.\<close>

fun recv :: "transport_result list \<Rightarrow> connection \<Rightarrow> (unit + nat) option \<times> connection" where
  "recv [] conn = (None, conn)"
| "recv (Received bytes fds # rs) conn = (Some (Inr (length bytes)), append_received bytes fds conn)"
| "recv (NoData # rs) conn = recv rs conn"
| "recv (ReceiveFailed # rs) conn = (Some (Inl ()), conn)"

definition has_complete_message :: "connection \<Rightarrow> bool" where
  "has_complete_message conn =
     (if length (read_buf conn) < 8 then False
      else
        let len = unat (u16_from_ne_bytes (read_buf conn ! 4) (read_buf conn ! 5))
        in len < 8 \<or> len mod 4 \<noteq> 0 \<or> len \<le> length (read_buf conn))"

text \<open>\<open>Drop\<close> for the connection: the descriptors it closes.\<close>

definition connection_drop :: "connection \<Rightarrow> raw_fd list" where
  "connection_drop conn = close_received_fds (read_fds conn)"

section \<open>The send loop\<close>

datatype sendmsg_outcome = Sent nat | SendWouldBlock | SendError

datatype send_error = WriteZero | SendIoError

text \<open>
  The loop of \<open>send\<close> on a Unix socket, driven by what each \<open>sendmsg\<close> returns; the second
  component is what the kernel accepted, submission by submission.  \<open>None\<close>: still waiting.
\<close>

fun send_loop ::
    "u8 list \<Rightarrow> sendmsg_outcome list \<Rightarrow> nat \<Rightarrow> raw_fd list \<Rightarrow> (send_error + unit) option \<times> packet list" where
  "send_loop data outcomes data_offset fds_to_send =
     (if \<not> (data_offset < length data \<or> fds_to_send \<noteq> []) then (Some (Inr ()), [])
      else case outcomes of
        [] \<Rightarrow> (None, [])
      | Sent n # rest \<Rightarrow>
          let remaining_data = drop data_offset data;
              accepted = (take n remaining_data, fds_to_send)
          in if n = 0 \<and> remaining_data \<noteq> [] then (Some (Inl WriteZero), [accepted])
             else (case send_loop data rest (data_offset + n) [] of
                     (r, sent) \<Rightarrow> (r, accepted # sent))
      | SendError # rest \<Rightarrow> (Some (Inl SendIoError), [])
      | SendWouldBlock # rest \<Rightarrow> send_loop data rest data_offset fds_to_send)"

declare send_loop.simps [simp del]

definition unix_send ::
    "sendmsg_outcome list \<Rightarrow> u8 list \<Rightarrow> raw_fd list \<Rightarrow> (send_error + unit) option \<times> packet list" where
  "unix_send outcomes data fds =
     (if data = [] \<and> fds = [] then (Some (Inr ()), []) else send_loop data outcomes 0 fds)"

lemma send_loop_delivers:
  "case send_loop data outcomes off fds of (r, sent) \<Rightarrow>
     (\<exists>unsent. concat (map fst sent) @ unsent = drop off data \<and>
        (r = Some (Inr ()) \<longleftrightarrow> unsent = [] \<and> (sent = [] \<longrightarrow> fds = []))) \<and>
     map snd sent = (if sent = [] then [] else fds # replicate (length sent - 1) [])"
proof (induction data outcomes off fds rule: send_loop.induct)
  case (1 data outcomes off fds)
  show ?case
  proof (cases "off < length data \<or> fds \<noteq> []")
    case False
    then show ?thesis
      by (subst send_loop.simps) simp
  next
    case True
    show ?thesis
    proof (cases outcomes)
      case Nil
      with True show ?thesis
        by (subst send_loop.simps) auto
    next
      case (Cons o1 rest)
      show ?thesis
      proof (cases o1)
        case SendWouldBlock
        with 1(2) True Cons show ?thesis
          by (subst send_loop.simps) simp
      next
        case SendError
        with True Cons show ?thesis
          by (subst send_loop.simps) auto
      next
        case (Sent n)
        show ?thesis
        proof (cases "n = 0 \<and> drop off data \<noteq> []")
          case True
          with Sent Cons \<open>off < length data \<or> fds \<noteq> []\<close> show ?thesis
            by (subst send_loop.simps) simp
        next
          case False
          obtain r sent where rs: "send_loop data rest (off + n) [] = (r, sent)"
            by fastforce
          have ih: "(\<exists>unsent. concat (map fst sent) @ unsent = drop (off + n) data \<and>
                (r = Some (Inr ()) \<longleftrightarrow> unsent = [])) \<and>
              map snd sent = (if sent = [] then [] else [] # replicate (length sent - 1) [])"
            using 1(1)[OF True [THEN iffD2 [OF not_not]] Cons Sent refl refl False] rs by simp
          have loop: "send_loop data outcomes off fds = (r, (take n (drop off data), fds) # sent)"
            using True False by (subst send_loop.simps) (auto simp: Cons Sent rs Let_def)
          have "take n (drop off data) @ drop (off + n) data = drop off data"
            by (metis append_take_drop_id drop_drop add.commute)
          moreover obtain unsent where "concat (map fst sent) @ unsent = drop (off + n) data"
            "r = Some (Inr ()) \<longleftrightarrow> unsent = []"
            using ih by blast
          ultimately show ?thesis
            using ih unfolding loop by (cases sent) (auto intro!: exI [of _ unsent])
        qed
      qed
    qed
  qed
qed

lemma unix_send_delivers:
  "case unix_send outcomes data fds of (r, sent) \<Rightarrow>
     (\<exists>unsent. concat (map fst sent) @ unsent = data \<and>
        (r = Some (Inr ()) \<longleftrightarrow> unsent = [] \<and> (sent = [] \<longrightarrow> fds = []))) \<and>
     map snd sent = (if sent = [] then [] else fds # replicate (length sent - 1) [])"
  using send_loop_delivers [where data = data and outcomes = outcomes and off = 0 and fds = fds] by (simp add: unix_send_def split: prod.splits)

definition closed_once :: "raw_fd list \<Rightarrow> bool" where
  "closed_once closed \<longleftrightarrow> distinct closed \<and> list_all ((\<le>) 0) closed"

lemma close_received_fds_once [simp]: "closed_once (close_received_fds fds)"
  by (simp add: closed_once_def list_all_iff)

lemma rights_payload_closes: "rights_payload m current l fds = Some (Inl (e, closed)) \<Longrightarrow> closed_once closed"
  by (auto simp: rights_payload_def reject_control_def Let_def split: option.splits if_splits)

lemma control_message_closes: "control_message m current fds = Some (Inl (e, closed)) \<Longrightarrow> closed_once closed"
  by (auto simp: control_message_def Let_def dest: rights_payload_closes
      split: option.splits sum.splits if_splits)

lemma decode_control_loop_closes:
  "decode_control_loop n m current fds = Some (Inl (e, closed)) \<Longrightarrow> closed_once closed"
  by (induction n arbitrary: current fds)
    (auto dest: control_message_closes split: option.splits sum.splits)

lemma decode_control_in_range: "decode_unix_control_fds m \<noteq> None"
proof -
  have "decode_control_loop (length (mh_bytes m) div header_size) m (mh_control m) [] \<noteq> None"
    if "header_size \<le> length (mh_bytes m)"
    using that by (intro decode_control_loop_in) (simp_all add: header_in_def)
  then show ?thesis
    by (auto simp: decode_unix_control_fds_def reject_control_def split: option.splits sum.splits)
qed

lemma decode_control_closes: "decode_unix_control_fds m = Some (Inl (e, closed)) \<Longrightarrow> closed_once closed"
  by (auto simp: decode_unix_control_fds_def reject_control_def dest: decode_control_loop_closes
      split: option.splits sum.splits if_splits) (simp_all add: closed_once_def)

lemma decode_control_not_truncated:
  "decode_unix_control_fds m = Some (Inr fds) \<Longrightarrow> mh_flags m AND MSG_CTRUNC = 0"
  by (auto simp: decode_unix_control_fds_def reject_control_def split: option.splits sum.splits if_splits)

section \<open>Properties\<close>

text \<open>C21: For every control buffer, well-formed or not, the decoder terminates and reads only
  bytes inside the buffer; it accepts no buffer that is flagged as truncated, and when it
  rejects one it closes every descriptor at most once and never a negative one.\<close>

theorem decode_control_in_bounds:
  "case decode_unix_control_fds m of
     None \<Rightarrow> False
   | Some (Inr _) \<Rightarrow> mh_flags m AND MSG_CTRUNC = 0
   | Some (Inl (_, closed)) \<Rightarrow> distinct closed \<and> list_all ((\<le>) 0) closed"
  using decode_control_in_range [of m] decode_control_closes [of m] decode_control_not_truncated [of m]
  by (auto simp: closed_once_def split: option.splits sum.splits)

text \<open>C22: A control buffer the kernel filled with any sequence of descriptor batches and other
  control messages decodes to exactly the descriptors, in order; if it was truncated, all of
  them are closed instead, each exactly once.\<close>

theorem decode_control_exact:
  assumes "control_fits m" and "mh_control m \<noteq> 0" and "list_all control_ok (cs @ [c])"
    and "mh_bytes m = concat (map control_bytes cs) @ control_body c @ rest"
    and "length rest < control_space c - control_len c + header_size"
  shows "decode_unix_control_fds m =
    (let fds = concat (map control_fds (cs @ [c]))
     in if mh_flags m AND MSG_CTRUNC \<noteq> 0 then Some (Inl (TruncatedAncillary, close_received_fds fds))
        else Some (Inr fds))"
  by (rule decode_control_at [OF assms])

theorem decode_control_exact_witness:
  "decode_unix_control_fds
     \<lparr>mh_control = 4096, mh_bytes = control_bytes (OtherControl 1 2 [7]) @ control_body (Rights [5, 9]),
      mh_flags = 0\<rparr> = Some (Inr [5, 9])"
  using decode_control_exact [of "\<lparr>mh_control = 4096,
      mh_bytes = control_bytes (OtherControl 1 2 [7]) @ control_body (Rights [5, 9]), mh_flags = 0\<rparr>"
      "[OtherControl 1 2 [7]]" "Rights [5, 9]" "[]"]
  by (simp add: control_fits_def control_space_def control_len_def header_size_def usize_limit_def
      in_i32_def SOL_SOCKET_def SCM_RIGHTS_def i32_bytes_def)

text \<open>C23: Whatever partial counts the kernel reports, the send loop hands over the bytes in
  order without gaps or repetition, and the descriptors exactly once, with the first
  submission; it reports success exactly when everything has been handed over.\<close>

theorem unix_send_exactly_once:
  "case unix_send outcomes data fds of (r, sent) \<Rightarrow>
     map snd sent = (if sent = [] then [] else fds # replicate (length sent - 1) []) \<and>
     (\<exists>unsent. concat (map fst sent) @ unsent = data \<and>
        (r = Some (Inr ())) = (unsent = [] \<and> (if sent = [] then fds = [] else True)))"
  using unix_send_delivers [where outcomes = outcomes and data = data and fds = fds] by (auto split: prod.splits)

text \<open>The readiness test looks at the opcode, not at the length: it answers the same for
  every length of the message.  On a partly received message it reports a complete message
  whenever the opcode is below 8, not a multiple of 4, or no larger than the bytes received.\<close>

theorem readiness_tests_opcode:
  assumes "try_build_message b sender op = Inr msg" and "8 \<le> k"
  shows "has_complete_message (connection_new\<lparr>read_buf := take k msg\<rparr>) \<longleftrightarrow>
    unat op < 8 \<or> unat op mod 4 \<noteq> 0 \<or> unat op \<le> min k (length msg)"
proof -
  have len: "length msg \<ge> 8"
    using try_build_message_length [OF assms(1)] by simp
  obtain body total where msg: "msg = u32_to_ne_bytes sender @
      u32_to_ne_bytes (push_bit 16 total OR ucast op) @ body"
    using assms(1) by (auto simp: try_build_message_def split: option.splits if_splits)
  have op: "u16_from_ne_bytes (msg ! 4) (msg ! 5) = op"
  proof -
    have "msg ! 4 = ucast (push_bit 16 total OR ucast op :: u32)"
      "msg ! 5 = ucast (drop_bit 8 (push_bit 16 total OR ucast op :: u32))"
      by (simp_all add: msg u32_to_ne_bytes_def)
    then show ?thesis
      by (auto intro!: bit_word_eqI simp: u16_from_ne_bytes_def bit_simps)
  qed
  have "\<not> min k (length msg) < 8"
    using assms(2) len by simp
  then show ?thesis
    using assms(2) len by (simp add: has_complete_message_def connection_new_def op Let_def min.commute)
qed

theorem readiness_tests_opcode_witness:
  "has_complete_message (connection_new\<lparr>read_buf := take 12
     (u32_to_ne_bytes 3 @ u32_to_ne_bytes 0x100002 @ u32_to_ne_bytes 1 @ u32_to_ne_bytes 0)\<rparr>)"
proof -
  let ?b = "write_u32 0 (write_u32 1 message_builder_new)"
  have "try_build_message ?b 3 2 =
      Inr (u32_to_ne_bytes 3 @ u32_to_ne_bytes 0x100002 @ u32_to_ne_bytes 1 @ u32_to_ne_bytes 0)"
    by (simp add: try_build_message_def usize_checked_add_def usize_limit_def write_u32_def
        message_builder_new_def push_bit_eq_mult)
  from readiness_tests_opcode [OF this, of 12] show ?thesis
    by simp
qed

end
