(* ===== verification/Display_Handler.thy ===== *)
theory Display_Handler
  imports Context_Buffers
begin

text \<open>
  The \<open>wl_display\<close> handler (\<^verbatim>\<open>sommelier/src/handler/display.rs\<close>) and \<open>wl_seat\<close>
  (\<^verbatim>\<open>handler/seat.rs\<close>): the local delivery of errors and of \<open>delete_id\<close>, and the requests and
  events of the display object itself.  A handler returns whether the message is forwarded;
  \<open>None\<close> is the panic of an exhausted ID space.
\<close>

section \<open>Opcodes of \<open>wl_display\<close>\<close>

definition REQ_SYNC :: u16 where "REQ_SYNC = 0"
definition REQ_GET_REGISTRY :: u16 where "REQ_GET_REGISTRY = 1"
definition EVT_ERROR :: u16 where "EVT_ERROR = 0"
definition EVT_DELETE_ID :: u16 where "EVT_DELETE_ID = 1"

section \<open>Queued messages\<close>

definition queue_message ::
    "packet list \<Rightarrow> u32 \<Rightarrow> u16 \<Rightarrow> message_builder \<Rightarrow> bool \<times> packet list" where
  "queue_message queue sender opcode builder =
     (case try_build_message builder sender opcode of
        Inr message \<Rightarrow> (True, queue @ [(message, [])])
      | Inl _ \<Rightarrow> (False, queue))"

text \<open>The loop \<open>while !message.is_char_boundary(end) { end -= 1 }\<close>; index 0 is a boundary.\<close>

fun char_boundary_below :: "rust_string \<Rightarrow> nat \<Rightarrow> nat" where
  "char_boundary_below s 0 = 0"
| "char_boundary_below s (Suc n) =
     (if is_char_boundary s (Suc n) then Suc n else char_boundary_below s n)"

definition MAX_DIAGNOSTIC_BYTES :: nat where "MAX_DIAGNOSTIC_BYTES = 1024"

definition bounded_diagnostic :: "rust_string \<Rightarrow> rust_string" where
  "bounded_diagnostic message =
     (if length message \<le> MAX_DIAGNOSTIC_BYTES then message
      else take (char_boundary_below message MAX_DIAGNOSTIC_BYTES) message)"

definition queue_protocol_error :: "u32 \<Rightarrow> u32 \<Rightarrow> rust_string \<Rightarrow> 'h ctx_scheme \<Rightarrow> 'h ctx_scheme" where
  "queue_protocol_error object_id code message c =
     (let c1 = c\<lparr>fatal_protocol_error := True\<rparr>;
          builder = write_string (bounded_diagnostic message)
            (write_u32 code (write_u32 object_id message_builder_new))
      in c1\<lparr>host_to_client_queue :=
            snd (queue_message (host_to_client_queue c1) 1 EVT_ERROR builder)\<rparr>)"

definition queue_guest_delete_id :: "u32 \<Rightarrow> 'h ctx_scheme \<Rightarrow> bool \<times> 'h ctx_scheme" where
  "queue_guest_delete_id guest c =
     (if get_interface (shadow_table c) guest = None then (False, c)
      else
        (case queue_message (host_to_client_queue c) 1 EVT_DELETE_ID
                (write_u32 guest message_builder_new) of
           (ok, q) \<Rightarrow> (ok, c\<lparr>host_to_client_queue := q\<rparr>)))"

definition queue_local_delete_id :: "u32 \<Rightarrow> 'h ctx_scheme \<Rightarrow> 'h ctx_scheme" where
  "queue_local_delete_id guest c =
     (if get_interface (shadow_table c) guest \<noteq> None \<and> get_host_id (shadow_table c) guest = None
      then (case queue_guest_delete_id guest c of
              (ok, c') \<Rightarrow>
                if ok then c'\<lparr>shadow_table := remove_id guest (shadow_table c')\<rparr> else c')
      else c)"

section \<open>The display handler\<close>

text \<open>
  \<open>on_get_registry\<close> and \<open>on_sync\<close>: allocate, map and track the new object, and send the
  request with the host ID on the ordered stream.
\<close>

definition new_display_object :: "string \<Rightarrow> u16 \<Rightarrow> u32 \<Rightarrow> 'h ctx_scheme \<Rightarrow> (action \<times> 'h ctx_scheme) option" where
  "new_display_object interface opcode new_id c =
     (case allocate_host_id (shadow_table c) of
        (None, _) \<Rightarrow> None
      | (Some host, t) \<Rightarrow>
          let t' = track_interface new_id interface (map_id new_id host t);
              q = snd (queue_message (client_to_host_queue c) 1 opcode
                         (write_u32 host message_builder_new))
          in Some (Drop, c\<lparr>shadow_table := t', client_to_host_queue := q\<rparr>))"

definition on_get_registry :: "u32 \<Rightarrow> 'h ctx_scheme \<Rightarrow> (action \<times> 'h ctx_scheme) option" where
  "on_get_registry registry c = new_display_object ''wl_registry'' REQ_GET_REGISTRY registry c"

definition on_sync :: "u32 \<Rightarrow> 'h ctx_scheme \<Rightarrow> (action \<times> 'h ctx_scheme) option" where
  "on_sync callback c = new_display_object ''wl_callback'' REQ_SYNC callback c"

definition on_delete_id :: "u32 \<Rightarrow> 'h ctx_scheme \<Rightarrow> action \<times> 'h ctx_scheme" where
  "on_delete_id i c =
     (case consume_host_delete_id i (shadow_table c) of
        (consumed, t) \<Rightarrow>
          let c1 = c\<lparr>shadow_table := t\<rparr>
          in if consumed then (Drop, snd (remove_render_buffer_host i c1))
             else case orphaned_dmabuf_params c1 i of
               Some guest \<Rightarrow>
                 if get_guest_id (shadow_table c1) i = Some guest then
                   (case queue_guest_delete_id guest c1 of
                      (ok, c2) \<Rightarrow>
                        (Drop,
                         if ok then c2\<lparr>shadow_table := clear_pending_destroy_guest guest
                                        (remove_guest_mapping guest (shadow_table c2))\<rparr>
                         else c2))
                 else (Drop, c1)
             | None \<Rightarrow>
                 let guest = (case get_guest_id (shadow_table c1) i of Some g \<Rightarrow> g | None \<Rightarrow> 0)
                 in if guest \<noteq> 0 then
                      let c2 = snd (remove_render_buffer_host i c1);
                          c3 = c2\<lparr>shadow_table := remove_id guest (shadow_table c2),
                                  pending_native_creates :=
                                    ((pending_native_creates c2)(HostId i := None))\<rparr>
                      in (Drop, c3\<lparr>host_to_client_queue :=
                            snd (queue_message (host_to_client_queue c3) 1 EVT_DELETE_ID
                                   (write_u32 guest message_builder_new))\<rparr>)
                    else (Drop, c1))"

definition on_error :: "u32 \<Rightarrow> u32 \<Rightarrow> rust_string \<Rightarrow> 'h ctx_scheme \<Rightarrow> action \<times> 'h ctx_scheme" where
  "on_error object_id code message c =
     (case get_guest_id (shadow_table c) object_id of
        None \<Rightarrow> (Drop, c)
      | Some guest \<Rightarrow>
          let builder = write_string message (write_u32 code (write_u32 guest message_builder_new))
          in (Drop, c\<lparr>host_to_client_queue :=
                snd (queue_message (host_to_client_queue c) 1 EVT_ERROR builder)\<rparr>))"

section \<open>The seat handler\<close>

definition on_get_keyboard :: "u32 \<Rightarrow> 'h ctx_scheme \<Rightarrow> action \<times> 'h ctx_scheme" where
  "on_get_keyboard i c =
     (Forward,
      c\<lparr>keyboard_to_seat := hm_insert i (last_sender_id c) (keyboard_to_seat c),
        shadow_table := track_interface i ''wl_keyboard'' (shadow_table c)\<rparr>)"

definition on_seat_release :: "'h ctx_scheme \<Rightarrow> action \<times> 'h ctx_scheme" where
  "on_seat_release c = (Forward, c)"

section \<open>Cutting UTF-8 at a character boundary\<close>

text \<open>\<open>utf8_unit\<close>: the encoding of one character.\<close>
lemma utf8_lead_cont: "utf8_three b c \<Longrightarrow> utf8_cont c" "utf8_four b c \<Longrightarrow> utf8_cont c"
  unfolding utf8_three_def utf8_four_def utf8_cont_def by (auto simp: word_le_nat_alt)

lemma utf8_lead_not_cont:
  "b < 0x80 \<Longrightarrow> \<not> utf8_cont b" "0xC2 \<le> b \<and> b \<le> 0xDF \<Longrightarrow> \<not> utf8_cont b"
  "utf8_three b c \<Longrightarrow> \<not> utf8_cont b" "utf8_four b c \<Longrightarrow> \<not> utf8_cont b"
  unfolding utf8_three_def utf8_four_def utf8_cont_def
  by (auto simp: word_le_nat_alt word_less_nat_alt)

definition utf8_unit :: "u8 list \<Rightarrow> bool" where
  "utf8_unit ch \<longleftrightarrow> ch \<noteq> [] \<and> length ch \<le> 4 \<and> \<not> utf8_cont (hd ch) \<and> list_all utf8_cont (tl ch) \<and>
     (\<forall>r. utf8_valid r \<longrightarrow> utf8_valid (ch @ r))"

lemma utf8_valid_unit:
  assumes "utf8_valid s" "s \<noteq> []"
  shows "\<exists>ch rest. s = ch @ rest \<and> utf8_unit ch \<and> utf8_valid rest"
proof -
  from assms(2) obtain b bs where s: "s = b # bs"
    by (cases s) auto
  consider "b < 0x80" "utf8_valid bs"
    | c cs where "bs = c # cs" "\<not> b < 0x80" "0xC2 \<le> b \<and> b \<le> 0xDF" "utf8_cont c" "utf8_valid cs"
    | c d ds where "bs = c # d # ds" "\<not> b < 0x80" "\<not> (0xC2 \<le> b \<and> b \<le> 0xDF)" "utf8_three b c" "utf8_cont d"
        "utf8_valid ds"
    | c d e es where "bs = c # d # e # es" "\<not> b < 0x80" "\<not> (0xC2 \<le> b \<and> b \<le> 0xDF)" "\<not> utf8_three b c"
        "utf8_four b c" "utf8_cont d" "utf8_cont e" "utf8_valid es"
    using assms(1) unfolding s utf8_valid.simps
    by (simp only: split: if_split_asm list.split_asm) blast+
  then show ?thesis
  proof cases
    case 1
    then show ?thesis
      by (rule_tac exI [of _ "[b]"], rule_tac exI [of _ bs])
        (simp add: s utf8_unit_def utf8_lead_not_cont)
  next
    case 2
    then show ?thesis
      by (rule_tac exI [of _ "[b, c]"], rule_tac exI [of _ cs])
        (simp add: s utf8_unit_def utf8_lead_not_cont)
  next
    case 3
    then show ?thesis
      by (rule_tac exI [of _ "[b, c, d]"], rule_tac exI [of _ ds])
        (auto simp: s utf8_unit_def utf8_lead_cont utf8_lead_not_cont(3))
  next
    case 4
    then show ?thesis
      by (rule_tac exI [of _ "[b, c, d, e]"], rule_tac exI [of _ es])
        (auto simp: s utf8_unit_def utf8_lead_cont utf8_lead_not_cont(4))
  qed
qed

lemma boundary_append:
  assumes "utf8_unit ch"
  shows "is_char_boundary (ch @ rest) i \<longleftrightarrow>
    i = 0 \<or> (length ch \<le> i \<and> (i = length ch + length rest \<or>
      (i < length ch + length rest \<and> \<not> utf8_cont (rest ! (i - length ch)))))"
proof -
  have "utf8_cont (ch ! i)" if "i < length ch" "i \<noteq> 0" for i
    using assms that by (cases ch; cases i) (auto simp: utf8_unit_def list_all_length)
  moreover have "ch \<noteq> []"
    using assms by (simp add: utf8_unit_def)
  ultimately show ?thesis
    by (cases "i < length ch") (auto simp: is_char_boundary_def nth_append)
qed

lemma utf8_valid_hd: "utf8_valid s \<Longrightarrow> s \<noteq> [] \<Longrightarrow> \<not> utf8_cont (s ! 0)"
  using utf8_valid_unit [of s] by (auto simp: utf8_unit_def hd_append hd_conv_nth [symmetric])

lemma boundary_skip:
  assumes "utf8_unit ch" "utf8_valid rest"
  shows "is_char_boundary (ch @ rest) (length ch + k) \<longleftrightarrow> is_char_boundary rest k"
  using assms utf8_valid_hd [of rest] unfolding boundary_append [OF assms(1)]
  by (auto simp: is_char_boundary_def utf8_unit_def)

lemma utf8_valid_take:
  "utf8_valid s \<Longrightarrow> is_char_boundary s i \<Longrightarrow> utf8_valid (take i s)"
proof (induction "length s" arbitrary: s i rule: less_induct)
  case less
  show ?case
  proof (cases "s = [] \<or> i = 0")
    case False
    then obtain ch rest where ch: "s = ch @ rest" "utf8_unit ch" "utf8_valid rest"
      using utf8_valid_unit less.prems by blast
    then have "length ch \<le> i"
      using False less.prems boundary_append [OF ch(2)] by auto
    then obtain k where k: "i = length ch + k"
      using le_Suc_ex by blast
    then have "is_char_boundary rest k"
      using less.prems(2) boundary_skip [OF ch(2,3)] ch(1) by simp
    moreover have "ch \<noteq> []"
      using ch(2) by (simp add: utf8_unit_def)
    ultimately show ?thesis
      using less.hyps [of rest k] ch k by (simp add: utf8_unit_def)
  qed auto
qed

lemma boundary_near:
  "utf8_valid s \<Longrightarrow> i \<le> length s \<Longrightarrow> \<exists>k. is_char_boundary s k \<and> k \<le> i \<and> i < k + 4"
proof (induction "length s" arbitrary: s i rule: less_induct)
  case less
  show ?case
  proof (cases "i < 4")
    case True
    then show ?thesis
      by (rule_tac exI [of _ 0]) (simp add: is_char_boundary_def)
  next
    case False
    then have "s \<noteq> []"
      using less.prems by auto
    then obtain ch rest where ch: "s = ch @ rest" "utf8_unit ch" "utf8_valid rest"
      using utf8_valid_unit less.prems by blast
    then have l: "length rest < length s" "length ch \<le> i" "i - length ch \<le> length rest"
      using False less.prems(2) by (auto simp: utf8_unit_def)
    obtain k where "is_char_boundary rest k" "k \<le> i - length ch" "i - length ch < k + 4"
      using less.hyps [OF l(1) ch(3) l(3)] by blast
    then show ?thesis
      using boundary_skip [OF ch(2,3), of k] l(2) by (intro exI [of _ "length ch + k"]) (auto simp: ch(1))
  qed
qed

lemma char_boundary_below_spec:
  "is_char_boundary s (char_boundary_below s n) \<and> char_boundary_below s n \<le> n \<and>
     (\<forall>k. is_char_boundary s k \<and> k \<le> n \<longrightarrow> k \<le> char_boundary_below s n)"
proof (induction n)
  case 0
  then show ?case
    by (simp add: is_char_boundary_def)
next
  case (Suc n)
  then show ?case
    by (auto simp: le_Suc_eq)
qed

lemma bounded_diagnostic_spec:
  assumes "utf8_valid message"
  shows "\<exists>rest. message = bounded_diagnostic message @ rest \<and> utf8_valid (bounded_diagnostic message) \<and>
    length (bounded_diagnostic message) \<le> 1024 \<and> (rest = [] \<or> 1020 < length (bounded_diagnostic message))"
proof (cases "length message \<le> 1024")
  case True
  with assms show ?thesis
    by (simp add: bounded_diagnostic_def MAX_DIAGNOSTIC_BYTES_def)
next
  case False
  let ?e = "char_boundary_below message 1024"
  obtain k where k: "is_char_boundary message k" "k \<le> 1024" "1024 < k + 4"
    using boundary_near [OF assms, of 1024] False by auto
  have e: "is_char_boundary message ?e" "?e \<le> 1024" "k \<le> ?e"
    using char_boundary_below_spec [of message 1024] k by blast+
  have "length (take ?e message) = ?e"
    using False e(2) by simp
  with e k utf8_valid_take [OF assms e(1)] False show ?thesis
    by (intro exI [of _ "drop ?e message"])
      (simp add: bounded_diagnostic_def MAX_DIAGNOSTIC_BYTES_def)
qed

section \<open>Properties\<close>

lemma queue_message_ok:
  assumes "length (mb_payload b) + 8 \<le> 0xFFFF" and "4 dvd length (mb_payload b)"
  shows "queue_message q s op b =
    (True, q @ [(u32_to_ne_bytes s @
       u32_to_ne_bytes (push_bit 16 (of_nat (length (mb_payload b) + 8)) OR ucast op) @
       mb_payload b, [])])"
  using try_build_message_ok [OF assms, of s op] by (simp add: queue_message_def)

definition display_event :: "u16 \<Rightarrow> u8 list \<Rightarrow> u8 list" where
  "display_event op payload =
     u32_to_ne_bytes 1 @ u32_to_ne_bytes (push_bit 16 (of_nat (length payload + 8)) OR ucast op) @ payload"

lemma queue_delete_id [simp]:
  "queue_message q 1 EVT_DELETE_ID (write_u32 g message_builder_new) =
     (True, q @ [(display_event EVT_DELETE_ID (u32_bytes g), [])])"
  by (subst queue_message_ok)
    (simp_all add: display_event_def write_u32_def message_builder_new_def u32_bytes_def)

lemma length_string_bytes:
  "wire_string s \<Longrightarrow> length (string_bytes s) \<le> length s + 8"
  using string_body_length [of s] align_down4_between [of "length s + 1"]
  by (simp add: string_bytes_def)

text \<open>A fatal protocol error always reaches the guest's queue, whatever the length of the
  diagnostic: one \<open>wl_display.error\<close> event with the object, the code and a prefix of the
  diagnostic of at most 1024 bytes that is cut, if at all, at the last character that fits.\<close>

theorem protocol_error_always_queued:
  assumes "utf8_valid message" and "0 \<notin> set message"
  shows "\<exists>d rest. message = d @ rest \<and> utf8_valid d \<and> length d \<le> 1024 \<and>
    (rest = [] \<or> 1020 < length d) \<and>
    host_to_client_queue (queue_protocol_error object_id code message c) =
      host_to_client_queue c @
      [(display_event EVT_ERROR (u32_bytes object_id @ u32_bytes code @ string_bytes d), [])] \<and>
    fatal_protocol_error (queue_protocol_error object_id code message c)"
proof -
  let ?d = "bounded_diagnostic message"
  let ?b = "write_string ?d (write_u32 code (write_u32 object_id message_builder_new))"
  obtain rest where d: "message = ?d @ rest" "utf8_valid ?d" "length ?d \<le> 1024"
    "rest = [] \<or> 1020 < length ?d"
    using bounded_diagnostic_spec [OF assms(1)] by blast
  have "0 \<notin> set ?d"
    using assms(2) d(1) by (metis Un_iff set_append)
  with d have w: "wire_string ?d"
    by (simp add: wire_string_def)
  have pl: "mb_payload ?b = u32_bytes object_id @ u32_bytes code @ string_bytes ?d"
    by (simp add: string_codec.wr_appends write_u32_def message_builder_new_def u32_bytes_def)
  have "length (mb_payload ?b) + 8 \<le> 0xFFFF" "4 dvd length (mb_payload ?b)"
    using length_string_bytes [OF w] string_bytes_aligned [OF w] d(3)
    unfolding pl by (simp_all add: u32_bytes_def)
  from queue_message_ok [OF this, of "host_to_client_queue c" 1 EVT_ERROR]
  have "host_to_client_queue (queue_protocol_error object_id code message c) =
      host_to_client_queue c @
      [(display_event EVT_ERROR (u32_bytes object_id @ u32_bytes code @ string_bytes ?d), [])]"
    by (simp add: queue_protocol_error_def Let_def display_event_def pl)
  moreover have "fatal_protocol_error (queue_protocol_error object_id code message c)"
    by (simp add: queue_protocol_error_def Let_def)
  ultimately show ?thesis
    using d by blast
qed

theorem protocol_error_always_queued_witness:
  "\<exists>d rest. replicate 70000 (65 :: u8) = d @ rest \<and> utf8_valid d \<and> length d \<le> 1024 \<and>
    (rest = [] \<or> 1020 < length d) \<and>
    host_to_client_queue (queue_protocol_error 7 1 (replicate 70000 65) context_empty) =
      [(display_event EVT_ERROR (u32_bytes 7 @ u32_bytes 1 @ string_bytes d), [])]"
proof -
  have u: "utf8_valid (replicate n (65 :: u8))" for n
    by (induction n) simp_all
  have "0 \<notin> set (replicate 70000 (65 :: u8))"
    by simp
  from protocol_error_always_queued [OF u this, of 7 1 context_empty] show ?thesis
    by (elim exE conjE) (auto simp: context_new_def)
qed

lemma queue_guest_delete_id_eq:
  "queue_guest_delete_id g c =
     (if get_interface (shadow_table c) g = None then (False, c)
      else (True, c\<lparr>host_to_client_queue :=
        host_to_client_queue c @ [(display_event EVT_DELETE_ID (u32_bytes g), [])]\<rparr>))"
  by (simp add: queue_guest_delete_id_def)

lemma remove_render_buffer_host_frame:
  "shadow_table (snd (remove_render_buffer_host h c)) = shadow_table c"
  "host_to_client_queue (snd (remove_render_buffer_host h c)) = host_to_client_queue c"
  "orphaned_dmabuf_params (snd (remove_render_buffer_host h c)) = orphaned_dmabuf_params c"
  by (simp_all add: remove_render_buffer_host_def with_registry_def split: prod.split)

text \<open>What the host's \<open>delete_id\<close> of an ID tells the guest.\<close>

definition deleted_guest :: "'h ctx_scheme \<Rightarrow> u32 \<Rightarrow> u32 option" where
  "deleted_guest c i =
     (if i \<in> pending_destroy_host_ids (shadow_table c) then None
      else case get_guest_id (shadow_table c) i of
        None \<Rightarrow> None
      | Some g \<Rightarrow>
          (case orphaned_dmabuf_params c i of
             Some g' \<Rightarrow> if g' = g \<and> get_interface (shadow_table c) g \<noteq> None then Some g else None
           | None \<Rightarrow> if g = 0 then None else Some g))"

lemma on_delete_id_queue:
  "host_to_client_queue (snd (on_delete_id i c)) = host_to_client_queue c @
     (case deleted_guest c i of
        Some g \<Rightarrow> [(display_event EVT_DELETE_ID (u32_bytes g), [])] | None \<Rightarrow> [])"
  by (auto simp: on_delete_id_def consume_host_delete_id_def deleted_guest_def Let_def
      queue_guest_delete_id_eq remove_render_buffer_host_frame get_guest_id_def get_interface_def
      split: option.splits)

lemma on_delete_id_table:
  assumes "deleted_guest c i = Some g"
  shows "shadow_table (snd (on_delete_id i c)) =
    (if orphaned_dmabuf_params c i = None then remove_id g (shadow_table c)
     else clear_pending_destroy_guest g (remove_guest_mapping g (shadow_table c)))"
proof -
  have t: "shadow_table c\<lparr>pending_destroy_host_ids := pending_destroy_host_ids (shadow_table c) - {i}\<rparr>
      = shadow_table c" if "i \<notin> pending_destroy_host_ids (shadow_table c)"
    using that by simp
  show ?thesis
    using assms
    by (auto simp: on_delete_id_def consume_host_delete_id_def deleted_guest_def Let_def t
        queue_guest_delete_id_eq remove_render_buffer_host_frame get_guest_id_def get_interface_def
        split: option.splits if_splits)
qed

lemma on_delete_id_unmaps:
  assumes "paired (shadow_table c)" "deleted_guest c i = Some g"
  shows "get_host_id (shadow_table (snd (on_delete_id i c))) g = None
       \<and> get_guest_id (shadow_table (snd (on_delete_id i c))) i = None
       \<and> get_interface (shadow_table (snd (on_delete_id i c))) g = None
       \<and> g \<notin> pending_destroy_guest_ids (shadow_table (snd (on_delete_id i c)))"
proof -
  have g: "host_to_guest (shadow_table c) i = Some g"
    using assms(2) by (auto simp: deleted_guest_def get_guest_id_def split: if_splits option.splits)
  have "interfaces (remove_guest_mapping g (shadow_table c)) g = None"
    "interfaces (remove_id g (shadow_table c)) g = None"
    "g \<notin> pending_destroy_guest_ids (remove_id g (shadow_table c))"
    by (simp_all add: remove_guest_mapping_def remove_id_def Let_def split: option.splits)
  with g remove_guest_mapping_maps [OF assms(1), of g] remove_id_maps [OF assms(1), of g] show ?thesis
    by (simp add: on_delete_id_table [OF assms(2)] get_host_id_def get_guest_id_def get_interface_def
        clear_pending_destroy_guest_def)
qed

lemma on_delete_id_silent:
  "deleted_guest c i = None \<Longrightarrow> deleted_guest (snd (on_delete_id i c)) i = None \<or>
     i \<in> pending_destroy_host_ids (shadow_table c)"
  by (auto simp: on_delete_id_def consume_host_delete_id_def deleted_guest_def Let_def
      queue_guest_delete_id_eq remove_render_buffer_host_frame get_guest_id_def get_interface_def
      split: option.splits if_splits)

text \<open>C24: The host's acknowledgement of a destroyed object is passed on under the guest's ID
  exactly once: with it both directions of the mapping, the interface and the destruction mark
  are gone, so a repeated acknowledgement is not passed on; one for a host-only object never
  reaches the guest.\<close>

theorem delete_id_delivered_once:
  assumes "table_ok (shadow_table c)"
  shows "case on_delete_id i c of (a, c') \<Rightarrow>
    a = Drop \<and>
    host_to_client_queue c' = host_to_client_queue c @
      (case deleted_guest c i of
         Some g \<Rightarrow> [(display_event EVT_DELETE_ID (u32_bytes g), [])] | None \<Rightarrow> []) \<and>
    host_to_client_queue (snd (on_delete_id i c')) = host_to_client_queue c' \<and>
    (case deleted_guest c i of
       None \<Rightarrow> True
     | Some g \<Rightarrow> get_host_id (shadow_table c) g = Some i \<and> get_host_id (shadow_table c') g = None \<and>
         get_guest_id (shadow_table c') i = None \<and> get_interface (shadow_table c') g = None \<and>
         \<not> is_pending_destroy_guest (shadow_table c') g)"
proof -
  have p: "paired (shadow_table c)"
    using assms by (simp add: table_ok_def)
  let ?c' = "snd (on_delete_id i c)"
  have act: "fst (on_delete_id i c) = Drop"
    by (auto simp: on_delete_id_def Let_def split: prod.splits option.splits)
  have again: "deleted_guest ?c' i = None"
  proof (cases "deleted_guest c i")
    case (Some g)
    with on_delete_id_unmaps [OF p] show ?thesis
      by (simp add: deleted_guest_def)
  next
    case None
    have "get_guest_id (shadow_table ?c') i = None" if i: "i \<in> pending_destroy_host_ids (shadow_table c)"
    proof -
      have "host_to_guest (shadow_table c) i = None"
        using assms i by (auto simp: table_ok_def dest: reserved_okD)
      with i show ?thesis
        by (simp add: on_delete_id_def consume_host_delete_id_def remove_render_buffer_host_frame
            get_guest_id_def)
    qed
    with on_delete_id_silent [OF None] show ?thesis
      by (auto simp: deleted_guest_def)
  qed
  have mapped: "get_host_id (shadow_table c) g = Some i" if "deleted_guest c i = Some g" for g
    using that p by (auto simp: deleted_guest_def get_guest_id_def get_host_id_def paired_def
        split: if_splits option.splits)
  obtain c' where od: "on_delete_id i c = (Drop, c')"
    using act by (cases "on_delete_id i c") simp
  show ?thesis
  proof (cases "deleted_guest c i")
    case None
    then show ?thesis
      using again on_delete_id_queue [of i c] on_delete_id_queue [of i c'] by (simp add: od)
  next
    case (Some g)
    then show ?thesis
      using again mapped [OF Some] on_delete_id_unmaps [OF p Some] on_delete_id_queue [of i c]
        on_delete_id_queue [of i c'] by (simp add: od is_pending_destroy_guest_def)
  qed
qed

theorem delete_id_delivered_once_witness:
  "host_to_client_queue (snd (on_delete_id 9 (snd (on_delete_id 9
      (context_empty\<lparr>shadow_table := track_interface 5 ''wl_surface'' (map_id 5 9 shadow_table_new)\<rparr>))))) =
   [(display_event EVT_DELETE_ID (u32_bytes 5), [])]"
proof -
  let ?t = "track_interface 5 ''wl_surface'' (map_id 5 9 shadow_table_new)"
  let ?c = "context_empty\<lparr>shadow_table := ?t\<rparr>"
  have "table_ok (run_ops shadow_step shadow_table_new [MapId 5 9, TrackInterface 5 ''wl_surface''])"
    by (rule shadow_guarded.run_inv [OF table_ok_new])
      (simp add: shadow_op_allowed_def reserved_ids_def shadow_table_new_def)
  then have ok: "table_ok (shadow_table ?c)"
    by simp
  have "deleted_guest ?c 9 = Some 5"
    by (simp add: deleted_guest_def context_new_def get_guest_id_def track_interface_def map_id_def
        shadow_table_new_def)
  then show ?thesis
    using delete_id_delivered_once [OF ok, of 9]
    by (simp add: context_new_def split: prod.splits)
qed

end
