(* ===== verification/Dispatch.thy ===== *)
theory Dispatch
  imports Display_Handler
begin

text \<open>
  The dispatchers that \<^verbatim>\<open>wayland_codegen/src/generator.rs\<close> emits for every interface of the
  protocol files, as an interpreter of the parsed protocol (\<^verbatim>\<open>protocol.rs\<close>): decoding, the
  checks before the handler, the call of the handler, the translation of the arguments and the
  clean-up of destructors.  Each definition is one template of the generator, applied to the
  arguments of a message.  The handlers are a parameter; \<open>None\<close> is a panic (of a handler or of
  an exhausted ID space).
\<close>

section \<open>Protocols\<close>

record arg_spec =
  arg_typ :: string
  arg_interface :: "string option"
  arg_allow_null :: "bool option"

record message_spec =
  ms_name :: string
  ms_type :: "string option"
  ms_since :: "u32 option"
  ms_args :: "arg_spec list"

datatype interface_item = RequestItem message_spec | EventItem message_spec | OtherItem

record interface_spec =
  is_name :: string
  is_items :: "interface_item list"

record protocol =
  pr_name :: string
  pr_interfaces :: "interface_spec list"

text \<open>The opcode of a message is its position among the requests, or events, of the interface.\<close>

definition requests_of :: "interface_spec \<Rightarrow> message_spec list" where
  "requests_of i = List.map_filter (\<lambda>x. case x of RequestItem m \<Rightarrow> Some m | _ \<Rightarrow> None) (is_items i)"

definition events_of :: "interface_spec \<Rightarrow> message_spec list" where
  "events_of i = List.map_filter (\<lambda>x. case x of EventItem m \<Rightarrow> Some m | _ \<Rightarrow> None) (is_items i)"

definition is_destructor :: "message_spec \<Rightarrow> bool" where
  "is_destructor m \<longleftrightarrow> ms_type m = Some ''destructor''"

section \<open>Arguments\<close>

datatype arg_kind =
    KInt | KUint | KFixed | KNullableString | KString | KArray | KFd
  | KObject bool "string option"
  | KNewId string
  | KNewIdAny
  | KOther

datatype arg_value =
    VInt i32
  | VUint u32
  | VFixed i32
  | VNullableString "rust_string option"
  | VString rust_string
  | VArray "u8 list"
  | VFd raw_fd
  | VObject u32
  | VNewId u32
  | VNewIdAny rust_string u32 u32

text \<open>The match on the type attribute that selects the read, the write and the translation.\<close>

definition kind_of :: "arg_spec \<Rightarrow> arg_kind" where
  "kind_of a =
     (let t = arg_typ a; nullable = (arg_allow_null a = Some True)
      in if t = ''int'' then KInt
         else if t = ''uint'' then KUint
         else if t = ''fixed'' then KFixed
         else if t = ''string'' then (if nullable then KNullableString else KString)
         else if t = ''object'' then KObject nullable (arg_interface a)
         else if t = ''new_id'' then (case arg_interface a of Some i \<Rightarrow> KNewId i | None \<Rightarrow> KNewIdAny)
         else if t = ''array'' then KArray
         else if t = ''fd'' then KFd
         else KOther)"

definition map_read :: "('a \<Rightarrow> 'b) \<Rightarrow> 'a read_result \<Rightarrow> 'b read_result" where
  "map_read f r = (map_sum id f (fst r), snd r)"

definition read_new_id_any :: "wire_message \<Rightarrow> arg_value read_result" where
  "read_new_id_any m =
     (case read_string m of
        (Inl e, m1) \<Rightarrow> (Inl e, m1)
      | (Inr s, m1) \<Rightarrow>
         (case read_u32 m1 of
            (Inl e, m2) \<Rightarrow> (Inl e, m2)
          | (Inr v, m2) \<Rightarrow> map_read (\<lambda>i. VNewIdAny s v i) (read_u32 m2)))"

definition read_arg :: "arg_kind \<Rightarrow> wire_message \<Rightarrow> arg_value read_result" where
  "read_arg k m =
     (case k of
        KInt \<Rightarrow> map_read VInt (read_i32 m)
      | KUint \<Rightarrow> map_read VUint (read_u32 m)
      | KFixed \<Rightarrow> map_read VFixed (read_fixed m)
      | KNullableString \<Rightarrow> map_read VNullableString (read_nullable_string m)
      | KString \<Rightarrow> map_read VString (read_string m)
      | KArray \<Rightarrow> map_read VArray (read_array m)
      | KFd \<Rightarrow> map_read VFd (read_fd m)
      | KObject _ _ \<Rightarrow> map_read VObject (read_u32 m)
      | KNewId _ \<Rightarrow> map_read VNewId (read_u32 m)
      | KNewIdAny \<Rightarrow> read_new_id_any m
      | KOther \<Rightarrow> map_read VUint (read_u32 m))"

fun read_args :: "arg_kind list \<Rightarrow> wire_message \<Rightarrow> arg_value list read_result" where
  "read_args [] m = (Inr [], m)"
| "read_args (k # ks) m =
     (case read_arg k m of
        (Inl e, m1) \<Rightarrow> (Inl e, m1)
      | (Inr v, m1) \<Rightarrow>
         (case read_args ks m1 of
            (Inl e, m2) \<Rightarrow> (Inl e, m2)
          | (Inr vs, m2) \<Rightarrow> (Inr (v # vs), m2)))"

definition write_value :: "arg_value \<Rightarrow> message_builder \<Rightarrow> message_builder" where
  "write_value v b =
     (case v of
        VInt x \<Rightarrow> write_i32 x b
      | VUint x \<Rightarrow> write_u32 x b
      | VFixed x \<Rightarrow> write_fixed x b
      | VNullableString s \<Rightarrow> write_nullable_string s b
      | VString s \<Rightarrow> write_string s b
      | VArray a \<Rightarrow> write_array a b
      | VFd fd \<Rightarrow> write_fd fd b
      | VObject x \<Rightarrow> write_u32 x b
      | VNewId x \<Rightarrow> write_u32 x b
      | VNewIdAny s ver i \<Rightarrow> write_u32 i (write_u32 ver (write_string s b)))"

section \<open>Checks before the handler\<close>

text \<open>\<open>since\<close>: requests use the guest object's version, events the host object's.\<close>

definition version_validation ::
    "u32 option \<Rightarrow> u32 \<Rightarrow> u32 option \<Rightarrow> protocol_error option" where
  "version_validation since sender version =
     (case since of
        None \<Rightarrow> None
      | Some required \<Rightarrow>
         (case version of
            None \<Rightarrow> Some (InvalidObjectId sender)
          | Some actual \<Rightarrow>
              if actual < required then Some (UnsupportedVersion sender required actual) else None))"

definition request_arg_error :: "shadow_table \<Rightarrow> arg_kind \<Rightarrow> arg_value \<Rightarrow> protocol_error option" where
  "request_arg_error t k v =
     (case (k, v) of
        (KNewId _, VNewId i) \<Rightarrow> if is_guest_id_available t i then None else Some (InvalidObjectId i)
      | (KNewIdAny, VNewIdAny _ _ i) \<Rightarrow>
          if is_guest_id_available t i then None else Some (InvalidObjectId i)
      | (KObject nullable (Some interface), VObject x) \<Rightarrow>
          if (nullable \<and> x = 0) \<or>
             \<not> (is_pending_destroy_guest t x \<or> \<not> guest_object_matches t x interface \<or>
                (get_host_id t x = None \<and> \<not> is_local_only_guest_object t x))
          then None else Some (InvalidObjectId x)
      | (KObject nullable None, VObject x) \<Rightarrow>
          if (nullable \<and> x = 0) \<or> \<not> (is_pending_destroy_guest t x \<or> get_host_id t x = None)
          then None else Some (InvalidObjectId x)
      | _ \<Rightarrow> None)"

fun request_error :: "shadow_table \<Rightarrow> arg_kind list \<Rightarrow> arg_value list \<Rightarrow> protocol_error option" where
  "request_error t (k # ks) (v # vs) =
     (case request_arg_error t k v of Some e \<Rightarrow> Some e | None \<Rightarrow> request_error t ks vs)"
| "request_error t _ _ = None"

text \<open>For an event a bad object argument drops the event (\<open>Inr ()\<close>), a bad new ID is an error.\<close>

definition event_arg_check ::
    "shadow_table \<Rightarrow> arg_kind \<Rightarrow> arg_value \<Rightarrow> (protocol_error + unit) option" where
  "event_arg_check t k v =
     (case (k, v) of
        (KNewId _, VNewId i) \<Rightarrow> if is_host_id_available t i then None else Some (Inl (InvalidObjectId i))
      | (KObject nullable (Some interface), VObject x) \<Rightarrow>
          if (nullable \<and> x = 0) \<or>
             \<not> (is_pending_destroy_host t x \<or> \<not> host_object_matches t x interface \<or>
                get_guest_id t x = None)
          then None else Some (Inr ())
      | (KObject nullable None, VObject x) \<Rightarrow>
          if (nullable \<and> x = 0) \<or> get_guest_id t x \<noteq> None then None else Some (Inr ())
      | _ \<Rightarrow> None)"

fun event_check ::
    "shadow_table \<Rightarrow> arg_kind list \<Rightarrow> arg_value list \<Rightarrow> (protocol_error + unit) option" where
  "event_check t (k # ks) (v # vs) =
     (case event_arg_check t k v of Some e \<Rightarrow> Some e | None \<Rightarrow> event_check t ks vs)"
| "event_check t _ _ = None"

section \<open>Translation while writing\<close>

text \<open>
  One argument of a forwarded request: the outer \<open>None\<close> is a panic, the inner one the early
  \<open>return Ok(None)\<close> that drops the message.
\<close>

type_synonym write_result = "(message_builder option \<times> shadow_table) option"

definition new_request_object ::
    "u32 \<Rightarrow> string \<Rightarrow> u32 \<Rightarrow> u32 \<Rightarrow> shadow_table \<Rightarrow> message_builder \<Rightarrow> write_result" where
  "new_request_object i interface guest_version host_version t b =
     (case allocate_host_id t of
        (None, _) \<Rightarrow> None
      | (Some host, t1) \<Rightarrow>
          let t2 = set_host_version host host_version
                     (track_interface_with_version i interface guest_version (map_id i host t1))
          in Some (Some (write_u32 host b), t2))"

definition string_of_bytes :: "rust_string \<Rightarrow> string" where
  "string_of_bytes s = map (\<lambda>b. char_of (unat b)) s"

definition write_request_arg ::
    "u32 \<Rightarrow> arg_kind \<Rightarrow> arg_value \<Rightarrow> shadow_table \<Rightarrow> message_builder \<Rightarrow> write_result" where
  "write_request_arg sender k v t b =
     (case (k, v) of
        (KObject nullable _, VObject x) \<Rightarrow>
          if nullable \<and> x = 0 then Some (Some (write_u32 0 b), t)
          else (case get_host_id t x of
                  Some host \<Rightarrow> Some (Some (write_u32 host b), t)
                | None \<Rightarrow> Some (None, t))
      | (KNewId interface, VNewId i) \<Rightarrow>
          let object_version = (case guest_object_version t sender of Some x \<Rightarrow> x | None \<Rightarrow> 0xffffffff);
              host_object_version =
                (case Option.bind (get_host_id t sender) (host_object_version t) of
                   Some x \<Rightarrow> x | None \<Rightarrow> object_version)
          in new_request_object i interface object_version host_object_version t b
      | (KNewIdAny, VNewIdAny interface version i) \<Rightarrow>
          new_request_object i (string_of_bytes interface) version version t
            (write_u32 version (write_string interface b))
      | _ \<Rightarrow> Some (Some (write_value v b), t))"

fun write_request_args ::
    "u32 \<Rightarrow> arg_kind list \<Rightarrow> arg_value list \<Rightarrow> shadow_table \<Rightarrow> message_builder \<Rightarrow> write_result" where
  "write_request_args sender (k # ks) (v # vs) t b =
     (case write_request_arg sender k v t b of
        Some (Some b', t') \<Rightarrow> write_request_args sender ks vs t' b'
      | r \<Rightarrow> r)"
| "write_request_args sender _ _ t b = Some (Some b, t)"

definition write_event_arg ::
    "u32 \<Rightarrow> arg_kind \<Rightarrow> arg_value \<Rightarrow> shadow_table \<Rightarrow> message_builder \<Rightarrow> write_result" where
  "write_event_arg sender k v t b =
     (case (k, v) of
        (KObject nullable _, VObject x) \<Rightarrow>
          if nullable \<and> x = 0 then Some (Some (write_u32 0 b), t)
          else (case get_guest_id t x of
                  Some guest \<Rightarrow> Some (Some (write_u32 guest b), t)
                | None \<Rightarrow> Some (None, t))
      | (KNewId interface, VNewId host) \<Rightarrow>
          let object_version = (case host_object_version t sender of Some x \<Rightarrow> x | None \<Rightarrow> 0xffffffff)
          in (case allocate_guest_server_id t of
                (None, _) \<Rightarrow> None
              | (Some guest, t1) \<Rightarrow>
                  let t2 = set_host_version host object_version
                        (track_interface_with_version guest interface object_version (map_id guest host t1))
                  in Some (Some (write_u32 guest b), t2))
      | _ \<Rightarrow> Some (Some (write_value v b), t))"

fun write_event_args ::
    "u32 \<Rightarrow> arg_kind list \<Rightarrow> arg_value list \<Rightarrow> shadow_table \<Rightarrow> message_builder \<Rightarrow> write_result" where
  "write_event_args sender (k # ks) (v # vs) t b =
     (case write_event_arg sender k v t b of
        Some (Some b', t') \<Rightarrow> write_event_args sender ks vs t' b'
      | r \<Rightarrow> r)"
| "write_event_args sender _ _ t b = Some (Some b, t)"

section \<open>Dispatch of one interface\<close>

text \<open>
  The handlers run on the shared context together with their own state, the extension \<open>'h\<close>
  of the record (the keyboard handler keeps one).
\<close>

type_synonym 'h handler = "string \<Rightarrow> string \<Rightarrow> arg_value list \<Rightarrow> 'h ctx_scheme \<Rightarrow> (action \<times> 'h ctx_scheme) option"

type_synonym 'h dispatch_outcome = "(protocol_error + packet option) \<times> 'h ctx_scheme"

definition kinds :: "message_spec \<Rightarrow> arg_kind list" where
  "kinds m = map kind_of (ms_args m)"

definition from_wire ::
    "message_spec list \<Rightarrow> wire_message \<Rightarrow> (message_spec \<times> arg_value list) read_result" where
  "from_wire specs msg =
     (if unat (msg_opcode msg) < length specs
      then
        let spec = specs ! unat (msg_opcode msg)
        in map_read (\<lambda>vs. (spec, vs)) (read_args (kinds spec) msg)
      else (Inl (UnknownOpcode (msg_opcode msg)), msg))"

definition destructor_cleanup :: "u32 \<Rightarrow> shadow_table \<Rightarrow> shadow_table" where
  "destructor_cleanup sender t =
     (if is_guest_server_id sender then remove_id sender t else mark_pending_destroy sender t)"

definition local_destructor_cleanup :: "message_spec \<Rightarrow> bool \<Rightarrow> u32 \<Rightarrow> 'h ctx_scheme \<Rightarrow> 'h ctx_scheme" where
  "local_destructor_cleanup spec is_local_only sender c =
     (if is_destructor spec \<and> is_local_only then queue_local_delete_id sender c else c)"

definition forward_request ::
    "message_spec \<Rightarrow> arg_value list \<Rightarrow> u32 \<Rightarrow> u16 \<Rightarrow> u32 option \<Rightarrow> bool \<Rightarrow> 'h ctx_scheme \<Rightarrow> 'h dispatch_outcome option" where
  "forward_request spec vs sender opcode host_sender is_local_only c =
     (case write_request_args sender (kinds spec) vs (shadow_table c) message_builder_new of
        None \<Rightarrow> None
      | Some (None, t) \<Rightarrow> Some (Inr None, c\<lparr>shadow_table := t\<rparr>)
      | Some (Some builder, t) \<Rightarrow>
          let c1 = c\<lparr>shadow_table := t\<rparr>
          in case host_sender of
               None \<Rightarrow> Some (Inr None, local_destructor_cleanup spec is_local_only sender c1)
             | Some host \<Rightarrow>
                (case try_build_message builder host opcode of
                   Inl e \<Rightarrow> Some (Inl e, c1)
                 | Inr full_msg \<Rightarrow>
                     let c2 = (if is_destructor spec
                               then c1\<lparr>shadow_table := destructor_cleanup sender t\<rparr> else c1)
                     in Some (Inr (Some (full_msg, mb_fds builder)), c2)))"

definition request_arm ::
    "string \<Rightarrow> message_spec \<Rightarrow> arg_value list \<Rightarrow> 'h handler \<Rightarrow> u32 \<Rightarrow> u16 \<Rightarrow> 'h ctx_scheme \<Rightarrow> 'h dispatch_outcome option" where
  "request_arm interface spec vs handler sender opcode c =
     (let t = shadow_table c
      in if is_pending_destroy_guest t sender then Some (Inl (InvalidObjectId sender), c)
         else case version_validation (ms_since spec) sender (guest_object_version t sender) of
           Some e \<Rightarrow> Some (Inl e, c)
         | None \<Rightarrow>
            (case request_error t (kinds spec) vs of
               Some e \<Rightarrow> Some (Inl e, c)
             | None \<Rightarrow>
                 let host_sender = get_host_id t sender
                 in if host_sender = None \<and> \<not> is_local_only_guest_object t sender
                    then Some (Inl (InvalidObjectId sender), c)
                    else
                      let is_local_only = (host_sender = None \<and> is_local_only_guest_object t sender)
                      in case handler interface (ms_name spec) vs c of
                           None \<Rightarrow> None
                         | Some (Forward, c1) \<Rightarrow>
                             forward_request spec vs sender opcode host_sender is_local_only c1
                         | Some (Drop, c1) \<Rightarrow>
                             Some (Inr None, local_destructor_cleanup spec is_local_only sender c1)))"

definition interface_request ::
    "interface_spec \<Rightarrow> wire_message \<Rightarrow> 'h handler \<Rightarrow> 'h ctx_scheme \<Rightarrow> ('h dispatch_outcome \<times> wire_message) option" where
  "interface_request i msg handler c =
     (case from_wire (requests_of i) msg of
        (Inl e, msg') \<Rightarrow> Some ((Inl e, c), msg')
      | (Inr (spec, vs), msg') \<Rightarrow>
          map_option (\<lambda>r. (r, msg'))
            (request_arm (is_name i) spec vs handler (msg_sender_id msg) (msg_opcode msg) c))"

definition event_arm ::
    "string \<Rightarrow> message_spec \<Rightarrow> arg_value list \<Rightarrow> 'h handler \<Rightarrow> u32 \<Rightarrow> u16 \<Rightarrow> 'h ctx_scheme \<Rightarrow> 'h dispatch_outcome option" where
  "event_arm interface spec vs handler sender opcode c =
     (case version_validation (ms_since spec) sender (host_object_version (shadow_table c) sender) of
        Some e \<Rightarrow> Some (Inl e, c)
      | None \<Rightarrow>
         (case event_check (shadow_table c) (kinds spec) vs of
            Some (Inl e) \<Rightarrow> Some (Inl e, c)
          | Some (Inr ()) \<Rightarrow> Some (Inr None, c)
          | None \<Rightarrow>
              let mapped_guest_sender = get_guest_id (shadow_table c) sender
              in case handler interface (ms_name spec) vs c of
                   None \<Rightarrow> None
                 | Some (Drop, c1) \<Rightarrow> Some (Inr None, c1)
                 | Some (Forward, c1) \<Rightarrow>
                    (case write_event_args sender (kinds spec) vs (shadow_table c1) message_builder_new of
                       None \<Rightarrow> None
                     | Some (None, t) \<Rightarrow> Some (Inr None, c1\<lparr>shadow_table := t\<rparr>)
                     | Some (Some builder, t) \<Rightarrow>
                         let c2 = c1\<lparr>shadow_table := t\<rparr>
                         in case mapped_guest_sender of
                              None \<Rightarrow> Some (Inr None, c2)
                            | Some guest \<Rightarrow>
                               (case try_build_message builder guest opcode of
                                  Inl e \<Rightarrow> Some (Inl e, c2)
                                | Inr full_msg \<Rightarrow>
                                    Some (Inr (Some (full_msg, mb_fds builder)),
                                      if is_destructor spec
                                      then c2\<lparr>shadow_table := remove_id guest t\<rparr> else c2)))))"

definition interface_event ::
    "interface_spec \<Rightarrow> wire_message \<Rightarrow> 'h handler \<Rightarrow> 'h ctx_scheme \<Rightarrow> ('h dispatch_outcome \<times> wire_message) option" where
  "interface_event i msg handler c =
     (if \<not> is_event_sender_known (shadow_table c) (msg_sender_id msg) then Some ((Inr None, c), msg)
      else case from_wire (events_of i) msg of
        (Inl e, msg') \<Rightarrow> Some ((Inl e, c), msg')
      | (Inr (spec, vs), msg') \<Rightarrow>
          map_option (\<lambda>r. (r, msg'))
            (event_arm (is_name i) spec vs handler (msg_sender_id msg) (msg_opcode msg) c))"

definition interface_consume :: "interface_spec \<Rightarrow> wire_message \<Rightarrow> unit read_result" where
  "interface_consume i msg = map_read (\<lambda>_. ()) (from_wire (events_of i) msg)"

section \<open>Routing\<close>

definition interface_in :: "protocol \<Rightarrow> string \<Rightarrow> interface_spec option" where
  "interface_in p name = find (\<lambda>i. is_name i = name) (pr_interfaces p)"

definition classify_interface :: "protocol list \<Rightarrow> string \<Rightarrow> protocol option" where
  "classify_interface ps name = find (\<lambda>p. interface_in p name \<noteq> None) ps"

definition protocol_request ::
    "protocol \<Rightarrow> string \<Rightarrow> wire_message \<Rightarrow> 'h handler \<Rightarrow> 'h ctx_scheme \<Rightarrow> ('h dispatch_outcome \<times> wire_message) option" where
  "protocol_request p name msg handler c =
     (let c1 = c\<lparr>last_sender_id := msg_sender_id msg\<rparr>
      in case interface_in p name of
           Some i \<Rightarrow> interface_request i msg handler c1
         | None \<Rightarrow> Some ((Inr None, c1), msg))"

definition protocol_event ::
    "protocol \<Rightarrow> string \<Rightarrow> wire_message \<Rightarrow> 'h handler \<Rightarrow> 'h ctx_scheme \<Rightarrow> ('h dispatch_outcome \<times> wire_message) option" where
  "protocol_event p name msg handler c =
     (let c1 = c\<lparr>last_sender_id := msg_sender_id msg\<rparr>
      in case interface_in p name of
           Some i \<Rightarrow> interface_event i msg handler c1
         | None \<Rightarrow> Some ((Inr None, c1), msg))"

definition protocol_consume :: "protocol \<Rightarrow> string \<Rightarrow> wire_message \<Rightarrow> unit read_result" where
  "protocol_consume p name msg =
     (case interface_in p name of
        Some i \<Rightarrow> interface_consume i msg
      | None \<Rightarrow> (Inl (InvalidObjectId (msg_sender_id msg)), msg))"

text \<open>
  The routing entry points together with their only callers in \<^verbatim>\<open>proxy.rs\<close>: an interface of no
  protocol is ignored, and the objects of the \<open>aura_shell\<close> protocol, which the proxy binds for
  itself, have no handler; their events are skipped unread.
\<close>

definition dispatch_request ::
    "protocol list \<Rightarrow> string \<Rightarrow> wire_message \<Rightarrow> 'h handler \<Rightarrow> 'h ctx_scheme \<Rightarrow> ('h dispatch_outcome \<times> wire_message) option" where
  "dispatch_request ps name msg handler c =
     (case classify_interface ps name of
        None \<Rightarrow> Some ((Inr None, c), msg)
      | Some p \<Rightarrow>
          if pr_name p = ''aura_shell'' then Some ((Inr None, c), msg)
          else protocol_request p name msg handler c)"

definition dispatch_event ::
    "protocol list \<Rightarrow> string \<Rightarrow> wire_message \<Rightarrow> 'h handler \<Rightarrow> 'h ctx_scheme \<Rightarrow> ('h dispatch_outcome \<times> wire_message) option" where
  "dispatch_event ps name msg handler c =
     (case classify_interface ps name of
        None \<Rightarrow> Some ((Inr None, c), msg)
      | Some p \<Rightarrow>
          if pr_name p = ''aura_shell''
          then Some ((Inr None, c), msg\<lparr>msg_offset := length (msg_payload msg)\<rparr>)
          else protocol_event p name msg handler c)"

definition consume_event :: "protocol list \<Rightarrow> string \<Rightarrow> wire_message \<Rightarrow> unit read_result" where
  "consume_event ps name msg =
     (case classify_interface ps name of
        None \<Rightarrow> (Inl (InvalidObjectId (msg_sender_id msg)), msg)
      | Some p \<Rightarrow> protocol_consume p name msg)"

section \<open>Encoded arguments\<close>

definition value_bytes :: "arg_value \<Rightarrow> u8 list" where
  "value_bytes v =
     (case v of
        VInt x \<Rightarrow> i32_bytes x
      | VUint x \<Rightarrow> u32_bytes x
      | VFixed x \<Rightarrow> i32_bytes x
      | VNullableString s \<Rightarrow> nullable_string_bytes s
      | VString s \<Rightarrow> string_bytes s
      | VArray a \<Rightarrow> array_bytes a
      | VFd fd \<Rightarrow> []
      | VObject x \<Rightarrow> u32_bytes x
      | VNewId x \<Rightarrow> u32_bytes x
      | VNewIdAny s ver i \<Rightarrow> string_bytes s @ u32_bytes ver @ u32_bytes i)"

definition value_fds :: "arg_value \<Rightarrow> raw_fd list" where
  "value_fds v = (case v of VFd fd \<Rightarrow> [fd] | _ \<Rightarrow> [])"

definition new_ids :: "arg_value \<Rightarrow> u32 list" where
  "new_ids v = (case v of VNewId i \<Rightarrow> [i] | VNewIdAny _ _ i \<Rightarrow> [i] | _ \<Rightarrow> [])"

abbreviation args_bytes :: "arg_value list \<Rightarrow> u8 list" where
  "args_bytes vs \<equiv> concat (map value_bytes vs)"

abbreviation args_fds :: "arg_value list \<Rightarrow> raw_fd list" where
  "args_fds vs \<equiv> concat (map value_fds vs)"

text \<open>A value of the type its argument declares, within the limits of the wire format.\<close>

definition value_ok :: "arg_kind \<Rightarrow> arg_value \<Rightarrow> bool" where
  "value_ok k v =
     (case (k, v) of
        (KInt, VInt x) \<Rightarrow> in_i32 x
      | (KUint, VUint x) \<Rightarrow> True
      | (KFixed, VFixed x) \<Rightarrow> in_i32 x
      | (KNullableString, VNullableString s) \<Rightarrow> wire_nullable_string s
      | (KString, VString s) \<Rightarrow> wire_string s
      | (KArray, VArray a) \<Rightarrow> wire_array a
      | (KFd, VFd fd) \<Rightarrow> True
      | (KObject _ _, VObject x) \<Rightarrow> True
      | (KNewId _, VNewId x) \<Rightarrow> True
      | (KNewIdAny, VNewIdAny s ver i) \<Rightarrow> wire_string s
      | (KOther, VUint x) \<Rightarrow> True
      | _ \<Rightarrow> False)"

lemmas value_defs = value_ok_def value_bytes_def value_fds_def new_ids_def

lemma value_ok_cases:
  assumes "value_ok k v"
  obtains (int) x where "k = KInt" "v = VInt x" "in_i32 x"
    | (uint) x where "k = KUint \<or> k = KOther" "v = VUint x"
    | (fixed) x where "k = KFixed" "v = VFixed x" "in_i32 x"
    | (nullable) s where "k = KNullableString" "v = VNullableString s" "wire_nullable_string s"
    | (string) s where "k = KString" "v = VString s" "wire_string s"
    | (array) a where "k = KArray" "v = VArray a" "wire_array a"
    | (fd) f where "k = KFd" "v = VFd f"
    | (object) n i x where "k = KObject n i" "v = VObject x"
    | (new_id) i x where "k = KNewId i" "v = VNewId x"
    | (new_id_any) s ver i where "k = KNewIdAny" "v = VNewIdAny s ver i" "wire_string s"
  using assms by (cases k; cases v) (auto simp: value_ok_def)

definition append_value :: "arg_value \<Rightarrow> message_builder \<Rightarrow> message_builder" where
  "append_value v b =
     b\<lparr>mb_payload := mb_payload b @ value_bytes v, mb_fds := mb_fds b @ value_fds v\<rparr>"

lemma write_value_appends: "write_value v b = append_value v b"
  by (cases v) (simp_all add: write_value_def append_value_def value_defs write_fd_def
      i32_codec.wr_appends u32_codec.wr_appends fixed_codec.wr_appends string_codec.wr_appends
      nullable_string_codec.wr_appends array_codec.wr_appends)

text \<open>Reading a value where it was written returns it and moves both cursors behind it.\<close>

definition at_value :: "wire_message \<Rightarrow> u8 list \<Rightarrow> raw_fd list \<Rightarrow> bool" where
  "at_value m bytes fds \<longleftrightarrow>
     (\<exists>pre rest. msg_payload m = pre @ bytes @ rest \<and> msg_offset m = length pre) \<and>
     (\<exists>pre rest. msg_fds m = pre @ fds @ rest \<and> msg_fd_offset m = length pre) \<and>
     length (msg_payload m) < vec_limit"

definition skip_value :: "nat \<Rightarrow> nat \<Rightarrow> wire_message \<Rightarrow> wire_message" where
  "skip_value n k m = m\<lparr>msg_offset := msg_offset m + n, msg_fd_offset := msg_fd_offset m + k\<rparr>"

lemma at_value_skip:
  "at_value m (b1 @ b2) (f1 @ f2) \<Longrightarrow>
     at_value m b1 f1 \<and> at_value (skip_value (length b1) (length f1) m) b2 f2"
  by (auto simp: at_value_def skip_value_def) (metis append.assoc length_append)+

lemma skip_value_skip [simp]:
  "skip_value n k (skip_value n' k' m) = skip_value (n' + n) (k' + k) m"
  by (simp add: skip_value_def add.assoc)

context wire_codec begin

lemma rd_at:
  assumes "valid v" "at_value m (bytes v) fds"
  shows "rd m = (Inr v, skip_value (length (bytes v)) 0 m)"
proof -
  obtain pre rest where "msg_payload m = pre @ bytes v @ rest" "msg_offset m = length pre"
    "length (msg_payload m) < vec_limit"
    using assms(2) by (auto simp: at_value_def)
  from rd_bytes [OF assms(1) this] \<open>msg_offset m = length pre\<close> show ?thesis
    by (simp add: skip_value_def)
qed

end

lemma at_value_split:
  assumes "at_value m (b1 @ b2) fds"
  shows "at_value m b1 []" and "at_value (skip_value (length b1) 0 m) b2 fds"
  using at_value_skip [of m b1 b2 "[]" fds] assms by auto

lemma map_read_Pair [simp]: "map_read f (Inr v, m) = (Inr (f v), m)"
  by (simp add: map_read_def)

lemma read_new_id_any_at:
  assumes "wire_string s" and "at_value m (value_bytes (VNewIdAny s ver i)) fds"
  shows "read_new_id_any m =
    (Inr (VNewIdAny s ver i), skip_value (length (value_bytes (VNewIdAny s ver i))) 0 m)"
proof -
  have at: "at_value m (string_bytes s @ u32_bytes ver @ u32_bytes i) fds"
    using assms(2) by (simp add: value_bytes_def)
  let ?m1 = "skip_value (length (string_bytes s)) 0 m"
  have 1: "read_string m = (Inr s, ?m1)"
    by (rule string_codec.rd_at [OF assms(1) at_value_split(1) [OF at]])
  have at1: "at_value ?m1 (u32_bytes ver @ u32_bytes i) fds"
    by (rule at_value_split(2) [OF at])
  have 2: "read_u32 ?m1 = (Inr ver, skip_value (length (u32_bytes ver)) 0 ?m1)"
    by (rule u32_codec.rd_at [OF TrueI at_value_split(1) [OF at1]])
  have 3: "read_u32 (skip_value (length (u32_bytes ver)) 0 ?m1) =
      (Inr i, skip_value (length (u32_bytes i)) 0 (skip_value (length (u32_bytes ver)) 0 ?m1))"
    by (rule u32_codec.rd_at [OF TrueI at_value_split(2) [OF at1]])
  show ?thesis
    using 1 2 3 by (simp add: read_new_id_any_def value_bytes_def add.assoc)
qed

lemma read_arg_at:
  assumes ok: "value_ok k v" and at: "at_value m (value_bytes v) (value_fds v)"
  shows "read_arg k m = (Inr v, skip_value (length (value_bytes v)) (length (value_fds v)) m)"
  using ok
proof (cases rule: value_ok_cases)
  case (int x)
  then show ?thesis
    using at by (simp add: read_arg_def value_defs i32_codec.rd_at)
next
  case (uint x)
  then show ?thesis
    using at by (auto simp: read_arg_def value_defs u32_codec.rd_at)
next
  case (fixed x)
  then show ?thesis
    using at by (simp add: read_arg_def value_defs fixed_codec.rd_at)
next
  case (nullable s)
  then show ?thesis
    using at by (simp add: read_arg_def value_defs nullable_string_codec.rd_at)
next
  case (string s)
  then show ?thesis
    using at by (simp add: read_arg_def value_defs string_codec.rd_at)
next
  case (array a)
  then show ?thesis
    using at by (simp add: read_arg_def value_defs array_codec.rd_at)
next
  case (fd f)
  then show ?thesis
    using at by (auto simp: read_arg_def value_defs read_fd_def at_value_def skip_value_def)
next
  case (object n i x)
  then show ?thesis
    using at by (simp add: read_arg_def value_defs u32_codec.rd_at)
next
  case (new_id i x)
  then show ?thesis
    using at by (simp add: read_arg_def value_defs u32_codec.rd_at)
next
  case (new_id_any s ver i)
  then show ?thesis
    using at read_new_id_any_at [of s m ver i "value_fds v"]
    by (simp add: read_arg_def) (simp add: value_fds_def)
qed

lemma read_args_at:
  "list_all2 value_ok ks vs \<Longrightarrow> at_value m (args_bytes vs) (args_fds vs) \<Longrightarrow>
     read_args ks m = (Inr vs, skip_value (length (args_bytes vs)) (length (args_fds vs)) m)"
proof (induction arbitrary: m rule: list_all2_induct)
  case Nil
  then show ?case
    by (simp add: skip_value_def)
next
  case (Cons k ks v vs)
  then show ?case
    using at_value_skip [of m "value_bytes v" "args_bytes vs" "value_fds v" "args_fds vs"]
    by (simp add: read_arg_at)
qed

lemma value_bytes_aligned: "value_ok k v \<Longrightarrow> 4 dvd length (value_bytes v)"
  by (erule value_ok_cases) (auto simp: value_defs u32_codec.bytes_aligned i32_codec.bytes_aligned
      nullable_string_codec.bytes_aligned string_codec.bytes_aligned array_codec.bytes_aligned)

section \<open>What is sent for each argument\<close>

text \<open>
  \<open>sent_as old new v v'\<close>: the forwarded message carries \<open>v'\<close> for \<open>v\<close>, where \<open>old\<close> translates the
  objects that exist and \<open>new\<close> those the message creates.  Both directions of the proxy meet the
  same contract, for which only the translation of one argument has to be examined.
\<close>

definition sent_as :: "(u32 \<rightharpoonup> u32) \<Rightarrow> (u32 \<rightharpoonup> u32) \<Rightarrow> arg_value \<Rightarrow> arg_value \<Rightarrow> bool" where
  "sent_as old new v v' =
     (case (v, v') of
        (VObject x, VObject y) \<Rightarrow> (x = 0 \<and> y = 0) \<or> old x = Some y
      | (VNewId x, VNewId y) \<Rightarrow> old x = None \<and> new x = Some y
      | (VNewIdAny s ver x, VNewIdAny s' ver' y) \<Rightarrow>
          s' = s \<and> ver' = ver \<and> old x = None \<and> new x = Some y
      | (VObject _, _) \<Rightarrow> False
      | (VNewId _, _) \<Rightarrow> False
      | (VNewIdAny _ _ _, _) \<Rightarrow> False
      | _ \<Rightarrow> v' = v)"

definition objects :: "arg_value \<Rightarrow> u32 list" where
  "objects v = (case v of VObject x \<Rightarrow> [x] | _ \<Rightarrow> [])"

abbreviation all_new_ids :: "arg_value list \<Rightarrow> u32 list" where
  "all_new_ids vs \<equiv> concat (map new_ids vs)"

abbreviation all_objects :: "arg_value list \<Rightarrow> u32 list" where
  "all_objects vs \<equiv> concat (map objects vs)"

locale arg_translation =
  fixes write_arg :: "arg_kind \<Rightarrow> arg_value \<Rightarrow> shadow_table \<Rightarrow> message_builder \<Rightarrow> write_result"
    and write_args :: "arg_kind list \<Rightarrow> arg_value list \<Rightarrow> shadow_table \<Rightarrow> message_builder \<Rightarrow> write_result"
    and image :: "shadow_table \<Rightarrow> u32 \<rightharpoonup> u32"
    and supported :: "arg_kind \<Rightarrow> bool"
  assumes args_nil: "write_args [] [] t b = Some (Some b, t)"
    and args_cons: "write_args (k # ks) (v # vs) t b =
      (case write_arg k v t b of
         Some (Some b', t') \<Rightarrow> write_args ks vs t' b' | r \<Rightarrow> r)"
    and arg_sent: "paired t \<Longrightarrow> supported k \<Longrightarrow> value_ok k v \<Longrightarrow> list_all (\<lambda>i. image t i = None) (new_ids v) \<Longrightarrow>
      write_arg k v t b = Some (Some b', t') \<Longrightarrow>
      paired t' \<and> (\<forall>x. x \<notin> set (new_ids v) \<longrightarrow> image t' x = image t x) \<and>
      (\<exists>v'. value_ok k v' \<and> length (value_bytes v') = length (value_bytes v) \<and>
        sent_as (image t) (image t') v v' \<and> b' = append_value v' b)"
begin

lemma sent_as_old:
  assumes "sent_as (image t1) new v v'" and "\<forall>x. x \<notin> N \<longrightarrow> image t1 x = image t x"
    and "set (objects v) \<inter> N = {}" and "list_all (\<lambda>i. image t i = None) (new_ids v)"
  shows "sent_as (image t) new v v'"
  using assms by (cases v; cases v') (auto simp: sent_as_def new_ids_def objects_def)

lemma sent_as_new:
  assumes "sent_as old (image t1) v v'" and "\<forall>x. x \<notin> N \<longrightarrow> image t2 x = image t1 x"
    and "set (new_ids v) \<inter> N = {}"
  shows "sent_as old (image t2) v v'"
  using assms by (cases v; cases v') (auto simp: sent_as_def new_ids_def)

lemma write_args_sent:
  "list_all2 (\<lambda>k v. supported k \<and> value_ok k v) ks vs \<Longrightarrow> paired t \<Longrightarrow>
   distinct (all_new_ids vs) \<Longrightarrow> list_all (\<lambda>i. image t i = None) (all_new_ids vs) \<Longrightarrow>
   set (all_objects vs) \<inter> set (all_new_ids vs) = {} \<Longrightarrow>
   write_args ks vs t b = Some (Some b', t') \<Longrightarrow>
   paired t' \<and> (\<forall>x. x \<notin> set (all_new_ids vs) \<longrightarrow> image t' x = image t x) \<and>
   (\<exists>vs'. list_all2 value_ok ks vs' \<and> length (args_bytes vs') = length (args_bytes vs) \<and>
     list_all2 (sent_as (image t) (image t')) vs vs' \<and> b' = fold append_value vs' b)"
proof (induction arbitrary: t b rule: list_all2_induct)
  case Nil
  then show ?case
    by (simp add: args_nil)
next
  case (Cons k ks v vs)
  then obtain b1 t1 where w: "write_arg k v t b = Some (Some b1, t1)"
      "write_args ks vs t1 b1 = Some (Some b', t')"
    by (auto simp: args_cons split: option.splits prod.splits)
  let ?N = "set (new_ids v)" and ?M = "set (all_new_ids vs)"
  have dj: "?N \<inter> ?M = {}" "set (objects v) \<inter> ?M = {}" "set (all_objects vs) \<inter> ?M = {}"
      "set (all_objects vs) \<inter> ?N = {}"
    using Cons.prems(2,4) by auto
  have none: "list_all (\<lambda>i. image t i = None) (new_ids v)" "list_all (\<lambda>i. image t i = None) (all_new_ids vs)"
    using Cons.prems(3) by simp_all
  obtain v' where p1: "paired t1" and f1: "\<forall>x. x \<notin> ?N \<longrightarrow> image t1 x = image t x"
    and v': "value_ok k v'" "length (value_bytes v') = length (value_bytes v)"
      "sent_as (image t) (image t1) v v'" "b1 = append_value v' b"
    using arg_sent [OF Cons.prems(1) _ _ none(1) w(1)] Cons.hyps by blast
  have "\<forall>i\<in>?M. image t i = None"
    using none(2) unfolding list_all_iff .
  then have none1: "list_all (\<lambda>i. image t1 i = None) (all_new_ids vs)"
    unfolding list_all_iff using f1 dj(1) by (metis disjoint_iff)
  obtain vs' where p2: "paired t'" and f2: "\<forall>x. x \<notin> ?M \<longrightarrow> image t' x = image t1 x"
    and vs': "list_all2 value_ok ks vs'" "length (args_bytes vs') = length (args_bytes vs)"
      "list_all2 (sent_as (image t1) (image t')) vs vs'" "b' = fold append_value vs' b1"
    using Cons.IH [OF p1 _ none1 dj(3) w(2)] Cons.prems(2) by auto
  have "sent_as (image t) (image t') v v'"
    by (rule sent_as_new [OF v'(3) f2 dj(1)])
  moreover have "list_all2 (sent_as (image t) (image t')) vs vs'"
    using vs'(3) dj(4) none(2)
  proof (induction rule: list_all2_induct)
    case (Cons x xs y ys)
    then show ?case
      using sent_as_old [OF _ f1, of "image t'" x y] by (auto simp: list_all_iff)
  qed simp
  moreover have "\<forall>x. x \<notin> set (all_new_ids (v # vs)) \<longrightarrow> image t' x = image t x"
    using f1 f2 by auto
  ultimately show ?case
    using p2 v' vs' by (intro conjI exI [of _ "v' # vs'"]) simp_all
qed

end

lemma map_new_pair:
  assumes "paired t" "guest_to_host t g = None" "host_to_guest t h = None"
  shows "paired (map_id g h t)" and "get_host_id (map_id g h t) = (get_host_id t)(g \<mapsto> h)"
    and "get_guest_id (map_id g h t) = (get_guest_id t)(h \<mapsto> g)"
proof -
  show "paired (map_id g h t)"
    by (rule paired_map_id [OF assms(1)])
  have "guest_to_host t x \<noteq> Some h" "host_to_guest t y \<noteq> Some g" for x y
    using assms by (metis option.distinct(1) paired_def)+
  then show "get_host_id (map_id g h t) = (get_host_id t)(g \<mapsto> h)"
    "get_guest_id (map_id g h t) = (get_guest_id t)(h \<mapsto> g)"
    by (auto simp: get_host_id_def get_guest_id_def map_id_maps [OF assms(1)])
qed

text \<open>Recording interfaces and versions, and moving a cursor, leaves the mapping alone.\<close>

definition same_mapping :: "shadow_table \<Rightarrow> shadow_table \<Rightarrow> bool" where
  "same_mapping t t' \<longleftrightarrow> guest_to_host t' = guest_to_host t \<and> host_to_guest t' = host_to_guest t"

lemma same_mappingD:
  "same_mapping t t' \<Longrightarrow> paired t' = paired t \<and> get_host_id t' = get_host_id t \<and>
     get_guest_id t' = get_guest_id t"
  by (simp add: same_mapping_def paired_def get_host_id_def get_guest_id_def fun_eq_iff)

lemma same_mapping_track:
  "same_mapping t (set_host_version h v (track_interface_with_version g i w t))"
  by (simp add: same_mapping_def set_host_version_def track_interface_with_version_def)

lemma allocate_host_id_mapping:
  assumes "allocate_host_id t = (Some h, t1)"
  shows "same_mapping t t1" and "host_to_guest t h = None" and "is_host_id_available t h"
  using allocate_host_id_frame [of t] allocate_host_id_fresh [of t h] assms
  by (auto simp: same_mapping_def is_host_id_available_def)

lemma allocate_guest_server_id_mapping:
  assumes "allocate_guest_server_id t = (Some g, t1)"
  shows "same_mapping t t1" and "guest_to_host t g = None"
  using allocate_guest_server_id_frame [of t] allocate_guest_server_id_fresh [of t g] assms
  by (auto simp: same_mapping_def guest_server_id_free_def)

lemma new_request_object_maps:
  assumes "paired t" "get_host_id t i = None" "new_request_object i n gv hv t b = Some (Some b', t')"
  obtains h where "paired t'" "get_host_id t' = (get_host_id t)(i \<mapsto> h)" "b' = write_u32 h b"
proof -
  obtain h t1 where a: "allocate_host_id t = (Some h, t1)"
    and t': "t' = set_host_version h hv (track_interface_with_version i n gv (map_id i h t1))"
    and b': "b' = write_u32 h b"
    using assms(3) by (auto simp: new_request_object_def Let_def split: prod.splits option.splits)
  note m = same_mappingD [OF allocate_host_id_mapping(1) [OF a]]
  have "host_to_guest t1 h = None" "guest_to_host t1 i = None"
    using allocate_host_id_mapping(1,2) [OF a] assms(2) by (simp_all add: same_mapping_def get_host_id_def)
  then show ?thesis
    using that [of h] map_new_pair [of t1 i h] m assms(1) b'
      same_mappingD [OF same_mapping_track [of "map_id i h t1" h hv i n gv]]
    by (simp add: t')
qed

lemma append_value_simps:
  "write_u32 x b = append_value (VObject x) b"
  "write_u32 x b = append_value (VNewId x) b"
  "write_u32 i (write_u32 ver (write_string s b)) = append_value (VNewIdAny s ver i) b"
  by (simp_all add: append_value_def value_defs u32_codec.wr_appends string_codec.wr_appends)

lemma write_request_arg_sent:
  assumes "paired t" "value_ok k v" "list_all (\<lambda>i. get_host_id t i = None) (new_ids v)"
    and "write_request_arg sender k v t b = Some (Some b', t')"
  shows "paired t' \<and> (\<forall>x. x \<notin> set (new_ids v) \<longrightarrow> get_host_id t' x = get_host_id t x) \<and>
    (\<exists>v'. value_ok k v' \<and> length (value_bytes v') = length (value_bytes v) \<and>
      sent_as (get_host_id t) (get_host_id t') v v' \<and> b' = append_value v' b)"
  using assms(2)
proof (cases rule: value_ok_cases)
  case (object n i x)
  then obtain y where "t' = t" "(x = 0 \<and> y = 0) \<or> get_host_id t x = Some y" "b' = write_u32 y b"
    using assms(4) by (auto simp: write_request_arg_def split: if_splits option.splits)
  with object assms(1) show ?thesis
    by (intro conjI exI [of _ "VObject y"])
      (simp_all add: append_value_simps(1) value_ok_def sent_as_def value_bytes_def u32_bytes_def)
next
  case (new_id n i)
  then obtain gv hv where "new_request_object i n gv hv t b = Some (Some b', t')"
    using assms(4) by (simp add: write_request_arg_def Let_def)
  moreover have "get_host_id t i = None"
    using assms(3) new_id by (simp add: new_ids_def)
  ultimately obtain h where "paired t'" "get_host_id t' = (get_host_id t)(i \<mapsto> h)" "b' = write_u32 h b"
    using new_request_object_maps assms(1) by metis
  with new_id assms(3) show ?thesis
    by (intro conjI exI [of _ "VNewId h"])
      (simp_all add: append_value_simps(2) value_defs sent_as_def u32_bytes_def)
next
  case (new_id_any s ver i)
  then have "new_request_object i (string_of_bytes s) ver ver t (write_u32 ver (write_string s b)) = Some (Some b', t')"
    using assms(4) by (simp add: write_request_arg_def)
  moreover have "get_host_id t i = None"
    using assms(3) new_id_any by (simp add: new_ids_def)
  ultimately obtain h where "paired t'" "get_host_id t' = (get_host_id t)(i \<mapsto> h)"
      "b' = write_u32 h (write_u32 ver (write_string s b))"
    using new_request_object_maps assms(1) by metis
  with new_id_any assms(3) show ?thesis
    by (intro conjI exI [of _ "VNewIdAny s ver h"])
      (simp_all add: append_value_simps(3) value_defs sent_as_def u32_bytes_def)
qed (use assms(1,2,4) in \<open>auto simp: write_request_arg_def write_value_appends sent_as_def new_ids_def\<close>)

lemma write_event_arg_sent:
  assumes "paired t" "k \<noteq> KNewIdAny" "value_ok k v" "list_all (\<lambda>i. get_guest_id t i = None) (new_ids v)"
    and "write_event_arg sender k v t b = Some (Some b', t')"
  shows "paired t' \<and> (\<forall>x. x \<notin> set (new_ids v) \<longrightarrow> get_guest_id t' x = get_guest_id t x) \<and>
    (\<exists>v'. value_ok k v' \<and> length (value_bytes v') = length (value_bytes v) \<and>
      sent_as (get_guest_id t) (get_guest_id t') v v' \<and> b' = append_value v' b)"
  using assms(3)
proof (cases rule: value_ok_cases)
  case (object n i x)
  then obtain y where "t' = t" "(x = 0 \<and> y = 0) \<or> get_guest_id t x = Some y" "b' = write_u32 y b"
    using assms(5) by (auto simp: write_event_arg_def split: if_splits option.splits)
  with object assms(1) show ?thesis
    by (intro conjI exI [of _ "VObject y"])
      (simp_all add: append_value_simps(1) value_ok_def sent_as_def value_bytes_def u32_bytes_def)
next
  case (new_id n h)
  obtain g t1 v where a: "allocate_guest_server_id t = (Some g, t1)"
    and t': "t' = set_host_version h v (track_interface_with_version g n v (map_id g h t1))"
    and b': "b' = write_u32 g b"
    using assms(5) new_id by (auto simp: write_event_arg_def Let_def split: prod.splits option.splits)
  have h: "host_to_guest t h = None"
    using assms(4) new_id by (simp add: new_ids_def get_guest_id_def)
  have "host_to_guest t1 h = None" "guest_to_host t1 g = None"
    using allocate_guest_server_id_mapping [OF a] h by (simp_all add: same_mapping_def)
  then have "paired t'" "get_guest_id t' = (get_guest_id t)(h \<mapsto> g)"
    using map_new_pair [of t1 g h] assms(1) same_mappingD [OF allocate_guest_server_id_mapping(1) [OF a]]
      same_mappingD [OF same_mapping_track [of "map_id g h t1" h v g n v]]
    by (simp_all add: t')
  with new_id assms(4) b' show ?thesis
    by (intro conjI exI [of _ "VNewId g"])
      (simp_all add: append_value_simps(2) value_defs sent_as_def u32_bytes_def)
qed (use assms(1,2,3,5) in \<open>auto simp: write_event_arg_def write_value_appends sent_as_def new_ids_def\<close>)

interpretation request_translation:
  arg_translation "write_request_arg sender" "write_request_args sender" get_host_id "\<lambda>_. True" for sender
  by unfold_locales (auto dest: write_request_arg_sent)

interpretation event_translation:
  arg_translation "write_event_arg sender" "write_event_args sender" get_guest_id "\<lambda>k. k \<noteq> KNewIdAny"
  for sender
  by unfold_locales (auto dest: write_event_arg_sent)

text \<open>What the checks before the handler establish for the translation.\<close>

lemma request_checked:
  assumes "list_all2 value_ok ks vs" "request_error t ks vs = None"
  shows "list_all (\<lambda>i. get_host_id t i = None) (all_new_ids vs)"
    and "set (all_objects vs) \<inter> set (all_new_ids vs) = {}"
proof -
  let ?new = "{i. is_guest_id_available t i}"
  have "set (all_new_ids vs) \<subseteq> ?new \<and> set (all_objects vs) \<inter> ?new = {}"
    using assms
  proof (induction rule: list_all2_induct)
    case (Cons k ks v vs)
    then have "request_arg_error t k v = None" "request_error t ks vs = None"
      by (simp_all split: option.splits)
    moreover from this(1) Cons.hyps(1) have "set (new_ids v) \<subseteq> ?new \<and> set (objects v) \<inter> ?new = {}"
      by (auto elim!: value_ok_cases simp: request_arg_error_def new_ids_def objects_def
          is_guest_id_available_def guest_object_matches_def get_host_id_def
          is_local_only_guest_object_def split: if_splits option.splits)
    ultimately show ?case
      using Cons.IH by auto
  qed simp
  then show "list_all (\<lambda>i. get_host_id t i = None) (all_new_ids vs)"
    "set (all_objects vs) \<inter> set (all_new_ids vs) = {}"
    by (auto simp: list_all_iff is_guest_id_available_def get_host_id_def)
qed

lemma event_checked:
  assumes "list_all2 value_ok ks vs" "event_check t ks vs = None" "KNewIdAny \<notin> set ks"
  shows "list_all (\<lambda>i. get_guest_id t i = None) (all_new_ids vs)"
    and "set (all_objects vs) \<inter> set (all_new_ids vs) = {}"
proof -
  let ?new = "{i. is_host_id_available t i}"
  have "set (all_new_ids vs) \<subseteq> ?new \<and> set (all_objects vs) \<inter> ?new = {}"
    using assms
  proof (induction rule: list_all2_induct)
    case (Cons k ks v vs)
    then have "event_arg_check t k v = None" "event_check t ks vs = None" "k \<noteq> KNewIdAny"
      by (auto split: option.splits)
    moreover from this(1,3) Cons.hyps(1) have "set (new_ids v) \<subseteq> ?new \<and> set (objects v) \<inter> ?new = {}"
      by (auto elim!: value_ok_cases simp: event_arg_check_def new_ids_def objects_def
          is_host_id_available_def get_guest_id_def split: if_splits option.splits)
    ultimately show ?case
      using Cons.IH Cons.prems(2) by auto
  qed simp
  then show "list_all (\<lambda>i. get_guest_id t i = None) (all_new_ids vs)"
    "set (all_objects vs) \<inter> set (all_new_ids vs) = {}"
    by (auto simp: list_all_iff is_host_id_available_def get_guest_id_def)
qed

lemma fold_append_value:
  "fold append_value vs b =
     b\<lparr>mb_payload := mb_payload b @ args_bytes vs, mb_fds := mb_fds b @ args_fds vs\<rparr>"
  by (induction vs arbitrary: b) (simp_all add: append_value_def)

lemma sent_as_fds: "list_all2 (sent_as old new) vs vs' \<Longrightarrow> args_fds vs' = args_fds vs"
proof (induction rule: list_all2_induct)
  case (Cons v vs v' vs')
  then have "value_fds v' = value_fds v"
    by (cases v; cases v') (auto simp: sent_as_def value_fds_def)
  with Cons show ?case by simp
qed simp

lemma sent_as_no_new:
  "list_all2 (sent_as old new) vs vs' \<Longrightarrow> all_new_ids vs = [] \<Longrightarrow> list_all2 (sent_as old new') vs vs'"
proof (induction rule: list_all2_induct)
  case (Cons v vs v' vs')
  then have "sent_as old new' v v'"
    by (cases v; cases v') (auto simp: sent_as_def new_ids_def)
  with Cons show ?case by simp
qed simp

text \<open>The bytes of a message: sender, length and opcode, payload.\<close>

definition frame :: "u32 \<Rightarrow> u16 \<Rightarrow> u8 list \<Rightarrow> u8 list" where
  "frame sender op payload =
     u32_to_ne_bytes sender @
     u32_to_ne_bytes (push_bit 16 (of_nat (length payload + 8)) OR ucast op) @ payload"

lemma try_build_frame:
  "try_build_message b s op = Inr m \<Longrightarrow> m = frame s op (mb_payload b)"
  by (auto simp: try_build_message_def usize_checked_add_def frame_def split: option.splits if_splits)

text \<open>The received message as the dispatcher sees it, at its start.\<close>

definition carries :: "wire_message \<Rightarrow> arg_value list \<Rightarrow> bool" where
  "carries msg vs \<longleftrightarrow> msg_payload msg = args_bytes vs \<and> msg_offset msg = 0 \<and>
     msg_fd_offset msg = 0 \<and> take (length (args_fds vs)) (msg_fds msg) = args_fds vs \<and>
     length (msg_payload msg) < vec_limit"

lemma carries_at: "carries msg vs \<Longrightarrow> at_value msg (args_bytes vs) (args_fds vs)"
  by (auto simp: carries_def at_value_def) (metis append_take_drop_id)

lemma from_wire_carries:
  assumes "carries msg vs" "list_all2 value_ok (kinds (specs ! unat (msg_opcode msg))) vs"
    and "unat (msg_opcode msg) < length specs"
  shows "from_wire specs msg = (Inr (specs ! unat (msg_opcode msg), vs),
    skip_value (length (args_bytes vs)) (length (args_fds vs)) msg)"
  using read_args_at [OF assms(2) carries_at [OF assms(1)]] assms(3)
  by (simp add: from_wire_def Let_def)

text \<open>A table that differs from \<open>t\<close> at most in what the removal of \<open>g\<close> touches.\<close>

lemma destructor_cleanup_image:
  assumes "paired t" "x \<noteq> sender"
  shows "get_host_id (destructor_cleanup sender t) x = get_host_id t x"
  using assms remove_id_maps(1) [OF assms(1), of sender]
  by (simp add: destructor_cleanup_def get_host_id_def mark_pending_destroy_def)

lemma forward_request_sent:
  assumes fwd: "forward_request spec vs sender op (Some host) lo c = Some (Inr (Some (m, fds)), c')"
    and p: "paired (shadow_table c)" and ok: "list_all2 value_ok (kinds spec) vs"
    and new: "list_all (\<lambda>i. get_host_id (shadow_table c) i = None) (all_new_ids vs)"
      "set (all_objects vs) \<inter> set (all_new_ids vs) = {}"
    and dist: "distinct (all_new_ids vs)" and snd: "sender \<notin> set (all_new_ids vs)"
  shows "\<exists>vs'. m = frame host op (args_bytes vs') \<and> fds = args_fds vs \<and>
    list_all2 value_ok (kinds spec) vs' \<and>
    list_all2 (sent_as (get_host_id (shadow_table c)) (get_host_id (shadow_table c'))) vs vs'"
proof -
  obtain b t where w: "write_request_args sender (kinds spec) vs (shadow_table c) message_builder_new = Some (Some b, t)"
    and tb: "try_build_message b host op = Inr m" "fds = mb_fds b"
    and c': "shadow_table c' = (if is_destructor spec then destructor_cleanup sender t else t)"
    using fwd by (auto simp: forward_request_def Let_def split: option.splits sum.splits)
  have ok': "list_all2 (\<lambda>k v. True \<and> value_ok k v) (kinds spec) vs"
    using ok by simp
  obtain vs' where vs': "paired t" "list_all2 value_ok (kinds spec) vs'"
      "list_all2 (sent_as (get_host_id (shadow_table c)) (get_host_id t)) vs vs'"
      "b = fold append_value vs' message_builder_new"
    using request_translation.write_args_sent [OF ok' p dist new w] by blast
  have "list_all2 (sent_as (get_host_id (shadow_table c)) (get_host_id (shadow_table c'))) vs vs'"
    using vs'(3) snd
  proof (induction rule: list_all2_induct)
    case (Cons v vs v' vs')
    have im: "\<forall>x. x \<notin> {sender} \<longrightarrow> get_host_id (shadow_table c') x = get_host_id t x"
      using destructor_cleanup_image [OF vs'(1)] by (simp add: c')
    show ?case
      using request_translation.sent_as_new [OF Cons.hyps(1) im] Cons by auto
  qed simp
  then show ?thesis
    using vs' tb try_build_frame [OF tb(1)] sent_as_fds [OF vs'(3)]
    by (auto simp: fold_append_value message_builder_new_def)
qed

lemma carries_consumed:
  "carries msg vs \<Longrightarrow> is_payload_consumed (skip_value (length (args_bytes vs)) n msg) \<and>
     msg_fd_offset (skip_value k (length (args_fds vs)) msg) = length (args_fds vs)"
  by (simp add: carries_def is_payload_consumed_def skip_value_def)

lemma request_arm_forwarded:
  assumes "request_arm name spec vs handler sender op c = Some (Inr (Some (m, fds)), c')"
  obtains host c1 where "get_host_id (shadow_table c) sender = Some host"
    and "request_error (shadow_table c) (kinds spec) vs = None"
    and "handler name (ms_name spec) vs c = Some (Forward, c1)"
    and "forward_request spec vs sender op (Some host) False c1 = Some (Inr (Some (m, fds)), c')"
proof -
  obtain a c1 where h: "handler name (ms_name spec) vs c = Some (a, c1)"
    and chk: "request_error (shadow_table c) (kinds spec) vs = None"
    using assms by (auto simp: request_arm_def Let_def split: if_splits option.splits action.splits)
  have "a = Forward" and f: "forward_request spec vs sender op (get_host_id (shadow_table c) sender)
      (get_host_id (shadow_table c) sender = None \<and> is_local_only_guest_object (shadow_table c) sender) c1
      = Some (Inr (Some (m, fds)), c')"
    using assms h by (auto simp: request_arm_def Let_def split: if_splits option.splits action.splits)
  moreover obtain host where "get_host_id (shadow_table c) sender = Some host"
    using f by (cases "get_host_id (shadow_table c) sender")
      (auto simp: forward_request_def Let_def split: option.splits)
  ultimately show ?thesis
    using that [of host c1] h chk by simp
qed

lemma event_arm_forwarded:
  assumes "event_arm name spec vs handler sender op c = Some (Inr (Some (m, fds)), c')"
  obtains guest c1 b t where "get_guest_id (shadow_table c) sender = Some guest"
    and "event_check (shadow_table c) (kinds spec) vs = None"
    and "handler name (ms_name spec) vs c = Some (Forward, c1)"
    and "write_event_args sender (kinds spec) vs (shadow_table c1) message_builder_new = Some (Some b, t)"
    and "try_build_message b guest op = Inr m" and "fds = mb_fds b"
    and "shadow_table c' = (if is_destructor spec then remove_id guest t else t)"
proof -
  have v: "version_validation (ms_since spec) sender (host_object_version (shadow_table c) sender) = None"
    using assms by (cases "version_validation (ms_since spec) sender (host_object_version (shadow_table c) sender)")
      (simp_all add: event_arm_def)
  have e: "event_check (shadow_table c) (kinds spec) vs = None"
  proof (rule ccontr)
    assume "event_check (shadow_table c) (kinds spec) vs \<noteq> None"
    then obtain r where "event_check (shadow_table c) (kinds spec) vs = Some r"
      by blast
    with assms show False
      by (cases r) (simp_all add: event_arm_def v split: unit.splits)
  qed
  note chk = v e
  obtain a c1 where h: "handler name (ms_name spec) vs c = Some (a, c1)"
    using assms by (cases "handler name (ms_name spec) vs c") (auto simp add: event_arm_def chk Let_def)
  have a: "a = Forward"
    using assms by (cases a) (simp_all add: event_arm_def chk Let_def h)
  note arm = assms [unfolded event_arm_def chk Let_def h a option.case prod.case action.case]
  obtain b t where w: "write_event_args sender (kinds spec) vs (shadow_table c1) message_builder_new = Some (Some b, t)"
    using arm by (auto split: option.splits)
  obtain guest where g: "get_guest_id (shadow_table c) sender = Some guest"
    using arm by (auto simp: w split: option.splits)
  have "try_build_message b guest op = Inr m" "fds = mb_fds b"
    "shadow_table c' = (if is_destructor spec then remove_id guest t else t)"
    using arm by (auto simp: w g split: sum.splits)
  then show ?thesis
    using that g chk(2) h w by (simp add: a)
qed

section \<open>An example\<close>

text \<open>\<open>wl_compositor.create_surface\<close> and \<open>wl_surface.enter\<close>, for the witnesses below.\<close>

definition create_surface :: message_spec where
  "create_surface = \<lparr>ms_name = ''create_surface'', ms_type = None, ms_since = None,
     ms_args = [\<lparr>arg_typ = ''new_id'', arg_interface = Some ''wl_surface'', arg_allow_null = None\<rparr>]\<rparr>"

definition surface_enter :: message_spec where
  "surface_enter = \<lparr>ms_name = ''enter'', ms_type = None, ms_since = None,
     ms_args = [\<lparr>arg_typ = ''object'', arg_interface = Some ''wl_output'', arg_allow_null = None\<rparr>]\<rparr>"

definition example_interface :: interface_spec where
  "example_interface = \<lparr>is_name = ''wl_compositor'',
     is_items = [OtherItem, RequestItem create_surface, EventItem surface_enter]\<rparr>"

definition example_table :: shadow_table where
  "example_table = track_interface 4 ''wl_output'' (map_id 4 8
     (track_interface 3 ''wl_compositor'' (map_id 3 7 shadow_table_new)))"

definition forward_all :: "unit handler" where
  "forward_all = (\<lambda>_ _ _ c. Some (Forward, c))"

lemma example_messages:
  "requests_of example_interface = [create_surface]" "events_of example_interface = [surface_enter]"
  "kinds create_surface = [KNewId ''wl_surface'']"
  "kinds surface_enter = [KObject False (Some ''wl_output'')]"
  "ms_since create_surface = None" "ms_since surface_enter = None" "\<not> is_destructor surface_enter"
  by (simp_all add: requests_of_def events_of_def example_interface_def List.map_filter_simps kinds_def
      kind_of_def create_surface_def surface_enter_def is_destructor_def)

lemma example_paired: "paired example_table"
  using shadow_pairing.run_always [OF paired_new,
      of "[MapId 3 7, TrackInterface 3 ''wl_compositor'', MapId 4 8, TrackInterface 4 ''wl_output'']"]
  by (simp add: example_table_def)

lemmas table_defs = track_interface_def map_id_def shadow_table_new_def get_host_id_def get_guest_id_def
  guest_object_version_def host_object_version_def is_guest_id_available_def GUEST_SERVER_ID_START_def
  is_pending_destroy_guest_def is_pending_destroy_host_def UNKNOWN_OBJECT_VERSION_def
  host_object_matches_def is_event_sender_known_def

lemma example_lookups:
  "get_host_id example_table 3 = Some 7" "guest_object_version example_table 3 = Some 0xffffffff"
  "host_object_version example_table 7 = Some 0xffffffff" "is_guest_id_available example_table 5"
  "\<not> is_pending_destroy_guest example_table 3" "get_guest_id example_table 7 = Some 3"
  "get_guest_id example_table 8 = Some 4" "host_object_matches example_table 8 ''wl_output''"
  "\<not> is_pending_destroy_host example_table 8" "is_event_sender_known example_table 7"
  by (simp_all add: example_table_def table_defs)

lemma example_allocates: "allocate_host_id example_table = (Some 2, example_table\<lparr>next_host_id := 3\<rparr>)"
  unfolding allocate_host_id_def
  by (subst allocate_host_loop.simps) (simp add: example_table_def table_defs host_id_free_def Let_def max_def)

lemma try_build_word:
  "try_build_message (write_u32 x message_builder_new) s op = Inr (frame s op (u32_bytes x))"
  by (subst try_build_message_ok)
    (simp_all add: write_u32_def message_builder_new_def frame_def u32_bytes_def)

lemma carries_word: "carries (wire_message_new s op (u32_bytes x) fds) [VNewId x]"
  "carries (wire_message_new s op (u32_bytes x) fds) [VObject x]"
  by (simp_all add: carries_def wire_message_new_def value_defs vec_limit_def u32_bytes_def)

lemma create_surface_forwarded:
  assumes "shadow_table c = example_table"
  shows "\<exists>m fds c' msg'. is_payload_consumed msg' \<and>
    interface_request example_interface (wire_message_new 3 0 (u32_bytes 5) [44]) forward_all c
      = Some ((Inr (Some (m, fds)), c'), msg')"
proof -
  obtain t where w: "write_request_arg 3 (KNewId ''wl_surface'') (VNewId 5) example_table message_builder_new
     = Some (Some (write_u32 2 message_builder_new), t)"
    by (simp add: write_request_arg_def new_request_object_def example_allocates example_lookups)
  have "request_arg_error example_table (KNewId ''wl_surface'') (VNewId 5) = None"
    by (simp add: request_arg_error_def example_lookups)
  moreover have "from_wire [create_surface] (wire_message_new 3 0 (u32_bytes 5) [44]) =
      (Inr (create_surface, [VNewId 5]), skip_value 4 0 (wire_message_new 3 0 (u32_bytes 5) [44]))"
    using from_wire_carries [OF carries_word(1) [where s = 3 and op = 0 and x = 5 and fds = "[44]"],
      where specs = "[create_surface]"]
    by (simp add: wire_message_new_def example_messages value_defs u32_bytes_def)
  moreover have "is_payload_consumed (skip_value 4 0 (wire_message_new 3 0 (u32_bytes 5) [44]))"
    by (simp add: is_payload_consumed_def skip_value_def wire_message_new_def u32_bytes_def)
  ultimately show ?thesis
    by (simp add: assms interface_request_def request_arm_def example_lookups version_validation_def
        forward_request_def w try_build_word example_messages Let_def forward_all_def
        wire_message_new_def [THEN arg_cong, of msg_sender_id] wire_message_new_def [THEN arg_cong, of msg_opcode])
qed

lemma surface_enter_forwarded:
  "\<exists>m fds c' msg'. interface_event example_interface (wire_message_new 7 0 (u32_bytes 8) []) forward_all
     (context_empty\<lparr>shadow_table := example_table\<rparr>) = Some ((Inr (Some (m, fds)), c'), msg')"
proof -
  have "from_wire [surface_enter] (wire_message_new 7 0 (u32_bytes 8) []) =
      (Inr (surface_enter, [VObject 8]), skip_value 4 0 (wire_message_new 7 0 (u32_bytes 8) []))"
    using from_wire_carries [OF carries_word(2) [where s = 7 and op = 0 and x = 8 and fds = "[]"],
      where specs = "[surface_enter]"]
    by (simp add: wire_message_new_def example_messages value_defs u32_bytes_def)
  then show ?thesis
    by (simp add: interface_event_def event_arm_def example_lookups version_validation_def
        event_arg_check_def write_event_arg_def example_lookups try_build_word example_messages Let_def forward_all_def
        wire_message_new_def [THEN arg_cong, of msg_sender_id] wire_message_new_def [THEN arg_cong, of msg_opcode])
qed

section \<open>Properties\<close>

text \<open>C25: A request that is forwarded reaches the host as the guest sent it: same opcode, same
  arguments in the same order, the same descriptors, with the sender and every object replaced
  by its host counterpart and every new object by a host ID that from now on translates it.  The
  handler may change the table: the objects are translated by the table it leaves, which has to be
  a one-to-one table in which the IDs the request creates are as free as before.\<close>

theorem request_translated_exactly:
  assumes msg: "carries msg vs" "unat (msg_opcode msg) < length (requests_of i)"
    and spec: "spec = requests_of i ! unat (msg_opcode msg)"
    and ok: "list_all2 value_ok (kinds spec) vs" and dist: "distinct (all_new_ids vs)"
    and handler: "handler (is_name i) (ms_name spec) vs c = Some (Forward, c1)"
      "paired (shadow_table c1)"
      "\<forall>x\<in>set (all_new_ids vs). get_host_id (shadow_table c1) x = get_host_id (shadow_table c) x"
    and res: "interface_request i msg handler c = Some ((Inr (Some (m, fds)), c'), msg')"
  shows "\<exists>host vs'. get_host_id (shadow_table c) (msg_sender_id msg) = Some host \<and>
    m = frame host (msg_opcode msg) (args_bytes vs') \<and> fds = args_fds vs \<and>
    list_all2 value_ok (kinds spec) vs' \<and>
    list_all2 (sent_as (get_host_id (shadow_table c1)) (get_host_id (shadow_table c'))) vs vs' \<and>
    is_payload_consumed msg' \<and> msg_fd_offset msg' = length (args_fds vs)"
proof -
  have fw: "from_wire (requests_of i) msg =
      (Inr (spec, vs), skip_value (length (args_bytes vs)) (length (args_fds vs)) msg)"
    using from_wire_carries [OF msg(1) _ msg(2)] ok by (simp add: spec)
  have arm: "request_arm (is_name i) spec vs handler (msg_sender_id msg) (msg_opcode msg) c =
      Some (Inr (Some (m, fds)), c')"
    and msg': "msg' = skip_value (length (args_bytes vs)) (length (args_fds vs)) msg"
    using res by (auto simp: interface_request_def fw)
  from arm obtain host where host: "get_host_id (shadow_table c) (msg_sender_id msg) = Some host"
    and chk: "request_error (shadow_table c) (kinds spec) vs = None"
    and fwd: "forward_request spec vs (msg_sender_id msg) (msg_opcode msg) (Some host) False c1
      = Some (Inr (Some (m, fds)), c')"
    using handler(1) by (auto elim: request_arm_forwarded)
  note free = request_checked [OF ok chk]
  have "msg_sender_id msg \<notin> set (all_new_ids vs)"
    using free(1) host unfolding list_all_iff by force
  moreover have "list_all (\<lambda>x. get_host_id (shadow_table c1) x = None) (all_new_ids vs)"
    using free(1) handler(3) unfolding list_all_iff by metis
  ultimately show ?thesis
    using forward_request_sent [OF fwd handler(2) ok _ free(2) dist] host carries_consumed [OF msg(1)]
    by (auto simp: msg')
qed

theorem request_translated_exactly_witness:
  "\<exists>m fds c' msg' host vs'.
     interface_request example_interface (wire_message_new 3 0 (u32_bytes 5) [44]) forward_all
       (context_empty\<lparr>shadow_table := example_table\<rparr>) = Some ((Inr (Some (m, fds)), c'), msg') \<and>
     m = frame host 0 (args_bytes vs') \<and> get_host_id example_table 3 = Some host \<and>
     list_all2 (sent_as (get_host_id example_table) (get_host_id (shadow_table c'))) [VNewId 5] vs'"
proof -
  let ?msg = "wire_message_new 3 0 (u32_bytes 5) [44]"
  let ?c = "context_empty\<lparr>shadow_table := example_table\<rparr>"
  obtain m fds c' msg' where res: "interface_request example_interface ?msg forward_all ?c
      = Some ((Inr (Some (m, fds)), c'), msg')"
    using create_surface_forwarded [of ?c] by auto
  have p: "paired (shadow_table ?c)" "\<forall>x\<in>set (all_new_ids [VNewId 5]). get_host_id (shadow_table ?c) x = get_host_id (shadow_table ?c) x"
    by (simp_all add: example_paired)
  have op: "msg_opcode ?msg = 0" "msg_sender_id ?msg = 3"
    by (simp_all add: wire_message_new_def)
  have h: "forward_all (is_name example_interface) (ms_name create_surface) [VNewId 5] ?c = Some (Forward, ?c)"
    by (simp add: forward_all_def)
  show ?thesis
    using request_translated_exactly [OF carries_word(1) _ _ _ _ h p res] res
    by (simp add: op example_messages value_ok_def new_ids_def) blast
qed

text \<open>C26: An event that is forwarded reaches the guest as the host sent it: same opcode, arguments and
  descriptors, with the sender, every object and every new object translated into the guest's IDs.
  The handler may change the table: objects are translated by the table it leaves, which has to be a
  one-to-one table in which the IDs the event creates are as free as before.  Events that create an
  object of an interface named in the message, and destructor events that create objects, are
  outside (no protocol of the proxy declares one).\<close>

theorem event_translated_exactly:
  assumes msg: "carries msg vs" "unat (msg_opcode msg) < length (events_of i)"
    and spec: "spec = events_of i ! unat (msg_opcode msg)" "KNewIdAny \<notin> set (kinds spec)"
      "is_destructor spec \<Longrightarrow> all_new_ids vs = []"
    and ok: "list_all2 value_ok (kinds spec) vs" and dist: "distinct (all_new_ids vs)"
    and handler: "handler (is_name i) (ms_name spec) vs c = Some (Forward, c1)"
      "paired (shadow_table c1)"
      "\<forall>x\<in>set (all_new_ids vs). get_guest_id (shadow_table c1) x = get_guest_id (shadow_table c) x"
    and res: "interface_event i msg handler c = Some ((Inr (Some (m, fds)), c'), msg')"
  shows "\<exists>guest vs'. get_guest_id (shadow_table c) (msg_sender_id msg) = Some guest \<and>
    m = frame guest (msg_opcode msg) (args_bytes vs') \<and> fds = args_fds vs \<and>
    list_all2 value_ok (kinds spec) vs' \<and>
    list_all2 (sent_as (get_guest_id (shadow_table c1)) (get_guest_id (shadow_table c'))) vs vs' \<and>
    is_payload_consumed msg' \<and> msg_fd_offset msg' = length (args_fds vs)"
proof -
  have fw: "from_wire (events_of i) msg =
      (Inr (spec, vs), skip_value (length (args_bytes vs)) (length (args_fds vs)) msg)"
    using from_wire_carries [OF msg(1) _ msg(2)] ok by (simp add: spec)
  have arm: "event_arm (is_name i) spec vs handler (msg_sender_id msg) (msg_opcode msg) c =
      Some (Inr (Some (m, fds)), c')"
    and msg': "msg' = skip_value (length (args_bytes vs)) (length (args_fds vs)) msg"
    using res by (auto simp: interface_event_def fw split: if_splits)
  from arm obtain guest b t where guest: "get_guest_id (shadow_table c) (msg_sender_id msg) = Some guest"
    and chk: "event_check (shadow_table c) (kinds spec) vs = None"
    and w: "write_event_args (msg_sender_id msg) (kinds spec) vs (shadow_table c1) message_builder_new
      = Some (Some b, t)"
    and tb: "try_build_message b guest (msg_opcode msg) = Inr m" "fds = mb_fds b"
    and c': "shadow_table c' = (if is_destructor spec then remove_id guest t else t)"
    using handler(1) by (auto elim!: event_arm_forwarded)
  have ok': "list_all2 (\<lambda>k v. k \<noteq> KNewIdAny \<and> value_ok k v) (kinds spec) vs"
    using ok spec(2) unfolding list_all2_conv_all_nth by (metis nth_mem)
  note free = event_checked [OF ok chk spec(2)]
  have "list_all (\<lambda>x. get_guest_id (shadow_table c1) x = None) (all_new_ids vs)"
    using free(1) handler(3) unfolding list_all_iff by metis
  from event_translation.write_args_sent [OF ok' handler(2) dist this free(2) w]
  obtain vs' where vs': "list_all2 value_ok (kinds spec) vs'"
      "list_all2 (sent_as (get_guest_id (shadow_table c1)) (get_guest_id t)) vs vs'"
      "b = fold append_value vs' message_builder_new"
    by blast
  have "list_all2 (sent_as (get_guest_id (shadow_table c1)) (get_guest_id (shadow_table c'))) vs vs'"
    using vs'(2) spec(3) sent_as_no_new [OF vs'(2)] by (cases "is_destructor spec") (simp_all add: c')
  then show ?thesis
    using guest vs' tb(2) try_build_frame [OF tb(1)] sent_as_fds [OF vs'(2)] carries_consumed [OF msg(1)]
    by (auto simp: fold_append_value message_builder_new_def msg')
qed

theorem event_translated_exactly_witness:
  "\<exists>m fds c' msg' guest vs'.
     interface_event example_interface (wire_message_new 7 0 (u32_bytes 8) []) forward_all
       (context_empty\<lparr>shadow_table := example_table\<rparr>) = Some ((Inr (Some (m, fds)), c'), msg') \<and>
     m = frame guest 0 (args_bytes vs') \<and> get_guest_id example_table 7 = Some guest \<and>
     list_all2 (sent_as (get_guest_id example_table) (get_guest_id (shadow_table c'))) [VObject 8] vs'"
proof -
  let ?msg = "wire_message_new 7 0 (u32_bytes 8) []"
  let ?c = "context_empty\<lparr>shadow_table := example_table\<rparr>"
  obtain m fds c' msg' where res: "interface_event example_interface ?msg forward_all ?c
      = Some ((Inr (Some (m, fds)), c'), msg')"
    using surface_enter_forwarded by blast
  have p: "paired (shadow_table ?c)" "\<forall>x\<in>set (all_new_ids [VObject 8]). get_guest_id (shadow_table ?c) x = get_guest_id (shadow_table ?c) x"
    by (simp_all add: example_paired)
  have op: "msg_opcode ?msg = 0" "msg_sender_id ?msg = 7"
    by (simp_all add: wire_message_new_def)
  have h: "forward_all (is_name example_interface) (ms_name surface_enter) [VObject 8] ?c = Some (Forward, ?c)"
    by (simp add: forward_all_def)
  show ?thesis
    using event_translated_exactly [OF carries_word(2) _ _ _ _ _ _ h p res] res
    by (simp add: op example_messages value_ok_def new_ids_def) blast
qed

end
