(* ===== verification/Proxy_Loop.thy ===== *)
theory Proxy_Loop
  imports Dispatch Connection
begin

text \<open>
  The message pump of one client (\<^verbatim>\<open>sommelier/src/proxy.rs\<close>): framing of the byte stream,
  association of descriptors with messages, suppression of stale host events, the bounded batch,
  the queues of the handlers, the closing of descriptors, and the choice of the direction that is
  served next.  The handlers and what the kernel returns are parameters; \<open>None\<close> is a panic.
\<close>

section \<open>Helpers\<close>

definition MAX_MESSAGES_PER_BATCH :: nat where
  "MAX_MESSAGES_PER_BATCH = 32"

datatype direction = ClientToHost | HostToClient

definition translated_sender_id :: "shadow_table \<Rightarrow> direction \<Rightarrow> u32 \<Rightarrow> u32 option" where
  "translated_sender_id t dir sender =
     (case dir of ClientToHost \<Rightarrow> get_host_id t sender | HostToClient \<Rightarrow> get_guest_id t sender)"

definition checked_message_end :: "nat \<Rightarrow> nat \<Rightarrow> nat option" where
  "checked_message_end offset message_len = usize_checked_add offset message_len"

definition valid_message_length :: "nat \<Rightarrow> bool" where
  "valid_message_length n \<longleftrightarrow> 8 \<le> n \<and> n \<le> 0xffff \<and> n mod 4 = 0"

text \<open>The descriptors closed on an early return, in the order they are closed.\<close>

fun close_pending_loop :: "raw_fd set \<Rightarrow> raw_fd set \<Rightarrow> raw_fd list \<Rightarrow> raw_fd list" where
  "close_pending_loop protected closed [] = []"
| "close_pending_loop protected closed (fd # fds) =
     (if fd \<ge> 0 \<and> fd \<notin> protected \<and> fd \<notin> closed
      then fd # close_pending_loop protected (insert fd closed) fds
      else close_pending_loop protected closed fds)"

definition close_pending_output_fds :: "raw_fd list \<Rightarrow> raw_fd list \<Rightarrow> raw_fd list" where
  "close_pending_output_fds out_fds still_owned_fds = close_pending_loop (set still_owned_fds) {} out_fds"

definition EVT_RELEASE :: u16 where "EVT_RELEASE = 0"
definition EVT_CREATED :: u16 where "EVT_CREATED = 0"
definition EVT_FAILED :: u16 where "EVT_FAILED = 1"

definition event_interface :: "shadow_table \<Rightarrow> u32 \<Rightarrow> u32 option \<Rightarrow> string option" where
  "event_interface t sender guest =
     (case get_host_interface t sender of
        Some i \<Rightarrow> Some i
      | None \<Rightarrow> Option.bind guest (get_interface t))"

definition orphan_params :: "'h ctx_scheme \<Rightarrow> u32 \<Rightarrow> u32 option \<Rightarrow> bool" where
  "orphan_params c sender guest \<longleftrightarrow>
     (case guest of Some g \<Rightarrow> is_pending_destroy_guest (shadow_table c) g | None \<Rightarrow> False) \<or>
     orphaned_dmabuf_params c sender \<noteq> None"

definition pending_host_event_is_stale :: "'h ctx_scheme \<Rightarrow> u32 \<Rightarrow> u16 \<Rightarrow> u32 option \<Rightarrow> bool" where
  "pending_host_event_is_stale c sender opcode guest =
     (let interface = event_interface (shadow_table c) sender guest;
          allows_deferred_buffer_release =
            (interface = Some ''wl_buffer'' \<and> opcode = EVT_RELEASE \<and>
             host_buffer_is_guest_destroyed c sender);
          allows_orphan_dmabuf_created =
            (interface = Some ''zwp_linux_buffer_params_v1'' \<and> opcode = EVT_CREATED \<and>
             orphan_params c sender guest);
          allows_orphan_dmabuf_failed =
            (interface = Some ''zwp_linux_buffer_params_v1'' \<and> opcode = EVT_FAILED \<and>
             orphan_params c sender guest)
      in is_pending_destroy_host (shadow_table c) sender \<and> \<not> allows_deferred_buffer_release \<and>
         \<not> allows_orphan_dmabuf_created \<and> \<not> allows_orphan_dmabuf_failed)"

section \<open>The client\<close>

record 'h client =
  client_conn :: connection
  host_conn :: connection
  cl_ctx :: "'h ctx_scheme"

definition connection_of :: "'h client \<Rightarrow> direction \<Rightarrow> connection" where
  "connection_of cl dir = (case dir of ClientToHost \<Rightarrow> client_conn cl | HostToClient \<Rightarrow> host_conn cl)"

definition put_connection :: "direction \<Rightarrow> connection \<Rightarrow> 'h client \<Rightarrow> 'h client" where
  "put_connection dir conn cl =
     (case dir of
        ClientToHost \<Rightarrow> cl\<lparr>client_conn := conn\<rparr>
      | HostToClient \<Rightarrow> cl\<lparr>host_conn := conn\<rparr>)"

section \<open>One message of a batch\<close>

text \<open>
  The local variables of \<open>handle_msgs\<close> with the connection it reads from and the context.  In
  the loop the connection's buffers are only read; its ambiguity flag may be set.
\<close>

record 'h batch =
  bt_conn :: connection
  bt_ctx :: "'h ctx_scheme"
  out_buffer :: "u8 list"
  out_fds :: "raw_fd list"
  bt_offset :: nat
  bt_fd_offset :: nat
  processed_messages :: nat

text \<open>\<open>Break\<close> leaves the loop; \<open>Abort\<close> is \<open>return false\<close>, with the descriptors closed before it.\<close>

datatype 'h batch_step = Continue "'h batch" | Break "'h batch" | Abort "'h batch" "raw_fd list"

definition abort_batch :: "'h batch \<Rightarrow> 'h batch_step" where
  "abort_batch b = Abort b (close_pending_output_fds (out_fds b) (read_fds (bt_conn b)))"

text \<open>Sender, total length and opcode of the header at \<open>offset\<close>.\<close>

definition read_header :: "u8 list \<Rightarrow> nat \<Rightarrow> u32 \<times> nat \<times> u16" where
  "read_header buf offset =
     (let sender = u32_from_ne_bytes (take 4 (drop offset buf));
          word2 = u32_from_ne_bytes (take 4 (drop (offset + 4) buf))
      in (sender, unat (drop_bit 16 word2), ucast (word2 AND 0xFFFF)))"

definition guest_of_sender :: "shadow_table \<Rightarrow> direction \<Rightarrow> u32 \<Rightarrow> u32 option" where
  "guest_of_sender t dir sender =
     (case dir of ClientToHost \<Rightarrow> Some sender | HostToClient \<Rightarrow> get_guest_id t sender)"

definition interface_of_sender :: "shadow_table \<Rightarrow> direction \<Rightarrow> u32 \<Rightarrow> string option" where
  "interface_of_sender t dir sender =
     (case dir of
        ClientToHost \<Rightarrow> get_interface t sender
      | HostToClient \<Rightarrow> event_interface t sender (guest_of_sender t dir sender))"

text \<open>The \<open>match direction\<close> that selects a dispatcher: result, message reader and context after it.\<close>

definition dispatch_message ::
    "protocol list \<Rightarrow> 'h handler \<Rightarrow> direction \<Rightarrow> bool \<Rightarrow> string \<Rightarrow> wire_message \<Rightarrow> 'h ctx_scheme \<Rightarrow>
       ('h dispatch_outcome \<times> wire_message) option" where
  "dispatch_message ps handler dir suppress_host_event interface msg c =
     (case dir of
        ClientToHost \<Rightarrow> dispatch_request ps interface msg handler c
      | HostToClient \<Rightarrow>
          if suppress_host_event then
            (case consume_event ps interface msg of
               (r, msg') \<Rightarrow> Some ((map_sum id (\<lambda>_. None) r, c), msg'))
          else dispatch_event ps interface msg handler c)"

definition message_outcome ::
    "'h dispatch_outcome \<times> wire_message \<Rightarrow> (protocol_error + packet option) \<times> 'h ctx_scheme \<times> nat" where
  "message_outcome r =
     (case r of ((res, c), msg) \<Rightarrow>
        (if is_payload_consumed msg then res else Inl TrailingData, c, msg_fd_offset msg))"

definition patch_sender :: "u32 option \<Rightarrow> u32 option \<Rightarrow> u8 list \<Rightarrow> u8 list" where
  "patch_sender guest target data =
     (case (guest, target) of
        (Some _, Some t) \<Rightarrow> if length data \<ge> 4 then u32_to_ne_bytes t @ drop 4 data else data
      | _ \<Rightarrow> data)"

text \<open>The handlers' queue in the same direction is appended behind the forwarded message.\<close>

definition drain_queue :: "direction \<Rightarrow> 'h batch \<Rightarrow> 'h batch" where
  "drain_queue dir b =
     (let c = bt_ctx b;
          queue = (case dir of ClientToHost \<Rightarrow> client_to_host_queue c
                             | HostToClient \<Rightarrow> host_to_client_queue c)
      in b\<lparr>out_buffer := out_buffer b @ concat (map fst queue),
           out_fds := out_fds b @ concat (map snd queue),
           bt_ctx := (case dir of ClientToHost \<Rightarrow> c\<lparr>client_to_host_queue := []\<rparr>
                                | HostToClient \<Rightarrow> c\<lparr>host_to_client_queue := []\<rparr>)\<rparr>)"

definition finish_message ::
    "direction \<Rightarrow> nat \<Rightarrow> u32 option \<Rightarrow> u32 option \<Rightarrow> protocol_error + packet option \<Rightarrow> nat \<Rightarrow>
       'h batch \<Rightarrow> 'h batch_step" where
  "finish_message dir message_end guest target result consumed_fds b =
     (case result of
        Inl e \<Rightarrow> abort_batch b
      | Inr forwarded \<Rightarrow>
          let b1 = (case forwarded of
                      None \<Rightarrow> b
                    | Some (data, fds) \<Rightarrow>
                        b\<lparr>out_buffer := out_buffer b @ patch_sender guest target data,
                          out_fds := out_fds b @ fds\<rparr>)
          in case usize_checked_add (bt_fd_offset b1) consumed_fds of
               None \<Rightarrow> abort_batch b1
             | Some new_fd_offset \<Rightarrow>
                 if new_fd_offset > length (read_fds (bt_conn b1)) then abort_batch b1
                 else
                   let b2 = drain_queue dir (b1\<lparr>bt_fd_offset := new_fd_offset\<rparr>);
                       b3 = b2\<lparr>bt_offset := message_end,
                               processed_messages := processed_messages b2 + 1\<rparr>
                   in if fatal_protocol_error (bt_ctx b3) then Break b3
                      else if processed_messages b3 \<ge> MAX_MESSAGES_PER_BATCH then Break b3
                      else Continue b3)"

definition tracked_message ::
    "protocol list \<Rightarrow> 'h handler \<Rightarrow> direction \<Rightarrow> u32 \<Rightarrow> u16 \<Rightarrow> string \<Rightarrow> u8 list \<Rightarrow> 'h batch \<Rightarrow>
       ((protocol_error + packet option) \<times> 'h ctx_scheme \<times> nat) option" where
  "tracked_message ps handler dir sender opcode interface packet b =
     (let c = bt_ctx b;
          guest = guest_of_sender (shadow_table c) dir sender;
          suppress_host_event = (dir = HostToClient \<and> pending_host_event_is_stale c sender opcode guest);
          msg = wire_message_new sender opcode (drop 8 packet) (drop (bt_fd_offset b) (read_fds (bt_conn b)))
      in map_option message_outcome
           (dispatch_message ps handler dir suppress_host_event interface msg
              (c\<lparr>last_sender_id := sender\<rparr>)))"

definition process_message ::
    "protocol list \<Rightarrow> 'h handler \<Rightarrow> direction \<Rightarrow> u32 \<Rightarrow> u16 \<Rightarrow> nat \<Rightarrow> 'h batch \<Rightarrow> 'h batch_step option" where
  "process_message ps handler dir sender opcode message_end b =
     (let t = shadow_table (bt_ctx b);
          packet = take (message_end - bt_offset b) (drop (bt_offset b) (read_buf (bt_conn b)));
          guest = guest_of_sender t dir sender;
          target = translated_sender_id t dir sender
      in case interface_of_sender t dir sender of
           Some interface \<Rightarrow>
             map_option (\<lambda>(res, c, consumed).
                 finish_message dir message_end guest target res consumed (b\<lparr>bt_ctx := c\<rparr>))
               (tracked_message ps handler dir sender opcode interface packet b)
         | None \<Rightarrow>
             if guest \<noteq> None \<and> dir = ClientToHost then Some (abort_batch b)
             else
               let conn = bt_conn b;
                   conn' = (if bt_fd_offset b < length (read_fds conn)
                            then conn\<lparr>ambiguous_untracked_fd := True\<rparr> else conn)
               in Some (finish_message dir message_end guest target (Inr None) 0 (b\<lparr>bt_conn := conn'\<rparr>)))"

definition batch_step ::
    "protocol list \<Rightarrow> 'h handler \<Rightarrow> direction \<Rightarrow> 'h batch \<Rightarrow> 'h batch_step option" where
  "batch_step ps handler dir b =
     (let buf = read_buf (bt_conn b)
      in case usize_checked_add (bt_offset b) 8 of
           None \<Rightarrow> Some (Break b)
         | Some header_end \<Rightarrow>
             if header_end > length buf then Some (Break b)
             else case read_header buf (bt_offset b) of (sender, len, opcode) \<Rightarrow>
               if \<not> valid_message_length len then Some (abort_batch b)
               else case checked_message_end (bt_offset b) len of
                 None \<Rightarrow> Some (abort_batch b)
               | Some message_end \<Rightarrow>
                   if message_end > length buf then Some (Break b)
                   else if ambiguous_untracked_fd (bt_conn b) then Some (abort_batch b)
                   else process_message ps handler dir sender opcode message_end b)"

lemma processed_of_finish:
  "finish_message dir e guest target r n b = Continue b' \<Longrightarrow>
     processed_messages b' = Suc (processed_messages b) \<and> processed_messages b' < MAX_MESSAGES_PER_BATCH"
  by (auto simp: finish_message_def abort_batch_def drain_queue_def Let_def
      split: sum.splits option.splits if_splits)

lemma batch_step_processed:
  assumes "batch_step ps handler dir b = Some (Continue b')"
  shows "processed_messages b' = Suc (processed_messages b) \<and>
    processed_messages b' < MAX_MESSAGES_PER_BATCH"
proof -
  have "\<exists>e g t r n b0. finish_message dir e g t r n b0 = Continue b' \<and>
      processed_messages b0 = processed_messages b"
    using assms
    by (fastforce simp: batch_step_def process_message_def abort_batch_def Let_def
        split: option.splits if_splits prod.splits)
  then show ?thesis
    using processed_of_finish by force
qed

section \<open>The batch\<close>

text \<open>\<open>Inl\<close>: the loop returned \<open>false\<close>, with the descriptors it closed.\<close>

function batch_loop ::
    "protocol list \<Rightarrow> 'h handler \<Rightarrow> direction \<Rightarrow> 'h batch \<Rightarrow> ('h batch \<times> raw_fd list + 'h batch) option" where
  "batch_loop ps handler dir b =
     (case batch_step ps handler dir b of
        None \<Rightarrow> None
      | Some (Abort b' closed) \<Rightarrow> Some (Inl (b', closed))
      | Some (Break b') \<Rightarrow> Some (Inr b')
      | Some (Continue b') \<Rightarrow> batch_loop ps handler dir b')"
  by pat_completeness auto

termination
  by (relation "measure (\<lambda>(ps, handler, dir, b). MAX_MESSAGES_PER_BATCH - processed_messages b)")
    (auto dest: batch_step_processed)

declare batch_loop.simps [simp del]

definition batch_start :: "direction \<Rightarrow> 'h client \<Rightarrow> 'h batch" where
  "batch_start dir cl =
     \<lparr>bt_conn = connection_of cl dir, bt_ctx = cl_ctx cl, out_buffer = [], out_fds = [],
      bt_offset = 0, bt_fd_offset = 0, processed_messages = 0\<rparr>"

text \<open>
  What a call of \<open>handle_msgs\<close> did: its result, the client after it, the descriptors it closed,
  what it sent to the other side, and what it sent back to the side it read from.
\<close>

record 'h batch_report =
  br_success :: bool
  br_client :: "'h client"
  br_closed :: "raw_fd list"
  br_sent :: "packet option"
  br_sent_back :: "packet option"

definition store_batch :: "direction \<Rightarrow> 'h batch \<Rightarrow> 'h client \<Rightarrow> 'h client" where
  "store_batch dir b cl = (put_connection dir (bt_conn b) cl)\<lparr>cl_ctx := bt_ctx b\<rparr>"

definition packet_to_send :: "u8 list \<Rightarrow> raw_fd list \<Rightarrow> packet option" where
  "packet_to_send data fds = (if data \<noteq> [] then Some (data, fds) else None)"

text \<open>
  After the loop: both queues are sent, then every descriptor of either packet and every
  consumed one is closed once, whatever the sends returned.
\<close>

definition flush_batch :: "direction \<Rightarrow> bool \<Rightarrow> bool \<Rightarrow> 'h batch \<Rightarrow> 'h client \<Rightarrow> 'h batch_report" where
  "flush_batch dir send_ok send_back_ok b cl =
     (let c = (bt_ctx b)\<lparr>synthetic_feedback_refresh_pending := {}\<rparr>;
          reverse_queue = (case dir of ClientToHost \<Rightarrow> host_to_client_queue c
                                     | HostToClient \<Rightarrow> client_to_host_queue c);
          c' = (case dir of ClientToHost \<Rightarrow> c\<lparr>host_to_client_queue := []\<rparr>
                          | HostToClient \<Rightarrow> c\<lparr>client_to_host_queue := []\<rparr>);
          reverse_out_buf = concat (map fst reverse_queue);
          reverse_out_fds = concat (map snd reverse_queue);
          conn = bt_conn b;
          success = ((out_buffer b = [] \<or> send_ok) \<and> (reverse_out_buf = [] \<or> send_back_ok) \<and>
                     \<not> fatal_protocol_error c')
      in \<lparr>br_success = success,
          br_client = store_batch dir
            (b\<lparr>bt_ctx := c',
               bt_conn := conn\<lparr>read_fds := drop (bt_fd_offset b) (read_fds conn),
                               read_buf := drop (bt_offset b) (read_buf conn)\<rparr>\<rparr>) cl,
          br_closed = remdups (out_fds b @ reverse_out_fds @ take (bt_fd_offset b) (read_fds conn)),
          br_sent = packet_to_send (out_buffer b) (out_fds b),
          br_sent_back = packet_to_send reverse_out_buf reverse_out_fds\<rparr>)"

definition handle_msgs ::
    "protocol list \<Rightarrow> 'h handler \<Rightarrow> direction \<Rightarrow> bool \<Rightarrow> bool \<Rightarrow> 'h client \<Rightarrow> 'h batch_report option" where
  "handle_msgs ps handler dir send_ok send_back_ok cl =
     (case batch_loop ps handler dir (batch_start dir cl) of
        None \<Rightarrow> None
      | Some (Inl (b, closed)) \<Rightarrow>
          Some \<lparr>br_success = False, br_client = store_batch dir b cl, br_closed = closed,
                br_sent = None, br_sent_back = None\<rparr>
      | Some (Inr b) \<Rightarrow> Some (flush_batch dir send_ok send_back_ok b cl))"

section \<open>The loop of a client\<close>

definition preferred_direction :: "bool \<Rightarrow> direction" where
  "preferred_direction prefer_host = (if prefer_host then HostToClient else ClientToHost)"

definition next_buffered_direction ::
    "transport_result \<Rightarrow> bool \<Rightarrow> 'h client \<Rightarrow> (unit + direction option) \<times> 'h client" where
  "next_buffered_direction probe prefer_host cl =
     (let preferred = preferred_direction prefer_host;
          fallback = preferred_direction (\<not> prefer_host)
      in if has_complete_message (connection_of cl preferred) then (Inr (Some preferred), cl)
         else if \<not> has_complete_message (connection_of cl fallback) then (Inr None, cl)
         else case try_recv probe (connection_of cl preferred) of (r, conn) \<Rightarrow>
           (let cl' = put_connection preferred conn cl
            in if r = Inl () \<or> r = Inr (Some 0) then (Inl (), cl')
               else if has_complete_message (connection_of cl' preferred) then (Inr (Some preferred), cl')
               else (Inr (Some fallback), cl')))"

text \<open>
  The environment of one iteration: the result of the probe, the side \<open>select!\<close> finds ready and
  what its receive returns, and whether the sends of the batch succeed.
\<close>

record loop_input =
  li_probe :: transport_result
  li_side :: direction
  li_recv :: "transport_result list"
  li_send_ok :: bool
  li_send_back_ok :: bool

datatype 'h run_state = Running bool "'h client" | Closed "'h client" | Panicked

definition serve ::
    "protocol list \<Rightarrow> 'h handler \<Rightarrow> direction \<Rightarrow> loop_input \<Rightarrow> 'h client \<Rightarrow> 'h run_state" where
  "serve ps handler dir inp cl =
     (case handle_msgs ps handler dir (li_send_ok inp) (li_send_back_ok inp) cl of
        None \<Rightarrow> Panicked
      | Some r \<Rightarrow> if br_success r then Running (dir = ClientToHost) (br_client r) else Closed (br_client r))"

definition run_iteration ::
    "protocol list \<Rightarrow> 'h handler \<Rightarrow> 'h run_state \<Rightarrow> loop_input \<Rightarrow> 'h run_state" where
  "run_iteration ps handler s inp =
     (case s of
        Running prefer_host cl \<Rightarrow>
          (case next_buffered_direction (li_probe inp) prefer_host cl of
             (Inl (), cl') \<Rightarrow> Closed cl'
           | (Inr (Some dir), cl') \<Rightarrow> serve ps handler dir inp cl'
           | (Inr None, cl') \<Rightarrow>
              (let side = li_side inp
               in case recv (li_recv inp) (connection_of cl' side) of
                    (None, conn) \<Rightarrow> Running prefer_host (put_connection side conn cl')
                  | (Some (Inl ()), conn) \<Rightarrow> Closed (put_connection side conn cl')
                  | (Some (Inr bytes), conn) \<Rightarrow>
                      if bytes = 0 then Closed (put_connection side conn cl')
                      else serve ps handler side inp (put_connection side conn cl')))
      | _ \<Rightarrow> s)"

definition run_start :: "connection \<Rightarrow> connection \<Rightarrow> 'h ctx_scheme \<Rightarrow> 'h run_state" where
  "run_start client host c =
     Running True
       \<lparr>client_conn = client, host_conn = host,
        cl_ctx = c\<lparr>shadow_table := track_interface 1 ''wl_display'' (map_id 1 1 (shadow_table c))\<rparr>\<rparr>"

section \<open>Steps of a batch\<close>

definition same_stream :: "connection \<Rightarrow> connection \<Rightarrow> bool" where
  "same_stream conn conn' \<longleftrightarrow> read_buf conn' = read_buf conn \<and> read_fds conn' = read_fds conn"

lemma same_stream_refl [simp]: "same_stream conn conn"
  by (simp add: same_stream_def)

lemma process_message_cases:
  assumes "process_message ps handler dir sender opcode e b = Some r"
  obtains (abort) "r = abort_batch b"
  | (finish) b0 guest target res n where "r = finish_message dir e guest target res n b0"
      "same_stream (bt_conn b) (bt_conn b0)" "out_buffer b0 = out_buffer b" "out_fds b0 = out_fds b"
      "bt_offset b0 = bt_offset b" "bt_fd_offset b0 = bt_fd_offset b"
      "processed_messages b0 = processed_messages b"
proof (cases "interface_of_sender (shadow_table (bt_ctx b)) dir sender")
  case None
  let ?conn = "if bt_fd_offset b < length (read_fds (bt_conn b))
    then bt_conn b\<lparr>ambiguous_untracked_fd := True\<rparr> else bt_conn b"
  have "same_stream (bt_conn b) ?conn"
    by (simp add: same_stream_def)
  moreover have "r = abort_batch b \<or> r = finish_message dir e
      (guest_of_sender (shadow_table (bt_ctx b)) dir sender)
      (translated_sender_id (shadow_table (bt_ctx b)) dir sender) (Inr None) 0 (b\<lparr>bt_conn := ?conn\<rparr>)"
    using assms by (simp add: process_message_def None Let_def split: if_splits)
  ultimately show ?thesis
    using that by (metis batch.select_convs batch.surjective batch.update_convs(1))
next
  case (Some i)
  then obtain res c n where
    "r = finish_message dir e (guest_of_sender (shadow_table (bt_ctx b)) dir sender)
      (translated_sender_id (shadow_table (bt_ctx b)) dir sender) res n (b\<lparr>bt_ctx := c\<rparr>)"
    using assms by (auto simp: process_message_def Let_def)
  then show ?thesis
    by (rule finish) simp_all
qed

lemma batch_step_cases:
  assumes "batch_step ps handler dir b = Some r"
  obtains (stop) "r = Break b"
  | (abort) "r = abort_batch b"
  | (message) sender len opcode where "read_header (read_buf (bt_conn b)) (bt_offset b) = (sender, len, opcode)"
      "valid_message_length len" "bt_offset b + len \<le> length (read_buf (bt_conn b))"
      "\<not> ambiguous_untracked_fd (bt_conn b)"
      "process_message ps handler dir sender opcode (bt_offset b + len) b = Some r"
proof -
  obtain sender len opcode where h: "read_header (read_buf (bt_conn b)) (bt_offset b) = (sender, len, opcode)"
    by (metis prod_cases3)
  show ?thesis
    using assms that h
    by (auto simp: batch_step_def checked_message_end_def Let_def split: option.splits if_splits
        dest!: usize_checked_add_SomeD)
qed

text \<open>What a finished message leaves behind.\<close>

definition advanced :: "nat \<Rightarrow> 'h batch \<Rightarrow> 'h batch \<Rightarrow> bool" where
  "advanced e b b' \<longleftrightarrow> same_stream (bt_conn b) (bt_conn b') \<and> bt_offset b' = e \<and>
     bt_fd_offset b \<le> bt_fd_offset b' \<and> bt_fd_offset b' \<le> length (read_fds (bt_conn b)) \<and>
     processed_messages b' = Suc (processed_messages b)"

definition aborted :: "'h batch \<Rightarrow> 'h batch \<Rightarrow> raw_fd list \<Rightarrow> bool" where
  "aborted b b' closed \<longleftrightarrow> same_stream (bt_conn b) (bt_conn b') \<and>
     closed = close_pending_output_fds (out_fds b') (read_fds (bt_conn b'))"

lemma finish_message_result:
  assumes "same_stream (bt_conn b) (bt_conn b0)" "bt_fd_offset b0 = bt_fd_offset b"
    and "processed_messages b0 = processed_messages b"
  shows "case finish_message dir e guest target res n b0 of
     Abort b' closed \<Rightarrow> aborted b b' closed
   | Break b' \<Rightarrow> advanced e b b'
   | Continue b' \<Rightarrow> advanced e b b' \<and> processed_messages b' < MAX_MESSAGES_PER_BATCH"
  using assms
  by (auto simp: finish_message_def abort_batch_def drain_queue_def advanced_def aborted_def same_stream_def
      Let_def split: sum.splits option.splits direction.splits dest!: usize_checked_add_SomeD)

lemma batch_step_result:
  assumes "batch_step ps handler dir b = Some r"
  shows "case r of
     Abort b' closed \<Rightarrow> aborted b b' closed
   | Break b' \<Rightarrow> b' = b \<or> (\<exists>sender len opcode. advanced (bt_offset b + len) b b' \<and> valid_message_length len \<and>
       read_header (read_buf (bt_conn b)) (bt_offset b) = (sender, len, opcode) \<and>
       bt_offset b + len \<le> length (read_buf (bt_conn b)))
   | Continue b' \<Rightarrow> processed_messages b' < MAX_MESSAGES_PER_BATCH \<and>
      (\<exists>sender len opcode. advanced (bt_offset b + len) b b' \<and> valid_message_length len \<and>
       read_header (read_buf (bt_conn b)) (bt_offset b) = (sender, len, opcode) \<and>
       bt_offset b + len \<le> length (read_buf (bt_conn b)))"
  using assms
proof (cases rule: batch_step_cases)
  case (message sender len opcode)
  from message(5) show ?thesis
  proof (cases rule: process_message_cases)
    case (finish b0 guest target res n)
    show ?thesis
      using finish_message_result [OF finish(2,6,7), where dir = dir and e = "bt_offset b + len"
          and guest = guest and target = target and res = res and n = n, folded finish(1)] message(1-3)
      by (cases r) auto
  qed (simp add: abort_batch_def aborted_def)
qed (simp_all add: abort_batch_def aborted_def)

lemma batch_loop_invariant:
  assumes "I b"
    and "\<And>b b'. I b \<Longrightarrow> batch_step ps handler dir b = Some (Continue b') \<Longrightarrow> I b'"
    and "\<And>b b'. I b \<Longrightarrow> batch_step ps handler dir b = Some (Break b') \<Longrightarrow> J b'"
    and "\<And>b b' closed. I b \<Longrightarrow> batch_step ps handler dir b = Some (Abort b' closed) \<Longrightarrow> K b' closed"
  shows "case batch_loop ps handler dir b of
     None \<Rightarrow> True | Some (Inr b') \<Rightarrow> J b' | Some (Inl (b', closed)) \<Rightarrow> K b' closed"
  using assms
proof (induction ps handler dir b rule: batch_loop.induct)
  case (1 ps handler dir b)
  show ?case
  proof (cases "batch_step ps handler dir b")
    case None
    then show ?thesis
      by (subst batch_loop.simps) simp
  next
    case (Some r)
    show ?thesis
    proof (cases r)
      case (Continue b')
      then show ?thesis
        using 1 Some by (subst batch_loop.simps) simp
    qed (use 1(2-5) Some in \<open>subst batch_loop.simps; simp\<close>)+
  qed
qed

section \<open>The stream\<close>

definition well_framed :: "u8 list \<Rightarrow> bool" where
  "well_framed m \<longleftrightarrow> (case read_header m 0 of (_, len, _) \<Rightarrow> valid_message_length len \<and> length m = len)"

definition framed :: "connection \<Rightarrow> 'h batch \<Rightarrow> bool" where
  "framed conn b \<longleftrightarrow> same_stream conn (bt_conn b) \<and> bt_fd_offset b \<le> length (read_fds conn) \<and>
     processed_messages b \<le> MAX_MESSAGES_PER_BATCH \<and> bt_offset b \<le> length (read_buf conn) \<and>
     (\<exists>msgs. length msgs = processed_messages b \<and> list_all well_framed msgs \<and>
        concat msgs = take (bt_offset b) (read_buf conn))"

lemma well_framed_packet:
  assumes "read_header buf off = (sender, len, opcode)" "valid_message_length len" "off + len \<le> length buf"
  shows "well_framed (take len (drop off buf))"
proof -
  have "8 \<le> len"
    using assms(2) by (simp add: valid_message_length_def)
  then have "read_header (take len (drop off buf)) 0 = read_header buf off"
    by (simp add: read_header_def min_def drop_take add.commute)
  then show ?thesis
    using assms by (simp add: well_framed_def)
qed

lemma framed_advanced:
  assumes "framed conn b" "processed_messages b < MAX_MESSAGES_PER_BATCH"
    and h: "read_header (read_buf (bt_conn b)) (bt_offset b) = (sender, len, opcode)"
      "valid_message_length len" "bt_offset b + len \<le> length (read_buf (bt_conn b))"
    and "advanced (bt_offset b + len) b b'"
  shows "framed conn b'"
proof -
  obtain msgs where m: "length msgs = processed_messages b" "list_all well_framed msgs"
      "concat msgs = take (bt_offset b) (read_buf conn)"
    using assms(1) by (auto simp: framed_def)
  let ?packet = "take len (drop (bt_offset b) (read_buf conn))"
  have buf: "read_buf (bt_conn b) = read_buf conn"
    using assms(1) by (simp add: framed_def same_stream_def)
  have "list_all well_framed (msgs @ [?packet])"
    using m(2) well_framed_packet [OF h] by (simp add: buf)
  moreover have "concat (msgs @ [?packet]) = take (bt_offset b + len) (read_buf conn)"
    by (simp add: m(3) take_add)
  moreover have "length (msgs @ [?packet]) = Suc (processed_messages b)"
    by (simp add: m(1))
  ultimately have "\<exists>msgs. length msgs = Suc (processed_messages b) \<and> list_all well_framed msgs \<and>
      concat msgs = take (bt_offset b + len) (read_buf conn)"
    by blast
  then show ?thesis
    using assms by (auto simp: framed_def advanced_def same_stream_def)
qed

lemma batch_loop_framed:
  "case batch_loop ps handler dir (batch_start dir cl) of
     None \<Rightarrow> True
   | Some (Inr b) \<Rightarrow> framed (connection_of cl dir) b
   | Some (Inl (b, closed)) \<Rightarrow> same_stream (connection_of cl dir) (bt_conn b) \<and>
       closed = close_pending_output_fds (out_fds b) (read_fds (connection_of cl dir))"
proof (rule batch_loop_invariant [where I = "\<lambda>b. framed (connection_of cl dir) b \<and>
      processed_messages b < MAX_MESSAGES_PER_BATCH"])
  show "framed (connection_of cl dir) (batch_start dir cl) \<and>
      processed_messages (batch_start dir cl) < MAX_MESSAGES_PER_BATCH"
    by (simp add: framed_def batch_start_def MAX_MESSAGES_PER_BATCH_def)
next
  fix b b' :: "'a batch"
  assume b: "framed (connection_of cl dir) b \<and> processed_messages b < MAX_MESSAGES_PER_BATCH"
  show "framed (connection_of cl dir) b' \<and> processed_messages b' < MAX_MESSAGES_PER_BATCH"
    if "batch_step ps handler dir b = Some (Continue b')"
    using batch_step_result [OF that] b by (auto intro: framed_advanced)
  show "framed (connection_of cl dir) b'"
    if "batch_step ps handler dir b = Some (Break b')"
    using batch_step_result [OF that] b by (auto intro: framed_advanced)
  show "same_stream (connection_of cl dir) (bt_conn b') \<and>
      closed = close_pending_output_fds (out_fds b') (read_fds (connection_of cl dir))"
    if "batch_step ps handler dir b = Some (Abort b' closed)" for closed
    using batch_step_result [OF that] b by (auto simp: aborted_def framed_def same_stream_def)
qed

lemma connection_of_put [simp]: "connection_of (put_connection dir conn cl) dir = conn"
  by (cases dir) (simp_all add: connection_of_def put_connection_def)

lemma connection_of_store [simp]: "connection_of (store_batch dir b cl) dir = bt_conn b"
  by (cases dir) (simp_all add: connection_of_def put_connection_def store_batch_def)

definition opposite :: "direction \<Rightarrow> direction" where
  "opposite dir = (case dir of ClientToHost \<Rightarrow> HostToClient | HostToClient \<Rightarrow> ClientToHost)"

lemma connection_of_store_opposite [simp]:
  "connection_of (store_batch dir b cl) (opposite dir) = connection_of cl (opposite dir)"
  by (cases dir) (simp_all add: connection_of_def put_connection_def store_batch_def opposite_def)

text \<open>The handlers' queue for the side that \<open>dir\<close> sends to.\<close>

definition queue_of :: "direction \<Rightarrow> 'h ctx_scheme \<Rightarrow> packet list" where
  "queue_of dir c = (case dir of ClientToHost \<Rightarrow> client_to_host_queue c
                               | HostToClient \<Rightarrow> host_to_client_queue c)"

definition drained :: "direction \<Rightarrow> 'h ctx_scheme \<Rightarrow> 'h batch \<Rightarrow> bool" where
  "drained dir c b \<longleftrightarrow> queue_of dir (bt_ctx b) = (if processed_messages b = 0 then queue_of dir c else [])"

lemma drained_finish:
  "case finish_message dir e guest target r n b of
     Abort _ _ \<Rightarrow> True | Break b' \<Rightarrow> drained dir c b' | Continue b' \<Rightarrow> drained dir c b'"
  by (auto simp: finish_message_def abort_batch_def drain_queue_def drained_def queue_of_def Let_def
      split: sum.split option.split direction.split)

lemma drained_step:
  assumes "batch_step ps handler dir b = Some r" "drained dir c b"
  shows "case r of Abort _ _ \<Rightarrow> True | Break b' \<Rightarrow> drained dir c b' | Continue b' \<Rightarrow> drained dir c b'"
  using assms(1)
proof (cases rule: batch_step_cases)
  case (message sender len opcode)
  from message(5) show ?thesis
  proof (cases rule: process_message_cases)
    case (finish b0 guest target res n)
    then show ?thesis
      using drained_finish by simp
  qed (simp add: abort_batch_def)
qed (use assms(2) in \<open>simp_all add: abort_batch_def\<close>)

lemma batch_loop_drained:
  "batch_loop ps handler dir (batch_start dir cl) = Some (Inr b) \<Longrightarrow> drained dir (cl_ctx cl) b"
proof -
  have "case batch_loop ps handler dir (batch_start dir cl) of
      None \<Rightarrow> True | Some (Inr b) \<Rightarrow> drained dir (cl_ctx cl) b | Some (Inl (b, closed)) \<Rightarrow> True"
    by (rule batch_loop_invariant [where I = "drained dir (cl_ctx cl)"])
      (use drained_step in \<open>force simp: drained_def batch_start_def\<close>)+
  then show "batch_loop ps handler dir (batch_start dir cl) = Some (Inr b) \<Longrightarrow> ?thesis"
    by simp
qed

lemma set_close_pending_loop: "set (close_pending_loop p c fds) = {fd \<in> set fds. 0 \<le> fd} - p - c"
  by (induction p c fds rule: close_pending_loop.induct) auto

lemma distinct_close_pending_loop: "distinct (close_pending_loop p c fds)"
  by (induction p c fds rule: close_pending_loop.induct) (auto simp: set_close_pending_loop)

lemma close_pending_output_fds_set [simp]:
  "set (close_pending_output_fds out still) = {fd \<in> set out. 0 \<le> fd} - set still"
  by (simp add: close_pending_output_fds_def set_close_pending_loop)

lemma distinct_close_pending_output_fds [simp]: "distinct (close_pending_output_fds out still)"
  by (simp add: close_pending_output_fds_def distinct_close_pending_loop)

lemma forward_request_built:
  "forward_request spec vs sender op (Some host) lo c = Some (Inr (Some (m, fds)), c') \<Longrightarrow>
     \<exists>payload. m = frame host op payload"
  by (auto simp: forward_request_def Let_def dest!: try_build_frame split: option.splits sum.splits)

lemma dispatch_request_sender:
  assumes "dispatch_request ps name msg handler c = Some ((Inr (Some (m, fds)), c'), msg')"
  shows "\<exists>host payload. get_host_id (shadow_table c) (msg_sender_id msg) = Some host \<and>
    m = frame host (msg_opcode msg) payload"
proof -
  obtain i where "interface_request i msg handler (c\<lparr>last_sender_id := msg_sender_id msg\<rparr>)
      = Some ((Inr (Some (m, fds)), c'), msg')"
    using assms by (auto simp: dispatch_request_def protocol_request_def Let_def split: option.splits if_splits)
  then obtain spec vs where "request_arm (is_name i) spec vs handler (msg_sender_id msg) (msg_opcode msg)
      (c\<lparr>last_sender_id := msg_sender_id msg\<rparr>) = Some (Inr (Some (m, fds)), c')"
    by (auto simp: interface_request_def split: prod.splits sum.splits)
  then show ?thesis
    by (rule request_arm_forwarded) (auto dest: forward_request_built)
qed

lemma dispatch_event_sender:
  assumes "dispatch_event ps name msg handler c = Some ((Inr (Some (m, fds)), c'), msg')"
  shows "\<exists>guest payload. get_guest_id (shadow_table c) (msg_sender_id msg) = Some guest \<and>
    m = frame guest (msg_opcode msg) payload"
proof -
  obtain i where "interface_event i msg handler (c\<lparr>last_sender_id := msg_sender_id msg\<rparr>)
      = Some ((Inr (Some (m, fds)), c'), msg')"
    using assms by (auto simp: dispatch_event_def protocol_event_def Let_def split: option.splits if_splits)
  then obtain spec vs where "event_arm (is_name i) spec vs handler (msg_sender_id msg) (msg_opcode msg)
      (c\<lparr>last_sender_id := msg_sender_id msg\<rparr>) = Some (Inr (Some (m, fds)), c')"
    by (auto simp: interface_event_def split: prod.splits sum.splits if_splits)
  then show ?thesis
    by (rule event_arm_forwarded) (auto dest: try_build_frame)
qed

lemma tracked_message_sender:
  assumes "tracked_message ps handler dir sender opcode interface packet b
      = Some (Inr (Some (data, fds)), c', n)"
  shows "\<exists>target payload. translated_sender_id (shadow_table (bt_ctx b)) dir sender = Some target \<and>
    data = frame target opcode payload"
proof -
  let ?msg = "wire_message_new sender opcode (drop 8 packet) (drop (bt_fd_offset b) (read_fds (bt_conn b)))"
  let ?c = "(bt_ctx b)\<lparr>last_sender_id := sender\<rparr>"
  obtain suppress msg' where d: "dispatch_message ps handler dir suppress interface ?msg ?c
      = Some ((Inr (Some (data, fds)), c'), msg')"
    using assms by (auto simp: tracked_message_def message_outcome_def Let_def split: if_splits prod.splits)
  have "msg_sender_id ?msg = sender" "msg_opcode ?msg = opcode"
    by (simp_all add: wire_message_new_def)
  then show ?thesis
    using d dispatch_request_sender [of ps interface ?msg handler ?c]
      dispatch_event_sender [of ps interface ?msg handler ?c]
    by (cases dir) (auto simp: dispatch_message_def translated_sender_id_def map_sum_def
        split: if_splits prod.splits sum.splits)
qed

section \<open>Stale events\<close>

lemma consume_event_reads:
  assumes "classify_interface ps name = Some p" "interface_in p name = Some i"
    and "unat (msg_opcode msg) < length (events_of i)"
    and "list_all2 value_ok (kinds (events_of i ! unat (msg_opcode msg))) vs" "carries msg vs"
  shows "consume_event ps name msg = (Inr (), skip_value (length (args_bytes vs)) (length (args_fds vs)) msg)"
  using from_wire_carries [OF assms(5,4,3)] assms(1,2)
  by (simp add: consume_event_def protocol_consume_def interface_consume_def)

section \<open>Progress of the loop\<close>

text \<open>A header with a valid length has arrived, the rest of the message has not.\<close>

definition partial_message :: "connection \<Rightarrow> u16 \<Rightarrow> bool" where
  "partial_message conn op \<longleftrightarrow> 8 \<le> length (read_buf conn) \<and>
     (case read_header (read_buf conn) 0 of (_, len, opcode) \<Rightarrow>
        opcode = op \<and> valid_message_length len \<and> length (read_buf conn) < len)"

lemma opcode_bytes:
  assumes "8 \<le> length buf"
  shows "u16_from_ne_bytes (buf ! 4) (buf ! 5) = ucast (u32_from_ne_bytes (take 4 (drop 4 buf)) AND 0xFFFF)"
proof -
  have "take 4 (drop 4 buf) = [buf ! 4, buf ! 5, buf ! 6, buf ! 7]"
    using assms by (intro nth_equalityI) (auto simp: less_Suc_eq numeral_eq_Suc)
  moreover have "v AND 0xFFFF = take_bit 16 v" for v :: u32
    by (simp add: take_bit_eq_mask mask_eq_exp_minus_1)
  ultimately show ?thesis
    by (auto intro!: bit_word_eqI simp: u16_from_ne_bytes_def u32_from_ne_bytes_def bit_simps)
qed

lemma partial_message_ready:
  "partial_message conn op \<Longrightarrow> unat op < 8 \<Longrightarrow> has_complete_message conn"
  by (auto simp: partial_message_def has_complete_message_def opcode_bytes read_header_def Let_def)

lemma partial_message_no_progress:
  assumes "partial_message (connection_of cl dir) op"
    and "handle_msgs ps handler dir a b cl = Some r"
  shows "connection_of (br_client r) dir = connection_of cl dir"
proof -
  have "batch_step ps handler dir (batch_start dir cl) = Some (Break (batch_start dir cl))"
    using assms(1)
    by (auto simp: partial_message_def batch_step_def batch_start_def checked_message_end_def Let_def
        usize_limit_def valid_message_length_def)
  then have "batch_loop ps handler dir (batch_start dir cl) = Some (Inr (batch_start dir cl))"
    by (subst batch_loop.simps) simp
  then show ?thesis
    using assms(2) by (auto simp: handle_msgs_def flush_batch_def batch_start_def Let_def)
qed

lemma handle_msgs_other_connection:
  "handle_msgs ps handler dir a b cl = Some r \<Longrightarrow>
     connection_of (br_client r) (opposite dir) = connection_of cl (opposite dir)"
  by (auto simp: handle_msgs_def flush_batch_def Let_def split: option.splits sum.splits)

text \<open>Every state the loop can be in while it has not read from the client again.\<close>

definition client_unread :: "connection \<Rightarrow> 'h run_state \<Rightarrow> bool" where
  "client_unread conn s \<longleftrightarrow> (case s of Running _ cl \<Rightarrow> client_conn cl = conn | _ \<Rightarrow> True)"

lemma client_unread_simps [simp]:
  "client_unread conn (Running p cl) \<longleftrightarrow> client_conn cl = conn" "client_unread conn (Closed cl)"
  "client_unread conn Panicked"
  by (simp_all add: client_unread_def)

lemma stuck_serve:
  assumes "partial_message conn op" "client_conn cl = conn"
  shows "client_unread conn (serve ps handler dir inp cl)"
proof (cases "handle_msgs ps handler dir (li_send_ok inp) (li_send_back_ok inp) cl")
  case (Some r)
  have "client_conn (br_client r) = conn"
    using partial_message_no_progress [OF _ Some] handle_msgs_other_connection [OF Some] assms
    by (cases dir) (simp_all add: connection_of_def opposite_def)
  then show ?thesis
    by (simp add: serve_def Some)
qed (simp add: serve_def)

lemma stuck_direction:
  assumes "has_complete_message (client_conn cl)"
  shows "fst (next_buffered_direction probe p cl) \<noteq> Inr None \<and>
    client_conn (snd (next_buffered_direction probe p cl)) = client_conn cl"
  using assms
  by (cases p)
    (simp_all add: next_buffered_direction_def preferred_direction_def connection_of_def put_connection_def
      Let_def split: prod.split)

lemma stuck_iteration:
  assumes "partial_message conn op" "unat op < 8" "client_unread conn s"
  shows "client_unread conn (run_iteration ps handler s inp)"
proof (cases s)
  case (Running p cl)
  have conn: "client_conn cl = conn" "has_complete_message (client_conn cl)"
    using partial_message_ready assms by (auto simp: Running)
  obtain r cl' where d: "next_buffered_direction (li_probe inp) p cl = (r, cl')"
    by fastforce
  have r: "r \<noteq> Inr None" "client_conn cl' = conn"
    using stuck_direction [OF conn(2), of "li_probe inp" p] by (simp_all add: d conn(1))
  show ?thesis
  proof (cases r)
    case (Inl u)
    then show ?thesis
      by (simp add: Running run_iteration_def d split: unit.splits)
  next
    case (Inr dir)
    then obtain dir' where "r = Inr (Some dir')"
      using r(1) by (cases dir) auto
    then show ?thesis
      using stuck_serve [OF assms(1) r(2)] by (simp add: Running run_iteration_def d)
  qed
qed (simp_all add: run_iteration_def)

lemma stuck_run:
  "partial_message conn op \<Longrightarrow> unat op < 8 \<Longrightarrow> client_unread conn s \<Longrightarrow>
     client_unread conn (run_ops (run_iteration ps handler) s inputs)"
  by (induction inputs arbitrary: s) (simp_all add: stuck_iteration)

section \<open>Descriptors behind an untracked message\<close>
























section \<open>An example\<close>

text \<open>The compositor and the output of the dispatch example; the compositor's destructor is pending.\<close>

definition example_protocol :: protocol where
  "example_protocol = \<lparr>pr_name = ''wayland'', pr_interfaces = [example_interface]\<rparr>"

definition example_batch :: "shadow_table \<Rightarrow> raw_fd list \<Rightarrow> unit batch" where
  "example_batch t fds =
     \<lparr>bt_conn = connection_new\<lparr>read_fds := fds\<rparr>, bt_ctx = context_empty\<lparr>shadow_table := t\<rparr>,
      out_buffer = [], out_fds = [], bt_offset = 0, bt_fd_offset = 0, processed_messages = 0\<rparr>"

lemma example_routing:
  "classify_interface [example_protocol] ''wl_compositor'' = Some example_protocol"
  "interface_in example_protocol ''wl_compositor'' = Some example_interface"
  by (simp_all add: classify_interface_def interface_in_def example_protocol_def example_interface_def)

lemma example_tracked_request:
  "\<exists>data fds c' n. tracked_message [example_protocol] forward_all ClientToHost 3 0 ''wl_compositor''
     (frame 3 0 (u32_bytes 5)) (example_batch example_table [44]) = Some (Inr (Some (data, fds)), c', n)"
proof -
  let ?c = "context_empty\<lparr>shadow_table := example_table, last_sender_id := 3\<rparr>"
  obtain m fds c' msg' where "is_payload_consumed msg'" and
    "interface_request example_interface (wire_message_new 3 0 (u32_bytes 5) [44]) forward_all ?c
      = Some ((Inr (Some (m, fds)), c'), msg')"
    using create_surface_forwarded [of ?c] by auto
  then show ?thesis
    by (simp add: tracked_message_def dispatch_message_def dispatch_request_def protocol_request_def
        example_routing message_outcome_def guest_of_sender_def example_batch_def frame_def
        wire_message_new_def [THEN arg_cong, of msg_sender_id] Let_def)
      (simp add: example_protocol_def)
qed

section \<open>Properties\<close>

text \<open>C27: Whatever the handlers do, a batch consumes whole messages only, at most 32 of them, from
  the front of the stream it reads, never from the other one; what is left stays in order.\<close>

theorem batch_consumes_whole_messages:
  "case handle_msgs ps handler dir send_ok send_back_ok cl of
     None \<Rightarrow> True
   | Some r \<Rightarrow>
       (\<exists>msgs. length msgs \<le> 32 \<and> list_all well_framed msgs \<and>
          read_buf (connection_of cl dir) = concat msgs @ read_buf (connection_of (br_client r) dir)) \<and>
       connection_of (br_client r) (opposite dir) = connection_of cl (opposite dir)"
proof (cases "batch_loop ps handler dir (batch_start dir cl)")
  case (Some res)
  show ?thesis
  proof (cases res)
    case (Inl p)
    moreover have "\<exists>msgs. length msgs \<le> 32 \<and> list_all well_framed msgs \<and> concat msgs = []"
      by (rule exI [of _ "[]"]) simp
    ultimately show ?thesis
      using batch_loop_framed [where ps = ps and handler = handler and dir = dir and cl = cl] Some
      by (cases p) (simp add: handle_msgs_def same_stream_def)
  next
    case (Inr b)
    obtain msgs where "length msgs = processed_messages b" "processed_messages b \<le> 32"
        "list_all well_framed msgs" "concat msgs = take (bt_offset b) (read_buf (connection_of cl dir))"
        "same_stream (connection_of cl dir) (bt_conn b)"
      using batch_loop_framed [where ps = ps and handler = handler and dir = dir and cl = cl] Some Inr
      by (auto simp: framed_def MAX_MESSAGES_PER_BATCH_def)
    then show ?thesis
      using Some Inr
      by (auto simp: handle_msgs_def flush_batch_def Let_def same_stream_def intro!: exI [of _ msgs])
  qed
qed (simp add: handle_msgs_def)

text \<open>C28: Every descriptor of a batch is closed, and closed once.  A batch that is flushed takes exactly
  the descriptors its messages consumed off the front of the stream and leaves the others queued;
  it closes, each once and whatever the sends returned, exactly those, the descriptors of the packet
  it forwards and the ones of the packet it sends back, and it leaves both queues of the handlers
  empty (a batch of no message has not touched the forward queue).  A batch that is abandoned takes
  none off the stream: it closes the descriptors of the packet it was building that the connection
  does not own, and together with what the connection closes when it is dropped that is each
  descriptor once.\<close>

theorem batch_descriptors_closed_once:
  "case batch_loop ps handler dir (batch_start dir cl) of
     None \<Rightarrow> True
   | Some (Inr b) \<Rightarrow>
       (\<exists>r taken. handle_msgs ps handler dir send_ok send_back_ok cl = Some r \<and>
          length taken = bt_fd_offset b \<and>
          read_fds (connection_of cl dir) = taken @ read_fds (connection_of (br_client r) dir) \<and>
          distinct (br_closed r) \<and>
          set (br_closed r) =
            set taken \<union> set (out_fds b) \<union> set (concat (map snd (queue_of (opposite dir) (bt_ctx b)))) \<and>
          br_sent r = (if out_buffer b = [] then None else Some (out_buffer b, out_fds b)) \<and>
          queue_of (opposite dir) (cl_ctx (br_client r)) = [] \<and>
          queue_of dir (cl_ctx (br_client r)) =
            (if processed_messages b = 0 then queue_of dir (cl_ctx cl) else []))
   | Some (Inl (b, closed)) \<Rightarrow>
       (\<exists>r. handle_msgs ps handler dir send_ok send_back_ok cl = Some r \<and>
          br_closed r = closed \<and> connection_of (br_client r) dir = bt_conn b) \<and>
       read_fds (bt_conn b) = read_fds (connection_of cl dir) \<and>
       distinct (closed @ connection_drop (bt_conn b)) \<and>
       set closed \<union> set (connection_drop (bt_conn b)) =
         {fd \<in> set (out_fds b) \<union> set (read_fds (connection_of cl dir)). 0 \<le> fd}"
proof (cases "batch_loop ps handler dir (batch_start dir cl)")
  case (Some res)
  show ?thesis
  proof (cases res)
    case (Inl p)
    then show ?thesis
      using batch_loop_framed [where ps = ps and handler = handler and dir = dir and cl = cl] Some
      by (cases p) (auto simp: handle_msgs_def same_stream_def connection_drop_def)
  next
    case (Inr b)
    have stream: "same_stream (connection_of cl dir) (bt_conn b)"
        "bt_fd_offset b \<le> length (read_fds (connection_of cl dir))"
      using batch_loop_framed [where ps = ps and handler = handler and dir = dir and cl = cl] Some Inr
      by (simp_all add: framed_def)
    have "queue_of dir (bt_ctx b) = (if processed_messages b = 0 then queue_of dir (cl_ctx cl) else [])"
      using batch_loop_drained [of ps handler dir cl b] Some Inr by (simp add: drained_def)
    then show ?thesis
      using Some Inr stream
      by (cases dir)
        (simp_all add: handle_msgs_def flush_batch_def Let_def same_stream_def queue_of_def opposite_def
          packet_to_send_def store_batch_def put_connection_def connection_of_def Un_ac
          exI [of _ "take (bt_fd_offset b) (read_fds (connection_of cl dir))"])
  qed
qed simp

text \<open>The sender that the pump patches into a forwarded message is the one the dispatcher has
  already written there, whatever the handler did to the table: the patch changes nothing.\<close>

theorem sender_patch_redundant:
  assumes "tracked_message ps handler dir sender opcode interface packet b
      = Some (Inr (Some (data, fds)), c', n)"
  shows "patch_sender (guest_of_sender (shadow_table (bt_ctx b)) dir sender)
      (translated_sender_id (shadow_table (bt_ctx b)) dir sender) data = data"
  using tracked_message_sender [OF assms] by (auto simp: patch_sender_def frame_def split: option.split)

theorem sender_patch_redundant_witness:
  "\<exists>data fds c' n. tracked_message [example_protocol] forward_all ClientToHost 3 0 ''wl_compositor''
      (frame 3 0 (u32_bytes 5)) (example_batch example_table [44]) = Some (Inr (Some (data, fds)), c', n) \<and>
     patch_sender (Some 3) (Some 7) data = data"
proof -
  obtain data fds c' n where r: "tracked_message [example_protocol] forward_all ClientToHost 3 0
      ''wl_compositor'' (frame 3 0 (u32_bytes 5)) (example_batch example_table [44])
      = Some (Inr (Some (data, fds)), c', n)"
    using example_tracked_request by blast
  from sender_patch_redundant [OF this] r show ?thesis
    by (simp add: guest_of_sender_def translated_sender_id_def example_batch_def example_lookups)
qed

text \<open>C29: A well-formed event of an object whose guest object is already destroyed (the host object is
  still mapped to a guest id that waits for its \<open>delete_id\<close>) is read to its end, with its
  descriptors, and discarded: no handler runs, nothing is forwarded and the state stays as it is.
  The only events of such an object that are not discarded are the \<open>release\<close> of a \<open>wl_buffer\<close> that is
  kept for its deferred destruction, and the two answers (\<open>created\<close>, \<open>failed\<close>) to a dmabuf
  parameters object.\<close>

theorem stale_event_discarded:
  assumes "host_to_guest (shadow_table (bt_ctx b)) sender = Some guest"
    and "guest \<in> pending_destroy_guest_ids (shadow_table (bt_ctx b))"
    and "interface_of_sender (shadow_table (bt_ctx b)) HostToClient sender = Some name"
    and "\<not> (name = ''wl_buffer'' \<and> opcode = 0 \<and>
      (\<exists>l. lifecycle (render_buffers (bt_ctx b)) (HostId sender) = Some l \<and> is_guest_destroyed l))"
    and "\<not> (name = ''zwp_linux_buffer_params_v1'' \<and> (opcode = 0 \<or> opcode = 1))"
    and "classify_interface ps name = Some p" "interface_in p name = Some i"
    and "unat opcode < length (events_of i)" "list_all2 value_ok (kinds (events_of i ! unat opcode)) vs"
    and "carries (wire_message_new sender opcode (drop 8 packet) (drop (bt_fd_offset b) (read_fds (bt_conn b)))) vs"
  shows "tracked_message ps handler HostToClient sender opcode name packet b =
    Some (Inr None, (bt_ctx b)\<lparr>last_sender_id := sender\<rparr>, length (args_fds vs))"
proof -
  let ?msg = "wire_message_new sender opcode (drop 8 packet) (drop (bt_fd_offset b) (read_fds (bt_conn b)))"
  have op: "msg_opcode ?msg = opcode"
    by (simp add: wire_message_new_def)
  have guest: "guest_of_sender (shadow_table (bt_ctx b)) HostToClient sender = Some guest"
    using assms(1) by (simp add: guest_of_sender_def get_guest_id_def)
  have "pending_host_event_is_stale (bt_ctx b) sender opcode (Some guest)"
    using assms(1-5)
    by (auto simp: pending_host_event_is_stale_def interface_of_sender_def guest is_pending_destroy_host_def
        is_pending_destroy_guest_def host_buffer_is_guest_destroyed_def EVT_RELEASE_def EVT_CREATED_def
        EVT_FAILED_def Let_def split: option.splits)
  then show ?thesis
    using carries_consumed [OF assms(10)]
      consume_event_reads [OF assms(6,7) _ _ assms(10), unfolded op, OF assms(8,9)]
    by (simp add: tracked_message_def guest dispatch_message_def message_outcome_def Let_def)
qed

theorem stale_event_discarded_witness:
  "tracked_message [example_protocol] forward_all HostToClient 7 0 ''wl_compositor'' (frame 7 0 (u32_bytes 8))
     (example_batch (mark_pending_destroy 3 example_table) [44])
   = Some (Inr None, context_empty\<lparr>shadow_table := mark_pending_destroy 3 example_table, last_sender_id := 7\<rparr>, 0)"
proof -
  let ?b = "example_batch (mark_pending_destroy 3 example_table) [44]"
  have c: "carries (wire_message_new 7 0 (drop 8 (frame 7 0 (u32_bytes 8)))
      (drop (bt_fd_offset ?b) (read_fds (bt_conn ?b)))) [VObject 8]"
    using carries_word(2) [where s = 7 and op = 0 and x = 8] by (simp add: frame_def)
  have stale: "host_to_guest (shadow_table (bt_ctx ?b)) 7 = Some 3"
    "3 \<in> pending_destroy_guest_ids (shadow_table (bt_ctx ?b))"
    "interface_of_sender (shadow_table (bt_ctx ?b)) HostToClient 7 = Some ''wl_compositor''"
    by (simp_all add: example_batch_def example_table_def table_defs mark_pending_destroy_def
        interface_of_sender_def event_interface_def guest_of_sender_def get_host_interface_def
        get_interface_def)
  from stale_event_discarded [OF stale _ _ example_routing _ _ c] show ?thesis
    by (simp add: example_messages value_ok_def value_fds_def example_batch_def)
qed



text \<open>C31: A request whose header has arrived and whose opcode is below 8, but whose body has not,
  stops the client for good: whatever the environment delivers, the loop never again receives
  from the client, because it takes the message for complete and finds nothing to process.\<close>

theorem partial_request_starves_client:
  assumes "partial_message (client_conn cl) op" "unat op < 8"
  shows "case run_ops (run_iteration ps handler) (Running prefer_host cl) inputs of
    Running _ cl' \<Rightarrow> client_conn cl' = client_conn cl | _ \<Rightarrow> True"
  using stuck_run [OF assms, where s = "Running prefer_host cl" and ps = ps and handler = handler
      and inputs = inputs]
  by (simp add: client_unread_def)

theorem partial_request_starves_client_witness:
  "\<exists>conn. length (read_buf conn) = 12 \<and>
     (\<forall>inputs. case run_ops (run_iteration [] forward_all) (Running True
        \<lparr>client_conn = conn, host_conn = connection_new, cl_ctx = context_empty\<rparr>) inputs of
        Running _ cl' \<Rightarrow> client_conn cl' = conn | _ \<Rightarrow> True)"
proof -
  let ?conn = "connection_new\<lparr>read_buf := u32_to_ne_bytes 3 @ u32_to_ne_bytes 0x100002 @ u32_to_ne_bytes 1\<rparr>"
  let ?cl = "\<lparr>client_conn = ?conn, host_conn = connection_new, cl_ctx = context_empty\<rparr>"
  have "partial_message (client_conn ?cl) 2"
    by (simp add: partial_message_def read_header_def valid_message_length_def drop_bit_eq_div)
  from partial_request_starves_client [OF this, where ps = "[]" and handler = forward_all and prefer_host = True]
  have "\<forall>inputs. case run_ops (run_iteration [] forward_all) (Running True ?cl) inputs of
      Running _ cl' \<Rightarrow> client_conn cl' = ?conn | _ \<Rightarrow> True"
    by (simp cong: run_state.case_cong)
  moreover have "length (read_buf ?conn) = 12"
    by simp
  ultimately show ?thesis
    by blast
qed

end
