(* ===== verification/Virtwl_Channel.thy ===== *)
theory Virtwl_Channel
  imports Connection
begin

text \<open>
  The VirtWL transport to the host (\<^verbatim>\<open>sommelier/src/virtwl_channel.rs\<close>, \<^verbatim>\<open>virtwl.rs\<close>):
  the ioctl structures, the resources obtained through \<open>VIRTWL_IOCTL_NEW\<close>, the chunked send and
  the receive of one transaction.  What an ioctl returns, and what it leaves in its structure
  even when it fails, is an argument; every \<open>close\<close> is recorded.
\<close>

section \<open>The ioctl structures\<close>

definition VIRTWL_SEND_MAX_ALLOCS :: nat where "VIRTWL_SEND_MAX_ALLOCS = 28"
definition VIRTWL_IOCTL_NEW_CTX :: u32 where "VIRTWL_IOCTL_NEW_CTX = 0"
definition VIRTWL_IOCTL_NEW_ALLOC :: u32 where "VIRTWL_IOCTL_NEW_ALLOC = 1"
definition VIRTWL_IOCTL_NEW_PIPE_READ :: u32 where "VIRTWL_IOCTL_NEW_PIPE_READ = 2"
definition VIRTWL_IOCTL_NEW_PIPE_WRITE :: u32 where "VIRTWL_IOCTL_NEW_PIPE_WRITE = 3"
definition VIRTWL_IOCTL_NEW_DMABUF :: u32 where "VIRTWL_IOCTL_NEW_DMABUF = 4"

definition DMA_BUF_SYNC_READ :: u32 where "DMA_BUF_SYNC_READ = 1"
definition DMA_BUF_SYNC_WRITE :: u32 where "DMA_BUF_SYNC_WRITE = 2"
definition DMA_BUF_SYNC_END :: u32 where "DMA_BUF_SYNC_END = 4"

record new_dmabuf_info =
  nd_width :: u32
  nd_height :: u32
  nd_format :: u32
  nd_stride0 :: u32
  nd_stride1 :: u32
  nd_stride2 :: u32
  nd_offset0 :: u32
  nd_offset1 :: u32
  nd_offset2 :: u32

text \<open>The payload is a union of 36 bytes.\<close>

record virtwl_new =
  vn_type :: u32
  vn_fd :: i32
  vn_flags :: u32
  vn_payload :: "u8 list"

definition dmabuf_bytes :: "new_dmabuf_info \<Rightarrow> u8 list" where
  "dmabuf_bytes d = concat (map u32_to_ne_bytes
     [nd_width d, nd_height d, nd_format d, nd_stride0 d, nd_stride1 d, nd_stride2 d,
      nd_offset0 d, nd_offset1 d, nd_offset2 d])"

definition new_zeroed :: "u32 \<Rightarrow> virtwl_new" where
  "new_zeroed ty = \<lparr>vn_type = ty, vn_fd = -1, vn_flags = 0, vn_payload = replicate 36 0\<rparr>"

definition new_alloc :: "u32 \<Rightarrow> virtwl_new" where
  "new_alloc bytes = (new_zeroed VIRTWL_IOCTL_NEW_ALLOC)
     \<lparr>vn_payload := u32_to_ne_bytes bytes @ drop 4 (vn_payload (new_zeroed VIRTWL_IOCTL_NEW_ALLOC))\<rparr>"

definition new_ctx :: virtwl_new where
  "new_ctx = new_zeroed VIRTWL_IOCTL_NEW_CTX"

definition new_dmabuf :: "u32 \<Rightarrow> u32 \<Rightarrow> u32 \<Rightarrow> virtwl_new" where
  "new_dmabuf width height format = (new_zeroed VIRTWL_IOCTL_NEW_DMABUF)
     \<lparr>vn_payload := dmabuf_bytes \<lparr>nd_width = width, nd_height = height, nd_format = format,
        nd_stride0 = 0, nd_stride1 = 0, nd_stride2 = 0, nd_offset0 = 0, nd_offset1 = 0, nd_offset2 = 0\<rparr>\<rparr>"

definition new_pipe_read :: virtwl_new where
  "new_pipe_read = new_zeroed VIRTWL_IOCTL_NEW_PIPE_READ"

definition new_pipe_write :: virtwl_new where
  "new_pipe_write = new_zeroed VIRTWL_IOCTL_NEW_PIPE_WRITE"

definition word_at :: "u8 list \<Rightarrow> nat \<Rightarrow> u32" where
  "word_at bytes k = u32_from_ne_bytes (take 4 (drop (4 * k) bytes))"

definition get_dmabuf :: "virtwl_new \<Rightarrow> new_dmabuf_info" where
  "get_dmabuf s = (let w = word_at (vn_payload s) in
     \<lparr>nd_width = w 0, nd_height = w 1, nd_format = w 2, nd_stride0 = w 3, nd_stride1 = w 4,
      nd_stride2 = w 5, nd_offset0 = w 6, nd_offset1 = w 7, nd_offset2 = w 8\<rparr>)"

text \<open>A transaction: its descriptor array, its length word and the bytes behind the header.\<close>

record virtwl_txn =
  txn_fds :: "i32 list"
  txn_len :: u32
  txn_data :: "u8 list"

definition txn_header_size :: nat where
  "txn_header_size = 4 * VIRTWL_SEND_MAX_ALLOCS + 4"

definition DEFAULT_BUFFER_SIZE :: nat where
  "DEFAULT_BUFFER_SIZE = 4096"

definition MAX_SEND_SIZE :: nat where
  "MAX_SEND_SIZE = DEFAULT_BUFFER_SIZE - txn_header_size"

section \<open>Closing\<close>

definition close_raw_fds :: "i32 list \<Rightarrow> raw_fd list" where
  "close_raw_fds fds = close_received_fds fds"

definition close_returned_fd :: "i32 \<Rightarrow> raw_fd list" where
  "close_returned_fd fd = (if fd \<ge> 0 then [fd] else [])"

text \<open>
  The descriptors of a received transaction: packed in front of the \<open>-1\<close> entries and without
  duplicates, or all of them are closed.
\<close>

fun owned_fds_loop :: "i32 list \<Rightarrow> bool \<Rightarrow> i32 set \<Rightarrow> raw_fd list \<Rightarrow> raw_fd list option" where
  "owned_fds_loop [] packed seen received = Some received"
| "owned_fds_loop (fd # fds) packed seen received =
     (if fd = -1 then owned_fds_loop fds False seen received
      else if fd < -1 then None
      else if \<not> packed \<or> fd \<in> seen then None
      else owned_fds_loop fds packed (insert fd seen) (received @ [fd]))"

definition owned_fds_from_txn :: "i32 list \<Rightarrow> raw_fd list + raw_fd list" where
  "owned_fds_from_txn raw_fds =
     (case owned_fds_loop raw_fds True {} [] of
        None \<Rightarrow> Inl (close_raw_fds raw_fds)
      | Some received \<Rightarrow> Inr received)"

section \<open>Resources\<close>

datatype channel_error =
    IoctlFailed int | InvalidFd | InvalidDimensions | ZeroStride | InvalidSyncFlags | TooManyFds
  | DataTooLarge | InvalidFdArray

text \<open>The return value of an ioctl (\<open>Some errno\<close>: it failed) and its structure afterwards.\<close>

record new_outcome =
  no_errno :: "int option"
  no_new :: virtwl_new

text \<open>An error with the descriptors closed before it was returned, or the new descriptor.\<close>

type_synonym 'a resource = "channel_error \<times> raw_fd list + 'a"

definition new_resource :: "new_outcome \<Rightarrow> raw_fd resource" where
  "new_resource out =
     (case no_errno out of
        Some e \<Rightarrow> Inl (IoctlFailed e, close_returned_fd (vn_fd (no_new out)))
      | None \<Rightarrow>
          if vn_fd (no_new out) < 0 then Inl (InvalidFd, []) else Inr (vn_fd (no_new out)))"

definition allocate :: "u32 \<Rightarrow> new_outcome \<Rightarrow> (raw_fd \<times> u32) resource" where
  "allocate bytes out = map_sum id (\<lambda>fd. (fd, bytes)) (new_resource out)"

record dmabuf_layout =
  strides :: "u32 list"
  offsets :: "u32 list"

definition allocate_dmabuf :: "u32 \<Rightarrow> u32 \<Rightarrow> new_outcome \<Rightarrow> (raw_fd \<times> dmabuf_layout) resource" where
  "allocate_dmabuf width height out =
     (if width = 0 \<or> height = 0 then Inl (InvalidDimensions, [])
      else case new_resource out of
        Inl e \<Rightarrow> Inl e
      | Inr fd \<Rightarrow>
          let layout = get_dmabuf (no_new out)
          in if nd_stride0 layout = 0 then Inl (ZeroStride, close_returned_fd fd)
             else Inr (fd, \<lparr>strides = [nd_stride0 layout, nd_stride1 layout, nd_stride2 layout],
                            offsets = [nd_offset0 layout, nd_offset1 layout, nd_offset2 layout]\<rparr>))"

definition create_pipe :: "new_outcome \<Rightarrow> raw_fd resource" where
  "create_pipe out = new_resource out"

text \<open>\<open>Inr ()\<close>: the request is passed to the kernel.\<close>

definition sync_request :: "raw_fd \<Rightarrow> u32 \<Rightarrow> channel_error + unit" where
  "sync_request dmabuf_fd flags =
     (if dmabuf_fd < 0 then Inl InvalidFd
      else if flags AND NOT (DMA_BUF_SYNC_READ OR DMA_BUF_SYNC_WRITE OR DMA_BUF_SYNC_END) \<noteq> 0 \<or>
              flags AND (DMA_BUF_SYNC_READ OR DMA_BUF_SYNC_WRITE) = 0
      then Inl InvalidSyncFlags
      else Inr ())"

definition ENOTTY :: int where "ENOTTY = 25"

definition dmabuf_probe_supported :: "int option \<Rightarrow> bool" where
  "dmabuf_probe_supported errno \<longleftrightarrow> errno \<noteq> Some ENOTTY"

text \<open>Opening the channel: the context descriptor, dma-buf support, and what the probe closed.\<close>

definition channel_new :: "new_outcome \<Rightarrow> new_outcome \<Rightarrow> (raw_fd \<times> bool \<times> raw_fd list) resource" where
  "channel_new ctx_out probe_out =
     (case new_resource ctx_out of
        Inl e \<Rightarrow> Inl e
      | Inr ctx_fd \<Rightarrow>
         (let fd = vn_fd (no_new probe_out)
          in case no_errno probe_out of
               None \<Rightarrow> if fd \<ge> 0 then Inr (ctx_fd, True, close_returned_fd fd) else Inr (ctx_fd, False, [])
             | Some e \<Rightarrow> Inr (ctx_fd, dmabuf_probe_supported (Some e), close_returned_fd fd)))"

section \<open>Sending and receiving\<close>

function chunks :: "nat \<Rightarrow> 'a list \<Rightarrow> 'a list list" where
  "chunks n xs = (if xs = [] \<or> n = 0 then [] else take n xs # chunks n (drop n xs))"
  by pat_completeness auto

termination
  by (relation "measure (\<lambda>(n, xs). length xs)") auto

declare chunks.simps [simp del]

definition chunk_txn :: "u8 list \<Rightarrow> raw_fd list \<Rightarrow> virtwl_txn" where
  "chunk_txn data fds =
     \<lparr>txn_fds = fds @ replicate (VIRTWL_SEND_MAX_ALLOCS - length fds) (-1),
      txn_len = of_nat (length data), txn_data = data\<rparr>"

datatype ioctl_outcome = IoctlDone | IoctlError int | IoctlWouldBlock

text \<open>One chunk, retried while the channel would block; \<open>None\<close>: still waiting.\<close>

fun send_chunk :: "ioctl_outcome list \<Rightarrow> (channel_error + unit) option \<times> ioctl_outcome list" where
  "send_chunk [] = (None, [])"
| "send_chunk (IoctlDone # os) = (Some (Inr ()), os)"
| "send_chunk (IoctlError e # os) = (Some (Inl (IoctlFailed e)), os)"
| "send_chunk (IoctlWouldBlock # os) = send_chunk os"

text \<open>The transactions the kernel accepted, in order.\<close>

fun send_chunks ::
    "ioctl_outcome list \<Rightarrow> u8 list list \<Rightarrow> raw_fd list \<Rightarrow> (channel_error + unit) option \<times> virtwl_txn list" where
  "send_chunks os [] fds = (Some (Inr ()), [])"
| "send_chunks os (chunk # rest) fds =
     (case send_chunk os of
        (Some (Inr ()), os') \<Rightarrow>
          (case send_chunks os' rest [] of (r, txns) \<Rightarrow> (r, chunk_txn chunk fds # txns))
      | (r, os') \<Rightarrow> (r, []))"

definition virtwl_send ::
    "ioctl_outcome list \<Rightarrow> u8 list \<Rightarrow> raw_fd list \<Rightarrow> (channel_error + unit) option \<times> virtwl_txn list" where
  "virtwl_send os data fds =
     (if length fds > VIRTWL_SEND_MAX_ALLOCS then (Some (Inl TooManyFds), [])
      else send_chunks os (if data = [] then [data] else chunks MAX_SEND_SIZE data) fds)"

text \<open>The receive ioctl: its errno and the transaction it left in the buffer.\<close>

definition recv_message :: "int option \<Rightarrow> virtwl_txn \<Rightarrow> (u8 list \<times> raw_fd list) resource" where
  "recv_message errno txn =
     (case errno of
        Some e \<Rightarrow> Inl (IoctlFailed e, close_raw_fds (txn_fds txn))
      | None \<Rightarrow>
          let data_len = unat (txn_len txn)
          in if data_len > MAX_SEND_SIZE then Inl (DataTooLarge, close_raw_fds (txn_fds txn))
             else (case owned_fds_from_txn (txn_fds txn) of
                     Inl closed \<Rightarrow> Inl (InvalidFdArray, closed)
                   | Inr fds \<Rightarrow> Inr (take data_len (txn_data txn), fds)))"

lemma concat_chunks: "0 < n \<Longrightarrow> concat (chunks n xs) = xs"
  by (induction n xs rule: chunks.induct) (subst chunks.simps, auto)

lemma chunks_bound: "c \<in> set (chunks n xs) \<Longrightarrow> 0 < length c \<and> length c \<le> n"
  by (induction n xs rule: chunks.induct) (subst (asm) (2) chunks.simps, auto split: if_splits)

lemma MAX_SEND_SIZE_value: "MAX_SEND_SIZE = 3980"
  by (simp add: MAX_SEND_SIZE_def DEFAULT_BUFFER_SIZE_def txn_header_size_def VIRTWL_SEND_MAX_ALLOCS_def)

lemma owned_fds_loop_padding: "owned_fds_loop (replicate k (-1)) p seen rec = Some rec"
  by (induction k arbitrary: p) auto

lemma owned_fds_loop_packed:
  "list_all ((\<le>) 0) fds \<Longrightarrow> distinct fds \<Longrightarrow> set fds \<inter> seen = {} \<Longrightarrow>
     owned_fds_loop (fds @ replicate k (-1)) True seen rec = Some (rec @ fds)"
  by (induction fds arbitrary: seen rec) (auto simp: owned_fds_loop_padding)

lemma owned_fds_loop_sound:
  "owned_fds_loop fds p seen rec = Some r \<Longrightarrow> distinct rec \<Longrightarrow> set rec \<subseteq> seen \<Longrightarrow>
     distinct r \<and> set r = set rec \<union> {fd \<in> set fds. 0 \<le> fd}"
proof (induction fds p seen rec rule: owned_fds_loop.induct)
  case (2 fd fds p seen rec)
  show ?case
  proof (cases "fd = -1")
    case False
    then have fd: "0 \<le> fd" "fd \<notin> seen" "p" and
        loop: "owned_fds_loop fds p (insert fd seen) (rec @ [fd]) = Some r"
      using 2(3) by (auto split: if_splits)
    have "fd \<notin> set rec" "set rec \<subseteq> insert fd seen"
      using 2(5) fd(2) by blast+
    then show ?thesis
      using 2(2) [OF False _ _ loop] 2(4,5) fd by auto
  qed (use 2 in auto)
qed simp

lemma close_raw_fds_all [simp]:
  "set (close_raw_fds fds) = {fd \<in> set fds. 0 \<le> fd}" "distinct (close_raw_fds fds)"
  by (simp_all add: close_raw_fds_def)

lemma word_at_bytes:
  assumes "bytes = pre @ u32_to_ne_bytes x @ post" "length pre = 4 * k"
  shows "word_at bytes k = x"
  using assms by (simp add: word_at_def)

lemma recv_chunk:
  assumes "length data \<le> MAX_SEND_SIZE" "list_all ((\<le>) 0) fds" "distinct fds"
  shows "recv_message None (chunk_txn data fds) = Inr (data, fds)"
proof -
  have "unat (of_nat (length data) :: u32) = length data"
    using assms(1) by (simp add: MAX_SEND_SIZE_value unat_of_nat take_bit_eq_mod)
  then show ?thesis
    using assms owned_fds_loop_packed [OF assms(2,3), of "{}"]
    by (simp add: recv_message_def chunk_txn_def owned_fds_from_txn_def Let_def)
qed

lemma send_chunks_received:
  assumes "send_chunks os cs fds = (Some (Inr ()), txns)"
    and "\<forall>c\<in>set cs. length c \<le> MAX_SEND_SIZE" "list_all ((\<le>) 0) fds" "distinct fds"
  shows "map (recv_message None) txns = map2 (\<lambda>c f. Inr (c, f)) cs (fds # replicate (length cs - 1) [])"
  using assms
proof (induction os cs fds arbitrary: txns rule: send_chunks.induct)
  case (2 os chunk rest fds)
  obtain r os' where "send_chunk os = (r, os')"
    by fastforce
  then have s: "send_chunk os = (Some (Inr ()), os')"
    using 2(2) by (cases r) (simp_all split: sum.splits unit.splits)
  obtain r' txns' where r': "send_chunks os' rest [] = (r', txns')"
    by fastforce
  then have t: "send_chunks os' rest [] = (Some (Inr ()), txns')" "txns = chunk_txn chunk fds # txns'"
    using 2(2) by (simp_all add: s split: unit.splits)
  show ?case
  proof (cases rest)
    case Nil
    then show ?thesis
      using 2(3-5) t by (simp add: recv_chunk)
  next
    case (Cons c cs)
    then show ?thesis
      using 2(1) [OF s [symmetric] refl refl _ t(1)] 2(3-5) t(2) by (simp add: recv_chunk)
  qed
qed simp

section \<open>Properties\<close>

text \<open>C32: What one end of a VirtWL channel sends, split into transactions of at most 3980 bytes,
  the other end receives: the same bytes in order, and the descriptors with the first of them.\<close>

theorem virtwl_transfer_exact:
  assumes "virtwl_send os data fds = (Some (Inr ()), txns)" "list_all ((\<le>) 0) fds" "distinct fds"
  shows "\<exists>parts. map (recv_message None) txns = map Inr parts \<and> concat (map fst parts) = data \<and>
    map snd parts = fds # replicate (length parts - 1) [] \<and> list_all (\<lambda>p. length (fst p) \<le> 3980) parts"
proof -
  obtain cs where cs: "cs \<noteq> []" "concat cs = data" "\<forall>c\<in>set cs. length c \<le> MAX_SEND_SIZE"
    and s: "send_chunks os cs fds = (Some (Inr ()), txns)"
  proof
    let ?cs = "if data = [] then [data] else chunks MAX_SEND_SIZE data"
    show "concat ?cs = data"
      by (simp add: concat_chunks MAX_SEND_SIZE_value)
    then show "?cs \<noteq> []"
      by (auto split: if_splits)
    show "\<forall>c\<in>set ?cs. length c \<le> MAX_SEND_SIZE"
      using chunks_bound [of _ MAX_SEND_SIZE data] by simp
    show "send_chunks os ?cs fds = (Some (Inr ()), txns)"
      using assms(1) by (simp add: virtwl_send_def split: if_splits)
  qed
  let ?parts = "zip cs (fds # replicate (length cs - 1) [])"
  have len: "length cs = length (fds # replicate (length cs - 1) [])"
    using cs(1) by (cases cs) simp_all
  have "map (recv_message None) txns = map Inr ?parts"
    using send_chunks_received [OF s cs(3) assms(2,3)] by (simp add: case_prod_unfold comp_def)
  moreover have "concat (map fst ?parts) = data" "map snd ?parts = fds # replicate (length ?parts - 1) []"
    using len cs(2) by (simp_all del: length_Cons length_replicate)
  moreover have "list_all (\<lambda>p. length (fst p) \<le> 3980) ?parts"
    using cs(3) unfolding list_all_iff MAX_SEND_SIZE_value by (metis in_set_zipE prod.collapse)
  ultimately show ?thesis
    by (intro exI [of _ ?parts] conjI)
qed

theorem virtwl_transfer_exact_witness:
  "\<exists>parts. map (recv_message None) [chunk_txn [7, 8] [5, 9]] = map Inr parts \<and>
     concat (map fst parts) = [7, 8] \<and> concat (map snd parts) = [5, 9]"
proof -
  have "chunks MAX_SEND_SIZE [7, 8 :: u8] = [[7, 8]]"
    by (subst chunks.simps, subst chunks.simps) (simp add: MAX_SEND_SIZE_value)
  then have sent: "virtwl_send [IoctlWouldBlock, IoctlDone] [7, 8] [5, 9] = (Some (Inr ()), [chunk_txn [7, 8] [5, 9]])"
    by (simp add: virtwl_send_def VIRTWL_SEND_MAX_ALLOCS_def split: unit.splits)
  have "list_all ((\<le>) 0) [5, 9 :: raw_fd]" "distinct [5, 9 :: raw_fd]"
    by simp_all
  from virtwl_transfer_exact [OF sent this] obtain parts
    where p: "map (recv_message None) [chunk_txn [7, 8] [5, 9]] = map Inr parts"
      "concat (map fst parts) = [7, 8]" "map snd parts = [5, 9] # replicate (length parts - 1) []"
    by (elim exE conjE) (rule that)
  show ?thesis
    by (intro exI [of _ parts] conjI p(1,2)) (simp add: p(3))
qed

text \<open>C33: No descriptor the kernel hands out is lost or closed twice: after a receive or a request
  for a resource, each of them is owned by the caller or has been closed, exactly one of both.\<close>

theorem virtwl_descriptors_accounted:
  "(case recv_message errno txn of
      Inl (_, closed) \<Rightarrow> distinct closed \<and> set closed = {fd \<in> set (txn_fds txn). 0 \<le> fd}
    | Inr (_, owned) \<Rightarrow> distinct owned \<and> set owned = {fd \<in> set (txn_fds txn). 0 \<le> fd}) \<and>
   (case new_resource out of
      Inl (_, closed) \<Rightarrow> closed = close_returned_fd (vn_fd (no_new out))
    | Inr fd \<Rightarrow> close_returned_fd (vn_fd (no_new out)) = [fd]) \<and>
   (case allocate_dmabuf width height out of
      Inl (e, closed) \<Rightarrow> closed = (if e = InvalidDimensions then [] else close_returned_fd (vn_fd (no_new out)))
    | Inr (fd, layout) \<Rightarrow> close_returned_fd (vn_fd (no_new out)) = [fd] \<and> hd (strides layout) \<noteq> 0)"
proof (intro conjI)
  show "case recv_message errno txn of
      Inl (_, closed) \<Rightarrow> distinct closed \<and> set closed = {fd \<in> set (txn_fds txn). 0 \<le> fd}
    | Inr (_, owned) \<Rightarrow> distinct owned \<and> set owned = {fd \<in> set (txn_fds txn). 0 \<le> fd}"
    using owned_fds_loop_sound [of "txn_fds txn" True "{}" "[]"]
    by (auto simp: recv_message_def owned_fds_from_txn_def Let_def split: option.splits sum.splits)
qed (auto simp: allocate_dmabuf_def new_resource_def close_returned_fd_def Let_def split: option.splits sum.splits)

end
