(* ===== verification/Shm_Copy.thy ===== *)
theory Shm_Copy
  imports Surface_State
begin

text \<open>
  Bridging of guest shared memory to host buffers (\<^verbatim>\<open>sommelier/src/handler/shm.rs\<close>): the
  checks of pool and buffer layouts, the union of damage rectangles, and the copy of the
  damaged part of an image.  A mapping is the list of its bytes, \<open>None\<close> a null or failed one.
  A copy outside a mapping (undefined behaviour) and a panic are the outer \<open>None\<close>.
\<close>

section \<open>Arithmetic\<close>

definition usize_checked_mul :: "nat \<Rightarrow> nat \<Rightarrow> nat option" where
  "usize_checked_mul a b = (if a * b < usize_limit then Some (a * b) else None)"

definition usize_saturating_add :: "nat \<Rightarrow> nat \<Rightarrow> nat" where
  "usize_saturating_add a b = min (a + b) (usize_limit - 1)"

text \<open>\<open>usize::try_from\<close> of a signed integer.\<close>

definition usize_from_i32 :: "int \<Rightarrow> nat option" where
  "usize_from_i32 v = (if v < 0 then None else Some (nat v))"

definition i64_checked_add :: "int \<Rightarrow> int \<Rightarrow> int option" where
  "i64_checked_add a b = (if - (2 ^ 63) \<le> a + b \<and> a + b < 2 ^ 63 then Some (a + b) else None)"

definition i64_as_i32 :: "int \<Rightarrow> i32" where
  "i64_as_i32 v = as_i32 (as_u32 v)"

definition u128_saturating :: "int \<Rightarrow> int" where
  "u128_saturating v = min v (2 ^ 128 - 1)"

section \<open>Formats and layouts\<close>

definition WL_SHM_FORMAT_NV12 :: u32 where "WL_SHM_FORMAT_NV12 = 0x3231564e"

definition SUPPORTED_SHM_FORMATS :: "u32 list" where
  "SUPPORTED_SHM_FORMATS = [0, 1, WL_SHM_FORMAT_NV12, 0x36314752, 0x34324241, 0x34324258]"

definition MANDATORY_SHM_FORMATS :: "u32 list" where
  "MANDATORY_SHM_FORMATS = [0, 1]"

definition valid_pool_size :: "i32 \<Rightarrow> nat option" where
  "valid_pool_size n = (if n > 0 \<and> nat n \<le> 2 ^ 63 - 1 then Some (nat n) else None)"

definition valid_pool_resize :: "nat \<Rightarrow> i32 \<Rightarrow> nat option" where
  "valid_pool_resize current_size new_size =
     (case valid_pool_size new_size of
        None \<Rightarrow> None
      | Some n \<Rightarrow> if n > current_size then Some n else None)"

definition supported_shm_format :: "u32 \<Rightarrow> bool" where
  "supported_shm_format format \<longleftrightarrow> List.member SUPPORTED_SHM_FORMATS format"

definition shm_format_from_drm :: "u32 \<Rightarrow> u32 option" where
  "shm_format_from_drm format =
     (if format = 0x34325241 then Some 0
      else if format = 0x34325258 then Some 1
      else if format = WL_SHM_FORMAT_NV12 then Some WL_SHM_FORMAT_NV12
      else if supported_shm_format format then Some format
      else None)"

definition format_bytes_per_pixel :: "u32 \<Rightarrow> nat option" where
  "format_bytes_per_pixel format =
     (if format = WL_SHM_FORMAT_NV12 then Some 1
      else if format = 0x36314752 then Some 2
      else if format = 0 \<or> format = 1 \<or> format = 0x34324241 \<or> format = 0x34324258 then Some 4
      else None)"

definition valid_shm_stride :: "u32 \<Rightarrow> i32 \<Rightarrow> i32 \<Rightarrow> bool" where
  "valid_shm_stride format width stride =
     (case (usize_from_i32 width, usize_from_i32 stride, format_bytes_per_pixel format) of
        (Some w, Some s, Some bytes_per_pixel) \<Rightarrow>
          (case usize_checked_mul w bytes_per_pixel of
             Some minimum \<Rightarrow> s \<ge> minimum \<and> (format \<noteq> WL_SHM_FORMAT_NV12 \<or> w mod 2 = 0 \<and> s mod 2 = 0)
           | None \<Rightarrow> False)
      | _ \<Rightarrow> False)"

text \<open>The number of bytes of a buffer that lies inside its pool.\<close>

definition valid_buffer_layout :: "nat \<Rightarrow> i32 \<Rightarrow> i32 \<Rightarrow> i32 \<Rightarrow> i32 \<Rightarrow> u32 \<Rightarrow> nat option" where
  "valid_buffer_layout pool_size off width height stride format =
     (if off < 0 \<or> width \<le> 0 \<or> height \<le> 0 \<or> stride \<le> 0 then None
      else if format = WL_SHM_FORMAT_NV12 \<and> (width mod 2 \<noteq> 0 \<or> height mod 2 \<noteq> 0) then None
      else
        case (if format = WL_SHM_FORMAT_NV12
              then Option.bind (usize_checked_mul (nat stride) (nat height)) (\<lambda>luma.
                   Option.bind (usize_checked_mul (nat stride) (nat height div 2)) (\<lambda>chroma.
                     usize_checked_add luma chroma))
              else usize_checked_mul (nat stride) (nat height)) of
          None \<Rightarrow> None
        | Some bytes \<Rightarrow>
           (case usize_checked_add (nat off) bytes of
              None \<Rightarrow> None
            | Some e \<Rightarrow> if e > pool_size \<or> bytes > 2 ^ 31 - 1 then None else Some bytes))"

record dmabuf_span =
  ds_stride0 :: nat
  ds_stride1 :: nat
  ds_offset0 :: nat
  ds_offset1 :: nat
  ds_span :: nat

text \<open>Bytes per pixel of plane 0 and the number of planes, for a DRM format.\<close>

definition drm_planes :: "u32 \<Rightarrow> (nat \<times> nat) option" where
  "drm_planes format =
     (if format = WL_SHM_FORMAT_NV12 then Some (1, 2)
      else if format = 0x36314752 then Some (2, 1)
      else if format = 0x34325258 \<or> format = 0x34325241 \<or> format = 0x34324258 \<or> format = 0x34324241
      then Some (4, 1)
      else None)"

definition validate_dmabuf_layout ::
    "u32 \<Rightarrow> i32 \<Rightarrow> i32 \<Rightarrow> u32 list \<Rightarrow> u32 list \<Rightarrow> dmabuf_span option" where
  "validate_dmabuf_layout format width height strides offsets =
     (case (usize_from_i32 width, usize_from_i32 height) of
        (Some w, Some h) \<Rightarrow>
          if w = 0 \<or> h = 0 \<or> strides ! 0 = 0 then None
          else if format = WL_SHM_FORMAT_NV12 \<and> (w mod 2 \<noteq> 0 \<or> h mod 2 \<noteq> 0) then None
          else case drm_planes format of
            None \<Rightarrow> None
          | Some (plane0_bpp, plane_count) \<Rightarrow>
              let stride0 = unat (strides ! 0); offset0 = unat (offsets ! 0)
              in case usize_checked_mul w plane0_bpp of
                   None \<Rightarrow> None
                 | Some minimum0 \<Rightarrow>
                     if stride0 < minimum0 then None
                     else case Option.bind (usize_checked_mul stride0 h) (usize_checked_add offset0) of
                       None \<Rightarrow> None
                     | Some plane0_end \<Rightarrow>
                         if plane_count = 1 then
                           Some \<lparr>ds_stride0 = stride0, ds_stride1 = 0, ds_offset0 = offset0,
                                 ds_offset1 = 0, ds_span = plane0_end\<rparr>
                         else
                           let stride1 = unat (strides ! 1); offset1 = unat (offsets ! 1)
                           in if stride1 < w \<or> stride1 mod 2 \<noteq> 0 \<or> offset1 < plane0_end then None
                              else case Option.bind (usize_checked_mul stride1 (h div 2))
                                          (usize_checked_add offset1) of
                                None \<Rightarrow> None
                              | Some plane1_end \<Rightarrow>
                                  Some \<lparr>ds_stride0 = stride0, ds_stride1 = stride1,
                                        ds_offset0 = offset0, ds_offset1 = offset1,
                                        ds_span = max plane0_end plane1_end\<rparr>
      | _ \<Rightarrow> None)"

section \<open>Damage rectangles\<close>

type_synonym edges = "int \<times> int \<times> int \<times> int"

definition damage_edges :: "damage_rect \<Rightarrow> edges option" where
  "damage_edges r =
     (if dr_width r \<le> 0 \<or> dr_height r \<le> 0 then None
      else case (i64_checked_add (dr_x r) (dr_width r), i64_checked_add (dr_y r) (dr_height r)) of
        (Some x1, Some y1) \<Rightarrow>
          if dr_x r < x1 \<and> dr_y r < y1 then Some (dr_x r, dr_y r, x1, y1) else None
      | _ \<Rightarrow> None)"

definition damage_edges_fit_i32 :: "edges \<Rightarrow> bool" where
  "damage_edges_fit_i32 e \<longleftrightarrow> (case e of (x0, y0, x1, y1) \<Rightarrow>
     x0 \<ge> - (2 ^ 31) \<and> y0 \<ge> - (2 ^ 31) \<and> x0 \<le> 2 ^ 31 - 1 \<and> y0 \<le> 2 ^ 31 - 1 \<and>
     x1 \<le> 2 ^ 31 - 1 \<and> y1 \<le> 2 ^ 31 - 1 \<and> x1 - x0 \<le> 2 ^ 31 - 1 \<and> y1 - y0 \<le> 2 ^ 31 - 1)"

definition damage_from_edges :: "edges \<Rightarrow> damage_rect" where
  "damage_from_edges e = (case e of (x0, y0, x1, y1) \<Rightarrow>
     \<lparr>dr_x = i64_as_i32 x0, dr_y = i64_as_i32 y0, dr_width = i64_as_i32 (x1 - x0),
      dr_height = i64_as_i32 (y1 - y0)\<rparr>)"

definition damage_rects_touch_or_overlap :: "edges \<Rightarrow> edges \<Rightarrow> bool" where
  "damage_rects_touch_or_overlap a b \<longleftrightarrow>
     (case (a, b) of ((ax0, ay0, ax1, ay1), (bx0, by0, bx1, by1)) \<Rightarrow>
        ax0 \<le> bx1 \<and> bx0 \<le> ax1 \<and> ay0 \<le> by1 \<and> by0 \<le> ay1)"

definition damage_area :: "edges \<Rightarrow> int" where
  "damage_area e = (case e of (x0, y0, x1, y1) \<Rightarrow> (x1 - x0) * (y1 - y0))"

definition damage_union_is_compact :: "edges \<Rightarrow> edges \<Rightarrow> edges \<Rightarrow> bool" where
  "damage_union_is_compact a b expanded \<longleftrightarrow>
     u128_saturating (damage_area expanded * 2) \<le>
     u128_saturating (u128_saturating (damage_area a + damage_area b) * 3)"

definition expand_edges :: "edges \<Rightarrow> edges \<Rightarrow> edges" where
  "expand_edges a b =
     (case (a, b) of ((ax0, ay0, ax1, ay1), (bx0, by0, bx1, by1)) \<Rightarrow>
        (min ax0 bx0, min ay0 by0, max ax1 bx1, max ay1 by1))"

definition absorbs :: "edges \<Rightarrow> damage_rect \<Rightarrow> bool" where
  "absorbs candidate existing =
     (case damage_edges existing of
        None \<Rightarrow> False
      | Some e \<Rightarrow>
          damage_rects_touch_or_overlap candidate e \<and>
          (let expanded = expand_edges candidate e
           in damage_edges_fit_i32 expanded \<and> damage_union_is_compact candidate e expanded))"

fun position :: "('a \<Rightarrow> bool) \<Rightarrow> 'a list \<Rightarrow> nat option" where
  "position p [] = None"
| "position p (x # xs) = (if p x then Some 0 else map_option Suc (position p xs))"

text \<open>\<open>Vec::swap_remove\<close>: the last element takes the place of the removed one.\<close>

definition swap_remove :: "nat \<Rightarrow> 'a list \<Rightarrow> 'a list" where
  "swap_remove i xs = butlast (xs[i := last xs])"

lemma position_SomeD: "position p xs = Some i \<Longrightarrow> i < length xs \<and> p (xs ! i)"
  by (induction xs arbitrary: i) (auto split: if_splits)

lemma position_NoneD: "position p xs = None \<Longrightarrow> x \<in> set xs \<Longrightarrow> \<not> p x"
  by (induction xs) (auto split: if_splits)

lemma length_swap_remove [simp]: "length (swap_remove i xs) = length xs - 1"
  by (simp add: swap_remove_def)

text \<open>The inner loop: the candidate grows by every rectangle it may be merged with.\<close>

function absorb_loop :: "edges \<Rightarrow> damage_rect list \<Rightarrow> (edges \<times> damage_rect list) option" where
  "absorb_loop candidate merged =
     (case position (absorbs candidate) merged of
        None \<Rightarrow> Some (candidate, merged)
      | Some i \<Rightarrow>
         (case damage_edges (merged ! i) of
            None \<Rightarrow> None
          | Some e \<Rightarrow> absorb_loop (expand_edges candidate e) (swap_remove i merged)))"
  by pat_completeness auto

termination
  by (relation "measure (\<lambda>(candidate, merged). length merged)") (auto dest: position_SomeD)

declare absorb_loop.simps [simp del]

definition coalesce_step :: "damage_rect \<Rightarrow> damage_rect list \<Rightarrow> damage_rect list option" where
  "coalesce_step rect merged =
     (case damage_edges rect of
        None \<Rightarrow> Some merged
      | Some edges \<Rightarrow>
         (case absorb_loop edges merged of
            None \<Rightarrow> None
          | Some (candidate, rest) \<Rightarrow>
              Some (rest @ [if damage_edges_fit_i32 candidate then damage_from_edges candidate else rect])))"

fun coalesce_loop :: "damage_rect list \<Rightarrow> damage_rect list \<Rightarrow> damage_rect list option" where
  "coalesce_loop [] merged = Some merged"
| "coalesce_loop (rect # damage) merged =
     Option.bind (coalesce_step rect merged) (coalesce_loop damage)"

definition coalesce_damage_rects :: "damage_rect list \<Rightarrow> damage_rect list option" where
  "coalesce_damage_rects damage = coalesce_loop damage []"

definition clipped_damage :: "damage_rect \<Rightarrow> nat \<Rightarrow> nat \<Rightarrow> (nat \<times> nat \<times> nat \<times> nat) option" where
  "clipped_damage r width height =
     (if dr_width r \<le> 0 \<or> dr_height r \<le> 0 then None
      else case (i64_checked_add (dr_x r) (dr_width r), i64_checked_add (dr_y r) (dr_height r)) of
        (Some xe, Some ye) \<Rightarrow>
          if int width \<ge> 2 ^ 63 \<or> int height \<ge> 2 ^ 63 then None
          else
            let x0 = max (dr_x r) 0; y0 = max (dr_y r) 0; x1 = min xe (int width); y1 = min ye (int height)
            in if x0 \<ge> x1 \<or> y0 \<ge> y1 then None else Some (nat x0, nat y0, nat x1, nat y1)
      | _ \<Rightarrow> None)"

section \<open>Copying\<close>

record plane_copy =
  pc_src_offset :: nat
  pc_dst_offset :: nat
  pc_src_stride :: nat
  pc_dst_stride :: nat
  pc_rows :: nat
  pc_row_bytes :: nat

record shm_copy_layout =
  sl_pool_size :: nat
  sl_dest_size :: nat
  sl_format :: u32
  sl_offset :: nat
  sl_width :: nat
  sl_src_stride :: nat
  sl_dst_stride :: nat
  sl_dst_plane1_offset :: nat
  sl_dst_plane1_stride :: nat
  sl_height :: nat

text \<open>The end of a plane: behind its last row's last byte.\<close>

definition plane_end :: "nat \<Rightarrow> nat \<Rightarrow> nat \<Rightarrow> nat \<Rightarrow> nat option" where
  "plane_end off last_row stride row_bytes =
     Option.bind (Option.bind (usize_checked_mul last_row stride) (usize_checked_add off))
       (\<lambda>start. usize_checked_add start row_bytes)"

definition valid_plane_copy :: "nat \<Rightarrow> nat \<Rightarrow> plane_copy \<Rightarrow> nat option" where
  "valid_plane_copy pool_size dest_size p =
     (if pc_src_stride p = 0 \<or> pc_dst_stride p = 0 \<or> pc_rows p = 0 \<or> pc_row_bytes p = 0 \<or>
         pc_row_bytes p > pc_src_stride p \<or> pc_row_bytes p > pc_dst_stride p then None
      else
        case (plane_end (pc_src_offset p) (pc_rows p - 1) (pc_src_stride p) (pc_row_bytes p),
              plane_end (pc_dst_offset p) (pc_rows p - 1) (pc_dst_stride p) (pc_row_bytes p)) of
          (Some src_end, Some dst_end) \<Rightarrow>
            if src_end \<le> pool_size \<and> dst_end \<le> dest_size then Some (pc_row_bytes p) else None
        | _ \<Rightarrow> None)"

text \<open>The span of one plane for a clipped rectangle; \<open>None\<close> is \<open>return false\<close>.\<close>

definition plane_span ::
    "shm_copy_layout \<Rightarrow> nat \<Rightarrow> nat \<Rightarrow> nat \<Rightarrow> nat \<Rightarrow> nat \<times> nat \<times> nat \<times> nat \<Rightarrow> plane_copy option" where
  "plane_span l plane_bpp plane_src_offset plane_dst_offset plane_dst_stride r =
     (case r of (x0, y0, x1, y1) \<Rightarrow>
        if x1 < x0 then None
        else
          case (usize_checked_mul (x1 - x0) plane_bpp, usize_checked_mul x0 plane_bpp) of
            (Some row_bytes, Some x_offset) \<Rightarrow>
              (case (Option.bind (Option.bind (usize_checked_mul y0 (sl_src_stride l))
                        (usize_checked_add plane_src_offset)) (\<lambda>row. usize_checked_add row x_offset),
                     Option.bind (Option.bind (usize_checked_mul y0 plane_dst_stride)
                        (usize_checked_add plane_dst_offset)) (\<lambda>row. usize_checked_add row x_offset)) of
                 (Some src_offset, Some dst_offset) \<Rightarrow>
                   let p = \<lparr>pc_src_offset = src_offset, pc_dst_offset = dst_offset,
                            pc_src_stride = sl_src_stride l, pc_dst_stride = plane_dst_stride,
                            pc_rows = y1 - y0, pc_row_bytes = row_bytes\<rparr>
                   in if valid_plane_copy (sl_pool_size l) (sl_dest_size l) p = None then None else Some p
               | _ \<Rightarrow> None)
          | _ \<Rightarrow> None)"

text \<open>A chroma sample covers two by two pixels: the rectangle is widened to whole samples.\<close>

definition chroma_rect :: "nat \<Rightarrow> nat \<times> nat \<times> nat \<times> nat \<Rightarrow> nat \<times> nat \<times> nat \<times> nat" where
  "chroma_rect width r =
     (case r of (x0, y0, x1, y1) \<Rightarrow>
        let xs = x0 - x0 mod 2;
            clipped = min (usize_saturating_add x1 1) width;
            even = clipped - clipped mod 2;
            xe = (if even \<le> xs then min (xs + 2) width else even)
        in (xs, y0 div 2, xe, usize_saturating_add y1 1 div 2))"

definition chroma_span :: "shm_copy_layout \<Rightarrow> nat \<times> nat \<times> nat \<times> nat \<Rightarrow> plane_copy option" where
  "chroma_span l r =
     (case (Option.bind (usize_checked_mul (sl_height l) (sl_src_stride l)) (usize_checked_add (sl_offset l)),
            if sl_dst_plane1_stride l = 0 then usize_checked_mul (sl_height l) (sl_dst_stride l)
            else Some (sl_dst_plane1_offset l)) of
        (Some plane_src_offset, Some plane_dst_offset) \<Rightarrow>
          plane_span l 1 plane_src_offset plane_dst_offset
            (if sl_dst_plane1_stride l = 0 then sl_dst_stride l else sl_dst_plane1_stride l)
            (chroma_rect (sl_width l) r)
      | _ \<Rightarrow> None)"

definition rect_spans :: "shm_copy_layout \<Rightarrow> nat \<Rightarrow> damage_rect \<Rightarrow> plane_copy list option" where
  "rect_spans l bytes_per_pixel rect =
     (case clipped_damage rect (sl_width l) (sl_height l) of
        None \<Rightarrow> Some []
      | Some r \<Rightarrow>
         (case plane_span l bytes_per_pixel (sl_offset l) 0 (sl_dst_stride l) r of
            None \<Rightarrow> None
          | Some p0 \<Rightarrow>
              if sl_format l = WL_SHM_FORMAT_NV12
              then map_option (\<lambda>p1. [p0, p1]) (chroma_span l r)
              else Some [p0]))"

fun damage_spans :: "shm_copy_layout \<Rightarrow> nat \<Rightarrow> damage_rect list \<Rightarrow> plane_copy list option" where
  "damage_spans l bpp [] = Some []"
| "damage_spans l bpp (r # rs) =
     (case rect_spans l bpp r of
        None \<Rightarrow> None
      | Some ps \<Rightarrow> map_option ((@) ps) (damage_spans l bpp rs))"

text \<open>\<open>ptr::copy_nonoverlapping\<close> between two mappings.\<close>

definition copy_bytes :: "u8 list \<Rightarrow> nat \<Rightarrow> nat \<Rightarrow> nat \<Rightarrow> u8 list \<Rightarrow> u8 list option" where
  "copy_bytes src src_at dst_at n dst =
     (if src_at + n \<le> length src \<and> dst_at + n \<le> length dst
      then Some (take dst_at dst @ take n (drop src_at src) @ drop (dst_at + n) dst)
      else None)"

text \<open>Rows \<open>row\<close>, \<open>row + 1\<close>, \<dots>; the flag is \<open>False\<close> for the \<open>return false\<close> on overflow.\<close>

fun copy_rows :: "u8 list \<Rightarrow> plane_copy \<Rightarrow> nat \<Rightarrow> nat \<Rightarrow> u8 list \<Rightarrow> (bool \<times> u8 list) option" where
  "copy_rows src p row 0 dst = Some (True, dst)"
| "copy_rows src p row (Suc n) dst =
     (case (Option.bind (usize_checked_mul row (pc_src_stride p)) (usize_checked_add (pc_src_offset p)),
            Option.bind (usize_checked_mul row (pc_dst_stride p)) (usize_checked_add (pc_dst_offset p))) of
        (Some src_row, Some dst_row) \<Rightarrow>
          (case copy_bytes src src_row dst_row (pc_row_bytes p) dst of
             None \<Rightarrow> None
           | Some dst' \<Rightarrow> copy_rows src p (Suc row) n dst')
      | _ \<Rightarrow> Some (False, dst))"

definition copy_plane :: "u8 list \<Rightarrow> plane_copy \<Rightarrow> u8 list \<Rightarrow> (bool \<times> u8 list) option" where
  "copy_plane src p dst =
     (if pc_row_bytes p = pc_src_stride p \<and> pc_row_bytes p = pc_dst_stride p
      then (case usize_checked_mul (pc_row_bytes p) (pc_rows p) of
              None \<Rightarrow> Some (False, dst)
            | Some bytes \<Rightarrow>
                map_option (Pair True) (copy_bytes src (pc_src_offset p) (pc_dst_offset p) bytes dst))
      else copy_rows src p 0 (pc_rows p) dst)"

fun copy_planes :: "u8 list \<Rightarrow> plane_copy list \<Rightarrow> u8 list \<Rightarrow> (bool \<times> u8 list) option" where
  "copy_planes src [] dst = Some (True, dst)"
| "copy_planes src (p # ps) dst =
     (case copy_plane src p dst of
        None \<Rightarrow> None
      | Some (False, dst') \<Rightarrow> Some (False, dst')
      | Some (True, dst') \<Rightarrow> copy_planes src ps dst')"

definition copy_shm_damage ::
    "u8 list option \<Rightarrow> u8 list option \<Rightarrow> shm_copy_layout \<Rightarrow> damage_rect list \<Rightarrow>
       (bool \<times> u8 list option) option" where
  "copy_shm_damage src dst l damage =
     (case (src, dst, format_bytes_per_pixel (sl_format l)) of
        (Some s, Some d, Some bytes_per_pixel) \<Rightarrow>
          if sl_width l = 0 \<or> sl_height l = 0 then Some (False, dst)
          else (case coalesce_damage_rects damage of
                  None \<Rightarrow> None
                | Some merged \<Rightarrow>
                   (case damage_spans l bytes_per_pixel merged of
                      None \<Rightarrow> Some (False, dst)
                    | Some spans \<Rightarrow> map_option (map_prod id Some) (copy_planes s spans d)))
      | _ \<Rightarrow> Some (False, dst))"

section \<open>Coalescing loses no damage\<close>

definition in_edges :: "int \<times> int \<Rightarrow> edges \<Rightarrow> bool" where
  "in_edges p e \<longleftrightarrow> (case (p, e) of ((x, y), (x0, y0, x1, y1)) \<Rightarrow> x0 \<le> x \<and> x < x1 \<and> y0 \<le> y \<and> y < y1)"

definition in_rect :: "int \<times> int \<Rightarrow> damage_rect \<Rightarrow> bool" where
  "in_rect p r \<longleftrightarrow> (case p of (x, y) \<Rightarrow>
     dr_x r \<le> x \<and> x < dr_x r + dr_width r \<and> dr_y r \<le> y \<and> y < dr_y r + dr_height r)"

definition covered :: "int \<times> int \<Rightarrow> damage_rect list \<Rightarrow> bool" where
  "covered p rs \<longleftrightarrow> list_ex (in_rect p) rs"

text \<open>A rectangle as it arrives on the wire.\<close>

definition rect_ok :: "damage_rect \<Rightarrow> bool" where
  "rect_ok r \<longleftrightarrow> in_i32 (dr_x r) \<and> in_i32 (dr_y r) \<and> in_i32 (dr_width r) \<and> in_i32 (dr_height r)"

definition rect_pos :: "damage_rect \<Rightarrow> bool" where
  "rect_pos r \<longleftrightarrow> rect_ok r \<and> 0 < dr_width r \<and> 0 < dr_height r"

lemma damage_edges_eq:
  "rect_ok r \<Longrightarrow> damage_edges r =
     (if 0 < dr_width r \<and> 0 < dr_height r
      then Some (dr_x r, dr_y r, dr_x r + dr_width r, dr_y r + dr_height r) else None)"
  by (auto simp: rect_ok_def in_i32_def damage_edges_def i64_checked_add_def)

lemma in_rect_edges: "rect_ok r \<Longrightarrow> damage_edges r = Some e \<Longrightarrow> in_rect p r = in_edges p e"
  by (auto simp: damage_edges_eq in_rect_def in_edges_def split: if_splits)

lemma in_rect_none: "rect_ok r \<Longrightarrow> damage_edges r = None \<Longrightarrow> \<not> in_rect p r"
  by (auto simp: damage_edges_eq in_rect_def split: if_splits)

lemma in_expand_edges: "in_edges p a \<or> in_edges p b \<Longrightarrow> in_edges p (expand_edges a b)"
  by (auto simp: in_edges_def expand_edges_def split: prod.splits)

definition edges_pos :: "edges \<Rightarrow> bool" where
  "edges_pos e \<longleftrightarrow> (case e of (x0, y0, x1, y1) \<Rightarrow> x0 < x1 \<and> y0 < y1)"

lemma edges_pos_expand: "edges_pos a \<Longrightarrow> edges_pos b \<Longrightarrow> edges_pos (expand_edges a b)"
  by (auto simp: edges_pos_def expand_edges_def split: prod.splits)

lemma i64_as_i32_id [simp]: "in_i32 v \<Longrightarrow> i64_as_i32 v = v"
  by (simp add: i64_as_i32_def)

lemma damage_from_edges_pos:
  assumes "edges_pos e" "damage_edges_fit_i32 e"
  shows "rect_pos (damage_from_edges e)" "in_rect p (damage_from_edges e) \<longleftrightarrow> in_edges p e"
proof -
  obtain x0 y0 x1 y1 where e: "e = (x0, y0, x1, y1)"
    by (metis prod_cases4)
  have "in_i32 x0" "in_i32 y0" "in_i32 (x1 - x0)" "in_i32 (y1 - y0)" "x0 < x1" "y0 < y1"
    using assms by (simp_all add: e edges_pos_def damage_edges_fit_i32_def in_i32_def)
  then show "rect_pos (damage_from_edges e)" "in_rect p (damage_from_edges e) \<longleftrightarrow> in_edges p e"
    by (auto simp: e damage_from_edges_def rect_pos_def rect_ok_def in_rect_def in_edges_def split: prod.splits)
qed

lemma set_swap_remove:
  assumes "i < length xs"
  shows "set xs = insert (xs ! i) (set (swap_remove i xs))"
proof -
  obtain ys y where xs: "xs = ys @ [y]"
    using assms by (cases xs rule: rev_cases) auto
  show ?thesis
  proof (cases "i = length ys")
    case False
    then have i: "i < length ys"
      using assms by (simp add: xs)
    have "swap_remove i xs = ys[i := y]"
      using i by (simp add: xs swap_remove_def list_update_append)
    moreover have "set ys = insert (ys ! i) (set (take i ys) \<union> set (drop (Suc i) ys))"
      by (subst id_take_nth_drop [OF i]) simp
    moreover have "set (ys[i := y]) = insert y (set (take i ys) \<union> set (drop (Suc i) ys))"
      by (subst upd_conv_take_nth_drop [OF i]) simp
    ultimately show ?thesis
      using i by (auto simp: xs nth_append)
  qed (simp add: xs swap_remove_def)
qed

lemma absorb_loop_covers:
  assumes "edges_pos c" "list_all rect_pos merged"
  shows "\<exists>c' rest. absorb_loop c merged = Some (c', rest) \<and> edges_pos c' \<and> list_all rect_pos rest \<and>
    length rest \<le> length merged \<and> (damage_edges_fit_i32 c' \<or> c' = c \<and> rest = merged) \<and>
    (\<forall>p. in_edges p c \<or> covered p merged \<longrightarrow> in_edges p c' \<or> covered p rest)"
  using assms
proof (induction c merged rule: absorb_loop.induct)
  case (1 c merged)
  show ?case
  proof (cases "position (absorbs c) merged")
    case None
    then show ?thesis
      using 1(2,3) by (subst absorb_loop.simps) simp
  next
    case (Some i)
    then have i: "i < length merged" "absorbs c (merged ! i)"
      using position_SomeD by fastforce+
    have pos: "rect_pos (merged ! i)" and ok: "rect_ok (merged ! i)"
      using 1(3) i(1) by (simp_all add: list_all_length rect_pos_def)
    obtain e where e: "damage_edges (merged ! i) = Some e"
      using i(2) by (auto simp: absorbs_def split: option.splits)
    have e_pos: "edges_pos e"
      using e pos by (auto simp: damage_edges_eq [OF ok] rect_pos_def edges_pos_def)
    have set: "set merged = insert (merged ! i) (set (swap_remove i merged))"
      using i(1) by (rule set_swap_remove)
    have rest: "list_all rect_pos (swap_remove i merged)"
      using 1(3) set by (auto simp: list_all_iff)
    obtain c' rest where r: "absorb_loop (expand_edges c e) (swap_remove i merged) = Some (c', rest)"
      "edges_pos c'" "list_all rect_pos rest" "length rest \<le> length (swap_remove i merged)"
      "damage_edges_fit_i32 c' \<or> c' = expand_edges c e \<and> rest = swap_remove i merged"
      "\<forall>p. in_edges p (expand_edges c e) \<or> covered p (swap_remove i merged) \<longrightarrow> in_edges p c' \<or> covered p rest"
      using 1(1) [OF Some e edges_pos_expand [OF 1(2) e_pos] rest] by blast
    have "covered p merged \<Longrightarrow> in_edges p e \<or> covered p (swap_remove i merged)" for p
      using in_rect_edges [OF ok e] by (auto simp: covered_def list_ex_iff set)
    then have "\<forall>p. in_edges p c \<or> covered p merged \<longrightarrow> in_edges p c' \<or> covered p rest"
      using r(6) in_expand_edges by blast
    moreover have "damage_edges_fit_i32 c'"
      using r(5) i(2) by (auto simp: absorbs_def e Let_def)
    moreover have "absorb_loop c merged = Some (c', rest)"
      by (subst absorb_loop.simps) (simp add: Some e r(1))
    moreover have "length rest \<le> length merged"
      using r(4) by simp
    ultimately show ?thesis
      using r(2,3) by blast
  qed
qed

lemma coalesce_step_covers:
  assumes "rect_ok r" "list_all rect_pos merged"
  shows "\<exists>out. coalesce_step r merged = Some out \<and> list_all rect_pos out \<and>
    length out \<le> Suc (length merged) \<and>
    (\<forall>p. in_rect p r \<or> covered p merged \<longrightarrow> covered p out)"
proof (cases "damage_edges r")
  case None
  then show ?thesis
    using assms in_rect_none [OF assms(1) None] by (auto simp: coalesce_step_def)
next
  case (Some e)
  have pos: "rect_pos r" "edges_pos e"
    using Some assms(1) by (auto simp: damage_edges_eq rect_pos_def edges_pos_def split: if_splits)
  obtain c rest where r: "absorb_loop e merged = Some (c, rest)" "edges_pos c" "list_all rect_pos rest"
    "length rest \<le> length merged" "damage_edges_fit_i32 c \<or> c = e \<and> rest = merged"
    "\<forall>p. in_edges p e \<or> covered p merged \<longrightarrow> in_edges p c \<or> covered p rest"
    using absorb_loop_covers [OF pos(2) assms(2)] by blast
  show ?thesis
    using r pos(1) damage_from_edges_pos [OF r(2)] in_rect_edges [OF assms(1) Some]
    by (cases "damage_edges_fit_i32 c") (auto simp: coalesce_step_def Some covered_def)
qed

lemma coalesce_loop_covers:
  assumes "list_all rect_ok damage" "list_all rect_pos merged"
  shows "\<exists>out. coalesce_loop damage merged = Some out \<and> list_all rect_pos out \<and>
    length out \<le> length merged + length damage \<and>
    (\<forall>p. covered p damage \<or> covered p merged \<longrightarrow> covered p out)"
  using assms
proof (induction damage arbitrary: merged)
  case (Cons r damage)
  obtain m where m: "coalesce_step r merged = Some m" "list_all rect_pos m" "length m \<le> Suc (length merged)"
    "\<forall>p. in_rect p r \<or> covered p merged \<longrightarrow> covered p m"
    using coalesce_step_covers [of r merged] Cons.prems by auto
  obtain out where o: "coalesce_loop damage m = Some out" "list_all rect_pos out"
    "length out \<le> length m + length damage" "\<forall>p. covered p damage \<or> covered p m \<longrightarrow> covered p out"
    using Cons.IH [OF _ m(2)] Cons.prems by auto
  have "\<forall>p. covered p (r # damage) \<or> covered p merged \<longrightarrow> covered p out"
    using m(4) o(4) by (simp add: covered_def)
  then show ?case
    using m o by simp
qed (simp add: covered_def)

section \<open>One plane\<close>

lemma usize_checked_mul_SomeD: "usize_checked_mul a b = Some c \<Longrightarrow> c = a * b \<and> c < usize_limit"
  by (auto simp: usize_checked_mul_def split: if_splits)

lemma copy_bytes_nth:
  assumes "copy_bytes src sa da n dst = Some dst'"
  shows "length dst' = length dst" and "j < length dst \<Longrightarrow>
    dst' ! j = (if da \<le> j \<and> j < da + n then src ! (sa + (j - da)) else dst ! j)"
proof -
  have d: "dst' = take da dst @ take n (drop sa src) @ drop (da + n) dst"
    and le: "sa + n \<le> length src" "da + n \<le> length dst"
    using assms by (auto simp: copy_bytes_def split: if_splits)
  have len: "length (take da dst) = da" "length (take n (drop sa src)) = n"
    using le by simp_all
  show "length dst' = length dst"
    using le len by (simp add: d)
  show "dst' ! j = (if da \<le> j \<and> j < da + n then src ! (sa + (j - da)) else dst ! j)" if "j < length dst"
    using le that unfolding d nth_append len by auto
qed

text \<open>The bytes of a plane lie inside both mappings.\<close>

definition plane_in :: "plane_copy \<Rightarrow> nat \<Rightarrow> nat \<Rightarrow> bool" where
  "plane_in p n_src n_dst \<longleftrightarrow> 0 < pc_rows p \<and> 0 < pc_row_bytes p \<and>
     pc_row_bytes p \<le> pc_src_stride p \<and> pc_row_bytes p \<le> pc_dst_stride p \<and>
     pc_src_offset p + (pc_rows p - 1) * pc_src_stride p + pc_row_bytes p \<le> n_src \<and>
     pc_dst_offset p + (pc_rows p - 1) * pc_dst_stride p + pc_row_bytes p \<le> n_dst"

lemma valid_plane_copy_in:
  "valid_plane_copy pool dest p \<noteq> None \<Longrightarrow> plane_in p pool dest"
  by (auto simp: valid_plane_copy_def plane_end_def plane_in_def bind_eq_Some_conv
      split: if_splits option.splits dest!: usize_checked_mul_SomeD usize_checked_add_SomeD)

lemma plane_in_mono: "plane_in p a b \<Longrightarrow> a \<le> c \<Longrightarrow> b \<le> d \<Longrightarrow> plane_in p c d"
  by (auto simp: plane_in_def)

text \<open>What a byte of the destination is after a plane has been copied.\<close>

definition plane_byte :: "plane_copy \<Rightarrow> nat \<Rightarrow> nat \<Rightarrow> u8 list \<Rightarrow> u8 list \<Rightarrow> nat \<Rightarrow> u8" where
  "plane_byte p from_row to_row src dst j =
     (let d = j - pc_dst_offset p; row = d div pc_dst_stride p; k = d mod pc_dst_stride p
      in if pc_dst_offset p \<le> j \<and> from_row \<le> row \<and> row < to_row \<and> k < pc_row_bytes p
         then src ! (pc_src_offset p + row * pc_src_stride p + k) else dst ! j)"

lemma row_index:
  assumes "0 < s" "n \<le> s"
  shows "a + r * s \<le> j \<and> j < a + r * s + n \<longleftrightarrow> a \<le> j \<and> (j - a) div s = r \<and> (j - a) mod s < (n :: nat)"
proof
  assume j: "a + r * s \<le> j \<and> j < a + r * s + n"
  then obtain k where k: "j = a + r * s + k" "k < n"
    by (metis add_less_cancel_left le_add_diff_inverse)
  then show "a \<le> j \<and> (j - a) div s = r \<and> (j - a) mod s < n"
    using assms by simp
next
  assume j: "a \<le> j \<and> (j - a) div s = r \<and> (j - a) mod s < n"
  then have "j = a + (r * s + (j - a) mod s)"
    using div_mult_mod_eq [of "j - a" s] by simp
  then show "a + r * s \<le> j \<and> j < a + r * s + n"
    using j by linarith
qed

lemma plane_row_in:
  assumes "plane_in p a b" "row < pc_rows p"
  shows "pc_src_offset p + row * pc_src_stride p + pc_row_bytes p \<le> a"
    "pc_dst_offset p + row * pc_dst_stride p + pc_row_bytes p \<le> b"
proof -
  have "row * s \<le> (pc_rows p - 1) * s" for s
    using assms(2) by (intro mult_right_mono) auto
  from this [of "pc_src_stride p"] this [of "pc_dst_stride p"] show
    "pc_src_offset p + row * pc_src_stride p + pc_row_bytes p \<le> a"
    "pc_dst_offset p + row * pc_dst_stride p + pc_row_bytes p \<le> b"
    using assms(1) unfolding plane_in_def by linarith+
qed

lemma copy_rows_effect:
  assumes "plane_in p (length src) (length dst)" "length src < usize_limit" "length dst < usize_limit"
    and "row + n \<le> pc_rows p"
  shows "\<exists>dst'. copy_rows src p row n dst = Some (True, dst') \<and> length dst' = length dst \<and>
    (\<forall>j < length dst. dst' ! j = plane_byte p row (row + n) src dst j)"
  using assms
proof (induction n arbitrary: row dst)
  case 0
  then show ?case
    by (auto simp: plane_byte_def Let_def)
next
  case (Suc n)
  have row: "row < pc_rows p" and strides: "0 < pc_dst_stride p" "pc_row_bytes p \<le> pc_dst_stride p"
      "0 < pc_row_bytes p"
    using Suc.prems by (auto simp: plane_in_def)
  note ends = plane_row_in [OF Suc.prems(1) row]
  have "Option.bind (usize_checked_mul row (pc_src_stride p)) (usize_checked_add (pc_src_offset p)) =
      Some (pc_src_offset p + row * pc_src_stride p)"
    "Option.bind (usize_checked_mul row (pc_dst_stride p)) (usize_checked_add (pc_dst_offset p)) =
      Some (pc_dst_offset p + row * pc_dst_stride p)"
    using ends Suc.prems(2,3) by (simp_all add: usize_checked_mul_def usize_checked_add_def)
  moreover obtain d1 where d1: "copy_bytes src (pc_src_offset p + row * pc_src_stride p)
      (pc_dst_offset p + row * pc_dst_stride p) (pc_row_bytes p) dst = Some d1"
    using ends by (simp add: copy_bytes_def)
  ultimately have step: "copy_rows src p row (Suc n) dst = copy_rows src p (Suc row) n d1"
    by simp
  have len: "length d1 = length dst"
    by (rule copy_bytes_nth(1) [OF d1])
  obtain d2 where d2: "copy_rows src p (Suc row) n d1 = Some (True, d2)" "length d2 = length d1"
    "\<forall>j < length d1. d2 ! j = plane_byte p (Suc row) (Suc row + n) src d1 j"
    using Suc.IH [of d1 "Suc row"] Suc.prems len by auto
  have "d2 ! j = plane_byte p row (row + Suc n) src dst j" if j: "j < length dst" for j
  proof -
    have "d1 ! j = (if pc_dst_offset p \<le> j \<and> (j - pc_dst_offset p) div pc_dst_stride p = row \<and>
        (j - pc_dst_offset p) mod pc_dst_stride p < pc_row_bytes p
      then src ! (pc_src_offset p + row * pc_src_stride p + (j - pc_dst_offset p) mod pc_dst_stride p)
      else dst ! j)"
    proof (cases "pc_dst_offset p + row * pc_dst_stride p \<le> j \<and>
        j < pc_dst_offset p + row * pc_dst_stride p + pc_row_bytes p")
      case True
      then have r: "pc_dst_offset p \<le> j \<and> (j - pc_dst_offset p) div pc_dst_stride p = row \<and>
          (j - pc_dst_offset p) mod pc_dst_stride p < pc_row_bytes p"
        using row_index [OF strides(1,2)] by blast
      have "j - (pc_dst_offset p + row * pc_dst_stride p) = (j - pc_dst_offset p) mod pc_dst_stride p"
        using r by (metis diff_diff_left minus_div_mult_eq_mod)
      then show ?thesis
        using copy_bytes_nth(2) [OF d1 j] True r by simp
    next
      case False
      then have "\<not> (pc_dst_offset p \<le> j \<and> (j - pc_dst_offset p) div pc_dst_stride p = row \<and>
          (j - pc_dst_offset p) mod pc_dst_stride p < pc_row_bytes p)"
        using row_index [OF strides(1,2)] by blast
      then show ?thesis
        using copy_bytes_nth(2) [OF d1 j] False by (simp only: if_False)
    qed
    then show ?thesis
      using d2(3) j len by (auto simp: plane_byte_def Let_def)
  qed
  then show ?case
    using step d2 len by simp
qed

text \<open>The contiguous fast path copies the same bytes as the rows one by one.\<close>

lemma copy_plane_effect:
  assumes "plane_in p (length src) (length dst)" "length src < usize_limit" "length dst < usize_limit"
  shows "\<exists>dst'. copy_plane src p dst = Some (True, dst') \<and> length dst' = length dst \<and>
    (\<forall>j < length dst. dst' ! j = plane_byte p 0 (pc_rows p) src dst j)"
proof (cases "pc_row_bytes p = pc_src_stride p \<and> pc_row_bytes p = pc_dst_stride p")
  case False
  then have "copy_plane src p dst = copy_rows src p 0 (pc_rows p) dst"
    by (auto simp: copy_plane_def)
  then show ?thesis
    using copy_rows_effect [OF assms, of 0 "pc_rows p"] by simp
next
  case True
  let ?n = "pc_row_bytes p * pc_rows p"
  have rows: "0 < pc_rows p" and pos: "0 < pc_dst_stride p"
    using assms(1) True by (auto simp: plane_in_def)
  then have n: "?n = (pc_rows p - 1) * pc_row_bytes p + pc_row_bytes p"
    by (cases "pc_rows p") simp_all
  have ends: "pc_src_offset p + ?n \<le> length src" "pc_dst_offset p + ?n \<le> length dst"
    using assms(1) True unfolding plane_in_def n by auto
  obtain d where d: "copy_bytes src (pc_src_offset p) (pc_dst_offset p) ?n dst = Some d"
    using ends by (simp add: copy_bytes_def)
  have "usize_checked_mul (pc_row_bytes p) (pc_rows p) = Some ?n"
    using ends assms(2) by (simp add: usize_checked_mul_def)
  then have c: "copy_plane src p dst = Some (True, d)"
    unfolding copy_plane_def using True d by simp
  have "d ! j = plane_byte p 0 (pc_rows p) src dst j" if j: "j < length dst" for j
  proof -
    let ?d = "j - pc_dst_offset p"
    have nn: "?n = pc_rows p * pc_dst_stride p"
      using True by (metis mult.commute)
    have "?d div pc_dst_stride p < pc_rows p \<longleftrightarrow> ?d < ?n"
      unfolding nn using pos by (rule div_less_iff_less_mult)
    moreover have "?d div pc_dst_stride p * pc_dst_stride p + ?d mod pc_dst_stride p = ?d"
      by (rule div_mult_mod_eq)
    moreover have "?d mod pc_dst_stride p < pc_row_bytes p"
      using True mod_less_divisor [OF pos, of ?d] by metis
    ultimately show ?thesis
      using copy_bytes_nth(2) [OF d j] True by (auto simp: plane_byte_def Let_def add.assoc)
  qed
  then show ?thesis
    using c copy_bytes_nth(1) [OF d] by blast
qed

lemma copy_planes_total:
  assumes "\<forall>p\<in>set ps. plane_in p (length src) (length dst)" "length src < usize_limit"
    "length dst < usize_limit"
  shows "\<exists>dst'. copy_planes src ps dst = Some (True, dst') \<and> length dst' = length dst"
  using assms
proof (induction ps arbitrary: dst)
  case (Cons p ps)
  obtain d where d: "copy_plane src p dst = Some (True, d)" "length d = length dst"
    using copy_plane_effect [of p src dst] Cons.prems by auto
  then show ?case
    using Cons.IH [of d] Cons.prems by simp
qed simp

lemma plane_span_in:
  "plane_span l bpp so doff ds r = Some p \<Longrightarrow> plane_in p (sl_pool_size l) (sl_dest_size l)"
  by (cases r) (auto simp: plane_span_def Let_def split: if_splits option.splits intro!: valid_plane_copy_in)

lemma damage_spans_in:
  "damage_spans l bpp rs = Some ps \<Longrightarrow> p \<in> set ps \<Longrightarrow> plane_in p (sl_pool_size l) (sl_dest_size l)"
  by (induction l bpp rs arbitrary: ps rule: damage_spans.induct)
    (auto simp: rect_spans_def chroma_span_def split: option.splits if_splits dest: plane_span_in)

section \<open>Formats of one plane\<close>

definition hits :: "shm_copy_layout \<Rightarrow> nat \<Rightarrow> nat \<Rightarrow> damage_rect \<Rightarrow> bool" where
  "hits l bpp j r \<longleftrightarrow>
     (case clipped_damage r (sl_width l) (sl_height l) of
        None \<Rightarrow> False
      | Some (x0, y0, x1, y1) \<Rightarrow>
          y0 \<le> j div sl_dst_stride l \<and> j div sl_dst_stride l < y1 \<and>
          x0 * bpp \<le> j mod sl_dst_stride l \<and> j mod sl_dst_stride l < x1 * bpp)"

definition source_byte :: "shm_copy_layout \<Rightarrow> u8 list \<Rightarrow> nat \<Rightarrow> u8" where
  "source_byte l src j =
     src ! (sl_offset l + j div sl_dst_stride l * sl_src_stride l + j mod sl_dst_stride l)"

lemma row_cell:
  fixes s :: nat
  assumes "b \<le> s" "a < b"
  shows "r * s + a \<le> j \<and> j < r * s + b \<longleftrightarrow> j div s = r \<and> a \<le> j mod s \<and> j mod s < b"
proof
  assume j: "r * s + a \<le> j \<and> j < r * s + b"
  then obtain c where c: "j = r * s + c"
    by (metis add.assoc le_Suc_ex)
  then show "j div s = r \<and> a \<le> j mod s \<and> j mod s < b"
    using j assms by simp
next
  assume j: "j div s = r \<and> a \<le> j mod s \<and> j mod s < b"
  then have "j = r * s + j mod s"
    using div_mult_mod_eq [of j s] by simp
  then show "r * s + a \<le> j \<and> j < r * s + b"
    using j by linarith
qed

lemma span_byte:
  assumes span: "plane_span l bpp (sl_offset l) 0 (sl_dst_stride l) (x0, y0, x1, y1) = Some p"
    and r: "x0 < x1" "y0 < y1" "x1 * bpp \<le> sl_dst_stride l" "0 < bpp"
  shows "plane_byte p 0 (pc_rows p) src dst j =
    (if y0 \<le> j div sl_dst_stride l \<and> j div sl_dst_stride l < y1 \<and>
        x0 * bpp \<le> j mod sl_dst_stride l \<and> j mod sl_dst_stride l < x1 * bpp
     then source_byte l src j else dst ! j)"
proof -
  let ?s = "sl_dst_stride l" and ?off = "y0 * sl_dst_stride l + x0 * bpp"
  have p: "pc_dst_offset p = ?off" "pc_src_offset p = sl_offset l + y0 * sl_src_stride l + x0 * bpp"
    "pc_dst_stride p = ?s" "pc_src_stride p = sl_src_stride l" "pc_rows p = y1 - y0"
    "pc_row_bytes p = (x1 - x0) * bpp"
    using span by (auto simp: plane_span_def Let_def bind_eq_Some_conv split: if_splits option.splits
        dest!: usize_checked_mul_SomeD usize_checked_add_SomeD)
  have w: "x0 * bpp + (x1 - x0) * bpp = x1 * bpp"
    using r by (simp flip: distrib_right)
  have lt: "x0 * bpp < x1 * bpp"
    using r by simp
  have at: "?off \<le> j \<and> (j - ?off) div ?s = row \<and> (j - ?off) mod ?s < (x1 - x0) * bpp \<longleftrightarrow>
      j div ?s = y0 + row \<and> x0 * bpp \<le> j mod ?s \<and> j mod ?s < x1 * bpp" for row
  proof -
    have "0 < ?s" "(x1 - x0) * bpp \<le> ?s"
      using r w lt by linarith+
    then have "?off \<le> j \<and> (j - ?off) div ?s = row \<and> (j - ?off) mod ?s < (x1 - x0) * bpp \<longleftrightarrow>
        ?off + row * ?s \<le> j \<and> j < ?off + row * ?s + (x1 - x0) * bpp"
      by (rule row_index [symmetric])
    also have "?off + row * ?s = (y0 + row) * ?s + x0 * bpp"
      by (simp add: distrib_right)
    also have "(y0 + row) * ?s + x0 * bpp + (x1 - x0) * bpp = (y0 + row) * ?s + x1 * bpp"
      using w by linarith
    finally show ?thesis
      using row_cell [OF r(3) lt, of "y0 + row" j] by simp
  qed
  show ?thesis
  proof (cases "y0 \<le> j div ?s \<and> j div ?s < y1 \<and> x0 * bpp \<le> j mod ?s \<and> j mod ?s < x1 * bpp")
    case True
    then obtain row where row: "j div ?s = y0 + row" "row < y1 - y0"
      by (metis add_diff_inverse_nat diff_less_mono le_add_diff_inverse leD)
    then have d: "?off \<le> j" "(j - ?off) div ?s = row" "(j - ?off) mod ?s < (x1 - x0) * bpp"
      using True at [of row] by blast+
    have "?off + row * ?s + (j - ?off) mod ?s = j"
      using d(1) div_mult_mod_eq [of "j - ?off" ?s] d(2) by simp
    moreover have "(y0 + row) * ?s + j mod ?s = j"
      using div_mult_mod_eq [of j ?s] row(1) by simp
    ultimately have "x0 * bpp + (j - ?off) mod ?s = j mod ?s"
      by (simp add: distrib_right)
    then have "sl_offset l + y0 * sl_src_stride l + x0 * bpp + row * sl_src_stride l + (j - ?off) mod ?s =
        sl_offset l + j div ?s * sl_src_stride l + j mod ?s"
      unfolding row(1) distrib_right by linarith
    from arg_cong [OF this, of "(!) src"] show ?thesis
      using True d row(2) unfolding plane_byte_def source_byte_def p Let_def by simp
  next
    case False
    then have "\<not> (?off \<le> j \<and> (j - ?off) div ?s < y1 - y0 \<and> (j - ?off) mod ?s < (x1 - x0) * bpp)"
      using at [of "(j - ?off) div ?s"] by auto
    then show ?thesis
      using False unfolding plane_byte_def p Let_def by auto
  qed
qed

lemma clipped_damage_eq:
  assumes "i64_checked_add (dr_x r) (dr_width r) = Some xe" "i64_checked_add (dr_y r) (dr_height r) = Some ye"
    and "0 < dr_width r" "0 < dr_height r" "int w < 2 ^ 63" "int h < 2 ^ 63"
  shows "clipped_damage r w h =
    (if max (dr_x r) 0 < min xe (int w) \<and> max (dr_y r) 0 < min ye (int h)
     then Some (nat (max (dr_x r) 0), nat (max (dr_y r) 0), nat (min xe (int w)), nat (min ye (int h)))
     else None)"
  unfolding clipped_damage_def Let_def using assms by (simp del: max_less_iff_conj min_less_iff_conj)

lemma clipped_damage_cases:
  assumes "clipped_damage r w h = Some c"
  obtains xe ye where "i64_checked_add (dr_x r) (dr_width r) = Some xe"
    "i64_checked_add (dr_y r) (dr_height r) = Some ye"
    "0 < dr_width r" "0 < dr_height r" "int w < 2 ^ 63" "int h < 2 ^ 63"
proof -
  let ?x = "i64_checked_add (dr_x r) (dr_width r)" and ?y = "i64_checked_add (dr_y r) (dr_height r)"
  have sz: "\<not> (dr_width r \<le> 0 \<or> dr_height r \<le> 0)"
    using assms unfolding clipped_damage_def by (metis option.distinct(1))
  have "?x \<noteq> None"
    using assms sz unfolding clipped_damage_def by (cases ?x) simp_all
  moreover have "?y \<noteq> None"
    using assms sz unfolding clipped_damage_def by (cases ?x; cases ?y) simp_all
  moreover have "\<not> (int w \<ge> 2 ^ 63 \<or> int h \<ge> 2 ^ 63)"
  proof
    assume "int w \<ge> 2 ^ 63 \<or> int h \<ge> 2 ^ 63"
    then have "clipped_damage r w h = None"
      unfolding clipped_damage_def using sz by (cases ?x; cases ?y) auto
    then show False
      using assms by simp
  qed
  ultimately show ?thesis
    using sz that by fastforce
qed

lemma clipped_damage_SomeD:
  assumes "clipped_damage r w h = Some (x0, y0, x1, y1)"
  shows "x0 < x1 \<and> x1 \<le> w \<and> y0 < y1 \<and> y1 \<le> h"
proof -
  obtain xe ye where "i64_checked_add (dr_x r) (dr_width r) = Some xe"
    "i64_checked_add (dr_y r) (dr_height r) = Some ye"
    "0 < dr_width r" "0 < dr_height r" "int w < 2 ^ 63" "int h < 2 ^ 63"
    using assms by (rule clipped_damage_cases)
  from clipped_damage_eq [OF this] assms
  have c: "max (dr_x r) 0 < min xe (int w)" "max (dr_y r) 0 < min ye (int h)"
    "x0 = nat (max (dr_x r) 0)" "y0 = nat (max (dr_y r) 0)" "x1 = nat (min xe (int w))" "y1 = nat (min ye (int h))"
    by (simp_all del: max_less_iff_conj min_less_iff_conj split: if_splits)
  have "0 \<le> max (dr_x r) 0" "0 \<le> max (dr_y r) 0" "min xe (int w) \<le> int w" "min ye (int h) \<le> int h"
    by simp_all
  then show ?thesis
    using c by linarith
qed

lemma clipped_damage_covers:
  assumes "rect_pos r" "int w < 2 ^ 63" "int h < 2 ^ 63" "x < w" "y < h"
  shows "in_rect (int x, int y) r \<longleftrightarrow>
    (case clipped_damage r w h of None \<Rightarrow> False
     | Some (x0, y0, x1, y1) \<Rightarrow> x0 \<le> x \<and> x < x1 \<and> y0 \<le> y \<and> y < y1)"
proof -
  have "i64_checked_add (dr_x r) (dr_width r) = Some (dr_x r + dr_width r)"
    "i64_checked_add (dr_y r) (dr_height r) = Some (dr_y r + dr_height r)"
    "0 < dr_width r" "0 < dr_height r"
    using assms(1) by (auto simp: rect_pos_def rect_ok_def in_i32_def i64_checked_add_def)
  note eq = clipped_damage_eq [OF this assms(2,3)]
  have "in_rect (int x, int y) r \<longleftrightarrow> max (dr_x r) 0 \<le> int x \<and> int x < min (dr_x r + dr_width r) (int w) \<and>
      max (dr_y r) 0 \<le> int y \<and> int y < min (dr_y r + dr_height r) (int h)"
    using assms(4,5) by (simp add: in_rect_def)
  then show ?thesis
    unfolding eq by auto
qed

lemma rect_spans_single:
  assumes "sl_format l \<noteq> WL_SHM_FORMAT_NV12" "rect_spans l bpp r = Some ps"
    and "0 < bpp" "sl_width l * bpp \<le> sl_dst_stride l"
  shows "(ps = [] \<and> clipped_damage r (sl_width l) (sl_height l) = None) \<or>
    (\<exists>p. ps = [p] \<and> plane_in p (sl_pool_size l) (sl_dest_size l) \<and>
      (\<forall>src dst j. plane_byte p 0 (pc_rows p) src dst j =
         (if hits l bpp j r then source_byte l src j else dst ! j)))"
proof (cases "clipped_damage r (sl_width l) (sl_height l)")
  case None
  then show ?thesis
    using assms(2) by (simp add: rect_spans_def)
next
  case (Some q)
  obtain x0 y0 x1 y1 where q: "q = (x0, y0, x1, y1)"
    by (metis prod_cases4)
  have r: "x0 < x1 \<and> x1 \<le> sl_width l \<and> y0 < y1 \<and> y1 \<le> sl_height l"
    using Some clipped_damage_SomeD unfolding q by blast
  then have le: "x1 * bpp \<le> sl_dst_stride l"
    using assms(4) mult_le_mono1 order_trans by blast
  obtain p where p: "plane_span l bpp (sl_offset l) 0 (sl_dst_stride l) (x0, y0, x1, y1) = Some p" "ps = [p]"
    using assms(1,2) Some q by (auto simp: rect_spans_def split: option.splits)
  have hit: "hits l bpp j r \<longleftrightarrow> y0 \<le> j div sl_dst_stride l \<and> j div sl_dst_stride l < y1 \<and>
      x0 * bpp \<le> j mod sl_dst_stride l \<and> j mod sl_dst_stride l < x1 * bpp" for j
    by (simp add: hits_def Some q)
  have "\<forall>src dst j. plane_byte p 0 (pc_rows p) src dst j =
      (if hits l bpp j r then source_byte l src j else dst ! j)"
    unfolding hit using span_byte [OF p(1) _ _ le assms(3)] r by blast
  then show ?thesis
    using p plane_span_in [OF p(1)] by blast
qed

text \<open>The copy of the spans of a list of rectangles, byte by byte.\<close>

lemma copy_spans_single:
  assumes "sl_format l \<noteq> WL_SHM_FORMAT_NV12" "0 < bpp" "sl_width l * bpp \<le> sl_dst_stride l"
    and "sl_pool_size l \<le> length src" "sl_dest_size l \<le> length dst" "length src < usize_limit"
    "length dst < usize_limit" and "damage_spans l bpp rs = Some ps"
  shows "\<exists>dst'. copy_planes src ps dst = Some (True, dst') \<and> length dst' = length dst \<and>
    (\<forall>j < length dst. dst' ! j = (if list_ex (hits l bpp j) rs then source_byte l src j else dst ! j))"
  using assms(5,7,8)
proof (induction rs arbitrary: ps dst)
  case Nil
  then show ?case by simp
next
  case (Cons r rs)
  obtain qs ps' where q: "rect_spans l bpp r = Some qs" "damage_spans l bpp rs = Some ps'" "ps = qs @ ps'"
    using Cons.prems(3) by (auto split: option.splits)
  from rect_spans_single [OF assms(1) q(1) assms(2,3)] show ?case
  proof (elim disjE conjE exE)
    assume "qs = []" "clipped_damage r (sl_width l) (sl_height l) = None"
    then show ?thesis
      using Cons.IH [OF Cons.prems(1,2) q(2)] q(3) by (simp add: hits_def)
  next
    fix p
    assume p: "qs = [p]" "plane_in p (sl_pool_size l) (sl_dest_size l)"
      "\<forall>src dst j. plane_byte p 0 (pc_rows p) src dst j =
         (if hits l bpp j r then source_byte l src j else dst ! j)"
    obtain d where d: "copy_plane src p dst = Some (True, d)" "length d = length dst"
      "\<forall>j < length dst. d ! j = (if hits l bpp j r then source_byte l src j else dst ! j)"
      using copy_plane_effect [OF plane_in_mono [OF p(2) assms(4) Cons.prems(1)] assms(6) Cons.prems(2)] p(3)
      by auto
    obtain d2 where d2: "copy_planes src ps' d = Some (True, d2)" "length d2 = length d"
      "\<forall>j < length d. d2 ! j = (if list_ex (hits l bpp j) rs then source_byte l src j else d ! j)"
      using Cons.IH [of d ps'] Cons.prems(1,2) d(2) q(2) by auto
    show ?thesis
      using d d2 p(1) q(3) by simp
  qed
qed

lemma plane_span_SomeD:
  assumes "plane_span l bpp so doff ds (x0, y0, x1, y1) = Some p"
  shows "p = \<lparr>pc_src_offset = so + y0 * sl_src_stride l + x0 * bpp, pc_dst_offset = doff + y0 * ds + x0 * bpp,
    pc_src_stride = sl_src_stride l, pc_dst_stride = ds, pc_rows = y1 - y0, pc_row_bytes = (x1 - x0) * bpp\<rparr>"
  using assms by (auto simp: plane_span_def Let_def bind_eq_Some_conv split: if_splits option.splits
      dest!: usize_checked_mul_SomeD usize_checked_add_SomeD)

lemma hits_in_dest:
  assumes "sl_format l \<noteq> WL_SHM_FORMAT_NV12" "rect_spans l bpp r = Some ps" "hits l bpp j r"
  shows "j < sl_dest_size l"
proof -
  let ?s = "sl_dst_stride l"
  obtain x0 y0 x1 y1 where c: "clipped_damage r (sl_width l) (sl_height l) = Some (x0, y0, x1, y1)"
    "y0 \<le> j div ?s" "j div ?s < y1" "j mod ?s < x1 * bpp"
    using assms(3) by (auto simp: hits_def split: option.splits)
  obtain p where p: "plane_span l bpp (sl_offset l) 0 ?s (x0, y0, x1, y1) = Some p"
    using assms(1,2) c(1) by (auto simp: rect_spans_def split: option.splits)
  have "j div ?s - y0 < pc_rows p"
    using c(2,3) by (simp add: plane_span_SomeD [OF p])
  from plane_row_in(2) [OF plane_span_in [OF p] this]
  have "y0 * ?s + x0 * bpp + (j div ?s - y0) * ?s + (x1 - x0) * bpp \<le> sl_dest_size l"
    by (simp add: plane_span_SomeD [OF p])
  moreover have "y0 * ?s + (j div ?s - y0) * ?s = j div ?s * ?s"
    using c(2) by (simp flip: distrib_right)
  moreover have "x0 * bpp + (x1 - x0) * bpp = x1 * bpp"
    using clipped_damage_SomeD [OF c(1)] by (simp flip: distrib_right)
  ultimately show ?thesis
    using c(4) div_mult_mod_eq [of j ?s] by linarith
qed

lemma list_hits_in_dest:
  assumes "sl_format l \<noteq> WL_SHM_FORMAT_NV12"
  shows "damage_spans l bpp rs = Some ps \<Longrightarrow> list_ex (hits l bpp j) rs \<Longrightarrow> j < sl_dest_size l"
  using hits_in_dest [OF assms] by (induction l bpp rs arbitrary: ps rule: damage_spans.induct)
    (auto split: option.splits)

lemma pixel_index:
  fixes s :: nat
  assumes "x < w" "k < b" "w * b \<le> s"
  shows "(y * s + x * b + k) div s = y" "(y * s + x * b + k) mod s = x * b + k"
proof -
  have "x * b + k < Suc x * b"
    using assms(2) by simp
  also have "\<dots> \<le> s"
    using assms(1,3) by (meson Suc_leI mult_le_mono1 order_trans)
  finally have "x * b + k < s" .
  then show "(y * s + x * b + k) div s = y" "(y * s + x * b + k) mod s = x * b + k"
    by (simp_all add: add.assoc)
qed

lemma cell_less:
  assumes "k < (b :: nat)"
  shows "x0 * b \<le> x * b + k \<longleftrightarrow> x0 \<le> x" "x * b + k < x1 * b \<longleftrightarrow> x < x1"
proof -
  have d: "(x * b + k) div b = x" "0 < b"
    using assms by auto
  then show "x0 * b \<le> x * b + k \<longleftrightarrow> x0 \<le> x" "x * b + k < x1 * b \<longleftrightarrow> x < x1"
    by (metis less_eq_div_iff_mult_less_eq, metis div_less_iff_less_mult)
qed

text \<open>The bytes that the merged rectangles hit are the bytes of the pixels they contain.\<close>

lemma hits_pixel:
  assumes "rect_pos r" "int (sl_width l) < 2 ^ 63" "int (sl_height l) < 2 ^ 63"
    and "x < sl_width l" "y < sl_height l" "k < b" "sl_width l * b \<le> sl_dst_stride l"
  shows "hits l b (y * sl_dst_stride l + x * b + k) r \<longleftrightarrow> in_rect (int x, int y) r"
  unfolding hits_def clipped_damage_covers [OF assms(1-5)] pixel_index [OF assms(4,6,7)]
  using cell_less [OF assms(6)] by (auto split: option.splits prod.splits)

lemma hits_some_pixel:
  assumes "hits l b j r" "0 < b"
  shows "\<exists>x < sl_width l. \<exists>y < sl_height l. \<exists>k<b. j = y * sl_dst_stride l + x * b + k"
proof -
  let ?s = "sl_dst_stride l"
  obtain x0 y0 x1 y1 where c: "clipped_damage r (sl_width l) (sl_height l) = Some (x0, y0, x1, y1)"
    "j div ?s < y1" "j mod ?s < x1 * b"
    using assms(1) by (auto simp: hits_def split: option.splits)
  have "j mod ?s div b < x1"
    using c(3) assms(2) by (simp add: div_less_iff_less_mult)
  moreover have "j = j div ?s * ?s + j mod ?s div b * b + j mod ?s mod b"
    by simp
  ultimately show ?thesis
    using clipped_damage_SomeD [OF c(1)] c(2) assms(2) mod_less_divisor
    by (meson order_less_le_trans)
qed

section \<open>Properties\<close>

lemma coalesce_total:
  assumes "list_all rect_ok damage"
  shows "\<exists>out. coalesce_damage_rects damage = Some out \<and> list_all rect_pos out \<and>
    length out \<le> length damage \<and> (\<forall>p. covered p damage \<longrightarrow> covered p out)"
  using coalesce_loop_covers [OF assms, of "[]"] unfolding coalesce_damage_rects_def by auto

text \<open>A rectangle inside a plane that lies inside both mappings has a span.\<close>

lemma plane_span_accepts:
  assumes "x0 < x1" "y0 < y1" "y1 \<le> h" "0 < bpp" "x1 * bpp \<le> sl_src_stride l" "x1 * bpp \<le> ds"
    and "so + h * sl_src_stride l \<le> sl_pool_size l" "doff + h * ds \<le> sl_dest_size l"
    and "sl_pool_size l < usize_limit" "sl_dest_size l < usize_limit"
  shows "plane_span l bpp so doff ds (x0, y0, x1, y1) \<noteq> None"
proof -
  let ?p = "\<lparr>pc_src_offset = so + y0 * sl_src_stride l + x0 * bpp, pc_dst_offset = doff + y0 * ds + x0 * bpp,
    pc_src_stride = sl_src_stride l, pc_dst_stride = ds, pc_rows = y1 - y0, pc_row_bytes = (x1 - x0) * bpp\<rparr>"
  have w: "x0 * bpp + (x1 - x0) * bpp = x1 * bpp" "x0 * bpp < x1 * bpp" "0 < (x1 - x0) * bpp"
    using assms(1,4) by (simp_all flip: distrib_right)
  have rows: "y0 * s + (y1 - y0 - 1) * s + s \<le> h * s" for s
  proof -
    obtain n where "y1 = Suc (y0 + n)"
      using less_imp_Suc_add [OF assms(2)] by blast
    then have "y0 * s + (y1 - y0 - 1) * s + s = y1 * s"
      by (simp add: distrib_right)
    then show ?thesis
      using assms(3) by simp
  qed
  have last: "so + y0 * sl_src_stride l + x0 * bpp + (y1 - y0 - 1) * sl_src_stride l + (x1 - x0) * bpp \<le> sl_pool_size l"
    "doff + y0 * ds + x0 * bpp + (y1 - y0 - 1) * ds + (x1 - x0) * bpp \<le> sl_dest_size l"
    using rows [of "sl_src_stride l"] rows [of ds] w(1) assms(5-8) by linarith+
  have strides: "0 < sl_src_stride l" "0 < ds"
    using w(2) assms(5,6) by linarith+
  have fits: "valid_plane_copy (sl_pool_size l) (sl_dest_size l) ?p = Some ((x1 - x0) * bpp)"
    using last w strides assms(1,2,5,6,9,10)
    by (simp add: valid_plane_copy_def plane_end_def usize_checked_mul_def usize_checked_add_def)
  have "x1 * bpp < usize_limit"
    using rows [of ds] assms(6,8,10) by linarith
  then have "usize_checked_mul (x1 - x0) bpp = Some ((x1 - x0) * bpp)" "usize_checked_mul x0 bpp = Some (x0 * bpp)"
    using w by (auto simp: usize_checked_mul_def)
  moreover have "usize_checked_mul y0 (sl_src_stride l) = Some (y0 * sl_src_stride l)"
    "usize_checked_mul y0 ds = Some (y0 * ds)"
    "usize_checked_add so (y0 * sl_src_stride l) = Some (so + y0 * sl_src_stride l)"
    "usize_checked_add doff (y0 * ds) = Some (doff + y0 * ds)"
    "usize_checked_add (so + y0 * sl_src_stride l) (x0 * bpp) = Some (so + y0 * sl_src_stride l + x0 * bpp)"
    "usize_checked_add (doff + y0 * ds) (x0 * bpp) = Some (doff + y0 * ds + x0 * bpp)"
    using last assms(9,10) by (simp_all add: usize_checked_mul_def usize_checked_add_def)
  ultimately show ?thesis
    using fits assms(1) by (simp add: plane_span_def Let_def)
qed

text \<open>The destination of a layout has room for all its planes.\<close>

definition dest_fits :: "shm_copy_layout \<Rightarrow> nat \<Rightarrow> bool" where
  "dest_fits l bpp \<longleftrightarrow>
     sl_width l * bpp \<le> sl_dst_stride l \<and> sl_height l * sl_dst_stride l \<le> sl_dest_size l \<and>
     (sl_format l = WL_SHM_FORMAT_NV12 \<longrightarrow>
        (if sl_dst_plane1_stride l = 0
         then sl_height l * sl_dst_stride l + sl_height l div 2 * sl_dst_stride l \<le> sl_dest_size l
         else sl_width l \<le> sl_dst_plane1_stride l \<and>
           sl_dst_plane1_offset l + sl_height l div 2 * sl_dst_plane1_stride l \<le> sl_dest_size l))"

text \<open>The layout of an accepted buffer of a pool.\<close>

definition source_fits :: "shm_copy_layout \<Rightarrow> nat \<Rightarrow> bool" where
  "source_fits l bpp \<longleftrightarrow>
     sl_width l * bpp \<le> sl_src_stride l \<and> sl_offset l + sl_height l * sl_src_stride l \<le> sl_pool_size l \<and>
     (sl_format l = WL_SHM_FORMAT_NV12 \<longrightarrow> even (sl_width l) \<and> even (sl_height l) \<and>
        sl_offset l + sl_height l * sl_src_stride l + sl_height l div 2 * sl_src_stride l \<le> sl_pool_size l)"

lemma accepted_source_fits:
  assumes "valid_buffer_layout (sl_pool_size l) off w h stride (sl_format l) = Some bytes"
    and "valid_shm_stride (sl_format l) w stride" "format_bytes_per_pixel (sl_format l) = Some bpp"
    and "sl_offset l = nat off" "sl_width l = nat w" "sl_height l = nat h" "sl_src_stride l = nat stride"
  shows "source_fits l bpp"
proof -
  have pos: "0 \<le> off" "0 < w" "0 < h" "0 < stride"
    and par: "sl_format l = WL_SHM_FORMAT_NV12 \<Longrightarrow> even (nat w) \<and> even (nat h)"
    using assms(1) by (auto simp: valid_buffer_layout_def even_nat_iff split: if_splits)
  have w: "nat w * bpp \<le> nat stride"
    using assms(2,3) pos by (auto simp: valid_shm_stride_def usize_from_i32_def usize_checked_mul_def split: if_splits)
  have "nat off + bytes \<le> sl_pool_size l"
    using assms(1) by (auto simp: valid_buffer_layout_def Let_def usize_checked_add_def split: if_splits option.splits)
  moreover have "bytes = (if sl_format l = WL_SHM_FORMAT_NV12
      then nat stride * nat h + nat stride * (nat h div 2) else nat stride * nat h)"
    using assms(1) by (auto simp: valid_buffer_layout_def bind_eq_Some_conv split: if_splits option.splits
        dest!: usize_checked_mul_SomeD usize_checked_add_SomeD)
  ultimately show ?thesis
    using w par by (auto simp: source_fits_def assms(4-7) mult.commute split: if_splits)
qed

lemma chroma_rect_in:
  assumes r: "x0 < x1" "x1 \<le> w" "y0 < y1" "y1 \<le> h" and par: "even w" "even h"
    and lim: "w < usize_limit" "h < usize_limit"
    and c: "chroma_rect w (x0, y0, x1, y1) = (a, b, c, d)"
  shows "a < c \<and> c \<le> w \<and> b < d \<and> d \<le> h div 2"
proof -
  have "even usize_limit"
    by (simp add: usize_limit_def)
  then have "Suc w < usize_limit" "Suc h < usize_limit"
    using par lim by (metis Suc_lessI even_Suc)+
  then have sat: "usize_saturating_add x1 (Suc 0) = Suc x1" "usize_saturating_add y1 (Suc 0) = Suc y1"
    using r by (simp_all add: usize_saturating_add_def)
  let ?c = "min (Suc x1) w"
  have even_c: "x1 \<le> ?c - ?c mod 2"
    using r(2) par(1) by (cases "x1 = w") (simp, presburger)
  then have "\<not> ?c - ?c mod 2 \<le> x0 - x0 mod 2"
    using r(1) by linarith
  then have abcd: "a = x0 - x0 mod 2" "b = y0 div 2" "c = ?c - ?c mod 2" "d = Suc y1 div 2"
    using c by (simp_all add: chroma_rect_def Let_def sat)
  have "b < d" "d \<le> h div 2"
    unfolding abcd using r(3,4) par(2) by presburger+
  moreover have "a < c" "c \<le> w"
    using even_c r(1) unfolding abcd(1,3) by linarith+
  ultimately show ?thesis
    by blast
qed

lemma rect_spans_accepts:
  assumes src: "source_fits l bpp" and dst: "dest_fits l bpp" and bpp: "format_bytes_per_pixel (sl_format l) = Some bpp"
    and lim: "sl_pool_size l < usize_limit" "sl_dest_size l < usize_limit"
  shows "rect_spans l bpp r \<noteq> None"
proof (cases "clipped_damage r (sl_width l) (sl_height l)")
  case None
  then show ?thesis by (simp add: rect_spans_def)
next
  case (Some q)
  obtain x0 y0 x1 y1 where q: "q = (x0, y0, x1, y1)"
    by (metis prod_cases4)
  have r: "x0 < x1" "x1 \<le> sl_width l" "y0 < y1" "y1 \<le> sl_height l"
    using clipped_damage_SomeD Some unfolding q by blast+
  have b: "0 < bpp"
    using bpp by (auto simp: format_bytes_per_pixel_def split: if_splits)
  have le: "x1 * bpp \<le> sl_src_stride l" "x1 * bpp \<le> sl_dst_stride l"
    using order_trans [OF mult_le_mono1 [OF r(2)]] src dst unfolding source_fits_def dest_fits_def by blast+
  have luma: "plane_span l bpp (sl_offset l) 0 (sl_dst_stride l) q \<noteq> None"
    unfolding q using plane_span_accepts [OF r(1,3,4) b le] src dst lim
    by (simp add: source_fits_def dest_fits_def)
  have chroma: "chroma_span l q \<noteq> None" if nv12: "sl_format l = WL_SHM_FORMAT_NV12"
  proof -
    obtain a b c d where abcd: "chroma_rect (sl_width l) q = (a, b, c, d)"
      by (metis prod_cases4)
    let ?ds = "if sl_dst_plane1_stride l = 0 then sl_dst_stride l else sl_dst_plane1_stride l"
    let ?so = "sl_offset l + sl_height l * sl_src_stride l"
    let ?do = "if sl_dst_plane1_stride l = 0 then sl_height l * sl_dst_stride l else sl_dst_plane1_offset l"
    have one: "bpp = 1"
      using bpp nv12 by (simp add: format_bytes_per_pixel_def)
    have fits: "?so + sl_height l div 2 * sl_src_stride l \<le> sl_pool_size l"
      "?do + sl_height l div 2 * ?ds \<le> sl_dest_size l" "sl_width l \<le> sl_src_stride l" "sl_width l \<le> ?ds"
      "even (sl_width l)" "even (sl_height l)"
      using src dst nv12 one by (auto simp: source_fits_def dest_fits_def)
    have "sl_height l \<le> sl_height l * sl_src_stride l" "sl_src_stride l \<le> sl_height l * sl_src_stride l"
      using r le(1) b by (auto simp: one)
    then have "sl_width l < usize_limit" "sl_height l < usize_limit"
      using fits(1,3) lim(1) by linarith+
    then have in_chroma: "a < c" "c \<le> sl_width l" "b < d" "d \<le> sl_height l div 2"
      using chroma_rect_in [OF r fits(5,6)] abcd unfolding q by blast+
    have "plane_span l 1 ?so ?do ?ds (a, b, c, d) \<noteq> None"
      using in_chroma fits lim by (intro plane_span_accepts [where h = "sl_height l div 2"]) auto
    moreover have "usize_checked_mul (sl_height l) (sl_src_stride l) = Some (sl_height l * sl_src_stride l)"
      "usize_checked_add (sl_offset l) (sl_height l * sl_src_stride l) = Some ?so"
      using fits(1) lim(1) by (auto simp: usize_checked_mul_def usize_checked_add_def)
    moreover have "sl_dst_plane1_stride l = 0 \<Longrightarrow>
        usize_checked_mul (sl_height l) (sl_dst_stride l) = Some (sl_height l * sl_dst_stride l)"
      using fits(2) lim(2) by (auto simp: usize_checked_mul_def)
    ultimately show ?thesis
      by (auto simp: chroma_span_def abcd)
  qed
  show ?thesis
    using luma chroma by (auto simp: rect_spans_def Some)
qed

lemma damage_spans_accepts:
  assumes "source_fits l bpp" "dest_fits l bpp" "format_bytes_per_pixel (sl_format l) = Some bpp"
    "sl_pool_size l < usize_limit" "sl_dest_size l < usize_limit"
  shows "damage_spans l bpp rs \<noteq> None"
  by (induction rs) (use rect_spans_accepts [OF assms] in \<open>auto split: option.splits\<close>)

text \<open>C34: merging the damage rectangles of a commit always ends with a list that is no longer than
  the damage, whose rectangles are valid and non-empty, and that still covers every damaged
  pixel.\<close>

theorem coalescing_loses_no_damage:
  assumes "list_all rect_ok damage"
  shows "\<exists>out. coalesce_damage_rects damage = Some out \<and> list_all rect_pos out \<and>
    length out \<le> length damage \<and> (\<forall>p. covered p damage \<longrightarrow> covered p out)"
  using assms by (rule coalesce_total)

lemma copy_spans_in:
  assumes "damage_spans l bpp rs = Some ps" "sl_pool_size l \<le> length src" "sl_dest_size l \<le> length dst"
    "length src < usize_limit" "length dst < usize_limit"
  shows "\<exists>dst'. copy_planes src ps dst = Some (True, dst') \<and> length dst' = length dst"
  using copy_planes_total [of ps src dst] plane_in_mono [OF damage_spans_in] assms by blast

text \<open>C35: as long as the layout's sizes are the sizes of the two mappings, a copy of damage never
  touches a byte outside a mapping and never panics, whatever the damage and the layout are, and
  it is all or nothing: when it reports failure the destination has not been changed.\<close>

theorem damage_copy_memory_safe:
  assumes "list_all rect_ok damage" "sl_pool_size l \<le> length src" "sl_dest_size l \<le> length dst"
    "length src < usize_limit" "length dst < usize_limit"
  shows "\<exists>ok dst'. copy_shm_damage (Some src) (Some dst) l damage = Some (ok, Some dst') \<and>
    length dst' = length dst \<and> (ok \<or> dst' = dst)"
proof -
  obtain out where out: "coalesce_damage_rects damage = Some out"
    using coalesce_total [OF assms(1)] by blast
  show ?thesis
  proof (cases "format_bytes_per_pixel (sl_format l)")
    case None
    then show ?thesis
      by (intro exI [of _ False] exI [of _ dst]) (simp add: copy_shm_damage_def)
  next
    case (Some b)
    then show ?thesis
    proof (cases "damage_spans l b out")
      case None
      then show ?thesis
        using Some out by (intro exI [of _ False] exI [of _ dst]) (simp add: copy_shm_damage_def)
    next
      case spans: (Some ps)
      obtain d where "copy_planes src ps dst = Some (True, d)" "length d = length dst"
        using copy_spans_in [OF spans assms(2-5)] by blast
      then show ?thesis
        using Some out spans by (auto simp: copy_shm_damage_def)
    qed
  qed
qed

text \<open>after a successful copy of a one-plane image every byte of every damaged pixel of the image
  is the source's byte, and a byte of the destination that changed is a byte of a pixel of the
  image and has the source's value: the padding between rows, other images in the destination
  and everything behind the image are untouched.\<close>

theorem damage_copied_exactly:
  assumes "sl_format l \<noteq> WL_SHM_FORMAT_NV12" "format_bytes_per_pixel (sl_format l) = Some bpp"
    "list_all rect_ok damage" "sl_width l * bpp \<le> sl_dst_stride l"
    "sl_pool_size l \<le> length src" "sl_dest_size l \<le> length dst"
    "length src < usize_limit" "length dst < usize_limit"
    "int (sl_width l) < 2 ^ 63" "int (sl_height l) < 2 ^ 63"
    "copy_shm_damage (Some src) (Some dst) l damage = Some (True, Some dst')"
  shows "length dst' = length dst \<and>
    (\<forall>x < sl_width l. \<forall>y < sl_height l. \<forall>k<bpp. covered (int x, int y) damage \<longrightarrow>
       dst' ! (y * sl_dst_stride l + x * bpp + k) =
       src ! (sl_offset l + y * sl_src_stride l + x * bpp + k)) \<and>
    (\<forall>j<length dst. dst' ! j \<noteq> dst ! j \<longrightarrow>
       (\<exists>x < sl_width l. \<exists>y < sl_height l. \<exists>k<bpp. j = y * sl_dst_stride l + x * bpp + k \<and>
          dst' ! j = src ! (sl_offset l + y * sl_src_stride l + x * bpp + k)))"
proof -
  have bpp: "0 < bpp"
    using assms(2) by (auto simp: format_bytes_per_pixel_def split: if_splits)
  obtain out where out: "coalesce_damage_rects damage = Some out" "list_all rect_pos out"
    "\<forall>p. covered p damage \<longrightarrow> covered p out"
    using coalesce_total [OF assms(3)] by blast
  obtain ps where ps: "damage_spans l bpp out = Some ps" "copy_planes src ps dst = Some (True, dst')"
    using assms(2,11) out(1) by (auto simp: copy_shm_damage_def split: option.splits if_splits)
  have len: "length dst' = length dst"
    and byte: "\<forall>j < length dst. dst' ! j = (if list_ex (hits l bpp j) out then source_byte l src j else dst ! j)"
    using copy_spans_single [OF assms(1) bpp assms(4-8) ps(1)] ps(2) by auto
  have src: "source_byte l src (y * sl_dst_stride l + x * bpp + k) =
      src ! (sl_offset l + y * sl_src_stride l + x * bpp + k)"
    if "x < sl_width l" "k < bpp" for x y k
    using pixel_index [OF that assms(4)] by (simp add: source_byte_def add.assoc)
  have "dst' ! (y * sl_dst_stride l + x * bpp + k) = src ! (sl_offset l + y * sl_src_stride l + x * bpp + k)"
    if p: "x < sl_width l" "y < sl_height l" "k < bpp" "covered (int x, int y) damage" for x y k
  proof -
    have "list_ex (hits l bpp (y * sl_dst_stride l + x * bpp + k)) out"
      using out(2,3) p hits_pixel [OF _ assms(9,10) p(1-3) assms(4)]
      by (auto simp: covered_def list_ex_iff list_all_iff)
    moreover from this have "y * sl_dst_stride l + x * bpp + k < length dst"
      using list_hits_in_dest [OF assms(1) ps(1)] assms(6) by fastforce
    ultimately show ?thesis
      using byte src [OF p(1,3)] by metis
  qed
  moreover have "\<exists>x < sl_width l. \<exists>y < sl_height l. \<exists>k<bpp. j = y * sl_dst_stride l + x * bpp + k \<and>
      dst' ! j = src ! (sl_offset l + y * sl_src_stride l + x * bpp + k)"
    if j: "j < length dst" "dst' ! j \<noteq> dst ! j" for j
  proof -
    have h: "list_ex (hits l bpp j) out" "dst' ! j = source_byte l src j"
      using byte j by (metis (full_types))+
    then obtain r where "hits l bpp j r"
      by (auto simp: list_ex_iff)
    then show ?thesis
      using hits_some_pixel [OF _ bpp] h(2) src by metis
  qed
  ultimately show ?thesis
    using len by blast
qed

text \<open>the copy of any damage of a buffer that a pool accepted, into a destination with room for
  the image's planes, never fails; this holds for every supported format, NV12 included.\<close>

theorem accepted_buffer_copy_succeeds:
  assumes "valid_buffer_layout (sl_pool_size l) off w h stride (sl_format l) = Some bytes"
    "valid_shm_stride (sl_format l) w stride" "format_bytes_per_pixel (sl_format l) = Some bpp"
    "sl_offset l = nat off" "sl_width l = nat w" "sl_height l = nat h" "sl_src_stride l = nat stride"
    "dest_fits l bpp" "list_all rect_ok damage"
    "sl_pool_size l \<le> length src" "sl_dest_size l \<le> length dst"
    "length src < usize_limit" "length dst < usize_limit"
  shows "\<exists>dst'. copy_shm_damage (Some src) (Some dst) l damage = Some (True, Some dst')"
proof -
  have lim: "sl_pool_size l < usize_limit" "sl_dest_size l < usize_limit"
    using assms(10-13) by simp_all
  obtain out where out: "coalesce_damage_rects damage = Some out"
    using coalesce_total [OF assms(9)] by blast
  obtain ps where ps: "damage_spans l bpp out = Some ps"
    using damage_spans_accepts [OF accepted_source_fits [OF assms(1-7)] assms(8,3) lim] by blast
  have "0 < w" "0 < h"
    using assms(1) by (auto simp: valid_buffer_layout_def split: if_splits)
  then have "sl_width l \<noteq> 0" "sl_height l \<noteq> 0"
    using assms(5,6) by simp_all
  then show ?thesis
    using copy_spans_in [OF ps assms(10-13)] assms(3) out ps by (auto simp: copy_shm_damage_def)
qed

section \<open>Witnesses\<close>

definition demo_layout :: shm_copy_layout where
  "demo_layout = \<lparr>sl_pool_size = 8, sl_dest_size = 8, sl_format = 0x36314752, sl_offset = 0,
     sl_width = 2, sl_src_stride = 4, sl_dst_stride = 4, sl_dst_plane1_offset = 0,
     sl_dst_plane1_stride = 0, sl_height = 2\<rparr>"

definition demo_damage :: "damage_rect list" where
  "demo_damage = [\<lparr>dr_x = -5, dr_y = 1, dr_width = 6, dr_height = 1\<rparr>]"

definition demo_src :: "u8 list" where
  "demo_src = [1, 2, 3, 4, 5, 6, 7, 8]"

lemma demo_damage_ok: "list_all rect_ok demo_damage"
  by (simp add: demo_damage_def rect_ok_def in_i32_def)

lemmas demo_defs = demo_layout_def demo_src_def usize_limit_def format_bytes_per_pixel_def
  WL_SHM_FORMAT_NV12_def dest_fits_def

theorem coalescing_loses_no_damage_witness:
  "\<exists>out. coalesce_damage_rects demo_damage = Some out \<and> covered (0, 1) out"
  using coalescing_loses_no_damage [OF demo_damage_ok]
  by (elim exE conjE) (auto simp: covered_def demo_damage_def in_rect_def)

theorem damage_copy_memory_safe_witness:
  "\<exists>ok dst'. copy_shm_damage (Some demo_src) (Some (replicate 8 0)) demo_layout demo_damage = Some (ok, Some dst') \<and>
     length dst' = 8"
  using damage_copy_memory_safe [OF demo_damage_ok, of demo_layout demo_src "replicate 8 0"]
  by (simp add: demo_defs) blast

theorem accepted_buffer_copy_succeeds_witness:
  "\<exists>dst'. copy_shm_damage (Some demo_src) (Some (replicate 8 0)) demo_layout demo_damage = Some (True, Some dst')"
  by (rule accepted_buffer_copy_succeeds [where off = 0 and w = 2 and h = 2 and stride = 4 and bytes = 8 and bpp = 2])
    (simp_all add: demo_defs demo_damage_ok valid_buffer_layout_def valid_shm_stride_def usize_from_i32_def
      usize_checked_mul_def usize_checked_add_def)

lemma demo_copy:
  "copy_shm_damage (Some demo_src) (Some (replicate 8 0)) demo_layout demo_damage =
     Some (True, Some [0, 0, 0, 0, 5, 6, 0, 0])"
  by (simp add: demo_defs demo_damage_def copy_shm_damage_def coalesce_damage_rects_def coalesce_step_def
      damage_edges_def i64_checked_add_def absorb_loop.simps damage_edges_fit_i32_def damage_from_edges_def
      in_i32_def rect_spans_def clipped_damage_def Let_def plane_span_def usize_checked_mul_def
      usize_checked_add_def valid_plane_copy_def plane_end_def copy_plane_def copy_bytes_def)
    (simp add: numeral_eq_Suc)

theorem damage_copied_exactly_witness:
  "[0, 0, 0, 0, 5, 6, 0, 0] ! 4 = demo_src ! 4"
proof -
  have "covered (0, 1) demo_damage"
    by (simp add: covered_def demo_damage_def in_rect_def)
  then show ?thesis
    using damage_copied_exactly [OF _ _ demo_damage_ok _ _ _ _ _ _ _ demo_copy, of 2] by (simp add: demo_defs)
qed

end
