(* ===== verification/Shm_Handler.thy ===== *)
theory Shm_Handler
  imports Display_Handler Shm_Copy
begin

text \<open>
  The \<open>wl_shm\<close>, \<open>wl_shm_pool\<close> and \<open>wl_buffer\<close> handlers (\<^verbatim>\<open>sommelier/src/handler/shm.rs\<close>)
  without the construction of buffers: the formats advertised to the guest, pools and their
  mappings, and the end of a buffer's life, whose host destructor is held back while the host
  compositor may still read the buffer.  The results of system calls are arguments.
\<close>

section \<open>Messages\<close>

text \<open>\<open>queue_message\<close> of this file: the descriptors of an oversized message are closed.\<close>

definition shm_queue_message ::
    "packet list \<Rightarrow> u32 \<Rightarrow> u16 \<Rightarrow> message_builder \<Rightarrow> raw_fd list \<Rightarrow> bool \<times> packet list \<times> raw_fd list" where
  "shm_queue_message queue sender opcode builder fds =
     (case try_build_message builder sender opcode of
        Inr message \<Rightarrow> (True, queue @ [(message, fds)], [])
      | Inl _ \<Rightarrow> (False, queue, filter (\<lambda>fd. fd \<ge> 0) fds))"

text \<open>Without descriptors, on the stream to the host.\<close>

definition queue_to_host :: "u32 \<Rightarrow> u16 \<Rightarrow> message_builder \<Rightarrow> 'h ctx_scheme \<Rightarrow> bool \<times> 'h ctx_scheme" where
  "queue_to_host sender opcode builder c =
     (case shm_queue_message (client_to_host_queue c) sender opcode builder [] of
        (ok, q, _) \<Rightarrow> (ok, c\<lparr>client_to_host_queue := q\<rparr>))"

definition rollback_queued_host_messages :: "packet list \<Rightarrow> nat \<Rightarrow> packet list \<times> raw_fd list" where
  "rollback_queued_host_messages queue queue_start =
     (if queue_start > length queue then (queue, [])
      else (take queue_start queue,
            filter (\<lambda>fd. fd \<ge> 0) (concat (map snd (drop queue_start queue)))))"

definition release_temporary_host_pool :: "u32 \<Rightarrow> 'h ctx_scheme \<Rightarrow> 'h ctx_scheme" where
  "release_temporary_host_pool host_pool c =
     c\<lparr>shadow_table := remove_host_interface host_pool (shadow_table c)\<rparr>"

definition unmap_destination :: "nat \<Rightarrow> nat \<Rightarrow> sys_release list" where
  "unmap_destination ptr sz = (if ptr \<noteq> 0 \<and> ptr \<noteq> MAP_FAILED then [Munmap ptr sz] else [])"

definition queue_buffer_creation_error :: "u32 \<Rightarrow> rust_string \<Rightarrow> 'h ctx_scheme \<Rightarrow> 'h ctx_scheme" where
  "queue_buffer_creation_error object_id message c = queue_protocol_error object_id 2 message c"

section \<open>Formats\<close>

text \<open>Whether the environment has a VirtWL channel and a GBM allocator.\<close>

record environment =
  has_channel :: bool
  has_allocator :: bool

definition guest_shm_format_available :: "environment \<Rightarrow> 'h ctx_scheme \<Rightarrow> u32 \<Rightarrow> bool" where
  "guest_shm_format_available env c format \<longleftrightarrow>
     (List.member MANDATORY_SHM_FORMATS format \<or> format \<in> host_shm_formats c) \<and>
     (format \<noteq> WL_SHM_FORMAT_NV12 \<or> has_channel env \<or>
      (gpu_accel c \<and> host_dmabuf_id c \<noteq> None \<and> has_allocator env))"

definition EVT_FORMAT :: u16 where "EVT_FORMAT = 0"

definition format_event :: "u32 \<Rightarrow> u32 \<Rightarrow> packet option" where
  "format_event guest format =
     map_option (\<lambda>m. (m, [])) (build_message (write_u32 format message_builder_new) guest EVT_FORMAT)"

text \<open>One bound object: the event is sent when the format is new to it.\<close>

definition advertise_format :: "environment \<Rightarrow> u32 \<Rightarrow> u32 \<Rightarrow> 'h ctx_scheme \<Rightarrow> 'h ctx_scheme option" where
  "advertise_format env format guest c =
     (if guest \<in> stale_shm_guest_objects c \<or> \<not> guest_shm_format_available env c format then Some c
      else
        case hm_get (shm_guest_formats c) guest of
          None \<Rightarrow> Some c
        | Some advertised \<Rightarrow>
            if format \<in> advertised then Some c
            else map_option (\<lambda>ev. c\<lparr>
                   shm_guest_formats := hm_insert guest (insert format advertised) (shm_guest_formats c),
                   host_to_client_queue := host_to_client_queue c @ [ev]\<rparr>) (format_event guest format))"

fun advertise_loop :: "environment \<Rightarrow> u32 \<Rightarrow> u32 list \<Rightarrow> 'h ctx_scheme \<Rightarrow> 'h ctx_scheme option" where
  "advertise_loop env format [] c = Some c"
| "advertise_loop env format (guest # guests) c =
     Option.bind (advertise_format env format guest c) (advertise_loop env format guests)"

definition record_host_shm_format :: "environment \<Rightarrow> u32 \<Rightarrow> 'h ctx_scheme \<Rightarrow> 'h ctx_scheme option" where
  "record_host_shm_format env format c =
     (if \<not> supported_shm_format format \<or> format \<in> host_shm_formats c then Some c
      else
        let c1 = c\<lparr>host_shm_formats := insert format (host_shm_formats c)\<rparr>
        in advertise_loop env format (map fst (shm_guest_formats c1)) c1)"

definition record_host_shm_wl_format :: "environment \<Rightarrow> u32 \<Rightarrow> 'h ctx_scheme \<Rightarrow> 'h ctx_scheme option" where
  "record_host_shm_wl_format env format c =
     record_host_shm_format env format
       (if supported_shm_format format
        then c\<lparr>host_wl_shm_formats := insert format (host_wl_shm_formats c)\<rparr> else c)"

definition record_host_shm_drm_format :: "environment \<Rightarrow> u32 \<Rightarrow> 'h ctx_scheme \<Rightarrow> 'h ctx_scheme option" where
  "record_host_shm_drm_format env format c =
     (case shm_format_from_drm format of
        None \<Rightarrow> Some c
      | Some f \<Rightarrow>
          record_host_shm_format env f
            (c\<lparr>host_dmabuf_shm_formats := insert f (host_dmabuf_shm_formats c)\<rparr>))"

definition clear_host_shm_wl_formats :: "'h ctx_scheme \<Rightarrow> 'h ctx_scheme" where
  "clear_host_shm_wl_formats c =
     c\<lparr>host_wl_shm_formats := {},
       host_shm_formats := host_shm_formats c - (host_wl_shm_formats c - host_dmabuf_shm_formats c)\<rparr>"

definition clear_host_shm_dmabuf_formats :: "'h ctx_scheme \<Rightarrow> 'h ctx_scheme" where
  "clear_host_shm_dmabuf_formats c =
     c\<lparr>host_dmabuf_shm_formats := {},
       host_shm_formats := host_shm_formats c - (host_dmabuf_shm_formats c - host_wl_shm_formats c)\<rparr>"

definition register_guest_shm :: "environment \<Rightarrow> u32 \<Rightarrow> 'h ctx_scheme \<Rightarrow> 'h ctx_scheme option" where
  "register_guest_shm env guest c =
     (let formats = filter (guest_shm_format_available env c) SUPPORTED_SHM_FORMATS;
          c1 = c\<lparr>shm_guest_formats := hm_insert guest (set formats) (shm_guest_formats c)\<rparr>
      in map_option (\<lambda>events. c1\<lparr>host_to_client_queue := host_to_client_queue c1 @ events\<rparr>)
           (those (map (format_event guest) formats)))"

definition on_format :: "environment \<Rightarrow> u32 \<Rightarrow> 'h ctx_scheme \<Rightarrow> (action \<times> 'h ctx_scheme) option" where
  "on_format env format c =
     (if host_shm_id c = Some (last_sender_id c)
      then map_option (Pair Drop) (record_host_shm_wl_format env format c)
      else Some (Forward, c))"

definition on_shm_release :: "'h ctx_scheme \<Rightarrow> action \<times> 'h ctx_scheme" where
  "on_shm_release c =
     (Forward,
      c\<lparr>shm_guest_formats := hm_remove (last_sender_id c) (shm_guest_formats c),
        stale_shm_guest_objects := stale_shm_guest_objects c - {last_sender_id c}\<rparr>)"

section \<open>Pools\<close>

type_synonym pool_store = "(nat, pool_state) hmap"

text \<open>\<open>fstat\<close> of a descriptor: whether it is a regular file, and its size.\<close>

definition backing_fd_has_size :: "raw_fd \<Rightarrow> (bool \<times> int) option \<Rightarrow> nat \<Rightarrow> bool" where
  "backing_fd_has_size fd stat sz =
     (if fd < 0 then False
      else case stat of
        None \<Rightarrow> False
      | Some (regular, st_size) \<Rightarrow> \<not> regular \<or> st_size \<ge> min (int sz) (2 ^ 63 - 1))"

text \<open>The results of \<open>fstat\<close>, \<open>dup\<close> and \<open>mmap\<close>, and where the new pool is allocated.\<close>

record pool_outcome =
  po_stat :: "(bool \<times> int) option"
  po_dup :: raw_fd
  po_mmap :: nat
  po_address :: nat

text \<open>The descriptors closed on the way are returned; \<open>fd\<close> itself stays with the caller.\<close>

definition on_create_pool ::
    "pool_outcome \<Rightarrow> u32 \<Rightarrow> raw_fd \<Rightarrow> i32 \<Rightarrow> pool_store \<times> 'h ctx_scheme \<Rightarrow>
       action \<times> raw_fd list \<times> pool_store \<times> 'h ctx_scheme" where
  "on_create_pool out pool fd sz s = (case s of (store, c) \<Rightarrow>
     if last_sender_id c \<in> stale_shm_guest_objects c then (Drop, [], s)
     else case valid_pool_size sz of
       None \<Rightarrow> (Drop, [], store, queue_protocol_error (last_sender_id c) 1 (str_bytes ''invalid wl_shm pool size'') c)
     | Some n \<Rightarrow>
        let invalid_fd = queue_protocol_error (last_sender_id c) 2 (str_bytes ''invalid wl_shm pool fd'') c
        in if \<not> backing_fd_has_size fd (po_stat out) n then (Drop, [], store, invalid_fd)
           else if po_dup out < 0 then (Drop, [], store, invalid_fd)
           else if po_mmap out = MAP_FAILED then (Drop, [po_dup out], store, invalid_fd)
           else (Drop, [],
                 hm_insert (po_address out)
                   \<lparr>client_fd = po_dup out, client_ptr = po_mmap out, pool_size = n\<rparr> store,
                 c\<lparr>pools := hm_insert pool (po_address out) (pools c),
                   shadow_table := track_interface_with_version pool ''wl_shm_pool'' 1 (shadow_table c)\<rparr>))"

text \<open>The results of \<open>fstat\<close> and \<open>mremap\<close>.\<close>

definition on_resize ::
    "(bool \<times> int) option \<Rightarrow> nat \<Rightarrow> i32 \<Rightarrow> pool_store \<times> 'h ctx_scheme \<Rightarrow>
       action \<times> pool_store \<times> 'h ctx_scheme" where
  "on_resize stat remapped sz s = (case s of (store, c) \<Rightarrow>
     let pool = last_sender_id c
     in if pool \<in> stale_shm_pools c then (Drop, s)
        else case hm_get (pools c) pool of
          None \<Rightarrow> (Drop, s)
        | Some a \<Rightarrow>
           (case hm_get store a of
              None \<Rightarrow> (Drop, s)
            | Some p \<Rightarrow>
               (case valid_pool_resize (pool_size p) sz of
                  None \<Rightarrow> (Drop, store, queue_protocol_error pool 1 (str_bytes ''invalid wl_shm pool resize'') c)
                | Some n \<Rightarrow>
                    if \<not> backing_fd_has_size (client_fd p) stat n \<or> remapped = MAP_FAILED
                    then (Drop, store, queue_protocol_error pool 2 (str_bytes ''invalid wl_shm pool fd'') c)
                    else (Drop, hm_insert a (p\<lparr>client_ptr := remapped, pool_size := n\<rparr>) store, c))))"

text \<open>The last reference to a pool runs its destructor.\<close>

definition pool_referenced :: "'h ctx_scheme \<Rightarrow> nat \<Rightarrow> bool" where
  "pool_referenced c a \<longleftrightarrow>
     a \<in> snd ` set (pools c) \<or>
     list_ex (\<lambda>(h, _). case local_copy (render_buffers c) h of
        Some b \<Rightarrow> buf_pool b = a | None \<Rightarrow> False) (render_buffers c)"

definition drop_unreferenced_pools ::
    "pool_store \<times> 'h ctx_scheme \<Rightarrow> sys_release list \<times> pool_store \<times> 'h ctx_scheme" where
  "drop_unreferenced_pools s = (case s of (store, c) \<Rightarrow>
     (concat (map (\<lambda>(a, p). if pool_referenced c a then [] else pool_state_drop p) store),
      hm_retain (\<lambda>a _. pool_referenced c a) store, c))"

definition on_pool_destroy ::
    "pool_store \<times> 'h ctx_scheme \<Rightarrow> action \<times> sys_release list \<times> pool_store \<times> 'h ctx_scheme" where
  "on_pool_destroy s = (case s of (store, c) \<Rightarrow>
     (Drop, drop_unreferenced_pools (store,
        c\<lparr>pools := hm_remove (last_sender_id c) (pools c),
          stale_shm_pools := stale_shm_pools c - {last_sender_id c}\<rparr>)))"

section \<open>The life of a buffer\<close>

definition queue_host_buffer_destroy :: "u32 \<Rightarrow> 'h ctx_scheme \<Rightarrow> bool \<times> 'h ctx_scheme" where
  "queue_host_buffer_destroy host c =
     (case queue_to_host host 0 message_builder_new c of
        (queued, c1) \<Rightarrow> (queued, if queued then c1 else c1\<lparr>fatal_protocol_error := True\<rparr>))"

definition rollback_registered_buffer :: "u32 \<Rightarrow> u32 \<Rightarrow> 'h ctx_scheme \<Rightarrow> 'h ctx_scheme" where
  "rollback_registered_buffer guest host c =
     (if get_host_id (shadow_table c) guest \<noteq> Some host then c
      else
        case queue_host_buffer_destroy host c of
          (queued, c1) \<Rightarrow>
            let c2 = c1\<lparr>shadow_table := remove_guest_mapping guest (shadow_table c1)\<rparr>
            in if queued then
                 (case mark_pending_destroy_host host (shadow_table c2) of
                    (marked, t) \<Rightarrow>
                      let c3 = c2\<lparr>shadow_table := t\<rparr>
                      in if marked then c3 else c3\<lparr>fatal_protocol_error := True\<rparr>)
               else c2\<lparr>shadow_table := remove_host_interface host (shadow_table c2)\<rparr>)"

definition REQ_PARAMS_DESTROY :: u16 where "REQ_PARAMS_DESTROY = 0"

definition queue_host_params_destroy :: "u32 \<Rightarrow> 'h ctx_scheme \<Rightarrow> bool \<times> 'h ctx_scheme" where
  "queue_host_params_destroy params c =
     (case queue_to_host params REQ_PARAMS_DESTROY message_builder_new c of
        (queued, c1) \<Rightarrow>
          (queued,
           if queued then c1\<lparr>shadow_table := snd (mark_pending_destroy_host params (shadow_table c1))\<rparr>
           else c1\<lparr>shadow_table := remove_host_interface params (shadow_table c1),
                   fatal_protocol_error := True\<rparr>))"

definition cleanup_direct_dmabuf_failure ::
    "u32 \<Rightarrow> bool \<Rightarrow> nat \<Rightarrow> nat \<Rightarrow> 'h ctx_scheme \<Rightarrow> sys_release list \<times> 'h ctx_scheme" where
  "cleanup_direct_dmabuf_failure params params_queued dest_ptr dest_size c =
     (unmap_destination dest_ptr dest_size,
      if params_queued then snd (queue_host_params_destroy params c)
      else c\<lparr>shadow_table := remove_host_interface params (shadow_table c)\<rparr>)"

definition clear_surface_buffer_references :: "u32 \<Rightarrow> 'h ctx_scheme \<Rightarrow> 'h ctx_scheme" where
  "clear_surface_buffer_references guest c =
     c\<lparr>surfaces := map (\<lambda>(k, s).
        let s1 = clear_current_buffer_reference guest s
        in (k, if pending_attachment s1 = Attach guest
               then s1\<lparr>pending_attachment := Detach\<rparr> else s1)) (surfaces c)\<rparr>"

definition record_host_buffer_release :: "u32 \<Rightarrow> 'h ctx_scheme \<Rightarrow> 'h ctx_scheme" where
  "record_host_buffer_release guest c =
     (if render_buffer_host_id c guest \<noteq> None then snd (mark_buffer_released guest c) else c)"

definition retire_destroyed_buffer_mapping :: "u32 \<Rightarrow> host_id \<Rightarrow> 'h ctx_scheme \<Rightarrow> 'h ctx_scheme" where
  "retire_destroyed_buffer_mapping guest h c =
     (case complete_queued_buffer_destroy guest h c of
        (ok, c1) \<Rightarrow> if ok then c1 else c1\<lparr>fatal_protocol_error := True\<rparr>)"

record surface_buffer_references =
  refs_current :: "u32 set"
  refs_pending :: "u32 set"

definition collect_references :: "'h ctx_scheme \<Rightarrow> surface_buffer_references" where
  "collect_references c =
     \<lparr>refs_current = set (List.map_filter (\<lambda>(_, s). current_buffer_id s) (surfaces c)),
      refs_pending = set (List.map_filter (\<lambda>(_, s). attachment_buffer_id (pending_attachment s)) (surfaces c))\<rparr>"

definition refs_contain :: "surface_buffer_references \<Rightarrow> u32 \<Rightarrow> bool" where
  "refs_contain r guest \<longleftrightarrow> guest \<in> refs_current r \<or> guest \<in> refs_pending r"

definition has_current :: "surface_buffer_references \<Rightarrow> u32 \<Rightarrow> bool" where
  "has_current r guest \<longleftrightarrow> guest \<in> refs_current r"

definition has_pending :: "surface_buffer_references \<Rightarrow> u32 \<Rightarrow> bool" where
  "has_pending r guest \<longleftrightarrow> guest \<in> refs_pending r"

definition can_retire_deferred_buffer :: "'h ctx_scheme \<Rightarrow> surface_buffer_references \<Rightarrow> u32 \<Rightarrow> bool" where
  "can_retire_deferred_buffer c r guest \<longleftrightarrow>
     (\<not> refs_contain r guest \<or> (buffer_is_released c guest \<and> \<not> has_pending r guest)) \<and>
     \<not> buffer_is_submitted c guest"

text \<open>The closure of \<open>filter_map\<close> over the lifecycles.\<close>

definition retire_candidate ::
    "'h ctx_scheme \<Rightarrow> surface_buffer_references \<Rightarrow> host_id \<times> render_buffer_lifecycle \<Rightarrow> (u32 \<times> host_id) option" where
  "retire_candidate c refs x = (case x of (h, l) \<Rightarrow>
     if \<not> is_guest_destroyed l then None
     else case get_guest_id (shadow_table c) (host_raw h) of
       None \<Rightarrow> None
     | Some guest \<Rightarrow> if can_retire_deferred_buffer c refs guest then Some (guest, h) else None)"

definition retire_candidates :: "'h ctx_scheme \<Rightarrow> (u32 \<times> host_id) list" where
  "retire_candidates c =
     List.map_filter (retire_candidate c (collect_references c)) (render_buffer_lifecycles c)"

text \<open>The destructor of a host buffer, and the end of its mapping once it is queued.\<close>

definition destroy_host_buffer :: "u32 \<Rightarrow> host_id \<Rightarrow> 'h ctx_scheme \<Rightarrow> 'h ctx_scheme" where
  "destroy_host_buffer guest h c =
     (case queue_host_buffer_destroy (host_raw h) c of
        (queued, c1) \<Rightarrow> if queued then retire_destroyed_buffer_mapping guest h c1 else c1)"

fun retire_loop :: "(u32 \<times> host_id) list \<Rightarrow> 'h ctx_scheme \<Rightarrow> 'h ctx_scheme" where
  "retire_loop [] c = c"
| "retire_loop ((guest, h) # candidates) c = retire_loop candidates (destroy_host_buffer guest h c)"

definition retire_eligible_buffers :: "'h ctx_scheme \<Rightarrow> 'h ctx_scheme" where
  "retire_eligible_buffers c = retire_loop (retire_candidates c) c"

definition clear_buffer_uses_after_surface_destroy :: "u32 option \<Rightarrow> 'h ctx_scheme \<Rightarrow> 'h ctx_scheme" where
  "clear_buffer_uses_after_surface_destroy destroyed_surface_buffer c =
     (case destroyed_surface_buffer of
        None \<Rightarrow> c
      | Some guest \<Rightarrow>
          if host_buffer_use c guest = None then c
          else case finish_surface_destroy_use guest (has_current (collect_references c) guest) c of
            (ok, c1) \<Rightarrow> if ok then c1 else c1\<lparr>fatal_protocol_error := True\<rparr>)"

definition on_buffer_destroy :: "'h ctx_scheme \<Rightarrow> action \<times> 'h ctx_scheme" where
  "on_buffer_destroy c =
     (let guest = last_sender_id c;
          refs = collect_references c;
          uncommitted_attach = has_pending refs guest;
          still_referenced = buffer_is_submitted c guest \<or> refs_contain refs guest
      in if render_buffer_host_id c guest \<noteq> None \<and> still_referenced \<and>
            (\<not> buffer_is_released c guest \<or> uncommitted_attach)
         then (case mark_buffer_guest_destroyed guest c of
                 (ok, c1) \<Rightarrow>
                   let c2 = (if ok then c1 else c1\<lparr>fatal_protocol_error := True\<rparr>)
                   in (Drop, c2\<lparr>shadow_table := retire_guest_object guest (shadow_table c2)\<rparr>))
         else
           let c1 = (case get_host_id (shadow_table c) guest of
                       Some host \<Rightarrow> destroy_host_buffer guest (HostId host) c
                     | None \<Rightarrow> c)
           in (Drop, clear_surface_buffer_references guest c1))"

definition on_buffer_release :: "'h ctx_scheme \<Rightarrow> action \<times> 'h ctx_scheme" where
  "on_buffer_release c =
     (let host = last_sender_id c
      in case get_guest_id (shadow_table c) host of
           None \<Rightarrow> (Drop, c)
         | Some guest \<Rightarrow>
             let pending_attach = has_pending (collect_references c) guest
             in if host_buffer_is_guest_destroyed c host then
                  if pending_attach then (Drop, record_host_buffer_release guest c)
                  else
                    let c1 = record_host_buffer_release guest c
                    in (case queue_host_buffer_destroy host c1 of
                          (queued, c2) \<Rightarrow>
                            (Drop,
                             if queued then clear_surface_buffer_references guest
                                              (retire_destroyed_buffer_mapping guest (HostId host) c2)
                             else c2))
                else (Forward, record_host_buffer_release guest c))"

definition wl_shm_format_to_drm_format :: "u32 \<Rightarrow> u32" where
  "wl_shm_format_to_drm_format format =
     (if format = 0 then 0x34325241 else if format = 1 then 0x34325258 else format)"

section \<open>Requests without arguments\<close>

definition empty_request :: "u32 \<Rightarrow> u16 \<Rightarrow> packet" where
  "empty_request sender opcode =
     (u32_to_ne_bytes sender @ u32_to_ne_bytes (push_bit 16 8 OR ucast opcode), [])"

definition buffer_destructor :: "host_id \<Rightarrow> packet" where
  "buffer_destructor h = empty_request (host_raw h) 0"

lemma queue_to_host_empty [simp]:
  "queue_to_host sender opcode message_builder_new c =
     (True, c\<lparr>client_to_host_queue := client_to_host_queue c @ [empty_request sender opcode]\<rparr>)"
proof -
  have "try_build_message message_builder_new sender opcode = Inr (fst (empty_request sender opcode))"
    using try_build_message_ok [of message_builder_new sender opcode]
    by (simp add: message_builder_new_def empty_request_def)
  then show ?thesis
    by (simp add: queue_to_host_def shm_queue_message_def empty_request_def)
qed

lemma destroy_host_buffer_eq:
  "destroy_host_buffer g h c = retire_destroyed_buffer_mapping g h
     (c\<lparr>client_to_host_queue := client_to_host_queue c @ [buffer_destructor h]\<rparr>)"
  by (simp add: destroy_host_buffer_def queue_host_buffer_destroy_def buffer_destructor_def)

lemma retire_mapping_frame [simp]:
  "client_to_host_queue (retire_destroyed_buffer_mapping g h c) = client_to_host_queue c"
  "surfaces (retire_destroyed_buffer_mapping g h c) = surfaces c"
  by (auto simp: retire_destroyed_buffer_mapping_def complete_queued_buffer_destroy_def with_registry_def
      registry_remove_def mark_host_destroy_queued_def split: option.splits render_buffer.splits)

lemma destroy_host_buffer_frame [simp]:
  "client_to_host_queue (destroy_host_buffer g h c) = client_to_host_queue c @ [buffer_destructor h]"
  "surfaces (destroy_host_buffer g h c) = surfaces c"
  by (simp_all add: destroy_host_buffer_eq)

lemma clear_references_frame [simp]:
  "client_to_host_queue (clear_surface_buffer_references g c) = client_to_host_queue c"
  "render_buffers (clear_surface_buffer_references g c) = render_buffers c"
  "shadow_table (clear_surface_buffer_references g c) = shadow_table c"
  "fatal_protocol_error (clear_surface_buffer_references g c) = fatal_protocol_error c"
  by (simp_all add: clear_surface_buffer_references_def)

lemma retire_loop_queue:
  "client_to_host_queue (retire_loop cs c) = client_to_host_queue c @ map (\<lambda>(_, h). buffer_destructor h) cs"
  by (induction cs c rule: retire_loop.induct) simp_all

lemma complete_destroy_guests:
  "get_guest_id (shadow_table (snd (complete_queued_buffer_destroy g h c))) x = Some y \<Longrightarrow>
     get_guest_id (shadow_table c) x = Some y"
  by (auto simp: complete_queued_buffer_destroy_def with_registry_def registry_remove_def
      mark_host_destroy_queued_def mark_pending_destroy_def remove_id_def Let_def get_guest_id_def
      split: option.splits render_buffer.splits if_splits)

lemma destroy_host_buffer_guests:
  "get_guest_id (shadow_table (destroy_host_buffer g h c)) x = Some y \<Longrightarrow>
     get_guest_id (shadow_table c) x = Some y"
  using complete_destroy_guests
    [of g h "c\<lparr>client_to_host_queue := client_to_host_queue c @ [buffer_destructor h]\<rparr>" x y]
  by (simp add: destroy_host_buffer_eq retire_destroyed_buffer_mapping_def split: prod.splits if_splits)

lemma retire_loop_guests:
  "get_guest_id (shadow_table (retire_loop cs c)) x = Some y \<Longrightarrow> get_guest_id (shadow_table c) x = Some y"
  by (induction cs c rule: retire_loop.induct) (auto dest: destroy_host_buffer_guests)

lemma retire_loop_surfaces [simp]: "surfaces (retire_loop cs c) = surfaces c"
  by (induction cs c rule: retire_loop.induct) simp_all

section \<open>What a sweep retires\<close>

text \<open>A guest-destroyed buffer that the host no longer reads and no surface will show again.\<close>

definition retirable :: "'h ctx_scheme \<Rightarrow> host_id \<Rightarrow> u32 \<Rightarrow> bool" where
  "retirable c h g \<longleftrightarrow>
     (\<exists>u. lifecycle (render_buffers c) h = Some (GuestDestroyed u) \<and>
        get_guest_id (shadow_table c) (host_raw h) = Some g \<and> \<not> is_awaiting_release u \<and>
        g \<notin> refs_pending (collect_references c) \<and>
        (g \<in> refs_current (collect_references c) \<longrightarrow> u = Released))"

lemma host_buffer_use_mapped:
  assumes "get_host_id (shadow_table c) g = Some (host_raw h)"
  shows "host_buffer_use c g = Option.bind (lifecycle (render_buffers c) h) use_state_of"
proof -
  have "HostId (host_raw h) = h"
    by (cases h) simp
  then show ?thesis
    using assms by (auto simp: host_buffer_use_def render_buffer_host_id_def contains_lifecycle)
qed

lemma set_map_filter_iff: "y \<in> set (List.map_filter p xs) \<longleftrightarrow> (\<exists>x\<in>set xs. p x = Some y)"
  by (force simp: List.map_filter_def image_iff)

lemma map_filter_keys:
  "distinct (map f xs) \<Longrightarrow> (\<And>x y. p x = Some y \<Longrightarrow> k y = f x) \<Longrightarrow> distinct (map k (List.map_filter p xs))"
proof (induction xs)
  case (Cons x xs)
  have "k y \<noteq> f x" if y: "y \<in> set (List.map_filter p xs)" for y
  proof -
    obtain z where z: "z \<in> set xs" "p z = Some y"
      using y unfolding set_map_filter_iff by blast
    then have "k y = f z"
      using Cons.prems(2) by blast
    moreover have "f z \<in> f ` set xs"
      using z(1) by blast
    ultimately show ?thesis
      using Cons.prems(1) by auto
  qed
  then have "f x \<notin> k ` set (List.map_filter p xs)"
    by force
  then show ?case
    using Cons by (cases "p x") (simp_all add: List.map_filter_simps)
qed (simp add: List.map_filter_simps)

lemma lifecycles_keys:
  assumes "hm_ok r"
  shows "distinct (map fst (lifecycles r))"
proof -
  have "map fst (concat (map (\<lambda>h. case lifecycle r h of Some l \<Rightarrow> [(h, l)] | None \<Rightarrow> []) hs)) =
      filter (\<lambda>h. lifecycle r h \<noteq> None) hs" for hs
    by (induction hs) (auto split: option.splits)
  then have "map fst (lifecycles r) = filter (\<lambda>h. lifecycle r h \<noteq> None) (map fst r)"
    unfolding lifecycles_def by blast
  then show ?thesis
    using assms by (simp add: hm_ok_def)
qed

lemma lifecycles_set: "(h, l) \<in> set (lifecycles r) \<longleftrightarrow> lifecycle r h = Some l"
proof -
  have "h \<in> set (map fst r)" if "lifecycle r h = Some l"
    using that by (auto simp: lifecycle_def hm_get_def dest!: map_of_SomeD intro: rev_image_eqI)
  moreover have "(h, l) \<in> set (lifecycles r) \<longleftrightarrow> h \<in> set (map fst r) \<and> lifecycle r h = Some l"
    unfolding lifecycles_def by (force split: option.splits)
  ultimately show ?thesis
    by blast
qed

lemma retire_candidates_iff:
  assumes "paired (shadow_table c)"
  shows "(g, h) \<in> set (retire_candidates c) \<longleftrightarrow> retirable c h g"
proof -
  have use: "host_buffer_use c g = Option.bind (lifecycle (render_buffers c) h) use_state_of"
    if "get_guest_id (shadow_table c) (host_raw h) = Some g"
    using that assms host_buffer_use_mapped
    by (simp add: get_guest_id_def get_host_id_def paired_iff)
  have l: "is_guest_destroyed l \<longleftrightarrow> (\<exists>u. l = GuestDestroyed u)" for l
    by (cases l) (simp_all add: is_guest_destroyed_def)
  have can: "can_retire_deferred_buffer c (collect_references c) g \<longleftrightarrow> \<not> is_awaiting_release u \<and>
      g \<notin> refs_pending (collect_references c) \<and> (g \<in> refs_current (collect_references c) \<longrightarrow> u = Released)"
    if "get_guest_id (shadow_table c) (host_raw h) = Some g" "lifecycle (render_buffers c) h = Some (GuestDestroyed u)" for u
    using use [OF that(1)] that(2)
    by (auto simp: can_retire_deferred_buffer_def buffer_is_released_def buffer_is_submitted_def
        refs_contain_def has_pending_def use_state_of_def)
  have cand: "retire_candidate c (collect_references c) (h', l) = Some (g, h) \<longleftrightarrow> h' = h \<and>
      (\<exists>u. l = GuestDestroyed u) \<and> get_guest_id (shadow_table c) (host_raw h) = Some g \<and>
      can_retire_deferred_buffer c (collect_references c) g" for h' l
    by (auto simp: l retire_candidate_def split: option.splits)
  have "(g, h) \<in> set (retire_candidates c) \<longleftrightarrow> (\<exists>h' l. lifecycle (render_buffers c) h' = Some l \<and>
      retire_candidate c (collect_references c) (h', l) = Some (g, h))"
    unfolding retire_candidates_def set_map_filter_iff render_buffer_lifecycles_def Bex_def split_paired_Ex lifecycles_set ..
  also have "\<dots> \<longleftrightarrow> (\<exists>u. lifecycle (render_buffers c) h = Some (GuestDestroyed u) \<and>
      get_guest_id (shadow_table c) (host_raw h) = Some g \<and> can_retire_deferred_buffer c (collect_references c) g)"
    unfolding cand by blast
  also have "\<dots> \<longleftrightarrow> retirable c h g"
    unfolding retirable_def using can by blast
  finally show ?thesis .
qed

lemma retire_candidates_distinct:
  assumes "hm_ok (render_buffers c)"
  shows "distinct (map snd (retire_candidates c))"
  unfolding retire_candidates_def render_buffer_lifecycles_def
  by (rule map_filter_keys [OF lifecycles_keys [OF assms]])
    (auto simp: retire_candidate_def split: option.splits if_splits)

text \<open>The end of one generation.\<close>

lemma complete_destroyed:
  assumes "get_host_id (shadow_table c) g = Some (host_raw h)"
    and "lifecycle (render_buffers c) h = Some l" "l \<noteq> HostDestroyQueued"
  shows "\<exists>c'. retire_destroyed_buffer_mapping g h c = c' \<and>
    lifecycle (render_buffers c') = (lifecycle (render_buffers c))
      (h := if is_guest_server_id g then None else Some HostDestroyQueued) \<and>
    fatal_protocol_error c' = fatal_protocol_error c \<and>
    (\<forall>g'. g' \<noteq> g \<longrightarrow> get_host_id (shadow_table c') g' = get_host_id (shadow_table c) g') \<and>
    get_host_id (shadow_table c') g = (if is_guest_server_id g then None else Some (host_raw h))"
proof (cases "is_guest_server_id g")
  case True
  have "get_host_id (remove_id g (shadow_table c)) = (get_host_id (shadow_table c))(g := None)"
    by (auto simp: get_host_id_def fun_eq_iff remove_id_def Let_def split: option.splits)
  then show ?thesis
    using assms True by (simp add: retire_destroyed_buffer_mapping_def complete_queued_buffer_destroy_def
        with_registry_def registry_remove_def contains_lifecycle)
next
  case False
  have "get_host_id (mark_pending_destroy g (shadow_table c)) = get_host_id (shadow_table c)"
    by (simp add: get_host_id_def mark_pending_destroy_def fun_eq_iff)
  then show ?thesis
    using assms False complete_client_range [OF assms(1) False]
    by (simp add: retire_destroyed_buffer_mapping_def contains_lifecycle lifecycle_of_def)
qed

lemma retire_loop_effect:
  assumes "distinct (map fst cs)" "distinct (map snd cs)"
    and "\<forall>(g, h)\<in>set cs. get_host_id (shadow_table c) g = Some (host_raw h) \<and>
      (\<exists>u. lifecycle (render_buffers c) h = Some (GuestDestroyed u))"
  shows "lifecycle (render_buffers (retire_loop cs c)) h =
      (case map_of (map prod.swap cs) h of
         Some g \<Rightarrow> if is_guest_server_id g then None else Some HostDestroyQueued
       | None \<Rightarrow> lifecycle (render_buffers c) h) \<and>
    fatal_protocol_error (retire_loop cs c) = fatal_protocol_error c"
  using assms
proof (induction cs arbitrary: c)
  case (Cons x cs)
  obtain g' h' where x: "x = (g', h')"
    by fastforce
  let ?c = "c\<lparr>client_to_host_queue := client_to_host_queue c @ [buffer_destructor h']\<rparr>"
  obtain u where u: "get_host_id (shadow_table c) g' = Some (host_raw h')"
    "lifecycle (render_buffers c) h' = Some (GuestDestroyed u)"
    using Cons.prems(3) x by auto
  obtain c' where c': "destroy_host_buffer g' h' c = c'"
    "lifecycle (render_buffers c') = (lifecycle (render_buffers c))
      (h' := if is_guest_server_id g' then None else Some HostDestroyQueued)"
    "fatal_protocol_error c' = fatal_protocol_error c"
    "\<forall>g. g \<noteq> g' \<longrightarrow> get_host_id (shadow_table c') g = get_host_id (shadow_table c) g"
    using complete_destroyed [of ?c g' h' "GuestDestroyed u"] u unfolding destroy_host_buffer_eq by auto
  have "\<forall>(g, h)\<in>set cs. get_host_id (shadow_table c') g = Some (host_raw h) \<and>
      (\<exists>u. lifecycle (render_buffers c') h = Some (GuestDestroyed u))"
  proof (intro ballI, clarify)
    fix g h assume gh: "(g, h) \<in> set cs"
    then have "g \<noteq> g'" "h \<noteq> h'"
      using Cons.prems(1,2) x by (auto simp: rev_image_eqI)
    then show "get_host_id (shadow_table c') g = Some (host_raw h) \<and>
        (\<exists>u. lifecycle (render_buffers c') h = Some (GuestDestroyed u))"
      using Cons.prems(3) gh c'(2,4) by auto
  qed
  note ih = Cons.IH [OF _ _ this]
  have "map_of (map prod.swap cs) h' = None"
    using Cons.prems(2) x by (auto simp: map_of_eq_None_iff image_iff)
  then show ?case
    using ih Cons.prems(1,2) c' x by (auto split: option.splits)
qed simp

section \<open>Destruction and release\<close>

datatype buffer_event = BufferDestroy | BufferRelease | BufferSweep

definition buffer_event_step :: "buffer_event \<Rightarrow> 'h ctx_scheme \<Rightarrow> 'h ctx_scheme" where
  "buffer_event_step e c =
     (case e of
        BufferDestroy \<Rightarrow> snd (on_buffer_destroy c)
      | BufferRelease \<Rightarrow> snd (on_buffer_release c)
      | BufferSweep \<Rightarrow> retire_eligible_buffers c)"

text \<open>The host compositor may still read a buffer it has not released since its last submission.\<close>

definition host_reads :: "'h ctx_scheme \<Rightarrow> host_id \<Rightarrow> bool" where
  "host_reads c h \<longleftrightarrow>
     (\<exists>u. Option.bind (lifecycle (render_buffers c) h) use_state_of = Some u \<and> is_awaiting_release u)"

lemma record_release_frame [simp]:
  "client_to_host_queue (record_host_buffer_release g c) = client_to_host_queue c"
  "surfaces (record_host_buffer_release g c) = surfaces c"
  "shadow_table (record_host_buffer_release g c) = shadow_table c"
  "fatal_protocol_error (record_host_buffer_release g c) = fatal_protocol_error c"
  by (auto simp: record_host_buffer_release_def mark_buffer_released_def on_guest_buffer_def with_registry_def
      split: option.splits prod.splits)

lemma record_release_lifecycle:
  assumes "get_host_id (shadow_table c) g = Some (host_raw h)"
    "lifecycle (render_buffers c) h = Some (GuestDestroyed u)"
  shows "\<exists>u'. lifecycle (render_buffers (record_host_buffer_release g c)) h = Some (GuestDestroyed u')"
proof -
  have id: "render_buffer_host_id c g = Some h"
    using assms by (cases h) (simp add: render_buffer_host_id_def contains_lifecycle)
  have "lifecycle (snd (release h (render_buffers c))) h = (snd (life_edge release_edge h (lifecycle (render_buffers c)))) h"
    by (simp add: release_simulates)
  also have "\<exists>u'. \<dots> = Some (GuestDestroyed u')"
    using assms(2) by (auto simp: life_edge_def life_use_def use_state_of_def set_use_def split: option.splits)
  finally show ?thesis
    using id by (simp add: record_host_buffer_release_def mark_buffer_released_def on_guest_buffer_def
        with_registry_def case_prod_unfold)
qed

lemma clear_references_collect:
  "g \<notin> refs_current (collect_references (clear_surface_buffer_references g c)) \<and>
   g \<notin> refs_pending (collect_references (clear_surface_buffer_references g c))"
proof -
  have cur: "current_buffer_id (clear_current_buffer_reference g s) \<noteq> Some g"
    and pend: "pending_attachment (clear_current_buffer_reference g s) = pending_attachment s" for s
    by (auto simp: current_buffer_id_def clear_current_buffer_reference_def split: option.splits bind_splits)
  have cur': "current_buffer_id (s\<lparr>pending_attachment := a\<rparr>) = current_buffer_id s" for s a
    by (simp add: current_buffer_id_def)
  have "g \<notin> set (List.map_filter (\<lambda>(_, s). current_buffer_id s) (surfaces (clear_surface_buffer_references g c)))"
    unfolding set_map_filter_iff
    by (auto simp: clear_surface_buffer_references_def Let_def cur cur' split: if_splits)
  moreover have "g \<notin> set (List.map_filter (\<lambda>(_, s). attachment_buffer_id (pending_attachment s))
      (surfaces (clear_surface_buffer_references g c)))"
    unfolding set_map_filter_iff
    by (auto simp: clear_surface_buffer_references_def Let_def attachment_buffer_id_def split: surface_attachment.splits if_splits)
  ultimately show ?thesis
    by (simp add: collect_references_def)
qed

lemma queue_host_buffer_destroy_eq [simp]:
  "queue_host_buffer_destroy host c =
     (True, c\<lparr>client_to_host_queue := client_to_host_queue c @ [buffer_destructor (HostId host)]\<rparr>)"
  by (simp add: queue_host_buffer_destroy_def buffer_destructor_def)

lemma destroy_request_queue:
  assumes "paired (shadow_table c)"
  shows "client_to_host_queue (snd (on_buffer_destroy c)) = client_to_host_queue c \<or>
    (\<exists>h. client_to_host_queue (snd (on_buffer_destroy c)) = client_to_host_queue c @ [buffer_destructor h] \<and>
       get_guest_id (shadow_table c) (host_raw h) = Some (last_sender_id c) \<and>
       (lifecycle (render_buffers c) h \<noteq> None \<longrightarrow>
          last_sender_id c \<notin> refs_pending (collect_references c) \<and> \<not> host_reads c h))"
proof (cases "get_host_id (shadow_table c) (last_sender_id c)")
  case None
  then show ?thesis
    by (auto simp: on_buffer_destroy_def Let_def render_buffer_host_id_def)
next
  case (Some raw)
  let ?h = "HostId raw"
  have use: "host_buffer_use c (last_sender_id c) = Option.bind (lifecycle (render_buffers c) ?h) use_state_of"
    using host_buffer_use_mapped [of c "last_sender_id c" ?h] Some by simp
  have guest: "get_guest_id (shadow_table c) (host_raw ?h) = Some (last_sender_id c)"
    using Some assms by (simp add: get_host_id_def get_guest_id_def paired_iff)
  have reg: "render_buffer_host_id c (last_sender_id c) \<noteq> None \<longleftrightarrow> lifecycle (render_buffers c) ?h \<noteq> None"
    using Some by (simp add: render_buffer_host_id_def contains_lifecycle)
  show ?thesis
  proof (cases "render_buffer_host_id c (last_sender_id c) \<noteq> None \<and>
      (buffer_is_submitted c (last_sender_id c) \<or> refs_contain (collect_references c) (last_sender_id c)) \<and>
      (\<not> buffer_is_released c (last_sender_id c) \<or> has_pending (collect_references c) (last_sender_id c))")
    case True
    then show ?thesis
      unfolding on_buffer_destroy_def Let_def
      by (auto simp: mark_buffer_guest_destroyed_def on_guest_buffer_def with_registry_def
          split: prod.splits option.splits)
  next
    case False
    have "client_to_host_queue (snd (on_buffer_destroy c)) = client_to_host_queue c @ [buffer_destructor ?h]"
      unfolding on_buffer_destroy_def Let_def if_not_P [OF False] using Some by simp
    moreover have "lifecycle (render_buffers c) ?h \<noteq> None \<longrightarrow>
        last_sender_id c \<notin> refs_pending (collect_references c) \<and> \<not> host_reads c ?h"
      using False reg use
      by (auto simp: host_reads_def buffer_is_submitted_def buffer_is_released_def refs_contain_def has_pending_def
          is_awaiting_release_def split: option.splits)
    ultimately show ?thesis
      using guest by blast
  qed
qed

lemma release_event_queue:
  assumes "paired (shadow_table c)"
  shows "client_to_host_queue (snd (on_buffer_release c)) = client_to_host_queue c \<or>
    (\<exists>g. client_to_host_queue (snd (on_buffer_release c)) =
         client_to_host_queue c @ [buffer_destructor (HostId (last_sender_id c))] \<and>
       get_guest_id (shadow_table c) (last_sender_id c) = Some g \<and> g \<notin> refs_pending (collect_references c))"
  by (cases "get_guest_id (shadow_table c) (last_sender_id c)")
    (auto simp: on_buffer_release_def Let_def has_pending_def)

section \<open>Properties\<close>

text \<open>C36: The sweep queues the host destructor of exactly those guest-destroyed buffers that the
  host compositor no longer reads, that no surface is about to attach, and that a surface
  still shows only if the host released them; each once.  It ends their generations, touches
  no other buffer, raises no protocol error, and a second sweep has nothing left to do.\<close>

theorem deferred_buffers_retired_exactly:
  assumes "paired (shadow_table c)" "hm_ok (render_buffers c)"
  shows "\<exists>hs. distinct hs \<and> (\<forall>h. h \<in> set hs \<longleftrightarrow> (\<exists>g. retirable c h g)) \<and>
    client_to_host_queue (retire_eligible_buffers c) = client_to_host_queue c @ map buffer_destructor hs \<and>
    (\<forall>h. lifecycle (render_buffers (retire_eligible_buffers c)) h =
       (if h \<in> set hs
        then if \<exists>g. is_guest_server_id g \<and> get_guest_id (shadow_table c) (host_raw h) = Some g
             then None else Some HostDestroyQueued
        else lifecycle (render_buffers c) h)) \<and>
    fatal_protocol_error (retire_eligible_buffers c) = fatal_protocol_error c \<and>
    (\<forall>h g. \<not> retirable (retire_eligible_buffers c) h g)"
proof -
  let ?cs = "retire_candidates c"
  have guest: "get_guest_id (shadow_table c) (host_raw h) = Some g" "get_host_id (shadow_table c) g = Some (host_raw h)"
      "\<exists>u. lifecycle (render_buffers c) h = Some (GuestDestroyed u)"
    if "(g, h) \<in> set ?cs" for g h
    using that assms(1) by (auto simp: retire_candidates_iff retirable_def get_guest_id_def get_host_id_def paired_iff)
  have snd: "distinct (map snd ?cs)"
    using assms(2) by (rule retire_candidates_distinct)
  have fst: "distinct (map fst ?cs)"
  proof -
    have "inj_on fst (set ?cs)"
    proof (rule inj_onI)
      fix x y assume xy: "x \<in> set ?cs" "y \<in> set ?cs" "fst x = fst y"
      obtain g h where x: "x = (g, h)" by fastforce
      obtain h' where y: "y = (g, h')" using xy(3) x by (cases y) auto
      have "host_raw h = host_raw h'"
        using guest(2) [of g h] guest(2) [of g h'] xy x y by simp
      then show "x = y"
        by (cases h; cases h') (simp add: x y)
    qed
    moreover have "distinct ?cs"
      using snd by (simp add: distinct_map)
    ultimately show ?thesis
      by (simp add: distinct_map)
  qed
  have pre: "\<forall>(g, h)\<in>set ?cs. get_host_id (shadow_table c) g = Some (host_raw h) \<and>
      (\<exists>u. lifecycle (render_buffers c) h = Some (GuestDestroyed u))"
    using guest(2,3) by blast
  have life: "lifecycle (render_buffers (retire_eligible_buffers c)) h =
      (case map_of (map prod.swap ?cs) h of
         Some g \<Rightarrow> if is_guest_server_id g then None else Some HostDestroyQueued
       | None \<Rightarrow> lifecycle (render_buffers c) h)"
    and fatal: "fatal_protocol_error (retire_eligible_buffers c) = fatal_protocol_error c" for h
    using retire_loop_effect [OF fst snd pre] unfolding retire_eligible_buffers_def by blast+
  let ?hs = "map snd ?cs"
  have mem: "h \<in> set ?hs \<longleftrightarrow> (\<exists>g. retirable c h g)" for h
    using retire_candidates_iff [OF assms(1)] by (force simp: image_iff)
  have life': "lifecycle (render_buffers (retire_eligible_buffers c)) h =
       (if h \<in> set ?hs
        then if \<exists>g. is_guest_server_id g \<and> get_guest_id (shadow_table c) (host_raw h) = Some g
             then None else Some HostDestroyQueued
        else lifecycle (render_buffers c) h)" for h
  proof (cases "map_of (map prod.swap ?cs) h")
    case None
    then have "h \<notin> set ?hs"
      by (auto simp: map_of_eq_None_iff image_iff)
    then show ?thesis
      using life [of h] None by simp
  next
    case (Some g)
    then have "(g, h) \<in> set ?cs"
      by (auto dest: map_of_SomeD)
    then show ?thesis
      using life [of h] Some guest(1) by (auto simp: image_iff intro!: bexI [of _ "(g, h)"])
  qed
  have queue: "client_to_host_queue (retire_eligible_buffers c) = client_to_host_queue c @ map buffer_destructor ?hs"
    by (simp add: retire_eligible_buffers_def retire_loop_queue case_prod_unfold comp_def)
  have "\<not> retirable (retire_eligible_buffers c) h g" for h g
  proof
    assume r: "retirable (retire_eligible_buffers c) h g"
    have "h \<notin> set ?hs"
      using r life' [of h] by (auto simp: retirable_def split: if_splits)
    moreover have "retirable c h g"
      using r \<open>h \<notin> set ?hs\<close> life' [of h] retire_loop_guests
      by (auto simp: retirable_def retire_eligible_buffers_def collect_references_def)
    ultimately show False
      using mem by blast
  qed
  then show ?thesis
    using snd mem queue life' fatal by (intro exI [of _ ?hs] conjI allI) simp_all
qed

text \<open>C37: A host buffer destructor is queued only for a buffer that no surface is about to attach and
  that the host compositor does not read any more: when the guest destroys a buffer, when a
  release arrives (then the released buffer is the one destroyed), or in a sweep.\<close>

theorem host_buffer_destroyed_only_when_idle:
  assumes "paired (shadow_table c)" "hm_ok (render_buffers c)"
  shows "\<exists>hs. distinct hs \<and>
    client_to_host_queue (buffer_event_step e c) = client_to_host_queue c @ map buffer_destructor hs \<and>
    (\<forall>h\<in>set hs. \<exists>g. get_guest_id (shadow_table c) (host_raw h) = Some g \<and>
       (lifecycle (render_buffers c) h \<noteq> None \<longrightarrow> g \<notin> refs_pending (collect_references c) \<and>
          (host_reads c h \<longrightarrow> e = BufferRelease \<and> host_raw h = last_sender_id c)))"
proof (cases e)
  case BufferDestroy
  then show ?thesis
    using destroy_request_queue [OF assms(1)]
  proof (elim disjE exE conjE)
    fix h assume "client_to_host_queue (snd (on_buffer_destroy c)) = client_to_host_queue c @ [buffer_destructor h]"
      "get_guest_id (shadow_table c) (host_raw h) = Some (last_sender_id c)"
      "lifecycle (render_buffers c) h \<noteq> None \<longrightarrow>
          last_sender_id c \<notin> refs_pending (collect_references c) \<and> \<not> host_reads c h"
    then show ?thesis
      using BufferDestroy by (intro exI [of _ "[h]"]) (simp add: buffer_event_step_def)
  qed (simp add: buffer_event_step_def)
next
  case BufferRelease
  then show ?thesis
    using release_event_queue [OF assms(1)]
  proof (elim disjE exE conjE)
    fix g assume "client_to_host_queue (snd (on_buffer_release c)) =
         client_to_host_queue c @ [buffer_destructor (HostId (last_sender_id c))]"
      "get_guest_id (shadow_table c) (last_sender_id c) = Some g" "g \<notin> refs_pending (collect_references c)"
    then show ?thesis
      using BufferRelease by (intro exI [of _ "[HostId (last_sender_id c)]"]) (simp add: buffer_event_step_def)
  qed (simp add: buffer_event_step_def)
next
  case BufferSweep
  have snd: "distinct (map snd (retire_candidates c))"
    using assms(2) by (rule retire_candidates_distinct)
  have "\<exists>g. get_guest_id (shadow_table c) (host_raw h) = Some g \<and> g \<notin> refs_pending (collect_references c) \<and>
      \<not> host_reads c h" if "h \<in> set (map snd (retire_candidates c))" for h
    using that by (auto simp: retire_candidates_iff [OF assms(1)] retirable_def host_reads_def use_state_of_def)
  then show ?thesis
    using snd BufferSweep by (intro exI [of _ "map snd (retire_candidates c)"])
      (fastforce simp: buffer_event_step_def retire_eligible_buffers_def retire_loop_queue case_prod_unfold comp_def)
qed

text \<open>The release of a buffer whose guest object is already gone completes its destruction: the
  destructor is queued, the generation ends, and no surface refers to the buffer any more.\<close>

theorem release_completes_deferred_destroy:
  assumes "paired (shadow_table c)" "get_guest_id (shadow_table c) (last_sender_id c) = Some g"
    and "lifecycle (render_buffers c) (HostId (last_sender_id c)) = Some (GuestDestroyed u)"
    and "g \<notin> refs_pending (collect_references c)"
  shows "case on_buffer_release c of (action, c') \<Rightarrow> action = Drop \<and>
    client_to_host_queue c' = client_to_host_queue c @ [buffer_destructor (HostId (last_sender_id c))] \<and>
    lifecycle (render_buffers c') (HostId (last_sender_id c)) =
      (if is_guest_server_id g then None else Some HostDestroyQueued) \<and>
    fatal_protocol_error c' = fatal_protocol_error c \<and>
    g \<notin> refs_current (collect_references c') \<and> g \<notin> refs_pending (collect_references c')"
proof -
  let ?h = "HostId (last_sender_id c)" and ?c1 = "record_host_buffer_release g c"
  let ?c2 = "?c1\<lparr>client_to_host_queue := client_to_host_queue c @ [buffer_destructor ?h]\<rparr>"
  have g: "get_host_id (shadow_table c) g = Some (host_raw ?h)"
    using assms(1,2) by (simp add: get_guest_id_def get_host_id_def paired_iff)
  obtain u' where u': "lifecycle (render_buffers ?c1) ?h = Some (GuestDestroyed u')"
    using record_release_lifecycle [OF g assms(3)] by blast
  obtain c' where c': "retire_destroyed_buffer_mapping g ?h ?c2 = c'"
    "lifecycle (render_buffers c') ?h = (if is_guest_server_id g then None else Some HostDestroyQueued)"
    "fatal_protocol_error c' = fatal_protocol_error ?c2"
    using complete_destroyed [of ?c2 g ?h "GuestDestroyed u'"] g u' by auto
  have "host_buffer_is_guest_destroyed c (last_sender_id c)"
    using assms(3) by (simp add: host_buffer_is_guest_destroyed_def is_guest_destroyed_def)
  then have "on_buffer_release c = (Drop, clear_surface_buffer_references g c')"
    using assms(2,4) c'(1) by (simp add: on_buffer_release_def Let_def has_pending_def)
  moreover have "client_to_host_queue c' = client_to_host_queue ?c2"
    using retire_mapping_frame(1) [of g ?h ?c2] c'(1) by simp
  ultimately show ?thesis
    using c' clear_references_collect [of g c'] by simp
qed

section \<open>Witnesses\<close>

text \<open>Guest buffer 5 is host buffer 9, destroyed by the guest while it was on screen.\<close>

definition demo_buffers :: "render_buffer_use \<Rightarrow> ctx" where
  "demo_buffers u = context_empty\<lparr>last_sender_id := 9, shadow_table := map_id 5 9 shadow_table_new,
     render_buffers := [(HostId 9, RbGuestDestroyed \<lparr>arb_backing = Native (4, 4) [],
       arb_use_state = u, arb_implicit_sync_fallback = False\<rparr>)]\<rparr>"

lemma demo_buffers_facts:
  "paired (shadow_table (demo_buffers u))" "hm_ok (render_buffers (demo_buffers u))"
  "get_guest_id (shadow_table (demo_buffers u)) 9 = Some 5" "last_sender_id (demo_buffers u) = 9"
  "lifecycle (render_buffers (demo_buffers u)) (HostId 9) = Some (GuestDestroyed u)"
  "refs_pending (collect_references (demo_buffers u)) = {}" "client_to_host_queue (demo_buffers u) = []"
  "\<not> is_guest_server_id 5"
  using paired_map_id [OF paired_new, of 5 9]
  by (simp_all add: demo_buffers_def hm_ok_def get_guest_id_def map_id_def
      shadow_table_new_def lifecycle_def hm_get_def lifecycle_of_def collect_references_def
      context_new_def List.map_filter_simps is_guest_server_id_def GUEST_SERVER_ID_START_def)

theorem deferred_buffers_retired_exactly_witness:
  "lifecycle (render_buffers (retire_eligible_buffers (demo_buffers Released))) (HostId 9) = Some HostDestroyQueued"
proof -
  have "retirable (demo_buffers Released) (HostId 9) 5"
    by (simp add: retirable_def demo_buffers_facts is_awaiting_release_def)
  then show ?thesis
    using deferred_buffers_retired_exactly [OF demo_buffers_facts(1,2), of Released] demo_buffers_facts(3,8)
    by (elim exE conjE) auto
qed

theorem host_buffer_destroyed_only_when_idle_witness:
  "\<exists>hs. client_to_host_queue (buffer_event_step BufferSweep (demo_buffers use_awaiting)) = map buffer_destructor hs \<and>
     (\<forall>h\<in>set hs. lifecycle (render_buffers (demo_buffers use_awaiting)) h \<noteq> None \<longrightarrow> \<not> host_reads (demo_buffers use_awaiting) h)"
  using host_buffer_destroyed_only_when_idle [OF demo_buffers_facts(1,2), of BufferSweep use_awaiting]
  by (elim exE conjE, intro exI conjI) (auto simp: demo_buffers_facts)

theorem release_completes_deferred_destroy_witness:
  "lifecycle (render_buffers (snd (on_buffer_release (demo_buffers use_awaiting)))) (HostId 9) = Some HostDestroyQueued"
proof -
  have "get_guest_id (shadow_table (demo_buffers use_awaiting)) (last_sender_id (demo_buffers use_awaiting)) = Some 5"
    "lifecycle (render_buffers (demo_buffers use_awaiting)) (HostId (last_sender_id (demo_buffers use_awaiting))) =
       Some (GuestDestroyed use_awaiting)" "5 \<notin> refs_pending (collect_references (demo_buffers use_awaiting))"
    by (simp_all add: demo_buffers_facts)
  from release_completes_deferred_destroy [OF demo_buffers_facts(1) this] show ?thesis
    by (simp add: demo_buffers_facts case_prod_unfold)
qed

end
