(* ===== verification/Text_Input_Focus.thy ===== *)
theory Text_Input_Focus
  imports Display_Handler Key_Generation
begin

text \<open>
  The shared machinery of \<^verbatim>\<open>sommelier/src/handler/text_input.rs\<close>: queuing a text-input
  message, the activation of the host object behind a guest text input with its drain
  barriers, the projection of keyboard focus onto the text inputs, and the end of the
  held-Backspace fallback.  A function that can panic (an exhausted ID space, a failed
  \<open>debug_assert\<close>) returns \<open>None\<close> there.
\<close>

section \<open>Queuing\<close>

definition push_msg ::
    "packet list \<Rightarrow> u32 \<Rightarrow> u16 \<Rightarrow> message_builder \<Rightarrow> bool \<times> packet list" where
  "push_msg queue sender opcode builder =
     (case try_build_message builder sender opcode of
        Inr message \<Rightarrow> (True, queue @ [(message, [])])
      | Inl _ \<Rightarrow> (False, queue))"

definition push_done_to :: "packet list \<Rightarrow> u32 \<Rightarrow> u32 \<Rightarrow> bool \<times> packet list" where
  "push_done_to queue guest serial = push_msg queue guest 5 (write_u32 serial message_builder_new)"

definition push_done :: "u32 \<Rightarrow> u32 \<Rightarrow> 'h ctx_scheme \<Rightarrow> 'h ctx_scheme" where
  "push_done guest serial c =
     c\<lparr>host_to_client_queue := snd (push_done_to (host_to_client_queue c) guest serial)\<rparr>"

text \<open>
  A transaction: messages pushed one after the other onto a local queue, which is given up
  (\<open>None\<close>) as soon as one of them cannot be encoded.
\<close>

type_synonym request = "u32 \<times> u16 \<times> message_builder"

primrec push_all :: "request list \<Rightarrow> packet list \<Rightarrow> packet list option" where
  "push_all [] queue = Some queue"
| "push_all (m # ms) queue =
     (case m of (sender, opcode, builder) \<Rightarrow>
        (case push_msg queue sender opcode builder of
           (ok, queue') \<Rightarrow> if ok then push_all ms queue' else None))"

definition transaction :: "request list \<Rightarrow> packet list option" where
  "transaction ms = push_all ms []"

definition put_text_input :: "u32 \<Rightarrow> text_input_state \<Rightarrow> 'h ctx_scheme \<Rightarrow> 'h ctx_scheme" where
  "put_text_input guest s c = c\<lparr>text_inputs := hm_insert guest s (text_inputs c)\<rparr>"

text \<open>\<open>if let Some(state) = ctx.text_inputs.get_mut(&guest) { f(state) }\<close>\<close>

definition modify_text_input ::
    "u32 \<Rightarrow> (text_input_state \<Rightarrow> text_input_state) \<Rightarrow> 'h ctx_scheme \<Rightarrow> 'h ctx_scheme" where
  "modify_text_input guest f c =
     (case hm_get (text_inputs c) guest of
        Some s \<Rightarrow> put_text_input guest (f s) c
      | None \<Rightarrow> c)"

definition active_guest_for_host_text_input :: "'h ctx_scheme \<Rightarrow> u32 \<Rightarrow> u32 option" where
  "active_guest_for_host_text_input c host =
     (case get_guest_id (shadow_table c) host of
        None \<Rightarrow> None
      | Some guest \<Rightarrow>
          (case hm_get (text_inputs c) guest of
             Some s \<Rightarrow> if host_is_active s then Some guest else None
           | None \<Rightarrow> None))"

definition v3_is_focused :: "'h ctx_scheme \<Rightarrow> u32 \<Rightarrow> bool" where
  "v3_is_focused c guest =
     (case hm_get (text_inputs c) guest of
        Some s \<Rightarrow> active_surface s \<noteq> None
      | None \<Rightarrow> False)"

section \<open>The keyboards of a seat\<close>

definition EVDEV_KEY_BACKSPACE :: u32 where "EVDEV_KEY_BACKSPACE = 14"

text \<open>The keyboards of a seat that have a host object, in the order of the map.\<close>

definition seat_keyboards :: "'h ctx_scheme \<Rightarrow> u32 \<Rightarrow> (u32 \<times> host_id) list" where
  "seat_keyboards c seat =
     List.map_filter (\<lambda>(kb, _). map_option (Pair kb) (host_id_of (shadow_table c) (GuestId kb)))
       (filter (\<lambda>(_, s). s = seat) (keyboard_to_seat c))"

definition end_backspace_repeat_for_seat :: "u32 \<Rightarrow> 'h ctx_scheme \<Rightarrow> 'h ctx_scheme" where
  "end_backspace_repeat_for_seat seat c =
     c\<lparr>key_generations := fold (\<lambda>(_, kb) r.
         if ime_repeat_active r kb EVDEV_KEY_BACKSPACE
         then cancel_backspace_repeat kb EVDEV_KEY_BACKSPACE r else r)
       (seat_keyboards c seat) (key_generations c)\<rparr>"

definition end_backspace_repeat_for_text_input :: "u32 \<Rightarrow> u32 \<Rightarrow> 'h ctx_scheme \<Rightarrow> 'h ctx_scheme" where
  "end_backspace_repeat_for_text_input seat guest_text_input c =
     c\<lparr>key_generations := fold (\<lambda>(_, kb) r.
         snd (cancel_backspace_repeat_for_owner kb EVDEV_KEY_BACKSPACE guest_text_input r))
       (seat_keyboards c seat) (key_generations c)\<rparr>"

section \<open>Activation of the host object\<close>

definition queue_host_deactivation_barrier ::
    "u32 \<Rightarrow> u32 \<Rightarrow> u32 \<Rightarrow> 'h ctx_scheme \<Rightarrow> (bool \<times> 'h ctx_scheme) option" where
  "queue_host_deactivation_barrier guest v1 seat c =
     (case allocate_host_id (shadow_table c) of
        (None, _) \<Rightarrow> None
      | (Some callback, t) \<Rightarrow>
          let c1 = c\<lparr>shadow_table := t\<rparr>;
              fatal = (\<lambda>d. Some (False, d\<lparr>fatal_protocol_error := True\<rparr>))
          in case try_build_message (write_u32 seat message_builder_new) v1 1 of
               Inl _ \<Rightarrow> fatal c1
             | Inr deactivate \<Rightarrow>
          (case try_build_message (write_u32 callback message_builder_new) 1 REQ_SYNC of
               Inl _ \<Rightarrow> fatal c1
             | Inr sync \<Rightarrow>
                let c2 = c1\<lparr>shadow_table :=
                      track_host_interface_with_version callback ''wl_callback'' 1 t\<rparr>;
                    untracked = (\<lambda>d. d\<lparr>shadow_table := remove_host_interface callback (shadow_table d)\<rparr>);
                    withdrawn = (\<lambda>d. untracked (d\<lparr>text_input_activation_barriers :=
                      snd (barrier_complete (HostId callback) (text_input_activation_barriers d))\<rparr>))
                in (case barrier_install (HostId callback) guest v1 (text_input_activation_barriers c2) of
                      (installed, b) \<Rightarrow>
                        if \<not> installed then fatal (untracked c2)
                        else
                          let c3 = c2\<lparr>text_input_activation_barriers := b\<rparr>
                          in case hm_get (text_inputs c3) guest of
                               None \<Rightarrow> Some (False, withdrawn c3)
                             | Some s \<Rightarrow>
                                 (case begin_host_draining (HostId callback) s of
                                    (started, s') \<Rightarrow>
                                      if \<not> started then fatal (withdrawn c3)
                                      else Some (True,
                                        put_text_input guest s' (c3\<lparr>client_to_host_queue :=
                                          client_to_host_queue c3 @ [(deactivate, []), (sync, [])]\<rparr>))))))"

text \<open>The wanted activation of a text input: its committed state and a surface the host knows.\<close>

definition host_surface_of :: "shadow_table \<Rightarrow> text_input_state \<Rightarrow> u32 option" where
  "host_surface_of t s = Option.bind (active_surface s) (get_host_id t)"

definition target_activated :: "shadow_table \<Rightarrow> text_input_state \<Rightarrow> bool" where
  "target_activated t s \<longleftrightarrow> committed_enabled s \<and> host_surface_of t s \<noteq> None"

definition update_host_activation :: "u32 \<Rightarrow> 'h ctx_scheme \<Rightarrow> 'h ctx_scheme option" where
  "update_host_activation guest c =
     (case hm_get (text_inputs c) guest of
        None \<Rightarrow> Some c
      | Some s \<Rightarrow>
          let t = shadow_table c;
              target = target_activated t s;
              without_barrier = put_text_input guest (snd (deactivate_host_without_barrier s)) c
          in if \<not> (target \<and> host_activation s = Inactive \<or> \<not> target \<and> host_activation s = Active)
             then Some c
             else if is_pending_destroy_guest t (guest_seat s) then Some without_barrier
             else case get_host_id t (guest_seat s) of
               None \<Rightarrow> Some (if target then c else without_barrier)
             | Some host_seat \<Rightarrow>
                 if target then
                   let surface = (case host_surface_of t s of Some x \<Rightarrow> x | None \<Rightarrow> 0)
                   in case push_msg (client_to_host_queue c) (host_v1_id s) 0
                          (write_u32 surface (write_u32 host_seat message_builder_new)) of
                        (False, _) \<Rightarrow> Some c
                      | (True, q) \<Rightarrow>
                          (case activate_host s of
                             (activated, s') \<Rightarrow>
                               if activated
                               then Some (put_text_input guest s' (c\<lparr>client_to_host_queue := q\<rparr>))
                               else None)
                 else map_option snd
                        (queue_host_deactivation_barrier guest (host_v1_id s) host_seat c))"

definition complete_host_activation_barrier ::
    "host_id \<Rightarrow> 'h ctx_scheme \<Rightarrow> (bool \<times> 'h ctx_scheme) option" where
  "complete_host_activation_barrier callback c =
     (case barrier_complete callback (text_input_activation_barriers c) of
        (None, _) \<Rightarrow> Some (False, c)
      | (Some (guest, v1), b) \<Rightarrow>
          let c1 = c\<lparr>text_input_activation_barriers := b,
                     shadow_table := snd (mark_pending_destroy_host (host_raw callback) (shadow_table c))\<rparr>
          in case hm_get (text_inputs c1) guest of
               None \<Rightarrow> Some (True, c1)
             | Some s \<Rightarrow>
                 if host_v1_id s \<noteq> v1 then Some (True, c1)
                 else
                   (case complete_host_draining callback s of
                      (completed, s') \<Rightarrow>
                        if completed
                        then map_option (Pair True) (update_host_activation guest (put_text_input guest s' c1))
                        else Some (True, c1)))"

section \<open>Focus\<close>

text \<open>The \<open>leave\<close> (opcode 1) or \<open>enter\<close> (opcode 0) event of a surface, if there is one.\<close>

definition focus_event :: "u32 \<Rightarrow> u16 \<Rightarrow> u32 option \<Rightarrow> packet list option" where
  "focus_event guest opcode surface =
     (case surface of
        None \<Rightarrow> Some []
      | Some x \<Rightarrow>
          map_option (\<lambda>m. [(m, [])]) (build_message (write_u32 x message_builder_new) guest opcode))"

definition focus_events :: "u32 \<Rightarrow> u32 option \<Rightarrow> u32 option \<Rightarrow> packet list option" where
  "focus_events guest old surface =
     (if old = surface then Some []
      else Option.bind (focus_event guest 1 old)
             (\<lambda>l. map_option ((@) l) (focus_event guest 0 surface)))"

text \<open>The first loop: the new focus of every text input, and the events it causes.\<close>

fun apply_focus_targets ::
    "(u32 \<times> u32 option) list \<Rightarrow> 'h ctx_scheme \<Rightarrow> (packet list \<times> u32 list \<times> 'h ctx_scheme) option" where
  "apply_focus_targets [] c = Some ([], [], c)"
| "apply_focus_targets ((guest, surface) # updates) c =
     (case hm_get (text_inputs c) guest of
        None \<Rightarrow> apply_focus_targets updates c
      | Some s \<Rightarrow>
          (case apply_focus surface s of
             (old, s') \<Rightarrow>
               (case focus_events guest old surface of
                  None \<Rightarrow> None
                | Some events \<Rightarrow>
                    map_option (\<lambda>(es, ids, d). (events @ es, guest # ids, d))
                      (apply_focus_targets updates (put_text_input guest s' c)))))"

primrec try_each :: "('a \<Rightarrow> 's \<Rightarrow> 's option) \<Rightarrow> 'a list \<Rightarrow> 's \<Rightarrow> 's option" where
  "try_each f [] s = Some s"
| "try_each f (x # xs) s = (case f x s of None \<Rightarrow> None | Some s' \<Rightarrow> try_each f xs s')"

definition apply_text_input_focus_updates ::
    "(u32 \<times> u32 option) list \<Rightarrow> 'h ctx_scheme \<Rightarrow> 'h ctx_scheme option" where
  "apply_text_input_focus_updates updates c =
     (case apply_focus_targets updates c of
        None \<Rightarrow> None
      | Some (events, ids, d) \<Rightarrow>
          try_each update_host_activation ids
            (d\<lparr>host_to_client_queue := host_to_client_queue d @ events\<rparr>))"

definition apply_keyboard_focus_change :: "seat_focus_change \<Rightarrow> 'h ctx_scheme \<Rightarrow> 'h ctx_scheme option" where
  "apply_keyboard_focus_change change c =
     (if sf_previous_surface change = sf_current_surface change then Some c
      else
        let seat = sf_guest_seat change;
            c1 = c\<lparr>key_generations := clear_peek_watermarks_for_seat seat (key_generations c)\<rparr>;
            c2 = end_backspace_repeat_for_seat seat c1
        in apply_text_input_focus_updates
             (map (\<lambda>(guest, _). (guest, sf_current_surface change))
                (filter (\<lambda>(_, s). guest_seat s = seat) (text_inputs c2))) c2)"

definition apply_keyboard_focus_changes ::
    "seat_focus_change list \<Rightarrow> 'h ctx_scheme \<Rightarrow> 'h ctx_scheme option" where
  "apply_keyboard_focus_changes changes c = try_each apply_keyboard_focus_change changes c"

definition repair_destroyed_surface_focus :: "u32 \<Rightarrow> 'h ctx_scheme \<Rightarrow> 'h ctx_scheme option" where
  "repair_destroyed_surface_focus destroyed c =
     apply_text_input_focus_updates
       (map (\<lambda>(guest, s). (guest, surface_for_seat (kb_focus c) (guest_seat s)))
          (filter (\<lambda>(_, s). active_surface s = Some destroyed) (text_inputs c))) c"

section \<open>Encoding\<close>

definition packet_of :: "request \<Rightarrow> packet" where
  "packet_of m =
     (case m of (sender, opcode, builder) \<Rightarrow>
        (case try_build_message builder sender opcode of Inr msg \<Rightarrow> (msg, []) | Inl _ \<Rightarrow> ([], [])))"

definition encodes :: "request \<Rightarrow> bool" where
  "encodes m =
     (case m of (sender, opcode, builder) \<Rightarrow>
        (case try_build_message builder sender opcode of Inr _ \<Rightarrow> True | Inl _ \<Rightarrow> False))"

lemma push_msg_eq:
  "push_msg q s op b =
     (if encodes (s, op, b) then (True, q @ [packet_of (s, op, b)]) else (False, q))"
  by (simp add: push_msg_def encodes_def packet_of_def split: sum.splits)

lemma push_all_eq: "push_all ms q = (if list_all encodes ms then Some (q @ map packet_of ms) else None)"
  by (induction ms arbitrary: q) (auto simp: push_msg_eq)

lemma transaction_eq:
  "transaction ms = (if list_all encodes ms then Some (map packet_of ms) else None)"
  by (simp add: transaction_def push_all_eq)

lemma encodes_small: "length (mb_payload b) + 8 \<le> 0xFFFF \<Longrightarrow> 4 dvd length (mb_payload b) \<Longrightarrow> encodes (s, op, b)"
  by (simp add: encodes_def try_build_message_ok)

lemma payload_write_u32 [simp]: "mb_payload (write_u32 v b) = mb_payload b @ u32_to_ne_bytes v"
  by (simp add: write_u32_def)

lemma payload_new [simp]: "mb_payload message_builder_new = []"
  by (simp add: message_builder_new_def)

lemma encodes_words [simp]:
  "encodes (s, op, message_builder_new)"
  "encodes (s, op, write_u32 a message_builder_new)"
  "encodes (s, op, write_u32 b (write_u32 a message_builder_new))"
  "encodes (s, op, write_u32 d (write_u32 e (write_u32 b (write_u32 a message_builder_new))))"
  by (rule encodes_small; simp)+

lemma built:
  "encodes (s, op, b) \<Longrightarrow> try_build_message b s op = Inr (fst (packet_of (s, op, b)))"
  "encodes (s, op, b) \<Longrightarrow> build_message b s op = Some (fst (packet_of (s, op, b)))"
  "snd (packet_of m) = []"
  by (auto simp: encodes_def packet_of_def build_message_def split: sum.splits prod.splits)

section \<open>The state of the bridge\<close>

text \<open>
  What every handler keeps: a text input that drains has its barrier, whose callback is a live
  host object; so are the extension objects, which are not shared and no callbacks.
\<close>

definition barriers_ok :: "'h ctx_scheme \<Rightarrow> bool" where
  "barriers_ok c \<longleftrightarrow>
     hm_ok (text_inputs c) \<and>
     (\<forall>g s callback. hm_get (text_inputs c) g = Some s \<and> host_activation s = Draining callback \<longrightarrow>
        text_input_activation_barriers c callback = Some (g, host_v1_id s)) \<and>
     (\<forall>callback. text_input_activation_barriers c callback \<noteq> None \<longrightarrow>
        host_interfaces (shadow_table c) (host_raw callback) \<noteq> None)"

definition extensions_ok :: "'h ctx_scheme \<Rightarrow> bool" where
  "extensions_ok c \<longleftrightarrow>
     (\<forall>g s e. hm_get (text_inputs c) g = Some s \<and> host_ext_id s = Some e \<longrightarrow>
        host_interfaces (shadow_table c) e \<noteq> None \<and>
        text_input_activation_barriers c (HostId e) = None) \<and>
     (\<forall>g1 s1 g2 s2 e. hm_get (text_inputs c) g1 = Some s1 \<and> hm_get (text_inputs c) g2 = Some s2 \<and>
        host_ext_id s1 = Some e \<and> host_ext_id s2 = Some e \<longrightarrow> g1 = g2)"

text \<open>At most one text input of a seat is enabled.\<close>

definition seats_exclusive :: "'h ctx_scheme \<Rightarrow> bool" where
  "seats_exclusive c \<longleftrightarrow>
     (\<forall>g1 s1 g2 s2. hm_get (text_inputs c) g1 = Some s1 \<and> hm_get (text_inputs c) g2 = Some s2 \<and>
        guest_seat s1 = guest_seat s2 \<and> committed_enabled s1 \<and> committed_enabled s2 \<longrightarrow> g1 = g2)"

text \<open>Outside \<open>G\<close>, the text inputs whose activation is still to be reconciled, only enabled ones are active.\<close>

definition active_enabled :: "u32 set \<Rightarrow> 'h ctx_scheme \<Rightarrow> bool" where
  "active_enabled G c \<longleftrightarrow>
     (\<forall>g s. g \<notin> G \<and> hm_get (text_inputs c) g = Some s \<and> host_activation s = Active \<longrightarrow>
        committed_enabled s)"

definition bridge_ok :: "u32 set \<Rightarrow> 'h ctx_scheme \<Rightarrow> bool" where
  "bridge_ok G c \<longleftrightarrow> barriers_ok c \<and> extensions_ok c \<and> seats_exclusive c \<and> active_enabled G c"

lemma get_put_text_input [simp]:
  "hm_get (text_inputs (put_text_input g s c)) = (hm_get (text_inputs c))(g \<mapsto> s)"
  by (simp add: put_text_input_def)

lemma put_text_input_frame [simp]:
  "shadow_table (put_text_input g s c) = shadow_table c"
  "text_input_activation_barriers (put_text_input g s c) = text_input_activation_barriers c"
  "client_to_host_queue (put_text_input g s c) = client_to_host_queue c"
  "host_to_client_queue (put_text_input g s c) = host_to_client_queue c"
  "key_generations (put_text_input g s c) = key_generations c"
  "keyboard_to_seat (put_text_input g s c) = keyboard_to_seat c"
  "kb_focus (put_text_input g s c) = kb_focus c"
  "fatal_protocol_error (put_text_input g s c) = fatal_protocol_error c"
  by (auto simp: put_text_input_def)

lemma hm_ok_put_text_input: "hm_ok (text_inputs c) \<Longrightarrow> hm_ok (text_inputs (put_text_input g s c))"
  by (simp add: put_text_input_def hm.ok_put)

text \<open>Only these parts of a context matter to the invariant.\<close>

lemma bridge_ok_cong:
  "text_inputs c' = text_inputs c \<Longrightarrow>
   text_input_activation_barriers c' = text_input_activation_barriers c \<Longrightarrow>
   host_interfaces (shadow_table c') = host_interfaces (shadow_table c) \<Longrightarrow>
   bridge_ok G c' = bridge_ok G c"
  by (simp add: bridge_ok_def barriers_ok_def extensions_ok_def seats_exclusive_def active_enabled_def)

lemma bridge_okD:
  assumes "bridge_ok G c" and "hm_get (text_inputs c) g = Some s"
  shows "host_activation s = Draining callback \<Longrightarrow>
      text_input_activation_barriers c callback = Some (g, host_v1_id s)"
    and "g \<notin> G \<Longrightarrow> host_activation s = Active \<Longrightarrow> committed_enabled s"
    and "host_ext_id s = Some e \<Longrightarrow> host_interfaces (shadow_table c) e \<noteq> None \<and>
      text_input_activation_barriers c (HostId e) = None"
  using assms by (auto simp: bridge_ok_def barriers_ok_def extensions_ok_def active_enabled_def)

text \<open>
  Replacing the state of one text input: what has to be known of the new state.  \<open>g\<close> may leave
  or enter the set that is still to be reconciled.
\<close>

lemma bridge_ok_put:
  assumes ok: "bridge_ok G c" and old: "hm_get (text_inputs c) g = Some s"
    and ids: "host_ext_id s' = host_ext_id s" "guest_seat s' = guest_seat s"
    and enabled: "committed_enabled s' \<Longrightarrow> committed_enabled s \<or>
      (\<forall>g2 s2. g2 \<noteq> g \<longrightarrow> hm_get (text_inputs c) g2 = Some s2 \<longrightarrow> guest_seat s2 = guest_seat s \<longrightarrow>
         \<not> committed_enabled s2)"
    and drain: "\<And>callback. host_activation s' = Draining callback \<Longrightarrow>
      text_input_activation_barriers c callback = Some (g, host_v1_id s')"
    and act: "g \<in> G' \<or> (host_activation s' = Active \<longrightarrow> committed_enabled s')" and G: "G \<subseteq> insert g G'"
  shows "bridge_ok G' (put_text_input g s' c)"
  unfolding bridge_ok_def
proof (intro conjI)
  show "barriers_ok (put_text_input g s' c)"
    using ok drain unfolding bridge_ok_def barriers_ok_def by (auto simp: hm_ok_put_text_input)
  show "extensions_ok (put_text_input g s' c)"
    using ok old ids(1) unfolding bridge_ok_def extensions_ok_def by (auto split: if_splits)
  have ex: "seats_exclusive c"
    using ok by (simp add: bridge_ok_def)
  have one: False if "committed_enabled s'" "g2 \<noteq> g" "hm_get (text_inputs c) g2 = Some s2"
    "guest_seat s2 = guest_seat s'" "committed_enabled s2" for g2 s2
    using enabled [OF that(1)]
  proof
    assume "committed_enabled s"
    with ex old that ids(2) show False
      unfolding seats_exclusive_def by metis
  qed (use that ids(2) in auto)
  show "seats_exclusive (put_text_input g s' c)"
    unfolding seats_exclusive_def
  proof (intro allI impI, elim conjE)
    fix g1 s1 g2 s2
    assume *: "hm_get (text_inputs (put_text_input g s' c)) g1 = Some s1"
      "hm_get (text_inputs (put_text_input g s' c)) g2 = Some s2"
      "guest_seat s1 = guest_seat s2" "committed_enabled s1" "committed_enabled s2"
    show "g1 = g2"
    proof (cases "g1 = g \<or> g2 = g")
      case True
      with * one [of g1 s1] one [of g2 s2] show ?thesis
        by (cases "g1 = g"; cases "g2 = g") auto
    next
      case False
      with * ex show ?thesis
        unfolding seats_exclusive_def by auto
    qed
  qed
  show "active_enabled G' (put_text_input g s' c)"
    using ok act G unfolding bridge_ok_def active_enabled_def by (auto split: if_splits)
qed

section \<open>Reconciling the activation\<close>

lemma allocated:
  assumes "allocate_host_id t = (Some i, t')"
  shows "is_host_id_available t i" and "\<exists>n. t' = t\<lparr>next_host_id := n\<rparr>"
  using allocate_host_id_fresh [of t i] allocate_host_id_frame [of t] assms by auto

lemma fresh_callback:
  assumes ok: "bridge_ok G c" and a: "allocate_host_id (shadow_table c) = (Some callback, t)"
  shows "text_input_activation_barriers c (HostId callback) = None"
    and "host_interfaces t = host_interfaces (shadow_table c)"
    and "\<And>g s. hm_get (text_inputs c) g = Some s \<Longrightarrow> host_ext_id s \<noteq> Some callback"
proof -
  have free: "host_interfaces (shadow_table c) callback = None"
    using allocated(1) [OF a] by (simp add: is_host_id_available_def)
  with ok show "text_input_activation_barriers c (HostId callback) = None"
    unfolding bridge_ok_def barriers_ok_def by (metis host_id.sel)
  show "host_interfaces t = host_interfaces (shadow_table c)"
    using allocated(2) [OF a] by auto
  show "\<And>g s. hm_get (text_inputs c) g = Some s \<Longrightarrow> host_ext_id s \<noteq> Some callback"
    using bridge_okD(3) [OF ok] free by metis
qed

definition activate_request :: "u32 \<Rightarrow> u32 \<Rightarrow> u32 \<Rightarrow> request" where
  "activate_request v1 seat surface = (v1, 0, write_u32 surface (write_u32 seat message_builder_new))"

definition deactivate_request :: "u32 \<Rightarrow> u32 \<Rightarrow> request" where
  "deactivate_request v1 seat = (v1, 1, write_u32 seat message_builder_new)"

definition sync_request :: "u32 \<Rightarrow> request" where
  "sync_request callback = (1, REQ_SYNC, write_u32 callback message_builder_new)"

definition queue_to_host_stream :: "request list \<Rightarrow> 'h ctx_scheme \<Rightarrow> 'h ctx_scheme" where
  "queue_to_host_stream ms c = c\<lparr>client_to_host_queue := client_to_host_queue c @ map packet_of ms\<rparr>"

text \<open>The successful barrier: \<open>deactivate\<close>, then \<open>sync\<close>, and the text input drains.\<close>

definition drain_text_input ::
    "u32 \<Rightarrow> text_input_state \<Rightarrow> u32 \<Rightarrow> u32 \<Rightarrow> shadow_table \<Rightarrow> 'h ctx_scheme \<Rightarrow> 'h ctx_scheme" where
  "drain_text_input g s seat callback t c =
     put_text_input g (s\<lparr>host_activation := Draining (HostId callback)\<rparr>)
       (queue_to_host_stream [deactivate_request (host_v1_id s) seat, sync_request callback]
         (c\<lparr>shadow_table := track_host_interface_with_version callback ''wl_callback'' 1 t,
            text_input_activation_barriers :=
              (text_input_activation_barriers c)(HostId callback \<mapsto> (g, host_v1_id s))\<rparr>))"

lemma packet_pair: "(fst (packet_of m), []) = packet_of m"
  using built(3) [of m] by (metis prod.collapse)

lemma deactivation_barrier:
  assumes ok: "bridge_ok G c" and s: "hm_get (text_inputs c) g = Some s" and active: "host_activation s = Active"
    and a: "allocate_host_id (shadow_table c) = (Some callback, t)"
  shows "queue_host_deactivation_barrier g (host_v1_id s) seat c =
    Some (True, drain_text_input g s seat callback t c)"
  using fresh_callback(1) [OF ok a] s active
  by (simp add: queue_host_deactivation_barrier_def a built(1) barrier_install_def begin_host_draining_def
      drain_text_input_def deactivate_request_def sync_request_def queue_to_host_stream_def packet_pair
      put_text_input_def)

lemma deactivation_barrier_exhausted:
  "allocate_host_id (shadow_table c) = (None, t) \<Longrightarrow> queue_host_deactivation_barrier g v1 seat c = None"
  by (simp add: queue_host_deactivation_barrier_def)

definition activate_text_input :: "u32 \<Rightarrow> text_input_state \<Rightarrow> u32 \<Rightarrow> u32 \<Rightarrow> 'h ctx_scheme \<Rightarrow> 'h ctx_scheme" where
  "activate_text_input g s seat surface c =
     put_text_input g (s\<lparr>host_activation := Active\<rparr>)
       (queue_to_host_stream [activate_request (host_v1_id s) seat surface] c)"

text \<open>The reconciliation by cases: what the source does once its failures are excluded.\<close>

definition seat_usable :: "shadow_table \<Rightarrow> u32 \<Rightarrow> bool" where
  "seat_usable t seat \<longleftrightarrow> \<not> is_pending_destroy_guest t seat \<and> get_host_id t seat \<noteq> None"

definition reconciled :: "u32 \<Rightarrow> text_input_state \<Rightarrow> 'h ctx_scheme \<Rightarrow> 'h ctx_scheme option" where
  "reconciled g s c =
     (let t = shadow_table c; seat = the (get_host_id t (guest_seat s))
      in if target_activated t s then
           Some (if host_activation s = Inactive \<and> seat_usable t (guest_seat s)
                 then activate_text_input g s seat (the (host_surface_of t s)) c else c)
         else if host_activation s \<noteq> Active then Some c
         else if \<not> seat_usable t (guest_seat s)
         then Some (put_text_input g (s\<lparr>host_activation := Inactive\<rparr>) c)
         else case allocate_host_id t of
           (None, _) \<Rightarrow> None
         | (Some callback, t') \<Rightarrow> Some (drain_text_input g s seat callback t' c))"

lemma put_same: "hm_get (text_inputs c) g = Some s \<Longrightarrow> put_text_input g s c = c"
  by (simp add: put_text_input_def hm_get_def hm_insert_def update_triv)

lemma push_activate:
  "push_msg q v1 0 (write_u32 surface (write_u32 seat message_builder_new)) =
     (True, q @ [packet_of (activate_request v1 seat surface)])"
  by (simp add: push_msg_eq activate_request_def)

lemma seat_cases:
  obtains (pending) "is_pending_destroy_guest t seat"
  | (unmapped) "\<not> is_pending_destroy_guest t seat" "get_host_id t seat = None"
  | (usable) x where "\<not> is_pending_destroy_guest t seat" "get_host_id t seat = Some x"
  by blast

lemma seat_usable_simps [simp]:
  "is_pending_destroy_guest t seat \<Longrightarrow> \<not> seat_usable t seat"
  "get_host_id t seat = None \<Longrightarrow> \<not> seat_usable t seat"
  "\<not> is_pending_destroy_guest t seat \<Longrightarrow> get_host_id t seat = Some x \<Longrightarrow> seat_usable t seat"
  by (simp_all add: seat_usable_def)

lemma without_barrier [simp]:
  "snd (deactivate_host_without_barrier s) =
     (if host_activation s = Active then s\<lparr>host_activation := Inactive\<rparr> else s)"
  by (simp add: deactivate_host_without_barrier_def)

lemma update_activate:
  assumes s: "hm_get (text_inputs c) g = Some s" and "target_activated (shadow_table c) s"
  shows "update_host_activation g c = reconciled g s c"
proof (cases "host_activation s = Inactive")
  case True
  from assms(2) obtain x where x: "host_surface_of (shadow_table c) s = Some x"
    by (auto simp: target_activated_def)
  show ?thesis
    by (cases rule: seat_cases [of "shadow_table c" "guest_seat s"])
      (simp_all only: update_host_activation_def reconciled_def Let_def s assms(2) True x option.case
        option.sel simp_thms if_True if_False push_activate prod.case bool.case activate_host_def
        put_same [OF s] without_barrier seat_usable_simps host_activation_state.distinct
        activate_text_input_def queue_to_host_stream_def list.map)
next
  case False
  with assms show ?thesis
    by (simp only: update_host_activation_def reconciled_def Let_def option.case simp_thms if_True if_False)
qed

lemma update_deactivate:
  assumes ok: "bridge_ok G c" and s: "hm_get (text_inputs c) g = Some s"
    and off: "\<not> target_activated (shadow_table c) s"
  shows "update_host_activation g c = reconciled g s c"
proof (cases "host_activation s = Active")
  case True
  obtain a t where a: "allocate_host_id (shadow_table c) = (a, t)"
    by (cases "allocate_host_id (shadow_table c)") auto
  show ?thesis
  proof (cases rule: seat_cases [of "shadow_table c" "guest_seat s"])
    case (usable x)
    show ?thesis
    proof (cases a)
      case None
      with a usable show ?thesis
        by (simp only: update_host_activation_def reconciled_def Let_def s off True option.case
          simp_thms if_True if_False seat_usable_simps prod.case
          deactivation_barrier_exhausted option.map)
    next
      case (Some cb)
      with a usable show ?thesis
        by (simp only: update_host_activation_def reconciled_def Let_def s off True option.case
          simp_thms if_True if_False seat_usable_simps prod.case option.sel
          deactivation_barrier [OF ok s True] option.map snd_conv)
    qed
  qed (simp_all only: update_host_activation_def reconciled_def Let_def s off True option.case
      simp_thms if_True if_False seat_usable_simps without_barrier)
next
  case False
  with s off show ?thesis
    by (simp only: update_host_activation_def reconciled_def Let_def option.case simp_thms if_True if_False)
qed

lemma update_host_activation_eq:
  "bridge_ok G c \<Longrightarrow> hm_get (text_inputs c) g = Some s \<Longrightarrow> update_host_activation g c = reconciled g s c"
  using update_activate update_deactivate by (cases "target_activated (shadow_table c) s") blast+

lemma update_host_activation_absent:
  "hm_get (text_inputs c) g = None \<Longrightarrow> update_host_activation g c = Some c"
  by (simp add: update_host_activation_def)

text \<open>The invariant through the three updates.\<close>

lemma stream_frame [simp]:
  "text_inputs (queue_to_host_stream ms c) = text_inputs c"
  "shadow_table (queue_to_host_stream ms c) = shadow_table c"
  "text_input_activation_barriers (queue_to_host_stream ms c) = text_input_activation_barriers c"
  "host_to_client_queue (queue_to_host_stream ms c) = host_to_client_queue c"
  "key_generations (queue_to_host_stream ms c) = key_generations c"
  "client_to_host_queue (queue_to_host_stream ms c) = client_to_host_queue c @ map packet_of ms"
  by (simp_all add: queue_to_host_stream_def)

lemma bridge_ok_stream [simp]: "bridge_ok G (queue_to_host_stream ms c) = bridge_ok G c"
  by (rule bridge_ok_cong) simp_all

lemma bridge_ok_mono: "bridge_ok G c \<Longrightarrow> G \<subseteq> G' \<Longrightarrow> bridge_ok G' c"
  by (auto simp: bridge_ok_def active_enabled_def)

lemma bridge_ok_settled:
  "bridge_ok (insert g G) c \<Longrightarrow>
     (\<And>s. hm_get (text_inputs c) g = Some s \<Longrightarrow> host_activation s = Active \<Longrightarrow> committed_enabled s) \<Longrightarrow>
     bridge_ok G c"
  unfolding bridge_ok_def active_enabled_def by (metis insert_iff)

text \<open>A new barrier on a fresh callback.\<close>

lemma bridge_ok_install:
  assumes ok: "bridge_ok G c" and a: "allocate_host_id (shadow_table c) = (Some callback, t)"
  shows "bridge_ok G (c\<lparr>shadow_table := track_host_interface_with_version callback ''wl_callback'' 1 t,
    text_input_activation_barriers := (text_input_activation_barriers c)(HostId callback \<mapsto> v)\<rparr>)"
    (is "bridge_ok G ?c")
  unfolding bridge_ok_def
proof (intro conjI)
  note fresh = fresh_callback [OF ok a]
  show "barriers_ok ?c"
    using ok fresh(1,2) unfolding bridge_ok_def barriers_ok_def
    by (auto simp: track_host_interface_with_version_def)
  show "extensions_ok ?c"
    using ok fresh(2,3) unfolding bridge_ok_def extensions_ok_def
    by (auto simp: track_host_interface_with_version_def)
  from ok have "seats_exclusive c" "active_enabled G c"
    by (simp_all add: bridge_ok_def)
  then show "seats_exclusive ?c" "active_enabled G ?c"
    by (simp_all add: seats_exclusive_def active_enabled_def)
qed

lemma bridge_ok_drain:
  assumes ok: "bridge_ok (insert g G) c" and s: "hm_get (text_inputs c) g = Some s"
    and a: "allocate_host_id (shadow_table c) = (Some callback, t)"
  shows "bridge_ok G (drain_text_input g s seat callback t c)"
  unfolding drain_text_input_def
  by (rule bridge_ok_put [OF bridge_ok_stream [THEN iffD2, OF bridge_ok_install [OF ok a]]]) (use s in auto)

lemma update_keeps_bridge:
  assumes ok: "bridge_ok (insert g G) c" and u: "update_host_activation g c = Some c'"
  shows "bridge_ok G c'"
proof (cases "hm_get (text_inputs c) g")
  case None
  with u bridge_ok_settled [OF ok] show ?thesis
    by (simp add: update_host_activation_absent)
next
  case (Some s)
  note r = u [unfolded update_host_activation_eq [OF ok Some] reconciled_def Let_def]
  note settled = bridge_ok_settled [OF ok]
  show ?thesis
  proof (cases "target_activated (shadow_table c) s")
    case True
    then have en: "committed_enabled s"
      by (simp add: target_activated_def)
    show ?thesis
    proof (cases "host_activation s = Inactive \<and> seat_usable (shadow_table c) (guest_seat s)")
      case True
      have "bridge_ok G (activate_text_input g s seat surface c)" for seat surface
        unfolding activate_text_input_def
        by (rule bridge_ok_put [OF bridge_ok_stream [THEN iffD2, OF ok]]) (use Some en in auto)
      with r True en \<open>target_activated _ s\<close> show ?thesis
        by auto
    next
      case False
      with r \<open>target_activated _ s\<close> have "c' = c"
        by (simp only: if_True if_False option.inject)
      with settled Some en show ?thesis
        by auto
    qed
  next
    case off: False
    show ?thesis
    proof (cases "host_activation s = Active")
      case False
      with r off have "c' = c"
        by simp
      with settled Some False show ?thesis
        by auto
    next
      case True
      show ?thesis
      proof (cases "seat_usable (shadow_table c) (guest_seat s)")
        case False
        with r off True have "c' = put_text_input g (s\<lparr>host_activation := Inactive\<rparr>) c"
          by simp
        then show ?thesis
          by (simp only:) (rule bridge_ok_put [OF ok Some]; simp)
      next
        case usable: True
        obtain a t where a: "allocate_host_id (shadow_table c) = (a, t)"
          by (cases "allocate_host_id (shadow_table c)") auto
        from r off True usable a obtain cb where
          "a = Some cb" "c' = drain_text_input g s (the (get_host_id (shadow_table c) (guest_seat s))) cb t c"
          by (cases a) auto
        with bridge_ok_drain [OF ok Some] a show ?thesis
          by simp
      qed
    qed
  qed
qed

section \<open>Machines whose steps can panic\<close>

locale panicking_machine =
  fixes apply_op :: "'e \<Rightarrow> 's \<Rightarrow> 's option" and inv :: "'s \<Rightarrow> bool"
  assumes apply_inv: "inv s \<Longrightarrow> apply_op e s = Some s' \<Longrightarrow> inv s'"
begin

lemma run_inv: "inv s \<Longrightarrow> try_each apply_op es s = Some s' \<Longrightarrow> inv s'"
  by (induction es arbitrary: s) (auto split: option.splits intro: apply_inv)

lemma run_inv_prefix:
  "inv s \<Longrightarrow> try_each apply_op (es @ fs) s = Some s' \<Longrightarrow>
     \<exists>t. try_each apply_op es s = Some t \<and> inv t"
  by (induction es arbitrary: s) (auto split: option.splits intro: apply_inv)

end

section \<open>Completing a barrier\<close>

lemma mark_pending_interfaces:
  "h' \<noteq> h \<Longrightarrow> host_interfaces (snd (mark_pending_destroy_host h t)) h' = host_interfaces t h'"
  by (simp add: mark_pending_destroy_host_def)

definition uninstall_barrier :: "host_id \<Rightarrow> 'h ctx_scheme \<Rightarrow> 'h ctx_scheme" where
  "uninstall_barrier callback c =
     c\<lparr>text_input_activation_barriers := (text_input_activation_barriers c)(callback := None),
       shadow_table := snd (mark_pending_destroy_host (host_raw callback) (shadow_table c))\<rparr>"

lemma uninstall_frame [simp]:
  "text_inputs (uninstall_barrier cb c) = text_inputs c"
  "text_input_activation_barriers (uninstall_barrier cb c) = (text_input_activation_barriers c)(cb := None)"
  "shadow_table (uninstall_barrier cb c) = snd (mark_pending_destroy_host (host_raw cb) (shadow_table c))"
  "client_to_host_queue (uninstall_barrier cb c) = client_to_host_queue c"
  "host_to_client_queue (uninstall_barrier cb c) = host_to_client_queue c"
  by (simp_all add: uninstall_barrier_def)

lemma put_uninstall: "put_text_input g s (uninstall_barrier cb c) = uninstall_barrier cb (put_text_input g s c)"
  by (simp add: put_text_input_def uninstall_barrier_def)

lemma host_raw_eq: "host_raw a = host_raw b \<longleftrightarrow> a = b"
  by (cases a; cases b) simp

lemma bridge_ok_uninstall:
  assumes ok: "bridge_ok G c" and b: "text_input_activation_barriers c cb \<noteq> None"
    and no: "\<And>g s. hm_get (text_inputs c) g = Some s \<Longrightarrow> host_activation s \<noteq> Draining cb"
  shows "bridge_ok G (uninstall_barrier cb c)"
  unfolding bridge_ok_def
proof (intro conjI)
  show "barriers_ok (uninstall_barrier cb c)"
    using ok no unfolding bridge_ok_def barriers_ok_def
    by (auto simp: mark_pending_interfaces host_raw_eq)
  have ne: "e \<noteq> host_raw cb" if "hm_get (text_inputs c) g = Some s" "host_ext_id s = Some e" for g s e
    using bridge_okD(3) [OF ok that] b by (cases cb) auto
  from ok have "extensions_ok c"
    by (simp add: bridge_ok_def)
  then show "extensions_ok (uninstall_barrier cb c)"
    using ne by (auto simp: extensions_ok_def mark_pending_interfaces)
  from ok have "seats_exclusive c" "active_enabled G c"
    by (simp_all add: bridge_ok_def)
  then show "seats_exclusive (uninstall_barrier cb c)" "active_enabled G (uninstall_barrier cb c)"
    by (simp_all add: seats_exclusive_def active_enabled_def)
qed

lemma complete_barrier_eq:
  "complete_host_activation_barrier cb c =
     (case text_input_activation_barriers c cb of
        None \<Rightarrow> Some (False, c)
      | Some (g, v1) \<Rightarrow>
          (case hm_get (text_inputs c) g of
             None \<Rightarrow> Some (True, uninstall_barrier cb c)
           | Some s \<Rightarrow>
               if host_v1_id s = v1 \<and> host_activation s = Draining cb
               then map_option (Pair True) (update_host_activation g
                 (uninstall_barrier cb (put_text_input g (s\<lparr>host_activation := Inactive\<rparr>) c)))
               else Some (True, uninstall_barrier cb c)))"
  unfolding put_uninstall [symmetric]
  by (simp add: complete_host_activation_barrier_def barrier_complete_def complete_host_draining_def
      uninstall_barrier_def Let_def split: option.split prod.split)

lemma bridge_ok_finish_drain:
  assumes ok: "bridge_ok G c" and s: "hm_get (text_inputs c) g = Some s" and d: "host_activation s = Draining cb"
  shows "bridge_ok G (uninstall_barrier cb (put_text_input g (s\<lparr>host_activation := Inactive\<rparr>) c))"
proof (rule bridge_ok_uninstall)
  show "bridge_ok G (put_text_input g (s\<lparr>host_activation := Inactive\<rparr>) c)"
    by (rule bridge_ok_put [OF ok s]) auto
  note b = bridge_okD(1) [OF ok]
  show "text_input_activation_barriers (put_text_input g (s\<lparr>host_activation := Inactive\<rparr>) c) cb \<noteq> None"
    using b [OF s d] by simp
  show "host_activation s' \<noteq> Draining cb"
    if "hm_get (text_inputs (put_text_input g (s\<lparr>host_activation := Inactive\<rparr>) c)) g' = Some s'" for g' s'
    using that b [of g' s' cb] b [OF s d] by (auto split: if_splits)
qed

lemma complete_keeps_bridge:
  assumes ok: "bridge_ok G c" and e: "complete_host_activation_barrier cb c = Some (r, c')"
  shows "bridge_ok G c'"
proof (cases "text_input_activation_barriers c cb")
  case None
  with e ok show ?thesis
    by (simp add: complete_barrier_eq)
next
  case (Some v)
  obtain g v1 where v: "v = (g, v1)"
    by (cases v)
  show ?thesis
  proof (cases "\<exists>s. hm_get (text_inputs c) g = Some s \<and> host_v1_id s = v1 \<and> host_activation s = Draining cb")
    case True
    then obtain s where s: "hm_get (text_inputs c) g = Some s" "host_v1_id s = v1" "host_activation s = Draining cb"
      by blast
    with e Some v have "update_host_activation g
        (uninstall_barrier cb (put_text_input g (s\<lparr>host_activation := Inactive\<rparr>) c)) = Some c'"
      by (auto simp: complete_barrier_eq)
    with bridge_ok_mono [OF bridge_ok_finish_drain [OF ok s(1,3)]] show ?thesis
      by (rule_tac update_keeps_bridge) auto
  next
    case False
    have "host_activation s' \<noteq> Draining cb" if "hm_get (text_inputs c) g' = Some s'" for g' s'
      using bridge_okD(1) [OF ok that] Some v False that by auto
    then have "bridge_ok G (uninstall_barrier cb c)"
      using ok Some by (intro bridge_ok_uninstall) auto
    moreover from e Some v False have "c' = uninstall_barrier cb c"
      by (auto simp: complete_barrier_eq split: option.splits)
    ultimately show ?thesis
      by simp
  qed
qed

section \<open>Following the focus\<close>

lemma apply_focus_keeps:
  "apply_focus x s = (old, s') \<Longrightarrow> host_ext_id s' = host_ext_id s"
  "apply_focus x s = (old, s') \<Longrightarrow> guest_seat s' = guest_seat s"
  "apply_focus x s = (old, s') \<Longrightarrow> host_v1_id s' = host_v1_id s"
  "apply_focus x s = (old, s') \<Longrightarrow> \<not> committed_enabled s'"
  "apply_focus x s = (old, s') \<Longrightarrow> host_activation s' = host_activation s"
  "apply_focus x s = (old, s') \<Longrightarrow> active_surface s' = x"
  "apply_focus x s = (old, s') \<Longrightarrow> old = active_surface s"
  by (auto simp: apply_focus_def clear_host_composition_def)

lemma bridge_ok_focus:
  assumes ok: "bridge_ok G c" and s: "hm_get (text_inputs c) g = Some s" and f: "apply_focus x s = (old, s')"
  shows "bridge_ok (insert g G) (put_text_input g s' c)"
  using bridge_okD(1) [OF ok s] by (intro bridge_ok_put [OF ok s]) (auto simp: apply_focus_keeps [OF f])

lemma focus_targets_keep:
  "bridge_ok G c \<Longrightarrow> apply_focus_targets ups c = Some (es, ids, d) \<Longrightarrow> bridge_ok (set ids \<union> G) d"
proof (induction ups arbitrary: G c es ids d)
  case (Cons up ups)
  obtain g x where up: "up = (g, x)"
    by (cases up)
  show ?case
  proof (cases "hm_get (text_inputs c) g")
    case None
    with Cons up show ?thesis
      by simp
  next
    case (Some s)
    obtain old s' where f: "apply_focus x s = (old, s')"
      by (cases "apply_focus x s")
    note e = Cons.prems(2) [unfolded up apply_focus_targets.simps Some f option.case prod.case]
    then obtain ev where ev: "focus_events g old x = Some ev"
      by (cases "focus_events g old x") simp_all
    from e [unfolded ev option.case] obtain es' ids' where
      r: "apply_focus_targets ups (put_text_input g s' c) = Some (es', ids', d)" "ids = g # ids'"
      by (cases "apply_focus_targets ups (put_text_input g s' c)") auto
    from Cons.IH [OF bridge_ok_focus [OF Cons.prems(1) Some f] r(1)] r(2) show ?thesis
      by simp
  qed
qed simp

lemma updates_keep:
  "bridge_ok (set ids \<union> G) c \<Longrightarrow> try_each update_host_activation ids c = Some c' \<Longrightarrow> bridge_ok G c'"
proof (induction ids arbitrary: c)
  case (Cons g ids)
  then obtain d where d: "update_host_activation g c = Some d" "try_each update_host_activation ids d = Some c'"
    by (auto split: option.splits)
  from Cons.prems(1) have "bridge_ok (insert g (set ids \<union> G)) c"
    by simp
  from Cons.IH [OF update_keeps_bridge [OF this d(1)] d(2)] show ?case .
qed simp

lemma focus_updates_keep:
  assumes ok: "bridge_ok G c" and u: "apply_text_input_focus_updates ups c = Some c'"
  shows "bridge_ok G c'"
proof -
  from u obtain es ids d where t: "apply_focus_targets ups c = Some (es, ids, d)"
    and e: "try_each update_host_activation ids (d\<lparr>host_to_client_queue := host_to_client_queue d @ es\<rparr>) = Some c'"
    by (auto simp: apply_text_input_focus_updates_def split: option.splits)
  have "bridge_ok (set ids \<union> G) (d\<lparr>host_to_client_queue := host_to_client_queue d @ es\<rparr>)"
    by (rule bridge_ok_cong [THEN iffD2, OF _ _ _ focus_targets_keep [OF ok t]]) simp_all
  from updates_keep [OF this e] show ?thesis .
qed

lemma bridge_ok_keys [simp]: "bridge_ok G (c\<lparr>key_generations := r\<rparr>) = bridge_ok G c"
  by (rule bridge_ok_cong) simp_all

lemma end_repeat_bridge [simp]:
  "bridge_ok G (end_backspace_repeat_for_seat seat c) = bridge_ok G c"
  "bridge_ok G (end_backspace_repeat_for_text_input seat g c) = bridge_ok G c"
  by (simp_all add: end_backspace_repeat_for_seat_def end_backspace_repeat_for_text_input_def)

lemma focus_change_keeps:
  assumes "bridge_ok G c" and "apply_keyboard_focus_change change c = Some c'"
  shows "bridge_ok G c'"
proof (cases "sf_previous_surface change = sf_current_surface change")
  case False
  note e = assms(2) [unfolded apply_keyboard_focus_change_def if_not_P [OF False] Let_def]
  show ?thesis
    by (rule focus_updates_keep [OF _ e]) (simp add: assms(1))
qed (use assms in \<open>simp add: apply_keyboard_focus_change_def\<close>)

interpretation focus_changes: panicking_machine "apply_keyboard_focus_change" "bridge_ok G" for G
  by unfold_locales (rule focus_change_keeps)

lemma focus_changes_keep:
  "bridge_ok G c \<Longrightarrow> apply_keyboard_focus_changes changes c = Some c' \<Longrightarrow> bridge_ok G c'"
  unfolding apply_keyboard_focus_changes_def by (rule focus_changes.run_inv)

lemma repair_keeps:
  "bridge_ok G c \<Longrightarrow> repair_destroyed_surface_focus surface c = Some c' \<Longrightarrow> bridge_ok G c'"
  unfolding repair_destroyed_surface_focus_def by (rule focus_updates_keep)

section \<open>What a focus change does\<close>

definition focus_requests :: "u32 \<Rightarrow> u32 option \<Rightarrow> u32 option \<Rightarrow> request list" where
  "focus_requests guest old surface =
     (if old = surface then []
      else (case old of Some x \<Rightarrow> [(guest, 1, write_u32 x message_builder_new)] | None \<Rightarrow> []) @
           (case surface of Some x \<Rightarrow> [(guest, 0, write_u32 x message_builder_new)] | None \<Rightarrow> []))"

lemma focus_event_eq:
  "focus_event guest op surface =
     Some (map packet_of (case surface of Some x \<Rightarrow> [(guest, op, write_u32 x message_builder_new)] | None \<Rightarrow> []))"
  by (simp add: focus_event_def built(2) packet_pair split: option.split)

lemma focus_events_eq: "focus_events guest old surface = Some (map packet_of (focus_requests guest old surface))"
  by (simp add: focus_events_def focus_requests_def focus_event_eq)

lemma focus_targets_eq:
  assumes "distinct (map fst xs)" and "\<forall>(g, s)\<in>set xs. hm_get (text_inputs c) g = Some s"
  shows "\<exists>d. apply_focus_targets (map (\<lambda>(g, _). (g, x)) xs) c =
      Some (map packet_of (concat (map (\<lambda>(g, s). focus_requests g (active_surface s) x) xs)), map fst xs, d) \<and>
    hm_get (text_inputs d) =
      (\<lambda>g. if g \<in> fst ` set xs then map_option (\<lambda>s. snd (apply_focus x s)) (hm_get (text_inputs c) g)
           else hm_get (text_inputs c) g) \<and>
    host_to_client_queue d = host_to_client_queue c"
  using assms
proof (induction xs arbitrary: c)
  case (Cons y ys)
  obtain g s where y: "y = (g, s)"
    by (cases y)
  let ?c = "put_text_input g (snd (apply_focus x s)) c"
  have s: "hm_get (text_inputs c) g = Some s"
    using Cons.prems(2) y by auto
  have "\<forall>(g, s)\<in>set ys. hm_get (text_inputs ?c) g = Some s"
  proof (clarify)
    fix h t
    assume "(h, t) \<in> set ys"
    moreover from this Cons.prems(1) y have "h \<noteq> g"
      by (auto simp: image_iff)
    ultimately show "hm_get (text_inputs ?c) h = Some t"
      using Cons.prems(2) by auto
  qed
  with Cons.IH [of ?c] Cons.prems(1) obtain d where d:
    "apply_focus_targets (map (\<lambda>(g, _). (g, x)) ys) ?c =
      Some (map packet_of (concat (map (\<lambda>(g, s). focus_requests g (active_surface s) x) ys)), map fst ys, d)"
    "hm_get (text_inputs d) =
      (\<lambda>g. if g \<in> fst ` set ys then map_option (\<lambda>s. snd (apply_focus x s)) (hm_get (text_inputs ?c) g)
           else hm_get (text_inputs ?c) g)"
    "host_to_client_queue d = host_to_client_queue ?c"
    by auto
  have new: "g \<notin> fst ` set ys"
    using Cons.prems(1) y by simp
  have focus: "fst (apply_focus x s) = active_surface s"
    by (simp add: apply_focus_def)
  show ?case
  proof (intro exI [of _ d] conjI)
    show "host_to_client_queue d = host_to_client_queue c"
      using d(3) by simp
    show "hm_get (text_inputs d) =
      (\<lambda>g. if g \<in> fst ` set (y # ys) then map_option (\<lambda>s. snd (apply_focus x s)) (hm_get (text_inputs c) g)
           else hm_get (text_inputs c) g)"
      using new s by (intro ext) (simp add: d(2) y)
  qed (simp add: y focus_events_eq s split_beta focus d(1) [unfolded split_beta])
qed simp

lemma update_view:
  assumes ok: "bridge_ok G c" and u: "update_host_activation g c = Some c'"
    and s: "hm_get (text_inputs c) g = Some s"
  shows "\<exists>a. hm_get (text_inputs c') = (hm_get (text_inputs c))(g \<mapsto> s\<lparr>host_activation := a\<rparr>) \<and>
    (\<not> committed_enabled s \<longrightarrow> a \<noteq> Active) \<and> host_to_client_queue c' = host_to_client_queue c"
proof -
  note r = u [unfolded update_host_activation_eq [OF ok s] reconciled_def Let_def]
  have same: "hm_get (text_inputs c) = (hm_get (text_inputs c))(g \<mapsto> s\<lparr>host_activation := host_activation s\<rparr>)"
    using s by auto
  show ?thesis
  proof (cases "target_activated (shadow_table c) s")
    case True
    then have "committed_enabled s"
      by (simp add: target_activated_def)
    with r True same show ?thesis
      by (cases "host_activation s = Inactive \<and> seat_usable (shadow_table c) (guest_seat s)")
        (auto simp: activate_text_input_def intro: exI [of _ Active] exI [of _ "host_activation s"]
          simp del: de_Morgan_conj)
  next
    case False
    then show ?thesis
    proof (cases "host_activation s = Active")
      case active: True
      obtain a t where a: "allocate_host_id (shadow_table c) = (a, t)"
        by (cases "allocate_host_id (shadow_table c)") auto
      with r False active show ?thesis
        by (cases a) (auto simp: drain_text_input_def split: if_splits)
    next
      case inactive: False
      with r False same show ?thesis
        by (intro exI [of _ "host_activation s"]) simp
    qed
  qed
qed

lemma updates_view:
  assumes "bridge_ok (set ids \<union> G) c" and "try_each update_host_activation ids c = Some c'"
    and "\<And>g s. g \<in> set ids \<Longrightarrow> hm_get (text_inputs c) g = Some s \<Longrightarrow> \<not> committed_enabled s"
  shows "host_to_client_queue c' = host_to_client_queue c \<and>
    (\<forall>g. (g \<notin> set ids \<longrightarrow> hm_get (text_inputs c') g = hm_get (text_inputs c) g) \<and>
         (\<forall>s. g \<in> set ids \<longrightarrow> hm_get (text_inputs c) g = Some s \<longrightarrow>
            (\<exists>a. hm_get (text_inputs c') g = Some (s\<lparr>host_activation := a\<rparr>) \<and> a \<noteq> Active)))"
  using assms
proof (induction ids arbitrary: c)
  case Nil
  then have "c' = c"
    by simp
  then show ?case
    by simp
next
  case (Cons i ids)
  from Cons.prems(2) obtain d where d: "update_host_activation i c = Some d"
    "try_each update_host_activation ids d = Some c'"
    by (auto split: option.splits)
  have ok: "bridge_ok (insert i (set ids \<union> G)) c"
    using Cons.prems(1) by simp
  have ok': "bridge_ok (set ids \<union> G) d"
    by (rule update_keeps_bridge [OF ok d(1)])
  show ?case
  proof (cases "hm_get (text_inputs c) i")
    case None
    with d have "d = c"
      by (simp add: update_host_activation_absent)
    with Cons.IH [OF ok' d(2)] Cons.prems(3) None show ?thesis
      by auto
  next
    case (Some s)
    from update_view [OF ok d(1) Some] Cons.prems(3) [of i s] Some obtain a where
      a: "hm_get (text_inputs d) = (hm_get (text_inputs c))(i \<mapsto> s\<lparr>host_activation := a\<rparr>)"
        "a \<noteq> Active" "host_to_client_queue d = host_to_client_queue c"
      by auto
    have "\<not> committed_enabled t" if "g \<in> set ids" "hm_get (text_inputs d) g = Some t" for g t
      using that a(1) Some Cons.prems(3) [of g] by (auto split: if_splits)
    from Cons.IH [OF ok' d(2) this] have ih: "host_to_client_queue c' = host_to_client_queue d \<and>
      (\<forall>g. (g \<notin> set ids \<longrightarrow> hm_get (text_inputs c') g = hm_get (text_inputs d) g) \<and>
         (\<forall>s. g \<in> set ids \<longrightarrow> hm_get (text_inputs d) g = Some s \<longrightarrow>
            (\<exists>a. hm_get (text_inputs c') g = Some (s\<lparr>host_activation := a\<rparr>) \<and> a \<noteq> Active)))" .
    show ?thesis
    proof (intro conjI allI impI)
      show "host_to_client_queue c' = host_to_client_queue c"
        using ih a(3) by simp
      show "hm_get (text_inputs c') g = hm_get (text_inputs c) g" if "g \<notin> set (i # ids)" for g
        using that ih a(1) by simp
      show "\<exists>a. hm_get (text_inputs c') g = Some (t\<lparr>host_activation := a\<rparr>) \<and> a \<noteq> Active"
        if "g \<in> set (i # ids)" "hm_get (text_inputs c) g = Some t" for g t
      proof (cases "g \<in> set ids")
        case in_ids: True
        show ?thesis
        proof (cases "g = i")
          case True
          with that(2) Some a(1) have "hm_get (text_inputs d) g = Some (t\<lparr>host_activation := a\<rparr>)"
            by simp
          with ih in_ids obtain b where
            "hm_get (text_inputs c') g = Some (t\<lparr>host_activation := a, host_activation := b\<rparr>)" "b \<noteq> Active"
            by blast
          then show ?thesis
            by auto
        next
          case False
          with that(2) a(1) have "hm_get (text_inputs d) g = Some t"
            by simp
          with ih in_ids show ?thesis
            by blast
        qed
      next
        case False
        with that have g: "g = i"
          by simp
        with False ih have "hm_get (text_inputs c') g = hm_get (text_inputs d) g"
          by blast
        with g a that(2) Some show ?thesis
          by auto
      qed
    qed
  qed
qed

text \<open>What is left of a text input after the hard boundary: its identity and the serial the
  protocol counts for its object, and nothing of the editor or of the composition.\<close>

definition unfocused_input :: "u32 option \<Rightarrow> text_input_state \<Rightarrow> host_activation_state \<Rightarrow> text_input_state" where
  "unfocused_input surface s a =
     \<lparr>host_v1_id = host_v1_id s, host_ext_id = host_ext_id s, guest_seat = guest_seat s,
      active_surface = surface, pending_enabled = False, committed_enabled = False,
      enabled_dirty = False, pending_surrounding_text = None, committed_surrounding_text = None,
      surrounding_text_dirty = False, content_hint = 0, content_purpose = 0,
      committed_content_type = None, content_type_dirty = False, cursor_rect = None,
      cursor_rect_dirty = False, text_change_cause = 0, current_preedit = [],
      guest_commit_serial = guest_commit_serial s, pending_preedit_cursor = None,
      pending_preedit_selection = None, pending_deletes = [], pending_cursor_position = None,
      host_activation = a\<rparr>"

lemma apply_focus_unfocused:
  "(snd (apply_focus x s))\<lparr>host_activation := a\<rparr> = unfocused_input x s a"
  by (simp add: apply_focus_def clear_host_composition_def unfocused_input_def)

text \<open>C5: a seat's focus change is a hard boundary for its text inputs: of every text input of the seat
  only its identity and its serial are left, every field of its editor state and of its composition
  being reset, its surface is the new one, and its host object is not active any more, so that events
  of the old focus are ignored; the guest is told to leave the old and enter the new surface, once
  each; the text inputs of other seats are untouched.
\<close>
theorem focus_change_is_hard_boundary:
  assumes ok: "bridge_ok {} c" and e: "apply_keyboard_focus_change change c = Some c'"
    and moved: "sf_previous_surface change \<noteq> sf_current_surface change"
  shows "host_to_client_queue c' = host_to_client_queue c @ map packet_of (concat
      (map (\<lambda>(g, s). focus_requests g (active_surface s) (sf_current_surface change))
        (filter (\<lambda>(_, s). guest_seat s = sf_guest_seat change) (text_inputs c)))) \<and>
    (\<forall>g s. hm_get (text_inputs c) g = Some s \<longrightarrow>
       (if guest_seat s = sf_guest_seat change
        then \<exists>a. hm_get (text_inputs c') g =
               Some (unfocused_input (sf_current_surface change) s a) \<and> a \<noteq> Active
        else hm_get (text_inputs c') g = Some s))"
proof -
  let ?seat = "sf_guest_seat change" and ?x = "sf_current_surface change"
  define c2 where "c2 = end_backspace_repeat_for_seat ?seat
    (c\<lparr>key_generations := clear_peek_watermarks_for_seat ?seat (key_generations c)\<rparr>)"
  define xs where "xs = filter (\<lambda>(_, s). guest_seat s = ?seat) (text_inputs c)"
  have same: "text_inputs c2 = text_inputs c" "host_to_client_queue c2 = host_to_client_queue c"
    by (simp_all add: c2_def end_backspace_repeat_for_seat_def)
  have hm: "hm_ok (text_inputs c)"
    using ok by (simp add: bridge_ok_def barriers_ok_def)
  have ok2: "bridge_ok {} c2"
    using ok by (simp add: c2_def)
  have ups: "apply_text_input_focus_updates (map (\<lambda>(g, _). (g, ?x)) xs) c2 = Some c'"
    using e moved same by (simp add: apply_keyboard_focus_change_def Let_def c2_def xs_def)
  have dist: "distinct (map fst xs)"
    using hm unfolding xs_def hm_ok_def by (rule distinct_map_filter)
  have entries: "(h, t) \<in> set xs \<longleftrightarrow> hm_get (text_inputs c) h = Some t \<and> guest_seat t = ?seat" for h t
    using hm.entries_get [OF hm, of h t] by (auto simp: xs_def)
  then have "\<forall>(h, t)\<in>set xs. hm_get (text_inputs c2) h = Some t"
    by (auto simp: same)
  from focus_targets_eq [OF dist this, of ?x, unfolded same] obtain d where d:
    "apply_focus_targets (map (\<lambda>(g, _). (g, ?x)) xs) c2 =
      Some (map packet_of (concat (map (\<lambda>(g, s). focus_requests g (active_surface s) ?x) xs)), map fst xs, d)"
    "hm_get (text_inputs d) = (\<lambda>g. if g \<in> fst ` set xs then map_option (\<lambda>s. snd (apply_focus ?x s))
      (hm_get (text_inputs c) g) else hm_get (text_inputs c) g)"
    "host_to_client_queue d = host_to_client_queue c"
    by auto
  let ?d = "d\<lparr>host_to_client_queue := host_to_client_queue d @
    map packet_of (concat (map (\<lambda>(g, s). focus_requests g (active_surface s) ?x) xs))\<rparr>"
  from ups d(1) have run: "try_each update_host_activation (map fst xs) ?d = Some c'"
    by (simp add: apply_text_input_focus_updates_def)
  have okd: "bridge_ok (set (map fst xs) \<union> {}) ?d"
    by (rule bridge_ok_cong [THEN iffD2, OF _ _ _ focus_targets_keep [OF ok2 d(1)]]) simp_all
  have "\<not> committed_enabled t" if "g \<in> set (map fst xs)" "hm_get (text_inputs ?d) g = Some t" for g t
    using that d(2) by (auto simp: apply_focus_def clear_host_composition_def)
  note view = updates_view [OF okd run this]
  have mem: "g \<in> fst ` set xs \<longleftrightarrow> guest_seat s = ?seat" if "hm_get (text_inputs c) g = Some s" for g s
    using entries [of g] that by force
  show ?thesis
  proof (intro conjI allI impI)
    show "host_to_client_queue c' = host_to_client_queue c @ map packet_of (concat
        (map (\<lambda>(g, s). focus_requests g (active_surface s) ?x)
          (filter (\<lambda>(_, s). guest_seat s = ?seat) (text_inputs c))))"
      using view d(3) by (simp add: xs_def)
    fix g s
    assume s: "hm_get (text_inputs c) g = Some s"
    show "if guest_seat s = ?seat
      then \<exists>a. hm_get (text_inputs c') g = Some (unfocused_input ?x s a) \<and> a \<noteq> Active
      else hm_get (text_inputs c') g = Some s"
      using view mem [OF s] s d(2) by (simp flip: apply_focus_unfocused)
  qed
qed

theorem focus_change_is_hard_boundary_witness:
  "\<exists>c' a. apply_keyboard_focus_change
       \<lparr>sf_guest_seat = 3, sf_previous_surface = Some 7, sf_current_surface = Some 8\<rparr>
       (context_empty\<lparr>text_inputs := [(5, (text_input_new 20 None 3 (Some 7))
          \<lparr>pending_enabled := True, enabled_dirty := True, content_hint := 9,
           cursor_rect := Some (1, 2, 3, 4), current_preedit := [104, 105],
           pending_cursor_position := Some (0, 0)\<rparr>)]\<rparr>) = Some c' \<and>
     host_to_client_queue c' = map packet_of [(5, 1, write_u32 7 message_builder_new),
       (5, 0, write_u32 8 message_builder_new)] \<and>
     hm_get (text_inputs c') 5 = Some ((text_input_new 20 None 3 (Some 8))\<lparr>host_activation := a\<rparr>)"
proof -
  define ch where "ch = \<lparr>sf_guest_seat = 3, sf_previous_surface = Some 7, sf_current_surface = Some 8\<rparr>"
  define s where "s = (text_input_new 20 None 3 (Some 7))\<lparr>pending_enabled := True, enabled_dirty := True,
    content_hint := 9, cursor_rect := Some (1, 2, 3, 4), current_preedit := [104, 105],
    pending_cursor_position := Some (0, 0)\<rparr>"
  define c where "c = context_empty\<lparr>text_inputs := [(5, s)]\<rparr>"
  have ok: "bridge_ok {} c"
    by (auto simp: c_def s_def bridge_ok_def barriers_ok_def extensions_ok_def seats_exclusive_def
        active_enabled_def hm_ok_def hm_get_def text_input_new_def context_new_def split: if_splits)
  have "apply_keyboard_focus_change ch c \<noteq> None"
    by (simp add: ch_def c_def s_def apply_keyboard_focus_change_def end_backspace_repeat_for_seat_def
        apply_text_input_focus_updates_def hm_get_def text_input_new_def context_new_def apply_focus_def
        clear_host_composition_def focus_events_eq put_text_input_def hm_insert_def
        update_host_activation_def target_activated_def)
  then obtain c' where c': "apply_keyboard_focus_change ch c = Some c'"
    by auto
  have moved: "sf_previous_surface ch \<noteq> sf_current_surface ch"
    by (simp add: ch_def)
  note all = focus_change_is_hard_boundary [OF ok c' moved]
  have q: "host_to_client_queue c' = map packet_of [(5, 1, write_u32 7 message_builder_new),
      (5, 0, write_u32 8 message_builder_new)]"
    by (subst all [THEN conjunct1]) (simp add: ch_def s_def c_def text_input_new_def focus_requests_def context_new_def)
  have "hm_get (text_inputs c) 5 = Some s" and seat: "guest_seat s = sf_guest_seat ch"
    by (simp_all add: c_def s_def ch_def hm_get_def text_input_new_def)
  note all [THEN conjunct2, THEN spec, THEN spec, THEN mp, OF this(1), unfolded if_P [OF seat]]
  then obtain a where "hm_get (text_inputs c') 5 = Some (unfocused_input (sf_current_surface ch) s a)"
    by blast
  then have "hm_get (text_inputs c') 5 = Some (unfocused_input (Some 8) s a)"
    by (simp add: ch_def)
  moreover have "unfocused_input (Some 8) s a = (text_input_new 20 None 3 (Some 8))\<lparr>host_activation := a\<rparr>"
    by (simp add: unfocused_input_def s_def text_input_new_def)
  ultimately show ?thesis
    using c' q unfolding ch_def [symmetric] s_def [symmetric] c_def [symmetric] by auto
qed

section \<open>Resumption\<close>

lemma mark_pending_targets [simp]:
  "target_activated (snd (mark_pending_destroy_host h t)) s = target_activated t s"
  "seat_usable (snd (mark_pending_destroy_host h t)) seat = seat_usable t seat"
  "get_host_id (snd (mark_pending_destroy_host h t)) i = get_host_id t i"
  "host_surface_of (snd (mark_pending_destroy_host h t)) s = host_surface_of t s"
  by (auto simp: mark_pending_destroy_host_def target_activated_def seat_usable_def host_surface_of_def
      get_host_id_def [abs_def] is_pending_destroy_guest_def)

lemma host_activation_irrelevant [simp]:
  "target_activated t (s\<lparr>host_activation := a\<rparr>) = target_activated t s"
  "host_surface_of t (s\<lparr>host_activation := a\<rparr>) = host_surface_of t s"
  by (simp_all add: target_activated_def host_surface_of_def)

definition resumes :: "shadow_table \<Rightarrow> text_input_state \<Rightarrow> bool" where
  "resumes t s \<longleftrightarrow> target_activated t s \<and> seat_usable t (guest_seat s)"

text \<open>C13: a drained text input resumes: the callback of its barrier never panics, retires the barrier, and
  activates the host object again exactly when the newest committed state and focus want it (one
  \<open>activate\<close> on the host stream), and otherwise leaves it inactive and sends nothing.
\<close>
theorem drained_text_input_resumes:
  assumes ok: "bridge_ok {} c" and s: "hm_get (text_inputs c) g = Some s"
    and d: "host_activation s = Draining callback"
  shows "case complete_host_activation_barrier callback c of
      None \<Rightarrow> False
    | Some (handled, c') \<Rightarrow>
        handled \<and> text_input_activation_barriers c' callback = None \<and>
        hm_get (text_inputs c') g =
          Some (s\<lparr>host_activation := if resumes (shadow_table c) s then Active else Inactive\<rparr>) \<and>
        client_to_host_queue c' = client_to_host_queue c @
          (if resumes (shadow_table c) s
           then [packet_of (activate_request (host_v1_id s)
                   (the (get_host_id (shadow_table c) (guest_seat s)))
                   (the (host_surface_of (shadow_table c) s)))]
           else [])"
proof -
  let ?c = "uninstall_barrier callback (put_text_input g (s\<lparr>host_activation := Inactive\<rparr>) c)"
  have b: "text_input_activation_barriers c callback = Some (g, host_v1_id s)"
    by (rule bridge_okD(1) [OF ok s d])
  have u: "update_host_activation g ?c = reconciled g (s\<lparr>host_activation := Inactive\<rparr>) ?c"
    by (rule update_host_activation_eq [OF bridge_ok_finish_drain [OF ok s d]]) simp
  show ?thesis
    unfolding complete_barrier_eq
    by (simp add: b s d u) (simp add: reconciled_def Let_def resumes_def activate_text_input_def)
qed

theorem drained_text_input_resumes_witness:
  "\<exists>c'. complete_host_activation_barrier (HostId 40)
       (context_empty\<lparr>text_inputs := [(5, (text_input_new 20 None 3 (Some 7))\<lparr>host_activation := Draining (HostId 40)\<rparr>)],
          text_input_activation_barriers := [HostId 40 \<mapsto> (5, 20)],
          shadow_table := track_host_interface_with_version 40 ''wl_callback'' 1 shadow_table_new\<rparr>) = Some (True, c') \<and>
     text_input_activation_barriers c' (HostId 40) = None \<and> client_to_host_queue c' = []"
proof -
  define s where "s = (text_input_new 20 None 3 (Some 7))\<lparr>host_activation := Draining (HostId 40)\<rparr>"
  define c where "c = context_empty\<lparr>text_inputs := [(5, s)],
    text_input_activation_barriers := [HostId 40 \<mapsto> (5, 20)],
    shadow_table := track_host_interface_with_version 40 ''wl_callback'' 1 shadow_table_new\<rparr>"
  have ok: "bridge_ok {} c"
    by (auto simp: c_def s_def bridge_ok_def barriers_ok_def extensions_ok_def seats_exclusive_def
        active_enabled_def hm_ok_def hm_get_def text_input_new_def context_new_def
        track_host_interface_with_version_def split: if_splits)
  have s: "hm_get (text_inputs c) 5 = Some s" "host_activation s = Draining (HostId 40)"
    by (simp_all add: c_def s_def hm_get_def)
  have "\<not> resumes (shadow_table c) s"
    by (simp add: resumes_def target_activated_def s_def text_input_new_def)
  with drained_text_input_resumes [OF ok s] have "\<exists>c'. complete_host_activation_barrier (HostId 40) c = Some (True, c') \<and>
      text_input_activation_barriers c' (HostId 40) = None \<and> client_to_host_queue c' = []"
    by (auto simp: c_def context_new_def split: option.splits)
  then show ?thesis
    by (simp add: c_def s_def)
qed

end
