(* ===== verification/Text_Input_Keys.thy ===== *)
theory Text_Input_Keys
  imports Text_Input_Focus
begin

text \<open>
  The key side of \<^verbatim>\<open>sommelier/src/handler/text_input.rs\<close>: which keyboard of a seat a host
  \<open>keysym\<close> belongs to, which held key an empty confirmation of the IME stands for, and the
  balanced key pair that replaces a key the host IME consumed.  The fallback map from keysyms
  to key codes is read off xkbcommon's default keymap: the parameter \<open>fallback\<close>.
\<close>

section \<open>Selecting a keyboard\<close>

text \<open>Not in a fallback session: cancelled, or the key is not down.\<close>

definition backspace_held :: "'h ctx_scheme \<Rightarrow> host_id \<Rightarrow> bool" where
  "backspace_held c kb \<longleftrightarrow>
     \<not> backspace_repeat_cancelled (key_generations c) kb EVDEV_KEY_BACKSPACE \<and>
     physically_held (key_generations c) kb EVDEV_KEY_BACKSPACE"

definition backspace_repeat_active_for_keyboard :: "'h ctx_scheme \<Rightarrow> host_id \<Rightarrow> bool" where
  "backspace_repeat_active_for_keyboard c kb \<longleftrightarrow>
     ime_repeat_active (key_generations c) kb EVDEV_KEY_BACKSPACE"

definition keyboard_candidates :: "'h ctx_scheme \<Rightarrow> u32 \<Rightarrow> (u32 \<times> host_id) list" where
  "keyboard_candidates c seat = sort_key fst (seat_keyboards c seat)"

definition first :: "'a list \<Rightarrow> 'a option" where
  "first xs = (case xs of [] \<Rightarrow> None | x # _ \<Rightarrow> Some x)"

definition keyboard_for_seat :: "'h ctx_scheme \<Rightarrow> u32 \<Rightarrow> (u32 \<times> host_id) option" where
  "keyboard_for_seat c seat =
     (let candidates = keyboard_candidates c seat
      in option_or (List.find (\<lambda>(_, kb). backspace_held c kb) candidates) (first candidates))"

definition held_backspace_keyboard_for_seat :: "'h ctx_scheme \<Rightarrow> u32 \<Rightarrow> host_id option" where
  "held_backspace_keyboard_for_seat c seat =
     (case keyboard_for_seat c seat of
        Some (_, kb) \<Rightarrow> if backspace_held c kb then Some kb else None
      | None \<Rightarrow> None)"

text \<open>\<open>Iterator::max_by_key\<close>: the last of the maximal elements.\<close>

fun max_by_key :: "('a \<Rightarrow> 'k :: linorder) \<Rightarrow> 'a list \<Rightarrow> 'a option" where
  "max_by_key k [] = None"
| "max_by_key k (x # xs) = Some (fold (\<lambda>y m. if k m \<le> k y then y else m) xs x)"

record held_repeat_key =
  hr_guest_keyboard :: u32
  hr_host_keyboard :: host_id
  hr_key :: u32
  hr_time :: u32

definition keyboard_is_focused :: "'h ctx_scheme \<Rightarrow> u32 option \<Rightarrow> host_id \<Rightarrow> bool" where
  "keyboard_is_focused c surface kb =
     (case surface of Some s \<Rightarrow> keyboard_owns_surface (kb_focus c) kb s | None \<Rightarrow> False)"

text \<open>Every key a peek has announced on the seat: keyboard, host keyboard, key, press.\<close>

definition peek_candidates ::
    "'h ctx_scheme \<Rightarrow> u32 \<Rightarrow> (u32 \<times> host_id \<times> u32 \<times> peek_key_provenance) list" where
  "peek_candidates c seat =
     concat (map (\<lambda>(g, kb). map (\<lambda>(key, press). (g, kb, key, press))
                  (peek_keys (key_generations c) kb))
       (seat_keyboards c seat))"

definition held_repeat_key_for_seat :: "'h ctx_scheme \<Rightarrow> u32 \<Rightarrow> held_repeat_key option" where
  "held_repeat_key_for_seat c seat =
     (let surface = surface_for_seat (kb_focus c) seat;
          candidates = filter (\<lambda>(_, kb, _). surface = None \<or> keyboard_is_focused c surface kb)
            (peek_candidates c seat)
      in case max_by_key (\<lambda>(_, _, _, press). pk_sequence press) candidates of
           None \<Rightarrow> None
         | Some (g, kb, key, press) \<Rightarrow>
             let r = key_generations c;
                 is_latest = (case latest_peek_sequence r seat surface of
                                Some sequence \<Rightarrow> sequence = pk_sequence press
                              | None \<Rightarrow> True);
                 repeatable = (case keyboard_repeatable_keys c kb of
                                 Some keys \<Rightarrow> key \<in> keys
                               | None \<Rightarrow> False);
                 cancelled = (key = EVDEV_KEY_BACKSPACE \<and>
                   backspace_repeat_cancelled r kb EVDEV_KEY_BACKSPACE)
             in if \<not> is_latest \<or> \<not> physically_held r kb key \<or> \<not> pk_eligible press \<or>
                   \<not> repeatable \<or> cancelled
                then None
                else Some \<lparr>hr_guest_keyboard = g, hr_host_keyboard = kb, hr_key = key,
                           hr_time = pk_time press\<rparr>)"

definition KEY_BackSpace :: u32 where "KEY_BackSpace = 0xff08"

definition keysym_keycode ::
    "(u32 \<Rightarrow> u32 option) \<Rightarrow> 'h ctx_scheme \<Rightarrow> host_id \<Rightarrow> u32 \<Rightarrow> u32 option" where
  "keysym_keycode fallback c kb keysym =
     option_or (Option.bind (keyboard_keysym_to_keycode c kb) (\<lambda>m. m keysym)) (fallback keysym)"

definition keyboard_for_keysym ::
    "(u32 \<Rightarrow> u32 option) \<Rightarrow> 'h ctx_scheme \<Rightarrow> u32 \<Rightarrow> u32 \<Rightarrow> (u32 \<times> host_id) option" where
  "keyboard_for_keysym fallback c seat keysym =
     (let candidates = keyboard_candidates c seat;
          surface = surface_for_seat (kb_focus c) seat;
          is_focused = (\<lambda>(_ :: u32, kb). keyboard_is_focused c surface kb);
          free = (\<lambda>(_ :: u32, kb). \<not> backspace_held c kb);
          peeked = List.map_filter (\<lambda>cand.
              Option.bind (keysym_keycode fallback c (snd cand) keysym) (\<lambda>keycode.
                map_option (\<lambda>press. (pk_sequence press, cand))
                  (peek (key_generations c) (snd cand) keycode)))
            (filter (\<lambda>cand. surface = None \<or> is_focused cand) candidates);
          plain = (keysym \<noteq> KEY_BackSpace)
      in case max_by_key fst peeked of
           Some (_, cand) \<Rightarrow> Some cand
         | None \<Rightarrow>
             option_or (if plain then List.find (\<lambda>cand. is_focused cand \<and> free cand) candidates else None)
            (option_or (List.find is_focused candidates)
            (option_or (if plain then List.find free candidates else None)
            (option_or (keyboard_for_seat c seat) (first candidates)))))"

section \<open>Recovering a consumed key\<close>

definition EVT_KEY :: u16 where "EVT_KEY = 3"

text \<open>One \<open>wl_keyboard.key\<close> of the pair, under the next synthetic serial, which is never 0.\<close>

definition synthesize_key :: "held_repeat_key \<Rightarrow> u32 \<Rightarrow> 'h ctx_scheme \<Rightarrow> 'h ctx_scheme" where
  "synthesize_key held state c =
     (let serial = max (synthetic_keyboard_serial c + 1) 1
      in c\<lparr>synthetic_keyboard_serial := serial,
           host_to_client_queue := snd (push_msg (host_to_client_queue c) (hr_guest_keyboard held) EVT_KEY
             (write_u32 state (write_u32 (hr_key held) (write_u32 (hr_time held)
               (write_u32 serial message_builder_new)))))\<rparr>)"

definition synthesize_ime_consumed_key_pair ::
    "held_repeat_key \<Rightarrow> 'h ctx_scheme \<Rightarrow> (bool \<times> 'h ctx_scheme) option" where
  "synthesize_ime_consumed_key_pair held c =
     (case transition_guest_key (hr_host_keyboard held) (hr_key held) RecoverIme (key_generations c) of
        None \<Rightarrow> None
      | Some (decision, r) \<Rightarrow>
          let c1 = c\<lparr>key_generations := r\<rparr>
          in if delivery decision \<noteq> EmitBalancedPair then Some (False, c1)
             else Some (True, fold (synthesize_key held) [1, 0] c1))"

end
