(* ===== verification/Text_Input_Handler.thy ===== *)
theory Text_Input_Handler
  imports Text_Input_Keys
begin

unbundle bit_operations_syntax

text \<open>
  The text-input handlers of \<^verbatim>\<open>sommelier/src/handler/text_input.rs\<close>: the events of the host's
  \<open>zwp_text_input_v1\<close> and \<open>zcr_extended_text_input_v1\<close>, translated for the guest, and the
  requests of the guest's \<open>zwp_text_input_v3\<close>, translated for the host.  Handlers that only
  log are left out.  Every message is dropped after its handler, so a handler returns the new
  context only; \<open>None\<close> is a panic.
\<close>

section \<open>Translations\<close>

definition sat_add :: "u32 \<Rightarrow> u32 \<Rightarrow> u32" where
  "sat_add a b = (if unat a + unat b < 2 ^ 32 then a + b else 0xffffffff)"

definition resolve_preedit_cursor ::
    "rust_string \<Rightarrow> (u32 \<times> u32) option \<Rightarrow> i32 option \<Rightarrow> i32 \<times> i32" where
  "resolve_preedit_cursor str selection cursor =
     (let len = of_nat (length str) :: u32;
          at_end = (as_i32 len, as_i32 len)
      in case selection of
           Some (index, n) \<Rightarrow>
             let e = sat_add index n
             in if e \<le> len \<and> is_char_boundary str (unat index) \<and> is_char_boundary str (unat e)
                then (as_i32 index, as_i32 e) else at_end
         | None \<Rightarrow>
             (case cursor of
                Some i \<Rightarrow>
                  if i < 0 then (- 1, - 1)
                  else if nat i \<le> length str \<and> is_char_boundary str (nat i) then (i, i)
                  else at_end
              | None \<Rightarrow> at_end))"

definition convert_delete_range :: "i32 \<Rightarrow> u32 \<Rightarrow> (u32 \<times> u32) option" where
  "convert_delete_range index len =
     (let end' = index + uint len
      in if index > 0 \<or> end' < 0 then None
         else Some (word_of_int \<bar>index\<bar>, word_of_int end'))"

definition extension_version_allows :: "u32 \<Rightarrow> u32 \<Rightarrow> bool" where
  "extension_version_allows version required \<longleftrightarrow> version = 0xffffffff \<or> version \<ge> required"

record v1_content_type =
  ct_hint :: u32
  ct_purpose :: u32
  ct_input_type :: u32
  ct_input_mode :: u32
  ct_input_flags :: u32
  ct_learning_mode :: u32

definition map_input_type :: "u32 \<Rightarrow> bool \<Rightarrow> u32" where
  "map_input_type purpose multiline =
     (if purpose \<in> {0, 1, 7} \<and> multiline then 14
      else if purpose \<in> {2, 3, 9} then 5
      else if purpose = 4 then 6
      else if purpose = 5 then 7
      else if purpose = 6 then 4
      else if purpose = 8 then 2
      else if purpose = 10 then 8
      else if purpose = 11 then 12
      else if purpose = 12 then 9
      else 1)"

definition map_input_mode :: "u32 \<Rightarrow> u32" where
  "map_input_mode purpose =
     (if purpose = 2 \<or> purpose = 9 then 6
      else if purpose = 3 then 7
      else if purpose = 4 then 3
      else if purpose = 5 then 4
      else if purpose = 6 then 5
      else 0)"

definition when_bit :: "u32 \<Rightarrow> u32 \<Rightarrow> u32 \<Rightarrow> u32" where
  "when_bit hint m flag = (if hint AND m \<noteq> 0 then flag else 0)"

definition map_input_flags :: "u32 \<Rightarrow> u32 \<Rightarrow> u32" where
  "map_input_flags hint purpose =
     when_bit hint 0x1 (push_bit 0 1) OR when_bit hint 0x2 (push_bit 4 1) OR
     when_bit hint 0x4 (push_bit 9 1) OR when_bit hint 0x8 (push_bit 6 1) OR
     when_bit hint 0x10 (push_bit 7 1) OR when_bit hint 0x20 (push_bit 8 1) OR
     (if hint AND 0xC0 \<noteq> 0 \<or> purpose = 8 \<or> purpose = 9 then push_bit 10 1 else 0)"

definition map_v3_content_type :: "u32 \<Rightarrow> u32 \<Rightarrow> v1_content_type" where
  "map_v3_content_type hint purpose =
     \<lparr>ct_hint = (if purpose = 9 then hint OR 0x80 else hint),
      ct_purpose = (if purpose \<le> 8 then purpose else if purpose = 9 then 2
                    else if purpose = 10 then 9 else if purpose = 11 then 10
                    else if purpose = 12 then 11 else if purpose = 13 then 12 else 0),
      ct_input_type = map_input_type purpose (hint AND 0x200 \<noteq> 0),
      ct_input_mode = map_input_mode purpose,
      ct_input_flags = map_input_flags hint purpose,
      ct_learning_mode = (if \<not> (purpose = 8 \<or> purpose = 9) \<and> hint AND 0xC0 = 0 then 1 else 0)\<rparr>"

section \<open>Host events of the v1 object\<close>

text \<open>The v3 events: \<open>preedit_string\<close> (2), \<open>commit_string\<close> (3), \<open>delete_surrounding_text\<close> (4), \<open>done\<close> (5).\<close>

definition preedit_msg :: "u32 \<Rightarrow> rust_string \<Rightarrow> i32 \<times> i32 \<Rightarrow> request" where
  "preedit_msg guest str cur =
     (guest, 2, write_i32 (snd cur) (write_i32 (fst cur) (write_string str message_builder_new)))"

definition commit_msg :: "u32 \<Rightarrow> rust_string \<Rightarrow> request" where
  "commit_msg guest str = (guest, 3, write_string str message_builder_new)"

definition delete_msg :: "u32 \<Rightarrow> u32 \<times> u32 \<Rightarrow> request" where
  "delete_msg guest d = (guest, 4, write_u32 (snd d) (write_u32 (fst d) message_builder_new))"

definition done_msg :: "u32 \<Rightarrow> u32 \<Rightarrow> request" where
  "done_msg guest serial = (guest, 5, write_u32 serial message_builder_new)"

text \<open>The text input behind the host object that sent the event.\<close>

definition sender_text_input :: "'h ctx_scheme \<Rightarrow> (u32 \<times> text_input_state) option" where
  "sender_text_input c =
     Option.bind (get_guest_id (shadow_table c) (last_sender_id c)) (\<lambda>guest.
       map_option (Pair guest) (hm_get (text_inputs c) guest))"

definition queue_to_guest :: "packet list \<Rightarrow> 'h ctx_scheme \<Rightarrow> 'h ctx_scheme" where
  "queue_to_guest ms c = c\<lparr>host_to_client_queue := host_to_client_queue c @ ms\<rparr>"

definition preedit_messages :: "u32 \<Rightarrow> host_preedit_plan \<Rightarrow> rust_string \<Rightarrow> rust_string \<Rightarrow> request list" where
  "preedit_messages guest plan str reset_text =
     (if hp_had_preedit plan \<and> str = [] \<and> reset_text \<noteq> [] then [commit_msg guest reset_text] else []) @
     [preedit_msg guest str (resolve_preedit_cursor str (hp_selection plan) (hp_cursor plan)),
      done_msg guest (hp_done_serial plan)]"

definition v1_on_preedit_string ::
    "u32 \<Rightarrow> rust_string \<Rightarrow> rust_string \<Rightarrow> 'h ctx_scheme \<Rightarrow> 'h ctx_scheme option" where
  "v1_on_preedit_string serial str reset_text c =
     (case sender_text_input c of
        None \<Rightarrow> Some c
      | Some (guest, s) \<Rightarrow>
          (case prepare_host_preedit s of
             None \<Rightarrow> Some c
           | Some plan \<Rightarrow>
               let seat = hp_guest_seat plan;
                   repeat_keyboard = held_backspace_keyboard_for_seat c seat
               in case transaction (preedit_messages guest plan str reset_text) of
                    None \<Rightarrow> Some c
                  | Some ms \<Rightarrow>
                      (case finish_host_preedit plan str (reset_text = []) (repeat_keyboard \<noteq> None) s of
                         None \<Rightarrow> None
                       | Some (arm, s') \<Rightarrow>
                           let c1 = put_text_input guest s' c
                           in map_option (queue_to_guest ms)
                                (if arm then
                                   (case repeat_keyboard of
                                      None \<Rightarrow> None
                                    | Some kb \<Rightarrow>
                                        (case arm_ime_repeat kb EVDEV_KEY_BACKSPACE guest (key_generations c1) of
                                           (armed, r) \<Rightarrow>
                                             if armed then Some (c1\<lparr>key_generations := r\<rparr>) else None))
                                 else Some (end_backspace_repeat_for_text_input seat guest c1)))))"

definition commit_messages :: "u32 \<Rightarrow> host_commit_plan \<Rightarrow> rust_string \<Rightarrow> request list" where
  "commit_messages guest plan str =
     (if hc_had_preedit plan then [preedit_msg guest [] (0, 0)] else []) @
     map (delete_msg guest) (hc_deletes plan) @
     [commit_msg guest str, done_msg guest (hc_done_serial plan)]"

definition v1_on_commit_string :: "u32 \<Rightarrow> rust_string \<Rightarrow> 'h ctx_scheme \<Rightarrow> 'h ctx_scheme option" where
  "v1_on_commit_string serial str c =
     (case sender_text_input c of
        None \<Rightarrow> Some c
      | Some (guest, s) \<Rightarrow>
          (case prepare_host_commit s of
             None \<Rightarrow> Some c
           | Some plan \<Rightarrow>
               (case transaction (commit_messages guest plan str) of
                  None \<Rightarrow> Some c
                | Some ms \<Rightarrow>
                    (case finish_host_commit plan s of
                       None \<Rightarrow> None
                     | Some s' \<Rightarrow>
                         Some (queue_to_guest ms
                           (end_backspace_repeat_for_text_input (hc_guest_seat plan) guest
                              (put_text_input guest s' c)))))))"

definition WL_KEY_RELEASED :: u32 where "WL_KEY_RELEASED = 0"
definition WL_KEY_PRESSED :: u32 where "WL_KEY_PRESSED = 1"
definition WL_KEY_REPEATED :: u32 where "WL_KEY_REPEATED = 2"

text \<open>Exo sends the timestamp in \<open>serial\<close> and the serial in \<open>time\<close>.\<close>

definition v1_on_keysym ::
    "(u32 \<Rightarrow> u32 option) \<Rightarrow> u32 \<Rightarrow> u32 \<Rightarrow> u32 \<Rightarrow> u32 \<Rightarrow> 'h ctx_scheme \<Rightarrow> 'h ctx_scheme option" where
  "v1_on_keysym fallback serial time keysym state c =
     (let timestamp_millis = serial; wayland_serial = time
      in case active_guest_for_host_text_input c (last_sender_id c) of
           None \<Rightarrow> Some c
         | Some guest \<Rightarrow>
             let seat = map_option guest_seat (hm_get (text_inputs c) guest)
             in case Option.bind seat (\<lambda>x. keyboard_for_keysym fallback c x keysym) of
                  None \<Rightarrow> Some c
                | Some (keyboard, kb) \<Rightarrow>
                    if state \<notin> {WL_KEY_PRESSED, WL_KEY_REPEATED, WL_KEY_RELEASED} then Some c
                    else case keysym_keycode fallback c kb keysym of
                      None \<Rightarrow> Some c
                    | Some keycode \<Rightarrow>
                        let event = (if state = WL_KEY_PRESSED then TextInputPress wayland_serial
                                     else if state = WL_KEY_REPEATED then TextInputRepeat
                                     else TextInputRelease wayland_serial)
                        in case transition_guest_key kb keycode event (key_generations c) of
                             None \<Rightarrow> None
                           | Some (decision, r) \<Rightarrow>
                               let c1 = c\<lparr>key_generations := r\<rparr>
                               in if delivery decision \<noteq> ForwardKey then Some c1
                                  else
                                    let stops =
                                          ((state = WL_KEY_PRESSED \<or> state = WL_KEY_REPEATED) \<and>
                                             keycode \<noteq> EVDEV_KEY_BACKSPACE \<or>
                                           ends_repeat decision \<and> keycode = EVDEV_KEY_BACKSPACE);
                                        c2 = (case seat of
                                                Some x \<Rightarrow> if stops then end_backspace_repeat_for_seat x c1 else c1
                                              | None \<Rightarrow> c1)
                                    in Some (c2\<lparr>host_to_client_queue :=
                                         snd (push_msg (host_to_client_queue c2) keyboard 3
                                           (write_u32 state (write_u32 keycode (write_u32 timestamp_millis
                                              (write_u32 wayland_serial message_builder_new)))))\<rparr>))"

definition for_active_text_input ::
    "(text_input_state \<Rightarrow> text_input_state) \<Rightarrow> 'h ctx_scheme \<Rightarrow> 'h ctx_scheme" where
  "for_active_text_input f c =
     (case active_guest_for_host_text_input c (last_sender_id c) of
        Some guest \<Rightarrow> modify_text_input guest f c
      | None \<Rightarrow> c)"

definition v1_on_preedit_styling :: "u32 \<Rightarrow> u32 \<Rightarrow> u32 \<Rightarrow> 'h ctx_scheme \<Rightarrow> 'h ctx_scheme" where
  "v1_on_preedit_styling index len style c =
     (if style = 6 then for_active_text_input (record_preedit_selection index len) c else c)"

definition v1_on_preedit_cursor :: "i32 \<Rightarrow> 'h ctx_scheme \<Rightarrow> 'h ctx_scheme" where
  "v1_on_preedit_cursor index c = for_active_text_input (record_preedit_cursor index) c"

definition v1_on_cursor_position :: "i32 \<Rightarrow> i32 \<Rightarrow> 'h ctx_scheme \<Rightarrow> 'h ctx_scheme" where
  "v1_on_cursor_position index anchor c = for_active_text_input (record_cursor_position index anchor) c"

definition v1_on_delete_surrounding_text :: "i32 \<Rightarrow> u32 \<Rightarrow> 'h ctx_scheme \<Rightarrow> 'h ctx_scheme" where
  "v1_on_delete_surrounding_text index len c =
     (case convert_delete_range index len of
        None \<Rightarrow> c
      | Some (before, after) \<Rightarrow> for_active_text_input (\<lambda>s. snd (record_delete before after s)) c)"

section \<open>Host events of the extension\<close>

definition extension_text_input :: "'h ctx_scheme \<Rightarrow> (u32 \<times> text_input_state) option" where
  "extension_text_input c =
     List.find (\<lambda>(_, s). host_ext_id s = Some (last_sender_id c)) (text_inputs c)"

text \<open>The byte range of the surrounding text that the region names, adjacent to the cursor.\<close>

definition region_valid :: "rust_string \<Rightarrow> i32 \<Rightarrow> i32 \<Rightarrow> u32 \<Rightarrow> bool" where
  "region_valid str cursor index len =
     (let start = cursor + index; stop = start + uint len
      in start \<ge> 0 \<and> stop \<le> int (length str) \<and>
         is_char_boundary str (nat start) \<and> is_char_boundary str (nat stop) \<and>
         start \<le> cursor \<and> stop \<ge> cursor)"

definition region_messages :: "u32 \<Rightarrow> preedit_region_plan \<Rightarrow> i32 \<Rightarrow> u32 \<Rightarrow> rust_string \<times> request list" where
  "region_messages guest plan index len =
     (let str = pr_surrounding_text plan;
          cursor = pr_surrounding_cursor plan;
          start = cursor + index;
          stop = start + uint len;
          preedit = slice str (nat start) (nat stop);
          before = (if start < cursor then word_of_int (cursor - start) else 0);
          after = (if stop > cursor then word_of_int (stop - cursor) else 0);
          default_cursor = as_i32 (word_of_int (cursor - start));
          range = resolve_preedit_cursor preedit (pr_selection plan)
                    (option_or (pr_cursor plan) (Some default_cursor))
      in (preedit, [delete_msg guest (before, after), preedit_msg guest preedit range,
                    done_msg guest (pr_done_serial plan)]))"

definition ext_on_set_preedit_region :: "i32 \<Rightarrow> u32 \<Rightarrow> 'h ctx_scheme \<Rightarrow> 'h ctx_scheme option" where
  "ext_on_set_preedit_region index len c =
     (case extension_text_input c of
        None \<Rightarrow> Some c
      | Some (guest, s) \<Rightarrow>
          (case prepare_preedit_region s of
             None \<Rightarrow> Some c
           | Some plan \<Rightarrow>
               if \<not> region_valid (pr_surrounding_text plan) (pr_surrounding_cursor plan) index len
               then Some c
               else case region_messages guest plan index len of
                 (preedit, requests) \<Rightarrow>
                   (case transaction requests of
                      None \<Rightarrow> Some c
                    | Some ms \<Rightarrow>
                        (case finish_preedit_region plan preedit s of
                           None \<Rightarrow> None
                         | Some s' \<Rightarrow>
                             Some (queue_to_guest ms
                               (end_backspace_repeat_for_text_input (pr_guest_seat plan) guest
                                  (put_text_input guest s' c)))))))"

text \<open>An empty confirmation: the IME consumed a held key, or nothing happened.\<close>

definition confirm_empty :: "u32 \<Rightarrow> confirm_preedit_plan \<Rightarrow> 'h ctx_scheme \<Rightarrow> 'h ctx_scheme option" where
  "confirm_empty guest plan c =
     (let seat = cp_guest_seat plan
      in case held_repeat_key_for_seat c seat of
           None \<Rightarrow> Some (end_backspace_repeat_for_text_input seat guest c)
         | Some held \<Rightarrow>
             let backspace_repeat = (hr_key held = EVDEV_KEY_BACKSPACE)
             in map_option (push_done guest (cp_done_serial plan))
                  (case synthesize_ime_consumed_key_pair held c of
                     None \<Rightarrow> None
                   | Some (True, c1) \<Rightarrow>
                       if backspace_repeat then
                         (case arm_ime_repeat (hr_host_keyboard held) (hr_key held) guest
                                 (key_generations c1) of
                            (armed, r) \<Rightarrow> if armed then Some (c1\<lparr>key_generations := r\<rparr>) else None)
                       else Some (end_backspace_repeat_for_text_input seat guest c1)
                   | Some (False, c1) \<Rightarrow>
                       Some (if backspace_repeat then end_backspace_repeat_for_text_input seat guest c1
                             else c1)))"

definition confirm_messages :: "u32 \<Rightarrow> confirm_preedit_plan \<Rightarrow> request list" where
  "confirm_messages guest plan =
     [preedit_msg guest [] (0, 0), commit_msg guest (cp_preedit_text plan),
      done_msg guest (cp_done_serial plan)]"

definition ext_on_confirm_preedit :: "'h ctx_scheme \<Rightarrow> 'h ctx_scheme option" where
  "ext_on_confirm_preedit c =
     (case extension_text_input c of
        None \<Rightarrow> Some c
      | Some (guest, _) \<Rightarrow>
          (case hm_get (text_inputs c) guest of
             None \<Rightarrow> Some c
           | Some s \<Rightarrow>
               (case prepare_confirm_preedit s of
                  None \<Rightarrow> Some c
                | Some plan \<Rightarrow>
                    if cp_preedit_text plan = [] then confirm_empty guest plan c
                    else case transaction (confirm_messages guest plan) of
                      None \<Rightarrow> Some c
                    | Some ms \<Rightarrow>
                        (case finish_confirm_preedit plan s of
                           None \<Rightarrow> None
                         | Some s' \<Rightarrow>
                             Some (queue_to_guest ms
                               (end_backspace_repeat_for_text_input (cp_guest_seat plan) guest
                                  (put_text_input guest s' c)))))))"

section \<open>Guest requests\<close>

definition to_host :: "u32 \<Rightarrow> u16 \<Rightarrow> message_builder \<Rightarrow> 'h ctx_scheme \<Rightarrow> 'h ctx_scheme" where
  "to_host sender opcode builder c =
     c\<lparr>client_to_host_queue := snd (push_msg (client_to_host_queue c) sender opcode builder)\<rparr>"

definition to_guest :: "u32 \<Rightarrow> u16 \<Rightarrow> message_builder \<Rightarrow> 'h ctx_scheme \<Rightarrow> 'h ctx_scheme" where
  "to_guest sender opcode builder c =
     c\<lparr>host_to_client_queue := snd (push_msg (host_to_client_queue c) sender opcode builder)\<rparr>"

text \<open>The extension object of a new text input, if the host has the extension manager.\<close>

definition create_extension :: "u32 \<Rightarrow> 'h ctx_scheme \<Rightarrow> (u32 option \<times> 'h ctx_scheme) option" where
  "create_extension v1 c =
     (case host_text_input_extension_v1_id c of
        None \<Rightarrow> Some (None, c)
      | Some manager \<Rightarrow>
          (case allocate_host_id (shadow_table c) of
             (None, _) \<Rightarrow> None
           | (Some ext, t) \<Rightarrow>
               Some (Some ext, to_host manager 0 (write_u32 v1 (write_u32 ext message_builder_new))
                 (c\<lparr>shadow_table := t\<rparr>))))"

definition track_extension :: "u32 option \<Rightarrow> 'h ctx_scheme \<Rightarrow> 'h ctx_scheme" where
  "track_extension ext c =
     (case ext of
        None \<Rightarrow> c
      | Some e \<Rightarrow>
          let version = (case Option.bind (host_text_input_extension_v1_id c)
                                (host_object_version (shadow_table c)) of
                           Some v \<Rightarrow> v
                         | None \<Rightarrow> 0xffffffff)
          in c\<lparr>shadow_table := track_host_interface_with_version e ''zcr_extended_text_input_v1''
                                version (shadow_table c)\<rparr>)"

definition v3_on_get_text_input :: "u32 \<Rightarrow> u32 \<Rightarrow> 'h ctx_scheme \<Rightarrow> 'h ctx_scheme option" where
  "v3_on_get_text_input i seat c =
     (case host_text_input_manager_v1_id c of
        None \<Rightarrow> Some c
      | Some manager \<Rightarrow>
          (case allocate_host_id (shadow_table c) of
             (None, _) \<Rightarrow> None
           | (Some v1, t) \<Rightarrow>
               (case create_extension v1
                       (to_host manager 0 (write_u32 v1 message_builder_new) (c\<lparr>shadow_table := t\<rparr>)) of
                  None \<Rightarrow> None
                | Some (ext, c1) \<Rightarrow>
                    let c2 = track_extension ext (c1\<lparr>shadow_table :=
                          track_host_interface_with_version v1 ''zwp_text_input_v1'' 1
                            (track_interface_with_version i ''zwp_text_input_v3'' 1
                              (map_id i v1 (shadow_table c1)))\<rparr>);
                        surface = surface_for_seat (kb_focus c2) seat;
                        c3 = put_text_input i (text_input_new v1 ext seat surface) c2
                    in Some (case surface of
                               Some x \<Rightarrow> to_guest i 0 (write_u32 x message_builder_new) c3
                             | None \<Rightarrow> c3))))"

definition remove_text_input_mapping :: "u32 \<Rightarrow> 'h ctx_scheme \<Rightarrow> 'h ctx_scheme" where
  "remove_text_input_mapping guest c =
     (case queue_guest_delete_id guest c of
        (ok, c1) \<Rightarrow>
          if ok then c1\<lparr>shadow_table := remove_guest_mapping guest (shadow_table c1)\<rparr> else c1)"

text \<open>What \<open>on_destroy\<close> does with the state it took out of the map.\<close>

definition finish_destroy :: "u32 \<Rightarrow> text_input_state \<Rightarrow> 'h ctx_scheme \<Rightarrow> 'h ctx_scheme" where
  "finish_destroy guest s c =
     remove_text_input_mapping guest
       (case host_ext_id s of
          Some ext \<Rightarrow>
            let d = to_host ext 0 message_builder_new c
            in d\<lparr>shadow_table := snd (mark_pending_destroy_host ext (shadow_table d))\<rparr>
        | None \<Rightarrow> c)"

definition v3_on_destroy :: "'h ctx_scheme \<Rightarrow> 'h ctx_scheme option" where
  "v3_on_destroy c =
     (let guest = last_sender_id c;
          seat = map_option guest_seat (hm_get (text_inputs c) guest);
          c1 = modify_text_input guest begin_destroy c;
          c2 = (case seat of
                  Some x \<Rightarrow> end_backspace_repeat_for_text_input x guest c1
                | None \<Rightarrow> c1)
      in map_option (\<lambda>d.
           case hm_get (text_inputs d) guest of
             None \<Rightarrow> remove_text_input_mapping guest d
           | Some s \<Rightarrow> finish_destroy guest s (d\<lparr>text_inputs := hm_remove guest (text_inputs d)\<rparr>))
           (update_host_activation guest c2))"

text \<open>A request on the text input that sent it, ignored while it is not entered.\<close>

definition when_focused :: "(text_input_state \<Rightarrow> text_input_state) \<Rightarrow> 'h ctx_scheme \<Rightarrow> 'h ctx_scheme" where
  "when_focused f c =
     (if v3_is_focused c (last_sender_id c) then modify_text_input (last_sender_id c) f c else c)"

definition v3_on_enable :: "'h ctx_scheme \<Rightarrow> 'h ctx_scheme" where
  "v3_on_enable c = when_focused (begin_enabled_transaction True) c"

definition v3_on_disable :: "'h ctx_scheme \<Rightarrow> 'h ctx_scheme" where
  "v3_on_disable c = when_focused (begin_enabled_transaction False) c"

definition surrounding_valid :: "rust_string \<Rightarrow> i32 \<Rightarrow> i32 \<Rightarrow> bool" where
  "surrounding_valid str cursor anchor \<longleftrightarrow>
     cursor \<ge> 0 \<and> anchor \<ge> 0 \<and> nat cursor \<le> length str \<and> nat anchor \<le> length str \<and>
     is_char_boundary str (nat cursor) \<and> is_char_boundary str (nat anchor)"

definition v3_on_set_surrounding_text :: "rust_string \<Rightarrow> i32 \<Rightarrow> i32 \<Rightarrow> 'h ctx_scheme \<Rightarrow> 'h ctx_scheme" where
  "v3_on_set_surrounding_text str cursor anchor c =
     (if surrounding_valid str cursor anchor
      then when_focused (set_surrounding_text str cursor anchor) c else c)"

definition v3_on_set_text_change_cause :: "u32 \<Rightarrow> 'h ctx_scheme \<Rightarrow> 'h ctx_scheme" where
  "v3_on_set_text_change_cause cause c = when_focused (set_text_change_cause cause) c"

definition v3_on_set_content_type :: "u32 \<Rightarrow> u32 \<Rightarrow> 'h ctx_scheme \<Rightarrow> 'h ctx_scheme" where
  "v3_on_set_content_type hint purpose c = when_focused (set_content_type hint purpose) c"

definition v3_on_set_cursor_rectangle :: "i32 \<Rightarrow> i32 \<Rightarrow> i32 \<Rightarrow> i32 \<Rightarrow> 'h ctx_scheme \<Rightarrow> 'h ctx_scheme" where
  "v3_on_set_cursor_rectangle x y width height c = when_focused (set_cursor_rect (x, y, width, height)) c"

subsection \<open>The commit\<close>

definition has_enable_conflict :: "'h ctx_scheme \<Rightarrow> u32 \<Rightarrow> text_input_state \<Rightarrow> bool" where
  "has_enable_conflict c guest s \<longleftrightarrow>
     enabled_dirty s \<and> pending_enabled s \<and>
     list_ex (\<lambda>(i, other). i \<noteq> guest \<and> guest_seat other = guest_seat s \<and> committed_enabled other)
       (text_inputs c)"

definition surrounding_requests :: "guest_commit_plan \<Rightarrow> request list" where
  "surrounding_requests p =
     (case gc_surrounding_text p of
        None \<Rightarrow> []
      | Some None \<Rightarrow>
          [(gc_host_v1_id p, 5, write_u32 0 (write_u32 0 (write_string [] message_builder_new)))]
      | Some (Some (str, cursor, anchor)) \<Rightarrow>
          [(gc_host_v1_id p, 5, write_u32 (as_u32 anchor) (write_u32 (as_u32 cursor)
              (write_string str message_builder_new)))])"

definition extension_version :: "shadow_table \<Rightarrow> u32 \<Rightarrow> u32" where
  "extension_version t ext = (case host_object_version t ext of Some v \<Rightarrow> v | None \<Rightarrow> 0xffffffff)"

text \<open>
  \<open>set_surrounding_text_support\<close> (7, since version 9) goes before the content type; the
  input type is opcode 6 since version 8, and opcode 1 from version 2 to 7.
\<close>

definition content_type_requests :: "shadow_table \<Rightarrow> guest_commit_plan \<Rightarrow> request list" where
  "content_type_requests t p =
     (case gc_content_type p of
        None \<Rightarrow> []
      | Some (hint, purpose) \<Rightarrow>
          let ct = map_v3_content_type hint purpose;
              extended = write_u32 (ct_learning_mode ct) (write_u32 (ct_input_flags ct)
                (write_u32 (ct_input_mode ct) (write_u32 (ct_input_type ct) message_builder_new)))
          in (case gc_host_ext_id p of
                Some ext \<Rightarrow>
                  if extension_version_allows (extension_version t ext) 9
                  then [(ext, 7, write_u32 (of_bool (gc_has_surrounding_text p)) message_builder_new)]
                  else []
              | None \<Rightarrow> []) @
             [(gc_host_v1_id p, 6, write_u32 (ct_purpose ct) (write_u32 (ct_hint ct) message_builder_new))] @
             (case gc_host_ext_id p of
                Some ext \<Rightarrow>
                  if extension_version_allows (extension_version t ext) 8
                  then [(ext, 6, write_u32 1 extended)]
                  else if extension_version_allows (extension_version t ext) 2
                  then [(ext, 1, extended)]
                  else []
              | None \<Rightarrow> []))"

definition cursor_rect_requests :: "guest_commit_plan \<Rightarrow> request list" where
  "cursor_rect_requests p =
     (case gc_cursor_rect p of
        None \<Rightarrow> []
      | Some (x, y, w, h) \<Rightarrow>
          [(gc_host_v1_id p, 7,
            write_i32 h (write_i32 w (write_i32 y (write_i32 x message_builder_new))))])"

definition guest_commit_requests :: "shadow_table \<Rightarrow> guest_commit_plan \<Rightarrow> request list" where
  "guest_commit_requests t p =
     surrounding_requests p @ content_type_requests t p @ cursor_rect_requests p @
     [(gc_host_v1_id p, 9, write_u32 (gc_serial p) message_builder_new)]"

definition v3_on_commit :: "'h ctx_scheme \<Rightarrow> 'h ctx_scheme option" where
  "v3_on_commit c =
     (let guest = last_sender_id c
      in if \<not> v3_is_focused c guest then Some c
         else case hm_get (text_inputs c) guest of
           None \<Rightarrow> Some c
         | Some s \<Rightarrow>
             let plan = prepare_guest_commit (has_enable_conflict c guest s) s
             in case transaction (guest_commit_requests (shadow_table c) plan) of
                  None \<Rightarrow> Some c
                | Some ms \<Rightarrow>
                    (case finish_guest_commit plan s of
                       None \<Rightarrow> None
                     | Some s' \<Rightarrow>
                         let c1 = put_text_input guest s' c;
                             c2 = (if gc_resets_composition plan
                                   then end_backspace_repeat_for_text_input (gc_guest_seat plan) guest c1
                                   else c1)
                         in map_option (\<lambda>d. d\<lparr>client_to_host_queue := client_to_host_queue d @ ms\<rparr>)
                              (update_host_activation guest c2)))"

section \<open>The handlers keep the bridge\<close>

text \<open>What the invariant reads of a text input.\<close>

definition core :: "text_input_state \<Rightarrow> u32 \<times> u32 option \<times> u32 \<times> bool \<times> host_activation_state" where
  "core s = (host_v1_id s, host_ext_id s, guest_seat s, committed_enabled s, host_activation s)"

lemma bridge_ok_put_core:
  assumes ok: "bridge_ok G c" and s: "hm_get (text_inputs c) g = Some s" and "core s' = core s"
  shows "bridge_ok G (put_text_input g s' c)"
  using assms(3) bridge_okD(1,2) [OF ok s] by (intro bridge_ok_put [OF ok s]) (auto simp: core_def)

lemma bridge_ok_modify:
  "bridge_ok G c \<Longrightarrow> (\<And>s. core (f s) = core s) \<Longrightarrow> bridge_ok G (modify_text_input g f c)"
  by (auto simp: modify_text_input_def bridge_ok_put_core split: option.split)

lemma bridge_ok_queues [simp]:
  "bridge_ok G (c\<lparr>host_to_client_queue := q\<rparr>) = bridge_ok G c"
  "bridge_ok G (c\<lparr>client_to_host_queue := q\<rparr>) = bridge_ok G c"
  "bridge_ok G (queue_to_guest ms c) = bridge_ok G c"
  "bridge_ok G (to_host sender op b c) = bridge_ok G c"
  "bridge_ok G (to_guest sender op b c) = bridge_ok G c"
  "bridge_ok G (push_done g serial c) = bridge_ok G c"
  "bridge_ok G (c\<lparr>last_sender_id := i\<rparr>) = bridge_ok G c"
  "bridge_ok G (synthesize_key held state c) = bridge_ok G c"
  by (rule bridge_ok_cong; simp add: queue_to_guest_def to_host_def to_guest_def push_done_def
      synthesize_key_def Let_def)+

lemma core_simps [simp]:
  "core (record_preedit_selection index len s) = core s" "core (record_preedit_cursor i s) = core s"
  "core (record_cursor_position i anchor s) = core s" "core (snd (record_delete b a s)) = core s"
  "core (begin_enabled_transaction e s) = core s" "core (set_surrounding_text str i anchor s) = core s"
  "core (set_text_change_cause cause s) = core s" "core (set_content_type h p s) = core s"
  "core (set_cursor_rect r s) = core s" "core (clear_host_composition s) = core s"
  by (simp_all add: core_def host_op_defs guest_op_defs)

lemma core_finish:
  "finish_host_preedit p str blank held s = Some (arm, s') \<Longrightarrow> core s' = core s"
  "finish_host_commit q s = Some s' \<Longrightarrow> core s' = core s"
  "finish_preedit_region r str s = Some s' \<Longrightarrow> core s' = core s"
  "finish_confirm_preedit t s = Some s' \<Longrightarrow> core s' = core s"
  by (auto simp: finish_host_preedit_def finish_host_commit_def finish_preedit_region_def
      finish_confirm_preedit_def core_def clear_host_composition_def split: if_splits)

lemma sender_text_inputD:
  "sender_text_input c = Some (g, s) \<Longrightarrow> hm_get (text_inputs c) g = Some s"
  by (auto simp: sender_text_input_def split: bind_splits)

lemma extension_text_inputD:
  assumes "hm_ok (text_inputs c)" and "extension_text_input c = Some (g, s)"
  shows "hm_get (text_inputs c) g = Some s \<and> host_ext_id s = Some (last_sender_id c)"
proof -
  have "List.find P xs = Some y \<Longrightarrow> y \<in> set xs \<and> P y" for P and xs :: "'x list" and y
    by (induction xs) (auto split: if_splits)
  from this [OF assms(2) [unfolded extension_text_input_def]]
  have "(g, s) \<in> set (text_inputs c) \<and> host_ext_id s = Some (last_sender_id c)"
    by simp
  then show ?thesis
    using hm.entries_get [OF assms(1)] by simp
qed

lemma preedit_keeps:
  assumes ok: "bridge_ok G c" and e: "v1_on_preedit_string serial str reset_text c = Some c'"
  shows "bridge_ok G c'"
  using ok e unfolding v1_on_preedit_string_def Let_def
  by (auto split: option.splits if_splits prod.splits
      simp: bridge_ok_put_core [OF ok sender_text_inputD core_finish(1)])

lemma commit_string_keeps:
  assumes ok: "bridge_ok G c" and e: "v1_on_commit_string serial str c = Some c'"
  shows "bridge_ok G c'"
  using ok e unfolding v1_on_commit_string_def
  by (auto split: option.splits prod.splits
      simp: bridge_ok_put_core [OF ok sender_text_inputD core_finish(2)])

lemma keysym_keeps:
  assumes ok: "bridge_ok G c" and e: "v1_on_keysym fallback serial time keysym state c = Some c'"
  shows "bridge_ok G c'"
  using ok e unfolding v1_on_keysym_def Let_def
  by (auto split: option.splits if_splits prod.splits)

lemma bridge_hm_ok: "bridge_ok G c \<Longrightarrow> hm_ok (text_inputs c)"
  by (simp add: bridge_ok_def barriers_ok_def)

lemma region_keeps:
  assumes ok: "bridge_ok G c" and e: "ext_on_set_preedit_region index len c = Some c'"
  shows "bridge_ok G c'"
  using ok e unfolding ext_on_set_preedit_region_def
  by (auto split: option.splits if_splits prod.splits dest!: extension_text_inputD [OF bridge_hm_ok [OF ok]]
      simp: bridge_ok_put_core [OF ok _ core_finish(3)])

lemma key_pair_keeps:
  "synthesize_ime_consumed_key_pair held c = Some (b, c') \<Longrightarrow> bridge_ok G c' = bridge_ok G c"
  by (auto simp: synthesize_ime_consumed_key_pair_def Let_def split: option.splits if_splits)

lemma confirm_empty_keeps:
  assumes ok: "bridge_ok G c" and e: "confirm_empty g plan c = Some c'"
  shows "bridge_ok G c'"
  using e unfolding confirm_empty_def Let_def
  by (auto split: option.splits if_splits prod.splits bool.splits simp: ok dest: key_pair_keeps [of _ c _ _ G])

lemma confirm_keeps:
  assumes ok: "bridge_ok G c" and e: "ext_on_confirm_preedit c = Some c'"
  shows "bridge_ok G c'"
  using ok e unfolding ext_on_confirm_preedit_def
  by (auto split: option.splits if_splits prod.splits intro: confirm_empty_keeps
      simp: bridge_ok_put_core [OF ok _ core_finish(4)])

lemma for_active_keeps: "bridge_ok G c \<Longrightarrow> (\<And>s. core (f s) = core s) \<Longrightarrow> bridge_ok G (for_active_text_input f c)"
  by (simp add: for_active_text_input_def bridge_ok_modify split: option.split)

lemma when_focused_keeps: "bridge_ok G c \<Longrightarrow> (\<And>s. core (f s) = core s) \<Longrightarrow> bridge_ok G (when_focused f c)"
  by (simp add: when_focused_def bridge_ok_modify)

text \<open>The commit: only a text input without a rival on its seat becomes enabled.\<close>

lemma no_conflict:
  assumes "hm_ok (text_inputs c)" "\<not> has_enable_conflict c g s" "enabled_dirty s" "pending_enabled s"
    "hm_get (text_inputs c) g2 = Some s2" "g2 \<noteq> g" "guest_seat s2 = guest_seat s"
  shows "\<not> committed_enabled s2"
  using assms hm.entries_get [OF assms(1), of g2 s2] by (auto simp: has_enable_conflict_def list_ex_iff)

lemma commit_state:
  assumes "finish_guest_commit (prepare_guest_commit conflict s) s = Some s'"
  shows "host_v1_id s' = host_v1_id s" "host_ext_id s' = host_ext_id s" "guest_seat s' = guest_seat s"
    "host_activation s' = host_activation s" "guest_commit_serial s' = guest_commit_serial s + 1"
    "committed_enabled s' = (if enabled_dirty s \<and> \<not> conflict then pending_enabled s else committed_enabled s)"
  using assms by (auto simp: guest_commit_result clear_host_composition_def)

lemma commit_put_keeps:
  assumes ok: "bridge_ok G c" and s: "hm_get (text_inputs c) g = Some s"
    and f: "finish_guest_commit (prepare_guest_commit (has_enable_conflict c g s) s) s = Some s'"
  shows "bridge_ok (insert g G) (put_text_input g s' c)"
  using no_conflict [OF bridge_hm_ok [OF ok], of g s] bridge_okD(1) [OF ok s]
  by (intro bridge_ok_put [OF ok s]) (auto simp: commit_state [OF f] split: if_splits)

lemma guest_commit_keeps:
  assumes ok: "bridge_ok G c" and e: "v3_on_commit c = Some c'"
  shows "bridge_ok G c'"
proof (cases "v3_is_focused c (last_sender_id c)")
  case False
  with ok e show ?thesis
    by (simp add: v3_on_commit_def)
next
  case foc: True
  then obtain s where s: "hm_get (text_inputs c) (last_sender_id c) = Some s"
    by (auto simp: v3_is_focused_def split: option.splits)
  let ?p = "prepare_guest_commit (has_enable_conflict c (last_sender_id c) s) s"
  obtain s' where f: "finish_guest_commit ?p s = Some s'"
    by (simp add: guest_commit_result)
  note e = e [unfolded v3_on_commit_def Let_def s option.case f]
  show ?thesis
  proof (cases "transaction (guest_commit_requests (shadow_table c) ?p)")
    case None
    with foc e ok show ?thesis
      by simp
  next
    case (Some ms)
    from foc e [unfolded Some option.case] obtain d where
      d: "update_host_activation (last_sender_id c)
        (if gc_resets_composition ?p
         then end_backspace_repeat_for_text_input (gc_guest_seat ?p) (last_sender_id c)
           (put_text_input (last_sender_id c) s' c)
         else put_text_input (last_sender_id c) s' c) = Some d"
      "c' = d\<lparr>client_to_host_queue := client_to_host_queue d @ ms\<rparr>"
      by auto
    have "bridge_ok G d"
      by (rule update_keeps_bridge [OF _ d(1)]) (simp add: commit_put_keeps [OF ok s f])
    with d(2) show ?thesis
      by simp
  qed
qed

text \<open>Creation and destruction.\<close>

lemma bridge_ok_table:
  assumes ok: "bridge_ok G c" and grow: "\<And>h. host_interfaces (shadow_table c) h \<noteq> None \<Longrightarrow>
      host_interfaces (shadow_table c') h \<noteq> None"
    and same: "text_inputs c' = text_inputs c" "text_input_activation_barriers c' = text_input_activation_barriers c"
  shows "bridge_ok G c'"
  unfolding bridge_ok_def
proof (intro conjI)
  show "barriers_ok c'"
    using ok grow unfolding bridge_ok_def barriers_ok_def same by blast
  show "extensions_ok c'"
    using ok grow unfolding bridge_ok_def extensions_ok_def same by blast
  show "seats_exclusive c'" "active_enabled G c'"
    using ok unfolding bridge_ok_def seats_exclusive_def active_enabled_def same by blast+
qed

lemma remove_mapping_keeps: "bridge_ok G c \<Longrightarrow> bridge_ok G (remove_text_input_mapping g c)"
  by (erule bridge_ok_table)
    (auto simp: remove_text_input_mapping_def queue_guest_delete_id_def remove_guest_mapping_def Let_def
      split: prod.split option.split if_splits)

lemma bridge_ok_remove:
  assumes ok: "bridge_ok G c"
  shows "bridge_ok G (c\<lparr>text_inputs := hm_remove g (text_inputs c)\<rparr>)" (is "bridge_ok G ?c")
  unfolding bridge_ok_def
proof (intro conjI)
  show "barriers_ok ?c"
    using ok unfolding bridge_ok_def barriers_ok_def by (auto simp: hm.ok_del)
  show "extensions_ok ?c"
    using ok unfolding bridge_ok_def extensions_ok_def by (auto split: if_splits)
  have "seats_exclusive c"
    using ok by (simp add: bridge_ok_def)
  then show "seats_exclusive ?c"
    unfolding seats_exclusive_def by (auto split: if_splits)
  show "active_enabled G ?c"
    using ok unfolding bridge_ok_def active_enabled_def by (auto split: if_splits)
qed

lemma bridge_ok_drop_extension:
  assumes ok: "bridge_ok G c" and free: "text_input_activation_barriers c (HostId ext) = None"
    "\<And>g s. hm_get (text_inputs c) g = Some s \<Longrightarrow> host_ext_id s \<noteq> Some ext"
  shows "bridge_ok G (c\<lparr>shadow_table := snd (mark_pending_destroy_host ext (shadow_table c))\<rparr>)" (is "bridge_ok G ?c")
  unfolding bridge_ok_def
proof (intro conjI)
  have "host_raw cb \<noteq> ext" if "text_input_activation_barriers c cb \<noteq> None" for cb
    using free(1) that by (cases cb) auto
  with ok show "barriers_ok ?c"
    unfolding bridge_ok_def barriers_ok_def by (auto simp: mark_pending_interfaces)
  from ok have "extensions_ok c"
    by (simp add: bridge_ok_def)
  with free(2) show "extensions_ok ?c"
    unfolding extensions_ok_def by (auto simp: mark_pending_destroy_host_def)
  from ok have "seats_exclusive c" "active_enabled G c"
    by (simp_all add: bridge_ok_def)
  then show "seats_exclusive ?c" "active_enabled G ?c"
    by (simp_all add: seats_exclusive_def active_enabled_def)
qed

lemma finish_destroy_keeps:
  assumes ok: "bridge_ok G d" and s: "hm_get (text_inputs d) g = Some s"
  shows "bridge_ok G (finish_destroy g s (d\<lparr>text_inputs := hm_remove g (text_inputs d)\<rparr>))"
proof (cases "host_ext_id s")
  case None
  with bridge_ok_remove [OF ok] show ?thesis
    by (simp add: finish_destroy_def remove_mapping_keeps)
next
  case (Some ext)
  let ?c = "to_host ext 0 message_builder_new (d\<lparr>text_inputs := hm_remove g (text_inputs d)\<rparr>)"
  have "bridge_ok G (?c\<lparr>shadow_table := snd (mark_pending_destroy_host ext (shadow_table ?c))\<rparr>)"
  proof (rule bridge_ok_drop_extension)
    show "bridge_ok G ?c"
      by (simp add: bridge_ok_remove [OF ok])
    show "text_input_activation_barriers ?c (HostId ext) = None"
      using bridge_okD(3) [OF ok s Some] by (simp add: to_host_def)
    show "host_ext_id s' \<noteq> Some ext" if "hm_get (text_inputs ?c) g' = Some s'" for g' s'
    proof -
      have "hm_get (text_inputs d) g' = Some s'" "g' \<noteq> g"
        using that by (auto simp: to_host_def split: if_splits)
      with ok s Some show ?thesis
        unfolding bridge_ok_def extensions_ok_def by metis
    qed
  qed
  with Some show ?thesis
    by (simp add: finish_destroy_def Let_def remove_mapping_keeps)
qed

lemma destroy_keeps:
  assumes ok: "bridge_ok G c" and e: "v3_on_destroy c = Some c'"
  shows "bridge_ok G c'"
proof -
  let ?g = "last_sender_id c"
  let ?c1 = "modify_text_input ?g begin_destroy c"
  have ok1: "bridge_ok (insert ?g G) ?c1"
  proof (cases "hm_get (text_inputs c) ?g")
    case None
    with bridge_ok_mono [OF ok, of "insert ?g G"] show ?thesis
      by (auto simp: modify_text_input_def)
  next
    case (Some s)
    with bridge_okD(1) [OF ok Some] show ?thesis
      by (auto simp: modify_text_input_def begin_destroy_def intro!: bridge_ok_put [OF ok Some])
  qed
  define c2 where "c2 = (case map_option guest_seat (hm_get (text_inputs c) ?g) of
      Some x \<Rightarrow> end_backspace_repeat_for_text_input x ?g ?c1
    | None \<Rightarrow> ?c1)"
  have ok2: "bridge_ok (insert ?g G) c2"
    using ok1 by (simp add: c2_def split: option.split)
  from e obtain d where u: "update_host_activation ?g c2 = Some d"
    and c': "c' = (case hm_get (text_inputs d) ?g of
      None \<Rightarrow> remove_text_input_mapping ?g d
    | Some s \<Rightarrow> finish_destroy ?g s (d\<lparr>text_inputs := hm_remove ?g (text_inputs d)\<rparr>))"
    unfolding v3_on_destroy_def Let_def c2_def [symmetric] by blast
  have "bridge_ok G d"
    by (rule update_keeps_bridge [OF ok2 u])
  with c' show ?thesis
    by (auto simp: remove_mapping_keeps finish_destroy_keeps split: option.split)
qed

text \<open>A new text input, with fresh host objects.\<close>

lemma bridge_ok_new:
  assumes ok: "bridge_ok G c" and new: "committed_enabled s = False" "host_activation s = Inactive"
    and ext: "\<And>e. host_ext_id s = Some e \<Longrightarrow> host_interfaces (shadow_table c) e \<noteq> None \<and>
      text_input_activation_barriers c (HostId e) = None \<and>
      (\<forall>g' s'. hm_get (text_inputs c) g' = Some s' \<longrightarrow> host_ext_id s' \<noteq> Some e)"
  shows "bridge_ok G (put_text_input g s c)"
  unfolding bridge_ok_def
proof (intro conjI)
  show "barriers_ok (put_text_input g s c)"
    using ok new unfolding bridge_ok_def barriers_ok_def by (auto simp: hm_ok_put_text_input)
  show "extensions_ok (put_text_input g s c)"
    using ok ext unfolding bridge_ok_def extensions_ok_def by (auto split: if_splits)
  have "seats_exclusive c"
    using ok by (simp add: bridge_ok_def)
  then show "seats_exclusive (put_text_input g s c)"
    using new unfolding seats_exclusive_def by (auto split: if_splits)
  show "active_enabled G (put_text_input g s c)"
    using ok new unfolding bridge_ok_def active_enabled_def by (auto split: if_splits)
qed

lemma create_extension_effect:
  assumes ok: "bridge_ok G c" and e: "create_extension v1 c = Some (ext, c1)"
  shows "bridge_ok G c1 \<and> text_inputs c1 = text_inputs c \<and>
    text_input_activation_barriers c1 = text_input_activation_barriers c \<and>
    (\<forall>x. ext = Some x \<longrightarrow> text_input_activation_barriers c (HostId x) = None \<and>
       (\<forall>g' s'. hm_get (text_inputs c) g' = Some s' \<longrightarrow> host_ext_id s' \<noteq> Some x))"
proof (cases "host_text_input_extension_v1_id c")
  case None
  with e ok show ?thesis
    by (simp add: create_extension_def)
next
  case (Some manager)
  obtain a t where a: "allocate_host_id (shadow_table c) = (a, t)"
    by (cases "allocate_host_id (shadow_table c)") auto
  from e Some a obtain x where x: "a = Some x" "ext = Some x"
    "c1 = to_host manager 0 (write_u32 v1 (write_u32 x message_builder_new)) (c\<lparr>shadow_table := t\<rparr>)"
    by (cases a) (auto simp: create_extension_def)
  note fresh = fresh_callback [OF ok a [unfolded x(1)]]
  have "bridge_ok G c1"
    unfolding x(3) bridge_ok_queues by (rule bridge_ok_table [OF ok]) (simp_all add: fresh(2))
  with x fresh(1,3) show ?thesis
    by (auto simp: to_host_def)
qed

lemma track_extension_effect:
  "text_inputs (track_extension ext c) = text_inputs c"
  "text_input_activation_barriers (track_extension ext c) = text_input_activation_barriers c"
  "host_interfaces (shadow_table c) h \<noteq> None \<Longrightarrow> host_interfaces (shadow_table (track_extension ext c)) h \<noteq> None"
  "ext = Some x \<Longrightarrow> host_interfaces (shadow_table (track_extension ext c)) x \<noteq> None"
  by (auto simp: track_extension_def track_host_interface_with_version_def Let_def split: option.split)

lemma map_id_interfaces: "host_interfaces (map_id g h t) = host_interfaces t"
  by (simp add: map_id_def Let_def split: option.split)

lemma get_text_input_keeps:
  assumes ok: "bridge_ok G c" and e: "v3_on_get_text_input i seat c = Some c'"
  shows "bridge_ok G c'"
proof (cases "host_text_input_manager_v1_id c")
  case None
  with e ok show ?thesis
    by (simp add: v3_on_get_text_input_def)
next
  case (Some manager)
  obtain a t where a: "allocate_host_id (shadow_table c) = (a, t)"
    by (cases "allocate_host_id (shadow_table c)") auto
  with e Some obtain v1 where v1: "a = Some v1"
    by (cases a) (auto simp: v3_on_get_text_input_def)
  let ?c = "to_host manager 0 (write_u32 v1 message_builder_new) (c\<lparr>shadow_table := t\<rparr>)"
  have okc: "bridge_ok G ?c"
    unfolding bridge_ok_queues
    by (rule bridge_ok_table [OF ok]) (simp_all add: fresh_callback(2) [OF ok a [unfolded v1]])
  from e Some a v1 obtain ext c1 where x: "create_extension v1 ?c = Some (ext, c1)"
    by (cases "create_extension v1 ?c") (auto simp: v3_on_get_text_input_def)
  define c2 where "c2 = track_extension ext (c1\<lparr>shadow_table :=
    track_host_interface_with_version v1 ''zwp_text_input_v1'' 1
      (track_interface_with_version i ''zwp_text_input_v3'' 1 (map_id i v1 (shadow_table c1)))\<rparr>)"
  define s where "s = text_input_new v1 ext seat (surface_for_seat (kb_focus c2) seat)"
  have "Some c' = v3_on_get_text_input i seat c"
    using e by simp
  also have "\<dots> = Some (case surface_for_seat (kb_focus c2) seat of
      Some x \<Rightarrow> to_guest i 0 (write_u32 x message_builder_new) (put_text_input i s c2)
    | None \<Rightarrow> put_text_input i s c2)"
    by (simp only: Some a v1 x v3_on_get_text_input_def Let_def c2_def s_def option.case prod.case)
  finally have c': "c' = (case surface_for_seat (kb_focus c2) seat of
      Some x \<Rightarrow> to_guest i 0 (write_u32 x message_builder_new) (put_text_input i s c2)
    | None \<Rightarrow> put_text_input i s c2)"
    by simp
  note cr = create_extension_effect [OF okc x]
  have "bridge_ok G c2"
    by (rule bridge_ok_table [OF cr [THEN conjunct1]])
      (simp_all add: c2_def track_extension_effect map_id_interfaces track_host_interface_with_version_def
        track_interface_with_version_def)
  then have "bridge_ok G (put_text_input i s c2)"
  proof (rule bridge_ok_new)
    show "host_interfaces (shadow_table c2) e \<noteq> None \<and> text_input_activation_barriers c2 (HostId e) = None \<and>
      (\<forall>g' s'. hm_get (text_inputs c2) g' = Some s' \<longrightarrow> host_ext_id s' \<noteq> Some e)"
      if "host_ext_id s = Some e" for e
    proof -
      have ext: "ext = Some e"
        using that by (simp add: s_def text_input_new_def)
      with cr show ?thesis
        by (simp add: c2_def track_extension_effect)
    qed
  qed (simp_all add: s_def text_input_new_def)
  with c' show ?thesis
    by (simp split: option.split)
qed

section \<open>The bridge as a machine\<close>

datatype text_input_event =
    V1Preedit u32 rust_string rust_string
  | V1Commit u32 rust_string
  | V1Keysym u32 u32 u32 u32
  | V1PreeditStyling u32 u32 u32
  | V1PreeditCursor i32
  | V1CursorPosition i32 i32
  | V1DeleteSurroundingText i32 u32
  | ExtSetPreeditRegion i32 u32
  | ExtConfirmPreedit
  | V3GetTextInput u32 u32
  | V3Destroy
  | V3Enable
  | V3Disable
  | V3SetSurroundingText rust_string i32 i32
  | V3SetTextChangeCause u32
  | V3SetContentType u32 u32
  | V3SetCursorRectangle i32 i32 i32 i32
  | V3Commit
  | FocusChange seat_focus_change
  | RepairSurface u32
  | BarrierDone host_id

definition text_input_handle ::
    "(u32 \<Rightarrow> u32 option) \<Rightarrow> text_input_event \<Rightarrow> 'h ctx_scheme \<Rightarrow> 'h ctx_scheme option" where
  "text_input_handle fallback e c =
     (case e of
        V1Preedit serial str reset_text \<Rightarrow> v1_on_preedit_string serial str reset_text c
      | V1Commit serial str \<Rightarrow> v1_on_commit_string serial str c
      | V1Keysym serial time keysym state \<Rightarrow> v1_on_keysym fallback serial time keysym state c
      | V1PreeditStyling index len style \<Rightarrow> Some (v1_on_preedit_styling index len style c)
      | V1PreeditCursor index \<Rightarrow> Some (v1_on_preedit_cursor index c)
      | V1CursorPosition index anchor \<Rightarrow> Some (v1_on_cursor_position index anchor c)
      | V1DeleteSurroundingText index len \<Rightarrow> Some (v1_on_delete_surrounding_text index len c)
      | ExtSetPreeditRegion index len \<Rightarrow> ext_on_set_preedit_region index len c
      | ExtConfirmPreedit \<Rightarrow> ext_on_confirm_preedit c
      | V3GetTextInput i seat \<Rightarrow> v3_on_get_text_input i seat c
      | V3Destroy \<Rightarrow> v3_on_destroy c
      | V3Enable \<Rightarrow> Some (v3_on_enable c)
      | V3Disable \<Rightarrow> Some (v3_on_disable c)
      | V3SetSurroundingText str cursor anchor \<Rightarrow> Some (v3_on_set_surrounding_text str cursor anchor c)
      | V3SetTextChangeCause cause \<Rightarrow> Some (v3_on_set_text_change_cause cause c)
      | V3SetContentType hint purpose \<Rightarrow> Some (v3_on_set_content_type hint purpose c)
      | V3SetCursorRectangle x y w h \<Rightarrow> Some (v3_on_set_cursor_rectangle x y w h c)
      | V3Commit \<Rightarrow> v3_on_commit c
      | FocusChange change \<Rightarrow> apply_keyboard_focus_change change c
      | RepairSurface surface \<Rightarrow> repair_destroyed_surface_focus surface c
      | BarrierDone callback \<Rightarrow> map_option snd (complete_host_activation_barrier callback c))"

text \<open>An event with the object that sent it.\<close>

definition text_input_apply ::
    "(u32 \<Rightarrow> u32 option) \<Rightarrow> u32 \<times> text_input_event \<Rightarrow> 'h ctx_scheme \<Rightarrow> 'h ctx_scheme option" where
  "text_input_apply fallback e c = text_input_handle fallback (snd e) (c\<lparr>last_sender_id := fst e\<rparr>)"

lemma handle_keeps:
  assumes ok: "bridge_ok {} c" and e: "text_input_handle fallback e c = Some c'"
  shows "bridge_ok {} c'"
proof (cases e)
  case (V1Preedit serial str reset_text)
  with e preedit_keeps [OF ok] show ?thesis by (simp add: text_input_handle_def)
next
  case (V1Commit serial str)
  with e commit_string_keeps [OF ok] show ?thesis by (simp add: text_input_handle_def)
next
  case (V1Keysym serial time keysym state)
  with e keysym_keeps [OF ok] show ?thesis by (simp add: text_input_handle_def)
next
  case (V1DeleteSurroundingText index len)
  with e ok show ?thesis
    by (auto simp: text_input_handle_def v1_on_delete_surrounding_text_def for_active_keeps split: option.splits)
next
  case (ExtSetPreeditRegion index len)
  with e region_keeps [OF ok] show ?thesis by (simp add: text_input_handle_def)
next
  case ExtConfirmPreedit
  with e confirm_keeps [OF ok] show ?thesis by (simp add: text_input_handle_def)
next
  case (V3GetTextInput i seat)
  with e get_text_input_keeps [OF ok] show ?thesis by (simp add: text_input_handle_def)
next
  case V3Destroy
  with e destroy_keeps [OF ok] show ?thesis by (simp add: text_input_handle_def)
next
  case V3Commit
  with e guest_commit_keeps [OF ok] show ?thesis by (simp add: text_input_handle_def)
next
  case (FocusChange change)
  with e focus_change_keeps [OF ok] show ?thesis by (simp add: text_input_handle_def)
next
  case (RepairSurface surface)
  with e repair_keeps [OF ok] show ?thesis by (simp add: text_input_handle_def)
next
  case (BarrierDone callback)
  with e complete_keeps_bridge [OF ok] show ?thesis by (auto simp: text_input_handle_def)
qed (use e ok in \<open>auto simp: text_input_handle_def v1_on_preedit_styling_def v1_on_preedit_cursor_def
    v1_on_cursor_position_def v3_on_enable_def v3_on_disable_def v3_on_set_surrounding_text_def
    v3_on_set_text_change_cause_def v3_on_set_content_type_def v3_on_set_cursor_rectangle_def
    for_active_keeps when_focused_keeps\<close>)

interpretation text_bridge: panicking_machine "text_input_apply fallback" "bridge_ok {}" for fallback
  by unfold_locales (auto simp: text_input_apply_def elim!: handle_keeps [rotated])

text \<open>C1: the state of the text-input bridge stays consistent under any sequence of text-input events,
  from any client and any host, in any order: at most one text input of a seat is enabled, a host
  object is only active for an enabled text input, a draining text input always owns the barrier
  that will end the drain, and callbacks and extension objects are live and not shared.
\<close>
theorem text_bridge_invariant:
  assumes "text_inputs c = []" and "text_input_activation_barriers c = Map.empty"
    and run: "try_each (text_input_apply fallback) es c = Some c'"
    and s: "hm_get (text_inputs c') g = Some s"
  shows "(\<forall>g2 s2. hm_get (text_inputs c') g2 = Some s2 \<and> guest_seat s2 = guest_seat s \<and>
            committed_enabled s \<and> committed_enabled s2 \<longrightarrow> g2 = g) \<and>
    (host_activation s = Active \<longrightarrow> committed_enabled s) \<and>
    (\<forall>callback. host_activation s = Draining callback \<longrightarrow>
       text_input_activation_barriers c' callback = Some (g, host_v1_id s) \<and>
       host_interfaces (shadow_table c') (host_raw callback) \<noteq> None)"
proof -
  have "bridge_ok {} c"
    using assms(1,2) by (simp add: bridge_ok_def barriers_ok_def extensions_ok_def seats_exclusive_def
        active_enabled_def)
  then have ok: "bridge_ok {} c'"
    by (rule text_bridge.run_inv [OF _ run])
  show ?thesis
  proof (intro conjI allI impI)
    fix g2 s2
    assume "hm_get (text_inputs c') g2 = Some s2 \<and> guest_seat s2 = guest_seat s \<and>
      committed_enabled s \<and> committed_enabled s2"
    with ok s show "g2 = g"
      unfolding bridge_ok_def seats_exclusive_def by metis
  next
    fix callback
    assume "host_activation s = Draining callback"
    then show b: "text_input_activation_barriers c' callback = Some (g, host_v1_id s)"
      by (rule bridge_okD(1) [OF ok s])
    with ok show "host_interfaces (shadow_table c') (host_raw callback) \<noteq> None"
      unfolding bridge_ok_def barriers_ok_def by simp
  qed (use bridge_okD(2) [OF ok s] in simp)
qed

section \<open>Host events\<close>

definition is_host_event :: "text_input_event \<Rightarrow> bool" where
  "is_host_event e =
     (case e of
        V1Preedit _ _ _ \<Rightarrow> True | V1Commit _ _ \<Rightarrow> True | V1Keysym _ _ _ _ \<Rightarrow> True
      | V1PreeditStyling _ _ _ \<Rightarrow> True | V1PreeditCursor _ \<Rightarrow> True | V1CursorPosition _ _ \<Rightarrow> True
      | V1DeleteSurroundingText _ _ \<Rightarrow> True | ExtSetPreeditRegion _ _ \<Rightarrow> True | ExtConfirmPreedit \<Rightarrow> True
      | _ \<Rightarrow> False)"

definition is_extension_event :: "text_input_event \<Rightarrow> bool" where
  "is_extension_event e =
     (case e of ExtSetPreeditRegion _ _ \<Rightarrow> True | ExtConfirmPreedit \<Rightarrow> True | _ \<Rightarrow> False)"

text \<open>The text input a host event is addressed to.\<close>

definition event_target :: "text_input_event \<Rightarrow> 'h ctx_scheme \<Rightarrow> (u32 \<times> text_input_state) option" where
  "event_target e c = (if is_extension_event e then extension_text_input c else sender_text_input c)"

lemma active_guest_eq:
  "active_guest_for_host_text_input c (last_sender_id c) =
     (case sender_text_input c of
        Some (g, s) \<Rightarrow> if host_activation s = Active then Some g else None
      | None \<Rightarrow> None)"
  by (cases "get_guest_id (shadow_table c) (last_sender_id c)")
    (auto simp: active_guest_for_host_text_input_def sender_text_input_def host_is_active_def
      split: option.split)

lemmas prepare_defs = prepare_host_preedit_def prepare_host_commit_def prepare_preedit_region_def
  prepare_confirm_preedit_def host_is_active_def

text \<open>C4: an event of a host object that is not active, because its focus generation is over, is
  still draining, or because the object is unknown, changes nothing at all: no guest state, no
  key state, and no queue.
\<close>
theorem inactive_host_events_ignored:
  assumes "is_host_event e" and "hm_ok (text_inputs c)"
    and "\<And>g s. event_target e (c\<lparr>last_sender_id := i\<rparr>) = Some (g, s) \<Longrightarrow> host_activation s \<noteq> Active"
  shows "text_input_apply fallback (i, e) c = Some (c\<lparr>last_sender_id := i\<rparr>)"
proof -
  let ?c = "c\<lparr>last_sender_id := i\<rparr>"
  have x: "hm_get (text_inputs ?c) g = Some s" if "extension_text_input ?c = Some (g, s)" for g s
    using extension_text_inputD [OF _ that] assms(2) by simp
  have "text_input_handle fallback e ?c = Some ?c"
  proof (cases "is_extension_event e")
    case True
    show ?thesis
    proof (cases "extension_text_input ?c")
      case None
      with True show ?thesis
        by (cases e) (simp_all add: is_extension_event_def text_input_handle_def
            ext_on_set_preedit_region_def ext_on_confirm_preedit_def)
    next
      case (Some y)
      obtain g s where y: "y = (g, s)"
        by (cases y)
      with assms(3) [of g s] Some True have "host_activation s \<noteq> Active"
        by (simp add: event_target_def)
      with True Some y x [of g s] show ?thesis
        by (cases e) (simp_all add: is_extension_event_def text_input_handle_def
            ext_on_set_preedit_region_def ext_on_confirm_preedit_def prepare_defs)
    qed
  next
    case False
    show ?thesis
    proof (cases "sender_text_input ?c")
      case None
      with False assms(1) active_guest_eq [of ?c] show ?thesis
        by (cases e) (simp_all add: is_extension_event_def is_host_event_def text_input_handle_def
            v1_on_preedit_string_def v1_on_commit_string_def v1_on_keysym_def v1_on_preedit_styling_def
            v1_on_preedit_cursor_def v1_on_cursor_position_def v1_on_delete_surrounding_text_def
            for_active_text_input_def Let_def split: option.split)
    next
      case (Some y)
      obtain g s where y: "y = (g, s)"
        by (cases y)
      with assms(3) [of g s] Some False have "host_activation s \<noteq> Active"
        by (simp add: event_target_def)
      with False assms(1) active_guest_eq [of ?c] Some y show ?thesis
        by (cases e) (simp_all add: is_extension_event_def is_host_event_def text_input_handle_def
            v1_on_preedit_string_def v1_on_commit_string_def v1_on_keysym_def v1_on_preedit_styling_def
            v1_on_preedit_cursor_def v1_on_cursor_position_def v1_on_delete_surrounding_text_def
            for_active_text_input_def Let_def prepare_defs split: option.split)
    qed
  qed
  then show ?thesis
    by (simp add: text_input_apply_def)
qed

section \<open>Offsets\<close>

text \<open>a delete range is translated exactly when it touches the cursor, and then to the same bytes:
  \<open>before\<close> bytes before and \<open>after\<close> bytes after it, together \<open>length\<close> bytes; nothing wraps.\<close>
theorem delete_range_same_bytes:
  assumes "in_i32 index"
  shows "case convert_delete_range index len of
      Some (before, after) \<Rightarrow>
        uint before = - index \<and> uint after = index + uint len \<and> uint before + uint after = uint len
    | None \<Rightarrow> index > 0 \<or> index + uint len < 0"
proof (cases "index > 0 \<or> index + uint len < 0")
  case False
  have "uint len < 2 ^ 32"
    using unsigned_less [of len, where 'a = int] by simp
  with False assms have range: "0 \<le> - index" "- index < 2 ^ 32" "0 \<le> index + uint len" "index + uint len < 2 ^ 32"
    by (simp_all add: in_i32_def)
  have w: "uint (word_of_int x :: u32) = x" if "0 \<le> x" "x < 2 ^ 32" for x
    using that by (simp add: uint_word_of_int)
  have "\<bar>index\<bar> = - index"
    using False by simp
  then have ends: "uint (word_of_int \<bar>index\<bar> :: u32) = - index"
    "uint (word_of_int (index + uint len) :: u32) = index + uint len"
    using w [of "- index"] w [of "index + uint len"] range by (simp_all only:)
  show ?thesis
    unfolding convert_delete_range_def Let_def if_not_P [OF False] option.case prod.case ends
    by simp
qed (simp add: convert_delete_range_def)

lemma as_i32_of_nat: "n < 2 ^ 31 \<Longrightarrow> as_i32 (of_nat n) = int n"
  by (simp add: as_i32_def signed_of_nat signed_take_bit_int_eq_self)

lemma as_i32_small: "unat v < 2 ^ 31 \<Longrightarrow> as_i32 v = int (unat v)"
  using as_i32_of_nat [of "unat v"] by simp

text \<open>whatever selection and cursor a host sends, the guest gets either the hidden cursor \<open>(-1, -1)\<close>
  or an ordered pair of character boundaries inside the preedit string.\<close>
theorem preedit_cursor_in_text:
  assumes "length str < 2 ^ 31"
  shows "case resolve_preedit_cursor str selection cursor of
      (b, e) \<Rightarrow> (b = - 1 \<and> e = - 1) \<or>
        (0 \<le> b \<and> b \<le> e \<and> nat e \<le> length str \<and>
         is_char_boundary str (nat b) \<and> is_char_boundary str (nat e))"
proof -
  have len: "as_i32 (of_nat (length str) :: u32) = int (length str)"
    by (rule as_i32_of_nat [OF assms])
  have bounded: "is_char_boundary str i \<Longrightarrow> i \<le> length str" for i
    by (auto simp: is_char_boundary_def)
  have unat_le: "unat i \<le> unat (sat_add i n)" for i n
    using unat_u32_less [of i] by (auto simp: sat_add_def unat_word_ariths)
  have sel: "as_i32 i = int (unat i) \<and> as_i32 (sat_add i n) = int (unat (sat_add i n)) \<and>
      uint i \<le> uint (sat_add i n)"
    if "is_char_boundary str (unat i)" "is_char_boundary str (unat (sat_add i n))" for i n
  proof (intro conjI)
    show "as_i32 i = int (unat i)" "as_i32 (sat_add i n) = int (unat (sat_add i n))"
      using bounded [OF that(1)] bounded [OF that(2)] assms by (simp_all add: as_i32_small)
    show "uint i \<le> uint (sat_add i n)"
      using unat_le [of i n] by (simp only: uint_nat of_nat_le_iff)
  qed
  have whole: "is_char_boundary str (length str)"
    by (simp add: is_char_boundary_def)
  show ?thesis
  proof (cases selection)
    case None
    with len whole show ?thesis
      by (cases cursor) (auto simp: resolve_preedit_cursor_def Let_def)
  next
    case (Some y)
    obtain i n where y: "y = (i, n)"
      by (cases y)
    show ?thesis
    proof (cases "sat_add i n \<le> of_nat (length str) \<and> is_char_boundary str (unat i) \<and>
        is_char_boundary str (unat (sat_add i n))")
      case True
      with Some y sel [of i n] bounded show ?thesis
        by (auto simp: resolve_preedit_cursor_def Let_def)
    next
      case False
      have "resolve_preedit_cursor str selection cursor = (int (length str), int (length str))"
        unfolding resolve_preedit_cursor_def Let_def Some y option.case prod.case if_not_P [OF False] len
        by (rule refl)
      with whole show ?thesis
        by simp
    qed
  qed
qed

end
