(* ===== verification/Text_Input_Exchange.thy ===== *)
theory Text_Input_Exchange
  imports Text_Input_Handler
begin

text \<open>
  What the text-input handlers exchange: a host edit reaches the guest as one whole transaction, a
  guest commit reaches the host as one, the translated requests suit the negotiated version, and
  the handlers do not panic.
\<close>

section \<open>Host edits\<close>






lemma end_repeat_frame [simp]:
  "host_to_client_queue (end_backspace_repeat_for_text_input x g c) = host_to_client_queue c"
  "client_to_host_queue (end_backspace_repeat_for_text_input x g c) = client_to_host_queue c"
  "text_inputs (end_backspace_repeat_for_text_input x g c) = text_inputs c"
  "shadow_table (end_backspace_repeat_for_text_input x g c) = shadow_table c"
  by (simp_all add: end_backspace_repeat_for_text_input_def)







text \<open>a preedit region moves text from the committed string into the preedit without changing what
  the user sees: deleting \<open>before\<close> and \<open>after\<close> bytes around the cursor and inserting the preedit
  there gives back the same string.\<close>
theorem region_preserves_text:
  assumes "region_valid str cursor index len" and "length str < 2 ^ 31"
    and "pr_surrounding_text plan = str" and "pr_surrounding_cursor plan = cursor"
  shows "\<exists>preedit before after range. region_messages g plan index len =
      (preedit, [delete_msg g (before, after), preedit_msg g preedit range, done_msg g (pr_done_serial plan)]) \<and>
    unat before \<le> nat cursor \<and> nat cursor + unat after \<le> length str \<and>
    take (nat cursor - unat before) str @ preedit @ drop (nat cursor + unat after) str = str"
proof -
  let ?start = "cursor + index" and ?stop = "cursor + index + uint len"
  have v: "0 \<le> ?start" "?start \<le> cursor" "cursor \<le> ?stop" "?stop \<le> int (length str)"
    using assms(1) by (auto simp: region_valid_def Let_def)
  define before after :: u32
    where "before = (if ?start < cursor then word_of_int (cursor - ?start) else 0)"
      and "after = (if ?stop > cursor then word_of_int (?stop - cursor) else 0)"
  have w: "unat (word_of_int x :: u32) = nat x" if "0 \<le> x" "x < 2 ^ 31" for x
    using that by (simp add: unat_eq_nat_uint uint_word_of_int)
  have b: "unat before = nat (cursor - ?start)"
    using v assms(2) w [of "cursor - ?start"] unfolding before_def by (auto simp del: add_diff_cancel_left')
  have a: "unat after = nat (?stop - cursor)"
    using v assms(2) w [of "?stop - cursor"] unfolding after_def by auto
  have lo: "nat cursor - unat before = nat ?start" and hi: "nat cursor + unat after = nat ?stop"
    using v by (simp_all add: a b nat_diff_distrib [symmetric] nat_add_distrib [symmetric])
  have le: "nat ?start \<le> nat ?stop" "nat ?stop \<le> length str"
    using v by simp_all
  define preedit where "preedit = slice str (nat ?start) (nat ?stop)"
  define range where "range = resolve_preedit_cursor preedit (pr_selection plan)
    (option_or (pr_cursor plan) (Some (as_i32 (word_of_int (cursor - ?start)))))"
  have rm: "region_messages g plan index len =
      (preedit, [delete_msg g (before, after), preedit_msg g preedit range, done_msg g (pr_done_serial plan)])"
    unfolding region_messages_def Let_def assms(3,4) before_def after_def preedit_def range_def by (rule refl)
  have "take (nat cursor - unat before) str @ preedit @ drop (nat cursor + unat after) str = str"
    unfolding lo hi preedit_def using le by (metis append_take_drop_id drop_drop le_add_diff_inverse2 slice_def)
  moreover have "unat before \<le> nat cursor" "nat cursor + unat after \<le> length str"
    using v le by (simp_all add: b hi)
  ultimately show ?thesis
    using rm by blast
qed

section \<open>Guest commits\<close>




text \<open>the requests on the extension object suit the version the host offered: \<open>set_input_type\<close> goes
  out as opcode 6 only from version 8, as opcode 1 only from 2 to 7, and the surrounding-text
  support flag (7) only from 9, right before the content type it applies to; objects whose version
  is unknown count as the newest.\<close>
theorem extension_requests_supported:
  assumes "(ext, opcode, builder) \<in> set (content_type_requests t p)" and "gc_host_ext_id p = Some ext"
    and "ext \<noteq> gc_host_v1_id p"
  shows "let version = extension_version t ext in
    (opcode = 7 \<and> version \<ge> 9 \<and>
       hd (content_type_requests t p) = (ext, 7, builder) \<and>
       fst (snd (content_type_requests t p ! 1)) = 6 \<and>
       fst (content_type_requests t p ! 1) = gc_host_v1_id p) \<or>
    (opcode = 6 \<and> version \<ge> 8) \<or> (opcode = 1 \<and> 2 \<le> version \<and> version < 8)"
  using assms
  by (auto simp: content_type_requests_def extension_version_allows_def Let_def
      word_le_nat_alt word_less_nat_alt split: option.splits if_splits)

section \<open>No panics\<close>

lemma transition_total: "registry_ok r \<Longrightarrow> transition_guest_key kb key e r \<noteq> None"
  using transition_accounted [of r kb key e] by (auto simp: accounted_def split: option.splits)

lemma arm_succeeds:
  assumes "physically_held r kb key" "\<not> backspace_repeat_cancelled r kb key"
    and "\<And>owner. ime_repeat_owner r kb key = Some owner \<Longrightarrow> owner = g"
  shows "fst (arm_ime_repeat kb key g r)"
  using assms
  by (cases "kg_get r kb key") (auto simp: arm_ime_repeat_def physically_held_def
      backspace_repeat_cancelled_def ime_repeat_owner_def split: option.splits)

lemma held_backspace:
  "held_backspace_keyboard_for_seat c seat = Some kb \<Longrightarrow> backspace_held c kb"
  by (auto simp: held_backspace_keyboard_for_seat_def split: option.splits if_splits prod.splits)

lemma preedit_total:
  assumes s: "sender_text_input c = Some (g, s)"
    and own: "\<And>kb owner. ime_repeat_owner (key_generations c) kb EVDEV_KEY_BACKSPACE = Some owner \<Longrightarrow> owner = g"
  shows "v1_on_preedit_string serial str reset_text c \<noteq> None"
proof (cases "prepare_host_preedit s")
  case None
  with s show ?thesis
    by (simp add: v1_on_preedit_string_def)
next
  case (Some plan)
  let ?kb = "held_backspace_keyboard_for_seat c (hp_guest_seat plan)"
  obtain arm s' where f: "finish_host_preedit plan str (reset_text = []) (?kb \<noteq> None) s = Some (arm, s')"
    using host_preedit.finish_own [OF Some, of str "reset_text = []" "?kb \<noteq> None"] by auto
  have arm: "\<exists>kb. ?kb = Some kb" if arm
    using f that by (auto simp: finish_host_preedit_def split: if_splits)
  have armed: "fst (arm_ime_repeat kb EVDEV_KEY_BACKSPACE g (key_generations (put_text_input g s' c)))"
    if "?kb = Some kb" for kb
    using held_backspace [OF that] own by (intro arm_succeeds) (auto simp: backspace_held_def)
  show ?thesis
  proof (cases arm)
    case True
    with arm obtain kb where kb: "?kb = Some kb"
      by blast
    obtain r where r: "arm_ime_repeat kb EVDEV_KEY_BACKSPACE g (key_generations (put_text_input g s' c)) = (True, r)"
      using armed [OF kb] by (cases "arm_ime_repeat kb EVDEV_KEY_BACKSPACE g (key_generations (put_text_input g s' c))") simp
    show ?thesis
      unfolding v1_on_preedit_string_def Let_def s Some option.case prod.case transaction_eq f
      using True kb r by simp
  next
    case False
    show ?thesis
      unfolding v1_on_preedit_string_def Let_def s Some option.case prod.case transaction_eq f
      using False by simp
  qed
qed

lemma commit_total: "v1_on_commit_string serial str c \<noteq> None"
proof (cases "sender_text_input c")
  case (Some y)
  obtain g s where y: "y = (g, s)"
    by (cases y)
  show ?thesis
  proof (cases "prepare_host_commit s")
    case (Some plan)
    from host_commit.finish_own [OF Some] obtain s' where "finish_host_commit plan s = Some s'" ..
    with Some y \<open>sender_text_input c = Some y\<close> show ?thesis
      by (simp add: v1_on_commit_string_def transaction_eq)
  qed (use Some y in \<open>simp add: v1_on_commit_string_def\<close>)
qed (simp add: v1_on_commit_string_def)

lemma region_total: "ext_on_set_preedit_region index len c \<noteq> None"
proof (cases "extension_text_input c")
  case (Some y)
  obtain g s where y: "y = (g, s)"
    by (cases y)
  show ?thesis
  proof (cases "prepare_preedit_region s")
    case (Some plan)
    obtain preedit requests where rm: "region_messages g plan index len = (preedit, requests)"
      by (cases "region_messages g plan index len")
    from preedit_region.finish_own [OF Some, of preedit] obtain s' where
      "finish_preedit_region plan preedit s = Some s'" ..
    with Some y \<open>extension_text_input c = Some y\<close> rm show ?thesis
      by (simp add: ext_on_set_preedit_region_def transaction_eq)
  qed (use Some y in \<open>simp add: ext_on_set_preedit_region_def\<close>)
qed (simp add: ext_on_set_preedit_region_def)

lemma keysym_total:
  "registry_ok (key_generations c) \<Longrightarrow> v1_on_keysym fallback serial time keysym state c \<noteq> None"
  unfolding v1_on_keysym_def Let_def
  by (auto split: option.splits dest: transition_total)

text \<open>The recovery does not touch what arming the repeat looks at.\<close>

lemma recover_keeps_hold:
  assumes "transition_guest_key kb key RecoverIme r = Some (d, r')"
  shows "(physically_held r kb key \<longrightarrow> physically_held r' kb key) \<and>
    (\<not> backspace_repeat_cancelled r kb key \<longrightarrow> \<not> backspace_repeat_cancelled r' kb key) \<and>
    (\<forall>owner. ime_repeat_owner r' kb key = Some owner \<longrightarrow> ime_repeat_owner r kb key = Some owner)"
proof (cases "guest_owner r kb key")
  case None
  with assms have "r' = kg_modify kb key (\<lambda>g. g\<lparr>kg_guest_owner := Some ImeRecovery\<rparr>) (ensure_generation kb key r)"
    by (auto simp: transition_guest_key_def recover_ime_transition_def Let_def claim_asserted_eq)
  then show ?thesis
    by (auto simp: physically_held_def backspace_repeat_cancelled_def ime_repeat_owner_def
        fresh_generation_def key_generation_new_def split: option.splits)
next
  case (Some owner)
  with assms have "r' = r"
    by (auto simp: transition_guest_key_def recover_ime_transition_def Let_def split: if_splits)
  then show ?thesis
    by simp
qed

lemma held_repeat_key_held:
  assumes "held_repeat_key_for_seat c seat = Some held"
  shows "physically_held (key_generations c) (hr_host_keyboard held) (hr_key held) \<and>
    (hr_key held = EVDEV_KEY_BACKSPACE \<longrightarrow>
       \<not> backspace_repeat_cancelled (key_generations c) (hr_host_keyboard held) EVDEV_KEY_BACKSPACE)"
  using assms by (auto simp: held_repeat_key_for_seat_def Let_def split: option.splits prod.splits if_splits)

lemma synthesize_keys [simp]: "key_generations (fold (synthesize_key held) states c) = key_generations c"
  by (induction states arbitrary: c) (simp_all add: synthesize_key_def Let_def)

lemma confirm_empty_total:
  assumes ok: "registry_ok (key_generations c)"
    and own: "\<And>kb owner. ime_repeat_owner (key_generations c) kb EVDEV_KEY_BACKSPACE = Some owner \<Longrightarrow> owner = g"
  shows "confirm_empty g plan c \<noteq> None"
proof (cases "held_repeat_key_for_seat c (cp_guest_seat plan)")
  case None
  then show ?thesis
    by (simp add: confirm_empty_def)
next
  case (Some held)
  let ?kb = "hr_host_keyboard held" and ?key = "hr_key held"
  note held = held_repeat_key_held [OF Some]
  obtain d r where t: "transition_guest_key ?kb ?key RecoverIme (key_generations c) = Some (d, r)"
    using transition_total [OF ok, of ?kb ?key RecoverIme] by auto
  show ?thesis
  proof (cases "delivery d = EmitBalancedPair")
    case False
    with Some t show ?thesis
      by (simp add: confirm_empty_def synthesize_ime_consumed_key_pair_def Let_def)
  next
    case True
    define c1 where "c1 = fold (synthesize_key held) [1, 0] (c\<lparr>key_generations := r\<rparr>)"
    have pair: "synthesize_ime_consumed_key_pair held c = Some (True, c1)"
      using t True by (simp add: synthesize_ime_consumed_key_pair_def Let_def c1_def)
    have r: "key_generations c1 = r"
      unfolding c1_def synthesize_keys by simp
    have "fst (arm_ime_repeat ?kb ?key g r)" if "?key = EVDEV_KEY_BACKSPACE"
      using held recover_keeps_hold [OF t] own [of ?kb] that by (intro arm_succeeds) auto
    then show ?thesis
      using Some pair r by (cases "arm_ime_repeat ?kb ?key g r") (auto simp: confirm_empty_def Let_def)
  qed
qed

lemma confirm_total:
  assumes ok: "registry_ok (key_generations c)" and x: "extension_text_input c = Some (g, s0)"
    and own: "\<And>kb owner. ime_repeat_owner (key_generations c) kb EVDEV_KEY_BACKSPACE = Some owner \<Longrightarrow> owner = g"
  shows "ext_on_confirm_preedit c \<noteq> None"
proof (cases "hm_get (text_inputs c) g")
  case None
  with x show ?thesis
    by (simp add: ext_on_confirm_preedit_def)
next
  case (Some s)
  show ?thesis
  proof (cases "prepare_confirm_preedit s")
    case None
    with x Some show ?thesis
      by (simp add: ext_on_confirm_preedit_def)
  next
    case (Some plan)
    from confirm_preedit.finish_own [OF Some] obtain s' where "finish_confirm_preedit plan s = Some s'" ..
    with x \<open>hm_get (text_inputs c) g = Some s\<close> Some confirm_empty_total [OF ok own] show ?thesis
      by (simp add: ext_on_confirm_preedit_def transaction_eq)
  qed
qed

text \<open>no event of the host can make a text-input handler panic: with a well-formed key registry, and the
  held-Backspace fallback armed for no other text input, every assertion of the handlers holds
  (a plan can still be finished, a held key can be armed, a delivery can be claimed), whatever
  strings, offsets and key symbols the host sends.\<close>
theorem host_events_never_panic:
  assumes "is_host_event e" and ok: "registry_ok (key_generations c)"
    and own: "\<And>g s kb owner. event_target e (c\<lparr>last_sender_id := i\<rparr>) = Some (g, s) \<Longrightarrow>
      ime_repeat_owner (key_generations c) kb EVDEV_KEY_BACKSPACE = Some owner \<Longrightarrow> owner = g"
  shows "text_input_apply fallback (i, e) c \<noteq> None"
proof -
  let ?c = "c\<lparr>last_sender_id := i\<rparr>"
  have "text_input_handle fallback e ?c \<noteq> None"
  proof (cases e)
    case (V1Preedit serial str reset_text)
    show ?thesis
    proof (cases "sender_text_input ?c")
      case None
      with V1Preedit show ?thesis
        by (simp add: text_input_handle_def v1_on_preedit_string_def)
    next
      case (Some y)
      obtain g s where y: "y = (g, s)"
        by (cases y)
      have "v1_on_preedit_string serial str reset_text ?c \<noteq> None"
        by (rule preedit_total [OF Some [unfolded y]])
          (use own [of g s] Some y V1Preedit in \<open>simp add: event_target_def is_extension_event_def\<close>)
      with V1Preedit show ?thesis
        by (simp add: text_input_handle_def)
    qed
  next
    case (V1Commit serial str)
    with commit_total [of serial str ?c] show ?thesis
      by (simp add: text_input_handle_def)
  next
    case (V1Keysym serial time keysym state)
    with keysym_total [of ?c fallback serial time keysym state] ok show ?thesis
      by (simp add: text_input_handle_def)
  next
    case (ExtSetPreeditRegion index len)
    with region_total [of index len ?c] show ?thesis
      by (simp add: text_input_handle_def)
  next
    case ExtConfirmPreedit
    show ?thesis
    proof (cases "extension_text_input ?c")
      case None
      with ExtConfirmPreedit show ?thesis
        by (simp add: text_input_handle_def ext_on_confirm_preedit_def)
    next
      case (Some y)
      obtain g s where y: "y = (g, s)"
        by (cases y)
      have "ext_on_confirm_preedit ?c \<noteq> None"
        by (rule confirm_total [OF _ Some [unfolded y]])
          (use ok own [of g s] Some y ExtConfirmPreedit in
            \<open>simp_all add: event_target_def is_extension_event_def\<close>)
      with ExtConfirmPreedit show ?thesis
        by (simp add: text_input_handle_def)
    qed
  qed (use assms(1) in \<open>simp_all add: text_input_handle_def is_host_event_def\<close>)
  then show ?thesis
    by (simp add: text_input_apply_def)
qed

section \<open>Concrete instances\<close>

text \<open>One text input (5) of seat 3 on surface 7, behind the host objects 20 and 21.\<close>

definition sample_input :: "host_activation_state \<Rightarrow> text_input_state" where
  "sample_input a = (text_input_new 20 (Some 21) 3 (Some 7))\<lparr>host_activation := a\<rparr>"

definition sample_context :: "host_activation_state \<Rightarrow> ctx" where
  "sample_context a = context_empty\<lparr>text_inputs := [(5, sample_input a)],
     shadow_table := track_host_interface_with_version 21 ''zcr_extended_text_input_v1'' 9
       (map_id 5 20 shadow_table_new), last_sender_id := 20\<rparr>"

lemma sample_simps [simp]:
  "text_inputs (sample_context a) = [(5, sample_input a)]"
  "hm_get [(5, sample_input a)] 5 = Some (sample_input a)"
  "last_sender_id (sample_context a) = 20"
  "host_activation (sample_input a) = a" "guest_commit_serial (sample_input a) = 0"
  "host_ext_id (sample_input a) = Some 21" "host_v1_id (sample_input a) = 20"
  "current_preedit (sample_input a) = []" "committed_enabled (sample_input a) = False"
  "guest_seat (sample_input a) = 3" "active_surface (sample_input a) = Some 7"
  "key_generations (sample_context a) = key_registry_default"
  "text_input_activation_barriers (sample_context a) = Map.empty"
  "host_interfaces (shadow_table (sample_context a)) 21 = Some ''zcr_extended_text_input_v1''"
  "get_guest_id (shadow_table (sample_context a)) 20 = Some 5"
  by (simp_all add: sample_context_def sample_input_def context_new_def hm_get_def text_input_new_def
      track_host_interface_with_version_def map_id_def get_guest_id_def shadow_table_new_def)

lemma sample_target: "sender_text_input (sample_context a) = Some (5, sample_input a)"
  by (simp add: sender_text_input_def)

lemma sample_sender [simp]: "(sample_context a)\<lparr>last_sender_id := 20\<rparr> = sample_context a"
  by (simp add: sample_context_def)

lemma hm_get_single: "hm_get [(k, v)] g = (if g = k then Some v else None)"
  by (simp add: hm_get_def)

theorem inactive_host_events_ignored_witness:
  "text_input_apply (\<lambda>_. None) (20, V1Commit 1 [0x61]) (sample_context (Draining (HostId 9))) =
     Some (sample_context (Draining (HostId 9)))"
  using inactive_host_events_ignored [of "V1Commit 1 [0x61]" "sample_context (Draining (HostId 9))" 20 "\<lambda>_. None"]
  by (simp add: is_host_event_def event_target_def is_extension_event_def sample_target hm_ok_def)

theorem delete_range_same_bytes_witness:
  "convert_delete_range (- 3) 5 = Some (3, 2) \<and> uint (3 :: u32) + uint (2 :: u32) = uint (5 :: u32)"
proof -
  have "convert_delete_range (- 3) 5 = Some (3, 2)"
    by (simp add: convert_delete_range_def Let_def)
  with delete_range_same_bytes [of "- 3" 5] show ?thesis
    by (simp add: in_i32_def)
qed

theorem preedit_cursor_in_text_witness:
  "is_char_boundary [0x61, 0xC3, 0xA9] (nat (snd (resolve_preedit_cursor [0x61, 0xC3, 0xA9] (Some (1, 2)) None)))"
  using preedit_cursor_in_text [of "[0x61, 0xC3, 0xA9]" "Some (1, 2)" None]
  by (auto simp: is_char_boundary_def)


theorem region_preserves_text_witness:
  "\<exists>preedit before after range. region_messages 5
       \<lparr>pr_guest_seat = 3, pr_surrounding_text = [0x61, 0x62, 0x63], pr_surrounding_cursor = 2,
        pr_done_serial = 1, pr_selection = None, pr_cursor = None\<rparr> (- 1) 2 =
       (preedit, [delete_msg 5 (before, after), preedit_msg 5 preedit range, done_msg 5 1]) \<and>
     take (2 - unat before) [0x61, 0x62, 0x63] @ preedit @ drop (2 + unat after) [0x61, 0x62, 0x63] =
       [0x61, 0x62, 0x63]"
proof -
  have "region_valid [0x61, 0x62, 0x63] 2 (- 1) 2"
    by (simp add: region_valid_def Let_def is_char_boundary_def utf8_cont_def)
  from region_preserves_text [OF this, of "\<lparr>pr_guest_seat = 3, pr_surrounding_text = [0x61, 0x62, 0x63],
      pr_surrounding_cursor = 2, pr_done_serial = 1, pr_selection = None, pr_cursor = None\<rparr>" 5]
  show ?thesis
    by simp blast
qed

definition sample_guest_context :: ctx where
  "sample_guest_context = (sample_context Inactive)\<lparr>last_sender_id := 5\<rparr>"


lemma sample_guest_simps [simp]:
  "text_inputs sample_guest_context = [(5, sample_input Inactive)]" "last_sender_id sample_guest_context = 5"
  by (simp_all add: sample_guest_context_def)


theorem extension_requests_supported_witness:
  "extension_version (shadow_table (sample_context Active)) 21 \<ge> 8"
proof -
  let ?t = "shadow_table (sample_context Active)"
  let ?p = "(prepare_guest_commit False ((sample_input Active)\<lparr>content_type_dirty := True\<rparr>))"
  have p: "gc_content_type ?p = Some (0, 0)" "gc_host_ext_id ?p = Some 21" "gc_host_v1_id ?p = 20"
    by (simp_all add: prepare_guest_commit_def Let_def sample_input_def text_input_new_def)
  have "extension_version ?t 21 = 9"
    by (simp add: extension_version_def host_object_version_def sample_context_def
        track_host_interface_with_version_def UNKNOWN_OBJECT_VERSION_def)
  then obtain b where "(21, 6, b) \<in> set (content_type_requests ?t ?p)"
    by (auto simp: content_type_requests_def p Let_def extension_version_allows_def)
  from extension_requests_supported [OF this] p show ?thesis
    by (simp add: Let_def)
qed

theorem host_events_never_panic_witness:
  "text_input_apply (\<lambda>_. None) (20, V1Preedit 1 [0x61] []) (sample_context Active) \<noteq> None"
proof (rule host_events_never_panic)
  show "registry_ok (key_generations (sample_context Active))"
    by (simp add: registry_ok_default)
qed (simp_all add: is_host_event_def ime_repeat_owner_def kg_get_def key_registry_default_def)

theorem text_bridge_invariant_witness:
  "\<exists>c' s. try_each (text_input_apply (\<lambda>_. None)) [(9, V3GetTextInput 5 3), (5, V3Enable), (5, V3Commit)]
       (context_empty\<lparr>host_text_input_manager_v1_id := Some 10\<rparr>) = Some c' \<and>
     hm_get (text_inputs c') 5 = Some s \<and> \<not> (host_activation s = Active \<and> \<not> committed_enabled s)"
proof -
  let ?c = "context_empty\<lparr>host_text_input_manager_v1_id := Some 10\<rparr>"
  let ?es = "[(9, V3GetTextInput 5 3), (5, V3Enable), (5, V3Commit)]"
  obtain i t where a: "allocate_host_id shadow_table_new = (Some i, t)"
    using allocate_host_id_complete [of shadow_table_new 2]
    by (cases "allocate_host_id shadow_table_new")
      (auto simp: is_host_id_available_def shadow_table_new_def)
  have "\<exists>c' s. try_each (text_input_apply (\<lambda>_. None)) ?es ?c = Some c' \<and> hm_get (text_inputs c') 5 = Some s"
    using a by (simp add: context_new_def text_input_apply_def text_input_handle_def v3_on_get_text_input_def
        create_extension_def to_host_def track_extension_def Let_def put_text_input_def hm_insert_def
        surface_for_seat_def focus_registry_default_def v3_on_enable_def when_focused_def v3_is_focused_def
        hm_get_single text_input_new_def v3_on_commit_def)
  then obtain c' s where r: "try_each (text_input_apply (\<lambda>_. None)) ?es ?c = Some c'"
    and s: "hm_get (text_inputs c') 5 = Some s"
    by blast
  have "host_activation s = Active \<longrightarrow> committed_enabled s"
    using text_bridge_invariant [OF _ _ r s] by (simp add: context_new_def)
  with r s show ?thesis
    by blast
qed

end
