(* ===== verification/Keyboard_Handler.thy ===== *)
theory Keyboard_Handler
  imports Text_Input_Handler
begin

text \<open>
  The keyboard handler (\<^verbatim>\<open>sommelier/src/handler/keyboard.rs\<close>): the XKB state of each host
  keyboard, the \<open>wl_keyboard\<close> events and requests, and the ChromeOS extended keyboard that
  lets the proxy answer every key with \<open>ack_key\<close>.  xkbcommon is a record of its functions,
  the argument \<open>x\<close>.  The handler has a state of its own next to the context.  A function that
  can panic returns \<open>None\<close> there.
\<close>

section \<open>xkbcommon\<close>

datatype xkb_mod_name = MOD_NAME_CTRL | MOD_NAME_ALT | MOD_NAME_SHIFT | MOD_NAME_LOGO

datatype xkb_component = STATE_MODS_DEPRESSED | STATE_MODS_LATCHED

record ('m, 's) xkb =
  xkb_compile :: "rust_string \<Rightarrow> 'm option"
  xkb_min_keycode :: "'m \<Rightarrow> u32"
  xkb_max_keycode :: "'m \<Rightarrow> u32"
  xkb_num_layouts :: "'m \<Rightarrow> u32 \<Rightarrow> nat"
  xkb_num_levels :: "'m \<Rightarrow> u32 \<Rightarrow> nat \<Rightarrow> nat"
  xkb_syms_by_level :: "'m \<Rightarrow> u32 \<Rightarrow> nat \<Rightarrow> nat \<Rightarrow> u32 list"
  xkb_key_repeats :: "'m \<Rightarrow> u32 \<Rightarrow> bool"
  xkb_state_new :: "'m \<Rightarrow> 's"
  xkb_key_get_one_sym :: "'s \<Rightarrow> u32 \<Rightarrow> u32"
  xkb_update_mask :: "u32 \<Rightarrow> u32 \<Rightarrow> u32 \<Rightarrow> u32 \<Rightarrow> u32 \<Rightarrow> u32 \<Rightarrow> 's \<Rightarrow> 's"
  xkb_mod_active :: "'s \<Rightarrow> xkb_mod_name \<Rightarrow> xkb_component set \<Rightarrow> bool"
  xkb_keysym_to_lower :: "u32 \<Rightarrow> u32"

section \<open>State\<close>

definition WL_KEYMAP_FORMAT_NO_KEYMAP :: u32 where "WL_KEYMAP_FORMAT_NO_KEYMAP = 0"
definition WL_KEYMAP_FORMAT_XKB_V1 :: u32 where "WL_KEYMAP_FORMAT_XKB_V1 = 1"
definition ZCR_EXTENDED_KEYBOARD_DESTROY :: u16 where "ZCR_EXTENDED_KEYBOARD_DESTROY = 0"
definition ZCR_EXTENDED_KEYBOARD_ACK_KEY :: u16 where "ZCR_EXTENDED_KEYBOARD_ACK_KEY = 1"
definition ZCR_KEYBOARD_EXTENSION_GET_EXTENDED_KEYBOARD :: u16 where
  "ZCR_KEYBOARD_EXTENSION_GET_EXTENDED_KEYBOARD = 0"

record ('m, 's) keyboard_handler =
  kh_keymaps :: "host_id \<rightharpoonup> 'm"
  kh_states :: "host_id \<rightharpoonup> 's"
  kh_modifiers :: "host_id \<rightharpoonup> u32"

definition keyboard_handler_new :: "('m, 's) keyboard_handler" where
  "keyboard_handler_new =
     \<lparr>kh_keymaps = Map.empty, kh_states = Map.empty, kh_modifiers = Map.empty\<rparr>"

section \<open>Mapping the keymap\<close>

definition S_IFREG :: u32 where "S_IFREG = 0x8000"

text \<open>
  \<open>MmapView::from_fd\<close> and \<open>as_bytes\<close>: \<open>fstat\<close> is the size and mode the system reports of the
  descriptor, \<open>mapped\<close> the bytes \<open>mmap\<close> puts at the mapping, \<open>None\<close> their failures.
\<close>

definition mmap_view_from_fd ::
    "raw_fd \<Rightarrow> nat \<Rightarrow> (int \<times> u32) option \<Rightarrow> u8 list option \<Rightarrow> u8 list option" where
  "mmap_view_from_fd fd len fstat mapped =
     (if fd < 0 then None
      else if len = 0 then None
      else case fstat of
        None \<Rightarrow> None
      | Some (file_size, file_mode) \<Rightarrow>
          let is_regular_file = (file_mode AND S_IFREG = S_IFREG)
          in if file_size < 0 \<or> (is_regular_file \<and> file_size < int len) then None else mapped)"

section \<open>Tables of a keymap\<close>

text \<open>\<open>entry(k).or_insert(v)\<close>\<close>

definition or_insert :: "'k \<Rightarrow> 'v \<Rightarrow> ('k \<rightharpoonup> 'v) \<Rightarrow> ('k \<rightharpoonup> 'v)" where
  "or_insert k v m = (case m k of Some _ \<Rightarrow> m | None \<Rightarrow> m(k \<mapsto> v))"

definition keycode_range :: "('m, 's) xkb \<Rightarrow> 'm \<Rightarrow> u32 list" where
  "keycode_range x keymap =
     map of_nat [unat (xkb_min_keycode x keymap) ..< Suc (unat (xkb_max_keycode x keymap))]"

definition keycode_syms :: "('m, 's) xkb \<Rightarrow> 'm \<Rightarrow> u32 \<Rightarrow> u32 list" where
  "keycode_syms x keymap keycode =
     concat (map (\<lambda>layout. concat (map (\<lambda>level. xkb_syms_by_level x keymap keycode layout level)
                    [0 ..< xkb_num_levels x keymap keycode layout]))
       [0 ..< xkb_num_layouts x keymap keycode])"

definition keysym_to_evdev_keycodes :: "('m, 's) xkb \<Rightarrow> 'm \<Rightarrow> (u32 \<rightharpoonup> u32)" where
  "keysym_to_evdev_keycodes x keymap =
     fold (\<lambda>keycode keycodes.
         if keycode < 8 then keycodes
         else fold (\<lambda>keysym. or_insert keysym (keycode - 8)) (keycode_syms x keymap keycode) keycodes)
       (keycode_range x keymap) Map.empty"

definition repeatable_evdev_keycodes :: "('m, 's) xkb \<Rightarrow> 'm \<Rightarrow> u32 set" where
  "repeatable_evdev_keycodes x keymap =
     set (List.map_filter
       (\<lambda>keycode. if keycode \<ge> 8 \<and> xkb_key_repeats x keymap keycode then Some (keycode - 8) else None)
       (keycode_range x keymap))"

section \<open>Helpers\<close>

definition guest_seat_for_host_keyboard :: "'h ctx_scheme \<Rightarrow> host_id \<Rightarrow> u32 option" where
  "guest_seat_for_host_keyboard c kb =
     Option.bind (guest_id_of (shadow_table c) kb) (\<lambda>g. hm_get (keyboard_to_seat c) (guest_raw g))"

definition clear_host_keyboard_state :: "host_id \<Rightarrow> 'h ctx_scheme \<Rightarrow> 'h ctx_scheme" where
  "clear_host_keyboard_state kb c = c\<lparr>key_generations := clear_keyboard kb (key_generations c)\<rparr>"

definition reset_host_keyboard_modifiers ::
    "('m, 's) xkb \<Rightarrow> host_id \<Rightarrow> ('m, 's) keyboard_handler \<Rightarrow> ('m, 's) keyboard_handler" where
  "reset_host_keyboard_modifiers x kb h =
     h\<lparr>kh_modifiers := (kh_modifiers h)(kb := None),
       kh_states := (kh_states h)(kb := map_option (xkb_update_mask x 0 0 0 0 0 0) (kh_states h kb))\<rparr>"

type_synonym ('m, 's, 'h) keyboard_world = "('m, 's) keyboard_handler \<times> 'h ctx_scheme"

definition retire_focus_scoped_keyboard_state ::
    "('m, 's) xkb \<Rightarrow> host_id \<Rightarrow> ('m, 's) keyboard_handler \<times> 'h ctx_scheme \<Rightarrow>
     ('m, 's) keyboard_handler \<times> 'h ctx_scheme" where
  "retire_focus_scoped_keyboard_state x kb w =
     (reset_host_keyboard_modifiers x kb (fst w), clear_host_keyboard_state kb (snd w))"

definition update_host_keyboard_key_state ::
    "host_id \<Rightarrow> u32 \<Rightarrow> u32 \<Rightarrow> u32 \<Rightarrow> 'h ctx_scheme \<Rightarrow> 'h ctx_scheme" where
  "update_host_keyboard_key_state kb key state serial c =
     c\<lparr>key_generations := observe_physical_event kb key state (Some serial) (key_generations c)\<rparr>"

definition invalidate_peek_key_press :: "host_id \<Rightarrow> u32 \<Rightarrow> 'h ctx_scheme \<Rightarrow> 'h ctx_scheme" where
  "invalidate_peek_key_press kb key c =
     c\<lparr>key_generations := invalidate_peek kb key (key_generations c)\<rparr>"

definition cancel_keyboard_repeat :: "host_id \<Rightarrow> 'h ctx_scheme \<Rightarrow> 'h ctx_scheme" where
  "cancel_keyboard_repeat kb c =
     c\<lparr>key_generations := cancel_backspace_repeat kb EVDEV_KEY_BACKSPACE (key_generations c)\<rparr>"

text \<open>\<open>keys.as_chunks::<4>()\<close>: the whole chunks; up to three trailing bytes are ignored.\<close>

fun key_chunks :: "u8 list \<Rightarrow> u32 list" where
  "key_chunks (a # b # c # d # rest) = u32_from_ne_bytes [a, b, c, d] # key_chunks rest"
| "key_chunks _ = []"

definition initialize_host_keyboard_enter_state ::
    "host_id \<Rightarrow> u8 list \<Rightarrow> 'h ctx_scheme \<Rightarrow> 'h ctx_scheme" where
  "initialize_host_keyboard_enter_state kb keys c =
     c\<lparr>key_generations := install_enter_snapshot kb (remdups (key_chunks keys)) (key_generations c)\<rparr>"

definition is_host_accelerator ::
    "('m, 's) xkb \<Rightarrow> ('m, 's) keyboard_handler \<Rightarrow> host_id \<Rightarrow> accelerator list \<Rightarrow> u32 \<Rightarrow> bool" where
  "is_host_accelerator x h kb accs key =
     (case kh_states h kb of
        None \<Rightarrow> False
      | Some st \<Rightarrow>
          let modifiers = (case kh_modifiers h kb of Some m \<Rightarrow> m | None \<Rightarrow> 0)
          in if unat key + 8 < 2 ^ 32
             then accelerator_match (xkb_keysym_to_lower x) accs modifiers
                    (xkb_key_get_one_sym x st (key + 8))
             else False)"

definition clear_host_keyboard_keymap ::
    "host_id \<Rightarrow> ('m, 's) keyboard_handler \<times> 'h ctx_scheme \<Rightarrow> ('m, 's) keyboard_handler \<times> 'h ctx_scheme" where
  "clear_host_keyboard_keymap kb w =
     (case w of (h, c) \<Rightarrow>
        (h\<lparr>kh_keymaps := (kh_keymaps h)(kb := None), kh_states := (kh_states h)(kb := None),
           kh_modifiers := (kh_modifiers h)(kb := None)\<rparr>,
         c\<lparr>keyboard_repeatable_keys := (keyboard_repeatable_keys c)(kb := None)\<rparr>))"

definition clear_host_keyboard_keymap_and_state ::
    "host_id \<Rightarrow> ('m, 's) keyboard_handler \<times> 'h ctx_scheme \<Rightarrow> ('m, 's) keyboard_handler \<times> 'h ctx_scheme" where
  "clear_host_keyboard_keymap_and_state kb w =
     (case clear_host_keyboard_keymap kb w of (h, c) \<Rightarrow>
        (h, clear_host_keyboard_state kb
              (c\<lparr>keyboard_keysym_to_keycode := (keyboard_keysym_to_keycode c)(kb := None)\<rparr>)))"

section \<open>The extended keyboard\<close>

definition send_request :: "u32 \<Rightarrow> u16 \<Rightarrow> message_builder \<Rightarrow> 'h ctx_scheme \<Rightarrow> 'h ctx_scheme option" where
  "send_request sender opcode builder c =
     map_option (\<lambda>msg. c\<lparr>client_to_host_queue := client_to_host_queue c @ [(msg, [])]\<rparr>)
       (build_message builder sender opcode)"

definition ensure_extended_keyboard_bound :: "host_id \<Rightarrow> 'h ctx_scheme \<Rightarrow> 'h ctx_scheme option" where
  "ensure_extended_keyboard_bound kb c =
     (case host_keyboard_extension_id c of
        None \<Rightarrow> Some c
      | Some extension \<Rightarrow>
          if keyboard_to_extended_keyboard c kb \<noteq> None then Some c
          else
            (case allocate_host_id (shadow_table c) of
               (None, _) \<Rightarrow> None
             | (Some ext, t) \<Rightarrow>
                 let version = (case host_object_version t (host_raw extension) of
                                  Some v \<Rightarrow> v
                                | None \<Rightarrow> 0xffffffff)
                 in send_request (host_raw extension) ZCR_KEYBOARD_EXTENSION_GET_EXTENDED_KEYBOARD
                      (write_u32 (host_raw kb) (write_u32 ext message_builder_new))
                      (c\<lparr>keyboard_to_extended_keyboard :=
                           (keyboard_to_extended_keyboard c)(kb \<mapsto> HostId ext),
                         extended_keyboard_to_keyboard :=
                           (extended_keyboard_to_keyboard c)(HostId ext \<mapsto> kb),
                         shadow_table :=
                           track_host_interface_with_version ext ''zcr_extended_keyboard_v1'' version t\<rparr>)))"

definition send_ack_key :: "host_id \<Rightarrow> u32 \<Rightarrow> bool \<Rightarrow> 'h ctx_scheme \<Rightarrow> 'h ctx_scheme option" where
  "send_ack_key kb serial handled c =
     (case keyboard_to_extended_keyboard c kb of
        None \<Rightarrow> Some c
      | Some ext \<Rightarrow>
          send_request (host_raw ext) ZCR_EXTENDED_KEYBOARD_ACK_KEY
            (write_u32 (if handled then 1 else 0) (write_u32 serial message_builder_new)) c)"

section \<open>\<open>wl_keyboard.keymap\<close>\<close>

text \<open>A compiled keymap replaces the interpretation of the keys, not the session of held keys.\<close>

definition install_keymap ::
    "('m, 's) xkb \<Rightarrow> host_id \<Rightarrow> 'm \<Rightarrow> ('m, 's) keyboard_handler \<times> 'h ctx_scheme \<Rightarrow>
     ('m, 's) keyboard_handler \<times> 'h ctx_scheme" where
  "install_keymap x kb keymap w =
     (case clear_host_keyboard_keymap kb w of (h, c) \<Rightarrow>
        (h\<lparr>kh_states := (kh_states h)(kb \<mapsto> xkb_state_new x keymap),
           kh_modifiers := (kh_modifiers h)(kb := None),
           kh_keymaps := (kh_keymaps h)(kb \<mapsto> keymap)\<rparr>,
         c\<lparr>keyboard_keysym_to_keycode :=
             (keyboard_keysym_to_keycode c)(kb \<mapsto> keysym_to_evdev_keycodes x keymap),
           keyboard_repeatable_keys :=
             (keyboard_repeatable_keys c)(kb \<mapsto> repeatable_evdev_keycodes x keymap),
           key_generations := clear_accelerator_suppressions kb (key_generations c)\<rparr>))"

definition kb_on_keymap ::
    "('m, 's) xkb \<Rightarrow> (int \<times> u32) option \<Rightarrow> u8 list option \<Rightarrow> u32 \<Rightarrow> raw_fd \<Rightarrow> u32 \<Rightarrow>
     ('m, 's) keyboard_handler \<times> 'h ctx_scheme \<Rightarrow> action \<times> ('m, 's) keyboard_handler \<times> 'h ctx_scheme" where
  "kb_on_keymap x fstat mapped format fd bytes_len w =
     (let kb = HostId (last_sender_id (snd w));
          cleared = (Forward, clear_host_keyboard_keymap_and_state kb w)
      in if format = WL_KEYMAP_FORMAT_NO_KEYMAP then cleared
         else if format \<noteq> WL_KEYMAP_FORMAT_XKB_V1 then cleared
         else if bytes_len = 0 then cleared
         else case mmap_view_from_fd fd (unat bytes_len) fstat mapped of
           None \<Rightarrow> cleared
         | Some bytes \<Rightarrow>
             if bytes = [] \<or> last bytes \<noteq> 0 then cleared
             else if \<not> utf8_valid (butlast bytes) then cleared
             else (case xkb_compile x (butlast bytes) of
                     None \<Rightarrow> cleared
                   | Some keymap \<Rightarrow> (Forward, install_keymap x kb keymap w)))"

section \<open>Focus\<close>

text \<open>The keyboards whose focus was lost or replaced, in the order of the update.\<close>

definition retire_all ::
    "('m, 's) xkb \<Rightarrow> host_id list \<Rightarrow> ('m, 's) keyboard_handler \<times> 'h ctx_scheme \<Rightarrow>
     ('m, 's) keyboard_handler \<times> 'h ctx_scheme" where
  "retire_all x kbs w = fold (retire_focus_scoped_keyboard_state x) kbs w"

definition kb_on_enter ::
    "('m, 's) xkb \<Rightarrow> u32 \<Rightarrow> u8 list \<Rightarrow> ('m, 's) keyboard_handler \<times> 'h ctx_scheme \<Rightarrow>
     (action \<times> ('m, 's) keyboard_handler \<times> 'h ctx_scheme) option" where
  "kb_on_enter x surface keys w =
     (case w of (h, c) \<Rightarrow>
        let kb = HostId (last_sender_id c);
            guest_keyboard = (case guest_id_of (shadow_table c) kb of Some g \<Rightarrow> guest_raw g | None \<Rightarrow> 0);
            guest_surface = (case get_guest_id (shadow_table c) surface of Some g \<Rightarrow> g | None \<Rightarrow> 0)
        in if guest_surface \<noteq> 0 \<and> is_pending_destroy_host (shadow_table c) surface then Some (Drop, w)
           else if guest_surface = 0 then Some (Drop, w)
           else (case hm_get (keyboard_to_seat c) guest_keyboard of
             None \<Rightarrow> Some (Drop, w)
           | Some seat \<Rightarrow>
               let focus = \<lparr>kf_guest_seat = seat, kf_guest_surface = guest_surface,
                            kf_host_surface = surface\<rparr>
               in if focus_for_keyboard (kb_focus c) kb = Some focus then Some (Drop, w)
                  else case ensure_extended_keyboard_bound kb c of
                    None \<Rightarrow> None
                  | Some c1 \<Rightarrow>
                      (case focus_enter kb focus (kb_focus c1) of
                         (update, r) \<Rightarrow>
                           (case retire_all x (retired_keyboards update) (h, c1\<lparr>kb_focus := r\<rparr>) of
                              (h2, c2) \<Rightarrow>
                                let c3 = initialize_host_keyboard_enter_state kb keys c2;
                                    h3 = reset_host_keyboard_modifiers x kb h2
                                in if seat_changes update = [] then Some (Forward, h3, c3)
                                   else map_option (\<lambda>c4. (Forward, h3, c4))
                                     (apply_keyboard_focus_changes (seat_changes update) c3)))))"

definition kb_on_leave ::
    "('m, 's) xkb \<Rightarrow> u32 \<Rightarrow> ('m, 's) keyboard_handler \<times> 'h ctx_scheme \<Rightarrow>
     (action \<times> ('m, 's) keyboard_handler \<times> 'h ctx_scheme) option" where
  "kb_on_leave x surface w =
     (case w of (h, c) \<Rightarrow>
        let kb = HostId (last_sender_id c);
            guest_surface = (case get_guest_id (shadow_table c) surface of Some g \<Rightarrow> g | None \<Rightarrow> 0);
            surface_can_be_forwarded =
              (guest_surface \<noteq> 0 \<and> \<not> is_pending_destroy_host (shadow_table c) surface)
        in case focus_leave kb surface (kb_focus c) of
             (update, r) \<Rightarrow>
               let c1 = c\<lparr>kb_focus := r\<rparr>
               in if \<not> accepted update then Some (Drop, h, c1)
                  else (case retire_all x (retired_keyboards update) (h, c1) of
                    (h2, c2) \<Rightarrow>
                      map_option (\<lambda>c3. (if surface_can_be_forwarded then Forward else Drop, h2, c3))
                        (apply_keyboard_focus_changes (seat_changes update) c2)))"

section \<open>\<open>wl_keyboard.key\<close>\<close>

text \<open>Ending the Backspace fallback of a seat that is known.\<close>

definition end_repeat_of :: "u32 option \<Rightarrow> 'h ctx_scheme \<Rightarrow> 'h ctx_scheme" where
  "end_repeat_of seat c =
     (case seat of Some s \<Rightarrow> end_backspace_repeat_for_seat s c | None \<Rightarrow> c)"

definition transition_key ::
    "host_id \<Rightarrow> u32 \<Rightarrow> guest_key_event \<Rightarrow> 'h ctx_scheme \<Rightarrow> (guest_key_decision \<times> 'h ctx_scheme) option" where
  "transition_key kb key event c =
     map_option (\<lambda>(decision, r). (decision, c\<lparr>key_generations := r\<rparr>))
       (transition_guest_key kb key event (key_generations c))"

text \<open>What the event says about the physical key, ahead of the decision.\<close>

definition observe_key ::
    "host_id \<Rightarrow> u32 \<Rightarrow> u32 \<Rightarrow> u32 \<Rightarrow> 'h ctx_scheme \<Rightarrow> 'h ctx_scheme" where
  "observe_key kb key state serial c =
     (let delayed_released_peek_press =
            (physical_released (key_generations c) kb key \<and>
             peek_press_serial (key_generations c) kb key = Some serial);
          c1 = (if state = WL_KEY_PRESSED \<and> \<not> delayed_released_peek_press
                then update_host_keyboard_key_state kb key state serial c else c)
      in if state = WL_KEY_RELEASED \<or>
            (state = WL_KEY_REPEATED \<and>
             (guest_owner (key_generations c1) kb key = Some Physical \<or>
              guest_owner (key_generations c1) kb key = Some TextInputKeysym))
         then update_host_keyboard_key_state kb key state serial c1 else c1)"

text \<open>The decision on a press, repeat or release.\<close>

definition decide_press ::
    "('m, 's) xkb \<Rightarrow> ('m, 's) keyboard_handler \<Rightarrow> host_id \<Rightarrow> u32 option \<Rightarrow> u32 \<Rightarrow> bool \<Rightarrow> bool \<Rightarrow>
     'h ctx_scheme \<Rightarrow> (guest_key_decision \<times> 'h ctx_scheme) option" where
  "decide_press x h kb seat key repeated backspace_repeat_active c =
     (let c1 = (if key \<noteq> EVDEV_KEY_BACKSPACE then end_repeat_of seat (cancel_keyboard_repeat kb c) else c);
          host_accelerator = is_host_accelerator x h kb (accelerators c1) key;
          c2 = (if host_accelerator then invalidate_peek_key_press kb key c1 else c1)
      in transition_key kb key (PhysicalPress repeated host_accelerator backspace_repeat_active) c2)"

definition decide_release ::
    "host_id \<Rightarrow> u32 option \<Rightarrow> u32 \<Rightarrow> 'h ctx_scheme \<Rightarrow> (guest_key_decision \<times> 'h ctx_scheme) option" where
  "decide_release kb seat key c =
     map_option (\<lambda>(decision, c1).
         (decision,
          if key = EVDEV_KEY_BACKSPACE \<and> ends_repeat decision then end_repeat_of seat c1 else c1))
       (transition_key kb key PhysicalRelease c)"

text \<open>The acknowledgement, and the delivery it goes with; a missing answer and a pair panic.\<close>

definition answer_key ::
    "host_id \<Rightarrow> u32 \<Rightarrow> guest_key_decision \<times> 'h ctx_scheme \<Rightarrow> (action \<times> 'h ctx_scheme) option" where
  "answer_key kb serial dc =
     (case dc of (decision, c) \<Rightarrow>
        (case ack_handled decision of
           None \<Rightarrow> None
         | Some handled \<Rightarrow>
             (case send_ack_key kb serial handled c of
                None \<Rightarrow> None
              | Some c1 \<Rightarrow>
                  (case delivery decision of
                     ForwardKey \<Rightarrow> Some (Forward, c1)
                   | DropKey \<Rightarrow> Some (Drop, c1)
                   | EmitBalancedPair \<Rightarrow> None))))"

definition kb_on_key ::
    "('m, 's) xkb \<Rightarrow> u32 \<Rightarrow> u32 \<Rightarrow> u32 \<Rightarrow> ('m, 's) keyboard_handler \<Rightarrow> 'h ctx_scheme \<Rightarrow>
     (action \<times> 'h ctx_scheme) option" where
  "kb_on_key x serial key state h c =
     (let kb = HostId (last_sender_id c);
          r = key_generations c;
          seat = guest_seat_for_host_keyboard c kb;
          peek_serial = peek_press_serial r kb key;
          (taken, r') = (if state = WL_KEY_RELEASED then take_pending_physical_release kb key serial r
                         else (False, r))
      in if taken then
           map_option (Pair Forward) (send_ack_key kb serial True (c\<lparr>key_generations := r'\<rparr>))
         else if state = WL_KEY_RELEASED \<and> peek_serial \<noteq> None \<and>
                 physical_release_serial r kb key \<noteq> Some serial
         then map_option (Pair Drop) (send_ack_key kb serial False c)
         else if state = WL_KEY_PRESSED \<and> physically_held r kb key \<and>
                 (case peek_serial of Some s \<Rightarrow> s \<noteq> serial | None \<Rightarrow> False)
         then map_option (Pair Drop) (send_ack_key kb serial False c)
         else
           let backspace_repeat_active =
                 (key = EVDEV_KEY_BACKSPACE \<and> backspace_repeat_active_for_keyboard c kb);
               c1 = observe_key kb key state serial c
           in if state = WL_KEY_PRESSED \<or> state = WL_KEY_REPEATED then
                Option.bind (decide_press x h kb seat key (state = WL_KEY_REPEATED) backspace_repeat_active c1)
                  (answer_key kb serial)
              else if state = WL_KEY_RELEASED then
                Option.bind (decide_release kb seat key c1) (answer_key kb serial)
              else Some (Drop, c1))"

section \<open>Modifiers\<close>

definition modifier_bits :: "('m, 's) xkb \<Rightarrow> 's \<Rightarrow> u32" where
  "modifier_bits x st =
     fold (\<lambda>(name, bit) m.
         if xkb_mod_active x st name {STATE_MODS_DEPRESSED, STATE_MODS_LATCHED} then m OR bit else m)
       [(MOD_NAME_CTRL, CONTROL_MASK), (MOD_NAME_ALT, ALT_MASK), (MOD_NAME_SHIFT, SHIFT_MASK),
        (MOD_NAME_LOGO, SUPER_MASK)] 0"

definition kb_on_modifiers ::
    "('m, 's) xkb \<Rightarrow> u32 \<Rightarrow> u32 \<Rightarrow> u32 \<Rightarrow> u32 \<Rightarrow> ('m, 's) keyboard_handler \<times> 'h ctx_scheme \<Rightarrow>
     action \<times> ('m, 's) keyboard_handler \<times> 'h ctx_scheme" where
  "kb_on_modifiers x mods_depressed mods_latched mods_locked layout_group w =
     (case w of (h, c) \<Rightarrow>
        let kb = HostId (last_sender_id c)
        in (Forward,
            (case kh_states h kb of
               Some st \<Rightarrow>
                 let st' = xkb_update_mask x mods_depressed mods_latched mods_locked 0 0 layout_group st
                 in h\<lparr>kh_states := (kh_states h)(kb \<mapsto> st'),
                      kh_modifiers := (kh_modifiers h)(kb \<mapsto> modifier_bits x st')\<rparr>
             | None \<Rightarrow> h\<lparr>kh_modifiers := (kh_modifiers h)(kb := None)\<rparr>), c))"

section \<open>\<open>wl_keyboard.release\<close>\<close>

definition destroy_extended_keyboard :: "host_id \<Rightarrow> 'h ctx_scheme \<Rightarrow> 'h ctx_scheme option" where
  "destroy_extended_keyboard kb c =
     (case keyboard_to_extended_keyboard c kb of
        None \<Rightarrow> Some c
      | Some ext \<Rightarrow>
          map_option (\<lambda>d. d\<lparr>shadow_table := snd (mark_pending_destroy_host (host_raw ext) (shadow_table d))\<rparr>)
            (send_request (host_raw ext) ZCR_EXTENDED_KEYBOARD_DESTROY message_builder_new
              (c\<lparr>keyboard_to_extended_keyboard := (keyboard_to_extended_keyboard c)(kb := None),
                 extended_keyboard_to_keyboard := (extended_keyboard_to_keyboard c)(ext := None)\<rparr>)))"

definition kb_on_release ::
    "('m, 's) keyboard_handler \<times> 'h ctx_scheme \<Rightarrow>
     (action \<times> ('m, 's) keyboard_handler \<times> 'h ctx_scheme) option" where
  "kb_on_release w =
     (case w of (h, c) \<Rightarrow>
        let guest = last_sender_id c;
            seat = hm_get (keyboard_to_seat c) guest;
            c1 = c\<lparr>keyboard_to_seat := hm_remove guest (keyboard_to_seat c)\<rparr>
        in case host_id_of (shadow_table c1) (GuestId guest) of
             None \<Rightarrow> Some (Forward, h, end_repeat_of seat c1)
           | Some kb \<Rightarrow>
               (case focus_release kb (kb_focus c1) of
                  (update, r) \<Rightarrow>
                    (case clear_host_keyboard_keymap_and_state kb (h, c1\<lparr>kb_focus := r\<rparr>) of
                       (h2, c2) \<Rightarrow>
                         Option.bind (destroy_extended_keyboard kb c2)
                           (\<lambda>c3. map_option (\<lambda>c4. (Forward, h2, c4))
                             (apply_keyboard_focus_changes (seat_changes update) c3)))))"

section \<open>\<open>zcr_extended_keyboard_v1.peek_key\<close>\<close>

text \<open>The watermark of a new peek generation, on the seat and the surface the keyboard owns.\<close>

definition record_peek_watermark :: "u32 option \<Rightarrow> host_id \<Rightarrow> u64 \<Rightarrow> 'h ctx_scheme \<Rightarrow> 'h ctx_scheme" where
  "record_peek_watermark seat kb sequence c =
     (case seat of
        None \<Rightarrow> c
      | Some s \<Rightarrow>
          let focused_surface = Option.bind (surface_for_seat (kb_focus c) s)
                (\<lambda>surface. if keyboard_owns_surface (kb_focus c) kb surface then Some surface else None)
          in c\<lparr>key_generations := record_latest_peek s focused_surface kb sequence (key_generations c)\<rparr>)"

definition peek_press ::
    "('m, 's) xkb \<Rightarrow> ('m, 's) keyboard_handler \<Rightarrow> host_id \<Rightarrow> u32 option \<Rightarrow> u32 \<Rightarrow> u32 \<Rightarrow> u32 \<Rightarrow>
     'h ctx_scheme \<Rightarrow> 'h ctx_scheme" where
  "peek_press x h kb seat serial time key c =
     (let eligible = (\<not> host_accelerator_suppressed (key_generations c) kb key \<and>
            \<not> is_host_accelerator x h kb (accelerators c) key)
      in case observe_peek_press kb key serial time eligible (key_generations c) of
           (sequence, r) \<Rightarrow> record_peek_watermark seat kb sequence (c\<lparr>key_generations := r\<rparr>))"

definition peek_pressed ::
    "('m, 's) xkb \<Rightarrow> ('m, 's) keyboard_handler \<Rightarrow> host_id \<Rightarrow> u32 option \<Rightarrow> u32 \<Rightarrow> u32 \<Rightarrow> u32 \<Rightarrow> u32 \<Rightarrow>
     'h ctx_scheme \<Rightarrow> 'h ctx_scheme" where
  "peek_pressed x h kb seat serial time key state c =
     (let peek_pressed_before =
            (physically_held (key_generations c) kb key \<and> peek (key_generations c) kb key \<noteq> None);
          c1 = (if state = WL_KEY_PRESSED \<and> \<not> peek_pressed_before
                then peek_press x h kb seat serial time key c
                else if state = WL_KEY_REPEATED \<or> (state = WL_KEY_PRESSED \<and> peek_pressed_before)
                then c\<lparr>key_generations := refresh_peek kb key serial time (key_generations c)\<rparr>
                else c);
          c2 = update_host_keyboard_key_state kb key state serial c1
      in if state = WL_KEY_PRESSED \<and> key \<noteq> EVDEV_KEY_BACKSPACE
         then end_repeat_of seat (cancel_keyboard_repeat kb c2) else c2)"

definition valid_peek_release :: "peek_key_provenance \<Rightarrow> u32 \<Rightarrow> u32 \<Rightarrow> bool" where
  "valid_peek_release press serial time \<longleftrightarrow>
     serial_is_after serial (pk_serial press) \<or>
     (serial = pk_serial press \<and> \<not> serial_is_after (pk_time press) time)"

definition peek_released ::
    "host_id \<Rightarrow> u32 option \<Rightarrow> u32 \<Rightarrow> u32 \<Rightarrow> u32 \<Rightarrow> 'h ctx_scheme \<Rightarrow> 'h ctx_scheme" where
  "peek_released kb seat serial time key c =
     (if (case peek (key_generations c) kb key of
            Some press \<Rightarrow> \<not> valid_peek_release press serial time
          | None \<Rightarrow> False)
      then c
      else
        let c1 = c\<lparr>key_generations := observe_peek_release kb key serial (key_generations c)\<rparr>
        in if key = EVDEV_KEY_BACKSPACE then end_repeat_of seat c1 else c1)"

definition kb_on_peek_key ::
    "('m, 's) xkb \<Rightarrow> u32 \<Rightarrow> u32 \<Rightarrow> u32 \<Rightarrow> u32 \<Rightarrow> ('m, 's) keyboard_handler \<Rightarrow> 'h ctx_scheme \<Rightarrow>
     action \<times> 'h ctx_scheme" where
  "kb_on_peek_key x serial time key state h c =
     (case extended_keyboard_to_keyboard c (HostId (last_sender_id c)) of
        None \<Rightarrow> (Drop, c)
      | Some kb \<Rightarrow>
          let seat = guest_seat_for_host_keyboard c kb;
              pressed_before = physically_held (key_generations c) kb key
          in (Drop,
              if (state = WL_KEY_PRESSED \<or> state = WL_KEY_REPEATED) \<and>
                 (state = WL_KEY_PRESSED \<or> pressed_before)
              then peek_pressed x h kb seat serial time key state c
              else if state = WL_KEY_REPEATED then c
              else if state = WL_KEY_RELEASED then peek_released kb seat serial time key c
              else c))"

end
