(* ===== verification/Keyboard_Keys.thy ===== *)
theory Keyboard_Keys
  imports Keyboard_Handler
begin

text \<open>
  The key events of the keyboard handler: every decision is acknowledged once, a key that is
  reported to the host as unhandled never reaches the guest, and the guest's presses and
  releases stay paired whatever the order of the \<open>key\<close> and \<open>peek_key\<close> events.
\<close>

section \<open>Quiet changes of a context\<close>

text \<open>Only the key registry changes, and no press of the guest is opened or closed.\<close>

definition keys_quiet :: "'h ctx_scheme \<Rightarrow> 'h ctx_scheme \<Rightarrow> bool" where
  "keys_quiet c c' \<longleftrightarrow>
     (\<exists>r. c' = c\<lparr>key_generations := r\<rparr> \<and> quiet (key_generations c) r)"

lemma keys_quietI: "quiet (key_generations c) r \<Longrightarrow> keys_quiet c (c\<lparr>key_generations := r\<rparr>)"
  by (auto simp: keys_quiet_def)

lemma keys_quiet_refl: "registry_ok (key_generations c) \<Longrightarrow> keys_quiet c c"
  unfolding keys_quiet_def by (rule exI [of _ "key_generations c"]) (simp add: quiet_refl)

lemma keys_quiet_ok: "keys_quiet c c' \<Longrightarrow> registry_ok (key_generations c')"
  by (auto simp: keys_quiet_def quiet_def)

lemma keys_quiet_trans: "keys_quiet c d \<Longrightarrow> keys_quiet d e \<Longrightarrow> keys_quiet c e"
proof -
  assume "keys_quiet c d" "keys_quiet d e"
  then obtain r r' where "d = c\<lparr>key_generations := r\<rparr>" "quiet (key_generations c) r"
    "e = d\<lparr>key_generations := r'\<rparr>" "quiet r r'"
    by (auto simp: keys_quiet_def)
  then show "keys_quiet c e"
    unfolding keys_quiet_def by (intro exI [of _ r']) (auto intro: quiet_trans)
qed

lemma quiet_key_change: "quiet r r' \<Longrightarrow> key_change r r' kb key 0"
  by (simp add: quiet_def key_change_def)

lemma update_state_quiet:
  "registry_ok (key_generations c) \<Longrightarrow> keys_quiet c (update_host_keyboard_key_state kb key state serial c)"
  unfolding update_host_keyboard_key_state_def by (intro keys_quietI observe_event_quiet)

lemma cancel_repeat_quiet:
  "registry_ok (key_generations c) \<Longrightarrow> keys_quiet c (cancel_keyboard_repeat kb c)"
  unfolding cancel_keyboard_repeat_def by (intro keys_quietI cancel_backspace_quiet)

lemma end_repeat_fold_quiet:
  "registry_ok r \<Longrightarrow> quiet r (fold (\<lambda>(_, kb) r.
     if ime_repeat_active r kb key then cancel_backspace_repeat kb key r else r) ks r)"
proof (induction ks arbitrary: r)
  case (Cons k ks)
  let ?r = "case k of (_, kb) \<Rightarrow> if ime_repeat_active r kb key then cancel_backspace_repeat kb key r else r"
  have q: "quiet r ?r"
    using Cons.prems by (simp add: cancel_backspace_quiet quiet_refl split: prod.split)
  then have "registry_ok ?r"
    by (simp add: quiet_def)
  from quiet_trans [OF q Cons.IH [OF this]] show ?case
    by (simp add: case_prod_beta')
qed (simp add: quiet_refl)

lemma end_repeat_quiet: "registry_ok (key_generations c) \<Longrightarrow> keys_quiet c (end_repeat_of seat c)"
  unfolding end_repeat_of_def end_backspace_repeat_for_seat_def
  by (cases seat) (auto intro: keys_quiet_refl keys_quietI end_repeat_fold_quiet)

lemma invalidate_quiet: "registry_ok r \<Longrightarrow> quiet r (invalidate_peek kb key r)"
  unfolding invalidate_peek_def by (rule modify_quiet) (auto simp: gen_ok_def is_unreferenced_def)

lemma refresh_quiet: "registry_ok r \<Longrightarrow> quiet r (refresh_peek kb key serial time r)"
  unfolding refresh_peek_def by (rule modify_quiet) (auto simp: gen_ok_def is_unreferenced_def)

lemma invalidate_press_quiet:
  "registry_ok (key_generations c) \<Longrightarrow> keys_quiet c (invalidate_peek_key_press kb key c)"
  unfolding invalidate_peek_key_press_def by (intro keys_quietI invalidate_quiet)

lemma observe_key_quiet:
  assumes ok: "registry_ok (key_generations c)"
  shows "keys_quiet c (observe_key kb key state serial c)"
proof -
  have step: "keys_quiet c (if p then update_host_keyboard_key_state kb key state serial c else c)"
    if "registry_ok (key_generations c)" for p c
    using that by (simp add: update_state_quiet keys_quiet_refl)
  from keys_quiet_trans [OF step [OF ok] step [OF keys_quiet_ok [OF step [OF ok]]]] show ?thesis
    unfolding observe_key_def Let_def .
qed

section \<open>Answers\<close>

definition ack_request :: "host_id \<Rightarrow> u32 \<Rightarrow> bool \<Rightarrow> request" where
  "ack_request ext serial handled =
     (host_raw ext, ZCR_EXTENDED_KEYBOARD_ACK_KEY,
      write_u32 (if handled then 1 else 0) (write_u32 serial message_builder_new))"

text \<open>One acknowledgement, if the keyboard has an extended keyboard.\<close>

definition acks :: "'h ctx_scheme \<Rightarrow> host_id \<Rightarrow> u32 \<Rightarrow> bool \<Rightarrow> packet list" where
  "acks c kb serial handled =
     (case keyboard_to_extended_keyboard c kb of
        Some ext \<Rightarrow> [packet_of (ack_request ext serial handled)]
      | None \<Rightarrow> [])"

lemma send_request_eq:
  "encodes (s, op, b) \<Longrightarrow> send_request s op b c =
     Some (c\<lparr>client_to_host_queue := client_to_host_queue c @ [packet_of (s, op, b)]\<rparr>)"
  by (simp add: send_request_def built packet_pair)

lemma send_ack_eq:
  "send_ack_key kb serial handled c =
     Some (c\<lparr>client_to_host_queue := client_to_host_queue c @ acks c kb serial handled\<rparr>)"
  by (simp add: send_ack_key_def acks_def ack_request_def send_request_eq split: option.split)

text \<open>What the reducer says of a physical event.\<close>

definition answer_ok :: "bool \<Rightarrow> guest_key_decision \<Rightarrow> bool" where
  "answer_ok host_accelerator d \<longleftrightarrow>
     ack_handled d \<noteq> None \<and> delivery d \<noteq> EmitBalancedPair \<and>
     (delivery d = ForwardKey \<longrightarrow> ack_handled d = Some True) \<and>
     (host_accelerator \<longrightarrow> delivery d = DropKey \<and> ack_handled d = Some False)"

lemma press_decide_answer:
  "physical_press_decide kb key repeated acc forwarded suppress r = Some (d, r') \<Longrightarrow> answer_ok acc d"
  by (auto simp: physical_press_decide_def answer_ok_def Let_def decide_def claim_asserted_def
      split: if_splits)

lemma press_answer:
  "transition_guest_key kb key (PhysicalPress repeated acc ime_active) r = Some (d, r') \<Longrightarrow> answer_ok acc d"
  unfolding transition_guest_key_def physical_press_transition_def guest_key_event.case Let_def
  by (auto simp: bind_eq_Some_conv dest: press_decide_answer)

lemma release_answer:
  "transition_guest_key kb key PhysicalRelease r = Some (d, r') \<Longrightarrow> answer_ok False d"
  by (auto simp: transition_guest_key_def physical_release_transition_def answer_ok_def Let_def decide_def
      split: prod.splits if_splits)

text \<open>
  A decided key event: the registry accounts for the event, the answer is well formed, and
  nothing but the registry has changed.
\<close>

definition decided ::
    "host_id \<Rightarrow> u32 \<Rightarrow> bool \<Rightarrow> int \<Rightarrow> 'h ctx_scheme \<Rightarrow> (guest_key_decision \<times> 'h ctx_scheme) option \<Rightarrow> bool" where
  "decided kb key acc d c res \<longleftrightarrow>
     (\<exists>decision r. res = Some (decision, c\<lparr>key_generations := r\<rparr>) \<and> answer_ok acc decision \<and>
        key_change (key_generations c) r kb key (if delivery decision = ForwardKey then d else 0))"

lemma decided_after:
  assumes "keys_quiet c c1" and "decided kb key acc d c1 res"
  shows "decided kb key acc d c res"
proof -
  from assms(1) obtain r1 where r1: "c1 = c\<lparr>key_generations := r1\<rparr>" "quiet (key_generations c) r1"
    by (auto simp: keys_quiet_def)
  from assms(2) obtain dec r where r: "res = Some (dec, c1\<lparr>key_generations := r\<rparr>)" "answer_ok acc dec"
    "key_change r1 r kb key (if delivery dec = ForwardKey then d else 0)"
    by (auto simp: decided_def r1(1))
  from key_change_trans [OF quiet_key_change [OF r1(2)] r(3)] r r1(1) show ?thesis
    by (auto simp: decided_def)
qed

lemma transition_decided:
  assumes ok: "registry_ok (key_generations c)"
    and a: "\<And>d r. transition_guest_key kb key event (key_generations c) = Some (d, r) \<Longrightarrow> answer_ok acc d"
  shows "decided kb key acc (event_effect event) c (transition_key kb key event c)"
proof -
  from transition_accounted [OF ok, of kb key event] obtain d r where
    t: "transition_guest_key kb key event (key_generations c) = Some (d, r)"
      "key_change (key_generations c) r kb key (if delivery d = ForwardKey then event_effect event else 0)"
    by (auto simp: accounted_def split: option.splits prod.splits)
  with a [OF t(1)] show ?thesis
    by (auto simp: decided_def transition_key_def)
qed

lemma press_decided:
  "registry_ok (key_generations c) \<Longrightarrow>
     decided kb key acc (if repeated then 0 else 1) c
       (transition_key kb key (PhysicalPress repeated acc ime_active) c)"
  by (rule transition_decided [where event = "PhysicalPress repeated acc ime_active",
        unfolded event_effect_def guest_key_event.case]) (simp_all only: press_answer)

lemma release_decided:
  "registry_ok (key_generations c) \<Longrightarrow> decided kb key False (- 1) c (transition_key kb key PhysicalRelease c)"
  by (rule transition_decided [where event = PhysicalRelease, unfolded event_effect_def guest_key_event.case])
    (simp_all only: release_answer)

lemma decide_press_decided:
  assumes ok: "registry_ok (key_generations c)"
  shows "decided kb key (is_host_accelerator x h kb (accelerators c) key) (if repeated then 0 else 1) c
    (decide_press x h kb seat key repeated ime_active c)"
proof -
  define c1 where "c1 = (if key \<noteq> EVDEV_KEY_BACKSPACE then end_repeat_of seat (cancel_keyboard_repeat kb c) else c)"
  have q1: "keys_quiet c c1"
    using cancel_repeat_quiet [OF ok, of kb] keys_quiet_refl [OF ok]
    by (auto simp: c1_def intro: keys_quiet_trans end_repeat_quiet keys_quiet_ok)
  then have acc: "accelerators c1 = accelerators c"
    by (auto simp: keys_quiet_def)
  define c2 where "c2 = (if is_host_accelerator x h kb (accelerators c) key
    then invalidate_peek_key_press kb key c1 else c1)"
  have q2: "keys_quiet c1 c2"
    unfolding c2_def by (simp add: invalidate_press_quiet keys_quiet_refl keys_quiet_ok [OF q1])
  have "decided kb key (is_host_accelerator x h kb (accelerators c) key) (if repeated then 0 else 1) c2
    (transition_key kb key
      (PhysicalPress repeated (is_host_accelerator x h kb (accelerators c) key) ime_active) c2)"
    by (rule press_decided [OF keys_quiet_ok [OF q2]])
  then have "decided kb key (is_host_accelerator x h kb (accelerators c) key) (if repeated then 0 else 1) c2
    (decide_press x h kb seat key repeated ime_active c)"
    unfolding decide_press_def Let_def c1_def [symmetric] acc c2_def [symmetric] .
  from decided_after [OF q1 decided_after [OF q2 this]] show ?thesis .
qed

lemma decide_release_decided:
  assumes ok: "registry_ok (key_generations c)"
  shows "decided kb key False (- 1) c (decide_release kb seat key c)"
proof -
  have "decided kb key False (- 1) c (transition_key kb key PhysicalRelease c)"
    by (rule release_decided [OF ok])
  then obtain d r where d: "transition_key kb key PhysicalRelease c = Some (d, c\<lparr>key_generations := r\<rparr>)"
    "answer_ok False d" "key_change (key_generations c) r kb key (if delivery d = ForwardKey then - 1 else 0)"
    by (auto simp: decided_def)
  have "registry_ok (key_generations (c\<lparr>key_generations := r\<rparr>))"
    using d(3) by (simp add: key_change_def)
  from end_repeat_quiet [OF this] obtain r2 where
    r2: "end_repeat_of seat (c\<lparr>key_generations := r\<rparr>) = c\<lparr>key_generations := r2\<rparr>" "quiet r r2"
    by (auto simp: keys_quiet_def)
  have "key_change (key_generations c) r2 kb key (if delivery d = ForwardKey then - 1 else 0)"
    using key_change_trans [OF d(3) quiet_key_change [OF r2(2)]] by simp
  moreover have "decide_release kb seat key c = Some (d,
      c\<lparr>key_generations := if key = EVDEV_KEY_BACKSPACE \<and> ends_repeat d then r2 else r\<rparr>)"
    by (simp add: decide_release_def d(1) r2(1))
  moreover have "key_change (key_generations c)
      (if key = EVDEV_KEY_BACKSPACE \<and> ends_repeat d then r2 else r) kb key
      (if delivery d = ForwardKey then - 1 else 0)"
    using calculation(1) d(3)
    by (cases "key = EVDEV_KEY_BACKSPACE \<and> ends_repeat d") (simp_all only: if_True if_False simp_thms)
  ultimately show ?thesis
    using d(2) unfolding decided_def by blast
qed

section \<open>A key event\<close>

text \<open>
  The outcome of a key event: the action, the new registry, and one acknowledgement.  A
  forwarded key is acknowledged as handled, an accelerator is dropped and left to the host.
\<close>

definition key_outcome ::
    "host_id \<Rightarrow> u32 \<Rightarrow> u32 \<Rightarrow> bool \<Rightarrow> int \<Rightarrow> 'h ctx_scheme \<Rightarrow> (action \<times> 'h ctx_scheme) option \<Rightarrow> bool" where
  "key_outcome kb key serial acc d c res \<longleftrightarrow>
     (\<exists>a handled r. res = Some (a, c\<lparr>key_generations := r,
          client_to_host_queue := client_to_host_queue c @ acks c kb serial handled\<rparr>) \<and>
        key_change (key_generations c) r kb key (if a = Forward then d else 0) \<and>
        (a = Forward \<longrightarrow> handled) \<and> (acc \<longrightarrow> a = Drop \<and> \<not> handled))"

lemma key_outcomeI:
  assumes "key_change (key_generations c) r kb key (if a = Forward then d else 0)"
    and "a = Forward \<Longrightarrow> handled" and "acc \<Longrightarrow> a = Drop \<and> \<not> handled"
    and "res = Some (a, c\<lparr>key_generations := r,
          client_to_host_queue := client_to_host_queue c @ acks c kb serial handled\<rparr>)"
  shows "key_outcome kb key serial acc d c res"
  using assms unfolding key_outcome_def by blast

lemma acks_keys [simp]: "acks (c\<lparr>key_generations := r\<rparr>) kb serial handled = acks c kb serial handled"
  by (simp add: acks_def)

lemma answered:
  assumes "decided kb key acc d c res"
  shows "key_outcome kb key serial acc d c (Option.bind res (answer_key kb serial))"
proof -
  from assms obtain dec r where r: "res = Some (dec, c\<lparr>key_generations := r\<rparr>)" "answer_ok acc dec"
    "key_change (key_generations c) r kb key (if delivery dec = ForwardKey then d else 0)"
    by (auto simp: decided_def)
  from r(2) obtain handled where h: "ack_handled dec = Some handled"
    by (auto simp: answer_ok_def)
  show ?thesis
  proof (cases "delivery dec")
    case ForwardKey
    with r h show ?thesis
      by (intro key_outcomeI [of c r kb key Forward d handled])
        (auto simp: answer_key_def send_ack_eq answer_ok_def)
  next
    case DropKey
    with r h show ?thesis
      by (intro key_outcomeI [of c r kb key Drop d handled])
        (auto simp: answer_key_def send_ack_eq answer_ok_def)
  qed (use r in \<open>simp add: answer_ok_def\<close>)
qed

lemma outcome_after:
  assumes "keys_quiet c c1" and "key_outcome kb key serial acc d c1 res"
  shows "key_outcome kb key serial acc d c res"
proof -
  from assms(1) obtain r1 where r1: "c1 = c\<lparr>key_generations := r1\<rparr>" "quiet (key_generations c) r1"
    by (auto simp: keys_quiet_def)
  from assms(2) [unfolded key_outcome_def r1(1)] obtain a handled r where
    o: "res = Some (a, c\<lparr>key_generations := r,
        client_to_host_queue := client_to_host_queue c @ acks c kb serial handled\<rparr>)"
      "key_change r1 r kb key (if a = Forward then d else 0)"
      "a = Forward \<longrightarrow> handled" "acc \<longrightarrow> a = Drop \<and> \<not> handled"
    by auto
  show ?thesis
    using key_change_trans [OF quiet_key_change [OF r1(2)] o(2)] o
    by (intro key_outcomeI [of c r kb key a d handled]) auto
qed

lemma key_unknown_state:
  "state \<noteq> WL_KEY_PRESSED \<Longrightarrow> state \<noteq> WL_KEY_REPEATED \<Longrightarrow> state \<noteq> WL_KEY_RELEASED \<Longrightarrow>
     kb_on_key x serial key state h c = Some (Drop, c)"
  by (simp add: kb_on_key_def observe_key_def Let_def)

lemma key_pressed_outcome:
  assumes ok: "registry_ok (key_generations c)" and state: "state = WL_KEY_PRESSED \<or> state = WL_KEY_REPEATED"
  shows "key_outcome (HostId (last_sender_id c)) key serial
    (is_host_accelerator x h (HostId (last_sender_id c)) (accelerators c) key)
    (if state = WL_KEY_REPEATED then 0 else 1) c (kb_on_key x serial key state h c)"
proof -
  let ?kb = "HostId (last_sender_id c)"
  from state have rel: "state \<noteq> WL_KEY_RELEASED"
    by (auto simp: WL_KEY_PRESSED_def WL_KEY_REPEATED_def WL_KEY_RELEASED_def)
  let ?stale = "state = WL_KEY_PRESSED \<and> physically_held (key_generations c) ?kb key \<and>
    (case peek_press_serial (key_generations c) ?kb key of Some s \<Rightarrow> s \<noteq> serial | None \<Rightarrow> False)"
  show ?thesis
  proof (cases ?stale)
    case True
    then have "kb_on_key x serial key state h c = map_option (Pair Drop) (send_ack_key ?kb serial False c)"
      using rel by (simp add: kb_on_key_def Let_def)
    then show ?thesis
      by (intro key_outcomeI [of c "key_generations c" ?kb key Drop _ False])
        (auto simp: send_ack_eq key_change_refl ok)
  next
    case False
    let ?c = "observe_key ?kb key state serial c"
    have q: "keys_quiet c ?c"
      by (rule observe_key_quiet [OF ok])
    then have acc: "accelerators ?c = accelerators c"
      by (auto simp: keys_quiet_def)
    have "kb_on_key x serial key state h c =
        Option.bind (decide_press x h ?kb (guest_seat_for_host_keyboard c ?kb) key (state = WL_KEY_REPEATED)
          (key = EVDEV_KEY_BACKSPACE \<and> backspace_repeat_active_for_keyboard c ?kb) ?c)
          (answer_key ?kb serial)"
      using False rel state by (simp only: kb_on_key_def Let_def if_False prod.case simp_thms if_True)
    with outcome_after [OF q answered [OF decide_press_decided [OF keys_quiet_ok [OF q]]]] show ?thesis
      unfolding acc by (simp only:)
  qed
qed

lemma pending_release_change:
  assumes "registry_ok r" and "take_pending_physical_release kb key serial r = (taken, r')"
  shows "key_change r r' kb key (if taken then - 1 else 0)" and "\<not> taken \<Longrightarrow> r' = r"
proof -
  show "key_change r r' kb key (if taken then - 1 else 0)"
    using take_retired_change [OF assms(1)] assms(2)
    unfolding take_pending_physical_release_def by blast
  show "\<not> taken \<Longrightarrow> r' = r"
    using assms(2) by (auto simp: take_pending_physical_release_def take_retired_guest_release_def
        split: option.splits prod.splits)
qed

lemma key_released_outcome:
  assumes ok: "registry_ok (key_generations c)"
  shows "key_outcome (HostId (last_sender_id c)) key serial False (- 1) c
    (kb_on_key x serial key WL_KEY_RELEASED h c)"
proof -
  let ?kb = "HostId (last_sender_id c)" and ?r = "key_generations c"
  have st: "WL_KEY_RELEASED \<noteq> WL_KEY_PRESSED" "WL_KEY_RELEASED \<noteq> WL_KEY_REPEATED"
    by (simp_all add: WL_KEY_PRESSED_def WL_KEY_REPEATED_def WL_KEY_RELEASED_def)
  obtain taken r' where t: "take_pending_physical_release ?kb key serial ?r = (taken, r')"
    by (cases "take_pending_physical_release ?kb key serial ?r")
  note ch = pending_release_change [OF ok t]
  show ?thesis
  proof (cases taken)
    case True
    with ch(1) t show ?thesis
      by (intro key_outcomeI [of c r' ?kb key Forward _ True])
        (auto simp: kb_on_key_def Let_def send_ack_eq)
  next
    case False
    let ?stale = "peek_press_serial ?r ?kb key \<noteq> None \<and> physical_release_serial ?r ?kb key \<noteq> Some serial"
    show ?thesis
    proof (cases ?stale)
      case True
      then have "kb_on_key x serial key WL_KEY_RELEASED h c =
          map_option (Pair Drop) (send_ack_key ?kb serial False c)"
        using t False by (simp add: kb_on_key_def Let_def)
      then show ?thesis
        by (intro key_outcomeI [of c ?r ?kb key Drop _ False]) (auto simp: send_ack_eq key_change_refl ok)
    next
      case fresh: False
      let ?c = "observe_key ?kb key WL_KEY_RELEASED serial c"
      have q: "keys_quiet c ?c"
        by (rule observe_key_quiet [OF ok])
      have "kb_on_key x serial key WL_KEY_RELEASED h c =
          Option.bind (decide_release ?kb (guest_seat_for_host_keyboard c ?kb) key ?c) (answer_key ?kb serial)"
        using fresh False st t by (simp only: kb_on_key_def Let_def if_False prod.case simp_thms if_True)
      with outcome_after [OF q answered [OF decide_release_decided [OF keys_quiet_ok [OF q]]]] show ?thesis
        by simp
    qed
  qed
qed

section \<open>Properties of a key event\<close>

definition known_key_state :: "u32 \<Rightarrow> bool" where
  "known_key_state state \<longleftrightarrow> state = WL_KEY_PRESSED \<or> state = WL_KEY_REPEATED \<or> state = WL_KEY_RELEASED"

definition key_effect :: "u32 \<Rightarrow> int" where
  "key_effect state = (if state = WL_KEY_PRESSED then 1 else if state = WL_KEY_RELEASED then - 1 else 0)"

definition accelerator_press ::
    "('m, 's) xkb \<Rightarrow> ('m, 's) keyboard_handler \<Rightarrow> 'h ctx_scheme \<Rightarrow> u32 \<Rightarrow> u32 \<Rightarrow> bool" where
  "accelerator_press x h c key state \<longleftrightarrow>
     state \<noteq> WL_KEY_RELEASED \<and> is_host_accelerator x h (HostId (last_sender_id c)) (accelerators c) key"

lemma key_states [simp]:
  "WL_KEY_RELEASED \<noteq> WL_KEY_PRESSED" "WL_KEY_RELEASED \<noteq> WL_KEY_REPEATED" "WL_KEY_PRESSED \<noteq> WL_KEY_REPEATED"
  "WL_KEY_PRESSED \<noteq> WL_KEY_RELEASED" "WL_KEY_REPEATED \<noteq> WL_KEY_RELEASED" "WL_KEY_REPEATED \<noteq> WL_KEY_PRESSED"
  by (simp_all add: WL_KEY_PRESSED_def WL_KEY_REPEATED_def WL_KEY_RELEASED_def)

lemma key_event_outcome:
  assumes ok: "registry_ok (key_generations c)" and st: "known_key_state state"
  shows "key_outcome (HostId (last_sender_id c)) key serial (accelerator_press x h c key state)
    (key_effect state) c (kb_on_key x serial key state h c)"
proof (cases "state = WL_KEY_RELEASED")
  case True
  then show ?thesis
    using key_released_outcome [OF ok, of key serial x h] by (simp add: accelerator_press_def key_effect_def)
next
  case False
  with st have "state = WL_KEY_PRESSED \<or> state = WL_KEY_REPEATED"
    by (simp add: known_key_state_def)
  from key_pressed_outcome [OF ok this, of key serial x h] False this show ?thesis
    by (auto simp: accelerator_press_def key_effect_def)
qed

text \<open>C14: every key event is answered to the host exactly once and to one side only: the handler never panics,
  nothing but the key registry and the host stream changes, the stream gains one \<open>ack_key\<close> with
  the serial of the event (none without an extended keyboard), a key that is forwarded to the guest
  is acknowledged as handled, so the host does not act on it too, and a press that matches a
  configured accelerator is never forwarded and is acknowledged as not handled.
\<close>
theorem key_answered_once:
  assumes "registry_ok (key_generations c)" and "known_key_state state"
  shows "\<exists>a handled r.
    kb_on_key x serial key state h c = Some (a, c\<lparr>key_generations := r,
      client_to_host_queue := client_to_host_queue c @
        (case keyboard_to_extended_keyboard c (HostId (last_sender_id c)) of
           Some ext \<Rightarrow> [packet_of (ack_request ext serial handled)]
         | None \<Rightarrow> [])\<rparr>) \<and>
    (a = Forward \<longrightarrow> handled) \<and> (accelerator_press x h c key state \<longrightarrow> a = Drop \<and> \<not> handled)"
  using key_event_outcome [OF assms, of key serial x h] unfolding key_outcome_def acks_def by blast

section \<open>The peek channel\<close>

lemma peek_watermark_quiet:
  "registry_ok (key_generations c) \<Longrightarrow> keys_quiet c (record_peek_watermark seat kb sequence c)"
  unfolding record_peek_watermark_def Let_def
  by (cases seat) (auto intro!: keys_quietI quiet_same keys_quiet_refl simp: record_latest_peek_def)

lemma peek_press_quiet:
  assumes ok: "registry_ok (key_generations c)"
  shows "keys_quiet c (peek_press x h kb seat serial time key c)"
proof -
  let ?el = "\<not> host_accelerator_suppressed (key_generations c) kb key \<and>
    \<not> is_host_accelerator x h kb (accelerators c) key"
  obtain sq r where r: "observe_peek_press kb key serial time ?el (key_generations c) = (sq, r)"
    by (cases "observe_peek_press kb key serial time ?el (key_generations c)")
  have "quiet (key_generations c) r"
    using observe_peek_press_quiet [OF ok, of kb key serial time ?el] r by simp
  then have q: "keys_quiet c (c\<lparr>key_generations := r\<rparr>)"
    by (rule keys_quietI)
  from keys_quiet_trans [OF q peek_watermark_quiet [OF keys_quiet_ok [OF q]]] r show ?thesis
    by (simp add: peek_press_def Let_def)
qed

lemma peek_pressed_quiet:
  assumes ok: "registry_ok (key_generations c)"
  shows "keys_quiet c (peek_pressed x h kb seat serial time key state c)"
proof -
  define before where "before \<longleftrightarrow> physically_held (key_generations c) kb key \<and> peek (key_generations c) kb key \<noteq> None"
  define c1 where "c1 = (if state = WL_KEY_PRESSED \<and> \<not> before
                then peek_press x h kb seat serial time key c
                else if state = WL_KEY_REPEATED \<or> (state = WL_KEY_PRESSED \<and> before)
                then c\<lparr>key_generations := refresh_peek kb key serial time (key_generations c)\<rparr>
                else c)"
  define c2 where "c2 = update_host_keyboard_key_state kb key state serial c1"
  have q1: "keys_quiet c c1"
    unfolding c1_def by (simp add: peek_press_quiet keys_quietI refresh_quiet keys_quiet_refl ok)
  have q2: "keys_quiet c1 c2"
    unfolding c2_def by (rule update_state_quiet [OF keys_quiet_ok [OF q1]])
  have q3: "keys_quiet c2 (end_repeat_of seat (cancel_keyboard_repeat kb c2))"
    by (rule keys_quiet_trans [OF cancel_repeat_quiet end_repeat_quiet])
      (rule keys_quiet_ok [OF q2] keys_quiet_ok [OF cancel_repeat_quiet [OF keys_quiet_ok [OF q2]]])+
  have "peek_pressed x h kb seat serial time key state c =
      (if state = WL_KEY_PRESSED \<and> key \<noteq> EVDEV_KEY_BACKSPACE
       then end_repeat_of seat (cancel_keyboard_repeat kb c2) else c2)"
    unfolding peek_pressed_def Let_def before_def [symmetric] c1_def [symmetric] c2_def [symmetric] ..
  with keys_quiet_trans [OF q1 q2] keys_quiet_trans [OF keys_quiet_trans [OF q1 q2] q3] show ?thesis
    by simp
qed

lemma peek_released_quiet:
  assumes ok: "registry_ok (key_generations c)"
  shows "keys_quiet c (peek_released kb seat serial time key c)"
proof -
  define c1 where "c1 = c\<lparr>key_generations := observe_peek_release kb key serial (key_generations c)\<rparr>"
  have q: "keys_quiet c c1"
    unfolding c1_def observe_peek_release_def by (intro keys_quietI observe_release_quiet ok)
  show ?thesis
    unfolding peek_released_def Let_def c1_def [symmetric]
    using q keys_quiet_refl [OF ok] keys_quiet_trans [OF q end_repeat_quiet [OF keys_quiet_ok [OF q]]]
    by simp
qed

lemma peek_key_quiet:
  "registry_ok (key_generations c) \<Longrightarrow> keys_quiet c (snd (kb_on_peek_key x serial time key state h c))"
  unfolding kb_on_peek_key_def Let_def
  by (simp add: peek_pressed_quiet peek_released_quiet keys_quiet_refl split: option.split)

lemma peek_key_dropped: "fst (kb_on_peek_key x serial time key state h c) = Drop"
  by (simp add: kb_on_peek_key_def Let_def split: option.split)

section \<open>Runs of key events\<close>

datatype key_input =
    KeyEvent u32 u32 u32
  | PeekEvent u32 u32 u32 u32
  | ModifiersEvent u32 u32 u32 u32

text \<open>One event of the object \<open>fst e\<close>, with the key messages it forwards to the guest.\<close>

definition key_input_apply ::
    "('m, 's) xkb \<Rightarrow> u32 \<times> key_input \<Rightarrow> (host_id \<times> u32 \<times> u32) list \<times> ('m, 's) keyboard_handler \<times> 'h ctx_scheme \<Rightarrow>
     ((host_id \<times> u32 \<times> u32) list \<times> ('m, 's) keyboard_handler \<times> 'h ctx_scheme) option" where
  "key_input_apply x e w =
     (case w of (out, h, c0) \<Rightarrow>
        let c = c0\<lparr>last_sender_id := fst e\<rparr>
        in case snd e of
             KeyEvent serial key state \<Rightarrow>
               map_option (\<lambda>(a, c'). (if a = Forward then out @ [(HostId (fst e), key, state)] else out, h, c'))
                 (kb_on_key x serial key state h c)
           | PeekEvent serial time key state \<Rightarrow> Some (out, h, snd (kb_on_peek_key x serial time key state h c))
           | ModifiersEvent depressed latched locked layout \<Rightarrow>
               (case kb_on_modifiers x depressed latched locked layout (h, c) of
                  (_, h', c') \<Rightarrow> Some (out, h', c')))"

definition forwarded_count :: "(host_id \<times> u32 \<times> u32) list \<Rightarrow> host_id \<Rightarrow> u32 \<Rightarrow> u32 \<Rightarrow> nat" where
  "forwarded_count out kb key state = count_list out (kb, key, state)"

text \<open>The presses the guest has been sent and not been released, against the registry.\<close>

definition keys_paired ::
    "key_registry \<Rightarrow> (host_id \<times> u32 \<times> u32) list \<times> ('m, 's) keyboard_handler \<times> 'h ctx_scheme \<Rightarrow> bool" where
  "keys_paired r0 w \<longleftrightarrow>
     (case w of (out, h, c) \<Rightarrow>
        registry_ok (key_generations c) \<and>
        (\<forall>kb key. open_presses (key_generations c) kb key + forwarded_count out kb key WL_KEY_RELEASED =
           open_presses r0 kb key + forwarded_count out kb key WL_KEY_PRESSED))"

lemma paired_quiet:
  assumes "keys_paired r0 (out, h, c)" and "keys_quiet (c\<lparr>last_sender_id := i\<rparr>) c'"
  shows "keys_paired r0 (out, h', c')"
  using assms by (auto simp: keys_paired_def keys_quiet_def quiet_def)

lemma paired_key:
  assumes inv: "keys_paired r0 (out, h, c0)"
    and e: "kb_on_key x serial key state h (c0\<lparr>last_sender_id := i\<rparr>) = Some (a, c')"
  shows "keys_paired r0 (if a = Forward then out @ [(HostId i, key, state)] else out, h, c')"
proof (cases "known_key_state state")
  case False
  with e have "a = Drop" "c' = c0\<lparr>last_sender_id := i\<rparr>"
    by (auto simp: known_key_state_def key_unknown_state)
  with inv show ?thesis
    by (simp add: keys_paired_def)
next
  case True
  let ?c = "c0\<lparr>last_sender_id := i\<rparr>"
  have ok: "registry_ok (key_generations ?c)"
    using inv by (simp add: keys_paired_def)
  from key_event_outcome [OF this True, of key serial x h] e obtain r where
    r: "key_generations c' = r" "key_change (key_generations c0) r (HostId i) key
      (if a = Forward then key_effect state else 0)"
    by (auto simp: key_outcome_def)
  have "int (open_presses r kb k) = int (open_presses (key_generations c0) kb k) +
      (if kb = HostId i \<and> k = key then if a = Forward then key_effect state else 0 else 0)" for kb k
    using r(2) by (simp add: key_change_def)
  moreover have "registry_ok r"
    using r(2) by (simp add: key_change_def)
  moreover have "int (open_presses (key_generations c0) kb k) + int (forwarded_count out kb k WL_KEY_RELEASED) =
      int (open_presses r0 kb k) + int (forwarded_count out kb k WL_KEY_PRESSED)" for kb k
    using inv unfolding keys_paired_def by (simp del: of_nat_add add: of_nat_add [symmetric])
  ultimately have "registry_ok r \<and> (\<forall>kb k. int (open_presses r kb k) +
      int (forwarded_count (if a = Forward then out @ [(HostId i, key, state)] else out) kb k WL_KEY_RELEASED) =
      int (open_presses r0 kb k) +
      int (forwarded_count (if a = Forward then out @ [(HostId i, key, state)] else out) kb k WL_KEY_PRESSED))"
    by (auto simp: forwarded_count_def key_effect_def)
  then show ?thesis
    unfolding keys_paired_def prod.case r(1) by (simp del: of_nat_add add: of_nat_add [symmetric])
qed

lemma key_input_paired:
  assumes inv: "keys_paired r0 w" and e: "key_input_apply x ev w = Some w'"
  shows "keys_paired r0 w'"
proof -
  obtain out h c where w: "w = (out, h, c)"
    by (cases w)
  obtain i inp where ev: "ev = (i, inp)"
    by (cases ev)
  have ok: "registry_ok (key_generations (c\<lparr>last_sender_id := i\<rparr>))"
    using inv by (simp add: w keys_paired_def)
  show ?thesis
  proof (cases inp)
    case (KeyEvent serial key state)
    with e w ev obtain a c' where "kb_on_key x serial key state h (c\<lparr>last_sender_id := i\<rparr>) = Some (a, c')"
      "w' = (if a = Forward then out @ [(HostId i, key, state)] else out, h, c')"
      by (auto simp: key_input_apply_def)
    with paired_key [OF inv [unfolded w]] show ?thesis
      by blast
  next
    case (PeekEvent serial time key state)
    with e w ev paired_quiet [OF inv [unfolded w] peek_key_quiet [OF ok]] show ?thesis
      by (auto simp: key_input_apply_def)
  next
    case (ModifiersEvent depressed latched locked layout)
    with e w ev inv show ?thesis
      by (auto simp: key_input_apply_def kb_on_modifiers_def Let_def keys_paired_def split: option.splits)
  qed
qed

interpretation key_inputs: panicking_machine "key_input_apply x" "keys_paired r0" for x r0
  by unfold_locales (rule key_input_paired)

lemma key_input_total: "keys_paired r0 w \<Longrightarrow> key_input_apply x ev w \<noteq> None"
proof -
  assume inv: "keys_paired r0 w"
  obtain out h c where w: "w = (out, h, c)"
    by (cases w)
  have ok: "registry_ok (key_generations (c\<lparr>last_sender_id := fst ev\<rparr>))"
    using inv by (simp add: w keys_paired_def)
  have "kb_on_key x serial key state h (c\<lparr>last_sender_id := fst ev\<rparr>) \<noteq> None" for serial key state
  proof (cases "known_key_state state")
    case True
    from key_event_outcome [OF ok this, of key serial x h] show ?thesis
      by (auto simp: key_outcome_def)
  qed (simp add: known_key_state_def key_unknown_state)
  then show "key_input_apply x ev w \<noteq> None"
    by (cases "snd ev") (simp_all add: key_input_apply_def w Let_def split: prod.split)
qed

lemma key_run_total: "keys_paired r0 w \<Longrightarrow> try_each (key_input_apply x) es w \<noteq> None"
proof (induction es arbitrary: w)
  case (Cons e es)
  from key_input_total [OF Cons.prems, of x e] obtain w' where "key_input_apply x e w = Some w'"
    by blast
  with Cons.IH [OF key_input_paired [OF Cons.prems this]] show ?case
    by simp
qed simp

text \<open>C15: the guest's keys stay paired: from an empty registry, any run of \<open>key\<close>, \<open>peek_key\<close> and \<open>modifiers\<close>
  events of any keyboards, with any serials in any order, is handled without a panic, and for every
  key of every keyboard the guest has been sent at least as many presses as releases, the difference
  being the presses that the registry still holds open.
\<close>
theorem guest_keys_paired:
  assumes "key_generations c = key_registry_default"
  shows "case try_each (key_input_apply x) es ([], h, c) of
      None \<Rightarrow> False
    | Some (out, h', c') \<Rightarrow>
        forwarded_count out kb key WL_KEY_PRESSED =
          forwarded_count out kb key WL_KEY_RELEASED + open_presses (key_generations c') kb key"
proof -
  have inv: "keys_paired key_registry_default ([], h, c)"
    using assms registry_ok_default by (simp add: keys_paired_def forwarded_count_def)
  from key_run_total [OF inv, of x es] obtain out h' c' where run: "try_each (key_input_apply x) es ([], h, c) = Some (out, h', c')"
    by (cases "try_each (key_input_apply x) es ([], h, c)") auto
  have "open_presses key_registry_default kb key = 0"
    by (simp add: open_presses_def retired_open_def key_registry_default_def kg_get_def)
  moreover have "open_presses (key_generations c') kb key + forwarded_count out kb key WL_KEY_RELEASED =
      open_presses key_registry_default kb key + forwarded_count out kb key WL_KEY_PRESSED"
    using key_inputs.run_inv [OF inv run] unfolding keys_paired_def prod.case by blast
  ultimately show ?thesis
    using run by simp
qed

section \<open>A keymap that does not load\<close>

text \<open>
  Clearing the registry with the keymap forgets the keys the guest holds: the release of a key
  pressed before is dropped and left to the host.
\<close>

lemma cleared_release_dropped:
  assumes ok: "registry_ok (key_generations c)"
    and gone: "kg_get (key_generations c) (HostId (last_sender_id c)) key = None"
      "retired_guest_releases (key_generations c) (HostId (last_sender_id c), key) = None"
  shows "map_option fst (kb_on_key x serial key WL_KEY_RELEASED h c) = Some Drop"
proof -
  from key_released_outcome [OF ok, of key serial x h] obtain a handled r where
    r: "kb_on_key x serial key WL_KEY_RELEASED h c = Some (a, c\<lparr>key_generations := r,
        client_to_host_queue := client_to_host_queue c @ acks c (HostId (last_sender_id c)) serial handled\<rparr>)"
      "key_change (key_generations c) r (HostId (last_sender_id c)) key (if a = Forward then - 1 else 0)"
    by (auto simp: key_outcome_def)
  have "open_presses (key_generations c) (HostId (last_sender_id c)) key = 0"
    using gone by (simp add: open_presses_def retired_open_def)
  with r(2) have "a \<noteq> Forward"
    by (auto simp: key_change_def dest!: spec [of _ "HostId (last_sender_id c)"] spec [of _ key])
  with r(1) show ?thesis
    by (cases a) simp_all
qed

lemma retired_cleared: "retired_guest_releases (clear_keyboard kb r) (kb, key) = None"
  by (simp add: clear_keyboard_def map_retain_def split: option.split)

theorem rejected_keymap_strands_held_key:
  assumes "registry_ok (key_generations c)" and "format \<noteq> WL_KEYMAP_FORMAT_XKB_V1"
    and "kb_on_keymap x st mapped format fd bytes_len (h, c) = (a, h', c')"
  shows "a = Forward \<and> map_option fst (kb_on_key x serial key WL_KEY_RELEASED h' c') = Some Drop"
proof -
  let ?kb = "HostId (last_sender_id c)"
  have "kb_on_keymap x st mapped format fd bytes_len (h, c) =
      (Forward, clear_host_keyboard_keymap_and_state ?kb (h, c))"
    using assms(2) unfolding kb_on_keymap_def Let_def by simp
  with assms(3) have c': "a = Forward" "key_generations c' = clear_keyboard ?kb (key_generations c)"
    "last_sender_id c' = last_sender_id c"
    by (auto simp: clear_host_keyboard_keymap_and_state_def
        clear_host_keyboard_keymap_def clear_host_keyboard_state_def)
  have "registry_ok (key_generations c')"
    using assms(1) by (auto simp: c' registry_ok_def clear_keyboard_view)
  then show ?thesis
    using c' by (intro conjI cleared_release_dropped) (simp_all add: clear_keyboard_view retired_cleared)
qed

section \<open>Concrete runs\<close>

text \<open>A keymap library with one key symbol, \<open>a\<close>.\<close>

definition sample_xkb :: "(unit, unit) xkb" where
  "sample_xkb =
     \<lparr>xkb_compile = (\<lambda>_. Some ()), xkb_min_keycode = (\<lambda>_. 38), xkb_max_keycode = (\<lambda>_. 38),
      xkb_num_layouts = (\<lambda>_ _. 1), xkb_num_levels = (\<lambda>_ _ _. 1), xkb_syms_by_level = (\<lambda>_ _ _ _. [0x61]),
      xkb_key_repeats = (\<lambda>_ _. True), xkb_state_new = (\<lambda>_. ()), xkb_key_get_one_sym = (\<lambda>_ _. 0x61),
      xkb_update_mask = (\<lambda>_ _ _ _ _ _ _. ()), xkb_mod_active = (\<lambda>_ name _. name = MOD_NAME_CTRL),
      xkb_keysym_to_lower = (\<lambda>s. s)\<rparr>"

definition sample_handler :: "(unit, unit) keyboard_handler" where
  "sample_handler = keyboard_handler_new\<lparr>kh_states := [HostId 20 \<mapsto> ()], kh_modifiers := [HostId 20 \<mapsto> CONTROL_MASK]\<rparr>"

definition sample_keyboard_context :: ctx where
  "sample_keyboard_context = context_empty\<lparr>last_sender_id := 20,
     keyboard_to_extended_keyboard := [HostId 20 \<mapsto> HostId 30],
     accelerators := [\<lparr>acc_modifiers = CONTROL_MASK, acc_symbol = 0x61\<rparr>]\<rparr>"

lemma sample_registry: "key_generations sample_keyboard_context = key_registry_default"
  by (simp add: sample_keyboard_context_def context_new_def)

theorem key_answered_once_witness:
  "\<exists>r. kb_on_key sample_xkb 7 30 WL_KEY_PRESSED sample_handler sample_keyboard_context =
     Some (Drop, sample_keyboard_context\<lparr>key_generations := r,
       client_to_host_queue := [packet_of (ack_request (HostId 30) 7 False)]\<rparr>)"
proof -
  have ok: "registry_ok (key_generations sample_keyboard_context)" "known_key_state WL_KEY_PRESSED"
    by (simp_all add: sample_registry registry_ok_default known_key_state_def)
  have acc: "accelerator_press sample_xkb sample_handler sample_keyboard_context 30 WL_KEY_PRESSED"
    by (simp add: accelerator_press_def is_host_accelerator_def sample_keyboard_context_def sample_handler_def
        sample_xkb_def accelerator_match_def context_new_def)
  from key_answered_once [OF ok, where key = 30 and serial = 7 and x = sample_xkb and h = sample_handler] acc show ?thesis
    by (auto simp: sample_keyboard_context_def context_new_def)
qed

theorem guest_keys_paired_witness:
  "\<exists>out w. try_each (key_input_apply sample_xkb)
       [(20, KeyEvent 1 30 WL_KEY_PRESSED), (20, PeekEvent 2 0 30 WL_KEY_RELEASED), (20, KeyEvent 2 30 WL_KEY_RELEASED)]
       ([], keyboard_handler_new, sample_keyboard_context) = Some (out, w) \<and>
     forwarded_count out (HostId 20) 30 WL_KEY_RELEASED \<le> forwarded_count out (HostId 20) 30 WL_KEY_PRESSED"
  using guest_keys_paired [OF sample_registry, where x = sample_xkb and h = keyboard_handler_new
      and kb = "HostId 20" and key = 30 and es = "[(20, KeyEvent 1 30 WL_KEY_PRESSED),
        (20, PeekEvent 2 0 30 WL_KEY_RELEASED), (20, KeyEvent 2 30 WL_KEY_RELEASED)]"]
  by (simp only: split: option.splits prod.splits) (auto simp del: try_each.simps)

end
