(* ===== verification/Keyboard_Session.thy ===== *)
theory Keyboard_Session
  imports Keyboard_Keys
begin

text \<open>
  The keyboard sessions: what \<open>enter\<close>, \<open>leave\<close> and \<open>release\<close> do to the focus, the key
  registry, the extended keyboards and the text inputs, and the invariant that every keyboard
  event keeps.
\<close>

section \<open>What a focus change leaves alone\<close>

text \<open>
  The text inputs follow the focus through host objects of their own: the maps of the extended
  keyboards, the focus registry and the live host objects stay, new barriers sit on fresh
  callbacks, and no key of the guest is pressed or released.
\<close>

definition ext_ids :: "'h ctx_scheme \<Rightarrow> u32 \<Rightarrow> u32 option option" where
  "ext_ids c g = map_option host_ext_id (hm_get (text_inputs c) g)"

definition focus_frame :: "'h ctx_scheme \<Rightarrow> 'h ctx_scheme \<Rightarrow> bool" where
  "focus_frame c c' \<longleftrightarrow>
     keyboard_to_extended_keyboard c' = keyboard_to_extended_keyboard c \<and>
     extended_keyboard_to_keyboard c' = extended_keyboard_to_keyboard c \<and>
     kb_focus c' = kb_focus c \<and>
     keyboard_repeatable_keys c' = keyboard_repeatable_keys c \<and>
     keyboard_keysym_to_keycode c' = keyboard_keysym_to_keycode c \<and>
     ext_ids c' = ext_ids c \<and>
     (\<forall>h. host_interfaces (shadow_table c) h \<noteq> None \<longrightarrow>
        host_interfaces (shadow_table c') h = host_interfaces (shadow_table c) h \<and>
        text_input_activation_barriers c' (HostId h) = text_input_activation_barriers c (HostId h)) \<and>
     (registry_ok (key_generations c) \<longrightarrow> quiet (key_generations c) (key_generations c'))"

lemma focus_frame_refl: "focus_frame c c"
  by (simp add: focus_frame_def quiet_refl)

lemma quiet_imp_trans:
  "registry_ok r \<Longrightarrow> registry_ok r \<longrightarrow> quiet r s \<Longrightarrow> registry_ok s \<longrightarrow> quiet s t \<Longrightarrow> quiet r t"
  unfolding quiet_def by metis

definition hosts_kept :: "'h ctx_scheme \<Rightarrow> 'h ctx_scheme \<Rightarrow> bool" where
  "hosts_kept c c' \<longleftrightarrow>
     (\<forall>h. host_interfaces (shadow_table c) h \<noteq> None \<longrightarrow>
        host_interfaces (shadow_table c') h = host_interfaces (shadow_table c) h \<and>
        text_input_activation_barriers c' (HostId h) = text_input_activation_barriers c (HostId h))"

lemma hosts_kept_trans: "hosts_kept c d \<Longrightarrow> hosts_kept d e \<Longrightarrow> hosts_kept c e"
  unfolding hosts_kept_def by metis

lemma focus_frame_trans:
  assumes "focus_frame c d" and "focus_frame d e"
  shows "focus_frame c e"
  using assms hosts_kept_trans [of c d e]
    quiet_imp_trans [of "key_generations c" "key_generations d" "key_generations e"]
  unfolding focus_frame_def hosts_kept_def [symmetric] by simp

lemma focus_frame_put:
  "hm_get (text_inputs c) g = Some s \<Longrightarrow> host_ext_id s' = host_ext_id s \<Longrightarrow>
     focus_frame c (put_text_input g s' c)"
  by (auto simp: focus_frame_def ext_ids_def quiet_refl put_text_input_def fun_eq_iff hm.get_put)

lemma focus_frame_queues:
  "focus_frame c (c\<lparr>host_to_client_queue := q\<rparr>)" "focus_frame c (queue_to_host_stream ms c)"
  by (simp_all add: focus_frame_def ext_ids_def queue_to_host_stream_def quiet_refl fun_eq_iff)

lemma focus_frame_install:
  assumes a: "allocate_host_id (shadow_table c) = (Some callback, t)"
  shows "focus_frame c (c\<lparr>shadow_table := track_host_interface_with_version callback ''wl_callback'' 1 t,
    text_input_activation_barriers := (text_input_activation_barriers c)(HostId callback \<mapsto> v)\<rparr>)"
proof -
  have "host_interfaces (shadow_table c) callback = None"
    using allocated(1) [OF a] by (simp add: is_host_id_available_def)
  moreover have "host_interfaces t = host_interfaces (shadow_table c)"
    using allocated(2) [OF a] by auto
  ultimately show ?thesis
    by (auto simp: focus_frame_def ext_ids_def track_host_interface_with_version_def quiet_refl fun_eq_iff)
qed

lemma drain_frame:
  assumes s: "hm_get (text_inputs c) g = Some s"
    and a: "allocate_host_id (shadow_table c) = (Some callback, t)"
  shows "focus_frame c (drain_text_input g s seat callback t c)"
  unfolding drain_text_input_def
  by (rule focus_frame_trans [OF focus_frame_trans [OF focus_frame_install [OF a] focus_frame_queues(2)]
      focus_frame_put]) (use s in auto)

lemma activate_frame:
  "hm_get (text_inputs c) g = Some s \<Longrightarrow> focus_frame c (activate_text_input g s seat surface c)"
  unfolding activate_text_input_def
  by (rule focus_frame_trans [OF focus_frame_queues(2) focus_frame_put]) auto

lemma update_activation_frame:
  assumes ok: "bridge_ok G c" and u: "update_host_activation g c = Some c'"
  shows "focus_frame c c'"
proof (cases "hm_get (text_inputs c) g")
  case None
  with u show ?thesis
    by (simp add: update_host_activation_absent focus_frame_refl)
next
  case (Some s)
  note r = u [unfolded update_host_activation_eq [OF ok Some] reconciled_def Let_def]
  show ?thesis
  proof (cases "target_activated (shadow_table c) s")
    case True
    with r have "c' = (if host_activation s = Inactive \<and> seat_usable (shadow_table c) (guest_seat s)
        then activate_text_input g s (the (get_host_id (shadow_table c) (guest_seat s)))
               (the (host_surface_of (shadow_table c) s)) c else c)"
      by (simp only: if_True option.inject)
    then show ?thesis
      by (simp add: activate_frame [OF Some] focus_frame_refl)
  next
    case off: False
    show ?thesis
    proof (cases "host_activation s = Active \<and> seat_usable (shadow_table c) (guest_seat s)")
      case True
      obtain a t where a: "allocate_host_id (shadow_table c) = (a, t)"
        by (cases "allocate_host_id (shadow_table c)") auto
      from r off True a obtain cb where
        "a = Some cb" "c' = drain_text_input g s (the (get_host_id (shadow_table c) (guest_seat s))) cb t c"
        by (cases a) auto
      with drain_frame [OF Some] a show ?thesis
        by simp
    next
      case False
      with r off have "c' = c \<or> c' = put_text_input g (s\<lparr>host_activation := Inactive\<rparr>) c"
        by (auto split: if_splits)
      with focus_frame_put [OF Some] focus_frame_refl show ?thesis
        by auto
    qed
  qed
qed

lemma updates_frame:
  "bridge_ok (set ids \<union> G) c \<Longrightarrow> try_each update_host_activation ids c = Some c' \<Longrightarrow> focus_frame c c'"
proof (induction ids arbitrary: c)
  case (Cons g ids)
  then obtain d where d: "update_host_activation g c = Some d" "try_each update_host_activation ids d = Some c'"
    by (auto split: option.splits)
  from Cons.prems(1) have ok: "bridge_ok (insert g (set ids \<union> G)) c"
    by simp
  from focus_frame_trans [OF update_activation_frame [OF ok d(1)] Cons.IH [OF update_keeps_bridge [OF ok d(1)] d(2)]]
  show ?case .
qed (simp add: focus_frame_refl)

lemma focus_targets_frame:
  "apply_focus_targets ups c = Some (es, ids, d) \<Longrightarrow> focus_frame c d"
proof (induction ups arbitrary: c es ids d)
  case (Cons up ups)
  obtain g x where up: "up = (g, x)"
    by (cases up)
  show ?case
  proof (cases "hm_get (text_inputs c) g")
    case None
    with Cons up show ?thesis
      by simp
  next
    case (Some s)
    obtain old s' where f: "apply_focus x s = (old, s')"
      by (cases "apply_focus x s")
    note e = Cons.prems [unfolded up apply_focus_targets.simps Some f option.case prod.case focus_events_eq]
    from e obtain es' ids' where
      r: "apply_focus_targets ups (put_text_input g s' c) = Some (es', ids', d)"
      by (cases "apply_focus_targets ups (put_text_input g s' c)") auto
    from focus_frame_trans [OF focus_frame_put [OF Some apply_focus_keeps(1) [OF f]] Cons.IH [OF r]]
    show ?thesis .
  qed
qed (simp add: focus_frame_refl)

lemma focus_updates_frame:
  assumes ok: "bridge_ok G c" and u: "apply_text_input_focus_updates ups c = Some c'"
  shows "focus_frame c c'"
proof -
  from u obtain es ids d where t: "apply_focus_targets ups c = Some (es, ids, d)"
    and e: "try_each update_host_activation ids (d\<lparr>host_to_client_queue := host_to_client_queue d @ es\<rparr>) = Some c'"
    by (auto simp: apply_text_input_focus_updates_def split: option.splits)
  have "bridge_ok (set ids \<union> G) (d\<lparr>host_to_client_queue := host_to_client_queue d @ es\<rparr>)"
    by (rule bridge_ok_cong [THEN iffD2, OF _ _ _ focus_targets_keep [OF ok t]]) simp_all
  from focus_frame_trans [OF focus_frame_trans [OF focus_targets_frame [OF t] focus_frame_queues(1)]
      updates_frame [OF this e]] show ?thesis .
qed

lemma keys_quiet_frame: "(registry_ok (key_generations c) \<Longrightarrow> keys_quiet c c') \<Longrightarrow>
    c' = c\<lparr>key_generations := key_generations c'\<rparr> \<Longrightarrow> focus_frame c c'"
proof -
  assume q: "registry_ok (key_generations c) \<Longrightarrow> keys_quiet c c'"
    and e: "c' = c\<lparr>key_generations := key_generations c'\<rparr>"
  have "quiet (key_generations c) (key_generations c')" if "registry_ok (key_generations c)"
    using q [OF that] by (auto simp: keys_quiet_def)
  then show ?thesis
    by (subst e) (simp add: focus_frame_def ext_ids_def fun_eq_iff)
qed

lemma focus_change_frame:
  assumes ok: "bridge_ok G c" and e: "apply_keyboard_focus_change change c = Some c'"
  shows "focus_frame c c'"
proof (cases "sf_previous_surface change = sf_current_surface change")
  case True
  with e show ?thesis
    by (simp add: apply_keyboard_focus_change_def focus_frame_refl)
next
  case False
  let ?seat = "sf_guest_seat change"
  let ?c1 = "c\<lparr>key_generations := clear_peek_watermarks_for_seat ?seat (key_generations c)\<rparr>"
  let ?c2 = "end_backspace_repeat_for_seat ?seat ?c1"
  have 1: "focus_frame c ?c1"
    by (rule keys_quiet_frame) (auto intro!: keys_quietI quiet_same simp: clear_peek_watermarks_for_seat_def)
  have 2: "focus_frame ?c1 ?c2"
    using end_repeat_quiet [of ?c1 "Some ?seat"]
    by (intro keys_quiet_frame) (simp_all add: end_repeat_of_def end_backspace_repeat_for_seat_def)
  note u = e [unfolded apply_keyboard_focus_change_def if_not_P [OF False] Let_def]
  show ?thesis
    by (rule focus_frame_trans [OF focus_frame_trans [OF 1 2] focus_updates_frame [OF _ u, of G]])
      (simp add: ok)
qed

lemma focus_changes_frame:
  "bridge_ok G c \<Longrightarrow> apply_keyboard_focus_changes changes c = Some c' \<Longrightarrow> focus_frame c c'"
  unfolding apply_keyboard_focus_changes_def
proof (induction changes arbitrary: c)
  case (Cons change changes)
  then obtain d where d: "apply_keyboard_focus_change change c = Some d"
    "try_each apply_keyboard_focus_change changes d = Some c'"
    by (auto split: option.splits)
  from focus_frame_trans [OF focus_change_frame [OF Cons.prems(1) d(1)]
      Cons.IH [OF focus_change_keeps [OF Cons.prems(1) d(1)] d(2)]] show ?case .
qed (simp add: focus_frame_refl)

section \<open>The invariant\<close>

text \<open>
  The two maps of the extended keyboards are inverse to each other, and every extended
  keyboard is a live host object of its own.
\<close>

definition extended_ok :: "'h ctx_scheme \<Rightarrow> bool" where
  "extended_ok c \<longleftrightarrow>
     (\<forall>kb e. keyboard_to_extended_keyboard c kb = Some e \<longleftrightarrow> extended_keyboard_to_keyboard c e = Some kb) \<and>
     (\<forall>e. extended_keyboard_to_keyboard c e \<noteq> None \<longrightarrow>
        host_interfaces (shadow_table c) (host_raw e) \<noteq> None \<and>
        text_input_activation_barriers c e = None \<and>
        (\<forall>g. ext_ids c g \<noteq> Some (Some (host_raw e))))"

definition keyboard_ok :: "'h ctx_scheme \<Rightarrow> bool" where
  "keyboard_ok c \<longleftrightarrow>
     bridge_ok {} c \<and> extended_ok c \<and> focus_ok (kb_focus c) \<and> registry_ok (key_generations c)"

lemma extended_frame:
  assumes ok: "extended_ok c" and f: "focus_frame c c'"
  shows "extended_ok c'"
  unfolding extended_ok_def
proof (intro conjI allI)
  fix kb e
  show "keyboard_to_extended_keyboard c' kb = Some e \<longleftrightarrow> extended_keyboard_to_keyboard c' e = Some kb"
    using ok f by (simp add: extended_ok_def focus_frame_def)
next
  fix e
  have *: "host_interfaces (shadow_table c') (host_raw e) \<noteq> None \<and>
      text_input_activation_barriers c' e = None \<and> (\<forall>g. ext_ids c' g \<noteq> Some (Some (host_raw e)))"
    if "extended_keyboard_to_keyboard c e \<noteq> None"
  proof -
    from ok that have "host_interfaces (shadow_table c) (host_raw e) \<noteq> None"
      "text_input_activation_barriers c e = None" "\<forall>g. ext_ids c g \<noteq> Some (Some (host_raw e))"
      unfolding extended_ok_def by blast+
    with f show ?thesis
      by (auto simp: focus_frame_def dest!: spec [of _ "host_raw e"])
  qed
  from f have "extended_keyboard_to_keyboard c' = extended_keyboard_to_keyboard c"
    by (simp add: focus_frame_def)
  with * show "extended_keyboard_to_keyboard c' e \<noteq> None \<longrightarrow>
      host_interfaces (shadow_table c') (host_raw e) \<noteq> None \<and>
      text_input_activation_barriers c' e = None \<and> (\<forall>g. ext_ids c' g \<noteq> Some (Some (host_raw e)))"
    by simp
qed

lemma focus_changes_ok:
  assumes ok: "keyboard_ok c" and e: "apply_keyboard_focus_changes changes c = Some c'"
  shows "keyboard_ok c'" and "focus_frame c c'"
proof -
  have b: "bridge_ok {} c"
    using ok by (simp add: keyboard_ok_def)
  show f: "focus_frame c c'"
    by (rule focus_changes_frame [OF b e])
  with ok focus_changes_keep [OF b e] extended_frame [OF _ f] show "keyboard_ok c'"
    by (simp add: keyboard_ok_def focus_frame_def quiet_def)
qed

text \<open>Changes the invariant does not see.\<close>

lemma extended_ok_cong:
  "keyboard_to_extended_keyboard c' = keyboard_to_extended_keyboard c \<Longrightarrow>
   extended_keyboard_to_keyboard c' = extended_keyboard_to_keyboard c \<Longrightarrow>
   host_interfaces (shadow_table c') = host_interfaces (shadow_table c) \<Longrightarrow>
   text_input_activation_barriers c' = text_input_activation_barriers c \<Longrightarrow>
   text_inputs c' = text_inputs c \<Longrightarrow> extended_ok c' = extended_ok c"
  by (simp add: extended_ok_def ext_ids_def)

lemma keyboard_ok_frame [simp]:
  "keyboard_ok (c\<lparr>client_to_host_queue := q\<rparr>) = keyboard_ok c"
  "keyboard_ok (c\<lparr>last_sender_id := i\<rparr>) = keyboard_ok c"
  "keyboard_ok (c\<lparr>keyboard_repeatable_keys := m\<rparr>) = keyboard_ok c"
  "keyboard_ok (c\<lparr>keyboard_keysym_to_keycode := n\<rparr>) = keyboard_ok c"
  "keyboard_ok (c\<lparr>keyboard_to_seat := s\<rparr>) = keyboard_ok c"
proof -
  have e: "extended_ok (c\<lparr>client_to_host_queue := q\<rparr>) = extended_ok c"
    "extended_ok (c\<lparr>last_sender_id := i\<rparr>) = extended_ok c"
    "extended_ok (c\<lparr>keyboard_repeatable_keys := m\<rparr>) = extended_ok c"
    "extended_ok (c\<lparr>keyboard_keysym_to_keycode := n\<rparr>) = extended_ok c"
    "extended_ok (c\<lparr>keyboard_to_seat := s\<rparr>) = extended_ok c"
    by (rule extended_ok_cong; simp)+
  have b: "bridge_ok {} (c\<lparr>client_to_host_queue := q\<rparr>) = bridge_ok {} c"
    "bridge_ok {} (c\<lparr>last_sender_id := i\<rparr>) = bridge_ok {} c"
    "bridge_ok {} (c\<lparr>keyboard_repeatable_keys := m\<rparr>) = bridge_ok {} c"
    "bridge_ok {} (c\<lparr>keyboard_keysym_to_keycode := n\<rparr>) = bridge_ok {} c"
    "bridge_ok {} (c\<lparr>keyboard_to_seat := s\<rparr>) = bridge_ok {} c"
    by (rule bridge_ok_cong; simp)+
  from e b show "keyboard_ok (c\<lparr>client_to_host_queue := q\<rparr>) = keyboard_ok c"
    "keyboard_ok (c\<lparr>last_sender_id := i\<rparr>) = keyboard_ok c"
    "keyboard_ok (c\<lparr>keyboard_repeatable_keys := m\<rparr>) = keyboard_ok c"
    "keyboard_ok (c\<lparr>keyboard_keysym_to_keycode := n\<rparr>) = keyboard_ok c"
    "keyboard_ok (c\<lparr>keyboard_to_seat := s\<rparr>) = keyboard_ok c"
    by (simp_all add: keyboard_ok_def)
qed

lemma keyboard_ok_keys:
  assumes "keyboard_ok c" and "registry_ok r"
  shows "keyboard_ok (c\<lparr>key_generations := r\<rparr>)"
proof -
  have "extended_ok (c\<lparr>key_generations := r\<rparr>) = extended_ok c"
    by (rule extended_ok_cong) simp_all
  with assms show ?thesis
    by (simp add: keyboard_ok_def)
qed

lemma keyboard_ok_focus:
  assumes "keyboard_ok c" and "focus_ok f"
  shows "keyboard_ok (c\<lparr>kb_focus := f\<rparr>)"
proof -
  have "extended_ok (c\<lparr>kb_focus := f\<rparr>) = extended_ok c" "bridge_ok {} (c\<lparr>kb_focus := f\<rparr>) = bridge_ok {} c"
    by (rule extended_ok_cong bridge_ok_cong; simp)+
  with assms show ?thesis
    by (simp add: keyboard_ok_def)
qed

lemma keyboard_ok_quiet: "keyboard_ok c \<Longrightarrow> keys_quiet c c' \<Longrightarrow> keyboard_ok c'"
  by (auto simp: keys_quiet_def quiet_def keyboard_ok_keys)

section \<open>Extended keyboards\<close>

lemma bind_extended_ok:
  assumes ok: "keyboard_ok c" and b: "ensure_extended_keyboard_bound kb c = Some c'"
  shows "keyboard_ok c'"
proof (cases "host_keyboard_extension_id c = None \<or> keyboard_to_extended_keyboard c kb \<noteq> None")
  case True
  with b ok show ?thesis
    by (auto simp: ensure_extended_keyboard_bound_def split: option.splits)
next
  case False
  then obtain extension where f: "host_keyboard_extension_id c = Some extension"
    "keyboard_to_extended_keyboard c kb = None"
    by auto
  from b f obtain e t where a: "allocate_host_id (shadow_table c) = (Some e, t)"
    by (cases "allocate_host_id (shadow_table c)") (auto simp: ensure_extended_keyboard_bound_def split: option.splits)
  define d where "d = c\<lparr>keyboard_to_extended_keyboard := (keyboard_to_extended_keyboard c)(kb \<mapsto> HostId e),
     extended_keyboard_to_keyboard := (extended_keyboard_to_keyboard c)(HostId e \<mapsto> kb),
     shadow_table := track_host_interface_with_version e ''zcr_extended_keyboard_v1''
       (case host_object_version t (host_raw extension) of Some v \<Rightarrow> v | None \<Rightarrow> 0xffffffff) t\<rparr>"
  from b f a obtain q where c': "c' = d\<lparr>client_to_host_queue := q\<rparr>"
    by (auto simp: ensure_extended_keyboard_bound_def send_request_def d_def Let_def)
  have br: "bridge_ok {} c"
    using ok by (simp add: keyboard_ok_def)
  note fresh = fresh_callback [OF br a]
  have free: "host_interfaces (shadow_table c) e = None"
    using allocated(1) [OF a] by (simp add: is_host_id_available_def)
  have ex: "extended_ok c"
    using ok by (simp add: keyboard_ok_def)
  have unused: "extended_keyboard_to_keyboard c (HostId e) = None"
    using ex free unfolding extended_ok_def by (metis host_id.sel)
  have noext: "ext_ids c g \<noteq> Some (Some e)" for g
    using fresh(3) by (auto simp: ext_ids_def)
  have "extended_ok d"
    unfolding extended_ok_def
  proof (intro conjI allI impI)
    fix kb' e'
    have "keyboard_to_extended_keyboard c kb' = Some e' \<longleftrightarrow> extended_keyboard_to_keyboard c e' = Some kb'"
      using ex by (simp add: extended_ok_def)
    then show "keyboard_to_extended_keyboard d kb' = Some e' \<longleftrightarrow> extended_keyboard_to_keyboard d e' = Some kb'"
      using unused f(2) by (auto simp: d_def)
  next
    fix e'
    assume e': "extended_keyboard_to_keyboard d e' \<noteq> None"
    have old: "host_interfaces (shadow_table c) (host_raw e') \<noteq> None"
      "text_input_activation_barriers c e' = None" "ext_ids c g \<noteq> Some (Some (host_raw e'))"
      if "e' \<noteq> HostId e" for g
      using ex e' that by (auto simp: extended_ok_def d_def)
    show "host_interfaces (shadow_table d) (host_raw e') \<noteq> None"
      using old(1) fresh(2) by (cases "e' = HostId e") (auto simp: d_def track_host_interface_with_version_def)
    show "text_input_activation_barriers d e' = None"
      using old(2) fresh(1) by (cases "e' = HostId e") (simp_all add: d_def)
    show "ext_ids d g \<noteq> Some (Some (host_raw e'))" for g
      using old(3) noext by (cases "e' = HostId e") (simp_all add: d_def ext_ids_def)
  qed
  moreover have "bridge_ok {} d"
    by (rule bridge_ok_table [OF br])
      (auto simp: d_def track_host_interface_with_version_def fresh(2))
  ultimately have "keyboard_ok d"
    using ok by (simp add: keyboard_ok_def d_def)
  then show ?thesis
    by (simp add: c')
qed

lemma bind_extended_effect:
  assumes "ensure_extended_keyboard_bound kb c = Some c'"
  shows "kb_focus c' = kb_focus c" and "key_generations c' = key_generations c"
    and "keyboard_repeatable_keys c' = keyboard_repeatable_keys c"
    and "keyboard_keysym_to_keycode c' = keyboard_keysym_to_keycode c"
    and "host_keyboard_extension_id c \<noteq> None \<Longrightarrow> keyboard_to_extended_keyboard c' kb \<noteq> None"
  using assms by (auto simp: ensure_extended_keyboard_bound_def send_request_def Let_def
      split: option.splits prod.splits if_splits)

text \<open>A host object that is neither a callback nor an extension may go.\<close>

lemma bridge_ok_shrink:
  assumes ok: "bridge_ok G c"
    and kept: "\<And>h. h \<noteq> gone \<Longrightarrow> host_interfaces (shadow_table c') h = host_interfaces (shadow_table c) h"
    and free: "text_input_activation_barriers c (HostId gone) = None" "\<And>g. ext_ids c g \<noteq> Some (Some gone)"
    and same: "text_inputs c' = text_inputs c" "text_input_activation_barriers c' = text_input_activation_barriers c"
  shows "bridge_ok G c'"
proof -
  have "barriers_ok c'"
    using ok unfolding bridge_ok_def barriers_ok_def same
    by (metis free(1) host_id.collapse kept)
  moreover have "extensions_ok c'"
  proof -
    have "e \<noteq> gone" if "hm_get (text_inputs c) g = Some s" "host_ext_id s = Some e" for g s e
      using free(2) [of g] that by (auto simp: ext_ids_def)
    with ok kept show ?thesis
      unfolding bridge_ok_def extensions_ok_def same by metis
  qed
  moreover have "seats_exclusive c' = seats_exclusive c" "active_enabled G c' = active_enabled G c"
    by (simp_all add: seats_exclusive_def active_enabled_def same)
  ultimately show ?thesis
    using ok by (simp add: bridge_ok_def)
qed

definition destroy_request :: "host_id \<Rightarrow> request" where
  "destroy_request ext = (host_raw ext, ZCR_EXTENDED_KEYBOARD_DESTROY, message_builder_new)"

lemma destroy_extended_eq:
  "destroy_extended_keyboard kb c =
     (case keyboard_to_extended_keyboard c kb of
        None \<Rightarrow> Some c
      | Some ext \<Rightarrow> Some (c\<lparr>keyboard_to_extended_keyboard := (keyboard_to_extended_keyboard c)(kb := None),
          extended_keyboard_to_keyboard := (extended_keyboard_to_keyboard c)(ext := None),
          client_to_host_queue := client_to_host_queue c @ [packet_of (destroy_request ext)],
          shadow_table := snd (mark_pending_destroy_host (host_raw ext) (shadow_table c))\<rparr>))"
  by (simp add: destroy_extended_keyboard_def send_request_eq destroy_request_def split: option.split)

lemma destroy_extended_ok:
  assumes ok: "keyboard_ok c" and d: "destroy_extended_keyboard kb c = Some c'"
  shows "keyboard_ok c'"
proof (cases "keyboard_to_extended_keyboard c kb")
  case None
  with d ok show ?thesis
    by (simp add: destroy_extended_eq)
next
  case (Some e)
  from ok have br: "bridge_ok {} c" and ex: "extended_ok c"
    by (simp_all add: keyboard_ok_def)
  note pairs = ex [unfolded extended_ok_def, THEN conjunct1, rule_format]
  note live = ex [unfolded extended_ok_def, THEN conjunct2, rule_format]
  from Some pairs have inv_e: "extended_keyboard_to_keyboard c e = Some kb"
    by blast
  let ?d = "c\<lparr>keyboard_to_extended_keyboard := (keyboard_to_extended_keyboard c)(kb := None),
      extended_keyboard_to_keyboard := (extended_keyboard_to_keyboard c)(e := None),
      client_to_host_queue := client_to_host_queue c @ [packet_of (destroy_request e)],
      shadow_table := snd (mark_pending_destroy_host (host_raw e) (shadow_table c))\<rparr>"
  have c': "c' = ?d"
    using d Some by (simp add: destroy_extended_eq)
  have "bridge_ok {} ?d"
    by (rule bridge_ok_shrink [OF br, of "host_raw e"])
      (use live [of e] inv_e in \<open>auto simp: mark_pending_interfaces\<close>)
  moreover have "extended_ok ?d"
    unfolding extended_ok_def
  proof (intro conjI allI impI)
    fix kb' e'
    show "keyboard_to_extended_keyboard ?d kb' = Some e' \<longleftrightarrow> extended_keyboard_to_keyboard ?d e' = Some kb'"
      using pairs [of kb' e'] pairs [of kb e'] pairs [of kb' e] Some inv_e by auto
  next
    fix e'
    assume e': "extended_keyboard_to_keyboard ?d e' \<noteq> None"
    then have ne: "e' \<noteq> e" "host_raw e' \<noteq> host_raw e" "extended_keyboard_to_keyboard c e' \<noteq> None"
      by (auto simp: host_id.expand split: if_splits)
    then show "host_interfaces (shadow_table ?d) (host_raw e') \<noteq> None"
      using live [OF ne(3)] by (simp add: mark_pending_interfaces)
    show "text_input_activation_barriers ?d e' = None"
      using live [OF ne(3)] by simp
    show "ext_ids ?d g \<noteq> Some (Some (host_raw e'))" for g
      using live [OF ne(3)] by (simp add: ext_ids_def)
  qed
  ultimately have "keyboard_ok ?d"
    using ok by (simp add: keyboard_ok_def)
  then show ?thesis
    by (simp add: c')
qed

section \<open>Retiring keyboards\<close>

definition clear_keyboards :: "host_id list \<Rightarrow> key_registry \<Rightarrow> key_registry" where
  "clear_keyboards kbs r = fold clear_keyboard kbs r"

lemma retire_all_eq:
  "retire_all x kbs (h, c) =
     (fold (reset_host_keyboard_modifiers x) kbs h,
      c\<lparr>key_generations := clear_keyboards kbs (key_generations c)\<rparr>)"
  by (induction kbs arbitrary: h c)
    (simp_all add: retire_all_def retire_focus_scoped_keyboard_state_def clear_host_keyboard_state_def
      clear_keyboards_def)

lemma clear_keyboards_view:
  "open_presses (clear_keyboards kbs r) kb key = (if kb \<in> set kbs then 0 else open_presses r kb key)"
  by (induction kbs arbitrary: r) (auto simp: clear_keyboards_def clear_keyboard_view)

lemma clear_keyboard_ok: "registry_ok r \<Longrightarrow> registry_ok (clear_keyboard kb r)"
  by (auto simp: registry_ok_def clear_keyboard_view)

lemma clear_keyboards_ok: "registry_ok r \<Longrightarrow> registry_ok (clear_keyboards kbs r)"
  unfolding clear_keyboards_def by (induction kbs arbitrary: r) (simp_all add: clear_keyboard_ok)

lemma reset_modifiers_fold:
  "kh_keymaps (fold (reset_host_keyboard_modifiers x) kbs h) = kh_keymaps h"
  "kh_modifiers (fold (reset_host_keyboard_modifiers x) kbs h) kb =
     (if kb \<in> set kbs then None else kh_modifiers h kb)"
  "(kh_states (fold (reset_host_keyboard_modifiers x) kbs h) kb = None) = (kh_states h kb = None)"
  by (induction kbs arbitrary: h) (auto simp: reset_host_keyboard_modifiers_def)

text \<open>After the snapshot exactly the keys of the \<open>enter\<close> array are pressed in the guest.\<close>

lemma snapshot_open:
  "open_presses (install_enter_snapshot kb keys r) kb key = (if key \<in> set keys then 1 else 0)"
proof -
  let ?f = "\<lambda>key r. kg_modify kb key
             (\<lambda>g. g\<lparr>kg_physical_state := Held, kg_guest_owner := Some Physical\<rparr>)
             (ensure_generation kb key r)"
  have own: "owner_open (kg_get (fold ?f keys r) kb key) =
      (if key \<in> set keys then 1 else owner_open (kg_get r kb key))" for r
    by (induction keys arbitrary: r) (auto simp: owner_open_def)
  have ret: "retired_open (fold ?f keys r) kb key = retired_open r kb key" for r
    by (induction keys arbitrary: r) simp_all
  have "owner_open (kg_get (clear_keyboard kb r) kb key) = 0" "retired_open (clear_keyboard kb r) kb key = 0"
    by (simp_all add: clear_keyboard_view retired_open_def retired_cleared)
  then show ?thesis
    unfolding install_enter_snapshot_def open_presses_def own ret by simp
qed

section \<open>Entering\<close>

lemma apply_no_change [simp]: "apply_keyboard_focus_changes [] c = Some c"
  by (simp add: apply_keyboard_focus_changes_def)

text \<open>The state in which an accepted \<open>enter\<close> leaves the registries, before the text inputs follow.\<close>

definition entered ::
    "host_id \<Rightarrow> host_id list \<Rightarrow> u8 list \<Rightarrow> focus_registry \<Rightarrow> 'h ctx_scheme \<Rightarrow> 'h ctx_scheme" where
  "entered kb retired keys f c =
     c\<lparr>kb_focus := f,
       key_generations := install_enter_snapshot kb (remdups (key_chunks keys))
         (clear_keyboards retired (key_generations c))\<rparr>"

definition enters ::
    "('m, 's) xkb \<Rightarrow> host_id \<Rightarrow> keyboard_focus \<Rightarrow> u8 list \<Rightarrow> ('m, 's) keyboard_handler \<Rightarrow> 'h ctx_scheme \<Rightarrow>
     ('m, 's) keyboard_handler \<Rightarrow> 'h ctx_scheme \<Rightarrow> bool" where
  "enters x kb focus keys h c h' c' \<longleftrightarrow>
     (\<exists>c1 u f.
        focus_for_keyboard (kb_focus c) kb \<noteq> Some focus \<and>
        ensure_extended_keyboard_bound kb c = Some c1 \<and> focus_enter kb focus (kb_focus c) = (u, f) \<and>
        h' = reset_host_keyboard_modifiers x kb (fold (reset_host_keyboard_modifiers x) (retired_keyboards u) h) \<and>
        apply_keyboard_focus_changes (seat_changes u) (entered kb (retired_keyboards u) keys f c1) = Some c')"

definition deliverable :: "u32 \<Rightarrow> 'h ctx_scheme \<Rightarrow> keyboard_focus option" where
  "deliverable surface c =
     (case get_guest_id (shadow_table c) surface of
        None \<Rightarrow> None
      | Some guest \<Rightarrow>
          if guest = 0 \<or> is_pending_destroy_host (shadow_table c) surface then None
          else map_option (\<lambda>seat. \<lparr>kf_guest_seat = seat, kf_guest_surface = guest, kf_host_surface = surface\<rparr>)
            (hm_get (keyboard_to_seat c)
              (case guest_id_of (shadow_table c) (HostId (last_sender_id c)) of
                 Some g \<Rightarrow> guest_raw g
               | None \<Rightarrow> 0)))"

lemma enter_cases:
  assumes "kb_on_enter x surface keys (h, c) = Some (a, h', c')"
  obtains (stale) "a = Drop" "h' = h" "c' = c"
  | (accepted) focus where "a = Forward" "deliverable surface c = Some focus"
      "enters x (HostId (last_sender_id c)) focus keys h c h' c'"
proof -
  let ?kb = "HostId (last_sender_id c)"
  show ?thesis
  proof (cases "deliverable surface c")
    case None
    then have "kb_on_enter x surface keys (h, c) = Some (Drop, h, c)"
      by (auto simp: kb_on_enter_def deliverable_def Let_def split: option.splits if_splits)
    with assms show ?thesis
      by (intro stale) simp_all
  next
    case (Some focus)
    then obtain gs seat where g: "get_guest_id (shadow_table c) surface = Some gs" "gs \<noteq> 0"
      "\<not> is_pending_destroy_host (shadow_table c) surface"
      "hm_get (keyboard_to_seat c) (case guest_id_of (shadow_table c) ?kb of Some g \<Rightarrow> guest_raw g | None \<Rightarrow> 0) = Some seat"
      "focus = \<lparr>kf_guest_seat = seat, kf_guest_surface = gs, kf_host_surface = surface\<rparr>"
      by (auto simp: deliverable_def split: option.splits if_splits)
    note e = assms [unfolded kb_on_enter_def Let_def prod.case g(1) option.case g(4), folded g(5)]
    show ?thesis
    proof (cases "focus_for_keyboard (kb_focus c) ?kb = Some focus")
      case True
      with e g(2,3) show ?thesis
        by (intro stale) simp_all
    next
      case False
      with e g(2,3) obtain c1 where c1: "ensure_extended_keyboard_bound ?kb c = Some c1"
        by (auto split: option.splits)
      obtain u f where u: "focus_enter ?kb focus (kb_focus c) = (u, f)"
        by (cases "focus_enter ?kb focus (kb_focus c)")
      let ?h = "reset_host_keyboard_modifiers x ?kb (fold (reset_host_keyboard_modifiers x) (retired_keyboards u) h)"
      have c3: "initialize_host_keyboard_enter_state ?kb keys
          (c1\<lparr>kb_focus := f, key_generations := clear_keyboards (retired_keyboards u) (key_generations c1)\<rparr>) =
        entered ?kb (retired_keyboards u) keys f c1"
        by (simp add: initialize_host_keyboard_enter_state_def entered_def)
      from e g(2,3) False have "(if seat_changes u = [] then Some (Forward, ?h, entered ?kb (retired_keyboards u) keys f c1)
          else map_option (\<lambda>c4. (Forward, ?h, c4))
            (apply_keyboard_focus_changes (seat_changes u) (entered ?kb (retired_keyboards u) keys f c1))) =
        Some (a, h', c')"
        by (simp add: c1 bind_extended_effect(1) [OF c1] u retire_all_eq c3 cong: if_cong)
      then have "a = Forward" "h' = ?h"
        "apply_keyboard_focus_changes (seat_changes u) (entered ?kb (retired_keyboards u) keys f c1) = Some c'"
        by (auto split: if_splits)
      with Some False c1 u show ?thesis
        by (intro accepted) (auto simp: enters_def)
    qed
  qed
qed

lemma entered_ok:
  assumes ok: "keyboard_ok c" and f: "focus_ok f"
  shows "keyboard_ok (entered kb retired keys f c)"
proof -
  have "registry_ok (key_generations c)"
    using ok by (simp add: keyboard_ok_def)
  then have "registry_ok (install_enter_snapshot kb (remdups (key_chunks keys))
      (clear_keyboards retired (key_generations c)))"
    by (intro install_snapshot_ok(1) clear_keyboards_ok)
  with keyboard_ok_keys [OF keyboard_ok_focus [OF ok f]] show ?thesis
    by (simp add: entered_def)
qed

lemma enters_ok:
  assumes ok: "keyboard_ok c" and e: "enters x kb focus keys h c h' c'"
  shows "keyboard_ok c'"
proof -
  from e obtain c1 u f where c1: "ensure_extended_keyboard_bound kb c = Some c1"
    and u: "focus_enter kb focus (kb_focus c) = (u, f)"
    and c': "apply_keyboard_focus_changes (seat_changes u) (entered kb (retired_keyboards u) keys f c1) = Some c'"
    by (auto simp: enters_def)
  have "focus_ok f"
    using focus_enter_exact [OF _ u] ok by (simp add: keyboard_ok_def)
  from focus_changes_ok(1) [OF entered_ok [OF bind_extended_ok [OF ok c1] this] c'] show ?thesis .
qed

lemma enters_effect:
  assumes ok: "keyboard_ok c" and e: "enters x kb focus keys h c h' c'"
  shows "focus_for_keyboard (kb_focus c') kb = Some focus"
    and "open_presses (key_generations c') kb key = (if key \<in> set (key_chunks keys) then 1 else 0)"
    and "kh_modifiers h' kb = None"
    and "host_keyboard_extension_id c \<noteq> None \<Longrightarrow> keyboard_to_extended_keyboard c' kb \<noteq> None"
    and "kb' \<noteq> kb \<Longrightarrow> focus_for_keyboard (kb_focus c) kb' = Some old \<Longrightarrow>
      kf_guest_seat old = kf_guest_seat focus \<Longrightarrow> kf_guest_surface old \<noteq> kf_guest_surface focus \<Longrightarrow>
      focus_for_keyboard (kb_focus c') kb' = None \<and> kh_modifiers h' kb' = None \<and>
      open_presses (key_generations c') kb' k = 0"
proof -
  from e obtain c1 u f where new: "focus_for_keyboard (kb_focus c) kb \<noteq> Some focus"
    and c1: "ensure_extended_keyboard_bound kb c = Some c1"
    and u: "focus_enter kb focus (kb_focus c) = (u, f)"
    and h': "h' = reset_host_keyboard_modifiers x kb (fold (reset_host_keyboard_modifiers x) (retired_keyboards u) h)"
    and c': "apply_keyboard_focus_changes (seat_changes u) (entered kb (retired_keyboards u) keys f c1) = Some c'"
    by (auto simp: enters_def)
  have fo: "focus_ok (kb_focus c)"
    using ok by (simp add: keyboard_ok_def)
  have ok1: "keyboard_ok (entered kb (retired_keyboards u) keys f c1)"
    using focus_enter_exact [OF fo u] by (intro entered_ok [OF bind_extended_ok [OF ok c1]]) simp
  have fr: "focus_frame (entered kb (retired_keyboards u) keys f c1) c'"
    by (rule focus_changes_ok(2) [OF ok1 c'])
  then have foc: "kb_focus c' = f"
    and ext: "keyboard_to_extended_keyboard c' = keyboard_to_extended_keyboard c1"
    by (simp_all add: focus_frame_def entered_def)
  have op: "open_presses (key_generations c') k1 k2 =
      open_presses (install_enter_snapshot kb (remdups (key_chunks keys))
        (clear_keyboards (retired_keyboards u) (key_generations c1))) k1 k2" for k1 k2
    using fr ok1 by (simp add: focus_frame_def keyboard_ok_def quiet_def entered_def)
  note view = focus_enter_view [OF fo new u]
  show "focus_for_keyboard (kb_focus c') kb = Some focus"
    by (simp add: foc view(1))
  show "open_presses (key_generations c') kb key = (if key \<in> set (key_chunks keys) then 1 else 0)"
    by (simp add: op snapshot_open)
  show "kh_modifiers h' kb = None"
    by (simp add: h' reset_host_keyboard_modifiers_def)
  show "host_keyboard_extension_id c \<noteq> None \<Longrightarrow> keyboard_to_extended_keyboard c' kb \<noteq> None"
    unfolding ext by (rule bind_extended_effect(5) [OF c1])
  assume kb': "kb' \<noteq> kb" "focus_for_keyboard (kb_focus c) kb' = Some old"
    "kf_guest_seat old = kf_guest_seat focus" "kf_guest_surface old \<noteq> kf_guest_surface focus"
  then have gone: "focus_for_keyboard f kb' = None"
    by (simp add: view(1))
  have "set (retired_keyboards u) =
      {k. focus_for_keyboard (kb_focus c) k \<noteq> None \<and> focus_for_keyboard f k \<noteq> focus_for_keyboard (kb_focus c) k}"
    using focus_enter_exact [OF fo u] by (simp add: update_exact_def)
  with kb' gone have ret: "kb' \<in> set (retired_keyboards u)"
    by simp
  have "registry_ok (clear_keyboards (retired_keyboards u) (key_generations c1))"
    using bind_extended_ok [OF ok c1] by (simp add: keyboard_ok_def clear_keyboards_ok)
  from install_snapshot_ok(2) [OF this kb'(1)] ret have "open_presses (key_generations c') kb' k = 0"
    unfolding op by (simp add: clear_keyboards_view)
  with gone ret kb'(1) show "focus_for_keyboard (kb_focus c') kb' = None \<and> kh_modifiers h' kb' = None \<and>
      open_presses (key_generations c') kb' k = 0"
    by (simp add: foc h' reset_host_keyboard_modifiers_def reset_modifiers_fold)
qed

section \<open>Leaving and releasing\<close>

lemma leave_ok:
  assumes ok: "keyboard_ok c" and e: "kb_on_leave x surface (h, c) = Some (a, h', c')"
  shows "keyboard_ok c'"
proof -
  let ?kb = "HostId (last_sender_id c)"
  obtain u f where u: "focus_leave ?kb surface (kb_focus c) = (u, f)"
    by (cases "focus_leave ?kb surface (kb_focus c)")
  have "focus_ok f"
    using focus_leave_exact [OF _ u] ok by (simp add: keyboard_ok_def)
  then have ok1: "keyboard_ok (c\<lparr>kb_focus := f\<rparr>)"
    by (rule keyboard_ok_focus [OF ok])
  show ?thesis
  proof (cases "accepted u")
    case False
    with e u ok1 show ?thesis
      by (simp add: kb_on_leave_def)
  next
    case True
    let ?c2 = "c\<lparr>kb_focus := f, key_generations := clear_keyboards (retired_keyboards u) (key_generations c)\<rparr>"
    have "keyboard_ok ?c2"
      using keyboard_ok_keys [OF ok1, of "clear_keyboards (retired_keyboards u) (key_generations c)"] ok
      by (simp add: keyboard_ok_def clear_keyboards_ok)
    moreover from e u True have "apply_keyboard_focus_changes (seat_changes u) ?c2 = Some c'"
      by (auto simp: kb_on_leave_def Let_def retire_all_eq)
    ultimately show ?thesis
      by (rule focus_changes_ok(1))
  qed
qed

definition forgotten :: "host_id \<Rightarrow> focus_registry \<Rightarrow> 'h ctx_scheme \<Rightarrow> 'h ctx_scheme" where
  "forgotten kb f c =
     c\<lparr>kb_focus := f, keyboard_repeatable_keys := (keyboard_repeatable_keys c)(kb := None),
       keyboard_keysym_to_keycode := (keyboard_keysym_to_keycode c)(kb := None),
       key_generations := clear_keyboard kb (key_generations c)\<rparr>"

lemma release_cases:
  assumes "kb_on_release (h, c) = Some (a, h', c')"
  obtains (unknown) "host_id_of (shadow_table c) (GuestId (last_sender_id c)) = None" "h' = h"
      "c' = end_repeat_of (hm_get (keyboard_to_seat c) (last_sender_id c))
         (c\<lparr>keyboard_to_seat := hm_remove (last_sender_id c) (keyboard_to_seat c)\<rparr>)"
  | (known) kb u f d where "host_id_of (shadow_table c) (GuestId (last_sender_id c)) = Some kb"
      "focus_release kb (kb_focus c) = (u, f)"
      "h' = h\<lparr>kh_keymaps := (kh_keymaps h)(kb := None), kh_states := (kh_states h)(kb := None),
           kh_modifiers := (kh_modifiers h)(kb := None)\<rparr>"
      "destroy_extended_keyboard kb
         (forgotten kb f (c\<lparr>keyboard_to_seat := hm_remove (last_sender_id c) (keyboard_to_seat c)\<rparr>)) = Some d"
      "apply_keyboard_focus_changes (seat_changes u) d = Some c'"
proof (cases "host_id_of (shadow_table c) (GuestId (last_sender_id c))")
  case None
  with assms show ?thesis
    by (intro unknown) (auto simp: kb_on_release_def Let_def)
next
  case (Some kb)
  obtain u f where u: "focus_release kb (kb_focus c) = (u, f)"
    by (cases "focus_release kb (kb_focus c)")
  let ?c = "forgotten kb f (c\<lparr>keyboard_to_seat := hm_remove (last_sender_id c) (keyboard_to_seat c)\<rparr>)"
  have "clear_host_keyboard_keymap_and_state kb
      (h, c\<lparr>keyboard_to_seat := hm_remove (last_sender_id c) (keyboard_to_seat c), kb_focus := f\<rparr>) =
    (h\<lparr>kh_keymaps := (kh_keymaps h)(kb := None), kh_states := (kh_states h)(kb := None),
       kh_modifiers := (kh_modifiers h)(kb := None)\<rparr>, ?c)"
    by (simp add: clear_host_keyboard_keymap_and_state_def clear_host_keyboard_keymap_def
        clear_host_keyboard_state_def forgotten_def)
  with assms Some u obtain d where "destroy_extended_keyboard kb ?c = Some d"
    "apply_keyboard_focus_changes (seat_changes u) d = Some c'"
    "h' = h\<lparr>kh_keymaps := (kh_keymaps h)(kb := None), kh_states := (kh_states h)(kb := None),
           kh_modifiers := (kh_modifiers h)(kb := None)\<rparr>"
    by (auto simp: kb_on_release_def Let_def bind_eq_Some_conv)
  with Some u show ?thesis
    by (intro known)
qed

lemma forgotten_ok:
  assumes ok: "keyboard_ok c" and f: "focus_ok f"
  shows "keyboard_ok (forgotten kb f c)"
proof -
  have "registry_ok (key_generations c)"
    using ok by (simp add: keyboard_ok_def)
  then show ?thesis
    unfolding forgotten_def
    by (intro keyboard_ok_keys clear_keyboard_ok) (simp_all add: keyboard_ok_focus [OF ok f])
qed

lemma release_ok:
  assumes ok: "keyboard_ok c" and e: "kb_on_release (h, c) = Some (a, h', c')"
  shows "keyboard_ok c'"
  using e
proof (cases rule: release_cases)
  case unknown
  let ?c = "c\<lparr>keyboard_to_seat := hm_remove (last_sender_id c) (keyboard_to_seat c)\<rparr>"
  have "keyboard_ok ?c"
    using ok by simp
  moreover from this have "registry_ok (key_generations ?c)"
    by (simp add: keyboard_ok_def)
  ultimately show ?thesis
    unfolding unknown(3) by (metis keyboard_ok_quiet end_repeat_quiet)
next
  case (known kb u f d)
  let ?c = "c\<lparr>keyboard_to_seat := hm_remove (last_sender_id c) (keyboard_to_seat c)\<rparr>"
  have "focus_ok f"
    using focus_release_exact [OF _ known(2)] ok by (simp add: keyboard_ok_def)
  then have "keyboard_ok (forgotten kb f ?c)"
    using ok by (intro forgotten_ok) simp_all
  from focus_changes_ok(1) [OF destroy_extended_ok [OF this known(4)] known(5)] show ?thesis .
qed

section \<open>Keymaps and their tables\<close>

text \<open>What is derived from a keymap is there exactly while the keymap is.\<close>

definition keymaps_agree :: "('m, 's) xkb \<Rightarrow> ('m, 's) keyboard_handler \<Rightarrow> 'h ctx_scheme \<Rightarrow> bool" where
  "keymaps_agree x h c \<longleftrightarrow>
     (\<forall>kb. (kh_states h kb = None \<longleftrightarrow> kh_keymaps h kb = None) \<and>
        (kh_states h kb = None \<longrightarrow> kh_modifiers h kb = None) \<and>
        keyboard_keysym_to_keycode c kb = map_option (keysym_to_evdev_keycodes x) (kh_keymaps h kb) \<and>
        keyboard_repeatable_keys c kb = map_option (repeatable_evdev_keycodes x) (kh_keymaps h kb))"

lemma keymaps_agree_cong:
  "keyboard_keysym_to_keycode c' = keyboard_keysym_to_keycode c \<Longrightarrow>
   keyboard_repeatable_keys c' = keyboard_repeatable_keys c \<Longrightarrow> keymaps_agree x h c' = keymaps_agree x h c"
  by (simp add: keymaps_agree_def)

lemma keymaps_agree_reset:
  "keymaps_agree x h c \<Longrightarrow> keymaps_agree x (reset_host_keyboard_modifiers x kb h) c"
  by (auto simp: keymaps_agree_def reset_host_keyboard_modifiers_def)

lemma keymaps_agree_resets:
  "keymaps_agree x h c \<Longrightarrow> keymaps_agree x (fold (reset_host_keyboard_modifiers x) kbs h) c"
  by (induction kbs arbitrary: h) (simp_all add: keymaps_agree_reset)

lemma keymaps_agree_frame: "focus_frame c c' \<Longrightarrow> keymaps_agree x h c' = keymaps_agree x h c"
  by (rule keymaps_agree_cong) (simp_all add: focus_frame_def)

lemma keymaps_agree_quiet: "keys_quiet c c' \<Longrightarrow> keymaps_agree x h c' = keymaps_agree x h c"
  by (rule keymaps_agree_cong) (auto simp: keys_quiet_def)

definition session_ok :: "('m, 's) xkb \<Rightarrow> ('m, 's) keyboard_handler \<times> 'h ctx_scheme \<Rightarrow> bool" where
  "session_ok x w \<longleftrightarrow> (case w of (h, c) \<Rightarrow> keyboard_ok c \<and> keymaps_agree x h c)"

lemma cleared_session:
  assumes "session_ok x (h, c)"
  shows "session_ok x (clear_host_keyboard_keymap_and_state kb (h, c))"
proof -
  from assms have ok: "keyboard_ok c" and ag: "keymaps_agree x h c"
    by (simp_all add: session_ok_def)
  have "keyboard_ok (c\<lparr>keyboard_repeatable_keys := (keyboard_repeatable_keys c)(kb := None),
      keyboard_keysym_to_keycode := (keyboard_keysym_to_keycode c)(kb := None),
      key_generations := clear_keyboard kb (key_generations c)\<rparr>)"
    by (rule keyboard_ok_keys) (use ok in \<open>simp_all add: clear_keyboard_ok keyboard_ok_def [of c]\<close>)
  with ag show ?thesis
    by (auto simp: session_ok_def clear_host_keyboard_keymap_and_state_def clear_host_keyboard_keymap_def
        clear_host_keyboard_state_def keymaps_agree_def)
qed

lemma installed_session:
  assumes "session_ok x (h, c)"
  shows "session_ok x (install_keymap x kb keymap (h, c))"
proof -
  from assms have ok: "keyboard_ok c" and ag: "keymaps_agree x h c"
    by (simp_all add: session_ok_def)
  have "registry_ok (clear_accelerator_suppressions kb (key_generations c))"
    using clear_suppressions_quiet [of "key_generations c" kb] ok by (simp add: keyboard_ok_def quiet_def)
  then have "keyboard_ok (c\<lparr>keyboard_repeatable_keys := r, keyboard_keysym_to_keycode := s,
      keyboard_repeatable_keys := t,
      key_generations := clear_accelerator_suppressions kb (key_generations c)\<rparr>)" for r s t
    by (intro keyboard_ok_keys) (use ok in simp_all)
  with ag show ?thesis
    by (auto simp: session_ok_def install_keymap_def clear_host_keyboard_keymap_def keymaps_agree_def)
qed

lemma keymap_session:
  assumes ok: "session_ok x (h, c)"
  shows "session_ok x (snd (kb_on_keymap x st mapped format fd bytes_len (h, c)))"
proof -
  have "snd (kb_on_keymap x st mapped format fd bytes_len (h, c)) \<in>
      insert (clear_host_keyboard_keymap_and_state (HostId (last_sender_id c)) (h, c))
        (range (\<lambda>keymap. install_keymap x (HostId (last_sender_id c)) keymap (h, c)))"
    by (simp add: kb_on_keymap_def Let_def split: option.split)
  with cleared_session [OF ok] installed_session [OF ok] show ?thesis
    by auto
qed

lemma enter_session:
  assumes ok: "session_ok x (h, c)" and e: "kb_on_enter x surface keys (h, c) = Some (a, h', c')"
  shows "session_ok x (h', c')"
  using e
proof (cases rule: enter_cases)
  case (accepted focus)
  let ?kb = "HostId (last_sender_id c)"
  from ok have k: "keyboard_ok c" and ag: "keymaps_agree x h c"
    by (simp_all add: session_ok_def)
  from accepted(3) obtain c1 u f where c1: "ensure_extended_keyboard_bound ?kb c = Some c1"
    and u: "focus_enter ?kb focus (kb_focus c) = (u, f)"
    and h': "h' = reset_host_keyboard_modifiers x ?kb (fold (reset_host_keyboard_modifiers x) (retired_keyboards u) h)"
    and c': "apply_keyboard_focus_changes (seat_changes u) (entered ?kb (retired_keyboards u) keys f c1) = Some c'"
    by (auto simp: enters_def)
  have "focus_ok f"
    using focus_enter_exact [OF _ u] k by (simp add: keyboard_ok_def)
  from focus_changes_ok(2) [OF entered_ok [OF bind_extended_ok [OF k c1] this] c']
  have "keymaps_agree x h' c' = keymaps_agree x h' (entered ?kb (retired_keyboards u) keys f c1)"
    by (rule keymaps_agree_frame)
  also have "\<dots> = keymaps_agree x h' c"
    by (rule keymaps_agree_cong) (simp_all add: entered_def bind_extended_effect [OF c1])
  finally have "keymaps_agree x h' c'"
    using ag by (simp add: h' keymaps_agree_reset keymaps_agree_resets)
  with enters_ok [OF k accepted(3)] show ?thesis
    by (simp add: session_ok_def)
qed (use ok in simp)

lemma leave_session:
  assumes ok: "session_ok x (h, c)" and e: "kb_on_leave x surface (h, c) = Some (a, h', c')"
  shows "session_ok x (h', c')"
proof -
  let ?kb = "HostId (last_sender_id c)"
  from ok have k: "keyboard_ok c" and ag: "keymaps_agree x h c"
    by (simp_all add: session_ok_def)
  obtain u f where u: "focus_leave ?kb surface (kb_focus c) = (u, f)"
    by (cases "focus_leave ?kb surface (kb_focus c)")
  have "keymaps_agree x h' c'"
  proof (cases "accepted u")
    case False
    with e u have "h' = h" "c' = c\<lparr>kb_focus := f\<rparr>"
      by (simp_all add: kb_on_leave_def)
    with ag show ?thesis
      by (simp add: keymaps_agree_def)
  next
    case True
    let ?c2 = "c\<lparr>kb_focus := f, key_generations := clear_keyboards (retired_keyboards u) (key_generations c)\<rparr>"
    have "focus_ok f"
      using focus_leave_exact [OF _ u] k by (simp add: keyboard_ok_def)
    then have k2: "keyboard_ok ?c2"
      using k by (intro keyboard_ok_keys keyboard_ok_focus clear_keyboards_ok) (simp_all add: keyboard_ok_def)
    from e u True have r: "apply_keyboard_focus_changes (seat_changes u) ?c2 = Some c'"
      "h' = fold (reset_host_keyboard_modifiers x) (retired_keyboards u) h"
      by (auto simp: kb_on_leave_def Let_def retire_all_eq)
    have "keymaps_agree x h' c' = keymaps_agree x h' ?c2"
      by (rule keymaps_agree_frame [OF focus_changes_ok(2) [OF k2 r(1)]])
    also have "\<dots> = keymaps_agree x h' c"
      by (rule keymaps_agree_cong) simp_all
    finally show ?thesis
      using ag by (simp add: r(2) keymaps_agree_resets)
  qed
  with leave_ok [OF k e] show ?thesis
    by (simp add: session_ok_def)
qed

lemma destroy_extended_tables:
  assumes "destroy_extended_keyboard kb c = Some d"
  shows "keyboard_keysym_to_keycode d = keyboard_keysym_to_keycode c"
    and "keyboard_repeatable_keys d = keyboard_repeatable_keys c"
    and "kb_focus d = kb_focus c" and "key_generations d = key_generations c"
    and "keyboard_to_extended_keyboard d kb = None"
    and "client_to_host_queue d = client_to_host_queue c @
      (case keyboard_to_extended_keyboard c kb of Some e \<Rightarrow> [packet_of (destroy_request e)] | None \<Rightarrow> [])"
  using assms by (auto simp: destroy_extended_eq split: option.splits)

lemma release_session:
  assumes ok: "session_ok x (h, c)" and e: "kb_on_release (h, c) = Some (a, h', c')"
  shows "session_ok x (h', c')"
proof -
  from ok have k: "keyboard_ok c" and ag: "keymaps_agree x h c"
    by (simp_all add: session_ok_def)
  have "keymaps_agree x h' c'"
    using e
  proof (cases rule: release_cases)
    case unknown
    have "registry_ok (key_generations (c\<lparr>keyboard_to_seat := hm_remove (last_sender_id c) (keyboard_to_seat c)\<rparr>))"
      using k by (simp add: keyboard_ok_def)
    from end_repeat_quiet [OF this] have "keymaps_agree x h' c' =
        keymaps_agree x h' (c\<lparr>keyboard_to_seat := hm_remove (last_sender_id c) (keyboard_to_seat c)\<rparr>)"
      unfolding unknown(3) by (rule keymaps_agree_quiet)
    also have "\<dots> = keymaps_agree x h c"
      unfolding unknown(2) by (rule keymaps_agree_cong) simp_all
    finally show ?thesis
      using ag by simp
  next
    case (known kb u f d)
    have "focus_ok f"
      using focus_release_exact [OF _ known(2)] k by (simp add: keyboard_ok_def)
    then have k1: "keyboard_ok (forgotten kb f (c\<lparr>keyboard_to_seat := hm_remove (last_sender_id c) (keyboard_to_seat c)\<rparr>))"
      using k by (intro forgotten_ok) simp_all
    have "keymaps_agree x h' c' = keymaps_agree x h' d"
      by (rule keymaps_agree_frame [OF focus_changes_ok(2) [OF destroy_extended_ok [OF k1 known(4)] known(5)]])
    also have "\<dots> = keymaps_agree x h' (forgotten kb f (c\<lparr>keyboard_to_seat := hm_remove (last_sender_id c) (keyboard_to_seat c)\<rparr>))"
      by (rule keymaps_agree_cong) (simp_all add: destroy_extended_tables [OF known(4)])
    also have "\<dots>"
      using ag by (auto simp: known(3) keymaps_agree_def forgotten_def)
    finally show ?thesis .
  qed
  with release_ok [OF k e] show ?thesis
    by (simp add: session_ok_def)
qed

lemma key_session:
  assumes ok: "session_ok x (h, c)" and e: "kb_on_key x serial key state h c = Some (a, c')"
  shows "session_ok x (h, c')"
proof (cases "known_key_state state")
  case False
  with e ok show ?thesis
    by (simp add: known_key_state_def key_unknown_state)
next
  case True
  from ok have k: "keyboard_ok c" and ag: "keymaps_agree x h c"
    by (simp_all add: session_ok_def)
  then have "registry_ok (key_generations c)"
    by (simp add: keyboard_ok_def)
  from key_event_outcome [OF this True, of key serial x h] e obtain r q where
    r: "c' = c\<lparr>key_generations := r, client_to_host_queue := q\<rparr>" "registry_ok r"
    by (auto simp: key_outcome_def key_change_def)
  with keyboard_ok_keys [OF k r(2)] ag show ?thesis
    by (simp add: session_ok_def keymaps_agree_def)
qed

lemma modifiers_session:
  "session_ok x (h, c) \<Longrightarrow> session_ok x (snd (kb_on_modifiers x md ml lk g (h, c)))"
  by (simp add: session_ok_def kb_on_modifiers_def Let_def keymaps_agree_def split: option.split) (metis option.distinct(1) option.exhaust)

lemma peek_session:
  assumes ok: "session_ok x (h, c)"
  shows "session_ok x (h, snd (kb_on_peek_key x serial time key state h' c))"
proof -
  from ok have k: "keyboard_ok c" and ag: "keymaps_agree x h c"
    by (simp_all add: session_ok_def)
  then have q: "keys_quiet c (snd (kb_on_peek_key x serial time key state h' c))"
    by (intro peek_key_quiet) (simp add: keyboard_ok_def)
  with keyboard_ok_quiet [OF k q] keymaps_agree_quiet [OF q, of x h] ag show ?thesis
    by (simp add: session_ok_def)
qed

section \<open>Runs of keyboard events\<close>

datatype keyboard_event =
    KbKeymap "(int \<times> u32) option" "u8 list option" u32 raw_fd u32
  | KbEnter u32 "u8 list"
  | KbLeave u32
  | KbKey u32 u32 u32
  | KbModifiers u32 u32 u32 u32
  | KbRelease
  | KbPeek u32 u32 u32 u32

definition keyboard_handle ::
    "('m, 's) xkb \<Rightarrow> keyboard_event \<Rightarrow> ('m, 's) keyboard_handler \<times> 'h ctx_scheme \<Rightarrow>
     (action \<times> ('m, 's) keyboard_handler \<times> 'h ctx_scheme) option" where
  "keyboard_handle x e w =
     (case e of
        KbKeymap st mapped format fd bytes_len \<Rightarrow> Some (kb_on_keymap x st mapped format fd bytes_len w)
      | KbEnter surface keys \<Rightarrow> kb_on_enter x surface keys w
      | KbLeave surface \<Rightarrow> kb_on_leave x surface w
      | KbKey serial key state \<Rightarrow>
          map_option (\<lambda>(a, c'). (a, fst w, c')) (kb_on_key x serial key state (fst w) (snd w))
      | KbModifiers depressed latched locked layout \<Rightarrow> Some (kb_on_modifiers x depressed latched locked layout w)
      | KbRelease \<Rightarrow> kb_on_release w
      | KbPeek serial time key state \<Rightarrow>
          (case kb_on_peek_key x serial time key state (fst w) (snd w) of (a, c') \<Rightarrow> Some (a, fst w, c')))"

text \<open>An event with the object that sent it.\<close>

definition keyboard_apply ::
    "('m, 's) xkb \<Rightarrow> u32 \<times> keyboard_event \<Rightarrow> ('m, 's) keyboard_handler \<times> 'h ctx_scheme \<Rightarrow>
     (('m, 's) keyboard_handler \<times> 'h ctx_scheme) option" where
  "keyboard_apply x e w =
     map_option snd (keyboard_handle x (snd e) (fst w, (snd w)\<lparr>last_sender_id := fst e\<rparr>))"

lemma handle_session:
  assumes ok: "session_ok x (h, c)" and e: "keyboard_handle x ev (h, c) = Some (a, h', c')"
  shows "session_ok x (h', c')"
proof (cases ev)
  case (KbKeymap st mapped format fd bytes_len)
  with e keymap_session [OF ok, of st mapped format fd bytes_len] show ?thesis
    by (simp add: keyboard_handle_def)
next
  case (KbEnter surface keys)
  with e enter_session [OF ok] show ?thesis
    by (simp add: keyboard_handle_def)
next
  case (KbLeave surface)
  with e leave_session [OF ok] show ?thesis
    by (simp add: keyboard_handle_def)
next
  case (KbKey serial key state)
  with e key_session [OF ok] show ?thesis
    by (auto simp: keyboard_handle_def)
next
  case (KbModifiers depressed latched locked layout)
  with e modifiers_session [OF ok, of depressed latched locked layout] show ?thesis
    by (simp add: keyboard_handle_def)
next
  case KbRelease
  with e release_session [OF ok] show ?thesis
    by (simp add: keyboard_handle_def)
next
  case (KbPeek serial time key state)
  with e peek_session [OF ok, of serial time key state h] show ?thesis
    by (auto simp: keyboard_handle_def split: prod.splits)
qed

lemma apply_session:
  assumes ok: "session_ok x w" and e: "keyboard_apply x ev w = Some w'"
  shows "session_ok x w'"
proof -
  obtain h c where w: "w = (h, c)"
    by (cases w)
  have ok': "session_ok x (h, c\<lparr>last_sender_id := fst ev\<rparr>)"
    using ok by (simp add: w session_ok_def keymaps_agree_def)
  from e w obtain a h' c' where "keyboard_handle x (snd ev) (h, c\<lparr>last_sender_id := fst ev\<rparr>) = Some (a, h', c')"
    "w' = (h', c')"
    by (auto simp: keyboard_apply_def)
  with handle_session [OF ok'] show ?thesis
    by blast
qed

interpretation keyboard_sessions: panicking_machine "keyboard_apply x" "session_ok x" for x
  by unfold_locales (rule apply_session)

section \<open>Properties\<close>

text \<open>C17: the keyboard sessions stay consistent under any sequence of keyboard events from any sender, with any
  payload, malformed keymaps included: the two maps of the extended keyboards are inverse to each
  other and every extended keyboard is a live host object; the keyboards focused on one seat agree
  on its surface; and the XKB state, the modifiers and the two key tables of a keyboard exist exactly
  while its keymap does, the tables being those of that keymap.
\<close>
theorem keyboard_sessions_consistent:
  assumes "keyboard_ok c"
    and run: "try_each (keyboard_apply x) es (keyboard_handler_new,
      c\<lparr>keyboard_keysym_to_keycode := Map.empty, keyboard_repeatable_keys := Map.empty\<rparr>) = Some (h', c')"
  shows "(keyboard_to_extended_keyboard c' kb = Some ext \<longleftrightarrow> extended_keyboard_to_keyboard c' ext = Some kb) \<and>
    (extended_keyboard_to_keyboard c' ext = Some kb \<longrightarrow>
       host_interfaces (shadow_table c') (host_raw ext) \<noteq> None) \<and>
    (surface_for_seat (kb_focus c') seat = Some surface \<longleftrightarrow>
       (\<exists>k f. focus_for_keyboard (kb_focus c') k = Some f \<and> kf_guest_seat f = seat \<and> kf_guest_surface f = surface)) \<and>
    (case kh_keymaps h' kb of
       None \<Rightarrow> kh_states h' kb = None \<and> kh_modifiers h' kb = None \<and>
         keyboard_keysym_to_keycode c' kb = None \<and> keyboard_repeatable_keys c' kb = None
     | Some keymap \<Rightarrow> kh_states h' kb \<noteq> None \<and>
         keyboard_keysym_to_keycode c' kb = Some (keysym_to_evdev_keycodes x keymap) \<and>
         keyboard_repeatable_keys c' kb = Some (repeatable_evdev_keycodes x keymap))"
proof -
  have "session_ok x (keyboard_handler_new,
      c\<lparr>keyboard_keysym_to_keycode := Map.empty, keyboard_repeatable_keys := Map.empty\<rparr>)"
    using assms(1) by (simp add: session_ok_def keymaps_agree_def keyboard_handler_new_def)
  from keyboard_sessions.run_inv [OF this run] have k: "keyboard_ok c'" and ag: "keymaps_agree x h' c'"
    by (simp_all add: session_ok_def)
  from k have ex: "extended_ok c'" and fo: "focus_ok (kb_focus c')"
    by (simp_all add: keyboard_ok_def)
  from ex have "keyboard_to_extended_keyboard c' kb = Some ext \<longleftrightarrow> extended_keyboard_to_keyboard c' ext = Some kb"
    "extended_keyboard_to_keyboard c' ext = Some kb \<longrightarrow> host_interfaces (shadow_table c') (host_raw ext) \<noteq> None"
    unfolding extended_ok_def by blast+
  moreover have "case kh_keymaps h' kb of
       None \<Rightarrow> kh_states h' kb = None \<and> kh_modifiers h' kb = None \<and>
         keyboard_keysym_to_keycode c' kb = None \<and> keyboard_repeatable_keys c' kb = None
     | Some keymap \<Rightarrow> kh_states h' kb \<noteq> None \<and>
         keyboard_keysym_to_keycode c' kb = Some (keysym_to_evdev_keycodes x keymap) \<and>
         keyboard_repeatable_keys c' kb = Some (repeatable_evdev_keycodes x keymap)"
    using ag [unfolded keymaps_agree_def, THEN spec, of kb] by (cases "kh_keymaps h' kb") auto
  ultimately show ?thesis
    using surface_for_seat_Some [OF fo] by (intro conjI)
qed

text \<open>C16: a keyboard \<open>enter\<close> either is dropped and changes nothing (a surface that is unknown or being
  destroyed, a keyboard without a seat, a repeated enter), or is forwarded; then the keyboard has the
  focus of the surface, exactly the keys of the array are pressed in the guest, its accelerator
  modifiers are cleared, it has an extended keyboard if the host offers one, and any other keyboard
  of the seat that was on another surface has lost its focus, its modifiers and its held keys.
\<close>
theorem enter_is_all_or_nothing:
  assumes ok: "keyboard_ok c" and e: "kb_on_enter x surface keys (h, c) = Some (a, h', c')"
  shows "(a = Drop \<and> h' = h \<and> c' = c) \<or>
    (\<exists>focus. a = Forward \<and> deliverable surface c = Some focus \<and>
       focus_for_keyboard (kb_focus c') (HostId (last_sender_id c)) = Some focus \<and>
       (\<forall>key. open_presses (key_generations c') (HostId (last_sender_id c)) key =
          (if key \<in> set (key_chunks keys) then 1 else 0)) \<and>
       kh_modifiers h' (HostId (last_sender_id c)) = None \<and>
       (host_keyboard_extension_id c \<noteq> None \<longrightarrow>
          keyboard_to_extended_keyboard c' (HostId (last_sender_id c)) \<noteq> None) \<and>
       (\<forall>kb old key. kb \<noteq> HostId (last_sender_id c) \<and> focus_for_keyboard (kb_focus c) kb = Some old \<and>
          kf_guest_seat old = kf_guest_seat focus \<and> kf_guest_surface old \<noteq> kf_guest_surface focus \<longrightarrow>
          focus_for_keyboard (kb_focus c') kb = None \<and> kh_modifiers h' kb = None \<and>
          open_presses (key_generations c') kb key = 0))"
  using e
proof (cases rule: enter_cases)
  case (accepted focus)
  note effect = enters_effect [OF ok accepted(3)]
  show ?thesis
    using accepted(1,2) effect by (intro disjI2 exI [of _ focus] conjI allI impI) auto
qed simp

text \<open>releasing a keyboard leaves nothing of it behind: no keymap, XKB state, modifiers or key tables, no
  focus, no key held in the guest and no extended keyboard, whose destruction is requested from the
  host once if there was one; the request is forwarded.\<close>
theorem release_forgets_keyboard:
  assumes ok: "keyboard_ok c" and kb: "host_id_of (shadow_table c) (GuestId (last_sender_id c)) = Some kb"
    and e: "kb_on_release (h, c) = Some (a, h', c')"
  shows "a = Forward \<and>
    kh_keymaps h' kb = None \<and> kh_states h' kb = None \<and> kh_modifiers h' kb = None \<and>
    keyboard_keysym_to_keycode c' kb = None \<and> keyboard_repeatable_keys c' kb = None \<and>
    focus_for_keyboard (kb_focus c') kb = None \<and> open_presses (key_generations c') kb key = 0 \<and>
    keyboard_to_extended_keyboard c' kb = None"
  using e
proof (cases rule: release_cases)
  case (known kb' u f d)
  with kb have [simp]: "kb' = kb"
    by simp
  let ?c = "c\<lparr>keyboard_to_seat := hm_remove (last_sender_id c) (keyboard_to_seat c)\<rparr>"
  have fo: "focus_ok f" and upd: "update_exact (kb_focus c) u f"
    using focus_release_exact [OF _ known(2)] ok by (simp_all add: keyboard_ok_def)
  have k1: "keyboard_ok (forgotten kb f ?c)"
    using ok by (intro forgotten_ok fo) simp_all
  note tables = destroy_extended_tables [OF known(4)]
  have kd: "keyboard_ok d"
    by (rule destroy_extended_ok [OF k1 known(4) [simplified]])
  have fr: "focus_frame d c'"
    by (rule focus_changes_ok(2) [OF kd known(5)])
  have "focus_for_keyboard f kb = None"
    using known(2) by (auto simp: focus_release_def Let_def remove_keyboard_def focus_for_keyboard_def
        drop_retired_enters_def split: option.splits)
  moreover have "open_presses (key_generations c') kb key = open_presses (key_generations d) kb key"
    using fr kd by (simp add: focus_frame_def keyboard_ok_def quiet_def)
  moreover have "a = Forward"
    using e by (auto simp: kb_on_release_def Let_def bind_eq_Some_conv split: option.splits prod.splits)
  ultimately show ?thesis
    using fr tables known(3) by (simp add: focus_frame_def forgotten_def clear_keyboard_view)
qed (use kb in simp)

section \<open>The key table of a keymap\<close>

text \<open>The key codes of a keymap that carry a symbol, in ascending order.\<close>

definition codes_of :: "('m, 's) xkb \<Rightarrow> 'm \<Rightarrow> u32 \<Rightarrow> u32 list" where
  "codes_of x keymap keysym =
     filter (\<lambda>keycode. keycode \<ge> 8 \<and> keysym \<in> set (keycode_syms x keymap keycode)) (keycode_range x keymap)"

lemma or_insert_fold:
  "fold (\<lambda>k. or_insert k v) ks m k = (case m k of Some w \<Rightarrow> Some w | None \<Rightarrow> if k \<in> set ks then Some v else None)"
  by (induction ks arbitrary: m) (auto simp: or_insert_def split: option.splits)

lemma table_fold:
  "fold (\<lambda>keycode keycodes.
         if keycode < 8 then keycodes
         else fold (\<lambda>keysym. or_insert keysym (keycode - 8)) (keycode_syms x keymap keycode) keycodes)
       codes m keysym =
     (case m keysym of Some v \<Rightarrow> Some v
      | None \<Rightarrow> map_option (\<lambda>code. code - 8)
          (List.find (\<lambda>keycode. keycode \<ge> 8 \<and> keysym \<in> set (keycode_syms x keymap keycode)) codes))"
  by (induction codes arbitrary: m) (auto simp: or_insert_fold not_le split: option.splits)

lemma find_filter: "List.find P xs = (case filter P xs of [] \<Rightarrow> None | y # _ \<Rightarrow> Some y)"
  by (induction xs) auto

lemma range_sorted: "sorted_wrt (<) (keycode_range x keymap)"
proof -
  have "sorted_wrt (\<lambda>a b. (of_nat a :: u32) < of_nat b) [unat lo ..< Suc (unat hi)]" for lo hi :: u32
    by (rule sorted_wrt_mono_rel [of _ "(<)"])
      (use unat_u32_less [of hi] in \<open>auto simp: word_of_nat_less_iff take_bit_nat_eq_self simp del: upt_Suc\<close>)
  then show ?thesis
    by (simp add: keycode_range_def sorted_wrt_map)
qed

lemma range_set: "set (keycode_range x keymap) = {xkb_min_keycode x keymap .. xkb_max_keycode x keymap}"
proof -
  have "code \<in> of_nat ` {unat lo ..< Suc (unat hi)} \<longleftrightarrow> lo \<le> code \<and> code \<le> hi" for code lo hi :: u32
  proof
    assume "lo \<le> code \<and> code \<le> hi"
    then have "unat code \<in> {unat lo ..< Suc (unat hi)}"
      by (simp add: word_le_nat_alt less_Suc_eq_le)
    then show "code \<in> of_nat ` {unat lo ..< Suc (unat hi)}"
      by (rule image_eqI [rotated]) simp
  next
    assume "code \<in> of_nat ` {unat lo ..< Suc (unat hi)}"
    then obtain n where "code = of_nat n" "unat lo \<le> n" "n \<le> unat hi"
      by auto
    then show "lo \<le> code \<and> code \<le> hi"
      using unat_u32_less [of hi] by (simp add: word_le_nat_alt unat_of_nat)
  qed
  then show ?thesis
    by (intro set_eqI) (simp only: keycode_range_def set_map set_upt atLeastAtMost_iff)
qed

text \<open>the key table of a loaded keymap sends a symbol to the lowest key that carries it: to the evdev code
  of the smallest XKB key code, not below 8, in the range of the keymap on which the symbol is at
  any level of any layout; a symbol that no such key carries has no entry.\<close>
theorem keysym_table_lowest_key:
  "case keysym_to_evdev_keycodes x keymap keysym of
     None \<Rightarrow> \<forall>code. \<not> (8 \<le> code \<and> xkb_min_keycode x keymap \<le> code \<and> code \<le> xkb_max_keycode x keymap \<and>
       keysym \<in> set (keycode_syms x keymap code))
   | Some evdev \<Rightarrow> 8 \<le> evdev + 8 \<and> xkb_min_keycode x keymap \<le> evdev + 8 \<and> evdev + 8 \<le> xkb_max_keycode x keymap \<and>
       keysym \<in> set (keycode_syms x keymap (evdev + 8)) \<and>
       (\<forall>code < evdev + 8. \<not> (8 \<le> code \<and> xkb_min_keycode x keymap \<le> code \<and> code \<le> xkb_max_keycode x keymap \<and>
          keysym \<in> set (keycode_syms x keymap code)))"
proof -
  have t: "keysym_to_evdev_keycodes x keymap keysym =
      (case codes_of x keymap keysym of [] \<Rightarrow> None | code # _ \<Rightarrow> Some (code - 8))"
    by (simp add: keysym_to_evdev_keycodes_def table_fold find_filter codes_of_def split: list.split)
  have mem: "code \<in> set (codes_of x keymap keysym) \<longleftrightarrow> 8 \<le> code \<and> xkb_min_keycode x keymap \<le> code \<and>
      code \<le> xkb_max_keycode x keymap \<and> keysym \<in> set (keycode_syms x keymap code)" for code
    by (auto simp: codes_of_def range_set)
  have "sorted_wrt (<) (codes_of x keymap keysym)"
    unfolding codes_of_def by (rule sorted_wrt_filter [OF range_sorted])
  then show ?thesis
  proof (cases "codes_of x keymap keysym")
    case (Cons code codes)
    with \<open>sorted_wrt (<) (codes_of x keymap keysym)\<close> have "\<forall>c < code. c \<notin> set (codes_of x keymap keysym)"
      by auto
    moreover from Cons have "code \<in> set (codes_of x keymap keysym)"
      by simp
    ultimately show ?thesis
      unfolding t mem by (simp add: Cons)
  qed (use mem in \<open>simp add: t\<close>)
qed

section \<open>A concrete session\<close>

lemma keyboard_ok_empty:
  assumes "text_inputs c = []" and "text_input_activation_barriers c = Map.empty"
    and "keyboard_to_extended_keyboard c = Map.empty" and "extended_keyboard_to_keyboard c = Map.empty"
    and "kb_focus c = focus_registry_default" and "key_generations c = key_registry_default"
  shows "keyboard_ok c"
  using assms registry_ok_default focus_ok_default
  by (simp add: keyboard_ok_def bridge_ok_def barriers_ok_def extensions_ok_def seats_exclusive_def
      active_enabled_def extended_ok_def)

text \<open>A keyboard on seat 3 and a surface, both with host objects.\<close>

definition sample_session :: ctx where
  "sample_session = context_empty\<lparr>shadow_table := map_id 7 21 (map_id 6 20 shadow_table_new),
     keyboard_to_seat := [(6, 3)], last_sender_id := 20\<rparr>"

lemma sample_session_ok: "keyboard_ok sample_session" "keyboard_ok (sample_session\<lparr>last_sender_id := i\<rparr>)"
  by (rule keyboard_ok_empty; simp add: sample_session_def context_new_def)+

lemma sample_session_table:
  "get_guest_id (shadow_table sample_session) 21 = Some 7"
  "guest_id_of (shadow_table sample_session) (HostId 20) = Some (GuestId 6)"
  "host_id_of (shadow_table sample_session) (GuestId 6) = Some (HostId 20)"
  "\<not> is_pending_destroy_host (shadow_table sample_session) 21"
  by (simp_all add: sample_session_def context_new_def map_id_def shadow_table_new_def get_guest_id_def
      guest_id_of_def host_id_of_def is_pending_destroy_host_def is_pending_destroy_guest_def get_host_id_def)

lemma sample_compile: "xkb_compile sample_xkb text = Some ()"
  by (simp add: sample_xkb_def)

theorem keyboard_sessions_consistent_witness:
  "\<exists>h' c'. try_each (keyboard_apply sample_xkb)
       [(20, KbKeymap (Some (4, 0x8000)) (Some [0x61, 0x62, 0x63, 0]) 1 3 4), (20, KbModifiers 0 0 0 0)]
       (keyboard_handler_new, context_empty) = Some (h', c') \<and> kh_keymaps h' (HostId 20) = Some () \<and>
     keyboard_keysym_to_keycode c' (HostId 20) = Some (keysym_to_evdev_keycodes sample_xkb ())"
proof -
  let ?es = "[(20, KbKeymap (Some (4, 0x8000)) (Some [0x61, 0x62, 0x63, 0]) 1 3 4), (20, KbModifiers 0 0 0 0)]"
  have start: "context_empty\<lparr>keyboard_keysym_to_keycode := Map.empty, keyboard_repeatable_keys := Map.empty\<rparr> = context_empty"
    by (simp add: context_new_def)
  have ok: "keyboard_ok context_empty"
    by (rule keyboard_ok_empty) (simp_all add: context_new_def)
  obtain h' c' where run: "try_each (keyboard_apply sample_xkb) ?es (keyboard_handler_new, context_empty) = Some (h', c')"
    "kh_keymaps h' (HostId 20) = Some ()"
    by (simp add: keyboard_apply_def keyboard_handle_def kb_on_keymap_def kb_on_modifiers_def
        WL_KEYMAP_FORMAT_NO_KEYMAP_def WL_KEYMAP_FORMAT_XKB_V1_def mmap_view_from_fd_def S_IFREG_def
        sample_compile install_keymap_def clear_host_keyboard_keymap_def Let_def)
  from keyboard_sessions_consistent [OF ok, unfolded start, OF run(1), where kb = "HostId 20"] run show ?thesis
    by auto
qed

theorem enter_is_all_or_nothing_witness:
  "\<exists>h' c'. kb_on_enter sample_xkb 21 [30, 0, 0, 0] (sample_handler, sample_session) = Some (Forward, h', c') \<and>
     focus_for_keyboard (kb_focus c') (HostId 20) =
       Some \<lparr>kf_guest_seat = 3, kf_guest_surface = 7, kf_host_surface = 21\<rparr> \<and>
     open_presses (key_generations c') (HostId 20) 30 = 1"
proof -
  have parts: "last_sender_id sample_session = 20" "map_of (keyboard_to_seat sample_session) 6 = Some 3" "hm_get (keyboard_to_seat sample_session) 6 = Some 3"
    "kb_focus sample_session = focus_registry_default" "host_keyboard_extension_id sample_session = None"
    "text_inputs sample_session = []"
    by (simp_all add: sample_session_def context_new_def hm_get_def)
  have "\<exists>h' c'. kb_on_enter sample_xkb 21 [30, 0, 0, 0] (sample_handler, sample_session) = Some (Forward, h', c')"
    by (simp add: kb_on_enter_def Let_def parts sample_session_table ensure_extended_keyboard_bound_def
        focus_for_keyboard_def focus_registry_default_def focus_enter_def hm_get_def drop_retired_enters_def
        surface_for_seat_def seat_change_of_def hm_insert_def retire_all_def map_retain_def List.map_filter_def
        apply_keyboard_focus_changes_def apply_keyboard_focus_change_def end_backspace_repeat_for_seat_def
        apply_text_input_focus_updates_def initialize_host_keyboard_enter_state_def
        split: prod.split)
  then obtain h' c' where e: "kb_on_enter sample_xkb 21 [30, 0, 0, 0] (sample_handler, sample_session) =
      Some (Forward, h', c')"
    by blast
  have chunk: "u32_from_ne_bytes [30, 0, 0, 0] = 30"
    by (simp add: u32_from_ne_bytes_def)
  have "deliverable 21 sample_session = Some \<lparr>kf_guest_seat = 3, kf_guest_surface = 7, kf_host_surface = 21\<rparr>"
    by (simp add: deliverable_def sample_session_table parts)
  with enter_is_all_or_nothing [OF sample_session_ok(1) e] e show ?thesis
    by (simp add: parts(1) chunk)
qed

theorem release_forgets_keyboard_witness:
  "\<exists>h' c'. kb_on_release (sample_handler, sample_session\<lparr>last_sender_id := 6\<rparr>) = Some (Forward, h', c') \<and>
     kh_states h' (HostId 20) = None \<and> open_presses (key_generations c') (HostId 20) 30 = 0"
proof -
  let ?c = "sample_session\<lparr>last_sender_id := 6\<rparr>"
  have kb: "host_id_of (shadow_table ?c) (GuestId (last_sender_id ?c)) = Some (HostId 20)"
    by (simp add: sample_session_table)
  have parts: "kb_focus sample_session = focus_registry_default"
    "keyboard_to_extended_keyboard sample_session = Map.empty"
    by (simp_all add: sample_session_def context_new_def)
  have "kb_on_release (sample_handler, ?c) \<noteq> None"
    by (simp add: kb_on_release_def Let_def sample_session_table parts focus_release_def drop_retired_enters_def
        focus_registry_default_def focus_for_keyboard_def hm_get_def destroy_extended_eq focus_update_default_def
        clear_host_keyboard_keymap_and_state_def clear_host_keyboard_keymap_def clear_host_keyboard_state_def)
  then obtain a h' c' where e: "kb_on_release (sample_handler, ?c) = Some (a, h', c')"
    by auto
  from release_forgets_keyboard [OF sample_session_ok(2) kb e, of 30] e show ?thesis
    by simp
qed

end
