(* ===== verification/Binary64.thy ===== *)
theory Binary64
  imports Complex_Main "HOL-Library.Log_Nat"
begin

text \<open>
  The \<open>f64\<close> arithmetic of Rust on the values the proxy computes with: a double is the rational
  it denotes, and every operation rounds the exact result to 53 significant bits, ties to even
  (IEEE 754 binary64).  Every operand in the program is a finite number of magnitude between
  \<open>2 ^ -100\<close> and \<open>2 ^ 100\<close> or zero, so neither the exponent range nor NaN, infinities or
  signed zeros can be observed and they are left out.
\<close>

section \<open>Rounding\<close>

text \<open>The exponent of a positive rational: the largest power of two that does not exceed it.\<close>

definition exponent :: "rat \<Rightarrow> int" where
  "exponent x =
     (case quotient_of x of (p, q) \<Rightarrow>
        let k = bitlen p - bitlen q in if 2 powi k \<le> x then k else k - 1)"

definition round_half_even :: "rat \<Rightarrow> int" where
  "round_half_even y =
     (let f = \<lfloor>y\<rfloor>; d = y - of_int f
      in if d < 1 / 2 then f else if d > 1 / 2 then f + 1 else if even f then f else f + 1)"

definition round64 :: "rat \<Rightarrow> rat" where
  "round64 x =
     (if x = 0 then 0
      else let ulp = 2 powi (exponent \<bar>x\<bar> - 52) in of_int (round_half_even (x / ulp)) * ulp)"

definition f64_div :: "rat \<Rightarrow> rat \<Rightarrow> rat" where "f64_div x y = round64 (x / y)"
definition f64_mul :: "rat \<Rightarrow> rat \<Rightarrow> rat" where "f64_mul x y = round64 (x * y)"
definition f64_sub :: "rat \<Rightarrow> rat \<Rightarrow> rat" where "f64_sub x y = round64 (x - y)"

text \<open>\<open>trunc\<close> rounds towards zero; \<open>ceil\<close> is \<open>\<lceil>x\<rceil>\<close>.  Both are exact.\<close>

definition f64_trunc :: "rat \<Rightarrow> int" where
  "f64_trunc x = (if 0 \<le> x then \<lfloor>x\<rfloor> else \<lceil>x\<rceil>)"

section \<open>The contract\<close>

text \<open>What the error analysis needs of a rounding function.\<close>

locale rounding =
  fixes rnd :: "rat \<Rightarrow> rat"
  assumes error: "\<bar>rnd x - x\<bar> \<le> \<bar>x\<bar> / 2 ^ 53"
    and exact: "\<bar>k\<bar> < 2 ^ 53 \<Longrightarrow> rnd (of_int k) = of_int k"

lemma exponent_bounds:
  assumes "0 < x"
  shows "2 powi (exponent x) \<le> x" "x < 2 powi (exponent x + 1)"
proof -
  obtain p q where pq: "quotient_of x = (p, q)"
    by fastforce
  have x: "x = of_int p / of_int q" and q: "0 < q"
    using quotient_of_div [OF pq] quotient_of_denom_pos [OF pq] by simp_all
  then have p: "0 < p"
    using assms by (simp add: zero_less_divide_iff)
  define a where "a = nat (bitlen p - 1)"
  define b where "b = nat (bitlen q - 1)"
  have la: "bitlen p = int a + 1" and lb: "bitlen q = int b + 1"
    using p q by (simp_all add: a_def b_def bitlen_alt_def)
  have pb: "2 ^ a \<le> p" "p < 2 ^ (a + 1)" and qb: "2 ^ b \<le> q" "q < 2 ^ (b + 1)"
    using bitlen_bounds [OF p] bitlen_bounds [OF q] by (simp_all add: la lb nat_add_distrib)
  have pr: "(2::rat) ^ a \<le> of_int p" "of_int p < (2::rat) ^ (a + 1)"
    and qr: "(2::rat) ^ b \<le> of_int q" "of_int q < (2::rat) ^ (b + 1)"
    using pb qb by (metis of_int_le_iff of_int_less_iff of_int_numeral of_int_power)+
  have k: "bitlen p - bitlen q = int a - int b"
    by (simp add: la lb)
  have pw: "(2::rat) powi (int a - int b) = 2 ^ a / 2 ^ b"
    by (simp add: power_int_diff)
  have "x < 2 ^ (a + 1) / 2 ^ b"
    unfolding x by (rule frac_less) (use pr qr p in simp_all)
  then have up: "x < 2 powi (int a - int b + 1)"
    by (simp add: power_int_add pw mult.commute)
  have "2 ^ a / 2 ^ (b + 1) \<le> x"
    unfolding x by (rule frac_le) (use pr qr p q in simp_all)
  then have low: "2 powi (int a - int b - 1) \<le> x"
    by (simp add: power_int_diff pw)
  show "2 powi (exponent x) \<le> x" "x < 2 powi (exponent x + 1)"
    using up low by (simp_all add: exponent_def pq k not_le Let_def)
qed

lemma round_half_even_error: "\<bar>of_int (round_half_even y) - y\<bar> \<le> 1 / 2"
proof -
  have "of_int \<lfloor>y\<rfloor> \<le> y" "y < of_int \<lfloor>y\<rfloor> + 1"
    by linarith+
  then show ?thesis
    by (auto simp: round_half_even_def Let_def)
qed

lemma round_half_even_int [simp]: "round_half_even (of_int k) = k"
  by (simp add: round_half_even_def Let_def)

lemma round64_error: "\<bar>round64 x - x\<bar> \<le> \<bar>x\<bar> / 2 ^ 53"
proof (cases "x = 0")
  case False
  define ulp :: rat where "ulp = 2 powi (exponent \<bar>x\<bar> - 52)"
  have pos: "0 < ulp"
    by (simp add: ulp_def)
  have half: "ulp / 2 \<le> \<bar>x\<bar> / 2 ^ 53"
    using exponent_bounds(1) [of "\<bar>x\<bar>"] False by (simp add: ulp_def power_int_diff)
  have "round64 x - x = (of_int (round_half_even (x / ulp)) - x / ulp) * ulp"
    using False pos by (simp add: round64_def ulp_def [symmetric] Let_def left_diff_distrib)
  then have "\<bar>round64 x - x\<bar> = \<bar>of_int (round_half_even (x / ulp)) - x / ulp\<bar> * ulp"
    using pos by (simp add: abs_mult)
  also have "\<dots> \<le> 1 / 2 * ulp"
    by (rule mult_right_mono) (use round_half_even_error pos in auto)
  finally show ?thesis
    using half by simp
qed (simp add: round64_def)

lemma round64_exact:
  assumes "\<bar>k\<bar> < 2 ^ 53"
  shows "round64 (of_int k) = of_int k"
proof (cases "k = 0")
  case False
  define e where "e = exponent \<bar>of_int k :: rat\<bar>"
  have b: "2 powi e \<le> \<bar>of_int k :: rat\<bar>"
    using exponent_bounds(1) [of "\<bar>of_int k :: rat\<bar>"] False by (simp add: e_def)
  have "\<bar>of_int k :: rat\<bar> < 2 ^ 53"
    using assms by (metis of_int_abs of_int_less_iff of_int_numeral of_int_power)
  with b have "(2::rat) powi e < 2 powi 53"
    by simp
  then have le: "e \<le> 52"
    using power_int_increasing [of 53 e "2::rat"] by (force simp: not_less [symmetric])
  define n where "n = nat (52 - e)"
  have e: "e - 52 = - int n"
    using le by (simp add: n_def)
  have "(of_int k :: rat) / 2 powi (e - 52) = of_int (k * 2 ^ n)"
    by (simp add: e power_int_minus divide_inverse)
  moreover have "(of_int (k * 2 ^ n) :: rat) * 2 powi (e - 52) = of_int k"
    by (simp add: e power_int_minus)
  ultimately show ?thesis
    using False by (simp only: round64_def e_def [symmetric] Let_def round_half_even_int) simp
qed (simp add: round64_def)

section \<open>Error analysis\<close>

text \<open>The relative error of \<open>n\<close> roundings, and \<open>x\<close> being \<open>y\<close> up to it.\<close>

definition ulps :: "nat \<Rightarrow> rat" where
  "ulps n = of_nat n / 2 ^ 53"

definition close :: "nat \<Rightarrow> rat \<Rightarrow> rat \<Rightarrow> bool" where
  "close n x y \<longleftrightarrow> 0 < y \<and> x \<le> y * (1 + ulps n) \<and> y * (1 - ulps n) \<le> x"

lemma ulps_nonneg [simp]: "0 \<le> ulps n"
  by (simp add: ulps_def)

lemma ulps_add: "ulps (n + m) = ulps n + ulps m"
  by (simp add: ulps_def add_divide_distrib)

lemma ulps_mono: "n \<le> m \<Longrightarrow> ulps n \<le> ulps m"
  by (simp add: ulps_def divide_right_mono)

lemma ulps_small: "n < 100 \<Longrightarrow> ulps n \<le> 1 / 2 ^ 46"
  by (simp add: ulps_def)

lemma ulps_quarter: "n < 100 \<Longrightarrow> ulps n \<le> 1 / 4"
  using ulps_small [of n] by simp

lemma ulps_prod:
  assumes "n < 100" "m < 100"
  shows "ulps n * ulps m \<le> ulps 1"
proof -
  have "ulps n * ulps m \<le> 1 / 2 ^ 46 * (1 / 2 ^ 46)"
    using ulps_small [OF assms(1)] ulps_small [OF assms(2)] by (intro mult_mono) simp_all
  then show ?thesis
    by (simp add: ulps_def)
qed

lemma close_refl: "0 < y \<Longrightarrow> close 0 y y"
  by (simp add: close_def ulps_def)

lemma close_mono:
  assumes "close n x y" "n \<le> m"
  shows "close m x y"
proof -
  have "y * (1 + ulps n) \<le> y * (1 + ulps m)" "y * (1 - ulps m) \<le> y * (1 - ulps n)"
    using assms ulps_mono [OF assms(2)] by (auto simp: close_def intro!: mult_left_mono)
  with assms(1) show ?thesis
    unfolding close_def by linarith
qed

lemma close_pos:
  assumes "close n x y" "n < 100"
  shows "0 < x"
proof -
  have "0 < y * (1 - ulps n)"
    using assms ulps_quarter [OF assms(2)] by (intro mult_pos_pos) (simp_all add: close_def)
  then show ?thesis
    using assms(1) by (simp add: close_def)
qed

lemma close_mult:
  assumes "close n x y" "close m a b" "n < 100" "m < 100"
  shows "close (n + m + 1) (x * a) (y * b)"
proof -
  note pos = close_pos [OF assms(1,3)] close_pos [OF assms(2,4)]
  have yb: "0 < y * b" "0 < y" "0 < b"
    using assms by (simp_all add: close_def)
  have small: "ulps n * ulps m \<le> ulps 1" "0 \<le> ulps n * ulps m"
    using ulps_prod [OF assms(3,4)] by simp_all
  have "x * a \<le> (y * (1 + ulps n)) * (b * (1 + ulps m))"
    using assms yb pos by (intro mult_mono) (simp_all add: close_def)
  also have "\<dots> = (y * b) * (1 + ulps n + ulps m + ulps n * ulps m)"
    by (simp add: algebra_simps)
  also have "\<dots> \<le> (y * b) * (1 + ulps (n + m + 1))"
    using small yb unfolding ulps_add by (intro mult_left_mono) linarith+
  finally have up: "x * a \<le> (y * b) * (1 + ulps (n + m + 1))" .
  have "(y * b) * (1 - ulps (n + m + 1)) \<le> (y * b) * (1 - ulps n - ulps m + ulps n * ulps m)"
    using small yb ulps_nonneg [of 1] unfolding ulps_add by (intro mult_left_mono) linarith+
  also have "\<dots> = (y * (1 - ulps n)) * (b * (1 - ulps m))"
    by (simp add: algebra_simps)
  also have "\<dots> \<le> x * a"
    using assms yb pos ulps_quarter [OF assms(4)] by (intro mult_mono) (simp_all add: close_def)
  finally show ?thesis
    using up yb by (simp add: close_def)
qed

lemma close_inverse:
  assumes "close n x y" "n < 50"
  shows "close (2 * n) (1 / x) (1 / y)"
proof -
  define e where "e = ulps n"
  have e: "0 \<le> e" "e \<le> 1 / 4"
    using ulps_quarter [of n] assms(2) by (simp_all add: e_def)
  have double: "ulps (2 * n) = 2 * e"
    by (simp add: e_def ulps_def)
  have pos: "0 < x" "0 < y" and c: "x \<le> y * (1 + e)" "y * (1 - e) \<le> x"
    using close_pos [OF assms(1)] assms by (simp_all add: close_def e_def)
  have ee: "0 \<le> e * e" "e * e \<le> e * (1 / 4)"
    using e by (simp, intro mult_left_mono)
  have "(1 - e) * (1 + 2 * e) = 1 + e - 2 * (e * e)"
    by (simp add: algebra_simps)
  then have "1 \<le> (1 - e) * (1 + 2 * e)"
    using e ee by linarith
  then have "y * 1 \<le> y * ((1 - e) * (1 + 2 * e))"
    using pos by (intro mult_left_mono) simp_all
  also have "\<dots> = y * (1 - e) * (1 + 2 * e)"
    by (simp add: mult.assoc)
  also have "\<dots> \<le> x * (1 + 2 * e)"
    using c e by (intro mult_right_mono) simp_all
  finally have up: "y \<le> x * (1 + 2 * e)"
    by simp
  have "x * (1 - 2 * e) \<le> y * (1 + e) * (1 - 2 * e)"
    using c(1) e(2) by (intro mult_right_mono) simp_all
  also have "\<dots> = y * (1 - e - 2 * (e * e))"
    by (simp add: algebra_simps)
  also have "\<dots> \<le> y * 1"
    using pos e ee by (intro mult_left_mono) linarith+
  finally have down: "x * (1 - 2 * e) \<le> y"
    by simp
  show ?thesis
    unfolding close_def double
    using pos up down by (simp add: pos_le_divide_eq pos_divide_le_eq mult.commute)
qed

context rounding
begin

lemma close_one:
  assumes "0 < x"
  shows "close 1 (rnd x) x"
proof -
  have "rnd x - x \<le> x / 2 ^ 53" "x - rnd x \<le> x / 2 ^ 53"
    using error [of x] assms by (simp_all only: abs_le_iff abs_of_pos) simp_all
  then show ?thesis
    using assms by (simp only: close_def ulps_def) (simp add: algebra_simps)
qed

lemma close_round:
  assumes "close n x y" "n < 50"
  shows "close (n + 2) (rnd x) y"
proof -
  have x: "0 < x"
    using assms close_pos by simp
  then have "close 1 (rnd x / x) 1"
    using close_one [OF x] by (simp add: close_def pos_le_divide_eq pos_divide_le_eq mult.commute)
  from close_mult [OF assms(1) this] show ?thesis
    using x assms(2) by (simp add: numeral_2_eq_2)
qed

lemma round_quotient:
  assumes "close n s S" "n < 16" "0 < N"
  shows "close 40 (rnd (N / s)) (N / S)"
proof -
  have "close (2 * n) (1 / s) (1 / S)"
    using assms by (intro close_inverse) simp_all
  from close_mult [OF close_refl [OF assms(3)] this] have "close (2 * n + 1) (N / s) (N / S)"
    using assms(2) by simp
  from close_round [OF this] have "close (2 * n + 1 + 2) (rnd (N / s)) (N / S)"
    using assms(2) by simp
  then show ?thesis
    by (rule close_mono) (use assms(2) in simp)
qed

lemma rnd_nonpos:
  assumes "x \<le> 0"
  shows "rnd x \<le> 0"
proof -
  have "rnd x - x \<le> - x / 2 ^ 53" "x + - x / 2 ^ 53 \<le> 0"
    using error [of x] assms by (simp_all add: abs_le_iff abs_of_nonpos)
  then show ?thesis
    by linarith
qed

text \<open>
  The left edge: a position whose image lies beyond \<open>N\<close> by at least the step of 24.8
  fixed-point numbers stays to the right of the truncated quotient.
\<close>

lemma left_edge:
  assumes "close n s S" "n < 16" "0 \<le> u" "of_int N + 1 / 256 \<le> u * S" "N \<le> 2 ^ 30"
  shows "of_int (f64_trunc (min (rnd (of_int N / s)) z)) \<le> u"
proof (cases "min (rnd (of_int N / s)) z \<le> 0")
  case True
  then have "of_int (f64_trunc (min (rnd (of_int N / s)) z)) \<le> (0::rat)"
    by (auto simp: f64_trunc_def ceiling_le_iff)
  with assms(3) show ?thesis
    by linarith
next
  case False
  have S: "0 < S" "0 < s"
    using close_pos [OF assms(1)] assms(1,2) by (simp_all add: close_def)
  have "0 < N"
  proof (rule ccontr)
    assume "\<not> 0 < N"
    then have "of_int N / s \<le> 0"
      using S by (simp add: divide_le_0_iff)
    then have "rnd (of_int N / s) \<le> 0"
      by (rule rnd_nonpos)
    with False show False
      by (simp add: min_def split: if_splits)
  qed
  then have "rnd (of_int N / s) \<le> of_int N / S * (1 + ulps 40)"
    using round_quotient [OF assms(1,2), of "of_int N"] by (simp add: close_def)
  also have "\<dots> = of_int N * (1 + ulps 40) / S"
    by simp
  also have "\<dots> \<le> (of_int N + 1 / 256) / S"
  proof -
    have "of_int N \<le> (2 ^ 30 :: rat)"
      using assms(5) by (metis of_int_le_iff of_int_numeral of_int_power)
    then have "of_int N * (1 + ulps 40) \<le> of_int N + 1 / 256"
      by (simp add: ulps_def algebra_simps)
    then show ?thesis
      using S by (intro divide_right_mono) simp_all
  qed
  also have "\<dots> \<le> u"
    using assms(4) S by (simp add: pos_divide_le_eq)
  finally have "min (rnd (of_int N / s)) z \<le> u"
    by (simp add: min.coboundedI1)
  moreover have "of_int \<lfloor>min (rnd (of_int N / s)) z\<rfloor> \<le> min (rnd (of_int N / s)) z"
    by (rule of_int_floor_le)
  ultimately have "of_int \<lfloor>min (rnd (of_int N / s)) z\<rfloor> \<le> u"
    by (rule order_trans [rotated])
  moreover have "f64_trunc q = \<lfloor>q\<rfloor>" if "\<not> q \<le> 0" for q
    using that by (simp add: f64_trunc_def)
  ultimately show ?thesis
    using False by metis
qed

text \<open>The right edge: one unit of the numerator is more than all rounding errors together.\<close>

lemma right_edge:
  assumes "close n s S" "n < 16" "0 \<le> u" "u * S \<le> of_int M - 1" "M \<le> 2 ^ 30"
  shows "u < of_int \<lceil>max (rnd (of_int M / s)) z\<rceil>"
proof -
  have S: "0 < S"
    using assms(1) by (simp add: close_def)
  with assms(3,4) have "1 \<le> (of_int M :: rat)"
    using mult_nonneg_nonneg [of u S] by linarith
  then have M: "0 < M"
    by simp
  have "of_int M \<le> (2 ^ 30 :: rat)"
    using assms(5) by (metis of_int_le_iff of_int_numeral of_int_power)
  then have "of_int M - 1 < of_int M * (1 - ulps 40)"
    by (simp add: ulps_def algebra_simps)
  then have "u * S < of_int M * (1 - ulps 40)"
    using assms(4) by linarith
  then have "u < of_int M / S * (1 - ulps 40)"
    using S by (simp add: pos_less_divide_eq)
  also have "\<dots> \<le> rnd (of_int M / s)"
    using round_quotient [OF assms(1,2), of "of_int M"] M by (simp add: close_def)
  also have "\<dots> \<le> max (rnd (of_int M / s)) z"
    by simp
  also have "\<dots> \<le> of_int \<lceil>max (rnd (of_int M / s)) z\<rceil>"
    by (rule le_of_int_ceiling)
  finally show ?thesis .
qed

text \<open>Rounding does not change the ceiling of a quotient of small integers.\<close>

lemma ceiling_quotient:
  assumes "0 < k" "0 < d" "k < 2 ^ 40"
  shows "\<lceil>rnd (of_int k / of_int d)\<rceil> = \<lceil>of_int k / of_int d :: rat\<rceil>"
proof -
  let ?x = "of_int k / of_int d :: rat"
  define c where "c = \<lceil>?x\<rceil>"
  have "of_int (c - 1) < ?x" "?x \<le> of_int c"
    unfolding c_def by linarith+
  then have "of_int ((c - 1) * d) < (of_int k :: rat)" "of_int k \<le> (of_int (c * d) :: rat)"
    using assms(2) by (simp_all add: pos_less_divide_eq pos_divide_le_eq)
  then have c: "(c - 1) * d < k" "k \<le> c * d"
    by (simp_all only: of_int_less_iff of_int_le_iff)
  have "\<lceil>rnd ?x\<rceil> = c"
  proof (cases "k = c * d")
    case True
    then have "?x = of_int c"
      using assms(2) by simp
    moreover have "0 < c"
      using True assms(1,2) by (simp add: zero_less_mult_iff)
    moreover have "c \<le> k"
      using \<open>0 < c\<close> assms(2) mult_left_mono [of 1 d c] by (simp add: True)
    ultimately have "rnd (of_int c) = of_int c"
      using assms(3) by (intro exact) simp
    then show ?thesis
      using \<open>?x = of_int c\<close> by simp
  next
    case False
    then have "of_int ((c - 1) * d) \<le> (of_int (k - 1) :: rat)" "of_int (k + 1) \<le> (of_int (c * d) :: rat)"
      using c by (simp_all only: of_int_le_iff)
    then have near: "of_int (c - 1) \<le> (of_int k - 1) / (of_int d :: rat)" "(of_int k + 1) / of_int d \<le> (of_int c :: rat)"
      using assms(2) by (simp_all add: pos_le_divide_eq pos_divide_le_eq)
    have "of_int k < (2 ^ 40 :: rat)"
      using assms(3) by (metis of_int_less_iff of_int_numeral of_int_power)
    then have "?x / 2 ^ 53 < 1 / of_int d"
      using assms(2) by (simp add: field_simps)
    moreover have "\<bar>rnd ?x - ?x\<bar> \<le> ?x / 2 ^ 53"
      using error [of ?x] assms(1,2) by simp
    ultimately have "rnd ?x < (of_int k + 1) / of_int d" "(of_int k - 1) / of_int d < rnd ?x"
      by (simp_all add: add_divide_distrib diff_divide_distrib abs_le_iff)
    with near have "of_int (c - 1) < rnd ?x" "rnd ?x \<le> of_int c"
      by linarith+
    then show ?thesis
      by (simp add: ceiling_eq_iff)
  qed
  then show ?thesis
    by (simp add: c_def)
qed

end

interpretation f64: rounding round64
  by unfold_locales (simp_all only: round64_error round64_exact)

end
