(* ===== verification/Surface_Damage.thy ===== *)
theory Surface_Damage
  imports Binary64 Shm_Copy "HOL-Library.Signed_Division"
begin

text \<open>
  The translation of damage in \<^verbatim>\<open>sommelier/src/handler/compositor.rs\<close>: a client describes what
  changed in surface or in buffer coordinates, and the host is told in surface coordinates,
  through the buffer scale and the viewport, with \<open>f64\<close> arithmetic.
\<close>

section \<open>Definitions\<close>

definition DAMAGE_MIN :: int where "DAMAGE_MIN = - 214748364"
definition DAMAGE_MAX :: int where "DAMAGE_MAX = 214748364"

abbreviation damage_rect_new :: "i32 \<Rightarrow> i32 \<Rightarrow> i32 \<Rightarrow> i32 \<Rightarrow> damage_rect" where
  "damage_rect_new x y w h \<equiv> \<lparr>dr_x = x, dr_y = y, dr_width = w, dr_height = h\<rparr>"

definition i64_saturating :: "int \<Rightarrow> int" where
  "i64_saturating v = max (- (2 ^ 63)) (min v (2 ^ 63 - 1))"

definition clamp_damage_edge :: "int \<Rightarrow> int" where
  "clamp_damage_edge v = (if v < DAMAGE_MIN then DAMAGE_MIN else if v > DAMAGE_MAX then DAMAGE_MAX else v)"

text \<open>\<open>as i32\<close> on a double rounds towards zero and saturates.\<close>

definition f64_as_i32 :: "rat \<Rightarrow> i32" where
  "f64_as_i32 v = max (- (2 ^ 31)) (min (f64_trunc v) (2 ^ 31 - 1))"

definition saturating_i32 :: "rat \<Rightarrow> i32" where
  "saturating_i32 v =
     (if v \<le> - (2 ^ 31) then - (2 ^ 31) else if v \<ge> 2 ^ 31 - 1 then 2 ^ 31 - 1 else f64_as_i32 v)"

definition transformed_extent :: "i32 \<Rightarrow> i32 \<Rightarrow> i32 \<Rightarrow> i32 \<times> i32" where
  "transformed_extent transform width height =
     (if transform \<in> {1, 3, 5, 7} then (height, width) else (width, height))"

definition logical_transformed_extent :: "i32 \<Rightarrow> i32 \<Rightarrow> i32 \<Rightarrow> i32 \<Rightarrow> i32 \<times> i32" where
  "logical_transformed_extent transform width height buffer_scale =
     (let (width, height) = transformed_extent transform width height;
          scale = of_int (max buffer_scale 1)
      in (f64_as_i32 (of_int (max \<lceil>f64_div (of_int width) scale\<rceil> 1)),
          f64_as_i32 (of_int (max \<lceil>f64_div (of_int height) scale\<rceil> 1))))"

definition map_surface_damage :: "damage_rect \<Rightarrow> damage_rect" where
  "map_surface_damage rect =
     (if dr_width rect \<le> 0 \<or> dr_height rect \<le> 0 then damage_rect_new 0 0 0 0
      else
        let left = clamp_damage_edge (i64_saturating (dr_x rect - 1));
            top = clamp_damage_edge (i64_saturating (dr_y rect - 1));
            right = clamp_damage_edge
              (i64_saturating (i64_saturating (dr_x rect + dr_width rect) + 1));
            bottom = clamp_damage_edge
              (i64_saturating (i64_saturating (dr_y rect + dr_height rect) + 1))
        in damage_rect_new (i64_as_i32 left) (i64_as_i32 top)
             (i64_as_i32 (max (right - left) 1)) (i64_as_i32 (max (bottom - top) 1)))"

text \<open>A viewport that changes something.\<close>

definition effective_viewport :: "surface_state \<Rightarrow> viewport_state option" where
  "effective_viewport s =
     (case viewport s of
        Some v \<Rightarrow> if viewport_is_identity v then None else Some v
      | None \<Rightarrow> None)"

text \<open>The whole surface as its viewport sizes it: the two early returns both translations share.\<close>

definition viewport_extent :: "surface_state \<Rightarrow> damage_rect option" where
  "viewport_extent s =
     (case effective_viewport s of
        None \<Rightarrow> None
      | Some v \<Rightarrow>
         (case vp_destination v of
            Some (destination_width, destination_height) \<Rightarrow>
              Some (damage_rect_new 0 0 destination_width destination_height)
          | None \<Rightarrow>
             (case vp_source v of
                Some (_, _, source_width, source_height) \<Rightarrow>
                  Some (damage_rect_new 0 0 (max (source_width sdiv 256) 1) (max (source_height sdiv 256) 1))
              | None \<Rightarrow> None)))"

text \<open>
  The scales and offsets of the mapping from buffer to surface coordinates; \<open>None\<close> where the
  code gives up on a malformed viewport.
\<close>

definition buffer_mapping :: "surface_state \<Rightarrow> i32 \<Rightarrow> i32 \<Rightarrow> (rat \<times> rat \<times> rat \<times> rat) option" where
  "buffer_mapping s buffer_width buffer_height =
     (let contents_width = of_int (max buffer_width 1);
          contents_height = of_int (max buffer_height 1);
          scale = of_int (max (current_buffer_scale s) 1)
      in case effective_viewport s of
           None \<Rightarrow> Some (scale, scale, 0, 0)
         | Some v \<Rightarrow>
             let (offset_x, offset_y) =
               (case vp_source v of
                  Some (x, y, _, _) \<Rightarrow> (of_int (x sdiv 256), of_int (y sdiv 256))
                | None \<Rightarrow> (0, 0))
             in (case vp_destination v of
                   None \<Rightarrow> Some (scale, scale, offset_x, offset_y)
                 | Some (destination_width, destination_height) \<Rightarrow>
                     if destination_width \<le> 0 \<or> destination_height \<le> 0 then None
                     else
                       let scale_x = f64_mul scale (f64_div contents_width (of_int destination_width));
                           scale_y = f64_mul scale (f64_div contents_height (of_int destination_height))
                       in (case vp_source v of
                             None \<Rightarrow> Some (scale_x, scale_y, offset_x, offset_y)
                           | Some (_, _, source_width, source_height) \<Rightarrow>
                               let source_width = f64_div (of_int source_width) 256;
                                   source_height = f64_div (of_int source_height) 256
                               in if source_width \<le> 0 \<or> source_height \<le> 0 then None
                                  else Some (f64_mul scale_x (f64_div source_width contents_width),
                                             f64_mul scale_y (f64_div source_height contents_height),
                                             offset_x, offset_y))))"

text \<open>One axis of the translation: the edges of the damage, one pixel further out, to a start and
  an extent on the surface.\<close>

definition map_axis :: "int \<Rightarrow> int \<Rightarrow> rat \<Rightarrow> rat \<Rightarrow> i32 \<times> i32" where
  "map_axis start extent offset scale =
     (let start_edge = clamp_damage_edge (i64_saturating (start - 1));
          end_edge = clamp_damage_edge (i64_saturating (i64_saturating (start + extent) + 1));
          p0 = f64_div (f64_sub (of_int start_edge) offset) scale;
          p1 = f64_div (f64_sub (of_int end_edge) offset) scale;
          low = max (f64_trunc (min p0 p1)) DAMAGE_MIN;
          high = min \<lceil>max p0 p1\<rceil> DAMAGE_MAX
      in (saturating_i32 (of_int low), saturating_i32 (max (f64_sub (of_int high) (of_int low)) 1)))"

definition map_buffer_damage :: "damage_rect \<Rightarrow> surface_state \<Rightarrow> i32 \<Rightarrow> i32 \<Rightarrow> damage_rect" where
  "map_buffer_damage rect s buffer_width buffer_height =
     (if dr_width rect \<le> 0 \<or> dr_height rect \<le> 0 then damage_rect_new 0 0 0 0
      else if current_buffer_transform s \<noteq> 0 then
        (case viewport_extent s of
           Some full \<Rightarrow> full
         | None \<Rightarrow>
             let (width, height) = logical_transformed_extent (current_buffer_transform s)
                   (max buffer_width 1) (max buffer_height 1) (current_buffer_scale s)
             in damage_rect_new 0 0 width height)
      else
        (case buffer_mapping s buffer_width buffer_height of
           None \<Rightarrow> damage_rect_new 0 0 (max buffer_width 1) (max buffer_height 1)
         | Some (scale_x, scale_y, offset_x, offset_y) \<Rightarrow>
             let (left, width) = map_axis (dr_x rect) (dr_width rect) offset_x scale_x;
                 (top, height) = map_axis (dr_y rect) (dr_height rect) offset_y scale_y
             in damage_rect_new left top width height))"

definition full_surface_damage :: "surface_state \<Rightarrow> i32 \<Rightarrow> i32 \<Rightarrow> damage_rect" where
  "full_surface_damage s buffer_width buffer_height =
     (let width = max buffer_width 1; height = max buffer_height 1
      in case viewport_extent s of
           Some full \<Rightarrow> full
         | None \<Rightarrow>
             if current_buffer_transform s \<noteq> 0 then
               let (width, height) = logical_transformed_extent (current_buffer_transform s)
                     width height (current_buffer_scale s)
               in damage_rect_new 0 0 width height
             else
               let scale = of_int (max (current_buffer_scale s) 1)
               in damage_rect_new 0 0
                    (f64_as_i32 (of_int (min \<lceil>f64_div (of_int width) scale\<rceil> (2 ^ 31 - 1))))
                    (f64_as_i32 (of_int (min \<lceil>f64_div (of_int height) scale\<rceil> (2 ^ 31 - 1)))))"

section \<open>The protocol's coordinates\<close>

text \<open>
  What the protocol prescribes along one axis, for a buffer of \<open>contents\<close> pixels that is not
  transformed: the buffer is scaled down by the buffer scale, the source rectangle (in 24.8
  fixed point) is cut out of it, and stretched to the destination.
\<close>

definition source_span :: "int \<Rightarrow> int \<Rightarrow> (int \<times> int) option \<Rightarrow> rat \<times> rat" where
  "source_span scale contents source =
     (case source of
        Some (start, extent) \<Rightarrow> (of_int start / 256, of_int extent / 256)
      | None \<Rightarrow> (0, of_int contents / of_int scale))"

text \<open>The buffer coordinate shown at the surface coordinate \<open>u\<close>.\<close>

definition sampled :: "int \<Rightarrow> int \<Rightarrow> (int \<times> int) option \<Rightarrow> int option \<Rightarrow> rat \<Rightarrow> rat" where
  "sampled scale contents source destination u =
     (case source_span scale contents source of
        (start, extent) \<Rightarrow>
          of_int scale * (start + u * (case destination of Some d \<Rightarrow> extent / of_int d | None \<Rightarrow> 1)))"

definition viewport_source :: "surface_state \<Rightarrow> (i32 \<times> i32 \<times> i32 \<times> i32) option" where
  "viewport_source s = Option.bind (viewport s) vp_source"

definition viewport_destination :: "surface_state \<Rightarrow> (i32 \<times> i32) option" where
  "viewport_destination s = Option.bind (viewport s) vp_destination"

definition sampled_x :: "surface_state \<Rightarrow> i32 \<Rightarrow> rat \<Rightarrow> rat" where
  "sampled_x s buffer_width =
     sampled (current_buffer_scale s) buffer_width
       (map_option (\<lambda>(x, y, w, h). (x, w)) (viewport_source s)) (map_option fst (viewport_destination s))"

definition sampled_y :: "surface_state \<Rightarrow> i32 \<Rightarrow> rat \<Rightarrow> rat" where
  "sampled_y s buffer_height =
     sampled (current_buffer_scale s) buffer_height
       (map_option (\<lambda>(x, y, w, h). (y, h)) (viewport_source s)) (map_option snd (viewport_destination s))"

text \<open>The states the requests of a surface and of its viewport can produce.\<close>

definition surface_values_ok :: "surface_state \<Rightarrow> bool" where
  "surface_values_ok s \<longleftrightarrow>
     0 < current_buffer_scale s \<and> in_i32 (current_buffer_scale s) \<and>
     (case viewport_source s of
        Some (x, y, w, h) \<Rightarrow>
          0 \<le> x \<and> 0 \<le> y \<and> 0 < w \<and> 0 < h \<and> in_i32 x \<and> in_i32 y \<and> in_i32 w \<and> in_i32 h
      | None \<Rightarrow> True) \<and>
     (case viewport_destination s of
        Some (w, h) \<Rightarrow> 0 < w \<and> 0 < h \<and> in_i32 w \<and> in_i32 h
      | None \<Rightarrow> True)"

text \<open>
  Where the program's mapping is the protocol's: the buffer scale is 1, or there is no viewport,
  or it crops from the origin.
\<close>

definition mapping_exact :: "surface_state \<Rightarrow> bool" where
  "mapping_exact s \<longleftrightarrow>
     current_buffer_scale s = 1 \<or>
     (case viewport_source s of
        Some (x, y, w, h) \<Rightarrow> x = 0 \<and> y = 0
      | None \<Rightarrow> viewport_destination s = None)"

section \<open>One axis\<close>

definition axis_scale :: "int \<Rightarrow> int \<Rightarrow> (int \<times> int) option \<Rightarrow> int option \<Rightarrow> rat" where
  "axis_scale scale contents source destination =
     (case destination of
        None \<Rightarrow> of_int scale
      | Some d \<Rightarrow>
         (case source of
            None \<Rightarrow> f64_mul (of_int scale) (f64_div (of_int contents) (of_int d))
          | Some (_, extent) \<Rightarrow>
              f64_mul (f64_mul (of_int scale) (f64_div (of_int contents) (of_int d)))
                (f64_div (f64_div (of_int extent) 256) (of_int contents))))"

text \<open>The same without rounding.\<close>

definition exact_scale :: "int \<Rightarrow> int \<Rightarrow> (int \<times> int) option \<Rightarrow> int option \<Rightarrow> rat" where
  "exact_scale scale contents source destination =
     (case destination of
        None \<Rightarrow> of_int scale
      | Some d \<Rightarrow>
         (case source of
            None \<Rightarrow> of_int scale * (of_int contents / of_int d)
          | Some (_, extent) \<Rightarrow> of_int scale * (of_int extent / 256) / of_int d))"

definition axis_ok :: "int \<Rightarrow> int \<Rightarrow> (int \<times> int) option \<Rightarrow> int option \<Rightarrow> bool" where
  "axis_ok scale contents source destination \<longleftrightarrow>
     0 < scale \<and> 0 < contents \<and>
     (case source of Some (start, extent) \<Rightarrow> 0 \<le> start \<and> 0 < extent \<and> start < 2 ^ 31 | None \<Rightarrow> True) \<and>
     (case destination of Some d \<Rightarrow> 0 < d | None \<Rightarrow> True) \<and>
     (scale = 1 \<or> (case source of Some (start, _) \<Rightarrow> start = 0 | None \<Rightarrow> destination = None))"

definition axis_start :: "(int \<times> int) option \<Rightarrow> int" where
  "axis_start source = (case source of Some (start, _) \<Rightarrow> start | None \<Rightarrow> 0)"

lemma axis_scale_close:
  assumes "axis_ok scale contents source destination"
  shows "close 11 (axis_scale scale contents source destination) (exact_scale scale contents source destination)"
proof -
  have pos: "0 < (of_int scale :: rat)" "0 < (of_int contents :: rat)"
    using assms by (simp_all add: axis_ok_def)
  note scale = close_refl [OF pos(1)]
  have stretched: "close 4 (f64_mul (of_int scale) (f64_div (of_int contents) (of_int d)))
      (of_int scale * (of_int contents / of_int d))" if "0 < d" for d
  proof -
    have "close 1 (f64_div (of_int contents) (of_int d)) (of_int contents / of_int d)"
      unfolding f64_div_def using pos that by (intro f64.close_one) simp
    from f64.close_round [OF close_mult [OF scale this]] show ?thesis
      by (simp add: f64_mul_def eval_nat_numeral)
  qed
  have cropped: "close 4 (f64_div (f64_div (of_int extent) 256) (of_int contents))
      (of_int extent / 256 * (1 / of_int contents))" if "0 < extent" for extent
  proof -
    have "close 1 (f64_div (of_int extent) 256) (of_int extent / 256)"
      unfolding f64_div_def using that by (intro f64.close_one) simp
    from close_mult [OF this close_refl, of "1 / of_int contents"]
    have "close 2 (f64_div (of_int extent) 256 * (1 / of_int contents)) (of_int extent / 256 * (1 / of_int contents))"
      using pos by (simp add: numeral_2_eq_2)
    from f64.close_round [OF this] show ?thesis
      by (simp add: f64_div_def)
  qed
  show ?thesis
  proof (cases destination)
    case None
    then show ?thesis
      using close_mono [OF scale] by (simp add: axis_scale_def exact_scale_def)
  next
    case (Some d)
    then have d: "0 < d"
      using assms by (simp add: axis_ok_def)
    show ?thesis
    proof (cases source)
      case None
      then show ?thesis
        using close_mono [OF stretched [OF d]] by (simp add: axis_scale_def exact_scale_def Some)
    next
      fix se assume source: "source = Some se"
      obtain start extent where se: "se = (start, extent)"
        by fastforce
      have "0 < extent"
        using assms by (simp add: axis_ok_def source se)
      from f64.close_round [OF close_mult [OF stretched [OF d] cropped [OF this]]]
      have "close 11 (axis_scale scale contents source destination)
          (of_int scale * (of_int contents / of_int d) * (of_int extent / 256 * (1 / of_int contents)))"
        by (simp add: axis_scale_def Some source se f64_mul_def [symmetric])
      then show ?thesis
        using pos by (simp add: exact_scale_def Some source se mult.commute [of 256])
    qed
  qed
qed

text \<open>Where the mapping is exact, the program's offset is off by less than a fixed-point unit of one.\<close>

lemma sampled_linear:
  assumes "axis_ok scale contents source destination"
  shows "sampled scale contents source destination u =
      u * exact_scale scale contents source destination + of_int (axis_start source) / 256"
  using assms
  by (cases source; cases destination)
    (auto simp: sampled_def source_span_def exact_scale_def axis_start_def axis_ok_def field_simps)

lemma sdiv_256:
  assumes "0 \<le> k"
  shows "k sdiv 256 = k div 256" "of_int (k div 256) \<le> (of_int k / 256 :: rat)"
    "of_int k / 256 \<le> (of_int (k div 256) + 255 / 256 :: rat)"
proof -
  show "k sdiv 256 = k div 256"
    using assms by (cases "k = 0") (simp_all add: signed_divide_int_def)
  have "k = 256 * (k div 256) + k mod 256" "0 \<le> k mod 256" "k mod 256 \<le> 255"
    by simp_all
  then have k: "(of_int k :: rat) = 256 * of_int (k div 256) + of_int (k mod 256)"
    "(0::rat) \<le> of_int (k mod 256)" "of_int (k mod 256) \<le> (255::rat)"
    by (metis of_int_add of_int_mult of_int_numeral) simp_all
  show "of_int (k div 256) \<le> (of_int k / 256 :: rat)"
    "of_int k / 256 \<le> (of_int (k div 256) + 255 / 256 :: rat)"
    using k by (simp_all add: field_simps)
qed

lemma saturating_i32_int: "in_i32 v \<Longrightarrow> saturating_i32 (of_int v) = v"
  by (auto simp: saturating_i32_def in_i32_def f64_as_i32_def f64_trunc_def)

lemma in_i32_saturating [simp]: "in_i32 (saturating_i32 v)" "in_i32 (f64_as_i32 v)"
  by (auto simp: saturating_i32_def in_i32_def f64_as_i32_def)

lemma f64_sub_int: "\<bar>a - b\<bar> < 2 ^ 53 \<Longrightarrow> f64_sub (of_int a) (of_int b) = of_int (a - b)"
  using f64.exact [of "a - b"] by (simp add: f64_sub_def)

lemma clamp_bounds: "DAMAGE_MIN \<le> clamp_damage_edge v" "clamp_damage_edge v \<le> DAMAGE_MAX"
  by (simp_all add: clamp_damage_edge_def DAMAGE_MIN_def DAMAGE_MAX_def)

lemma i64_saturating_id: "\<bar>v\<bar> < 2 ^ 40 \<Longrightarrow> i64_saturating v = v"
  by (auto simp: i64_saturating_def)

text \<open>
  The axis translation covers every surface coordinate \<open>u\<close> whose image \<open>u * S + o\<close> in the
  buffer lies in the damage.
\<close>

lemma map_axis_covers:
  assumes "close 11 s S" "in_i32 start" "in_i32 extent" "0 < extent" "0 \<le> k" "k < 2 ^ 24"
    and "of_int k \<le> off" "off \<le> of_int k + 255 / 256"
    and u: "0 \<le> u" "u < of_int DAMAGE_MAX"
    and image: "of_int start \<le> u * S + off" "u * S + off \<le> of_int (start + extent)"
      "u * S + off \<le> of_int (DAMAGE_MAX - 1)"
  shows "case map_axis start extent (of_int k) s of (low, width) \<Rightarrow> low \<le> \<lfloor>u\<rfloor> \<and> \<lfloor>u\<rfloor> < low + width"
proof -
  define es where "es = clamp_damage_edge (i64_saturating (start - 1))"
  define ee where "ee = clamp_damage_edge (i64_saturating (i64_saturating (start + extent) + 1))"
  have sat: "i64_saturating (start - 1) = start - 1"
    "i64_saturating (i64_saturating (start + extent) + 1) = start + extent + 1"
    using assms(2,3) by (simp_all add: i64_saturating_def in_i32_def min_def max_def)
  have range: "DAMAGE_MIN \<le> es" "es \<le> DAMAGE_MAX" "DAMAGE_MIN \<le> ee" "ee \<le> DAMAGE_MAX"
    by (simp_all add: es_def ee_def clamp_bounds)
  have S: "0 < S"
    using assms(1) by (simp add: close_def)
  then have uS: "0 \<le> u * S"
    using u by simp
  have "es = DAMAGE_MIN \<or> es \<le> start - 1"
    by (simp add: es_def sat clamp_damage_edge_def)
  then have left: "of_int (es - k) + 1 / 256 \<le> u * S"
  proof
    assume "es = DAMAGE_MIN"
    then have "of_int (es - k) \<le> (of_int (- 1) :: rat)"
      using assms(5) unfolding of_int_le_iff by (simp add: DAMAGE_MIN_def)
    then show ?thesis
      using uS by simp
  next
    assume "es \<le> start - 1"
    then have "of_int (es - k) \<le> (of_int (start - 1 - k) :: rat)"
      unfolding of_int_le_iff by simp
    then show ?thesis
      using image(1) assms(8) by simp
  qed
  have "ee = DAMAGE_MAX \<or> start + extent + 1 \<le> ee"
    by (simp add: ee_def sat clamp_damage_edge_def)
  then have right: "u * S \<le> of_int (ee - k) - 1"
  proof
    assume "ee = DAMAGE_MAX"
    then show ?thesis
      using image(3) assms(7) by simp
  next
    assume "start + extent + 1 \<le> ee"
    then have "of_int (start + extent) \<le> (of_int (ee - 1) :: rat)"
      unfolding of_int_le_iff by simp
    then show ?thesis
      using image(2) assms(7) by simp
  qed
  define p0 where "p0 = f64_div (of_int (es - k)) s"
  define p1 where "p1 = f64_div (of_int (ee - k)) s"
  define low where "low = max (f64_trunc (min p0 p1)) DAMAGE_MIN"
  define high where "high = min \<lceil>max p0 p1\<rceil> DAMAGE_MAX"
  have small: "es - k \<le> 2 ^ 30" "ee - k \<le> 2 ^ 30"
    using range assms(5) by (simp_all add: DAMAGE_MAX_def)
  have "of_int (f64_trunc (min p0 p1)) \<le> u"
    using f64.left_edge [OF assms(1) _ u(1) left small(1)] by (simp add: p0_def f64_div_def)
  then have low: "low \<le> \<lfloor>u\<rfloor>"
    using u(1) by (simp add: low_def le_floor_iff DAMAGE_MIN_def)
  have "u < of_int \<lceil>max p0 p1\<rceil>"
    using f64.right_edge [OF assms(1) _ u(1) right small(2)]
    by (simp add: p1_def f64_div_def max.commute)
  then have high: "\<lfloor>u\<rfloor> < high"
    using u(2) by (simp add: high_def floor_less_iff)
  have lowrange: "DAMAGE_MIN \<le> low" "low < high" "high \<le> DAMAGE_MAX"
    using low high by (simp_all add: low_def high_def)
  have sub: "f64_sub (of_int es) (of_int k) = of_int (es - k)" "f64_sub (of_int ee) (of_int k) = of_int (ee - k)"
    "f64_sub (of_int high) (of_int low) = of_int (high - low)"
    by (rule f64_sub_int, use range lowrange assms(5,6) in \<open>simp add: DAMAGE_MIN_def DAMAGE_MAX_def abs_less_iff\<close>)+
  have "max (of_int (high - low)) 1 = (of_int (high - low) :: rat)"
    using lowrange by (simp add: max_def)
  then have "map_axis start extent (of_int k) s = (low, high - low)"
    using lowrange saturating_i32_int [of low] saturating_i32_int [of "high - low"]
    unfolding map_axis_def Let_def es_def [symmetric] ee_def [symmetric] sub
      p0_def [symmetric] p1_def [symmetric] low_def [symmetric] high_def [symmetric]
    by (simp add: in_i32_def DAMAGE_MIN_def DAMAGE_MAX_def)
  then show ?thesis
    using low high by simp
qed

section \<open>The whole rectangle\<close>

definition axis_x :: "surface_state \<Rightarrow> (int \<times> int) option \<times> int option" where
  "axis_x s = (map_option (\<lambda>(x, y, w, h). (x, w)) (viewport_source s), map_option fst (viewport_destination s))"

definition axis_y :: "surface_state \<Rightarrow> (int \<times> int) option \<times> int option" where
  "axis_y s = (map_option (\<lambda>(x, y, w, h). (y, h)) (viewport_source s), map_option snd (viewport_destination s))"

lemma effective_viewport_source:
  "Option.bind (effective_viewport s) vp_source = viewport_source s"
  "Option.bind (effective_viewport s) vp_destination = viewport_destination s"
  by (auto simp: effective_viewport_def viewport_source_def viewport_destination_def viewport_is_identity_def
      split: option.splits)

lemma f64_quotient_pos:
  assumes "0 < x" "0 < y"
  shows "0 < f64_div x y"
  using close_pos [OF f64.close_one [of "x / y"]] assms by (simp add: f64_div_def)

lemma buffer_mapping_axes:
  assumes "surface_values_ok s" "0 < bw" "0 < bh"
  shows "buffer_mapping s bw bh =
    Some (axis_scale (current_buffer_scale s) bw (fst (axis_x s)) (snd (axis_x s)),
          axis_scale (current_buffer_scale s) bh (fst (axis_y s)) (snd (axis_y s)),
          of_int (axis_start (fst (axis_x s)) div 256), of_int (axis_start (fst (axis_y s)) div 256))"
proof (cases "effective_viewport s")
  case None
  then have "viewport_source s = None" "viewport_destination s = None"
    by (simp_all flip: effective_viewport_source)
  then show ?thesis
    using assms by (simp add: buffer_mapping_def None axis_x_def axis_y_def axis_scale_def axis_start_def
        surface_values_ok_def max_def Let_def)
next
  case (Some v)
  then have v: "vp_source v = viewport_source s" "vp_destination v = viewport_destination s"
    by (simp_all flip: effective_viewport_source)
  have m: "max bw 1 = bw" "max bh 1 = bh" "max (current_buffer_scale s) 1 = current_buffer_scale s"
    using assms by (simp_all add: surface_values_ok_def max_def)
  note defs = buffer_mapping_def Some v m axis_x_def axis_y_def axis_scale_def axis_start_def Let_def
  show ?thesis
  proof (cases "viewport_source s")
    case None
    then show ?thesis
      using assms(1) by (cases "viewport_destination s") (auto simp: defs surface_values_ok_def)
  next
    fix r assume src: "viewport_source s = Some r"
    obtain x y w h where r: "r = (x, y, w, h)"
      by (metis prod_cases4)
    have pos: "0 \<le> x" "0 \<le> y" "0 < w" "0 < h"
      using assms(1) by (simp_all add: surface_values_ok_def src r)
    then have q: "\<not> f64_div (of_int w) 256 \<le> 0" "\<not> f64_div (of_int h) 256 \<le> 0"
      by (simp_all add: not_le f64_quotient_pos)
    show ?thesis
    proof (cases "viewport_destination s")
      case None
      then show ?thesis
        using pos by (simp add: defs src r sdiv_256(1))
    next
      fix d assume dst: "viewport_destination s = Some d"
      obtain dw dh where d: "d = (dw, dh)"
        by fastforce
      have "\<not> dw \<le> 0" "\<not> dh \<le> 0"
        using assms(1) by (simp_all add: surface_values_ok_def dst d)
      with pos q show ?thesis
        by (simp add: defs src r dst d sdiv_256(1))
    qed
  qed
qed

lemma axes_ok:
  assumes "surface_values_ok s" "mapping_exact s" "0 < bw" "0 < bh"
  shows "axis_ok (current_buffer_scale s) bw (fst (axis_x s)) (snd (axis_x s))"
    "axis_ok (current_buffer_scale s) bh (fst (axis_y s)) (snd (axis_y s))"
  using assms
  by (auto simp: axis_ok_def axis_x_def axis_y_def surface_values_ok_def mapping_exact_def in_i32_def
      split: option.splits)

lemma axis_covers:
  assumes "axis_ok scale contents source destination" "in_i32 start" "in_i32 extent" "0 < extent"
    and u: "0 \<le> u" "u < of_int DAMAGE_MAX"
    and image: "of_int start \<le> sampled scale contents source destination u"
      "sampled scale contents source destination u \<le> of_int (start + extent)"
      "sampled scale contents source destination u \<le> of_int (DAMAGE_MAX - 1)"
  shows "case map_axis start extent (of_int (axis_start source div 256)) (axis_scale scale contents source destination)
     of (low, width) \<Rightarrow> low \<le> \<lfloor>u\<rfloor> \<and> \<lfloor>u\<rfloor> < low + width"
proof -
  have k: "0 \<le> axis_start source" "axis_start source < 2 ^ 31"
    using assms(1) by (auto simp: axis_ok_def axis_start_def split: option.splits)
  then have "axis_start source div 256 < 2 ^ 24"
    by (simp add: div_less_iff_less_mult)
  with k show ?thesis
    using map_axis_covers [OF axis_scale_close [OF assms(1)] assms(2-4), of "axis_start source div 256"
        "of_int (axis_start source) / 256", OF _ _ sdiv_256(2,3) u] image
    by (simp add: sampled_linear [OF assms(1)])
qed

text \<open>The surface point \<open>(u, v)\<close> shows a point of the damaged rectangle of the buffer.\<close>

definition shows_damage :: "surface_state \<Rightarrow> i32 \<Rightarrow> i32 \<Rightarrow> damage_rect \<Rightarrow> rat \<Rightarrow> rat \<Rightarrow> bool" where
  "shows_damage s bw bh r u v \<longleftrightarrow>
     0 \<le> u \<and> u < of_int DAMAGE_MAX \<and> 0 \<le> v \<and> v < of_int DAMAGE_MAX \<and>
     of_int (dr_x r) \<le> sampled_x s bw u \<and> sampled_x s bw u \<le> of_int (dr_x r + dr_width r) \<and>
     of_int (dr_y r) \<le> sampled_y s bh v \<and> sampled_y s bh v \<le> of_int (dr_y r + dr_height r) \<and>
     sampled_x s bw u \<le> of_int (DAMAGE_MAX - 1) \<and> sampled_y s bh v \<le> of_int (DAMAGE_MAX - 1)"

lemma buffer_damage_covers:
  assumes "current_buffer_transform s = 0" "surface_values_ok s" "mapping_exact s"
    and "0 < bw" "0 < bh" "rect_pos r" "shows_damage s bw bh r u v"
  shows "in_rect (\<lfloor>u\<rfloor>, \<lfloor>v\<rfloor>) (map_buffer_damage r s bw bh)"
proof -
  have r: "in_i32 (dr_x r)" "in_i32 (dr_width r)" "0 < dr_width r" "in_i32 (dr_y r)" "in_i32 (dr_height r)" "0 < dr_height r"
    using assms(6) by (simp_all add: rect_pos_def rect_ok_def)
  note ok = axes_ok [OF assms(2-5)]
  note d = assms(7) [unfolded shows_damage_def]
  show ?thesis
    using axis_covers [OF ok(1) r(1-3), of u] axis_covers [OF ok(2) r(4-6), of v] assms(1) r d
    by (auto simp: map_buffer_damage_def buffer_mapping_axes [OF assms(2,4,5)] sampled_x_def sampled_y_def
        in_rect_def axis_x_def axis_y_def split: prod.splits)
qed

text \<open>A surface pixel that shows a damaged point of the buffer is inside the damage the host is told,
  whatever the rounding, for every crop and stretch where the buffer scale is 1, and for every
  scale where the viewport does not move the origin.\<close>

theorem buffer_damage_reaches_surface:
  assumes "current_buffer_transform s = 0" "surface_values_ok s" "mapping_exact s"
    and "0 < bw" "0 < bh" "rect_pos r" "shows_damage s bw bh r u v"
  shows "in_rect (\<lfloor>u\<rfloor>, \<lfloor>v\<rfloor>) (map_buffer_damage r s bw bh)"
  using assms by (rule buffer_damage_covers)

section \<open>Surface damage and the whole surface\<close>

lemma map_surface_damage_covers:
  assumes "rect_pos r" "in_rect (x, y) r"
    and "DAMAGE_MIN \<le> x" "x < DAMAGE_MAX" "DAMAGE_MIN \<le> y" "y < DAMAGE_MAX"
  shows "in_rect (x, y) (map_surface_damage r)"
  using assms
  by (auto simp: map_surface_damage_def in_rect_def rect_pos_def rect_ok_def in_i32_def Let_def
      i64_saturating_def clamp_damage_edge_def DAMAGE_MIN_def DAMAGE_MAX_def i64_as_i32_def min_def max_def)






text \<open>Damage of a rotated buffer counts for the whole surface.\<close>

lemma rotated_damage_full:
  "rect_pos r \<Longrightarrow> current_buffer_transform s \<noteq> 0 \<Longrightarrow> map_buffer_damage r s bw bh = full_surface_damage s bw bh"
  by (simp add: map_buffer_damage_def full_surface_damage_def rect_pos_def Let_def split: option.split)


section \<open>Valid rectangles\<close>

lemma rect_ok_new [simp]:
  "rect_ok (damage_rect_new x y w h) \<longleftrightarrow> in_i32 x \<and> in_i32 y \<and> in_i32 w \<and> in_i32 h"
  by (simp add: rect_ok_def)

lemma in_i32_zero [simp]: "in_i32 0"
  by (simp add: in_i32_def)

lemma viewport_extent_ok:
  assumes "surface_values_ok s" "viewport_extent s = Some r"
  shows "rect_ok r"
proof -
  obtain v where v: "effective_viewport s = Some v"
    using assms(2) by (auto simp: viewport_extent_def split: option.splits)
  have d: "vp_source v = viewport_source s" "vp_destination v = viewport_destination s"
    using effective_viewport_source [of s] v by simp_all
  have "in_i32 (max (w div 256) 1)" if "0 \<le> w" "in_i32 w" for w
    using that by (auto simp: in_i32_def max_def)
  then show ?thesis
    using assms by (auto simp: viewport_extent_def v d surface_values_ok_def sdiv_256(1) split: option.splits)
qed

lemma mapped_rects_ok:
  assumes "surface_values_ok s"
  shows "rect_ok r \<Longrightarrow> rect_ok (map_surface_damage r)"
    "in_i32 bw \<Longrightarrow> in_i32 bh \<Longrightarrow> rect_ok (map_buffer_damage r s bw bh)"
    "rect_ok (full_surface_damage s bw bh)"
proof -
  have small: "in_i32 (i64_as_i32 v)" for v
    using sint_range_size [of "as_u32 v"] by (simp add: i64_as_i32_def as_i32_def in_i32_def word_size)
  show "rect_ok (map_surface_damage r)" if "rect_ok r"
    by (simp add: map_surface_damage_def Let_def small)
  show "rect_ok (full_surface_damage s bw bh)"
    using viewport_extent_ok [OF assms]
    by (auto simp: full_surface_damage_def logical_transformed_extent_def Let_def split: option.split prod.split)
  have axis: "in_i32 p \<and> in_i32 q" if "map_axis a e off k = (p, q)" for a e off k p q
    using that by (auto simp: map_axis_def Let_def)
  have "in_i32 (max n 1)" if "in_i32 n" for n
    using that by (auto simp: in_i32_def max_def)
  then show "rect_ok (map_buffer_damage r s bw bh)" if "in_i32 bw" "in_i32 bh"
    using viewport_extent_ok [OF assms] that
    by (auto simp: map_buffer_damage_def logical_transformed_extent_def Let_def dest: axis split: option.split prod.split)
qed

section \<open>Concrete surfaces\<close>

definition stretched_surface :: surface_state where
  "stretched_surface = surface_state_default\<lparr>viewport :=
     Some \<lparr>vp_source = Some (128, 0, 5120, 5120), vp_destination = Some (40, 40)\<rparr>\<rparr>"

lemmas surface_defs = surface_state_default_def viewport_source_def viewport_destination_def

lemma stretched_ok: "surface_values_ok stretched_surface" "mapping_exact stretched_surface"
  "current_buffer_transform stretched_surface = 0"
  unfolding surface_values_ok_def mapping_exact_def stretched_surface_def
  by (simp_all add: surface_defs in_i32_def)

theorem buffer_damage_reaches_surface_witness:
  "in_rect (20, 20) (map_buffer_damage (damage_rect_new 10 10 4 4) stretched_surface 40 40)"
proof -
  have "in_rect (\<lfloor>20 :: rat\<rfloor>, \<lfloor>20 :: rat\<rfloor>) (map_buffer_damage (damage_rect_new 10 10 4 4) stretched_surface 40 40)"
    by (rule buffer_damage_reaches_surface [OF stretched_ok(3,1,2)])
      (simp_all add: shows_damage_def rect_pos_def in_i32_def DAMAGE_MAX_def sampled_x_def sampled_y_def
        stretched_surface_def surface_defs sampled_def source_span_def)
  then show ?thesis
    by simp
qed


text \<open>
  Where the mapping is not exact, damage is lost.  The program subtracts the viewport's source
  offset, which is in surface units, from buffer pixels, so with a buffer scale of 2 and the source
  starting at 10 the damage of the visible quarter of a 40 pixel buffer misses the first columns.
\<close>

definition cropped_surface :: surface_state where
  "cropped_surface = surface_state_default\<lparr>current_buffer_scale := 2, viewport :=
     Some \<lparr>vp_source = Some (2560, 2560, 2560, 2560), vp_destination = None\<rparr>\<rparr>"

lemma map_axis_eval:
  assumes "f64_div (of_int (es - k)) s = p" "f64_div (of_int (ee - k)) s = q" "p \<le> q" "0 \<le> p"
    and "es = start - 1" "ee = start + extent + 1" "0 \<le> start" "start < 2 ^ 20" "0 \<le> extent" "extent < 2 ^ 20"
    and "0 \<le> k" "k < 2 ^ 20" "q < 2 ^ 20" "\<lfloor>p\<rfloor> = low" "\<lceil>q\<rceil> = high" "low < high"
  shows "map_axis start extent (of_int k) s = (low, high - low)"
proof -
  have e: "clamp_damage_edge (i64_saturating (start - 1)) = es"
    "clamp_damage_edge (i64_saturating (i64_saturating (start + extent) + 1)) = ee"
    using assms(5-10) by (simp_all add: i64_saturating_def clamp_damage_edge_def DAMAGE_MIN_def DAMAGE_MAX_def)
  have h: "high \<le> 2 ^ 20" "0 \<le> low"
    using assms(4,13,14,15) by (auto simp: ceiling_le_iff)
  have sub: "f64_sub (of_int es) (of_int k) = of_int (es - k)" "f64_sub (of_int ee) (of_int k) = of_int (ee - k)"
    "f64_sub (of_int high) (of_int low) = of_int (high - low)"
    by (rule f64_sub_int, use assms h in \<open>simp add: abs_less_iff\<close>)+
  have "max (of_int (high - low)) 1 = (of_int (high - low) :: rat)"
    using assms(16) by (simp add: max_def)
  moreover have "min p q = p" "max p q = q" "f64_trunc p = low"
    using assms(3,4,14) by (simp_all add: f64_trunc_def)
  moreover have "max low DAMAGE_MIN = low" "min high DAMAGE_MAX = high"
    using h by (simp_all add: DAMAGE_MIN_def DAMAGE_MAX_def)
  ultimately show ?thesis
    using h assms(16) saturating_i32_int [of low] saturating_i32_int [of "high - low"]
    unfolding map_axis_def Let_def e sub assms(1,2)
    by (simp add: assms(15) sub(3) in_i32_def del: of_int_diff)
qed

text \<open>With a buffer scale of 2 and a viewport that crops from (10, 10), the translated damage of the
  visible quarter of the buffer does not reach the surface's first pixel, which shows the damaged
  buffer pixel (20, 20): the program loses damage there.\<close>

theorem scaled_crop_loses_damage:
  "sampled_x cropped_surface 40 0 = 20 \<and> sampled_y cropped_surface 40 0 = 20 \<and>
   map_buffer_damage (damage_rect_new 20 20 20 20) cropped_surface 40 40 = damage_rect_new 4 4 12 12 \<and>
   \<not> in_rect (0, 0) (damage_rect_new 4 4 12 12)"
proof -
  have q: "f64_div 9 2 = 9 / 2" "f64_div 31 2 = 31 / 2" "2560 sdiv (256 :: int) = 10"
    by code_simp+
  have "\<lfloor>9 / 2 :: rat\<rfloor> = 4" "\<lceil>31 / 2 :: rat\<rceil> = 16"
    by (simp_all add: floor_eq_iff ceiling_eq_iff)
  then have "map_axis 20 20 (of_int 10) 2 = (4, 16 - 4)"
    using q by (intro map_axis_eval [where es = 19 and ee = 41]) simp_all
  then have "map_axis 20 20 10 2 = (4, 12)"
    by simp
  then have "map_buffer_damage (damage_rect_new 20 20 20 20) cropped_surface 40 40 = damage_rect_new 4 4 12 12"
    by (simp add: map_buffer_damage_def buffer_mapping_def effective_viewport_def cropped_surface_def
        surface_state_default_def viewport_is_identity_def q)
  then show ?thesis
    by (simp add: in_rect_def sampled_x_def sampled_y_def sampled_def source_span_def cropped_surface_def surface_defs)
qed

end
