(* ===== verification/Surface_Handler.thy ===== *)
theory Surface_Handler
  imports Surface_Damage Shm_Handler Keyboard_Session
begin

text \<open>
  The surface, viewport and xdg handlers of \<^verbatim>\<open>sommelier/src/handler/compositor.rs\<close>.  The guest's
  pending state is collected here; \<open>commit\<close> copies shared-memory pixels to host storage,
  waits for the fences of native buffers, moves the buffer lifecycles and only then sends the
  damage and the commit.  Outcomes of system calls and the contents of mappings are arguments.
\<close>

section \<open>Fences of native buffers\<close>

datatype dmabuf_wait = Synchronized | ImplicitSyncFallback | WaitFailed

text \<open>The loop over the fences: \<open>None\<close> is the error that ends it.\<close>

fun wait_for_fences :: "(raw_fd \<Rightarrow> dmabuf_wait) \<Rightarrow> raw_fd list \<Rightarrow> bool option" where
  "wait_for_fences wait [] = Some False"
| "wait_for_fences wait (fd # fds) =
     (case wait fd of
        Synchronized \<Rightarrow> wait_for_fences wait fds
      | ImplicitSyncFallback \<Rightarrow> Some True
      | WaitFailed \<Rightarrow> None)"

definition wait_for_native_buffer ::
    "(raw_fd \<Rightarrow> dmabuf_wait) \<Rightarrow> u32 \<Rightarrow> 'h ctx_scheme \<Rightarrow> bool \<times> 'h ctx_scheme" where
  "wait_for_native_buffer wait buffer c =
     (if native_buffer_uses_implicit_sync c buffer then (True, c)
      else case native_buffer_sync_fds c buffer of
        None \<Rightarrow> (True, c)
      | Some fds \<Rightarrow>
         (case wait_for_fences wait fds of
            None \<Rightarrow> (False, c)
          | Some needs_implicit_sync \<Rightarrow>
              if needs_implicit_sync then enable_native_buffer_implicit_sync buffer c
              else (True, c)))"

section \<open>The copy of a shared-memory buffer\<close>

text \<open>
  What the copy meets: a VirtWL channel and the results of its two synchronization ioctls, the
  lock of the pool, the bytes of the guest's mapping and of the destination, an allocator, and
  the stride and bytes of the buffer object when it can be mapped.
\<close>

record commit_io =
  io_channel :: bool
  io_begin :: bool
  io_end :: bool
  io_lock :: bool
  io_source :: "u8 list"
  io_dest :: "u8 list"
  io_allocator :: bool
  io_bo_map :: "(nat \<times> u8 list) option"
  io_wait :: "raw_fd \<Rightarrow> dmabuf_wait"

text \<open>
  What a commit does outside the context, in the order it does it: a synchronization ioctl with its
  flags, the write of the destination (its bytes afterwards), and the batch put into the host's
  stream.
\<close>

datatype commit_effect = SyncIoctl u32 | CopyTo "u8 list" | QueueBatch "packet list"

type_synonym copy_trace = "commit_effect list"

definition SYNC_BEGIN_WRITE :: u32 where "SYNC_BEGIN_WRITE = 2"
definition SYNC_END_WRITE :: u32 where "SYNC_END_WRITE = 6"

definition copy_damage_to_ptr ::
    "u32 \<Rightarrow> i32 \<Rightarrow> i32 \<Rightarrow> i32 \<Rightarrow> u32 \<Rightarrow> bool \<Rightarrow> u8 list option \<Rightarrow> nat \<Rightarrow> u8 list option \<Rightarrow> nat \<Rightarrow> nat \<Rightarrow>
       nat \<Rightarrow> nat \<Rightarrow> damage_rect list \<Rightarrow> damage_rect list \<Rightarrow> bool \<Rightarrow> (bool \<times> u8 list option) option" where
  "copy_damage_to_ptr format offset width height src_stride needs_full_copy src mapped dst dest_size
       dst_stride plane1_offset plane1_stride sdamage bdamage full_mapping =
     (if src = None \<or> dst = None then Some (False, dst)
      else case (usize_from_i32 offset, usize_from_i32 height, usize_from_i32 width) of
        (Some off, Some h, Some w) \<Rightarrow>
          let layout = \<lparr>sl_pool_size = mapped, sl_dest_size = dest_size, sl_format = format,
                sl_offset = off, sl_width = w, sl_src_stride = unat src_stride,
                sl_dst_stride = dst_stride, sl_dst_plane1_offset = plane1_offset,
                sl_dst_plane1_stride = plane1_stride, sl_height = h\<rparr>
          in copy_shm_damage src dst layout
               (if needs_full_copy \<or> (full_mapping \<and> sdamage \<noteq> [])
                then [damage_rect_new 0 0 width height]
                else sdamage @ bdamage)
      | _ \<Rightarrow> Some (False, dst))"

definition copy_with ::
    "buffer_state \<Rightarrow> surface_commit \<Rightarrow> pool_state \<Rightarrow> u8 list \<Rightarrow> u8 list option \<Rightarrow> nat \<Rightarrow> nat \<Rightarrow> (bool \<times> u8 list option) option" where
  "copy_with b commit pool source dst dest_size dst_stride =
     copy_damage_to_ptr (buf_format b) (buf_offset b) (buf_width b) (buf_height b) (buf_stride b)
       (buf_needs_full_copy b \<or> has_full_damage commit) (Some source) (pool_size pool) dst dest_size dst_stride
       (buf_plane1_offset b) (buf_plane1_stride b)
       (damage_rects (surface_damage commit)) (damage_rects (buffer_damage commit)) (uses_full_mapping commit)"

text \<open>The destination is the mapping of the dma-buf, or else the buffer object, mapped for the copy.\<close>

definition copy_to_destination ::
    "commit_io \<Rightarrow> buffer_state \<Rightarrow> surface_commit \<Rightarrow> pool_state \<Rightarrow> (bool \<times> u8 list option) option" where
  "copy_to_destination io b commit pool =
     (if buf_dest_ptr b \<noteq> 0 then
        copy_with b commit pool (io_source io) (Some (io_dest io)) (buf_dest_size b) (unat (buf_bo_stride b))
      else if io_allocator io \<and> buf_bo b \<noteq> None then
        (if buf_width b < 0 \<or> buf_height b < 0 then Some (False, None)
         else case io_bo_map io of
           None \<Rightarrow> Some (False, None)
         | Some (stride, bytes) \<Rightarrow> copy_with b commit pool (io_source io) (Some bytes) (length bytes) stride)
      else Some (False, None))"

text \<open>The guard of a VirtWL dma-buf: whether it was acquired or released, and the ioctl issued.\<close>

definition sync_begin :: "commit_io \<Rightarrow> raw_fd option \<Rightarrow> bool \<times> copy_trace" where
  "sync_begin io fd =
     (if io_channel io \<and> fd \<noteq> None then (io_begin io, [SyncIoctl SYNC_BEGIN_WRITE]) else (False, []))"

definition sync_end :: "commit_io \<Rightarrow> bool \<times> copy_trace" where
  "sync_end io = (io_end io, [SyncIoctl SYNC_END_WRITE])"

text \<open>The copy between the two synchronization ioctls.\<close>

definition bracketed_copy ::
    "commit_io \<Rightarrow> buffer_state \<Rightarrow> surface_commit \<Rightarrow> pool_state \<Rightarrow> (bool \<times> copy_trace) option" where
  "bracketed_copy io b commit pool =
     (if \<not> io_lock io \<or> client_ptr pool = 0 \<or> client_ptr pool = MAP_FAILED
      then Some (False, [])
      else
        let (guard, opening) = (if buf_dmabuf_sync b then sync_begin io (buf_dmabuf_fd b) else (False, []))
        in if buf_dmabuf_sync b \<and> \<not> guard
           then Some (False, opening)
           else map_option (\<lambda>(ok, out).
                  let (ended, closing) = (if guard then sync_end io else (True, []))
                  in (ok \<and> ended, opening @ (case out of Some bytes \<Rightarrow> [CopyTo bytes] | None \<Rightarrow> []) @ closing))
                  (copy_to_destination io b commit pool))"

definition copy_surface_buffer ::
    "commit_io \<Rightarrow> pool_store \<Rightarrow> u32 \<Rightarrow> surface_commit \<Rightarrow> 'h ctx_scheme \<Rightarrow> (bool \<times> copy_trace \<times> 'h ctx_scheme) option" where
  "copy_surface_buffer io store buffer commit c =
     (case render_buffer_host_id c buffer of
        None \<Rightarrow> Some (True, [], c)
      | Some h \<Rightarrow>
         (case local_copy (render_buffers c) h of
            None \<Rightarrow> Some (True, [], c)
          | Some b \<Rightarrow>
             (case hm_get store (buf_pool b) of
                None \<Rightarrow> Some (False, [], c)
              | Some pool \<Rightarrow>
                  map_option (\<lambda>(ok, trace).
                    (ok, trace, c\<lparr>render_buffers :=
                       local_copy_mut h (b\<lparr>buf_needs_full_copy := \<not> ok\<rparr>) (render_buffers c)\<rparr>))
                    (bracketed_copy io b commit pool))))"

section \<open>The commit\<close>

definition REQ_DAMAGE :: u16 where "REQ_DAMAGE = 2"
definition REQ_COMMIT :: u16 where "REQ_COMMIT = 6"

definition damage_request :: "u32 \<Rightarrow> damage_rect \<Rightarrow> packet option" where
  "damage_request host r =
     (case try_build_message (write_i32 (dr_height r) (write_i32 (dr_width r)
             (write_i32 (dr_y r) (write_i32 (dr_x r) message_builder_new)))) host REQ_DAMAGE of
        Inr message \<Rightarrow> Some (message, [])
      | Inl _ \<Rightarrow> None)"

fun damage_requests :: "u32 \<Rightarrow> damage_rect list \<Rightarrow> packet list option" where
  "damage_requests host [] = Some []"
| "damage_requests host (r # rs) =
     (if dr_width r \<le> 0 \<or> dr_height r \<le> 0 then damage_requests host rs
      else Option.bind (damage_request host r) (\<lambda>p. map_option ((#) p) (damage_requests host rs)))"

definition mapped_damage ::
    "damage_rect list \<Rightarrow> damage_rect list \<Rightarrow> surface_state \<Rightarrow> i32 \<Rightarrow> i32 \<Rightarrow> bool \<Rightarrow> damage_rect list" where
  "mapped_damage sd bd s bw bh force =
     (if force then [full_surface_damage s bw bh] else []) @
     map map_surface_damage sd @ map (\<lambda>r. map_buffer_damage r s bw bh) bd"

definition committed_dimensions :: "'h ctx_scheme \<Rightarrow> surface_state \<Rightarrow> i32 \<times> i32" where
  "committed_dimensions c s =
     (case Option.bind (current_buffer_id s) (buffer_dimensions c) of
        Some d \<Rightarrow> d
      | None \<Rightarrow> (case current_buffer_dimensions s of Some d \<Rightarrow> d | None \<Rightarrow> (1, 1)))"

text \<open>The outer \<open>None\<close> is a panic of the coalescing; the inner one a message that cannot be built.\<close>

definition build_surface_commit_messages ::
    "'h ctx_scheme \<Rightarrow> u32 \<Rightarrow> damage_rect list \<Rightarrow> damage_rect list \<Rightarrow> surface_state \<Rightarrow> bool \<Rightarrow> packet list option option" where
  "build_surface_commit_messages c surface sd bd s force =
     (case get_host_id (shadow_table c) surface of
        None \<Rightarrow> Some None
      | Some host \<Rightarrow>
         (case committed_dimensions c s of
            (bw, bh) \<Rightarrow>
              map_option (\<lambda>merged.
                  Option.bind (damage_requests host merged) (\<lambda>ps.
                    case try_build_message message_builder_new host REQ_COMMIT of
                      Inr message \<Rightarrow> Some (ps @ [(message, [])])
                    | Inl _ \<Rightarrow> None))
                (coalesce_damage_rects (mapped_damage sd bd s bw bh force))))"

definition rollback_surface :: "u32 \<Rightarrow> surface_commit \<Rightarrow> 'h ctx_scheme \<Rightarrow> 'h ctx_scheme" where
  "rollback_surface surface commit c =
     (case hm_get (surfaces c) surface of
        Some s \<Rightarrow> c\<lparr>surfaces := hm_insert surface (rollback commit s) (surfaces c)\<rparr>
      | None \<Rightarrow> c)"

text \<open>The rejection of a commit: its state is restored and deferred buffers are retired.\<close>

definition reject_commit :: "bool \<Rightarrow> u32 \<Rightarrow> surface_commit \<Rightarrow> 'h ctx_scheme \<Rightarrow> 'h ctx_scheme" where
  "reject_commit fatal surface commit c =
     retire_eligible_buffers (rollback_surface surface commit
       (if fatal then c\<lparr>fatal_protocol_error := True\<rparr> else c))"

definition prepare_surface_commit :: "u32 \<Rightarrow> 'h ctx_scheme \<Rightarrow> surface_commit \<times> 'h ctx_scheme" where
  "prepare_surface_commit surface c =
     (case hm_get (surfaces c) surface of
        Some s \<Rightarrow>
          (case prepare_commit s of
             (commit, s') \<Rightarrow> (commit, c\<lparr>surfaces := hm_insert surface s' (surfaces c)\<rparr>))
      | None \<Rightarrow> (fst (prepare_commit surface_state_default), c))"

definition force_full_damage :: "'h ctx_scheme \<Rightarrow> surface_commit \<Rightarrow> bool" where
  "force_full_damage c commit \<longleftrightarrow>
     (let sd = damage_rects (surface_damage commit); bd = damage_rects (buffer_damage commit)
      in (case Option.bind (attached_buffer_id commit) (local_buffer c) of
            Some b \<Rightarrow> buf_needs_full_copy b
          | None \<Rightarrow> False) \<or>
         has_full_damage commit \<or>
         (buffer_offset commit \<noteq> (0, 0) \<and> (sd \<noteq> [] \<or> bd \<noteq> [])) \<or>
         (attached_buffer_id commit \<noteq> None \<and> uses_full_mapping commit \<and> sd = [] \<and> bd = []))"

text \<open>The lifecycle edges of a new attachment: \<open>None\<close> is a panic, \<open>False\<close> an inconsistency.\<close>

definition finalize_commit :: "u32 \<Rightarrow> surface_commit \<Rightarrow> 'h ctx_scheme \<Rightarrow> (bool \<times> 'h ctx_scheme) option" where
  "finalize_commit surface commit c =
     (case attachment_transition commit of
        None \<Rightarrow> Some (True, c)
      | Some (previous_buffer, next_buffer) \<Rightarrow>
          let (snapshot_updated, c1) =
            (case next_buffer of
               Some b \<Rightarrow>
                 (case hm_get (surfaces c) surface of
                    Some s \<Rightarrow>
                      (case set_current_buffer_dimensions b (buffer_dimensions c b) s of
                         (ok, s') \<Rightarrow> (ok, c\<lparr>surfaces := hm_insert surface s' (surfaces c)\<rparr>))
                  | None \<Rightarrow> (False, c))
             | None \<Rightarrow> (hm_get (surfaces c) surface \<noteq> None, c))
          in if snapshot_updated then finalize_surface_attachment previous_buffer next_buffer c1
             else Some (False, c1))"

definition invalid_viewport_error :: "u32 \<Rightarrow> 'h ctx_scheme \<Rightarrow> 'h ctx_scheme" where
  "invalid_viewport_error surface c =
     (case find (\<lambda>(_, owner). owner = surface) (viewport_to_wl_surface c) of
        Some (viewport_id, _) \<Rightarrow>
          queue_protocol_error viewport_id 1 (str_bytes ''fractional wp_viewport source requires a destination'') c
      | None \<Rightarrow> c)"

definition on_surface_commit ::
    "commit_io \<Rightarrow> pool_store \<Rightarrow> 'h ctx_scheme \<Rightarrow> (action \<times> copy_trace \<times> 'h ctx_scheme) option" where
  "on_surface_commit io store c =
     (let surface = last_sender_id c
      in case prepare_surface_commit surface c of
        (commit, c1) \<Rightarrow>
          if has_invalid_fractional_viewport commit then
            Some (Drop, [], rollback_surface surface commit (invalid_viewport_error surface c1))
          else
           (case build_surface_commit_messages c1 surface (damage_rects (surface_damage commit))
                   (damage_rects (buffer_damage commit)) (commit_state commit) (force_full_damage c1 commit) of
              None \<Rightarrow> None
            | Some None \<Rightarrow> Some (Drop, [], reject_commit True surface commit c1)
            | Some (Some host_messages) \<Rightarrow>
               (case (case attached_buffer_id commit of
                        None \<Rightarrow> Some (True, [], c1)
                      | Some buffer \<Rightarrow> copy_surface_buffer io store buffer commit c1) of
                  None \<Rightarrow> None
                | Some (commit_ready, trace, c2) \<Rightarrow>
                    if \<not> commit_ready then Some (Drop, trace, reject_commit False surface commit c2)
                    else
                     (case (case attached_buffer_id commit of
                              None \<Rightarrow> (True, c2)
                            | Some buffer \<Rightarrow> wait_for_native_buffer (io_wait io) buffer c2) of
                        (synchronized, c3) \<Rightarrow>
                          if \<not> synchronized then Some (Drop, trace, reject_commit True surface commit c3)
                          else
                           (case finalize_commit surface commit c3 of
                              None \<Rightarrow> None
                            | Some (finalized, c4) \<Rightarrow>
                                if \<not> finalized then Some (Drop, trace, reject_commit True surface commit c4)
                                else Some (Drop, trace @ [QueueBatch host_messages], retire_eligible_buffers
                                       (c4\<lparr>client_to_host_queue := client_to_host_queue c4 @ host_messages\<rparr>)))))))"

section \<open>The pending state\<close>

text \<open>\<open>surfaces.entry(id).or_default()\<close>, changed by \<open>f\<close>.\<close>

definition on_surface_entry ::
    "u32 \<Rightarrow> (surface_state \<Rightarrow> surface_state) \<Rightarrow> 'h ctx_scheme \<Rightarrow> 'h ctx_scheme" where
  "on_surface_entry surface f c =
     c\<lparr>surfaces := hm_insert surface
        (f (case hm_get (surfaces c) surface of Some s \<Rightarrow> s | None \<Rightarrow> surface_state_default)) (surfaces c)\<rparr>"

definition on_attach :: "u32 \<Rightarrow> i32 \<Rightarrow> i32 \<Rightarrow> 'h ctx_scheme \<Rightarrow> action \<times> 'h ctx_scheme" where
  "on_attach buffer x y c =
     (let surface = last_sender_id c;
          version = guest_object_version (shadow_table c) surface
      in if (case version of Some v \<Rightarrow> v \<noteq> 0xFFFFFFFF \<and> v \<ge> 5 | None \<Rightarrow> False) \<and> (x \<noteq> 0 \<or> y \<noteq> 0)
         then (Drop, queue_protocol_error surface 3
                (str_bytes ''wl_surface.attach offset is non-zero for version 5+'') c)
         else
           let legacy = (case version of None \<Rightarrow> True | Some v \<Rightarrow> v < 5 \<or> v = 0xFFFFFFFF)
           in (Forward, retire_eligible_buffers (on_surface_entry surface (\<lambda>s.
                 s\<lparr>pending_attachment := (if buffer = 0 then Detach else Attach buffer),
                   pending_attach_offset := (if buffer \<noteq> 0 \<and> legacy then Some (x, y) else None)\<rparr>) c)))"

definition on_damage :: "i32 \<Rightarrow> i32 \<Rightarrow> i32 \<Rightarrow> i32 \<Rightarrow> 'h ctx_scheme \<Rightarrow> action \<times> 'h ctx_scheme" where
  "on_damage x y width height c =
     (Drop, on_surface_entry (last_sender_id c) (\<lambda>s. s\<lparr>pending_surface_damage :=
        damage_push (damage_rect_new x y width height) (pending_surface_damage s)\<rparr>) c)"

definition on_damage_buffer :: "i32 \<Rightarrow> i32 \<Rightarrow> i32 \<Rightarrow> i32 \<Rightarrow> 'h ctx_scheme \<Rightarrow> action \<times> 'h ctx_scheme" where
  "on_damage_buffer x y width height c =
     (Drop, on_surface_entry (last_sender_id c) (\<lambda>s. s\<lparr>pending_buffer_damage :=
        damage_push (damage_rect_new x y width height) (pending_buffer_damage s)\<rparr>) c)"

definition on_set_buffer_scale :: "i32 \<Rightarrow> 'h ctx_scheme \<Rightarrow> action \<times> 'h ctx_scheme" where
  "on_set_buffer_scale scale c =
     (if scale \<le> 0
      then (Drop, queue_protocol_error (last_sender_id c) 0 (str_bytes ''invalid wl_surface buffer scale'') c)
      else (Forward, on_surface_entry (last_sender_id c) (\<lambda>s. s\<lparr>pending_buffer_scale := Some scale\<rparr>) c))"

definition on_set_buffer_transform :: "i32 \<Rightarrow> 'h ctx_scheme \<Rightarrow> action \<times> 'h ctx_scheme" where
  "on_set_buffer_transform transform c =
     (if \<not> (0 \<le> transform \<and> transform \<le> 7)
      then (Drop, queue_protocol_error (last_sender_id c) 1 (str_bytes ''invalid wl_surface buffer transform'') c)
      else (Forward, on_surface_entry (last_sender_id c)
              (\<lambda>s. s\<lparr>pending_buffer_transform := Some transform\<rparr>) c))"

definition on_offset :: "i32 \<Rightarrow> i32 \<Rightarrow> 'h ctx_scheme \<Rightarrow> action \<times> 'h ctx_scheme" where
  "on_offset x y c =
     (Forward, on_surface_entry (last_sender_id c) (\<lambda>s. s\<lparr>pending_offset := Some (x, y)\<rparr>) c)"

section \<open>Viewports\<close>

definition on_get_viewport :: "u32 \<Rightarrow> u32 \<Rightarrow> 'h ctx_scheme \<Rightarrow> action \<times> 'h ctx_scheme" where
  "on_get_viewport viewport_id surface c =
     (if list_ex (\<lambda>(_, owner). owner = surface) (viewport_to_wl_surface c)
      then (Drop, queue_protocol_error (last_sender_id c) 0 (str_bytes ''wl_surface already has a wp_viewport'') c)
      else (Forward, on_surface_entry surface (\<lambda>s. s\<lparr>pending_viewport := Some (Some viewport_new)\<rparr>)
              (c\<lparr>viewport_to_wl_surface := hm_insert viewport_id surface (viewport_to_wl_surface c)\<rparr>)))"

text \<open>The viewport a request changes: the pending one, else the current one, else a new one.\<close>

definition edited_viewport :: "surface_state \<Rightarrow> viewport_state" where
  "edited_viewport s =
     (case pending_viewport s of
        Some (Some v) \<Rightarrow> v
      | _ \<Rightarrow> (case viewport s of Some v \<Rightarrow> v | None \<Rightarrow> viewport_new))"

definition edit_viewport :: "u32 \<Rightarrow> (viewport_state \<Rightarrow> viewport_state) \<Rightarrow> 'h ctx_scheme \<Rightarrow> 'h ctx_scheme" where
  "edit_viewport surface f c =
     on_surface_entry surface (\<lambda>s. s\<lparr>pending_viewport := Some (Some (f (edited_viewport s)))\<rparr>) c"

definition without_surface :: "'h ctx_scheme \<Rightarrow> action \<times> 'h ctx_scheme" where
  "without_surface c =
     (Drop, queue_protocol_error (last_sender_id c) 3 (str_bytes ''wp_viewport has no associated wl_surface'') c)"

definition on_set_source :: "i32 \<Rightarrow> i32 \<Rightarrow> i32 \<Rightarrow> i32 \<Rightarrow> 'h ctx_scheme \<Rightarrow> action \<times> 'h ctx_scheme" where
  "on_set_source x y width height c =
     (case hm_get (viewport_to_wl_surface c) (last_sender_id c) of
        None \<Rightarrow> without_surface c
      | Some surface \<Rightarrow>
          let unset = ((x, y, width, height) = (-256, -256, -256, -256))
          in if \<not> unset \<and> (x < 0 \<or> y < 0 \<or> width \<le> 0 \<or> height \<le> 0)
             then (Drop, queue_protocol_error (last_sender_id c) 0 (str_bytes ''invalid wp_viewport source'') c)
             else (Forward, edit_viewport surface
                     (\<lambda>v. v\<lparr>vp_source := (if unset then None else Some (x, y, width, height))\<rparr>) c))"

definition on_set_destination :: "i32 \<Rightarrow> i32 \<Rightarrow> 'h ctx_scheme \<Rightarrow> action \<times> 'h ctx_scheme" where
  "on_set_destination width height c =
     (case hm_get (viewport_to_wl_surface c) (last_sender_id c) of
        None \<Rightarrow> without_surface c
      | Some surface \<Rightarrow>
          let unset = (width = -1 \<and> height = -1)
          in if \<not> unset \<and> (width \<le> 0 \<or> height \<le> 0)
             then (Drop, queue_protocol_error (last_sender_id c) 0 (str_bytes ''invalid wp_viewport destination'') c)
             else (Forward, edit_viewport surface
                     (\<lambda>v. v\<lparr>vp_destination := (if unset then None else Some (width, height))\<rparr>) c))"

definition on_viewport_destroy :: "'h ctx_scheme \<Rightarrow> action \<times> 'h ctx_scheme" where
  "on_viewport_destroy c =
     (Forward,
      case hm_get (viewport_to_wl_surface c) (last_sender_id c) of
        None \<Rightarrow> c
      | Some surface \<Rightarrow>
          let c1 = c\<lparr>viewport_to_wl_surface := hm_remove (last_sender_id c) (viewport_to_wl_surface c)\<rparr>
          in case hm_get (surfaces c1) surface of
               None \<Rightarrow> c1
             | Some s \<Rightarrow> c1\<lparr>surfaces := hm_insert surface (s\<lparr>pending_viewport := Some None\<rparr>) (surfaces c1)\<rparr>)"

section \<open>Application IDs\<close>

definition REQ_GET_AURA_SURFACE :: u16 where "REQ_GET_AURA_SURFACE = 0"
definition REQ_SET_APPLICATION_ID :: u16 where "REQ_SET_APPLICATION_ID = 4"
definition REQ_AURA_RELEASE :: u16 where "REQ_AURA_RELEASE = 27"
definition REQ_SET_APP_ID :: u16 where "REQ_SET_APP_ID = 3"
definition REQ_SURFACE_DESTROY :: u16 where "REQ_SURFACE_DESTROY = 0"

definition native_wayland_app_id :: "rust_string \<Rightarrow> rust_string \<Rightarrow> rust_string" where
  "native_wayland_app_id vm app_id =
     str_bytes ''org.chromium.guest_os.'' @ vm @ str_bytes ''.wayland.'' @ app_id"

definition wayland_string_fits_message :: "rust_string \<Rightarrow> bool" where
  "wayland_string_fits_message v =
     (case Option.bind (usize_checked_add (length v) 1) (\<lambda>n. map_option align_down4 (usize_checked_add n 3)) of
        None \<Rightarrow> False
      | Some padded \<Rightarrow>
         (case Option.bind (usize_checked_add 8 4) (\<lambda>h. usize_checked_add h padded) of
            Some len \<Rightarrow> len \<le> 0xFFFF
          | None \<Rightarrow> False))"

text \<open>The host Aura object of a surface, created when there is none: the outer \<open>None\<close> is a panic.\<close>

definition ensure_host_zaura_surface :: "u32 \<Rightarrow> 'h ctx_scheme \<Rightarrow> (u32 option \<times> 'h ctx_scheme) option" where
  "ensure_host_zaura_surface surface c =
     (case get_host_id (shadow_table c) surface of
        None \<Rightarrow> Some (None, c)
      | Some host_surface \<Rightarrow>
         (case wl_surface_to_zaura_surface c host_surface of
            Some z \<Rightarrow> Some (Some z, c)
          | None \<Rightarrow>
             (case host_zaura_shell_id c of
                None \<Rightarrow> Some (None, c)
              | Some shell \<Rightarrow>
                 (case allocate_host_id (shadow_table c) of
                    (None, _) \<Rightarrow> None
                  | (Some z, t) \<Rightarrow>
                     let c1 = c\<lparr>shadow_table :=
                           track_host_interface_with_version z ''zaura_surface'' (host_zaura_shell_version c) t\<rparr>
                     in (case try_build_message (write_u32 host_surface (write_u32 z message_builder_new))
                                shell REQ_GET_AURA_SURFACE of
                           Inl _ \<Rightarrow> Some (None, c1\<lparr>shadow_table := remove_host_interface z (shadow_table c1)\<rparr>)
                         | Inr message \<Rightarrow>
                             Some (Some z, c1\<lparr>client_to_host_queue := client_to_host_queue c1 @ [(message, [])],
                               wl_surface_to_zaura_surface := (wl_surface_to_zaura_surface c1)(host_surface \<mapsto> z)\<rparr>))))))"

definition zaura_version :: "u32 \<Rightarrow> 'h ctx_scheme \<Rightarrow> u32" where
  "zaura_version z c =
     (case host_object_version (shadow_table c) z of Some v \<Rightarrow> v | None \<Rightarrow> host_zaura_shell_version c)"

definition set_zaura_app_id :: "rust_string \<Rightarrow> u32 \<Rightarrow> 'h ctx_scheme \<Rightarrow> (action \<times> 'h ctx_scheme) option" where
  "set_zaura_app_id formatted surface c =
     (case ensure_host_zaura_surface surface c of
        None \<Rightarrow> None
      | Some (None, c1) \<Rightarrow> Some (Drop, c1)
      | Some (Some z, c1) \<Rightarrow>
          if zaura_version z c1 < 5 then Some (Drop, c1)
          else (case try_build_message (write_string formatted message_builder_new) z REQ_SET_APPLICATION_ID of
                  Inl _ \<Rightarrow> Some (Drop, c1)
                | Inr message \<Rightarrow>
                    Some (Drop, c1\<lparr>client_to_host_queue := client_to_host_queue c1 @ [(message, [])]\<rparr>)))"

definition on_set_app_id :: "rust_string \<Rightarrow> 'h ctx_scheme \<Rightarrow> (action \<times> 'h ctx_scheme) option" where
  "on_set_app_id app_id c =
     (let toplevel = last_sender_id c
      in case get_host_id (shadow_table c) toplevel of
           None \<Rightarrow> Some (Drop, c)
         | Some host_toplevel \<Rightarrow>
             let formatted = native_wayland_app_id (vm_identifier c) app_id
             in if \<not> wayland_string_fits_message formatted then Some (Drop, c)
                else (case try_build_message (write_string formatted message_builder_new) host_toplevel REQ_SET_APP_ID of
                        Inl _ \<Rightarrow> Some (Drop, c)
                      | Inr message \<Rightarrow>
                          let c1 = c\<lparr>client_to_host_queue := client_to_host_queue c @ [(message, [])]\<rparr>
                          in case hm_get (xdg_toplevel_to_wl_surface c1) toplevel of
                               None \<Rightarrow> Some (Drop, c1)
                             | Some surface \<Rightarrow> set_zaura_app_id formatted surface c1))"

section \<open>xdg objects\<close>

definition on_get_xdg_surface :: "u32 \<Rightarrow> u32 \<Rightarrow> 'h ctx_scheme \<Rightarrow> action \<times> 'h ctx_scheme" where
  "on_get_xdg_surface xdg surface c =
     (Forward, c\<lparr>xdg_surface_to_wl_surface := hm_insert xdg surface (xdg_surface_to_wl_surface c)\<rparr>)"

definition on_xdg_surface_destroy :: "'h ctx_scheme \<Rightarrow> action \<times> 'h ctx_scheme" where
  "on_xdg_surface_destroy c =
     (Forward,
      case hm_get (xdg_surface_to_wl_surface c) (last_sender_id c) of
        None \<Rightarrow> c
      | Some surface \<Rightarrow>
          c\<lparr>xdg_surface_to_wl_surface := hm_remove (last_sender_id c) (xdg_surface_to_wl_surface c),
            xdg_toplevel_to_wl_surface := hm_retain (\<lambda>_ s. s \<noteq> surface) (xdg_toplevel_to_wl_surface c)\<rparr>)"

definition on_get_toplevel :: "u32 \<Rightarrow> 'h ctx_scheme \<Rightarrow> action \<times> 'h ctx_scheme" where
  "on_get_toplevel toplevel c =
     (Forward,
      case hm_get (xdg_surface_to_wl_surface c) (last_sender_id c) of
        None \<Rightarrow> c
      | Some surface \<Rightarrow>
          c\<lparr>xdg_toplevel_to_wl_surface := hm_insert toplevel surface (xdg_toplevel_to_wl_surface c)\<rparr>)"

definition on_toplevel_destroy :: "'h ctx_scheme \<Rightarrow> action \<times> 'h ctx_scheme" where
  "on_toplevel_destroy c =
     (Forward, c\<lparr>xdg_toplevel_to_wl_surface := hm_remove (last_sender_id c) (xdg_toplevel_to_wl_surface c)\<rparr>)"

section \<open>The end of a surface\<close>

text \<open>The Aura object of a destroyed surface: released where the host knows the request.\<close>

definition release_zaura_surface :: "u32 \<Rightarrow> 'h ctx_scheme \<Rightarrow> 'h ctx_scheme option" where
  "release_zaura_surface host_surface c =
     (case wl_surface_to_zaura_surface c host_surface of
        None \<Rightarrow> Some c
      | Some z \<Rightarrow>
          let c1 = c\<lparr>wl_surface_to_zaura_surface := (wl_surface_to_zaura_surface c)(host_surface := None)\<rparr>
          in if zaura_version z c1 \<ge> 38 then
               map_option (\<lambda>message. c1\<lparr>client_to_host_queue := client_to_host_queue c1 @ [(message, [])],
                   shadow_table := snd (mark_pending_destroy_host z (shadow_table c1))\<rparr>)
                 (build_message message_builder_new z REQ_AURA_RELEASE)
             else Some (c1\<lparr>shadow_table := retire_host_interface z (shadow_table c1)\<rparr>))"

fun forget_gtk_surfaces :: "u32 list \<Rightarrow> 'h ctx_scheme \<Rightarrow> 'h ctx_scheme" where
  "forget_gtk_surfaces [] c = c"
| "forget_gtk_surfaces (g # gs) c =
     forget_gtk_surfaces gs
       (case hm_get (gtk_surfaces c) g of
          None \<Rightarrow> c
        | Some state \<Rightarrow>
            let c1 = c\<lparr>gtk_surfaces := hm_remove g (gtk_surfaces c)\<rparr>
            in case gtk_shells c1 (gs_shell_id state) of
                 None \<Rightarrow> c1
               | Some shell \<Rightarrow> c1\<lparr>gtk_shells := (gtk_shells c1)(gs_shell_id state \<mapsto>
                     shell\<lparr>shell_surfaces := shell_surfaces shell - {g}\<rparr>)\<rparr>)"

text \<open>The focus of the keyboards and of the text inputs leaves the surface.\<close>

definition unfocus_surface :: "u32 \<Rightarrow> 'h ctx_scheme \<Rightarrow> 'h ctx_scheme option" where
  "unfocus_surface surface c =
     (case focus_destroy_surface surface (kb_focus c) of
        (update, f) \<Rightarrow>
          map_option (\<lambda>d. d\<lparr>key_generations :=
              foldl (\<lambda>r kb. clear_keyboard kb r) (key_generations d) (retired_keyboards update)\<rparr>)
            (Option.bind (apply_keyboard_focus_changes (seat_changes update) (c\<lparr>kb_focus := f\<rparr>))
               (repair_destroyed_surface_focus surface)))"

definition on_surface_destroy :: "'h ctx_scheme \<Rightarrow> (action \<times> 'h ctx_scheme) option" where
  "on_surface_destroy c =
     (let surface = last_sender_id c
      in case get_host_id (shadow_table c) surface of
           None \<Rightarrow> Some (Drop, c\<lparr>fatal_protocol_error := True\<rparr>)
         | Some host \<Rightarrow>
            (case try_build_message message_builder_new host REQ_SURFACE_DESTROY of
               Inl _ \<Rightarrow> Some (Drop, c\<lparr>fatal_protocol_error := True\<rparr>)
             | Inr message \<Rightarrow>
                 let buffer = Option.bind (hm_get (surfaces c) surface) current_buffer_id
                 in Option.bind (release_zaura_surface host c) (\<lambda>c1.
                      let c2 = forget_gtk_surfaces
                            (map fst (filter (\<lambda>(_, s). gs_wl_surface_id s = surface) (gtk_surfaces c1))) c1;
                          c3 = c2\<lparr>client_to_host_queue := client_to_host_queue c2 @ [(message, [])],
                                  surfaces := hm_remove surface (surfaces c2)\<rparr>;
                          c4 = retire_eligible_buffers (clear_buffer_uses_after_surface_destroy buffer c3);
                          c5 = c4\<lparr>viewport_to_wl_surface := hm_retain (\<lambda>_ s. s \<noteq> surface) (viewport_to_wl_surface c4),
                                  key_generations := clear_peek_watermarks_for_surface surface (key_generations c4)\<rparr>
                      in map_option (\<lambda>c6. (Drop,
                            c6\<lparr>xdg_surface_to_wl_surface := hm_retain (\<lambda>_ s. s \<noteq> surface) (xdg_surface_to_wl_surface c6),
                               xdg_toplevel_to_wl_surface := hm_retain (\<lambda>_ s. s \<noteq> surface) (xdg_toplevel_to_wl_surface c6),
                               shadow_table := mark_pending_destroy surface (shadow_table c6)\<rparr>))
                           (unfocus_surface surface c5))))"

end
