(* ===== verification/Surface_Commit.thy ===== *)
theory Surface_Commit
  imports Surface_Handler
begin

text \<open>
  What a \<open>wl_surface.commit\<close> does as a whole: it is applied completely or not at all, the pixels
  are in host storage before the host hears of the commit, and the damage sent covers the
  damage received.
\<close>

section \<open>What the steps leave alone\<close>

lemma retire_frame [simp]:
  "surfaces (retire_eligible_buffers c) = surfaces c"
  "client_to_host_queue (retire_eligible_buffers c) =
     client_to_host_queue c @ map (\<lambda>(_, h). buffer_destructor h) (retire_candidates c)"
  by (simp_all add: retire_eligible_buffers_def retire_loop_queue)

lemma host_id_surfaces [simp]: "render_buffer_host_id (c\<lparr>surfaces := m\<rparr>) b = render_buffer_host_id c b"
  by (simp add: render_buffer_host_id_def split: option.split)

lemma same_buffers: "\<exists>r. c = c\<lparr>render_buffers := r\<rparr>"
  by (rule exI [of _ "render_buffers c"]) simp

lemma copy_frame:
  assumes "copy_surface_buffer io store b commit c = Some (ok, trace, d)"
  shows "\<exists>r. d = c\<lparr>render_buffers := r\<rparr>"
  using assms by (auto simp: copy_surface_buffer_def intro: same_buffers split: option.splits)

lemma on_guest_buffer_frame: "\<exists>r. snd (on_guest_buffer f b c) = c\<lparr>render_buffers := r\<rparr>"
  by (auto simp: on_guest_buffer_def with_registry_def intro: same_buffers split: option.split prod.split)

lemma wait_frame:
  assumes "wait_for_native_buffer wait b c = (ok, d)"
  shows "\<exists>r. d = c\<lparr>render_buffers := r\<rparr>"
  using assms on_guest_buffer_frame [of enable_implicit_sync_fallback b c]
  by (auto simp: wait_for_native_buffer_def enable_native_buffer_implicit_sync_def
      intro: same_buffers split: option.splits if_splits)

text \<open>A commit changes one surface only, and does not create or delete one.\<close>

definition only_surface :: "u32 \<Rightarrow> (u32, surface_state) hmap \<Rightarrow> (u32, surface_state) hmap \<Rightarrow> bool" where
  "only_surface k m m' \<longleftrightarrow>
     (\<forall>j. j \<noteq> k \<longrightarrow> hm_get m' j = hm_get m j) \<and> (hm_get m' k = None \<longleftrightarrow> hm_get m k = None)"

lemma only_surface_refl [simp]: "only_surface k m m"
  by (simp add: only_surface_def)

lemma only_surface_trans: "only_surface k m m' \<Longrightarrow> only_surface k m' m'' \<Longrightarrow> only_surface k m m''"
  by (simp add: only_surface_def)

lemma only_surface_insert: "hm_get m k = Some s \<Longrightarrow> only_surface k m (hm_insert k s' m)"
  by (simp add: only_surface_def)

lemma finalize_attachment_frame:
  assumes "finalize_surface_attachment p n c = Some (ok, d)"
  shows "\<exists>r. d = c\<lparr>render_buffers := r\<rparr>"
  using assms by (auto simp: finalize_surface_attachment_def intro: same_buffers split: option.splits)

text \<open>The finalized surface: the dimensions of the new content are remembered.\<close>

definition with_dimensions :: "surface_commit \<Rightarrow> 'h ctx_scheme \<Rightarrow> surface_state \<Rightarrow> surface_state" where
  "with_dimensions commit c s =
     (case attachment commit of
        Attach b \<Rightarrow> snd (set_current_buffer_dimensions b (buffer_dimensions c b) s)
      | _ \<Rightarrow> s)"

lemma finalize_frame:
  assumes "finalize_commit k commit c = Some (ok, d)"
  shows "\<exists>r m. d = c\<lparr>surfaces := m, render_buffers := r\<rparr> \<and> only_surface k (surfaces c) m \<and>
    (ok \<longrightarrow> hm_get m k = map_option (with_dimensions commit c) (hm_get (surfaces c) k))"
proof (cases "attachment_transition commit")
  case None
  then have "ok" "d = c" "attachment commit = Unchanged"
    using assms by (auto simp: finalize_commit_def attachment_transition_def transition_from_def
        split: surface_attachment.splits)
  then have "d = c\<lparr>surfaces := surfaces c, render_buffers := render_buffers c\<rparr> \<and>
      hm_get (surfaces c) k = map_option (with_dimensions commit c) (hm_get (surfaces c) k)"
    by (cases "hm_get (surfaces c) k") (simp_all add: with_dimensions_def)
  then show ?thesis
    using \<open>d = c\<close> by (intro exI [of _ "render_buffers c"] exI [of _ "surfaces c"]) simp
next
  case (Some t)
  obtain p n where t: "t = (p, n)"
    by fastforce
  have close: "\<exists>r m. d = c\<lparr>surfaces := m, render_buffers := r\<rparr> \<and> only_surface k (surfaces c) m \<and>
    (ok \<longrightarrow> hm_get m k = map_option (with_dimensions commit c) (hm_get (surfaces c) k))"
    if "(if u then finalize_surface_attachment p n (c\<lparr>surfaces := m\<rparr>) else Some (False, c\<lparr>surfaces := m\<rparr>)) = Some (ok, d)"
      "only_surface k (surfaces c) m"
      "u \<Longrightarrow> hm_get m k = map_option (with_dimensions commit c) (hm_get (surfaces c) k)" for u m
  proof (cases u)
    case True
    with that(1) finalize_attachment_frame [of p n "c\<lparr>surfaces := m\<rparr>" ok d]
    obtain r where "d = c\<lparr>surfaces := m, render_buffers := r\<rparr>"
      by auto
    with that(2,3) True show ?thesis
      by blast
  next
    case False
    then have "d = c\<lparr>surfaces := m, render_buffers := render_buffers c\<rparr>" "\<not> ok"
      using that(1) by auto
    with that(2) show ?thesis
      by blast
  qed
  show ?thesis
  proof (cases n)
    case None
    then have "attachment commit = Detach"
      using Some t by (simp add: attachment_transition_def transition_from_def split: surface_attachment.splits)
    then show ?thesis
      using assms Some t None
      by (intro close [where u = "hm_get (surfaces c) k \<noteq> None" and m = "surfaces c"]; cases "hm_get (surfaces c) k")
        (simp_all add: finalize_commit_def with_dimensions_def)
  next
    fix b assume b: "n = Some b"
    then have a: "attachment commit = Attach b"
      using Some t by (simp add: attachment_transition_def transition_from_def split: surface_attachment.splits)
    show ?thesis
    proof (cases "hm_get (surfaces c) k")
      case None
      then show ?thesis
        using assms Some t b
        by (intro close [where u = False and m = "surfaces c"]) (simp_all add: finalize_commit_def)
    next
      fix s assume s: "hm_get (surfaces c) k = Some s"
      obtain u s' where us: "set_current_buffer_dimensions b (buffer_dimensions c b) s = (u, s')"
        by fastforce
      show ?thesis
        using assms Some t b s us a
        by (intro close [where u = u and m = "hm_insert k s' (surfaces c)"]; cases u)
          (simp_all add: finalize_commit_def with_dimensions_def only_surface_insert)
    qed
  qed
qed

lemma finalize_surfaces:
  assumes "finalize_commit k commit c = Some (True, d)"
  shows "only_surface k (surfaces c) (surfaces d)"
    "hm_get (surfaces d) k = map_option (with_dimensions commit c) (hm_get (surfaces c) k)"
  using finalize_frame [OF assms] by auto

section \<open>The outcomes of a commit\<close>

lemma commit_cases [consumes 2, case_names invalid rejected accepted]:
  assumes run: "on_surface_commit io store c = Some (a, trace, c')"
    and prep: "prepare_surface_commit (last_sender_id c) c = (commit, c1)"
  obtains
    "has_invalid_fractional_viewport commit" "a = Drop" "trace = []"
      "c' = rollback_surface (last_sender_id c) commit (invalid_viewport_error (last_sender_id c) c1)"
  | fatal r m where "\<not> has_invalid_fractional_viewport commit" "a = Drop"
      "only_surface (last_sender_id c) (surfaces c1) m"
      "c' = reject_commit fatal (last_sender_id c) commit (c1\<lparr>surfaces := m, render_buffers := r\<rparr>)"
  | ms t c2 rw m r where "\<not> has_invalid_fractional_viewport commit" "a = Drop"
      "build_surface_commit_messages c1 (last_sender_id c) (damage_rects (surface_damage commit))
         (damage_rects (buffer_damage commit)) (commit_state commit) (force_full_damage c1 commit) = Some (Some ms)"
      "(case attached_buffer_id commit of None \<Rightarrow> Some (True, [], c1)
        | Some b \<Rightarrow> copy_surface_buffer io store b commit c1) = Some (True, t, c2)"
      "(case attached_buffer_id commit of None \<Rightarrow> (True, c2)
        | Some b \<Rightarrow> wait_for_native_buffer (io_wait io) b c2) = (True, c1\<lparr>render_buffers := rw\<rparr>)"
      "finalize_commit (last_sender_id c) commit (c1\<lparr>render_buffers := rw\<rparr>) =
         Some (True, c1\<lparr>surfaces := m, render_buffers := r\<rparr>)"
      "c' = retire_eligible_buffers (c1\<lparr>surfaces := m, render_buffers := r,
         client_to_host_queue := client_to_host_queue c1 @ ms\<rparr>)" "trace = t @ [QueueBatch ms]"
proof -
  let ?k = "last_sender_id c"
  let ?build = "build_surface_commit_messages c1 ?k (damage_rects (surface_damage commit))
         (damage_rects (buffer_damage commit)) (commit_state commit) (force_full_damage c1 commit)"
  let ?copy = "case attached_buffer_id commit of None \<Rightarrow> Some (True, [], c1)
        | Some b \<Rightarrow> copy_surface_buffer io store b commit c1"
  have same: "d = d\<lparr>surfaces := surfaces d, render_buffers := render_buffers d\<rparr>" for d :: "'a ctx_scheme"
    by simp
  show thesis
  proof (cases "has_invalid_fractional_viewport commit")
    case True
    then show thesis
      using run prep by (intro that(1)) (simp_all add: on_surface_commit_def Let_def)
  next
    case valid: False
    show thesis
    proof (cases ?build)
      case None
      then show thesis
        using run prep valid by (simp add: on_surface_commit_def Let_def)
    next
      case built: (Some built)
      show thesis
      proof (cases built)
        case None
        then have "c' = reject_commit True ?k commit c1" "a = Drop"
          using run prep valid built by (simp_all add: on_surface_commit_def Let_def)
        then show thesis
          using that(2) [OF valid _ only_surface_refl] same [of c1] by metis
      next
        case ms: (Some ms)
        show thesis
        proof (cases ?copy)
          case None
          then show thesis
            using run prep valid built ms by (simp add: on_surface_commit_def Let_def)
        next
          case copied: (Some x)
          obtain ready tr c2 where x: "x = (ready, tr, c2)"
            by (metis prod_cases3)
          have "\<exists>r2. c2 = c1\<lparr>render_buffers := r2\<rparr>"
          proof (cases "attached_buffer_id commit")
            case None
            then have "c2 = c1"
              using copied x by simp
            then show ?thesis
              by (simp only: same_buffers)
          next
            case (Some b)
            then show ?thesis
              using copied x copy_frame [of io store b commit c1] by simp
          qed
          then obtain r2 where c2: "c2 = c1\<lparr>render_buffers := r2\<rparr>"
            by blast
          obtain synced c3 where w: "(case attached_buffer_id commit of None \<Rightarrow> (True, c2)
              | Some b \<Rightarrow> wait_for_native_buffer (io_wait io) b c2) = (synced, c3)"
            by fastforce
          obtain r3 where c3: "c3 = c1\<lparr>render_buffers := r3\<rparr>"
            using w wait_frame [of "io_wait io" _ c2 synced c3] c2 by (cases "attached_buffer_id commit") auto
          show thesis
          proof (cases "ready \<and> synced")
            case False
            define fatal where "fatal = ready"
            define r where "r = (if ready then r3 else r2)"
            have "c' = reject_commit fatal ?k commit (if ready then c3 else c2) \<and> a = Drop"
              using False run prep valid built ms copied x w
              by (cases ready) (simp_all add: on_surface_commit_def Let_def fatal_def)
            moreover have "(if ready then c3 else c2) = c1\<lparr>surfaces := surfaces c1, render_buffers := r\<rparr>"
              by (simp add: c2 c3 r_def)
            ultimately show thesis
              using that(2) [OF valid _ only_surface_refl, of fatal r] by simp
          next
            case True
            show thesis
            proof (cases "finalize_commit ?k commit c3")
              case None
              then show thesis
                using run prep valid built ms copied x w True by (simp add: on_surface_commit_def Let_def)
            next
              case fin: (Some y)
              obtain ok c4 where y: "y = (ok, c4)"
                by fastforce
              obtain r m where c4: "c4 = c1\<lparr>surfaces := m, render_buffers := r\<rparr>" "only_surface ?k (surfaces c1) m"
                using finalize_frame [of ?k commit c3 ok c4] fin y c3 by auto
              show thesis
              proof (cases ok)
                case False
                then have "c' = reject_commit True ?k commit c4" "a = Drop"
                  using run prep valid built ms copied x w True fin y by (simp_all add: on_surface_commit_def Let_def)
                then show thesis
                  using that(2) [OF valid _ c4(2)] c4(1) by metis
              next
                case fine: True
                have "c' = retire_eligible_buffers (c4\<lparr>client_to_host_queue := client_to_host_queue c4 @ ms\<rparr>)"
                  "a = Drop" "trace = tr @ [QueueBatch ms]"
                  using run prep valid built ms copied x w True fin y fine by (simp_all add: on_surface_commit_def Let_def)
                then show thesis
                  using that(3) [where ms = ms and t = tr and rw = r3 and m = m and r = r] valid built ms copied x w True fin y fine c3 c4 by simp
              qed
            qed
          qed
        qed
      qed
    qed
  qed
qed

section \<open>The batch of messages\<close>

definition damage_packet :: "u32 \<Rightarrow> damage_rect \<Rightarrow> packet" where
  "damage_packet host r =
     (u32_to_ne_bytes host @ u32_to_ne_bytes (push_bit 16 24 OR 2) @
      u32_to_ne_bytes (as_u32 (dr_x r)) @ u32_to_ne_bytes (as_u32 (dr_y r)) @
      u32_to_ne_bytes (as_u32 (dr_width r)) @ u32_to_ne_bytes (as_u32 (dr_height r)), [])"

definition commit_packet :: "u32 \<Rightarrow> packet" where
  "commit_packet host = empty_request host REQ_COMMIT"

lemma damage_request_eq: "damage_request host r = Some (damage_packet host r)"
proof -
  let ?b = "write_i32 (dr_height r) (write_i32 (dr_width r)
             (write_i32 (dr_y r) (write_i32 (dr_x r) message_builder_new)))"
  have p: "mb_payload ?b = u32_to_ne_bytes (as_u32 (dr_x r)) @ u32_to_ne_bytes (as_u32 (dr_y r)) @
      u32_to_ne_bytes (as_u32 (dr_width r)) @ u32_to_ne_bytes (as_u32 (dr_height r))"
    by (simp add: write_i32_def)
  then have "try_build_message ?b host REQ_DAMAGE = Inr (fst (damage_packet host r))"
    using try_build_message_ok [of ?b host REQ_DAMAGE] by (simp add: damage_packet_def REQ_DAMAGE_def)
  then show ?thesis
    by (simp add: damage_request_def damage_packet_def)
qed

lemma damage_requests_eq:
  "damage_requests host rs =
     Some (map (damage_packet host) (filter (\<lambda>r. 0 < dr_width r \<and> 0 < dr_height r) rs))"
  by (induction rs) (simp_all add: damage_request_eq not_le [symmetric])

lemma commit_request_eq:
  "try_build_message message_builder_new host REQ_COMMIT = Inr (fst (commit_packet host))"
  using try_build_message_ok [of message_builder_new host REQ_COMMIT]
  by (simp add: commit_packet_def empty_request_def)

lemma build_messages_eq:
  assumes "get_host_id (shadow_table c) surface = Some host"
    and "coalesce_damage_rects (case committed_dimensions c s of (bw, bh) \<Rightarrow> mapped_damage sd bd s bw bh force) = Some out"
    and "list_all rect_pos out"
  shows "build_surface_commit_messages c surface sd bd s force =
    Some (Some (map (damage_packet host) out @ [commit_packet host]))"
proof -
  have f: "filter (\<lambda>r. 0 < dr_width r \<and> 0 < dr_height r) out = out"
    using assms(3) by (auto simp: filter_id_conv list_all_iff rect_pos_def)
  have "(fst (commit_packet host), []) = commit_packet host"
    by (simp add: commit_packet_def empty_request_def)
  with assms f show ?thesis
    by (cases "committed_dimensions c s")
      (simp add: build_surface_commit_messages_def damage_requests_eq commit_request_eq)
qed

section \<open>The surfaces of a session\<close>

text \<open>Every value the requests of a surface and its viewport accept.\<close>

definition viewport_ok :: "viewport_state \<Rightarrow> bool" where
  "viewport_ok v \<longleftrightarrow>
     (case vp_source v of
        Some (x, y, w, h) \<Rightarrow>
          0 \<le> x \<and> 0 \<le> y \<and> 0 < w \<and> 0 < h \<and> in_i32 x \<and> in_i32 y \<and> in_i32 w \<and> in_i32 h
      | None \<Rightarrow> True) \<and>
     (case vp_destination v of
        Some (w, h) \<Rightarrow> 0 < w \<and> 0 < h \<and> in_i32 w \<and> in_i32 h
      | None \<Rightarrow> True)"

definition damage_list_ok :: "damage_region \<Rightarrow> bool" where
  "damage_list_ok d \<longleftrightarrow> list_all rect_pos (damage_rects d) \<and> length (damage_rects d) \<le> MAX_PENDING_DAMAGE_RECTS"

definition dimensions_ok :: "i32 \<times> i32 \<Rightarrow> bool" where
  "dimensions_ok d \<longleftrightarrow> in_i32 (fst d) \<and> in_i32 (snd d)"

definition surface_ok :: "surface_state \<Rightarrow> bool" where
  "surface_ok s \<longleftrightarrow>
     0 < current_buffer_scale s \<and> in_i32 (current_buffer_scale s) \<and>
     0 \<le> current_buffer_transform s \<and> current_buffer_transform s \<le> 7 \<and>
     pred_option (\<lambda>n. 0 < n \<and> in_i32 n) (pending_buffer_scale s) \<and>
     pred_option (\<lambda>t. 0 \<le> t \<and> t \<le> 7) (pending_buffer_transform s) \<and>
     pred_option viewport_ok (viewport s) \<and> pred_option (pred_option viewport_ok) (pending_viewport s) \<and>
     damage_list_ok (pending_surface_damage s) \<and> damage_list_ok (pending_buffer_damage s) \<and>
     pred_option dimensions_ok (current_buffer_dimensions s)"

lemma surface_ok_default [simp]: "surface_ok surface_state_default"
  by (simp add: surface_ok_def surface_state_default_def in_i32_def damage_list_ok_def damage_rects_def
      current_buffer_dimensions_def)

lemma surface_ok_committed: "surface_ok s \<Longrightarrow> surface_ok (committed s)"
  by (auto simp: surface_ok_def committed_def current_buffer_dimensions_def damage_list_ok_def damage_rects_def
      split: option.splits surface_attachment.splits)

lemma surface_ok_values: "surface_ok s \<Longrightarrow> surface_values_ok s"
  by (cases "viewport s")
    (auto simp: surface_ok_def surface_values_ok_def viewport_ok_def viewport_source_def viewport_destination_def
      split: option.splits)

text \<open>The dimensions of every registered buffer are values of the wire.\<close>

definition buffers_ok :: "'h ctx_scheme \<Rightarrow> bool" where
  "buffers_ok c \<longleftrightarrow> (\<forall>h. pred_option dimensions_ok (dimensions (render_buffers c) h))"

lemma buffers_ok_dimensions: "buffers_ok c \<Longrightarrow> pred_option dimensions_ok (buffer_dimensions c b)"
  by (cases "render_buffer_host_id c b")
    (simp_all add: buffers_ok_def buffer_dimensions_def buffer_dimensions_for_host_def)

lemma committed_dimensions_ok:
  assumes "buffers_ok c" "surface_ok s"
  shows "dimensions_ok (committed_dimensions c s)"
proof (cases "Option.bind (current_buffer_id s) (buffer_dimensions c)")
  case (Some d)
  then obtain b where "buffer_dimensions c b = Some d"
    by (auto simp: bind_eq_Some_conv)
  with buffers_ok_dimensions [OF assms(1), of b] Some show ?thesis
    by (simp add: committed_dimensions_def)
next
  case None
  then show ?thesis
    using assms(2) by (auto simp: committed_dimensions_def surface_ok_def dimensions_ok_def in_i32_def split: option.split)
qed

lemma mapped_damage_ok:
  assumes "surface_ok s" "list_all rect_pos sd" "list_all rect_pos bd" "dimensions_ok (bw, bh)"
  shows "list_all rect_ok (mapped_damage sd bd s bw bh force)"
  using assms mapped_rects_ok [OF surface_ok_values [OF assms(1)]]
  by (auto simp: mapped_damage_def list_all_iff rect_pos_def dimensions_ok_def)

lemma build_messages_total:
  assumes "surface_ok s" "buffers_ok c" "list_all rect_pos sd" "list_all rect_pos bd"
    and "get_host_id (shadow_table c) surface = Some host"
  obtains out where
    "build_surface_commit_messages c surface sd bd s force =
       Some (Some (map (damage_packet host) out @ [commit_packet host]))"
    "list_all rect_pos out"
    "\<And>p bw bh. committed_dimensions c s = (bw, bh) \<Longrightarrow> covered p (mapped_damage sd bd s bw bh force) \<Longrightarrow> covered p out"
proof -
  obtain bw bh where d: "committed_dimensions c s = (bw, bh)"
    by fastforce
  then have "list_all rect_ok (mapped_damage sd bd s bw bh force)"
    using mapped_damage_ok [OF assms(1,3,4)] committed_dimensions_ok [OF assms(2,1)] by simp
  from coalesce_total [OF this] obtain out where
    "coalesce_damage_rects (mapped_damage sd bd s bw bh force) = Some out" "list_all rect_pos out"
    "\<forall>p. covered p (mapped_damage sd bd s bw bh force) \<longrightarrow> covered p out"
    by blast
  with build_messages_eq [OF assms(5), where s = s and sd = sd and bd = bd and force = force and out = out] d show thesis
    by (intro that [of out]) auto
qed

lemma build_messages_shape:
  assumes "build_surface_commit_messages c surface sd bd s force = Some (Some ms)"
  obtains host rects where "get_host_id (shadow_table c) surface = Some host"
    "ms = map (damage_packet host) rects @ [commit_packet host]"
proof -
  obtain host where h: "get_host_id (shadow_table c) surface = Some host"
    using assms by (auto simp: build_surface_commit_messages_def split: option.splits)
  obtain bw bh where d: "committed_dimensions c s = (bw, bh)"
    by fastforce
  have "(fst (commit_packet host), []) = commit_packet host"
    by (simp add: commit_packet_def empty_request_def)
  then show thesis
    using assms h d that [OF h] by (auto simp: build_surface_commit_messages_def damage_requests_eq commit_request_eq)
qed

section \<open>All or nothing\<close>

lemma prepare_surface_eq:
  "hm_get (surfaces c) k = Some s \<Longrightarrow>
     prepare_surface_commit k c =
       (fst (prepare_commit s), c\<lparr>surfaces := hm_insert k (committed s) (surfaces c)\<rparr>)"
  by (simp add: prepare_surface_commit_def prepare_commit_snd [symmetric] split: prod.split)

lemma error_frame [simp]:
  "surfaces (queue_protocol_error o' code msg c) = surfaces c"
  "client_to_host_queue (queue_protocol_error o' code msg c) = client_to_host_queue c"
  "shadow_table (queue_protocol_error o' code msg c) = shadow_table c"
  "surfaces (invalid_viewport_error k c) = surfaces c"
  "client_to_host_queue (invalid_viewport_error k c) = client_to_host_queue c"
  by (auto simp: queue_protocol_error_def invalid_viewport_error_def Let_def split: option.split)

text \<open>Equal but for the remembered dimensions of the current buffer.\<close>

definition same_content :: "surface_state \<Rightarrow> surface_state \<Rightarrow> bool" where
  "same_content s s' \<longleftrightarrow>
     s'\<lparr>current_content := current_content s\<rparr> = s \<and> current_buffer_id s' = current_buffer_id s"

lemma same_content_refl [simp]: "same_content s s"
  by (simp add: same_content_def)

lemma same_content_dimensions: "same_content s (with_dimensions commit c s)"
  by (auto simp: same_content_def with_dimensions_def set_current_buffer_dimensions_def current_buffer_id_def
      split: surface_attachment.split option.split)

lemma rollback_eq:
  assumes "hm_get (surfaces d) k = Some s'"
  shows "hm_get (surfaces (rollback_surface k commit d)) j =
      (if j = k then Some (previous commit) else hm_get (surfaces d) j)"
    "client_to_host_queue (rollback_surface k commit d) = client_to_host_queue d"
  using assms by (simp_all add: rollback_surface_def rollback_def)

text \<open>The two outcomes: the batch is queued, its pixels copied, or nothing happened.\<close>

definition accepted_outcome ::
    "commit_io \<Rightarrow> pool_store \<Rightarrow> surface_state \<Rightarrow> 'h ctx_scheme \<Rightarrow> copy_trace \<Rightarrow> packet list \<Rightarrow> surface_state \<Rightarrow> bool" where
  "accepted_outcome io store s c trace ms s' \<longleftrightarrow>
     (let k = last_sender_id c; commit = fst (prepare_commit s);
          c1 = c\<lparr>surfaces := hm_insert k (committed s) (surfaces c)\<rparr>
      in build_surface_commit_messages c1 k (damage_rects (pending_surface_damage s))
           (damage_rects (pending_buffer_damage s)) (committed s) (force_full_damage c1 commit) = Some (Some ms) \<and>
         (case attached_buffer_id commit of
            None \<Rightarrow> trace = [QueueBatch ms] \<and> s' = with_dimensions commit c1 (committed s)
          | Some b \<Rightarrow> \<exists>t c2 d. copy_surface_buffer io store b commit c1 = Some (True, t, c2) \<and>
              trace = t @ [QueueBatch ms] \<and>
              wait_for_native_buffer (io_wait io) b c2 = (True, d) \<and> s' = with_dimensions commit d (committed s)))"

lemma commit_outcome:
  assumes "on_surface_commit io store c = Some (a, trace, c')"
    and "hm_get (surfaces c) (last_sender_id c) = Some s"
  shows "a = Drop \<and> (\<forall>k. k \<noteq> last_sender_id c \<longrightarrow> hm_get (surfaces c') k = hm_get (surfaces c) k) \<and>
    ((\<exists>ms hs s'. client_to_host_queue c' = client_to_host_queue c @ ms @ map buffer_destructor hs \<and>
         hm_get (surfaces c') (last_sender_id c) = Some s' \<and> same_content (committed s) s' \<and>
         accepted_outcome io store s c trace ms s') \<or>
     (\<exists>hs. client_to_host_queue c' = client_to_host_queue c @ map buffer_destructor hs \<and>
         hm_get (surfaces c') (last_sender_id c) = Some s))"
proof -
  let ?k = "last_sender_id c" and ?commit = "fst (prepare_commit s)"
  let ?c1 = "c\<lparr>surfaces := hm_insert ?k (committed s) (surfaces c)\<rparr>"
  have prev: "previous ?commit = s"
    by (simp add: prepare_commit_shape)
  have sweep: "map (\<lambda>(_, h). buffer_destructor h) cs = map buffer_destructor (map snd cs)" for cs
    by (simp add: case_prod_beta)
  from assms(1) prepare_surface_eq [OF assms(2)] show ?thesis
  proof (cases rule: commit_cases)
    case invalid
    have "client_to_host_queue c' = client_to_host_queue c @ map buffer_destructor []"
      using invalid(4) rollback_eq(2) [of "invalid_viewport_error ?k ?c1" ?k "committed s"] by simp
    then have "\<exists>hs. client_to_host_queue c' = client_to_host_queue c @ map buffer_destructor hs"
      by blast
    moreover have "hm_get (surfaces c') = hm_get (surfaces c)"
      using invalid(4) rollback_eq(1) [of "invalid_viewport_error ?k ?c1" ?k "committed s" ?commit] prev assms(2)
      by (simp add: fun_eq_iff)
    ultimately show ?thesis
      using invalid(2) assms(2) by simp
  next
    case (rejected fatal r m)
    let ?d = "if fatal then ?c1\<lparr>surfaces := m, render_buffers := r, fatal_protocol_error := True\<rparr>
      else ?c1\<lparr>surfaces := m, render_buffers := r\<rparr>"
    let ?e = "rollback_surface ?k ?commit ?d"
    obtain s' where s': "hm_get m ?k = Some s'"
      using rejected(3) by (auto simp: only_surface_def)
    have d: "surfaces ?d = m" "client_to_host_queue ?d = client_to_host_queue c"
      by simp_all
    have c': "c' = retire_eligible_buffers ?e"
      using rejected(4) by (simp add: reject_commit_def)
    have "client_to_host_queue c' = client_to_host_queue c @ map buffer_destructor (map snd (retire_candidates ?e))"
      using c' rollback_eq(2) [of ?d ?k s' ?commit] s' d by (simp only: retire_frame sweep)
    then have "\<exists>hs. client_to_host_queue c' = client_to_host_queue c @ map buffer_destructor hs"
      by blast
    moreover have "hm_get (surfaces c') = hm_get (surfaces c)"
    proof
      fix j
      have "hm_get (surfaces c') j = (if j = ?k then Some s else hm_get m j)"
        using c' rollback_eq(1) [of ?d ?k s' ?commit j] s' d prev by (simp only: retire_frame)
      then show "hm_get (surfaces c') j = hm_get (surfaces c) j"
        using rejected(3) assms(2) by (simp add: only_surface_def)
    qed
    ultimately show ?thesis
      using rejected(2) assms(2) by simp
  next
    case (accepted ms t c2 rw m r)
    let ?d = "?c1\<lparr>surfaces := m, render_buffers := r, client_to_host_queue := client_to_host_queue ?c1 @ ms\<rparr>"
    have m: "only_surface ?k (surfaces ?c1) m"
      "hm_get m ?k = Some (with_dimensions ?commit (?c1\<lparr>render_buffers := rw\<rparr>) (committed s))"
      using finalize_surfaces [OF accepted(6)] by simp_all
    have "client_to_host_queue c' = client_to_host_queue c @ ms @ map buffer_destructor (map snd (retire_candidates ?d))"
      using accepted(7) sweep by simp
    moreover have "surfaces c' = m"
      using accepted(7) by simp
    moreover have "accepted_outcome io store s c trace ms
        (with_dimensions ?commit (?c1\<lparr>render_buffers := rw\<rparr>) (committed s))"
      using accepted(3,4,5,8) by (auto simp: accepted_outcome_def Let_def prepare_commit_damage
          prepare_commit_shape(2) prepare_commit_snd split: option.splits)
    ultimately have "\<exists>ms hs s'. client_to_host_queue c' = client_to_host_queue c @ ms @ map buffer_destructor hs \<and>
         hm_get (surfaces c') (last_sender_id c) = Some s' \<and> same_content (committed s) s' \<and>
         accepted_outcome io store s c trace ms s'"
      using m(2) same_content_dimensions by metis
    moreover have "\<forall>j. j \<noteq> ?k \<longrightarrow> hm_get (surfaces c') j = hm_get (surfaces c) j"
      using m(1) \<open>surfaces c' = m\<close> by (simp add: only_surface_def)
    ultimately show ?thesis
      using accepted(2) by blast
  qed
qed

text \<open>C6: A commit is applied completely or not at all: either the damage and the commit enter the host's
  stream as one batch and the surface's pending state becomes its current state, or the host hears
  nothing of it and the surface is exactly as before, with every pending request still pending; in both cases no
  other surface changes, and only destructors of buffers nobody uses follow.\<close>

theorem commit_is_all_or_nothing:
  assumes "on_surface_commit io store c = Some (a, trace, c')"
    and "hm_get (surfaces c) (last_sender_id c) = Some s"
    and "get_host_id (shadow_table c) (last_sender_id c) = Some host"
  shows "a = Drop \<and> (\<forall>k. k \<noteq> last_sender_id c \<longrightarrow> hm_get (surfaces c') k = hm_get (surfaces c) k) \<and>
    ((\<exists>rects hs s'. client_to_host_queue c' =
         client_to_host_queue c @ map (damage_packet host) rects @ [commit_packet host] @ map buffer_destructor hs \<and>
         hm_get (surfaces c') (last_sender_id c) = Some s' \<and> same_content (committed s) s') \<or>
     (\<exists>hs. client_to_host_queue c' = client_to_host_queue c @ map buffer_destructor hs \<and>
         hm_get (surfaces c') (last_sender_id c) = Some s))"
proof -
  have "\<exists>rects. ms = map (damage_packet host) rects @ [commit_packet host]"
    if "accepted_outcome io store s c trace ms s'" for ms s'
    using that build_messages_shape assms(3) unfolding accepted_outcome_def Let_def
    by (fastforce elim!: build_messages_shape)
  with commit_outcome [OF assms(1,2)] show ?thesis
    by (fastforce simp del: map_append)
qed

section \<open>The damage the host hears of\<close>

lemma accepted_commit:
  assumes "on_surface_commit io store c = Some (a, trace, c')"
    and "hm_get (surfaces c) (last_sender_id c) = Some s"
    and "hm_get (surfaces c') (last_sender_id c) \<noteq> Some s"
  obtains ms hs where "client_to_host_queue c' = client_to_host_queue c @ ms @ map buffer_destructor hs"
    "\<exists>s'. accepted_outcome io store s c trace ms s'"
  using commit_outcome [OF assms(1,2)] assms(3) by blast







section \<open>The pixels\<close>

lemma bracketed_copy_cases:
  assumes "bracketed_copy io b commit pool = Some (True, t)"
  shows "\<exists>out. copy_to_destination io b commit pool = Some (True, out) \<and>
    t = (if buf_dmabuf_sync b then [SyncIoctl SYNC_BEGIN_WRITE] else []) @
       (case out of Some bytes \<Rightarrow> [CopyTo bytes] | None \<Rightarrow> []) @
       (if buf_dmabuf_sync b then [SyncIoctl SYNC_END_WRITE] else [])"
    "buf_dmabuf_sync b \<Longrightarrow> io_begin io \<and> io_end io"
  using assms by (auto simp: bracketed_copy_def sync_begin_def sync_end_def Let_def split: if_splits prod.splits)

text \<open>The pixels of the buffer a commit must bring to the host: all of them after a failed copy or
  when single damages were dropped, else the damaged ones, where surface damage under a scale or viewport counts for the whole.\<close>

definition must_copy :: "buffer_state \<Rightarrow> surface_commit \<Rightarrow> int \<times> int \<Rightarrow> bool" where
  "must_copy b commit p \<longleftrightarrow>
     buf_needs_full_copy b \<or> has_full_damage commit \<or> covered p (damage_rects (buffer_damage commit)) \<or>
     (if uses_full_mapping commit then damage_rects (surface_damage commit) \<noteq> []
      else covered p (damage_rects (surface_damage commit)))"

text \<open>The storage the pixels go to: its bytes before, its size as recorded, and its stride.  It is the
  mapping of the dma-buf, or the buffer object as the allocator maps it for the copy.\<close>

definition copy_destination :: "commit_io \<Rightarrow> buffer_state \<Rightarrow> (u8 list \<times> nat \<times> nat) option" where
  "copy_destination io b =
     (if buf_dest_ptr b \<noteq> 0 then Some (io_dest io, buf_dest_size b, unat (buf_bo_stride b))
      else map_option (\<lambda>(stride, bytes). (bytes, length bytes, stride)) (io_bo_map io))"

definition buffer_layout :: "buffer_state \<Rightarrow> pool_state \<Rightarrow> nat \<Rightarrow> nat \<Rightarrow> shm_copy_layout" where
  "buffer_layout b pool dest_size stride =
     \<lparr>sl_pool_size = pool_size pool, sl_dest_size = dest_size, sl_format = buf_format b,
      sl_offset = nat (buf_offset b), sl_width = nat (buf_width b), sl_src_stride = unat (buf_stride b),
      sl_dst_stride = stride, sl_dst_plane1_offset = buf_plane1_offset b,
      sl_dst_plane1_stride = buf_plane1_stride b, sl_height = nat (buf_height b)\<rparr>"

definition copied_rects :: "buffer_state \<Rightarrow> surface_commit \<Rightarrow> damage_rect list" where
  "copied_rects b commit =
     (if buf_needs_full_copy b \<or> has_full_damage commit \<or>
         (uses_full_mapping commit \<and> damage_rects (surface_damage commit) \<noteq> [])
      then [damage_rect_new 0 0 (buf_width b) (buf_height b)]
      else damage_rects (surface_damage commit) @ damage_rects (buffer_damage commit))"

lemma mapped_copy_eq:
  assumes "copy_destination io b = Some (before, dest_size, stride)"
    and "copy_to_destination io b commit pool = Some (True, out)"
  shows "copy_shm_damage (Some (io_source io)) (Some before) (buffer_layout b pool dest_size stride)
      (copied_rects b commit) = Some (True, out)"
    "0 \<le> buf_width b" "0 \<le> buf_height b" "0 \<le> buf_offset b"
  using assms by (auto simp: copy_to_destination_def copy_destination_def copy_with_def copy_damage_to_ptr_def
      usize_from_i32_def buffer_layout_def copied_rects_def Let_def split: if_splits option.splits)

lemma must_copy_covered:
  assumes "must_copy b commit (int x, int y)" "x < nat (buf_width b)" "y < nat (buf_height b)"
  shows "covered (int x, int y) (copied_rects b commit)"
  using assms by (auto simp: must_copy_def copied_rects_def covered_def in_rect_def split: if_splits)

text \<open>C7: When a commit that attaches a shared-memory buffer takes effect, every pixel it must bring to the
  host is copied, byte for byte, into the host's storage (the mapping of the dma-buf, or the mapped
  buffer object) before the commit is queued; a storage that needs it is locked for writing by the two
  synchronization ioctls, both with success, the one before and the other after the copy.  The buffer
  has a single plane (it is not NV12) and the rows of its storage do not overlap (a row's pixels fit the
  stride); the mappings are as long as recorded.\<close>

theorem committed_pixels_are_on_host:
  assumes "on_surface_commit io store c = Some (a, trace, c')"
    and "hm_get (surfaces c) (last_sender_id c) = Some s" "hm_get (surfaces c') (last_sender_id c) \<noteq> Some s"
    and "surface_ok s" "pending_attachment s = Attach buffer"
    and "render_buffer_host_id c buffer = Some h" "local_copy (render_buffers c) h = Some b"
    and "hm_get store (buf_pool b) = Some pool" "copy_destination io b = Some (before, dest_size, stride)"
    and "buf_format b \<noteq> WL_SHM_FORMAT_NV12" "format_bytes_per_pixel (buf_format b) = Some bpp"
    and "in_i32 (buf_width b)" "in_i32 (buf_height b)" "nat (buf_width b) * bpp \<le> stride"
    and "pool_size pool \<le> length (io_source io)" "dest_size \<le> length before"
    and "length (io_source io) < usize_limit" "length before < usize_limit"
  shows "\<exists>dst ms hs.
    trace = (if buf_dmabuf_sync b
             then [SyncIoctl SYNC_BEGIN_WRITE, CopyTo dst, SyncIoctl SYNC_END_WRITE, QueueBatch ms]
             else [CopyTo dst, QueueBatch ms]) \<and>
    (buf_dmabuf_sync b \<longrightarrow> io_begin io \<and> io_end io) \<and>
    client_to_host_queue c' = client_to_host_queue c @ ms @ map buffer_destructor hs \<and>
    length dst = length before \<and>
    (\<forall>x < nat (buf_width b). \<forall>y < nat (buf_height b). \<forall>k<bpp.
       must_copy b (fst (prepare_commit s)) (int x, int y) \<longrightarrow>
       dst ! (y * stride + x * bpp + k) =
       io_source io ! (nat (buf_offset b) + y * unat (buf_stride b) + x * bpp + k))"
proof -
  let ?c1 = "c\<lparr>surfaces := hm_insert (last_sender_id c) (committed s) (surfaces c)\<rparr>"
  let ?commit = "fst (prepare_commit s)" and ?l = "buffer_layout b pool dest_size stride"
  obtain ms hs where queue: "client_to_host_queue c' = client_to_host_queue c @ ms @ map buffer_destructor hs"
    and acc: "\<exists>s'. accepted_outcome io store s c trace ms s'"
    using accepted_commit [OF assms(1-3)] .
  have "attached_buffer_id ?commit = Some buffer"
    using assms(5) by (simp add: attached_buffer_id_def prepare_commit_shape attachment_buffer_id_def)
  with acc obtain t d where "copy_surface_buffer io store buffer ?commit ?c1 = Some (True, t, d)"
    and trace: "trace = t @ [QueueBatch ms]"
    by (auto simp: accepted_outcome_def Let_def)
  moreover have "render_buffer_host_id ?c1 buffer = Some h"
    using assms(6) by simp
  ultimately have bracket: "bracketed_copy io b ?commit pool = Some (True, t)"
    using assms(7,8) by (auto simp: copy_surface_buffer_def)
  note sync = bracketed_copy_cases(2) [OF bracket]
  from bracketed_copy_cases(1) [OF bracket] obtain out where out: "copy_to_destination io b ?commit pool = Some (True, out)"
    and t: "t = (if buf_dmabuf_sync b then [SyncIoctl SYNC_BEGIN_WRITE] else []) @
       (case out of Some bytes \<Rightarrow> [CopyTo bytes] | None \<Rightarrow> []) @
       (if buf_dmabuf_sync b then [SyncIoctl SYNC_END_WRITE] else [])"
    by blast
  note copy = mapped_copy_eq [OF assms(9) out]
  have rects: "list_all rect_ok (copied_rects b ?commit)"
    using assms(4,12,13) by (auto simp: copied_rects_def list_all_iff surface_ok_def damage_list_ok_def rect_pos_def
        prepare_commit_damage rect_ok_def in_i32_def)
  obtain dst where dst: "out = Some dst"
    using copy(1) by (auto simp: copy_shm_damage_def eq_commute [of "Some _" out] split: option.splits if_splits)
  have fields: "sl_format ?l = buf_format b" "sl_width ?l = nat (buf_width b)" "sl_height ?l = nat (buf_height b)"
    "sl_dst_stride ?l = stride" "sl_src_stride ?l = unat (buf_stride b)"
    "sl_offset ?l = nat (buf_offset b)" "sl_pool_size ?l = pool_size pool" "sl_dest_size ?l = dest_size"
    by (simp_all add: buffer_layout_def)
  have w: "int (sl_width ?l) < 2 ^ 63" "int (sl_height ?l) < 2 ^ 63"
    using assms(12,13) by (simp_all add: fields in_i32_def)
  have pixels: "length dst = length before \<and>
    (\<forall>x < nat (buf_width b). \<forall>y < nat (buf_height b). \<forall>k<bpp. covered (int x, int y) (copied_rects b ?commit) \<longrightarrow>
       dst ! (y * stride + x * bpp + k) =
       io_source io ! (nat (buf_offset b) + y * unat (buf_stride b) + x * bpp + k))"
    using damage_copied_exactly [where l = ?l and src = "io_source io" and dst = before and
        damage = "copied_rects b ?commit" and dst' = dst and bpp = bpp] assms(10,11,14-18) rects w copy(1)
    unfolding fields dst by blast
  have "trace = (if buf_dmabuf_sync b
      then [SyncIoctl SYNC_BEGIN_WRITE, CopyTo dst, SyncIoctl SYNC_END_WRITE, QueueBatch ms]
      else [CopyTo dst, QueueBatch ms])"
    by (simp add: trace t dst)
  then show ?thesis
    using sync queue pixels must_copy_covered
    by (intro exI [of _ dst] exI [of _ ms] exI [of _ hs]) simp
qed

section \<open>Concrete commits\<close>

text \<open>A commit without a new buffer takes effect.\<close>

lemma plain_commit:
  assumes "hm_get (surfaces c) (last_sender_id c) = Some s" "get_host_id (shadow_table c) (last_sender_id c) = Some host"
    and "surface_ok s" "buffers_ok c" "pending_attachment s = Unchanged"
    and "\<not> has_invalid_fractional_viewport (fst (prepare_commit s))"
  obtains t c' where "on_surface_commit io store c = Some (Drop, t, c')"
    "hm_get (surfaces c') (last_sender_id c) = Some (committed s)"
proof -
  let ?c1 = "c\<lparr>surfaces := hm_insert (last_sender_id c) (committed s) (surfaces c)\<rparr>"
  have ok: "surface_ok (committed s)" "buffers_ok ?c1" "get_host_id (shadow_table ?c1) (last_sender_id c) = Some host"
    using assms by (simp_all add: surface_ok_committed buffers_ok_def)
  have pos: "list_all rect_pos (damage_rects (pending_surface_damage s))"
    "list_all rect_pos (damage_rects (pending_buffer_damage s))"
    using assms(3) by (simp_all add: surface_ok_def damage_list_ok_def)
  obtain ms where "build_surface_commit_messages ?c1 (last_sender_id c) (damage_rects (pending_surface_damage s))
      (damage_rects (pending_buffer_damage s)) (committed s) (force_full_damage ?c1 (fst (prepare_commit s))) = Some (Some ms)"
    using build_messages_total [OF ok(1,2) pos ok(3)] by metis
  moreover have "attached_buffer_id (fst (prepare_commit s)) = None" "attachment_transition (fst (prepare_commit s)) = None"
    using assms(5) by (simp_all add: attached_buffer_id_def attachment_transition_def prepare_commit_shape
        attachment_buffer_id_def transition_from_def)
  ultimately have "on_surface_commit io store c = Some (Drop, [QueueBatch ms], retire_eligible_buffers
      (?c1\<lparr>client_to_host_queue := client_to_host_queue ?c1 @ ms\<rparr>))"
    using assms(6) by (simp add: on_surface_commit_def Let_def prepare_surface_eq [OF assms(1)] prepare_commit_damage
        prepare_commit_shape(2) prepare_commit_snd finalize_commit_def)
  then show thesis
    using that by simp
qed

definition damaged_surface :: surface_state where
  "damaged_surface = surface_state_default\<lparr>pending_surface_damage := Rects [damage_rect_new 1 2 3 4]\<rparr>"

definition damaged_context :: ctx where
  "damaged_context = sample_session\<lparr>last_sender_id := 7, surfaces := [(7, damaged_surface)]\<rparr>"

definition idle_io :: commit_io where
  "idle_io = \<lparr>io_channel = False, io_begin = False, io_end = False, io_lock = True, io_source = [7, 9],
     io_dest = [0, 0], io_allocator = False, io_bo_map = None, io_wait = (\<lambda>_. Synchronized)\<rparr>"

lemma damaged_context_ok:
  "hm_get (surfaces damaged_context) (last_sender_id damaged_context) = Some damaged_surface"
  "get_host_id (shadow_table damaged_context) (last_sender_id damaged_context) = Some 21"
  "surface_ok damaged_surface" "buffers_ok damaged_context" "pending_attachment damaged_surface = Unchanged"
  "\<not> has_invalid_fractional_viewport (fst (prepare_commit damaged_surface))"
  "committed damaged_surface = surface_state_default"
  "committed_dimensions damaged_context surface_state_default = (1, 1)"
  by (simp_all add: damaged_context_def damaged_surface_def sample_session_def context_new_def hm_get_def map_id_def
      shadow_table_new_def get_host_id_def surface_ok_def surface_state_default_def in_i32_def damage_list_ok_def
      damage_rects_def rect_pos_def rect_ok_def MAX_PENDING_DAMAGE_RECTS_def current_buffer_dimensions_def
      buffers_ok_def dimensions_def get_active_def has_invalid_fractional_viewport_def prepare_commit_shape
      prepare_commit_snd committed_def committed_dimensions_def current_buffer_id_def)

lemma damaged_commit:
  obtains t c' where "on_surface_commit idle_io [] damaged_context = Some (Drop, t, c')"
    "hm_get (surfaces c') (last_sender_id damaged_context) = Some surface_state_default"
  using plain_commit [OF damaged_context_ok(1-6)] damaged_context_ok(7) by metis

lemma damaged_surface_differs: "surface_state_default \<noteq> damaged_surface"
  by (simp add: damaged_surface_def surface_state_default_def)

theorem commit_is_all_or_nothing_witness:
  "\<exists>t c' rects hs. on_surface_commit idle_io [] damaged_context = Some (Drop, t, c') \<and>
     client_to_host_queue c' = client_to_host_queue damaged_context @ map (damage_packet 21) rects @
       [commit_packet 21] @ map buffer_destructor hs"
proof -
  obtain t c' where c': "on_surface_commit idle_io [] damaged_context = Some (Drop, t, c')"
    "hm_get (surfaces c') (last_sender_id damaged_context) = Some surface_state_default"
    using damaged_commit .
  from commit_is_all_or_nothing [OF c'(1) damaged_context_ok(1,2)] c' damaged_surface_differs show ?thesis
    by auto
qed


text \<open>A commit that attaches a shared-memory buffer of one pixel.\<close>

definition pixel_buffer :: buffer_state where
  "pixel_buffer = \<lparr>buf_pool = 1, buf_offset = 0, buf_width = 1, buf_height = 1, buf_stride = 2,
     buf_format = 0x36314752, buf_bo = None, buf_dmabuf_fd = None, buf_bo_stride = 2, buf_plane1_offset = 0,
     buf_plane1_stride = 0, buf_dmabuf_sync = False, buf_dest_ptr = 4096, buf_dest_size = 2,
     buf_needs_full_copy = False\<rparr>"

definition pixel_store :: pool_store where
  "pixel_store = [(1, \<lparr>client_fd = 3, client_ptr = 8192, pool_size = 2\<rparr>)]"

definition pixel_surface :: surface_state where
  "pixel_surface = surface_state_default\<lparr>pending_attachment := Attach 6,
     pending_buffer_damage := Rects [damage_rect_new 0 0 1 1]\<rparr>"

definition pixel_context :: ctx where
  "pixel_context = sample_session\<lparr>last_sender_id := 7, surfaces := [(7, pixel_surface)],
     render_buffers := [(HostId 20, RbGuestAlive \<lparr>arb_backing = LocalCopy pixel_buffer,
        arb_use_state = NeverSubmitted, arb_implicit_sync_fallback = False\<rparr>)]\<rparr>"

lemma pixel_context_ok:
  "hm_get (surfaces pixel_context) 7 = Some pixel_surface" "last_sender_id pixel_context = 7"
  "get_host_id (shadow_table pixel_context) 7 = Some 21" "get_host_id (shadow_table pixel_context) 6 = Some 20"
  "surface_ok pixel_surface" "buffers_ok pixel_context" "pending_attachment pixel_surface = Attach 6"
  "\<not> has_invalid_fractional_viewport (fst (prepare_commit pixel_surface))"
  "render_buffer_host_id pixel_context 6 = Some (HostId 20)"
  "local_copy (render_buffers pixel_context) (HostId 20) = Some pixel_buffer"
  by (simp_all add: pixel_context_def pixel_surface_def sample_session_def context_new_def hm_get_def map_id_def
      shadow_table_new_def get_host_id_def surface_ok_def surface_state_default_def in_i32_def damage_list_ok_def
      damage_rects_def rect_pos_def rect_ok_def MAX_PENDING_DAMAGE_RECTS_def current_buffer_dimensions_def
      buffers_ok_def dimensions_def get_active_def has_invalid_fractional_viewport_def prepare_commit_shape
      prepare_commit_snd committed_def dimensions_ok_def pixel_buffer_def render_buffer_host_id_def contains_def
      local_copy_def Render_Buffer.active_def)

text \<open>The context after the pending state became current.\<close>

definition pixel_committed :: ctx where
  "pixel_committed = pixel_context\<lparr>surfaces := hm_insert 7 (committed pixel_surface) (surfaces pixel_context)\<rparr>"

lemma pixel_copy:
  "copy_shm_damage (Some [7, 9]) (Some [0, 0]) (buffer_layout pixel_buffer \<lparr>client_fd = 3, client_ptr = 8192, pool_size = 2\<rparr> 2 2)
     [damage_rect_new 0 0 1 1] = Some (True, Some [7, 9])"
  by (simp add: buffer_layout_def pixel_buffer_def usize_limit_def format_bytes_per_pixel_def
      WL_SHM_FORMAT_NV12_def dest_fits_def copy_shm_damage_def coalesce_damage_rects_def coalesce_step_def
      damage_edges_def i64_checked_add_def absorb_loop.simps damage_edges_fit_i32_def damage_from_edges_def
      in_i32_def rect_spans_def clipped_damage_def Let_def plane_span_def usize_checked_mul_def
      usize_checked_add_def valid_plane_copy_def plane_end_def copy_plane_def copy_bytes_def)

lemma pixel_prepared:
  "has_full_damage (fst (prepare_commit pixel_surface)) = False" "uses_full_mapping (fst (prepare_commit pixel_surface)) = False"
  "pending_surface_damage pixel_surface = NoDamage" "pending_buffer_damage pixel_surface = Rects [damage_rect_new 0 0 1 1]"
  by (simp_all add: has_full_damage_def uses_full_mapping_def prepare_commit_damage prepare_commit_offset
      prepare_commit_shape prepare_commit_snd committed_def is_full_def pixel_surface_def surface_state_default_def)

lemma pixel_copied:
  "copy_surface_buffer idle_io pixel_store 6 (fst (prepare_commit pixel_surface)) pixel_committed =
     Some (True, [CopyTo [7, 9]], pixel_committed)"
proof -
  have fields: "buf_pool pixel_buffer = 1" "buf_dmabuf_sync pixel_buffer = False" "buf_dest_ptr pixel_buffer \<noteq> 0"
    "buf_needs_full_copy pixel_buffer = False" "pixel_buffer\<lparr>buf_needs_full_copy := False\<rparr> = pixel_buffer"
    "buf_offset pixel_buffer = 0" "buf_width pixel_buffer = 1" "buf_height pixel_buffer = 1"
    "buf_dest_size pixel_buffer = 2" "buf_bo_stride pixel_buffer = 2"
    by (simp_all add: pixel_buffer_def)
  have "copy_to_destination idle_io pixel_buffer (fst (prepare_commit pixel_surface))
      \<lparr>client_fd = 3, client_ptr = 8192, pool_size = 2\<rparr> = Some (True, Some [7, 9])"
    using pixel_copy by (simp add: copy_to_destination_def copy_with_def copy_damage_to_ptr_def fields usize_from_i32_def
        pixel_prepared prepare_commit_damage damage_rects_def idle_io_def buffer_layout_def Let_def)
  then have "bracketed_copy idle_io pixel_buffer (fst (prepare_commit pixel_surface))
      \<lparr>client_fd = 3, client_ptr = 8192, pool_size = 2\<rparr> = Some (True, [CopyTo [7, 9]])"
    by (simp add: bracketed_copy_def fields) (simp add: idle_io_def MAP_FAILED_def)
  moreover have "local_copy_mut (HostId 20) pixel_buffer (render_buffers pixel_committed) = render_buffers pixel_committed"
    by (simp add: pixel_committed_def pixel_context_def local_copy_mut_def get_active_def hm_get_def
        Render_Buffer.active_def put_active_def hm_insert_def active_mut_def)
  ultimately show ?thesis
    using pixel_context_ok(9,10)
    by (simp add: copy_surface_buffer_def pixel_committed_def pixel_store_def hm_get_def fields)
qed

lemma pixel_finalized:
  "\<exists>d. finalize_commit 7 (fst (prepare_commit pixel_surface)) pixel_committed = Some (True, d)"
proof -
  let ?content = "\<lparr>sc_buffer_id = Some 6, sc_dimensions = None\<rparr> :: surface_content_snapshot"
  have content: "current_content (committed pixel_surface) = Some ?content" "current_buffer_id pixel_surface = None"
    by (simp_all add: committed_def pixel_surface_def surface_state_default_def current_buffer_id_def)
  have "can_submit (render_buffers pixel_context) (HostId 20)"
    "\<exists>r. submit (HostId 20) (render_buffers pixel_context) = (True, r)"
    by (simp_all add: can_submit_def submit_def get_active_def Render_Buffer.active_def hm_get_def pixel_context_def)
  with pixel_context_ok(9) show ?thesis
    by (auto simp: finalize_commit_def attachment_transition_def prepare_commit_shape pixel_context_ok(7)
        transition_from_def pixel_committed_def finalize_surface_attachment_def resolve_attachment_def
        set_current_buffer_dimensions_def content finalize_attachment_def Let_def)
qed

lemma pixel_commit:
  obtains ms c' where "on_surface_commit idle_io pixel_store pixel_context =
      Some (Drop, [CopyTo [7, 9], QueueBatch ms], c')"
    "hm_get (surfaces c') 7 \<noteq> Some pixel_surface"
proof -
  let ?commit = "fst (prepare_commit pixel_surface)"
  have ok: "surface_ok (committed pixel_surface)" "buffers_ok pixel_committed" "get_host_id (shadow_table pixel_committed) 7 = Some 21"
    using pixel_context_ok by (simp_all add: surface_ok_committed buffers_ok_def pixel_committed_def)
  have pos: "list_all rect_pos (damage_rects (pending_surface_damage pixel_surface))"
    "list_all rect_pos (damage_rects (pending_buffer_damage pixel_surface))"
    using pixel_context_ok(5) by (simp_all add: surface_ok_def damage_list_ok_def)
  obtain ms where ms: "build_surface_commit_messages pixel_committed 7 (damage_rects (pending_surface_damage pixel_surface))
      (damage_rects (pending_buffer_damage pixel_surface)) (committed pixel_surface)
      (force_full_damage pixel_committed ?commit) = Some (Some ms)"
    using build_messages_total [OF ok(1,2) pos ok(3)] by metis
  obtain d where d: "finalize_commit 7 ?commit pixel_committed = Some (True, d)"
    using pixel_finalized by blast
  have wait: "wait_for_native_buffer w 6 pixel_committed = (True, pixel_committed)" for w
  proof -
    have "native_sync_fds (render_buffers pixel_context) (HostId 20) = None"
      "\<not> uses_implicit_sync_fallback (render_buffers pixel_context) (HostId 20)"
      by (simp_all add: uses_implicit_sync_fallback_def native_sync_fds_def get_active_def
          Render_Buffer.active_def hm_get_def pixel_context_def)
    with pixel_context_ok(9) show ?thesis
      by (simp add: wait_for_native_buffer_def native_buffer_uses_implicit_sync_def
          native_buffer_sync_fds_def pixel_committed_def)
  qed
  have prep: "prepare_surface_commit 7 pixel_context = (?commit, pixel_committed)"
    using prepare_surface_eq [OF pixel_context_ok(1)] by (simp add: pixel_committed_def)
  have att: "attached_buffer_id ?commit = Some 6"
    by (simp add: attached_buffer_id_def prepare_commit_shape pixel_context_ok(7) attachment_buffer_id_def)
  have run: "on_surface_commit idle_io pixel_store pixel_context = Some (Drop, [CopyTo [7, 9], QueueBatch ms],
      retire_eligible_buffers (d\<lparr>client_to_host_queue := client_to_host_queue d @ ms\<rparr>))"
    using ms pixel_copied d by (simp add: on_surface_commit_def Let_def pixel_context_ok(2,8) prep
        prepare_commit_damage prepare_commit_shape(2) prepare_commit_snd att wait)
  have "hm_get (surfaces d) 7 = Some (with_dimensions ?commit pixel_committed (committed pixel_surface))"
    using finalize_surfaces(2) [OF d] by (simp add: pixel_committed_def)
  moreover have "pending_attachment (with_dimensions ?commit pixel_committed (committed pixel_surface)) = Unchanged"
    by (auto simp: with_dimensions_def set_current_buffer_dimensions_def committed_def
        split: surface_attachment.split option.split)
  ultimately have "hm_get (surfaces d) 7 \<noteq> Some pixel_surface"
    using pixel_context_ok(7) by auto
  with run that show thesis
    by simp
qed

theorem committed_pixels_are_on_host_witness:
  "\<exists>c' dst ms. on_surface_commit idle_io pixel_store pixel_context =
     Some (Drop, [CopyTo dst, QueueBatch ms], c') \<and> length dst = 2 \<and> dst ! 0 = 7 \<and> dst ! 1 = 9"
proof -
  obtain ms c' where c': "on_surface_commit idle_io pixel_store pixel_context =
      Some (Drop, [CopyTo [7, 9], QueueBatch ms], c')" "hm_get (surfaces c') 7 \<noteq> Some pixel_surface"
    using pixel_commit .
  have fields: "buf_pool pixel_buffer = 1" "buf_dest_ptr pixel_buffer \<noteq> 0" "buf_format pixel_buffer = 0x36314752"
    "buf_width pixel_buffer = 1" "buf_height pixel_buffer = 1" "buf_bo_stride pixel_buffer = 2" "buf_offset pixel_buffer = 0"
    "buf_dest_size pixel_buffer = 2" "buf_stride pixel_buffer = 2"
    by (simp_all add: pixel_buffer_def)
  have io: "io_source idle_io = [7, 9]" "io_dest idle_io = [0, 0]"
    by (simp_all add: idle_io_def)
  have must: "must_copy pixel_buffer (fst (prepare_commit pixel_surface)) (0, 0)"
    by (simp add: must_copy_def prepare_commit_damage pixel_prepared damage_rects_def covered_def in_rect_def)
  have store: "hm_get pixel_store (buf_pool pixel_buffer) = Some \<lparr>client_fd = 3, client_ptr = 8192, pool_size = 2\<rparr>"
    by (simp add: pixel_store_def hm_get_def fields)
  have sync: "\<not> buf_dmabuf_sync pixel_buffer"
    by (simp add: pixel_buffer_def)
  have dest: "copy_destination idle_io pixel_buffer = Some ([0, 0], 2, 2)"
    by (simp add: copy_destination_def fields io)
  have "\<exists>dst ms'. [CopyTo [7, 9], QueueBatch ms] = [CopyTo dst, QueueBatch ms'] \<and> length dst = 2 \<and> dst ! 0 = 7 \<and> dst ! 1 = 9"
    using committed_pixels_are_on_host [OF c'(1) _ _ pixel_context_ok(5,7,9,10) store dest, of 2]
      pixel_context_ok(1,2) c'(2) must sync
    by (force simp: fields io format_bytes_per_pixel_def WL_SHM_FORMAT_NV12_def in_i32_def usize_limit_def less_Suc_eq numeral_2_eq_2)
  with c'(1) show ?thesis
    by auto
qed

end
