(* ===== verification/Surface_Session.thy ===== *)
theory Surface_Session
  imports Surface_Commit
begin

text \<open>
  The surfaces of a client over a whole session: every request keeps their values within the
  protocol's ranges, a destroyed surface leaves no reference behind, and the application IDs
  the host sees are namespaced.
\<close>

section \<open>What the focus machinery does not see\<close>

text \<open>
  A view of the context that does not depend on the bookkeeping of host activation, and one
  that does not depend on the text inputs and keys at all.
\<close>

locale activation_blind =
  fixes view :: "'h ctx_scheme \<Rightarrow> 'v"
  assumes table: "view (c\<lparr>shadow_table := t\<rparr>) = view c"
    and to_host: "view (c\<lparr>client_to_host_queue := q\<rparr>) = view c"
    and barriers: "view (c\<lparr>text_input_activation_barriers := b\<rparr>) = view c"
    and fatal: "view (c\<lparr>fatal_protocol_error := f\<rparr>) = view c"
    and put: "hm_get (text_inputs c) g = Some s \<Longrightarrow> active_surface s' = active_surface s \<Longrightarrow>
      view (c\<lparr>text_inputs := hm_insert g s' (text_inputs c)\<rparr>) = view c"
begin

lemma put': "hm_get (text_inputs c) g = Some s \<Longrightarrow> active_surface s' = active_surface s \<Longrightarrow>
    view (put_text_input g s' c) = view c"
  by (simp add: put_text_input_def put)

lemma put_sent: "hm_get (text_inputs c) g = Some s \<Longrightarrow> active_surface s' = active_surface s \<Longrightarrow>
    view (put_text_input g s' (c\<lparr>client_to_host_queue := q\<rparr>)) = view c"
  using put' [of "c\<lparr>client_to_host_queue := q\<rparr>" g s s'] by (simp add: to_host)

lemma draining:
  assumes "begin_host_draining callback s = (started, s')"
  shows "active_surface s' = active_surface s"
  using assms by (auto simp: begin_host_draining_def split: if_splits host_activation_state.splits)

lemma barrier_view:
  assumes "queue_host_deactivation_barrier g v1 seat c = Some (ok, c')"
  shows "view c' = view c"
  using assms draining
  by (auto simp: queue_host_deactivation_barrier_def Let_def table to_host barriers fatal put'
      split: prod.splits option.splits sum.splits if_splits)

lemma activation_view:
  assumes "update_host_activation g c = Some c'"
  shows "view c' = view c"
proof (cases "hm_get (text_inputs c) g")
  case None
  with assms show ?thesis
    by (simp add: update_host_activation_def)
next
  case (Some s)
  have d: "active_surface (snd (deactivate_host_without_barrier s)) = active_surface s"
    by (simp add: deactivate_host_without_barrier_def split: host_activation_state.split)
  have a: "active_surface s' = active_surface s" if "activate_host s = (x, s')" for x s'
    using that by (auto simp: activate_host_def split: if_splits host_activation_state.splits)
  show ?thesis
    using assms Some a barrier_view
    by (auto simp: update_host_activation_def Let_def to_host put' [OF Some] put' [OF Some d] put_sent [OF Some]
        split: if_splits option.splits prod.splits bool.splits)
qed

lemma activations_view:
  "try_each update_host_activation gs c = Some c' \<Longrightarrow> view c' = view c"
  by (induction gs arbitrary: c) (auto split: option.splits dest: activation_view)

end

text \<open>Moving the focus of the keyboards is seen by the text inputs and the keys only.\<close>

locale focus_blind = activation_blind view for view :: "'h ctx_scheme \<Rightarrow> 'v" +
  assumes texts: "view (c\<lparr>text_inputs := x\<rparr>) = view c"
    and keys: "view (c\<lparr>key_generations := k\<rparr>) = view c"
    and to_guest: "view (c\<lparr>host_to_client_queue := q\<rparr>) = view c"
begin

lemma targets_view: "apply_focus_targets ups c = Some (es, ids, c') \<Longrightarrow> view c' = view c"
proof (induction ups arbitrary: c es ids)
  case (Cons u ups)
  show ?case
    using Cons.prems Cons.IH
    by (cases u) (fastforce simp: put_text_input_def texts split: option.splits prod.splits)
qed simp

lemma focus_updates_view:
  assumes "apply_text_input_focus_updates ups c = Some c'"
  shows "view c' = view c"
  using assms by (auto simp: apply_text_input_focus_updates_def to_guest
      split: option.splits dest!: activations_view targets_view)

lemma change_view:
  assumes "apply_keyboard_focus_change change c = Some c'"
  shows "view c' = view c"
  using assms by (auto simp: apply_keyboard_focus_change_def Let_def end_backspace_repeat_for_seat_def keys
      split: if_splits dest!: focus_updates_view)

lemma changes_view: "apply_keyboard_focus_changes changes c = Some c' \<Longrightarrow> view c' = view c"
  unfolding apply_keyboard_focus_changes_def
  by (induction changes arbitrary: c) (auto split: option.splits dest: change_view)

lemma unfocus_view:
  assumes "unfocus_surface k c = Some c'" and focus: "\<And>f. view (c\<lparr>kb_focus := f\<rparr>) = view c"
  shows "view c' = view c"
  using assms(1)
  by (auto simp: unfocus_surface_def repair_destroyed_surface_focus_def keys focus bind_eq_Some_conv
      split: prod.splits dest!: focus_updates_view changes_view)

end

text \<open>The surfaces and the objects built on them.\<close>

definition surface_view :: "'h ctx_scheme \<Rightarrow> (u32, surface_state) hmap \<times> (u32, u32) hmap \<times> (u32, u32) hmap \<times>
    (u32, u32) hmap \<times> (u32, gtk_surface_state) hmap \<times> (u32 \<rightharpoonup> gtk_shell_state) \<times> (u32 \<rightharpoonup> u32) \<times> render_registry" where
  "surface_view c = (surfaces c, viewport_to_wl_surface c, xdg_surface_to_wl_surface c,
     xdg_toplevel_to_wl_surface c, gtk_surfaces c, gtk_shells c, wl_surface_to_zaura_surface c, render_buffers c)"

interpretation sv: focus_blind surface_view
  by unfold_locales (simp_all add: surface_view_def)

interpretation fv: activation_blind "\<lambda>c. (kb_focus c, \<lambda>g. map_option active_surface (hm_get (text_inputs c) g))"
  by unfold_locales (auto simp: fun_eq_iff)

interpretation kv: focus_blind kb_focus
  by unfold_locales simp_all

section \<open>The focus leaves a destroyed surface\<close>

lemma focus_destroy_forgets:
  assumes "focus_ok r" "focus_destroy_surface k r = (u, r')"
  shows "surface_for_seat r' seat \<noteq> Some k"
proof
  assume "surface_for_seat r' seat = Some k"
  then obtain kb f where f: "focus_for_keyboard r' kb = Some f" "kf_guest_surface f = k"
    using focus_destroy_exact [OF assms] surface_for_seat_Some by blast
  define ks where "ks = sort (map fst (filter (\<lambda>(_, f). kf_guest_surface f = k) (keyboards r)))"
  have "focus_for_keyboard r' kb = (if kb \<in> set ks then None else focus_for_keyboard r kb)"
    using assms(2) by (auto simp: focus_destroy_surface_def Let_def ks_def [symmetric] focus_for_keyboard_def
        remove_fold_view [unfolded focus_for_keyboard_def])
  with f have "kb \<notin> set ks" "focus_for_keyboard r kb = Some f"
    by (auto split: if_splits)
  moreover from this have "(kb, f) \<in> set (keyboards r)"
    by (auto simp: focus_for_keyboard_def hm_get_def dest: map_of_SomeD)
  ultimately show False
    using f(2) by (force simp: ks_def)
qed

lemma targets_leave:
  assumes "apply_focus_targets ups c = Some (es, ids, d)" "\<forall>(g, x)\<in>set ups. x \<noteq> Some k"
    and "hm_get (text_inputs d) g = Some s" "active_surface s = Some k"
  shows "g \<notin> fst ` set ups \<and> (\<exists>s0. hm_get (text_inputs c) g = Some s0 \<and> active_surface s0 = Some k)"
  using assms
proof (induction ups arbitrary: c es ids)
  case (Cons u ups)
  obtain i x where u: "u = (i, x)"
    by fastforce
  show ?case
  proof (cases "hm_get (text_inputs c) i")
    case None
    then have "apply_focus_targets ups c = Some (es, ids, d)"
      using Cons.prems(1) u by simp
    from Cons.IH [OF this] Cons.prems None u show ?thesis
      by auto
  next
    case (Some t)
    then obtain es' ids' where
      "apply_focus_targets ups (put_text_input i (snd (apply_focus x t)) c) = Some (es', ids', d)"
      using Cons.prems(1) u by (auto split: prod.splits option.splits)
    from Cons.IH [OF this] Cons.prems u show ?thesis
      by (auto simp: apply_focus_def split: if_splits)
  qed
qed auto

lemma repair_leaves:
  assumes "repair_destroyed_surface_focus k c = Some c'" "\<And>seat. surface_for_seat (kb_focus c) seat \<noteq> Some k"
    and "hm_get (text_inputs c') g = Some s"
  shows "active_surface s \<noteq> Some k"
proof
  assume k: "active_surface s = Some k"
  define ups where "ups = map (\<lambda>(guest, s). (guest, surface_for_seat (kb_focus c) (guest_seat s)))
      (filter (\<lambda>(_, s). active_surface s = Some k) (text_inputs c))"
  obtain es ids d where d: "apply_focus_targets ups c = Some (es, ids, d)"
    "try_each update_host_activation ids (d\<lparr>host_to_client_queue := host_to_client_queue d @ es\<rparr>) = Some c'"
    using assms(1) by (auto simp: repair_destroyed_surface_focus_def apply_text_input_focus_updates_def ups_def
        split: option.splits)
  from fv.activations_view [OF d(2)] assms(3) k obtain s1
    where s1: "hm_get (text_inputs d) g = Some s1" "active_surface s1 = Some k"
    by (auto simp: fun_eq_iff eq_commute [of "Some (Some k)"] dest!: spec [of _ g])
  have "\<forall>(g, x)\<in>set ups. x \<noteq> Some k"
    using assms(2) by (auto simp: ups_def)
  from targets_leave [OF d(1) this s1] obtain s0 where
    "g \<notin> fst ` set ups" "hm_get (text_inputs c) g = Some s0" "active_surface s0 = Some k"
    by blast
  then show False
    by (force simp: ups_def hm_get_def dest: map_of_SomeD)
qed

text \<open>After \<open>unfocus_surface\<close> no seat and no text input is on the surface.\<close>

lemma unfocus_leaves:
  assumes "unfocus_surface k c = Some c'" "focus_ok (kb_focus c)"
  shows "surface_for_seat (kb_focus c') seat \<noteq> Some k"
    "hm_get (text_inputs c') g = Some s \<Longrightarrow> active_surface s \<noteq> Some k"
proof -
  obtain u f where f: "focus_destroy_surface k (kb_focus c) = (u, f)"
    by fastforce
  obtain d e where d: "apply_keyboard_focus_changes (seat_changes u) (c\<lparr>kb_focus := f\<rparr>) = Some d"
    "repair_destroyed_surface_focus k d = Some e" "kb_focus c' = kb_focus e" "text_inputs c' = text_inputs e"
    using assms(1) f by (auto simp: unfocus_surface_def bind_eq_Some_conv)
  have "kb_focus d = f" "kb_focus e = f"
    using kv.changes_view [OF d(1)] d(2) kv.focus_updates_view by (auto simp: repair_destroyed_surface_focus_def)
  then show "surface_for_seat (kb_focus c') seat \<noteq> Some k"
    "hm_get (text_inputs c') g = Some s \<Longrightarrow> active_surface s \<noteq> Some k"
    using focus_destroy_forgets [OF assms(2) f] d(3,4) repair_leaves [OF d(2)] by auto
qed

section \<open>The destruction of a surface\<close>

lemma mapping_fields [simp]:
  "viewport_to_wl_surface (retire_destroyed_buffer_mapping g h c) = viewport_to_wl_surface c"
  "xdg_surface_to_wl_surface (retire_destroyed_buffer_mapping g h c) = xdg_surface_to_wl_surface c"
  "xdg_toplevel_to_wl_surface (retire_destroyed_buffer_mapping g h c) = xdg_toplevel_to_wl_surface c"
  "gtk_surfaces (retire_destroyed_buffer_mapping g h c) = gtk_surfaces c"
  "gtk_shells (retire_destroyed_buffer_mapping g h c) = gtk_shells c"
  "wl_surface_to_zaura_surface (retire_destroyed_buffer_mapping g h c) = wl_surface_to_zaura_surface c"
  "kb_focus (retire_destroyed_buffer_mapping g h c) = kb_focus c"
  "text_inputs (retire_destroyed_buffer_mapping g h c) = text_inputs c"
  "key_generations (retire_destroyed_buffer_mapping g h c) = key_generations c"
  "last_sender_id (retire_destroyed_buffer_mapping g h c) = last_sender_id c"
  "host_zaura_shell_version (retire_destroyed_buffer_mapping g h c) = host_zaura_shell_version c"
  by (auto simp: retire_destroyed_buffer_mapping_def complete_queued_buffer_destroy_def with_registry_def
      registry_remove_def mark_host_destroy_queued_def split: option.splits render_buffer.splits)

lemma loop_fields:
  "viewport_to_wl_surface (retire_loop cs c) = viewport_to_wl_surface c"
  "xdg_surface_to_wl_surface (retire_loop cs c) = xdg_surface_to_wl_surface c"
  "xdg_toplevel_to_wl_surface (retire_loop cs c) = xdg_toplevel_to_wl_surface c"
  "gtk_surfaces (retire_loop cs c) = gtk_surfaces c"
  "gtk_shells (retire_loop cs c) = gtk_shells c"
  "wl_surface_to_zaura_surface (retire_loop cs c) = wl_surface_to_zaura_surface c"
  "kb_focus (retire_loop cs c) = kb_focus c"
  "text_inputs (retire_loop cs c) = text_inputs c"
  "key_generations (retire_loop cs c) = key_generations c"
  "last_sender_id (retire_loop cs c) = last_sender_id c"
  "host_zaura_shell_version (retire_loop cs c) = host_zaura_shell_version c"
  by (induction cs c rule: retire_loop.induct) (simp_all add: destroy_host_buffer_eq)

lemma sweep_fields [simp]:
  "viewport_to_wl_surface (retire_eligible_buffers c) = viewport_to_wl_surface c"
  "xdg_surface_to_wl_surface (retire_eligible_buffers c) = xdg_surface_to_wl_surface c"
  "xdg_toplevel_to_wl_surface (retire_eligible_buffers c) = xdg_toplevel_to_wl_surface c"
  "gtk_surfaces (retire_eligible_buffers c) = gtk_surfaces c"
  "gtk_shells (retire_eligible_buffers c) = gtk_shells c"
  "wl_surface_to_zaura_surface (retire_eligible_buffers c) = wl_surface_to_zaura_surface c"
  "kb_focus (retire_eligible_buffers c) = kb_focus c"
  "text_inputs (retire_eligible_buffers c) = text_inputs c"
  "key_generations (retire_eligible_buffers c) = key_generations c"
  "last_sender_id (retire_eligible_buffers c) = last_sender_id c"
  "host_zaura_shell_version (retire_eligible_buffers c) = host_zaura_shell_version c"
  by (simp_all add: retire_eligible_buffers_def loop_fields)

lemma buffer_uses_fields [simp]:
  "viewport_to_wl_surface (clear_buffer_uses_after_surface_destroy b c) = viewport_to_wl_surface c"
  "xdg_surface_to_wl_surface (clear_buffer_uses_after_surface_destroy b c) = xdg_surface_to_wl_surface c"
  "xdg_toplevel_to_wl_surface (clear_buffer_uses_after_surface_destroy b c) = xdg_toplevel_to_wl_surface c"
  "gtk_surfaces (clear_buffer_uses_after_surface_destroy b c) = gtk_surfaces c"
  "gtk_shells (clear_buffer_uses_after_surface_destroy b c) = gtk_shells c"
  "wl_surface_to_zaura_surface (clear_buffer_uses_after_surface_destroy b c) = wl_surface_to_zaura_surface c"
  "kb_focus (clear_buffer_uses_after_surface_destroy b c) = kb_focus c"
  "text_inputs (clear_buffer_uses_after_surface_destroy b c) = text_inputs c"
  "key_generations (clear_buffer_uses_after_surface_destroy b c) = key_generations c"
  "last_sender_id (clear_buffer_uses_after_surface_destroy b c) = last_sender_id c"
  "host_zaura_shell_version (clear_buffer_uses_after_surface_destroy b c) = host_zaura_shell_version c"
  "surfaces (clear_buffer_uses_after_surface_destroy b c) = surfaces c"
  "client_to_host_queue (clear_buffer_uses_after_surface_destroy b c) = client_to_host_queue c"
  "shadow_table (clear_buffer_uses_after_surface_destroy b c) = shadow_table c"
  by (auto simp: clear_buffer_uses_after_surface_destroy_def finish_surface_destroy_use_def on_guest_buffer_def
      with_registry_def split: option.split prod.split)

lemma forget_gtk_fields [simp]:
  "viewport_to_wl_surface (forget_gtk_surfaces gs c) = viewport_to_wl_surface c"
  "xdg_surface_to_wl_surface (forget_gtk_surfaces gs c) = xdg_surface_to_wl_surface c"
  "xdg_toplevel_to_wl_surface (forget_gtk_surfaces gs c) = xdg_toplevel_to_wl_surface c"
  "wl_surface_to_zaura_surface (forget_gtk_surfaces gs c) = wl_surface_to_zaura_surface c"
  "kb_focus (forget_gtk_surfaces gs c) = kb_focus c" "text_inputs (forget_gtk_surfaces gs c) = text_inputs c"
  "surfaces (forget_gtk_surfaces gs c) = surfaces c" "key_generations (forget_gtk_surfaces gs c) = key_generations c"
  "client_to_host_queue (forget_gtk_surfaces gs c) = client_to_host_queue c"
  "shadow_table (forget_gtk_surfaces gs c) = shadow_table c"
  by (induction gs c rule: forget_gtk_surfaces.induct) (auto simp: Let_def split: option.split)

lemma forget_gtk_get:
  "hm_get (gtk_surfaces (forget_gtk_surfaces gs c)) g = (if g \<in> set gs then None else hm_get (gtk_surfaces c) g)"
  by (induction gs c rule: forget_gtk_surfaces.induct) (auto simp: Let_def split: option.split)

lemma forget_gtk_shells:
  assumes "gtk_shells (forget_gtk_surfaces gs c) k = Some shell" "g \<in> shell_surfaces shell"
  shows "\<exists>shell0. gtk_shells c k = Some shell0 \<and> g \<in> shell_surfaces shell0"
  using assms by (induction gs c rule: forget_gtk_surfaces.induct) (auto simp: Let_def split: option.splits if_splits)

text \<open>The release of the Aura object, if there is one and the host knows the request.\<close>

definition aura_release :: "u32 \<Rightarrow> 'h ctx_scheme \<Rightarrow> packet list" where
  "aura_release host c =
     (case wl_surface_to_zaura_surface c host of
        Some z \<Rightarrow> if zaura_version z c \<ge> 38 then [empty_request z REQ_AURA_RELEASE] else []
      | None \<Rightarrow> [])"

lemma empty_built:
  "try_build_message message_builder_new sender opcode = Inr (fst (empty_request sender opcode))"
  "build_message message_builder_new sender opcode = Some (fst (empty_request sender opcode))"
  "(fst (empty_request sender opcode), []) = empty_request sender opcode"
  using try_build_message_ok [of message_builder_new sender opcode]
  by (simp_all add: build_message_def empty_request_def)

lemma release_zaura_effect:
  assumes "release_zaura_surface host c = Some c'"
  shows "client_to_host_queue c' = client_to_host_queue c @ aura_release host c"
    "wl_surface_to_zaura_surface c' = (wl_surface_to_zaura_surface c)(host := None)"
    "viewport_to_wl_surface c' = viewport_to_wl_surface c" "xdg_surface_to_wl_surface c' = xdg_surface_to_wl_surface c"
    "xdg_toplevel_to_wl_surface c' = xdg_toplevel_to_wl_surface c" "gtk_surfaces c' = gtk_surfaces c"
    "kb_focus c' = kb_focus c" "text_inputs c' = text_inputs c" "surfaces c' = surfaces c"
    "key_generations c' = key_generations c"
  using assms
  by (auto simp: release_zaura_surface_def aura_release_def empty_built Let_def zaura_version_def fun_upd_idem
      split: option.splits if_splits)

text \<open>Moving the focus only adds messages to the host's stream.\<close>

definition extends :: "'h ctx_scheme \<Rightarrow> 'h ctx_scheme \<Rightarrow> bool" where
  "extends c d \<longleftrightarrow> (\<exists>ms. client_to_host_queue d = client_to_host_queue c @ ms)"

lemma extends_refl: "client_to_host_queue d = client_to_host_queue c \<Longrightarrow> extends c d"
  by (simp add: extends_def)

lemma extends_trans: "extends c d \<Longrightarrow> extends d e \<Longrightarrow> extends c e"
  by (auto simp: extends_def)

lemma push_extends: "push_msg q o' n b = (ok, q') \<Longrightarrow> \<exists>ms. q' = q @ ms"
  by (auto simp: push_msg_def split: sum.splits option.splits)

lemma put_queue: "client_to_host_queue (put_text_input g s c) = client_to_host_queue c"
  by (simp add: put_text_input_def)

lemma barrier_extends: "queue_host_deactivation_barrier g v1 seat c = Some (ok, c') \<Longrightarrow> extends c c'"
  by (auto simp: queue_host_deactivation_barrier_def Let_def extends_def put_queue
      split: prod.splits option.splits sum.splits if_splits)

lemma activation_extends: "update_host_activation g c = Some c' \<Longrightarrow> extends c c'"
  by (auto simp: update_host_activation_def Let_def put_queue dest!: barrier_extends push_extends
      simp: extends_def split: if_splits option.splits prod.splits bool.splits)

lemma activations_extend: "try_each update_host_activation gs c = Some c' \<Longrightarrow> extends c c'"
  by (induction gs arbitrary: c)
    (auto intro: extends_refl split: option.splits dest: activation_extends extends_trans)

lemma targets_queue: "apply_focus_targets ups c = Some (es, ids, c') \<Longrightarrow> client_to_host_queue c' = client_to_host_queue c"
proof (induction ups arbitrary: c es ids)
  case (Cons u ups)
  show ?case
    using Cons.prems Cons.IH
    by (cases u) (fastforce simp: put_text_input_def split: option.splits prod.splits)
qed simp

lemma updates_extend: "apply_text_input_focus_updates ups c = Some c' \<Longrightarrow> extends c c'"
  by (auto simp: apply_text_input_focus_updates_def extends_def
      split: option.splits dest!: activations_extend targets_queue)

lemma change_extends: "apply_keyboard_focus_change change c = Some c' \<Longrightarrow> extends c c'"
  by (auto simp: apply_keyboard_focus_change_def Let_def end_backspace_repeat_for_seat_def extends_def
      split: if_splits dest!: updates_extend)

lemma changes_extend: "apply_keyboard_focus_changes changes c = Some c' \<Longrightarrow> extends c c'"
  unfolding apply_keyboard_focus_changes_def
  by (induction changes arbitrary: c)
    (auto intro: extends_refl split: option.splits dest: change_extends extends_trans)

lemma unfocus_extends: "unfocus_surface k c = Some c' \<Longrightarrow> extends c c'"
  by (auto simp: unfocus_surface_def repair_destroyed_surface_focus_def bind_eq_Some_conv extends_def
      split: prod.splits dest!: updates_extend changes_extend)

text \<open>C12: A destroyed surface leaves no reference behind: its state, its viewport, its xdg and GTK objects and its
  Aura object are forgotten, no seat and no text input stays on it, and the host sees the release of the
  Aura object, then the destructor of the surface, and only then the rest: destructors of buffers that were only on it
  and the moves of the focus.\<close>

theorem destroyed_surface_is_forgotten:
  assumes "on_surface_destroy c = Some (a, c')" "last_sender_id c = k"
    and "get_host_id (shadow_table c) k = Some host" "focus_ok (kb_focus c)"
    and "hm_ok (viewport_to_wl_surface c)" "hm_ok (xdg_surface_to_wl_surface c)" "hm_ok (xdg_toplevel_to_wl_surface c)"
  shows "a = Drop \<and> hm_get (surfaces c') k = None \<and> wl_surface_to_zaura_surface c' host = None \<and>
    (\<forall>j. hm_get (viewport_to_wl_surface c') j \<noteq> Some k \<and> hm_get (xdg_surface_to_wl_surface c') j \<noteq> Some k \<and>
       hm_get (xdg_toplevel_to_wl_surface c') j \<noteq> Some k \<and>
       map_option gs_wl_surface_id (hm_get (gtk_surfaces c') j) \<noteq> Some k \<and>
       surface_for_seat (kb_focus c') j \<noteq> Some k \<and>
       Option.bind (hm_get (text_inputs c') j) active_surface \<noteq> Some k) \<and>
    (\<exists>rest. client_to_host_queue c' = client_to_host_queue c @ aura_release host c @
       [empty_request host REQ_SURFACE_DESTROY] @ rest)"
proof -
  let ?buffer = "Option.bind (hm_get (surfaces c) k) current_buffer_id"
  obtain c1 where c1: "release_zaura_surface host c = Some c1"
    using assms(1-3) by (auto simp: on_surface_destroy_def empty_built bind_eq_Some_conv Let_def)
  define c2 where "c2 = forget_gtk_surfaces
      (map fst (filter (\<lambda>(_, s). gs_wl_surface_id s = k) (gtk_surfaces c1))) c1"
  define c3 where "c3 = c2\<lparr>client_to_host_queue := client_to_host_queue c2 @ [empty_request host REQ_SURFACE_DESTROY],
      surfaces := hm_remove k (surfaces c2)\<rparr>"
  define c4 where "c4 = retire_eligible_buffers (clear_buffer_uses_after_surface_destroy ?buffer c3)"
  define c5 where "c5 = c4\<lparr>viewport_to_wl_surface := hm_retain (\<lambda>_ s. s \<noteq> k) (viewport_to_wl_surface c4),
      key_generations := clear_peek_watermarks_for_surface k (key_generations c4)\<rparr>"
  obtain c6 where c6: "unfocus_surface k c5 = Some c6"
    and c': "c' = c6\<lparr>xdg_surface_to_wl_surface := hm_retain (\<lambda>_ s. s \<noteq> k) (xdg_surface_to_wl_surface c6),
      xdg_toplevel_to_wl_surface := hm_retain (\<lambda>_ s. s \<noteq> k) (xdg_toplevel_to_wl_surface c6),
      shadow_table := mark_pending_destroy k (shadow_table c6)\<rparr>" and a: "a = Drop"
    using assms(1-3) c1
    by (auto simp: on_surface_destroy_def empty_built Let_def c2_def c3_def c4_def c5_def)
  note z = release_zaura_effect [OF c1]
  have same: "surface_view c6 = surface_view c5"
    by (rule sv.unfocus_view [OF c6]) (simp add: surface_view_def)
  have gone: "hm_get (hm_retain (\<lambda>_ s. s \<noteq> k) m) j \<noteq> Some k" if "hm_ok m" for m :: "(u32, u32) hmap" and j
    using that by (simp add: hm.get_keep split: option.split)
  have gtk: "map_option gs_wl_surface_id (hm_get (gtk_surfaces c2) j) \<noteq> Some k" for j
  proof
    assume "map_option gs_wl_surface_id (hm_get (gtk_surfaces c2) j) = Some k"
    then obtain s where s: "hm_get (gtk_surfaces c2) j = Some s" "gs_wl_surface_id s = k"
      by auto
    then have "hm_get (gtk_surfaces c) j = Some s"
      "j \<notin> set (map fst (filter (\<lambda>(_, s). gs_wl_surface_id s = k) (gtk_surfaces c)))"
      by (auto simp only: c2_def forget_gtk_get z split: if_splits)
    moreover from this have "(j, s) \<in> set (gtk_surfaces c)"
      by (auto simp: hm_get_def dest: map_of_SomeD)
    ultimately show False
      using s(2) by force
  qed
  have "surfaces c6 = hm_remove k (surfaces c)" "wl_surface_to_zaura_surface c6 host = None"
    "viewport_to_wl_surface c6 = hm_retain (\<lambda>_ s. s \<noteq> k) (viewport_to_wl_surface c)"
    "xdg_surface_to_wl_surface c6 = xdg_surface_to_wl_surface c"
    "xdg_toplevel_to_wl_surface c6 = xdg_toplevel_to_wl_surface c" "gtk_surfaces c6 = gtk_surfaces c2"
    using same by (simp_all add: surface_view_def c5_def c4_def c3_def c2_def z)
  moreover have "kb_focus c5 = kb_focus c"
    by (simp add: c5_def c4_def c3_def c2_def z)
  then have "surface_for_seat (kb_focus c6) j \<noteq> Some k" "Option.bind (hm_get (text_inputs c6) j) active_surface \<noteq> Some k" for j
    using unfocus_leaves [OF c6] assms(4) by (auto simp: bind_eq_Some_conv)
  moreover obtain rest where "client_to_host_queue c6 = client_to_host_queue c @ aura_release host c @
       [empty_request host REQ_SURFACE_DESTROY] @ rest"
    using unfocus_extends [OF c6] by (auto simp: extends_def c5_def c4_def c3_def c2_def z)
  ultimately show ?thesis
    using a gone assms(5-7) gtk by (simp add: c')
qed

text \<open>A surface with a viewport and an xdg surface, about to be destroyed.\<close>

definition doomed_context :: ctx where
  "doomed_context = sample_session\<lparr>last_sender_id := 7, surfaces := [(7, surface_state_default)],
     viewport_to_wl_surface := [(9, 7)], xdg_surface_to_wl_surface := [(10, 7)]\<rparr>"

lemma unfocus_idle:
  assumes "kb_focus c = focus_registry_default" "text_inputs c = []"
  shows "unfocus_surface k c \<noteq> None"
  using assms by (simp add: unfocus_surface_def focus_destroy_surface_def focus_registry_default_def Let_def
      apply_keyboard_focus_changes_def repair_destroyed_surface_focus_def apply_text_input_focus_updates_def
      split: prod.split)

theorem destroyed_surface_is_forgotten_witness:
  "\<exists>c'. on_surface_destroy doomed_context = Some (Drop, c') \<and> hm_get (surfaces c') 7 = None \<and>
     hm_get (viewport_to_wl_surface c') 9 \<noteq> Some 7 \<and> hm_get (xdg_surface_to_wl_surface c') 10 \<noteq> Some 7"
proof -
  have parts: "last_sender_id doomed_context = 7" "get_host_id (shadow_table doomed_context) 7 = Some 21"
    "wl_surface_to_zaura_surface doomed_context = Map.empty" "gtk_surfaces doomed_context = []"
    "kb_focus doomed_context = focus_registry_default" "text_inputs doomed_context = []"
    "viewport_to_wl_surface doomed_context = [(9, 7)]" "xdg_surface_to_wl_surface doomed_context = [(10, 7)]"
    "xdg_toplevel_to_wl_surface doomed_context = []"
    by (simp_all add: doomed_context_def sample_session_def context_new_def map_id_def shadow_table_new_def get_host_id_def)
  have "on_surface_destroy doomed_context \<noteq> None"
    by (simp add: on_surface_destroy_def Let_def parts empty_built release_zaura_surface_def unfocus_idle)
  then obtain a c' where run: "on_surface_destroy doomed_context = Some (a, c')"
    by auto
  from destroyed_surface_is_forgotten [OF run parts(1,2)] run show ?thesis
    by (simp add: parts focus_ok_default hm_ok_def)
qed

end
