(* ===== verification/Surface_Requests.thy ===== *)
theory Surface_Requests
  imports Surface_Session
begin

text \<open>
  The requests of the surface, viewport and xdg handlers as one machine, and the values its states
  can hold: nothing outside the protocol's ranges is ever stored, whatever a client sends.
\<close>

section \<open>Buffer sizes\<close>

definition sizes_ok :: "render_registry \<Rightarrow> bool" where
  "sizes_ok r \<longleftrightarrow> (\<forall>h. pred_option dimensions_ok (dimensions r h))"

lemma buffers_ok_sizes: "buffers_ok c \<longleftrightarrow> sizes_ok (render_buffers c)"
  by (simp add: buffers_ok_def sizes_ok_def)

definition backing_size :: "render_buffer_backing \<Rightarrow> i32 \<times> i32" where
  "backing_size b = (case b of LocalCopy s \<Rightarrow> (buf_width s, buf_height s) | Native sz _ \<Rightarrow> sz)"

lemma dimensions_eq: "dimensions r h = map_option (\<lambda>b. backing_size (arb_backing b)) (get_active r h)"
  by (auto simp: dimensions_def backing_size_def split: option.split render_buffer_backing.split)

lemma dimensions_insert:
  "dimensions (hm_insert h rb r) j =
     (if j = h then map_option (\<lambda>b. backing_size (arb_backing b)) (Render_Buffer.active rb) else dimensions r j)"
  by (simp add: dimensions_eq get_active_def)

lemma dimensions_put:
  assumes "get_active r h = Some b" "backing_size (arb_backing b') = backing_size (arb_backing b)"
  shows "dimensions (put_active h b' r) = dimensions r"
proof
  fix j
  obtain rb where "hm_get r h = Some rb" "Render_Buffer.active rb = Some b"
    using assms(1) by (auto simp: get_active_def bind_eq_Some_conv)
  then show "dimensions (put_active h b' r) j = dimensions r j"
    using assms by (cases rb)
      (auto simp: put_active_def dimensions_insert dimensions_eq get_active_def active_mut_def Render_Buffer.active_def)
qed

lemma sizes_put:
  "get_active r h = Some b \<Longrightarrow> backing_size (arb_backing b') = backing_size (arb_backing b) \<Longrightarrow>
     sizes_ok (put_active h b' r) = sizes_ok r"
  by (simp add: sizes_ok_def dimensions_put)

lemma sizes_step:
  assumes "sizes_ok r"
  shows "sizes_ok (snd (submit h r))" "sizes_ok (snd (detach h r))" "sizes_ok (snd (end_last_surface_use h other r))"
    "sizes_ok (snd (enable_implicit_sync_fallback h r))" "sizes_ok (snd (registry_remove h r))"
    "sizes_ok (snd (mark_host_destroy_queued h r))"
proof -
  show "sizes_ok (snd (submit h r))" "sizes_ok (snd (detach h r))" "sizes_ok (snd (end_last_surface_use h other r))"
    "sizes_ok (snd (enable_implicit_sync_fallback h r))"
    using assms by (auto simp: submit_def detach_def end_last_surface_use_def enable_implicit_sync_fallback_def
        sizes_put split: option.split render_buffer_use.split render_buffer_backing.split)
  show "sizes_ok (snd (registry_remove h r))"
    using assms by (simp add: sizes_ok_def registry_remove_def dimensions_eq get_active_def)
  show "sizes_ok (snd (mark_host_destroy_queued h r))"
    using assms by (auto simp: mark_host_destroy_queued_def sizes_ok_def dimensions_insert Render_Buffer.active_def
        split: option.split render_buffer.split)
qed

lemma sizes_copy:
  assumes "sizes_ok r" "local_copy r h = Some b" "buf_width b' = buf_width b" "buf_height b' = buf_height b"
  shows "sizes_ok (local_copy_mut h b' r)"
  using assms by (auto simp: local_copy_def local_copy_mut_def sizes_put backing_size_def
      split: option.splits render_buffer_backing.splits)

lemma sizes_finalize:
  assumes "sizes_ok r" "finalize_attachment p n r = Some (ok, r')"
  shows "sizes_ok r'"
proof (cases "p = n")
  case True
  with assms show ?thesis
    by (cases n) (auto simp: finalize_attachment_def dest: sizes_step(1) [where h = "the n"])
next
  case False
  with assms show ?thesis
    by (auto simp: finalize_attachment_cases Let_def sizes_step split: if_splits option.splits)
qed

section \<open>The steps of a handler keep the sizes\<close>

lemma buffers_registry: "sizes_ok (snd (f (render_buffers c))) \<Longrightarrow> buffers_ok (snd (with_registry f c))"
  by (cases "f (render_buffers c)") (simp add: with_registry_def buffers_ok_sizes)

lemma buffers_guest:
  assumes "buffers_ok c" "\<And>h. sizes_ok (snd (f h (render_buffers c)))"
  shows "buffers_ok (snd (on_guest_buffer f b c))"
  using assms by (auto simp: on_guest_buffer_def buffers_registry split: option.split)

lemma buffers_table [simp]: "buffers_ok (c\<lparr>shadow_table := t\<rparr>) = buffers_ok c"
  "buffers_ok (c\<lparr>client_to_host_queue := q\<rparr>) = buffers_ok c" "buffers_ok (c\<lparr>fatal_protocol_error := f\<rparr>) = buffers_ok c"
  "buffers_ok (c\<lparr>surfaces := m\<rparr>) = buffers_ok c"
  by (simp_all add: buffers_ok_def)

lemma buffers_retire_one: "buffers_ok c \<Longrightarrow> buffers_ok (retire_destroyed_buffer_mapping g h c)"
  using sizes_step(5,6) [of "render_buffers c" h]
  by (auto simp: retire_destroyed_buffer_mapping_def complete_queued_buffer_destroy_def with_registry_def
      buffers_ok_sizes split: prod.splits)

lemma buffers_retire: "buffers_ok c \<Longrightarrow> buffers_ok (retire_eligible_buffers c)"
proof -
  have "buffers_ok c \<Longrightarrow> buffers_ok (retire_loop cs c)" for cs
    by (induction cs c rule: retire_loop.induct) (simp_all add: destroy_host_buffer_eq buffers_retire_one)
  then show "buffers_ok c \<Longrightarrow> buffers_ok (retire_eligible_buffers c)"
    by (simp add: retire_eligible_buffers_def)
qed

lemma buffers_copy:
  "copy_surface_buffer io store b commit c = Some (ok, trace, d) \<Longrightarrow> buffers_ok c \<Longrightarrow> buffers_ok d"
  by (auto simp: copy_surface_buffer_def buffers_ok_sizes sizes_copy split: option.splits)

lemma buffers_wait: "wait_for_native_buffer wait b c = (ok, d) \<Longrightarrow> buffers_ok c \<Longrightarrow> buffers_ok d"
  using buffers_guest [of c enable_implicit_sync_fallback b]
  by (auto simp: wait_for_native_buffer_def enable_native_buffer_implicit_sync_def sizes_step buffers_ok_sizes
      split: option.splits if_splits)

lemma buffers_attachment:
  "finalize_surface_attachment p n c = Some (ok, d) \<Longrightarrow> buffers_ok c \<Longrightarrow> buffers_ok d"
  by (auto simp: finalize_surface_attachment_def buffers_ok_sizes intro: sizes_finalize split: option.splits)

lemma buffers_finalize:
  assumes "finalize_commit k commit c = Some (ok, d)" "buffers_ok c"
  shows "buffers_ok d"
  using assms by (auto simp: finalize_commit_def Let_def split: option.splits prod.splits if_splits
      dest!: buffers_attachment)

lemma buffers_chain:
  "finalize_commit k commit e = Some (ok, d) \<Longrightarrow> wait_for_native_buffer wait b c2 = (ok2, e) \<Longrightarrow>
     copy_surface_buffer io store b commit c = Some (ok1, trace, c2) \<Longrightarrow> buffers_ok c \<Longrightarrow> buffers_ok d"
  using buffers_copy buffers_wait buffers_finalize by blast

lemma buffers_rollback: "buffers_ok (rollback_surface k commit c) = buffers_ok c"
  by (simp add: rollback_surface_def split: option.split)

lemma buffers_reject: "buffers_ok c \<Longrightarrow> buffers_ok (reject_commit fatal k commit c)"
  by (simp add: reject_commit_def buffers_rollback buffers_retire)

lemma buffers_error: "buffers_ok (queue_protocol_error k code msg c) = buffers_ok c"
  by (auto simp: queue_protocol_error_def buffers_ok_def Let_def split: option.split)

section \<open>The requests\<close>

datatype surface_request =
    SurfaceDestroy
  | SurfaceAttach u32 i32 i32
  | SurfaceDamage i32 i32 i32 i32
  | SurfaceDamageBuffer i32 i32 i32 i32
  | SurfaceSetScale i32
  | SurfaceSetTransform i32
  | SurfaceOffset i32 i32
  | SurfaceCommit
  | GetViewport u32 u32
  | ViewportSetSource i32 i32 i32 i32
  | ViewportSetDestination i32 i32
  | ViewportDestroy
  | GetXdgSurface u32 u32
  | XdgSurfaceDestroy
  | GetToplevel u32
  | ToplevelDestroy
  | SetAppId rust_string

fun surface_handle ::
    "commit_io \<Rightarrow> pool_store \<Rightarrow> surface_request \<Rightarrow> 'h ctx_scheme \<Rightarrow> (action \<times> 'h ctx_scheme) option" where
  "surface_handle io store SurfaceDestroy c = on_surface_destroy c"
| "surface_handle io store (SurfaceAttach b x y) c = Some (on_attach b x y c)"
| "surface_handle io store (SurfaceDamage x y w h) c = Some (on_damage x y w h c)"
| "surface_handle io store (SurfaceDamageBuffer x y w h) c = Some (on_damage_buffer x y w h c)"
| "surface_handle io store (SurfaceSetScale n) c = Some (on_set_buffer_scale n c)"
| "surface_handle io store (SurfaceSetTransform n) c = Some (on_set_buffer_transform n c)"
| "surface_handle io store (SurfaceOffset x y) c = Some (on_offset x y c)"
| "surface_handle io store SurfaceCommit c = map_option (\<lambda>(a, _, d). (a, d)) (on_surface_commit io store c)"
| "surface_handle io store (GetViewport i s) c = Some (on_get_viewport i s c)"
| "surface_handle io store (ViewportSetSource x y w h) c = Some (on_set_source x y w h c)"
| "surface_handle io store (ViewportSetDestination w h) c = Some (on_set_destination w h c)"
| "surface_handle io store ViewportDestroy c = Some (on_viewport_destroy c)"
| "surface_handle io store (GetXdgSurface i s) c = Some (on_get_xdg_surface i s c)"
| "surface_handle io store XdgSurfaceDestroy c = Some (on_xdg_surface_destroy c)"
| "surface_handle io store (GetToplevel i) c = Some (on_get_toplevel i c)"
| "surface_handle io store ToplevelDestroy c = Some (on_toplevel_destroy c)"
| "surface_handle io store (SetAppId name) c = on_set_app_id name c"

text \<open>The decoder hands out 32-bit values only.\<close>

fun wire_request :: "surface_request \<Rightarrow> bool" where
  "wire_request (SurfaceAttach _ x y) \<longleftrightarrow> in_i32 x \<and> in_i32 y"
| "wire_request (SurfaceDamage x y w h) \<longleftrightarrow> in_i32 x \<and> in_i32 y \<and> in_i32 w \<and> in_i32 h"
| "wire_request (SurfaceDamageBuffer x y w h) \<longleftrightarrow> in_i32 x \<and> in_i32 y \<and> in_i32 w \<and> in_i32 h"
| "wire_request (SurfaceSetScale n) \<longleftrightarrow> in_i32 n"
| "wire_request (SurfaceSetTransform n) \<longleftrightarrow> in_i32 n"
| "wire_request (ViewportSetSource x y w h) \<longleftrightarrow> in_i32 x \<and> in_i32 y \<and> in_i32 w \<and> in_i32 h"
| "wire_request (ViewportSetDestination w h) \<longleftrightarrow> in_i32 w \<and> in_i32 h"
| "wire_request _ \<longleftrightarrow> True"

text \<open>A request with its sender, as the dispatcher delivers it, and what its system calls give.\<close>

definition surface_apply ::
    "u32 \<times> commit_io \<times> pool_store \<times> surface_request \<Rightarrow> 'h ctx_scheme \<Rightarrow> 'h ctx_scheme option" where
  "surface_apply e c =
     (case e of (sender, io, store, request) \<Rightarrow>
        if wire_request request
        then map_option snd (surface_handle io store request (c\<lparr>last_sender_id := sender\<rparr>))
        else Some c)"

section \<open>The values a session can hold\<close>

definition values_ok :: "(u32, surface_state) hmap \<Rightarrow> bool" where
  "values_ok m \<longleftrightarrow> (\<forall>k. pred_option surface_ok (hm_get m k))"

text \<open>A viewport belongs to a live surface, and no surface has two.\<close>

definition viewports_ok :: "(u32, u32) hmap \<Rightarrow> (u32, surface_state) hmap \<Rightarrow> bool" where
  "viewports_ok v m \<longleftrightarrow> hm_ok v \<and>
     (\<forall>i k. hm_get v i = Some k \<longrightarrow> hm_get m k \<noteq> None \<and> (\<forall>j. hm_get v j = Some k \<longrightarrow> j = i))"

definition surfaces_ok :: "'h ctx_scheme \<Rightarrow> bool" where
  "surfaces_ok c \<longleftrightarrow> values_ok (surfaces c) \<and> viewports_ok (viewport_to_wl_surface c) (surfaces c) \<and> buffers_ok c"

lemma values_insert: "values_ok m \<Longrightarrow> surface_ok s \<Longrightarrow> values_ok (hm_insert k s m)"
  by (simp add: values_ok_def)

lemma viewports_insert: "viewports_ok v m \<Longrightarrow> viewports_ok v (hm_insert k s m)"
  by (simp add: viewports_ok_def)

lemma entry_ok:
  assumes "surfaces_ok c" "\<And>s. surface_ok s \<Longrightarrow> surface_ok (f s)"
  shows "surfaces_ok (on_surface_entry k f c)"
proof -
  have "pred_option surface_ok (hm_get (surfaces c) k)"
    using assms(1) by (simp add: surfaces_ok_def values_ok_def)
  then have "surface_ok (f (case hm_get (surfaces c) k of Some s \<Rightarrow> s | None \<Rightarrow> surface_state_default))"
    using assms(2) by (cases "hm_get (surfaces c) k") simp_all
  then show ?thesis
    using assms(1) by (simp add: surfaces_ok_def on_surface_entry_def values_insert viewports_insert)
qed

lemma error_viewports: "viewport_to_wl_surface (queue_protocol_error k code msg c) = viewport_to_wl_surface c"
  by (simp add: queue_protocol_error_def Let_def)

lemma surfaces_ok_error: "surfaces_ok (queue_protocol_error k code msg c) = surfaces_ok c"
  by (simp add: surfaces_ok_def buffers_error error_viewports)

lemma surfaces_ok_retire: "surfaces_ok c \<Longrightarrow> surfaces_ok (retire_eligible_buffers c)"
  by (simp add: surfaces_ok_def buffers_retire)

lemma damage_push_ok:
  assumes "damage_list_ok d" "in_i32 x" "in_i32 y" "in_i32 w" "in_i32 h"
  shows "damage_list_ok (damage_push (damage_rect_new x y w h) d)"
  using assms by (cases d) (auto simp: damage_push_def damage_list_ok_def damage_rects_def rect_pos_def rect_ok_def
      MAX_PENDING_DAMAGE_RECTS_def)

lemmas surface_fields = surface_ok_def current_buffer_dimensions_def

section \<open>Every request keeps them\<close>

text \<open>The requests that only fill the pending state.\<close>

lemma attach_ok: "surfaces_ok c \<Longrightarrow> surfaces_ok (snd (on_attach b x y c))"
  by (auto simp: on_attach_def Let_def surfaces_ok_error surface_fields intro!: surfaces_ok_retire entry_ok)

lemma damage_ok:
  assumes "surfaces_ok c" "in_i32 x" "in_i32 y" "in_i32 w" "in_i32 h"
  shows "surfaces_ok (snd (on_damage x y w h c))" "surfaces_ok (snd (on_damage_buffer x y w h c))"
  using assms by (auto simp: on_damage_def on_damage_buffer_def surface_fields damage_push_ok intro!: entry_ok)

lemma scale_ok:
  assumes "surfaces_ok c" "in_i32 n"
  shows "surfaces_ok (snd (on_set_buffer_scale n c))" "surfaces_ok (snd (on_set_buffer_transform n c))"
  using assms by (auto simp: on_set_buffer_scale_def on_set_buffer_transform_def surfaces_ok_error surface_fields
      intro!: entry_ok)

lemma offset_ok: "surfaces_ok c \<Longrightarrow> surfaces_ok (snd (on_offset x y c))"
  by (auto simp: on_offset_def surface_fields intro!: entry_ok)

lemma edited_viewport_ok: "surface_ok s \<Longrightarrow> viewport_ok (edited_viewport s)"
  by (auto simp: edited_viewport_def surface_fields viewport_ok_def viewport_new_def split: option.split)

lemma edit_viewport_ok:
  assumes "surfaces_ok c" "\<And>v. viewport_ok v \<Longrightarrow> viewport_ok (f v)"
  shows "surfaces_ok (edit_viewport k f c)"
  unfolding edit_viewport_def
  by (rule entry_ok [OF assms(1)]) (use assms(2) edited_viewport_ok in \<open>auto simp: surface_fields\<close>)

lemma source_ok:
  assumes "surfaces_ok c" "in_i32 x" "in_i32 y" "in_i32 w" "in_i32 h"
  shows "surfaces_ok (snd (on_set_source x y w h c))"
  using assms by (auto simp: on_set_source_def without_surface_def Let_def surfaces_ok_error viewport_ok_def
      intro!: edit_viewport_ok split: option.split)

lemma destination_ok:
  assumes "surfaces_ok c" "in_i32 w" "in_i32 h"
  shows "surfaces_ok (snd (on_set_destination w h c))"
  using assms by (auto simp: on_set_destination_def without_surface_def Let_def surfaces_ok_error viewport_ok_def
      intro!: edit_viewport_ok split: option.split)

text \<open>The life of a viewport.\<close>

lemma get_viewport_ok:
  assumes "surfaces_ok c"
  shows "surfaces_ok (snd (on_get_viewport i k c))"
proof (cases "list_ex (\<lambda>(_, owner). owner = k) (viewport_to_wl_surface c)")
  case True
  then show ?thesis
    using assms by (simp add: on_get_viewport_def surfaces_ok_error)
next
  case False
  let ?f = "\<lambda>s. s\<lparr>pending_viewport := Some (Some viewport_new)\<rparr>"
  have free: "hm_get (viewport_to_wl_surface c) j \<noteq> Some k" for j
    using False by (auto simp: list_ex_iff hm_get_def dest: map_of_SomeD)
  have "surfaces_ok (on_surface_entry k ?f c)"
    using assms by (rule entry_ok) (simp add: surface_fields viewport_ok_def viewport_new_def)
  then show ?thesis
    using False free assms
    by (auto simp: on_get_viewport_def surfaces_ok_def viewports_ok_def on_surface_entry_def hm.ok_put buffers_ok_def)
qed

lemma viewports_dom:
  "viewports_ok v m \<Longrightarrow> (\<And>k. hm_get m k \<noteq> None \<Longrightarrow> hm_get m' k \<noteq> None) \<Longrightarrow> viewports_ok v m'"
  by (auto simp: viewports_ok_def)

lemma viewports_del: "viewports_ok v m \<Longrightarrow> viewports_ok (hm_remove i v) m"
  by (simp add: viewports_ok_def hm.ok_del)

lemma viewport_destroy_ok:
  assumes "surfaces_ok c"
  shows "surfaces_ok (snd (on_viewport_destroy c))"
proof -
  have "surface_ok s" if "hm_get (surfaces c) k = Some s" for k s
    using assms that by (metis option.pred_inject(2) surfaces_ok_def values_ok_def)
  then have "surface_ok (s\<lparr>pending_viewport := Some None\<rparr>)" if "hm_get (surfaces c) k = Some s" for k s
    using that by (simp add: surface_fields)
  then show ?thesis
    using assms by (simp add: on_viewport_destroy_def Let_def surfaces_ok_def viewports_del viewports_insert values_insert
        buffers_ok_def split: option.split)
qed

text \<open>Commits: the dimensions a surface remembers are those of a registered buffer.\<close>

lemma with_dimensions_ok:
  "surface_ok s \<Longrightarrow> buffers_ok c \<Longrightarrow> surface_ok (with_dimensions commit c s)"
  using buffers_ok_dimensions [of c]
  by (auto simp: with_dimensions_def set_current_buffer_dimensions_def surface_fields
      split: surface_attachment.split option.split)

lemma buffers_commit:
  assumes "on_surface_commit io store c = Some (a, trace, c')" "buffers_ok c"
  shows "buffers_ok c'"
proof -
  obtain commit c1 where prep: "prepare_surface_commit (last_sender_id c) c = (commit, c1)"
    by fastforce
  have ok: "buffers_ok c1"
    using prep assms(2) by (auto simp: prepare_surface_commit_def split: option.splits prod.splits)
  have error: "buffers_ok (invalid_viewport_error k c1)" for k
    using ok by (auto simp: invalid_viewport_error_def buffers_error split: option.split)
  show ?thesis
    using assms(1) prep ok error
    by (auto simp: on_surface_commit_def Let_def buffers_rollback buffers_reject
        intro!: buffers_retire split: if_splits option.splits prod.splits
        dest: buffers_copy buffers_wait buffers_finalize buffers_chain)
qed

lemma commit_viewports:
  assumes "on_surface_commit io store c = Some (a, trace, c')"
  shows "viewport_to_wl_surface c' = viewport_to_wl_surface c"
proof -
  obtain commit c1 where prep: "prepare_surface_commit (last_sender_id c) c = (commit, c1)"
    by fastforce
  then have c1: "viewport_to_wl_surface c1 = viewport_to_wl_surface c"
    by (auto simp: prepare_surface_commit_def split: option.splits prod.splits)
  have roll: "viewport_to_wl_surface (rollback_surface k commit d) = viewport_to_wl_surface d" for k d
    by (simp add: rollback_surface_def split: option.split)
  from assms prep show ?thesis
    by (cases rule: commit_cases)
      (auto simp: c1 roll reject_commit_def invalid_viewport_error_def error_viewports split: option.split)
qed

lemma commit_unknown:
  assumes "on_surface_commit io store c = Some (a, trace, c')" "hm_get (surfaces c) (last_sender_id c) = None"
  shows "hm_get (surfaces c') = hm_get (surfaces c)"
proof -
  obtain commit where prep: "prepare_surface_commit (last_sender_id c) c = (commit, c)"
    using assms(2) by (simp add: prepare_surface_commit_def)
  have same: "hm_get m = hm_get (surfaces c)" if "only_surface (last_sender_id c) (surfaces c) m" for m
    using that assms(2) by (auto simp: only_surface_def fun_eq_iff) metis
  have roll: "surfaces (rollback_surface (last_sender_id c) commit d) = surfaces d"
    if "hm_get (surfaces d) (last_sender_id c) = None" for d
    using that by (simp add: rollback_surface_def)
  from assms(1) prep show ?thesis
  proof (cases rule: commit_cases)
    case invalid
    then show ?thesis
      using assms(2) by (simp add: roll)
  next
    case (rejected fatal r m)
    have "hm_get m (last_sender_id c) = None"
      using rejected(3) assms(2) by (simp add: only_surface_def)
    then have "surfaces c' = m"
      using rejected(4) by (cases fatal) (simp_all add: reject_commit_def roll)
    then show ?thesis
      using same [OF rejected(3)] by simp
  next
    case (accepted ms t c2 rw m r)
    then have "only_surface (last_sender_id c) (surfaces c) m"
      using finalize_surfaces(1) [OF accepted(6)] by simp
    from same [OF this] accepted(7) show ?thesis
      by simp
  qed
qed

lemma commit_ok:
  fixes c :: "'a ctx_scheme"
  assumes "on_surface_commit io store c = Some (a, trace, c')" "surfaces_ok c"
  shows "surfaces_ok c'"
proof -
  let ?k = "last_sender_id c"
  note ok = assms(2) [unfolded surfaces_ok_def]
  have "values_ok (surfaces c') \<and> (\<forall>k. hm_get (surfaces c) k \<noteq> None \<longrightarrow> hm_get (surfaces c') k \<noteq> None)"
  proof (cases "hm_get (surfaces c) ?k")
    case None
    with commit_unknown [OF assms(1)] ok show ?thesis
      by (simp add: values_ok_def)
  next
    case (Some s)
    then have s: "surface_ok s"
      using ok by (metis option.pred_inject(2) values_ok_def)
    have new: "surface_ok s'" if acc: "accepted_outcome io store s c trace ms s'" for ms s'
    proof -
      let ?c1 = "c\<lparr>surfaces := hm_insert ?k (committed s) (surfaces c)\<rparr>"
      have c1: "buffers_ok ?c1"
        using ok by simp
      have "\<exists>d :: 'a ctx_scheme. buffers_ok d \<and> s' = with_dimensions (fst (prepare_commit s)) d (committed s)"
      proof (cases "attached_buffer_id (fst (prepare_commit s))")
        case None
        then have "s' = with_dimensions (fst (prepare_commit s)) ?c1 (committed s)"
          using acc unfolding accepted_outcome_def Let_def by simp
        with c1 show ?thesis
          by blast
      next
        fix b assume "attached_buffer_id (fst (prepare_commit s)) = Some b"
        then obtain t c2 d where d: "copy_surface_buffer io store b (fst (prepare_commit s)) ?c1 = Some (True, t, c2)"
          "wait_for_native_buffer (io_wait io) b c2 = (True, d)"
          "s' = with_dimensions (fst (prepare_commit s)) d (committed s)"
          using acc unfolding accepted_outcome_def Let_def by auto
        from buffers_wait [OF d(2) buffers_copy [OF d(1) c1]] d(3) show ?thesis
          by blast
      qed
      then show ?thesis
        using with_dimensions_ok surface_ok_committed [OF s] by blast
    qed
    have "\<forall>k. k \<noteq> ?k \<longrightarrow> hm_get (surfaces c') k = hm_get (surfaces c) k"
      "\<exists>s'. hm_get (surfaces c') ?k = Some s' \<and> surface_ok s'"
      using commit_outcome [OF assms(1) Some] new s by blast+
    then show ?thesis
      using ok Some unfolding values_ok_def by (metis option.distinct(1) option.pred_inject(2))
  qed
  then show ?thesis
    using ok viewports_dom buffers_commit [OF assms(1)] commit_viewports [OF assms(1)]
    by (auto simp: surfaces_ok_def)
qed

text \<open>The end of a surface, and the objects built on it.\<close>

lemma buffers_clear: "buffers_ok c \<Longrightarrow> buffers_ok (clear_buffer_uses_after_surface_destroy b c)"
proof (cases b)
  fix g assume "buffers_ok c" "b = Some g"
  moreover have "buffers_ok (snd (finish_surface_destroy_use g other c))" for other
    unfolding finish_surface_destroy_use_def
    by (rule buffers_guest) (use \<open>buffers_ok c\<close> in \<open>simp_all add: sizes_step buffers_ok_sizes\<close>)
  ultimately show ?thesis
    by (auto simp: clear_buffer_uses_after_surface_destroy_def split: prod.split) (metis snd_conv)+
qed (simp add: clear_buffer_uses_after_surface_destroy_def)

lemma forget_gtk_buffers: "render_buffers (forget_gtk_surfaces gs c) = render_buffers c"
  by (induction gs c rule: forget_gtk_surfaces.induct) (auto simp: Let_def split: option.split)

lemma release_zaura_buffers:
  "release_zaura_surface host c = Some c' \<Longrightarrow> render_buffers c' = render_buffers c"
  by (auto simp: release_zaura_surface_def Let_def split: option.splits if_splits)

lemma destroy_view:
  assumes "on_surface_destroy c = Some (a, c')"
  obtains "c' = c\<lparr>fatal_protocol_error := True\<rparr>"
  | host c1 where "release_zaura_surface host c = Some c1"
      "surfaces c' = hm_remove (last_sender_id c) (surfaces c)"
      "viewport_to_wl_surface c' = hm_retain (\<lambda>_ s. s \<noteq> last_sender_id c) (viewport_to_wl_surface c)"
      "buffers_ok c \<longrightarrow> buffers_ok c'"
proof (cases "get_host_id (shadow_table c) (last_sender_id c)")
  case None
  then show thesis
    using assms that(1) by (simp add: on_surface_destroy_def)
next
  let ?k = "last_sender_id c"
  case (Some host)
  then obtain c1 where c1: "release_zaura_surface host c = Some c1"
    using assms by (auto simp: on_surface_destroy_def empty_built bind_eq_Some_conv Let_def)
  define c3 where "c3 = (let c2 = forget_gtk_surfaces (map fst (filter (\<lambda>(_, s). gs_wl_surface_id s = ?k) (gtk_surfaces c1))) c1
      in c2\<lparr>client_to_host_queue := client_to_host_queue c2 @ [empty_request host REQ_SURFACE_DESTROY],
            surfaces := hm_remove ?k (surfaces c2)\<rparr>)"
  define c4 where "c4 = retire_eligible_buffers (clear_buffer_uses_after_surface_destroy
      (Option.bind (hm_get (surfaces c) ?k) current_buffer_id) c3)"
  define c5 where "c5 = c4\<lparr>viewport_to_wl_surface := hm_retain (\<lambda>_ s. s \<noteq> ?k) (viewport_to_wl_surface c4),
      key_generations := clear_peek_watermarks_for_surface ?k (key_generations c4)\<rparr>"
  obtain c6 where c6: "unfocus_surface ?k c5 = Some c6"
    and c': "c' = c6\<lparr>xdg_surface_to_wl_surface := hm_retain (\<lambda>_ s. s \<noteq> ?k) (xdg_surface_to_wl_surface c6),
      xdg_toplevel_to_wl_surface := hm_retain (\<lambda>_ s. s \<noteq> ?k) (xdg_toplevel_to_wl_surface c6),
      shadow_table := mark_pending_destroy ?k (shadow_table c6)\<rparr>"
    using assms Some c1 by (auto simp: on_surface_destroy_def empty_built Let_def c3_def c4_def c5_def)
  note z = release_zaura_effect [OF c1]
  have "surface_view c6 = surface_view c5"
    by (rule sv.unfocus_view [OF c6]) (simp add: surface_view_def)
  moreover have "buffers_ok c \<Longrightarrow> buffers_ok c4"
    unfolding c4_def
    by (intro buffers_retire buffers_clear)
      (simp add: c3_def Let_def buffers_ok_sizes forget_gtk_buffers release_zaura_buffers [OF c1])
  ultimately show thesis
    using that(2) [OF c1] z
    by (simp add: c' surface_view_def c5_def c4_def c3_def Let_def buffers_ok_def)
qed

lemma destroy_ok:
  assumes "on_surface_destroy c = Some (a, c')" "surfaces_ok c"
  shows "surfaces_ok c'"
  using assms(1)
proof (cases rule: destroy_view)
  case 1
  with assms(2) show ?thesis
    by (simp add: surfaces_ok_def)
next
  case (2 host c1)
  with assms(2) show ?thesis
    by (auto simp: surfaces_ok_def viewports_ok_def values_ok_def hm.ok_keep hm.get_keep split: option.splits if_splits)
qed

lemma ensure_zaura_frame:
  assumes "ensure_host_zaura_surface k c = Some (z, d)"
  shows "surfaces d = surfaces c" "viewport_to_wl_surface d = viewport_to_wl_surface c" "render_buffers d = render_buffers c"
  using assms by (auto simp: ensure_host_zaura_surface_def Let_def split: option.splits prod.splits sum.splits)

lemma zaura_app_id_frame:
  assumes "set_zaura_app_id name k c = Some (a, d)"
  shows "surfaces d = surfaces c" "viewport_to_wl_surface d = viewport_to_wl_surface c" "render_buffers d = render_buffers c"
  using assms by (auto simp: set_zaura_app_id_def ensure_zaura_frame
      split: option.splits prod.splits sum.splits if_splits)

lemma app_id_ok:
  assumes "on_set_app_id name c = Some (a, d)" "surfaces_ok c"
  shows "surfaces_ok d"
proof -
  have "surfaces d = surfaces c \<and> viewport_to_wl_surface d = viewport_to_wl_surface c \<and> render_buffers d = render_buffers c"
    using assms(1) by (auto simp: on_set_app_id_def Let_def zaura_app_id_frame
        split: option.splits sum.splits if_splits)
  with assms(2) show ?thesis
    by (simp add: surfaces_ok_def buffers_ok_def)
qed

lemma xdg_ok:
  assumes "surfaces_ok c"
  shows "surfaces_ok (snd (on_get_xdg_surface i k c))" "surfaces_ok (snd (on_xdg_surface_destroy c))"
    "surfaces_ok (snd (on_get_toplevel i c))" "surfaces_ok (snd (on_toplevel_destroy c))"
  using assms by (auto simp: on_get_xdg_surface_def on_xdg_surface_destroy_def on_get_toplevel_def on_toplevel_destroy_def
      surfaces_ok_def buffers_ok_def split: option.split)

section \<open>Sessions\<close>

lemma handle_ok:
  assumes "surface_handle io store request c = Some r" "wire_request request" "surfaces_ok c"
  shows "surfaces_ok (snd r)"
  using assms destroy_ok [of c "fst r" "snd r"] app_id_ok [of _ c "fst r" "snd r"]
  by (cases request)
    (auto simp: attach_ok damage_ok scale_ok offset_ok get_viewport_ok source_ok destination_ok viewport_destroy_ok xdg_ok
      dest: commit_ok)

lemma surface_apply_ok:
  assumes "surfaces_ok c" "surface_apply e c = Some c'"
  shows "surfaces_ok c'"
proof -
  obtain sender io store request where e: "e = (sender, io, store, request)"
    by (cases e) auto
  have "surfaces_ok (c\<lparr>last_sender_id := sender\<rparr>)"
    using assms(1) by (simp add: surfaces_ok_def buffers_ok_def)
  with assms show ?thesis
    by (auto simp: e surface_apply_def dest: handle_ok split: if_splits)
qed

interpretation surface_session: panicking_machine surface_apply surfaces_ok
  by unfold_locales (rule surface_apply_ok)

text \<open>C10: Whatever requests a client sends to its surfaces, viewports and xdg objects, every surface the proxy
  keeps has a positive scale, a transform of the protocol, viewports with positive sizes, at most 256
  non-empty damage rectangles of each kind and dimensions of the wire, and every viewport belongs
  to one live surface, which has no other.\<close>

theorem surface_values_in_range:
  assumes "surfaces_ok c" "try_each surface_apply es c = Some c'"
  shows "(\<forall>k s. hm_get (surfaces c') k = Some s \<longrightarrow>
      0 < current_buffer_scale s \<and> 0 \<le> current_buffer_transform s \<and> current_buffer_transform s \<le> 7 \<and>
      pred_option viewport_ok (viewport s) \<and> damage_list_ok (pending_surface_damage s) \<and>
      damage_list_ok (pending_buffer_damage s) \<and> pred_option dimensions_ok (current_buffer_dimensions s)) \<and>
    (\<forall>i k. hm_get (viewport_to_wl_surface c') i = Some k \<longrightarrow>
      hm_get (surfaces c') k \<noteq> None \<and> (\<forall>j. hm_get (viewport_to_wl_surface c') j = Some k \<longrightarrow> j = i))"
proof -
  have ok: "surfaces_ok c'"
    using surface_session.run_inv assms .
  then have "surface_ok s" if "hm_get (surfaces c') k = Some s" for k s
    using that by (metis option.pred_inject(2) surfaces_ok_def values_ok_def)
  with ok show ?thesis
    by (simp add: surfaces_ok_def viewports_ok_def surface_ok_def)
qed

section \<open>Commits always answer\<close>

text \<open>The sizes the copy is told are those of the mappings.\<close>

definition io_ok :: "commit_io \<Rightarrow> pool_store \<Rightarrow> 'h ctx_scheme \<Rightarrow> bool" where
  "io_ok io store c \<longleftrightarrow> length (io_source io) < usize_limit \<and> length (io_dest io) < usize_limit \<and>
     pred_option (\<lambda>m. length (snd m) < usize_limit) (io_bo_map io) \<and>
     (\<forall>h b pool. local_copy (render_buffers c) h = Some b \<longrightarrow> hm_get store (buf_pool b) = Some pool \<longrightarrow>
        pool_size pool \<le> length (io_source io) \<and> buf_dest_size b \<le> length (io_dest io))"

lemma copy_with_total:
  assumes "in_i32 (buf_width b)" "in_i32 (buf_height b)" "list_all rect_ok (damage_rects (surface_damage commit))"
    and "list_all rect_ok (damage_rects (buffer_damage commit))" "pool_size pool \<le> length source" "n \<le> length dst"
    and "length source < usize_limit" "length dst < usize_limit"
  shows "copy_with b commit pool source (Some dst) n stride \<noteq> None"
proof -
  have full: "list_all rect_ok [damage_rect_new 0 0 (buf_width b) (buf_height b)]"
    using assms(1,2) by (simp add: rect_ok_def in_i32_def)
  have both: "list_all rect_ok (damage_rects (surface_damage commit) @ damage_rects (buffer_damage commit))"
    using assms(3,4) by simp
  have total: "copy_shm_damage (Some source) (Some dst) l d \<noteq> None"
    if "list_all rect_ok d" "sl_pool_size l = pool_size pool" "sl_dest_size l = n" for l d
    using damage_copy_memory_safe [of d l source dst] that assms(5-8) by auto
  show ?thesis
    using total [OF full] total [OF both]
    by (simp add: copy_with_def copy_damage_to_ptr_def Let_def del: not_None_eq split: option.split)
qed

lemma bracketed_total:
  assumes "copy_to_destination io b commit pool \<noteq> None"
  shows "bracketed_copy io b commit pool \<noteq> None"
  using assms by (simp add: bracketed_copy_def Let_def case_prod_beta del: not_None_eq)

lemma copy_total:
  assumes "buffers_ok c" "io_ok io store c" "list_all rect_ok (damage_rects (surface_damage commit))"
    and "list_all rect_ok (damage_rects (buffer_damage commit))"
  shows "copy_surface_buffer io store buffer commit c \<noteq> None"
proof -
  have "bracketed_copy io b commit pool \<noteq> None"
    if b: "local_copy (render_buffers c) h = Some b" "hm_get store (buf_pool b) = Some pool" for h b pool
  proof (rule bracketed_total)
    have "dimensions (render_buffers c) h = Some (buf_width b, buf_height b)"
      using b(1) by (auto simp: local_copy_def dimensions_def split: option.splits render_buffer_backing.splits)
    then have w: "in_i32 (buf_width b)" "in_i32 (buf_height b)"
      using assms(1) by (auto simp: buffers_ok_def dimensions_ok_def dest!: spec [of _ h])
    have sizes: "pool_size pool \<le> length (io_source io)" "buf_dest_size b \<le> length (io_dest io)"
      and limits: "length (io_source io) < usize_limit" "length (io_dest io) < usize_limit"
      using assms(2) b by (auto simp: io_ok_def)
    have bo: "length bytes < usize_limit" if "io_bo_map io = Some (n, bytes)" for n bytes
      using assms(2) that by (simp add: io_ok_def)
    show "copy_to_destination io b commit pool \<noteq> None"
      using copy_with_total [OF w assms(3,4) sizes(1) sizes(2) limits]
        copy_with_total [OF w assms(3,4) sizes(1) order_refl limits(1)] bo
      by (auto simp: copy_to_destination_def split: option.split)
  qed
  then show ?thesis
    by (auto simp: copy_surface_buffer_def split: option.split)
qed

lemma finalize_total: "finalize_commit k commit c \<noteq> None"
proof -
  have "finalize_attachment p n r \<noteq> None" for p n r
    by (cases "p = n") (simp_all add: finalize_attachment_def [of n n] finalize_attachment_cases Let_def)
  then have "finalize_surface_attachment p n d \<noteq> None" for p n and d :: "'a ctx_scheme"
    by (simp add: finalize_surface_attachment_def del: not_None_eq split: option.split)
  then show ?thesis
    by (simp add: finalize_commit_def Let_def del: not_None_eq split: option.split prod.split)
qed

lemma build_messages_answer:
  assumes "surface_ok s" "buffers_ok c" "list_all rect_pos sd" "list_all rect_pos bd"
  shows "build_surface_commit_messages c k sd bd s force \<noteq> None"
proof (cases "get_host_id (shadow_table c) k")
  case None
  then show ?thesis
    by (simp add: build_surface_commit_messages_def)
next
  case (Some host)
  then show ?thesis
    using build_messages_total [OF assms, where surface = k and host = host and force = force] by (metis option.distinct(1))
qed

lemma prepared_ok:
  assumes "surfaces_ok c" "prepare_surface_commit k c = (commit, c1)"
  shows "\<exists>m. c1 = c\<lparr>surfaces := m\<rparr>" "surface_ok (commit_state commit)"
    "list_all rect_pos (damage_rects (surface_damage commit))" "list_all rect_pos (damage_rects (buffer_damage commit))"
proof -
  have "\<exists>m s. c1 = c\<lparr>surfaces := m\<rparr> \<and> surface_ok s \<and> commit = fst (prepare_commit s)"
  proof (cases "hm_get (surfaces c) k")
    case None
    then have "c1 = c\<lparr>surfaces := surfaces c\<rparr>" "commit = fst (prepare_commit surface_state_default)"
      using assms(2) by (simp_all add: prepare_surface_commit_def)
    then show ?thesis
      using surface_ok_default by blast
  next
    case (Some s)
    moreover from this have "surface_ok s"
      using assms(1) by (metis option.pred_inject(2) surfaces_ok_def values_ok_def)
    ultimately show ?thesis
      using assms(2) prepare_surface_eq [OF Some] by auto
  qed
  then show "\<exists>m. c1 = c\<lparr>surfaces := m\<rparr>" "surface_ok (commit_state commit)"
    "list_all rect_pos (damage_rects (surface_damage commit))" "list_all rect_pos (damage_rects (buffer_damage commit))"
    by (auto simp: prepare_commit_shape(2) prepare_commit_snd prepare_commit_damage surface_ok_committed)
      (simp_all add: surface_ok_def damage_list_ok_def)
qed

text \<open>C11: As long as the buffers' sizes are those of their mappings, a commit never makes the proxy panic,
  whatever state the client has pending and whatever the ioctls and fences answer.\<close>

theorem commit_never_panics:
  assumes "surfaces_ok c" "io_ok io store c"
  shows "on_surface_commit io store c \<noteq> None"
proof -
  obtain commit c1 where prep: "prepare_surface_commit (last_sender_id c) c = (commit, c1)"
    by fastforce
  note ok = prepared_ok [OF assms(1) prep]
  have c1: "buffers_ok c1" "io_ok io store c1"
    using ok(1) assms by (auto simp: surfaces_ok_def io_ok_def)
  have rects: "list_all rect_ok (damage_rects (surface_damage commit))" "list_all rect_ok (damage_rects (buffer_damage commit))"
    using ok(3,4) by (simp_all add: list_all_iff rect_pos_def)
  note copy = copy_total [OF c1 rects]
  show ?thesis
    using build_messages_answer [OF ok(2) c1(1) ok(3,4)]
    unfolding on_surface_commit_def Let_def prep
    by (simp add: finalize_total copy del: not_None_eq split: option.split prod.split)
qed

section \<open>A concrete session\<close>

lemma surfaces_ok_empty: "surfaces_ok context_empty"
  by (simp add: surfaces_ok_def values_ok_def viewports_ok_def buffers_ok_def context_new_def hm_get_def hm_ok_def
      dimensions_eq get_active_def)

theorem surface_values_in_range_witness:
  "\<exists>c' s. try_each surface_apply [(7, idle_io, [], SurfaceSetScale 2), (7, idle_io, [], SurfaceSetTransform 9),
      (7, idle_io, [], SurfaceDamage 1 2 3 4)] context_empty = Some c' \<and> hm_get (surfaces c') 7 = Some s \<and>
     damage_list_ok (pending_surface_damage s) \<and> pending_buffer_transform s = None"
proof -
  let ?es = "[(7, idle_io, [], SurfaceSetScale 2), (7, idle_io, [], SurfaceSetTransform 9),
      (7, idle_io, [], SurfaceDamage 1 2 3 4)]"
  obtain c' s where run: "try_each surface_apply ?es context_empty = Some c'" "hm_get (surfaces c') 7 = Some s"
    "pending_buffer_transform s = None"
    by (simp add: surface_apply_def on_set_buffer_scale_def on_set_buffer_transform_def on_damage_def on_surface_entry_def
        in_i32_def surface_state_default_def context_new_def)
  with surface_values_in_range [OF surfaces_ok_empty run(1)] show ?thesis
    by blast
qed

theorem commit_never_panics_witness: "on_surface_commit idle_io pixel_store pixel_context \<noteq> None"
proof (rule commit_never_panics)
  have "surfaces pixel_context = [(7, pixel_surface)]" "viewport_to_wl_surface pixel_context = []"
    by (simp_all add: pixel_context_def sample_session_def context_new_def)
  then show "surfaces_ok pixel_context"
    using pixel_context_ok(5,6) by (simp add: surfaces_ok_def values_ok_def viewports_ok_def hm_get_def hm_ok_def)
  have "local_copy (render_buffers pixel_context) h = Some b \<Longrightarrow> b = pixel_buffer" for h b
    by (auto simp: pixel_context_def local_copy_def get_active_def hm_get_def Render_Buffer.active_def split: if_splits)
  moreover have "buf_dest_size pixel_buffer = 2"
    by (simp add: pixel_buffer_def)
  ultimately show "io_ok idle_io pixel_store pixel_context"
    by (fastforce simp: io_ok_def idle_io_def usize_limit_def pixel_store_def hm_get_def split: if_splits)
qed

end
