(* ===== verification/Dmabuf_Params.thy ===== *)
theory Dmabuf_Params
  imports Shm_Handler Text_Input_Focus
begin

text \<open>
  The construction of dma-buf backed buffers (\<open>zwp_linux_buffer_params_v1\<close> of
  \<^verbatim>\<open>sommelier/src/handler/linux_dmabuf.rs\<close>): the planes a client adds are held back until the
  create request, checked together, and sent with it; the answer of an asynchronous create is
  matched to the params object even after the guest has destroyed it.  Also the plane metadata
  of virtio-gpu resources (\<^verbatim>\<open>sommelier/src/allocator.rs\<close>).  The results of system calls are
  arguments; the descriptors a handler opens and closes are a result.
\<close>

section \<open>Formats and plane layouts\<close>

text \<open>NV12, RGB565, XRGB8888, ARGB8888, XBGR8888 and ABGR8888.\<close>

definition is_supported_drm_format :: "u32 \<Rightarrow> bool" where
  "is_supported_drm_format format \<longleftrightarrow>
     format \<in> {WL_SHM_FORMAT_NV12, 0x36314752, 0x34325258, 0x34325241, 0x34324258, 0x34324241}"

text \<open>Bytes of a row and rows of one plane; \<open>u64\<close> has the range of \<open>usize\<close>.\<close>

definition dmabuf_plane_layout :: "u32 \<Rightarrow> u32 \<Rightarrow> i32 \<Rightarrow> i32 \<Rightarrow> (nat \<times> nat) option" where
  "dmabuf_plane_layout format plane_idx width height =
     (case (usize_from_i32 width, usize_from_i32 height) of
        (Some w, Some h) \<Rightarrow>
          if format = WL_SHM_FORMAT_NV12 \<and> w mod 2 = 0 \<and> h mod 2 = 0 \<and> plane_idx < 2
          then Some (w, if plane_idx = 0 then h else h div 2)
          else if format = 0x36314752 \<and> plane_idx = 0
          then map_option (\<lambda>row. (row, h)) (usize_checked_mul w 2)
          else if format \<in> {0x34325258, 0x34325241, 0x34324258, 0x34324241} \<and> plane_idx = 0
          then map_option (\<lambda>row. (row, h)) (usize_checked_mul w 4)
          else None
      | _ \<Rightarrow> None)"

definition valid_dmabuf_plane :: "pending_param \<Rightarrow> u32 \<Rightarrow> i32 \<Rightarrow> i32 \<Rightarrow> bool" where
  "valid_dmabuf_plane p format width height =
     (case dmabuf_plane_layout format (pp_plane_idx p) width height of
        None \<Rightarrow> False
      | Some (minimum_row_bytes, rows) \<Rightarrow>
          let stride = unat (pp_stride p)
          in if stride < minimum_row_bytes then False
             else case usize_checked_mul stride (rows - 1) of
               None \<Rightarrow> False
             | Some last_row_offset \<Rightarrow>
                 Option.bind (usize_checked_add (unat (pp_offset p)) last_row_offset)
                   (\<lambda>e. usize_checked_add e minimum_row_bytes) \<noteq> None)"

section \<open>The checks of a create request\<close>

definition expected_planes :: "u32 \<Rightarrow> nat" where
  "expected_planes format = (if format = WL_SHM_FORMAT_NV12 then 2 else 1)"

text \<open>The closure of \<open>all\<close>, with the hash set of the planes seen so far.\<close>

fun planes_valid :: "u32 set \<Rightarrow> u32 \<Rightarrow> i32 \<Rightarrow> i32 \<Rightarrow> pending_param list \<Rightarrow> bool" where
  "planes_valid seen format width height [] = True"
| "planes_valid seen format width height (p # ps) =
     (pp_fd p \<ge> 0 \<and> unat (pp_plane_idx p) < expected_planes format \<and> pp_plane_idx p \<notin> seen \<and>
      valid_dmabuf_plane p format width height \<and>
      planes_valid (insert (pp_plane_idx p) seen) format width height ps)"

definition valid_params :: "'h ctx_scheme \<Rightarrow> u32 \<Rightarrow> i32 \<Rightarrow> i32 \<Rightarrow> u32 \<Rightarrow> bool" where
  "valid_params c params_id width height format \<longleftrightarrow>
     \<not> (width \<le> 0 \<or> height \<le> 0 \<or> \<not> is_supported_drm_format format) \<and>
     (case hm_get (pending_params c) params_id of
        None \<Rightarrow> False
      | Some ps \<Rightarrow>
          length ps = expected_planes format \<and> planes_valid {} format width height ps)"

fun plane_error :: "u32 set \<Rightarrow> u32 \<Rightarrow> i32 \<Rightarrow> i32 \<Rightarrow> pending_param list \<Rightarrow> u32" where
  "plane_error seen format width height [] = 3"
| "plane_error seen format width height (p # ps) =
     (if unat (pp_plane_idx p) \<ge> expected_planes format then 1
      else if pp_plane_idx p \<in> seen then 2
      else if \<not> valid_dmabuf_plane p format width height then 6
      else plane_error (insert (pp_plane_idx p) seen) format width height ps)"

definition params_error_code :: "'h ctx_scheme \<Rightarrow> u32 \<Rightarrow> i32 \<Rightarrow> i32 \<Rightarrow> u32 \<Rightarrow> u32" where
  "params_error_code c params_id width height format =
     (if width \<le> 0 \<or> height \<le> 0 then 5
      else if \<not> is_supported_drm_format format then 4
      else case hm_get (pending_params c) params_id of
        None \<Rightarrow> 3
      | Some ps \<Rightarrow>
          if length ps \<noteq> expected_planes format then 3 else plane_error {} format width height ps)"

section \<open>Plane metadata of virtio-gpu resources\<close>

record resource_info =
  ri_bo_handle :: u32
  ri_res_handle :: u32
  ri_size :: u32
  union_words :: "u32 list"
  ri_num_planes :: u32
  ri_offsets :: "u32 list"
  format_modifier :: u64

definition ri_stride :: "resource_info \<Rightarrow> u32" where
  "ri_stride r = union_words r ! 0"

record plane0_fixup =
  fix_stride :: u32
  fix_modifier :: u64
  is_virtgpu_buffer :: bool

definition apply_dmabuf_plane0_fixup :: "u32 \<Rightarrow> u64 \<Rightarrow> resource_info option \<Rightarrow> bool \<Rightarrow> plane0_fixup" where
  "apply_dmabuf_plane0_fixup guest_stride guest_modifier resource_info extended =
     (case resource_info of
        None \<Rightarrow> \<lparr>fix_stride = guest_stride, fix_modifier = guest_modifier, is_virtgpu_buffer = False\<rparr>
      | Some r \<Rightarrow>
          (case if extended \<and> ri_stride r \<noteq> 0 then (ri_stride r, format_modifier r)
                else (guest_stride, guest_modifier) of
             (s, m) \<Rightarrow> \<lparr>fix_stride = s, fix_modifier = m, is_virtgpu_buffer = True\<rparr>))"

text \<open>
  The answers of the DRM device to one query: the handle a descriptor imports as, and the
  resource behind a handle.  The handles closed again are a result.
\<close>

record drm_device =
  prime_fd_to_handle :: "raw_fd \<Rightarrow> u32 option"
  virtgpu_resource_info :: "u32 \<Rightarrow> resource_info option"
  has_resource_info_type :: bool

definition fixup_dmabuf_plane0 :: "drm_device \<Rightarrow> raw_fd \<Rightarrow> u32 \<Rightarrow> u64 \<Rightarrow> plane0_fixup \<times> u32 list" where
  "fixup_dmabuf_plane0 dev fd guest_stride guest_modifier =
     (if fd < 0
      then (apply_dmabuf_plane0_fixup guest_stride guest_modifier None (has_resource_info_type dev), [])
      else case prime_fd_to_handle dev fd of
        None \<Rightarrow> (apply_dmabuf_plane0_fixup guest_stride guest_modifier None (has_resource_info_type dev), [])
      | Some handle \<Rightarrow>
          (apply_dmabuf_plane0_fixup guest_stride guest_modifier (virtgpu_resource_info dev handle)
             (has_resource_info_type dev), [handle]))"

section \<open>Adding planes\<close>

definition REQ_ADD :: u16 where "REQ_ADD = 1"
definition REQ_CREATE :: u16 where "REQ_CREATE = 2"
definition REQ_CREATE_IMMED :: u16 where "REQ_CREATE_IMMED = 3"

definition params_fds :: "pending_param list \<Rightarrow> raw_fd list" where
  "params_fds ps = map pp_fd ps"

text \<open>The descriptors a handler opens (with \<open>dup\<close>) and those it closes.\<close>

type_synonym fd_trace = "raw_fd list \<times> raw_fd list"

text \<open>What removing the entry of a params object closes.\<close>

definition discard_pending_params :: "u32 \<Rightarrow> 'h ctx_scheme \<Rightarrow> raw_fd list \<times> 'h ctx_scheme" where
  "discard_pending_params params_id c =
     (case hm_get (pending_params c) params_id of
        None \<Rightarrow> ([], c)
      | Some ps \<Rightarrow>
          (params_fds ps, c\<lparr>pending_params := hm_remove params_id (pending_params c)\<rparr>))"

definition on_create_params :: "u32 \<Rightarrow> 'h ctx_scheme \<Rightarrow> action \<times> fd_trace \<times> 'h ctx_scheme" where
  "on_create_params params_id c =
     (Forward,
      ([], case hm_get (pending_params c) params_id of Some old \<Rightarrow> params_fds old | None \<Rightarrow> []),
      c\<lparr>used_dmabuf_params := used_dmabuf_params c - {params_id},
        pending_params := hm_insert params_id [] (pending_params c)\<rparr>)"

text \<open>The result of \<open>dup\<close> and the allocator's device, if there is one.\<close>

definition on_add ::
    "raw_fd option \<Rightarrow> drm_device option \<Rightarrow> raw_fd \<Rightarrow> u32 \<Rightarrow> u32 \<Rightarrow> u32 \<Rightarrow> u32 \<Rightarrow> u32 \<Rightarrow> 'h ctx_scheme \<Rightarrow>
       action \<times> fd_trace \<times> 'h ctx_scheme" where
  "on_add dup allocator fd plane_idx offset stride modifier_hi modifier_lo c =
     (let params_id = last_sender_id c in
      if fd < 0 then (Drop, ([], []), c)
      else if params_id \<in> used_dmabuf_params c then
        (Drop, ([], []), queue_protocol_error params_id 0 (str_bytes ''linux-dmabuf params already used'') c)
      else if plane_idx > 1 then
        (Drop, ([], []), queue_protocol_error params_id 1 (str_bytes ''dmabuf plane index out of bounds'') c)
      else if (case hm_get (pending_params c) params_id of
                 Some ps \<Rightarrow> list_ex (\<lambda>p. pp_plane_idx p = plane_idx) ps | None \<Rightarrow> False) then
        (Drop, ([], []), queue_protocol_error params_id 2 (str_bytes ''dmabuf plane was already set'') c)
      else case dup of
        None \<Rightarrow> (Drop, ([], []), c)
      | Some dup_fd \<Rightarrow>
          (case if plane_idx = 0 then
                  (case allocator of
                     Some dev \<Rightarrow>
                       let guest_modifier = push_bit 32 (ucast modifier_hi) OR ucast modifier_lo;
                           fixup = fst (fixup_dmabuf_plane0 dev fd stride guest_modifier)
                       in (fix_stride fixup, ucast (drop_bit 32 (fix_modifier fixup)), ucast (fix_modifier fixup))
                   | None \<Rightarrow> (stride, modifier_hi, modifier_lo))
                else (stride, modifier_hi, modifier_lo) of
             (s, hi, lo) \<Rightarrow>
               (case hm_get (pending_params c) params_id of
                  Some ps \<Rightarrow>
                    (Drop, ([dup_fd], []), c\<lparr>pending_params := hm_insert params_id
                       (ps @ [\<lparr>pp_fd = dup_fd, pp_plane_idx = plane_idx, pp_offset = offset,
                               pp_stride = s, pp_modifier_hi = hi, pp_modifier_lo = lo\<rparr>])
                       (pending_params c)\<rparr>)
                | None \<Rightarrow> (Drop, ([dup_fd], [dup_fd]), c))))"

section \<open>Sending the planes\<close>

text \<open>The duplicates for synchronisation; the \<open>k\<close>-th call of \<open>dup\<close> returns \<open>dup k\<close>.\<close>

fun dup_planes :: "(nat \<Rightarrow> raw_fd option) \<Rightarrow> nat \<Rightarrow> pending_param list \<Rightarrow> bool \<times> raw_fd list" where
  "dup_planes dup k [] = (True, [])"
| "dup_planes dup k (p # ps) =
     (case dup k of
        None \<Rightarrow> (False, [])
      | Some fd \<Rightarrow> (case dup_planes dup (Suc k) ps of (ok, fds) \<Rightarrow> (ok, fd # fds)))"

definition add_builder :: "pending_param \<Rightarrow> message_builder" where
  "add_builder p =
     write_u32 (pp_modifier_lo p) (write_u32 (pp_modifier_hi p) (write_u32 (pp_stride p)
       (write_u32 (pp_offset p) (write_u32 (pp_plane_idx p) message_builder_new))))"

fun queue_adds :: "u32 \<Rightarrow> pending_param list \<Rightarrow> packet list \<Rightarrow> bool \<times> raw_fd list \<times> packet list" where
  "queue_adds host_id [] q = (True, [], q)"
| "queue_adds host_id (p # ps) q =
     (case shm_queue_message q host_id REQ_ADD (add_builder p) [pp_fd p] of
        (ok, q', closed) \<Rightarrow>
          if ok then queue_adds host_id ps q' else (False, closed @ params_fds ps, q'))"

text \<open>
  \<open>process_params\<close>.  A local vector of synchronisation descriptors that is dropped on an
  error path closes them.
\<close>

definition process_params ::
    "(nat \<Rightarrow> raw_fd option) \<Rightarrow> u32 \<Rightarrow> (u32 \<Rightarrow> 'h ctx_scheme \<Rightarrow> bool \<times> 'h ctx_scheme) \<Rightarrow> 'h ctx_scheme \<Rightarrow>
       (host_id \<times> raw_fd list) option \<times> fd_trace \<times> 'h ctx_scheme" where
  "process_params dup params_id send_create c0 =
     (case hm_get (pending_params c0) params_id of
        None \<Rightarrow> (None, ([], []), c0)
      | Some ps \<Rightarrow>
          let c = c0\<lparr>pending_params := hm_remove params_id (pending_params c0)\<rparr>
          in case get_host_id (shadow_table c) params_id of
            None \<Rightarrow> (None, ([], params_fds ps), c\<lparr>fatal_protocol_error := True\<rparr>)
          | Some host_id \<Rightarrow>
             (case dup_planes dup 0 ps of
                (dups_ok, sync_fds) \<Rightarrow>
                  if \<not> dups_ok then
                    (None, (sync_fds, params_fds ps @ sync_fds), c\<lparr>fatal_protocol_error := True\<rparr>)
                  else if sync_fds = [] then (None, ([], params_fds ps), c\<lparr>fatal_protocol_error := True\<rparr>)
                  else (case queue_adds host_id ps (client_to_host_queue c) of
                    (adds_ok, closed, q) \<Rightarrow>
                      if \<not> adds_ok then
                        (None, (sync_fds, closed @ sync_fds),
                         c\<lparr>client_to_host_queue := q, fatal_protocol_error := True\<rparr>)
                      else (case send_create host_id (c\<lparr>client_to_host_queue := q\<rparr>) of
                        (created, c1) \<Rightarrow>
                          if \<not> created then (None, (sync_fds, sync_fds), c1\<lparr>fatal_protocol_error := True\<rparr>)
                          else (Some (HostId host_id, sync_fds), (sync_fds, []),
                                c1\<lparr>used_dmabuf_params := insert params_id (used_dmabuf_params c1)\<rparr>)))))"

section \<open>Create requests\<close>

definition reject_params :: "u32 \<Rightarrow> i32 \<Rightarrow> i32 \<Rightarrow> u32 \<Rightarrow> 'h ctx_scheme \<Rightarrow> action \<times> fd_trace \<times> 'h ctx_scheme" where
  "reject_params params_id width height format c =
     (case discard_pending_params params_id
        (queue_protocol_error params_id (params_error_code c params_id width height format)
           (str_bytes ''invalid linux-dmabuf buffer parameters'') c) of
        (closed, c1) \<Rightarrow> (Drop, ([], closed), c1))"

definition create_builder :: "i32 \<Rightarrow> i32 \<Rightarrow> u32 \<Rightarrow> u32 \<Rightarrow> message_builder" where
  "create_builder width height format flags =
     write_u32 flags (write_u32 format (write_i32 height (write_i32 width message_builder_new)))"

definition on_create ::
    "(nat \<Rightarrow> raw_fd option) \<Rightarrow> i32 \<Rightarrow> i32 \<Rightarrow> u32 \<Rightarrow> u32 \<Rightarrow> 'h ctx_scheme \<Rightarrow>
       action \<times> fd_trace \<times> 'h ctx_scheme" where
  "on_create dup width height format flags c =
     (let params_id = last_sender_id c in
      if params_id \<in> used_dmabuf_params c then
        (Drop, ([], []), queue_protocol_error params_id 0 (str_bytes ''linux-dmabuf params already used'') c)
      else if \<not> valid_params c params_id width height format then
        reject_params params_id width height format c
      else
        (case process_params dup params_id
                (\<lambda>host_id. queue_to_host host_id REQ_CREATE (create_builder width height format flags)) c of
           (None, fds, c1) \<Rightarrow> (Drop, fds, c1)
         | (Some (host_params_id, sync_fds), (opened, closed), c1) \<Rightarrow>
             (case pending_native_creates c1 host_params_id of
                None \<Rightarrow>
                  (Drop, (opened, closed), c1\<lparr>pending_native_creates := (pending_native_creates c1)(host_params_id \<mapsto>
                     \<lparr>pn_guest_params_id = params_id, pn_dimensions = (width, height),
                      pn_sync_fds = sync_fds\<rparr>)\<rparr>)
              | Some _ \<Rightarrow> (Drop, (opened, closed @ sync_fds), c1\<lparr>fatal_protocol_error := True\<rparr>))))"

definition create_immed_builder :: "u32 \<Rightarrow> i32 \<Rightarrow> i32 \<Rightarrow> u32 \<Rightarrow> u32 \<Rightarrow> message_builder" where
  "create_immed_builder host_buffer width height format flags =
     write_u32 flags (write_u32 format (write_i32 height (write_i32 width
       (write_u32 host_buffer message_builder_new))))"

text \<open>The outer \<open>None\<close> is the panic of an exhausted ID space.\<close>

definition on_create_immed ::
    "(nat \<Rightarrow> raw_fd option) \<Rightarrow> u32 \<Rightarrow> i32 \<Rightarrow> i32 \<Rightarrow> u32 \<Rightarrow> u32 \<Rightarrow> 'h ctx_scheme \<Rightarrow>
       (action \<times> fd_trace \<times> 'h ctx_scheme) option" where
  "on_create_immed dup buffer_id width height format flags c =
     (let params_id = last_sender_id c in
      if params_id \<in> used_dmabuf_params c then
        Some (Drop, ([], []), queue_protocol_error params_id 0 (str_bytes ''linux-dmabuf params already used'') c)
      else if hm_get (pending_params c) params_id = None then Some (Drop, ([], []), c)
      else if get_host_id (shadow_table c) params_id = None then
        (case process_params dup params_id (\<lambda>_ c'. (True, c')) c of
           (r, (opened, closed), c1) \<Rightarrow>
             Some (Drop, (opened, closed @ (case r of Some (_, fds) \<Rightarrow> fds | None \<Rightarrow> [])), c1))
      else if \<not> valid_params c params_id width height format then
        Some (reject_params params_id width height format c)
      else
        (case allocate_host_id (shadow_table c) of
           (None, _) \<Rightarrow> None
         | (Some host_buffer, t) \<Rightarrow>
             let version = (case guest_object_version t params_id of Some v \<Rightarrow> v | None \<Rightarrow> 0xFFFFFFFF);
                 t1 = set_host_version host_buffer version
                        (track_interface_with_version buffer_id ''wl_buffer'' version
                          (map_id buffer_id host_buffer t))
             in (case process_params dup params_id
                        (\<lambda>host_id. queue_to_host host_id REQ_CREATE_IMMED
                           (create_immed_builder host_buffer width height format flags))
                        (c\<lparr>shadow_table := t1\<rparr>) of
                   (None, fds, c1) \<Rightarrow>
                     Some (Drop, fds, c1\<lparr>shadow_table := remove_id buffer_id (shadow_table c1)\<rparr>)
                 | (Some (_, sync_fds), (opened, closed), c1) \<Rightarrow>
                     (case register_native_buffer host_buffer (width, height) sync_fds c1 of
                        (True, c2) \<Rightarrow> Some (Drop, (opened, closed), c2)
                      | (False, c2) \<Rightarrow>
                          Some (Drop, (opened, closed @ sync_fds), c2\<lparr>fatal_protocol_error := True\<rparr>)))))"

section \<open>The answer to an asynchronous create\<close>

definition drop_native_create :: "u32 \<Rightarrow> 'h ctx_scheme \<Rightarrow> raw_fd list \<times> 'h ctx_scheme" where
  "drop_native_create host_params c =
     (case pending_native_creates c (HostId host_params) of Some p \<Rightarrow> pn_sync_fds p | None \<Rightarrow> [],
      c\<lparr>pending_native_creates := (pending_native_creates c)(HostId host_params := None)\<rparr>)"

text \<open>\<open>params.destroy\<close>: the generation still in flight is remembered as an orphan.\<close>

definition on_params_destroy :: "'h ctx_scheme \<Rightarrow> action \<times> fd_trace \<times> 'h ctx_scheme" where
  "on_params_destroy c0 =
     (let i = last_sender_id c0;
          c = c0\<lparr>used_dmabuf_params := used_dmabuf_params c0 - {i}\<rparr>;
          r = (case get_host_id (shadow_table c) i of
                 None \<Rightarrow> ([], c)
               | Some host \<Rightarrow>
                   (case pending_native_creates c (HostId host) of
                      None \<Rightarrow> ([], c)
                    | Some _ \<Rightarrow>
                        (case drop_native_create host c of
                           (closed, c1) \<Rightarrow>
                             (closed, c1\<lparr>orphaned_dmabuf_params := (orphaned_dmabuf_params c1)(host \<mapsto> i)\<rparr>))))
      in case r of (closed, c1) \<Rightarrow>
           (case discard_pending_params i c1 of (planes, c2) \<Rightarrow> (Forward, ([], closed @ planes), c2)))"

text \<open>The two branches of \<open>on_created\<close> for an orphan share this code.\<close>

definition destroy_orphaned_buffer :: "u32 \<Rightarrow> u32 \<Rightarrow> 'h ctx_scheme \<Rightarrow> (raw_fd list \<times> 'h ctx_scheme) option" where
  "destroy_orphaned_buffer host_params buffer c =
     (if \<not> is_host_id_available (shadow_table c) buffer then None
      else
        let version = (case host_object_version (shadow_table c) host_params of Some v \<Rightarrow> v | None \<Rightarrow> 0xFFFFFFFF);
            c1 = c\<lparr>shadow_table := track_host_interface_with_version buffer ''wl_buffer'' version (shadow_table c)\<rparr>
        in case queue_host_buffer_destroy buffer c1 of
          (queued, c2) \<Rightarrow>
            let c3 = (if queued then c2\<lparr>shadow_table := snd (mark_pending_destroy_host buffer (shadow_table c2))\<rparr>
                      else c2\<lparr>shadow_table := remove_host_interface buffer (shadow_table c2)\<rparr>)
            in Some (drop_native_create host_params
                 (c3\<lparr>orphaned_dmabuf_params := (orphaned_dmabuf_params c3)(host_params := None)\<rparr>)))"

definition release_orphaned_params :: "u32 \<Rightarrow> 'h ctx_scheme \<Rightarrow> 'h ctx_scheme" where
  "release_orphaned_params host_params c =
     (if get_guest_id (shadow_table c) host_params = None
      then c\<lparr>shadow_table := remove_host_interface host_params (shadow_table c)\<rparr> else c)"

definition on_created :: "u32 \<Rightarrow> 'h ctx_scheme \<Rightarrow> action \<times> fd_trace \<times> 'h ctx_scheme" where
  "on_created buffer c =
     (let host_params = last_sender_id c in
      if orphaned_dmabuf_params c host_params \<noteq> None then
        (case destroy_orphaned_buffer host_params buffer c of
           None \<Rightarrow> (Drop, ([], []), c\<lparr>fatal_protocol_error := True\<rparr>)
         | Some (closed, c1) \<Rightarrow> (Drop, ([], closed), release_orphaned_params host_params c1))
      else case get_guest_id (shadow_table c) host_params of
        None \<Rightarrow> (Forward, ([], []), c)
      | Some guest_params \<Rightarrow>
          if is_pending_destroy_guest (shadow_table c) guest_params then
            (case destroy_orphaned_buffer host_params buffer c of
               None \<Rightarrow> (Drop, ([], []), c\<lparr>fatal_protocol_error := True\<rparr>)
             | Some (closed, c1) \<Rightarrow> (Drop, ([], closed), c1))
          else case pending_native_creates c (HostId host_params) of
            None \<Rightarrow> (Forward, ([], []), c)
          | Some p \<Rightarrow>
              let c1 = c\<lparr>pending_native_creates := (pending_native_creates c)(HostId host_params := None)\<rparr>
              in if pn_guest_params_id p \<noteq> guest_params then
                   (Drop, ([], pn_sync_fds p), c1\<lparr>fatal_protocol_error := True\<rparr>)
                 else (case register_native_buffer buffer (pn_dimensions p) (pn_sync_fds p) c1 of
                         (True, c2) \<Rightarrow> (Forward, ([], []), c2)
                       | (False, c2) \<Rightarrow> (Forward, ([], pn_sync_fds p), c2\<lparr>fatal_protocol_error := True\<rparr>)))"

definition on_failed :: "'h ctx_scheme \<Rightarrow> action \<times> fd_trace \<times> 'h ctx_scheme" where
  "on_failed c =
     (let host_params = last_sender_id c;
          forget = (\<lambda>c'. drop_native_create host_params
            (c'\<lparr>orphaned_dmabuf_params := (orphaned_dmabuf_params c')(host_params := None)\<rparr>)) in
      if orphaned_dmabuf_params c host_params \<noteq> None then
        (case forget c of (closed, c1) \<Rightarrow> (Drop, ([], closed), release_orphaned_params host_params c1))
      else case get_guest_id (shadow_table c) host_params of
        None \<Rightarrow> (Forward, ([], []), c)
      | Some guest_params \<Rightarrow>
          if is_pending_destroy_guest (shadow_table c) guest_params then
            (case forget c of (closed, c1) \<Rightarrow> (Drop, ([], closed), c1))
          else case pending_native_creates c (HostId host_params) of
            None \<Rightarrow> (Forward, ([], []), c)
          | Some p \<Rightarrow>
              (case drop_native_create host_params c of
                 (closed, c1) \<Rightarrow>
                   if pn_guest_params_id p \<noteq> guest_params
                   then (Drop, ([], closed), c1\<lparr>fatal_protocol_error := True\<rparr>)
                   else (Forward, ([], closed), c1)))"


section \<open>The messages of a create request\<close>

definition wire_packet :: "u32 \<Rightarrow> u16 \<Rightarrow> u8 list \<Rightarrow> raw_fd list \<Rightarrow> packet" where
  "wire_packet sender opcode payload fds =
     (u32_to_ne_bytes sender @
      u32_to_ne_bytes (push_bit 16 (of_nat (length payload + 8)) OR ucast opcode) @ payload, fds)"

lemma snd_wire_packet [simp]: "snd (wire_packet sender opcode payload fds) = fds"
  by (simp add: wire_packet_def)

lemma shm_queue_message_fits:
  assumes "length (mb_payload b) + 8 \<le> 0xFFFF" and "4 dvd length (mb_payload b)"
  shows "shm_queue_message q sender op b fds = (True, q @ [wire_packet sender op (mb_payload b) fds], [])"
  using try_build_message_ok [OF assms, of sender op]
  by (simp add: shm_queue_message_def wire_packet_def)

lemma add_payload [simp]:
  "mb_payload (add_builder p) = u32_to_ne_bytes (pp_plane_idx p) @ u32_to_ne_bytes (pp_offset p) @
     u32_to_ne_bytes (pp_stride p) @ u32_to_ne_bytes (pp_modifier_hi p) @ u32_to_ne_bytes (pp_modifier_lo p)"
  by (simp add: add_builder_def write_u32_def message_builder_new_def)

lemma create_payload [simp]:
  "mb_payload (create_builder w h format flags) = u32_to_ne_bytes (as_u32 w) @ u32_to_ne_bytes (as_u32 h) @
     u32_to_ne_bytes format @ u32_to_ne_bytes flags"
  by (simp add: create_builder_def write_i32_def write_u32_def message_builder_new_def)

lemma create_immed_payload [simp]:
  "mb_payload (create_immed_builder b w h format flags) = u32_to_ne_bytes b @ u32_to_ne_bytes (as_u32 w) @
     u32_to_ne_bytes (as_u32 h) @ u32_to_ne_bytes format @ u32_to_ne_bytes flags"
  by (simp add: create_immed_builder_def write_i32_def write_u32_def message_builder_new_def)

definition plane_packet :: "u32 \<Rightarrow> pending_param \<Rightarrow> packet" where
  "plane_packet host_id p = wire_packet host_id REQ_ADD (mb_payload (add_builder p)) [pp_fd p]"

text \<open>Every plane, then the create request.\<close>

definition create_stream :: "u32 \<Rightarrow> pending_param list \<Rightarrow> u16 \<Rightarrow> message_builder \<Rightarrow> packet list" where
  "create_stream host_id ps opcode b =
     map (plane_packet host_id) ps @ [wire_packet host_id opcode (mb_payload b) []]"

lemma queue_adds_eq: "queue_adds host_id ps q = (True, [], q @ map (plane_packet host_id) ps)"
  by (induction ps arbitrary: q) (simp_all add: shm_queue_message_fits plane_packet_def)

lemma queue_to_host_fits:
  assumes "length (mb_payload b) + 8 \<le> 0xFFFF" and "4 dvd length (mb_payload b)"
  shows "queue_to_host sender op b c =
    (True, c\<lparr>client_to_host_queue := client_to_host_queue c @ [wire_packet sender op (mb_payload b) []]\<rparr>)"
  by (simp add: queue_to_host_def shm_queue_message_fits [OF assms])

lemma dup_planes_ok: "dup_planes dup k ps = (True, fds) \<Longrightarrow> length fds = length ps"
  by (induction ps arbitrary: k fds) (auto split: option.splits prod.splits)

text \<open>
  The messages fit, so a create request either moves every plane to the stream or closes it.
\<close>

lemma process_params_eq:
  assumes ps: "hm_get (pending_params c) params_id = Some ps"
    and b: "length (mb_payload b) + 8 \<le> 0xFFFF" "4 dvd length (mb_payload b)"
  shows "process_params dup params_id (\<lambda>host_id. queue_to_host host_id op b) c =
    (let c1 = c\<lparr>pending_params := hm_remove params_id (pending_params c)\<rparr>;
         gone = c1\<lparr>fatal_protocol_error := True\<rparr>
     in case get_host_id (shadow_table c) params_id of
          None \<Rightarrow> (None, ([], params_fds ps), gone)
        | Some host_id \<Rightarrow>
           (case dup_planes dup 0 ps of
              (ok, sync_fds) \<Rightarrow>
                if ok \<and> ps \<noteq> [] then
                  (Some (HostId host_id, sync_fds), (sync_fds, []),
                   c1\<lparr>client_to_host_queue := client_to_host_queue c @ create_stream host_id ps op b,
                      used_dmabuf_params := insert params_id (used_dmabuf_params c)\<rparr>)
                else (None, (sync_fds, params_fds ps @ sync_fds), gone)))"
  using ps dup_planes_ok [of dup 0 ps]
  by (auto simp: process_params_def queue_adds_eq queue_to_host_fits [OF b] create_stream_def Let_def
      split: option.splits prod.splits)

lemma process_params_immed_eq:
  assumes "hm_get (pending_params c) params_id = Some ps"
    and "get_host_id (shadow_table c) params_id = None"
  shows "process_params dup params_id f c =
    (None, ([], params_fds ps), c\<lparr>pending_params := hm_remove params_id (pending_params c),
       fatal_protocol_error := True\<rparr>)"
  using assms by (simp add: process_params_def Let_def)

lemma process_params_absent:
  "hm_get (pending_params c) params_id = None \<Longrightarrow> process_params dup params_id f c = (None, ([], []), c)"
  by (simp add: process_params_def)

lemma discard_eq:
  "discard_pending_params params_id c =
     (case hm_get (pending_params c) params_id of None \<Rightarrow> [] | Some ps \<Rightarrow> params_fds ps,
      c\<lparr>pending_params := hm_remove params_id (pending_params c)\<rparr>)"
  by (simp add: discard_pending_params_def split: option.split)

section \<open>Planes\<close>

text \<open>The arithmetic of the span of a plane cannot leave \<open>u64\<close>: its check is never the
  reason for a rejection.\<close>

lemma plane_layout_bounds:
  assumes "dmabuf_plane_layout format i w h = Some (row, rows)" and "in_i32 w" "in_i32 h"
  shows "row < 2 ^ 33" and "rows < 2 ^ 31"
proof -
  have "nat w < 2 ^ 31" "nat h < 2 ^ 31"
    using assms(2,3) by (auto simp: in_i32_def nat_less_iff)
  then show "row < 2 ^ 33" "rows < 2 ^ 31"
    using assms(1)
    by (auto simp: dmabuf_plane_layout_def usize_from_i32_def usize_checked_mul_def split: if_splits)
qed

lemma valid_dmabuf_plane_iff:
  assumes "in_i32 w" "in_i32 h"
  shows "valid_dmabuf_plane p format w h \<longleftrightarrow>
    (case dmabuf_plane_layout format (pp_plane_idx p) w h of
       None \<Rightarrow> False | Some (row, rows) \<Rightarrow> row \<le> unat (pp_stride p))"
proof (cases "dmabuf_plane_layout format (pp_plane_idx p) w h")
  case (Some x)
  obtain row rows where x: "x = (row, rows)"
    by (cases x)
  have row: "row < 2 ^ 33" "rows < 2 ^ 31"
    using plane_layout_bounds [OF Some [unfolded x] assms] by auto
  have "unat (pp_stride p) * (rows - 1) \<le> 2 ^ 32 * 2 ^ 31"
    using unat_u32_less [of "pp_stride p"] row by (intro mult_le_mono) auto
  then have "unat (pp_stride p) * (rows - 1) \<le> 2 ^ 63"
    by simp
  moreover have "unat (pp_offset p) < 2 ^ 32"
    by (rule unat_u32_less)
  ultimately show ?thesis
    using Some row unfolding x
    by (simp add: valid_dmabuf_plane_def Let_def usize_checked_mul_def usize_checked_add_def usize_limit_def)
qed (simp add: valid_dmabuf_plane_def)

lemma planes_valid_distinct:
  "planes_valid seen format w h ps \<Longrightarrow> distinct (map pp_plane_idx ps) \<and> set (map pp_plane_idx ps) \<inter> seen = {} \<and>
     (\<forall>p\<in>set ps. pp_fd p \<ge> 0 \<and> unat (pp_plane_idx p) < expected_planes format \<and> valid_dmabuf_plane p format w h)"
  by (induction seen format w h ps rule: planes_valid.induct) auto

text \<open>A rejected list of planes has an error code of its own, and only such a list.\<close>

lemma plane_error_iff:
  "\<forall>p\<in>set ps. pp_fd p \<ge> 0 \<Longrightarrow> plane_error seen format w h ps = 3 \<longleftrightarrow> planes_valid seen format w h ps"
  by (induction seen format w h ps rule: planes_valid.induct) auto

end
