(* ===== verification/Dmabuf_Session.thy ===== *)
theory Dmabuf_Session
  imports Dmabuf_Params Dispatch "HOL-Library.Multiset"
begin

text \<open>
  Runs of the dma-buf params handlers of \<open>Dmabuf_Params\<close>: the descriptors of the planes and
  their duplicates are owned by one place of the context each, a params object is used for at
  most one buffer, and a buffer that the host creates for a params object the guest has
  destroyed is destroyed again.
\<close>

section \<open>Requests and events\<close>

datatype params_op =
    CreateParams u32
  | AddPlane "raw_fd option" "drm_device option" raw_fd u32 u32 u32 u32 u32
  | Create "nat \<Rightarrow> raw_fd option" i32 i32 u32 u32
  | CreateImmed "nat \<Rightarrow> raw_fd option" u32 i32 i32 u32 u32
  | DestroyParams
  | Created u32
  | Failed

fun params_handler :: "params_op \<Rightarrow> 'h ctx_scheme \<Rightarrow> (action \<times> fd_trace \<times> 'h ctx_scheme) option" where
  "params_handler (CreateParams i) c = Some (on_create_params i c)"
| "params_handler (AddPlane dup allocator fd plane offset stride hi lo) c =
     Some (on_add dup allocator fd plane offset stride hi lo c)"
| "params_handler (Create dup w h format flags) c = Some (on_create dup w h format flags c)"
| "params_handler (CreateImmed dup buffer w h format flags) c =
     on_create_immed dup buffer w h format flags c"
| "params_handler DestroyParams c = Some (on_params_destroy c)"
| "params_handler (Created buffer) c = Some (on_created buffer c)"
| "params_handler Failed c = Some (on_failed c)"

text \<open>One message from \<open>sender\<close>; the descriptors opened and closed so far are kept.\<close>

definition params_apply ::
    "u32 \<times> params_op \<Rightarrow> fd_trace \<times> 'h ctx_scheme \<Rightarrow> (fd_trace \<times> 'h ctx_scheme) option" where
  "params_apply e s = (case (e, s) of ((sender, x), ((opened, closed), c)) \<Rightarrow>
     map_option (\<lambda>(_, (o1, c1), c'). ((opened @ o1, closed @ c1), c'))
       (params_handler x (c\<lparr>last_sender_id := sender\<rparr>)))"

section \<open>Who owns a descriptor\<close>

text \<open>The descriptors in the entries of a map.\<close>

definition entry_fds :: "('v \<Rightarrow> raw_fd list) \<Rightarrow> ('k, 'v) hmap \<Rightarrow> raw_fd multiset" where
  "entry_fds f m = sum_list (map (\<lambda>(_, v). mset (f v)) m)"

definition entry_of :: "('v \<Rightarrow> raw_fd list) \<Rightarrow> 'v option \<Rightarrow> raw_fd multiset" where
  "entry_of f e = (case e of None \<Rightarrow> {#} | Some v \<Rightarrow> mset (f v))"

lemma entry_of_simps [simp]: "entry_of f None = {#}" "entry_of f (Some v) = mset (f v)"
  by (simp_all add: entry_of_def)

lemma entry_fds_Nil [simp]: "entry_fds f [] = {#}"
  by (simp add: entry_fds_def)

lemma entry_fds_Cons: "entry_fds f (x # m) = mset (f (snd x)) + entry_fds f m"
  by (cases x) (simp add: entry_fds_def)

lemma entry_fds_insert:
  "entry_fds f (hm_insert k v m) + entry_of f (hm_get m k) = entry_fds f m + mset (f v)"
  by (induction m) (auto simp: hm_insert_def hm_get_def entry_fds_Cons ac_simps split: prod.splits)

lemma entry_fds_remove:
  "hm_ok m \<Longrightarrow> entry_fds f (hm_remove k m) + entry_of f (hm_get m k) = entry_fds f m"
proof (induction m)
  case (Cons x m)
  obtain a b where x: "x = (a, b)"
    by (cases x)
  have ok: "hm_ok m" "a \<notin> fst ` set m"
    using Cons.prems by (simp_all add: x hm_ok_def)
  show ?case
  proof (cases "a = k")
    case True
    then have "hm_get m k = None"
      using ok(2) by (simp add: hm_get_def map_of_eq_None_iff)
    then have "hm_remove k m = m"
      by simp
    then show ?thesis
      using True by (simp add: x hm_remove_def hm_get_def entry_fds_Cons ac_simps)
  next
    case False
    have "hm_remove k (x # m) = (a, b) # hm_remove k m" "hm_get (x # m) k = hm_get m k"
      using False by (simp_all add: x hm_remove_def hm_get_def)
    then show ?thesis
      using Cons.IH [OF ok(1)] by (simp add: x entry_fds_Cons ac_simps)
  qed
qed simp

text \<open>Synchronisation descriptors of creates in flight, and of registered buffers.\<close>

definition native_fds :: "(host_id \<rightharpoonup> pending_native_create) \<Rightarrow> raw_fd multiset" where
  "native_fds m = (\<Sum>h\<in>dom m. mset (pn_sync_fds (the (m h))))"

lemma native_fds_insert:
  "finite (dom m) \<Longrightarrow> m h = None \<Longrightarrow> native_fds (m(h \<mapsto> p)) = native_fds m + mset (pn_sync_fds p)"
proof -
  assume m: "finite (dom m)" "m h = None"
  have "(\<Sum>k\<in>dom m. mset (pn_sync_fds (the ((m(h \<mapsto> p)) k)))) = native_fds m"
    unfolding native_fds_def using m(2) by (intro sum.cong) auto
  then show ?thesis
    using m by (simp add: native_fds_def domIff add.commute)
qed

lemma native_fds_remove:
  "finite (dom m) \<Longrightarrow> native_fds (m(h := None)) + entry_of pn_sync_fds (m h) = native_fds m"
proof -
  assume m: "finite (dom m)"
  have s: "(\<Sum>k\<in>dom m - {h}. mset (pn_sync_fds (the ((m(h := None)) k)))) =
      (\<Sum>k\<in>dom m - {h}. mset (pn_sync_fds (the (m k))))"
    by (intro sum.cong) auto
  show ?thesis
    using m s by (cases "m h") (auto simp: native_fds_def sum.remove [of "dom m" h] ac_simps domIff)
qed

definition buffer_sync_fds :: "render_buffer \<Rightarrow> raw_fd list" where
  "buffer_sync_fds rb =
     (case Render_Buffer.active rb of
        Some b \<Rightarrow> (case arb_backing b of Native _ fds \<Rightarrow> fds | LocalCopy _ \<Rightarrow> [])
      | None \<Rightarrow> [])"

text \<open>Every descriptor the context will close or send: in the two outgoing queues, in planes
  that wait for their create request, and the duplicates for synchronisation.\<close>

definition held_fds :: "'h ctx_scheme \<Rightarrow> raw_fd multiset" where
  "held_fds c =
     mset (concat (map snd (client_to_host_queue c))) + mset (concat (map snd (host_to_client_queue c))) +
     entry_fds params_fds (pending_params c) + native_fds (pending_native_creates c) +
     entry_fds buffer_sync_fds (render_buffers c)"

lemma context_owned_held: "mset (context_owned_fds c) \<subseteq># held_fds c"
proof -
  have "mset (concat (map (\<lambda>(_, ps). map pp_fd ps) m)) = entry_fds params_fds m"
    for m :: "(u32, pending_param list) hmap"
    by (induction m) (auto simp: entry_fds_Cons params_fds_def)
  then show ?thesis
    by (simp add: context_owned_fds_def held_fds_def ac_simps)
qed

section \<open>Each handler keeps the balance\<close>

definition fds_ok :: "'h ctx_scheme \<Rightarrow> bool" where
  "fds_ok c \<longleftrightarrow> hm_ok (pending_params c) \<and> finite (dom (pending_native_creates c))"

definition balanced :: "'h ctx_scheme \<Rightarrow> fd_trace \<Rightarrow> 'h ctx_scheme \<Rightarrow> bool" where
  "balanced c fds c' \<longleftrightarrow> fds_ok c' \<and> mset (snd fds) + held_fds c' = mset (fst fds) + held_fds c"

lemma balanced_same: "fds_ok c \<Longrightarrow> balanced c ([], []) c"
  by (simp add: balanced_def)

lemma queue_error_frame [simp]:
  "client_to_host_queue (queue_protocol_error k code msg c) = client_to_host_queue c"
  "pending_params (queue_protocol_error k code msg c) = pending_params c"
  "pending_native_creates (queue_protocol_error k code msg c) = pending_native_creates c"
  "orphaned_dmabuf_params (queue_protocol_error k code msg c) = orphaned_dmabuf_params c"
  "render_buffers (queue_protocol_error k code msg c) = render_buffers c"
  "used_dmabuf_params (queue_protocol_error k code msg c) = used_dmabuf_params c"
  "shadow_table (queue_protocol_error k code msg c) = shadow_table c"
  "fatal_protocol_error (queue_protocol_error k code msg c)"
  by (simp_all add: queue_protocol_error_def Let_def)

lemma queue_message_fds:
  "concat (map snd (snd (queue_message q s op b))) = concat (map snd q)"
  by (auto simp: queue_message_def split: sum.splits)

lemma held_error [simp]: "held_fds (queue_protocol_error k code msg c) = held_fds c"
  by (simp add: held_fds_def, simp add: queue_protocol_error_def Let_def queue_message_fds)

lemma fds_ok_error [simp]: "fds_ok (queue_protocol_error k code msg c) = fds_ok c"
  by (simp add: fds_ok_def)

lemma held_table [simp]:
  "held_fds (c\<lparr>shadow_table := t\<rparr>) = held_fds c"
  "held_fds (c\<lparr>last_sender_id := i\<rparr>) = held_fds c"
  "held_fds (c\<lparr>fatal_protocol_error := b\<rparr>) = held_fds c"
  "held_fds (c\<lparr>used_dmabuf_params := u\<rparr>) = held_fds c"
  "held_fds (c\<lparr>orphaned_dmabuf_params := r\<rparr>) = held_fds c"
  by (simp_all add: held_fds_def)

lemma fds_ok_table [simp]:
  "fds_ok (c\<lparr>shadow_table := t\<rparr>) = fds_ok c"
  "fds_ok (c\<lparr>last_sender_id := i\<rparr>) = fds_ok c"
  "fds_ok (c\<lparr>fatal_protocol_error := b\<rparr>) = fds_ok c"
  "fds_ok (c\<lparr>used_dmabuf_params := u\<rparr>) = fds_ok c"
  "fds_ok (c\<lparr>orphaned_dmabuf_params := r\<rparr>) = fds_ok c"
  by (simp_all add: fds_ok_def)

lemma balanced_discard:
  assumes "fds_ok c"
  shows "balanced c ([], fst (discard_pending_params i c)) (snd (discard_pending_params i c))"
  using assms entry_fds_remove [of "pending_params c" params_fds i]
  by (cases "hm_get (pending_params c) i")
    (simp_all add: balanced_def fds_ok_def discard_eq held_fds_def hm.ok_del entry_of_def ac_simps)

lemma balanced_create_params:
  assumes "fds_ok c" "on_create_params i c = (a, fds, c')"
  shows "balanced c fds c'"
  using assms entry_fds_insert [of params_fds i "[]" "pending_params c"]
  by (auto simp: on_create_params_def balanced_def fds_ok_def held_fds_def hm.ok_put params_fds_def
      ac_simps split: option.splits)

lemma balanced_add:
  assumes ok: "fds_ok c" and h: "on_add dup allocator fd plane offset stride hi lo c = (a, fds, c')"
  shows "balanced c fds c'"
proof -
  have add: "balanced c ([pp_fd p], [])
      (c\<lparr>pending_params := hm_insert i (ps @ [p]) (pending_params c)\<rparr>)"
    if "hm_get (pending_params c) i = Some ps" for i ps p
  proof -
    have "entry_fds params_fds (hm_insert i (ps @ [p]) (pending_params c)) + mset (params_fds ps) =
        entry_fds params_fds (pending_params c) + {#pp_fd p#} + mset (params_fds ps)"
      using entry_fds_insert [of params_fds i "ps @ [p]" "pending_params c"] that
      by (simp add: params_fds_def ac_simps)
    then have "entry_fds params_fds (hm_insert i (ps @ [p]) (pending_params c)) =
        entry_fds params_fds (pending_params c) + {#pp_fd p#}"
      by (rule add_right_imp_eq)
    then show ?thesis
      using ok by (simp add: balanced_def fds_ok_def hm.ok_put held_fds_def ac_simps)
  qed
  show ?thesis
    using h ok add
    by (auto simp: on_add_def Let_def balanced_def split: if_splits option.splits prod.splits)
qed

text \<open>A create request: what became of the planes of the params object and their duplicates.\<close>

lemma create_stream_fds: "mset (concat (map snd (create_stream host_id ps op b))) = mset (params_fds ps)"
  by (induction ps) (auto simp: create_stream_def plane_packet_def params_fds_def)

lemma balanced_process:
  assumes ok: "fds_ok c" and b: "length (mb_payload b) + 8 \<le> 0xFFFF" "4 dvd length (mb_payload b)"
    and p: "process_params dup i (\<lambda>host_id. queue_to_host host_id op b) c = (r, fds, c')"
  shows "fds_ok c'" and "mset (snd fds) + entry_of snd r + held_fds c' = mset (fst fds) + held_fds c"
    and "pending_native_creates c' = pending_native_creates c" "render_buffers c' = render_buffers c"
proof -
  have e: "held_fds c = entry_of params_fds (hm_get (pending_params c) i) +
      held_fds (c\<lparr>pending_params := hm_remove i (pending_params c)\<rparr>)"
    using entry_fds_remove [of "pending_params c" params_fds i] ok
    by (simp add: held_fds_def fds_ok_def ac_simps)
  have held: "held_fds (c\<lparr>pending_params := m, client_to_host_queue := client_to_host_queue c @ create_stream h ps op b,
        used_dmabuf_params := u\<rparr>) = held_fds (c\<lparr>pending_params := m\<rparr>) + mset (params_fds ps)" for m h ps u
    using create_stream_fds [of h ps op b] by (simp add: held_fds_def ac_simps)
  have ok': "fds_ok (c\<lparr>pending_params := hm_remove i (pending_params c)\<rparr>)"
    using ok by (simp add: fds_ok_def hm.ok_del)
  have "fds_ok c' \<and> mset (snd fds) + entry_of snd r + held_fds c' = mset (fst fds) + held_fds c \<and>
      pending_native_creates c' = pending_native_creates c \<and> render_buffers c' = render_buffers c"
  proof (cases "hm_get (pending_params c) i")
    case None
    then show ?thesis
      using p ok by (auto simp: process_params_absent)
  next
    case (Some ps)
    note eq = process_params_eq [OF Some b, of dup op, unfolded p Let_def]
    show ?thesis
    proof (cases "get_host_id (shadow_table c) i")
      case None
      then show ?thesis
        using eq ok' Some by (simp add: e)
    next
      case (Some host)
      obtain good sync where d: "dup_planes dup 0 ps = (good, sync)"
        by (cases "dup_planes dup 0 ps")
      show ?thesis
        using eq ok' Some e \<open>hm_get (pending_params c) i = Some ps\<close> held
        by (cases "good \<and> ps \<noteq> []") (auto simp: d fds_ok_def)
    qed
  qed
  then show "fds_ok c'" "mset (snd fds) + entry_of snd r + held_fds c' = mset (fst fds) + held_fds c"
      "pending_native_creates c' = pending_native_creates c" "render_buffers c' = render_buffers c"
    by simp_all
qed

lemma balanced_reject:
  assumes "fds_ok c" "reject_params i w h format c = (a, fds, c')"
  shows "balanced c fds c'"
proof -
  let ?e = "queue_protocol_error i (params_error_code c i w h format)
    (str_bytes ''invalid linux-dmabuf buffer parameters'') c"
  have "balanced ?e ([], fst (discard_pending_params i ?e)) (snd (discard_pending_params i ?e))"
    using assms(1) by (intro balanced_discard) simp
  moreover have "fds = ([], fst (discard_pending_params i ?e)) \<and> c' = snd (discard_pending_params i ?e)"
    using assms(2) by (auto simp: reject_params_def split: prod.splits)
  ultimately show ?thesis
    by (simp add: balanced_def)
qed

lemma held_native_create:
  assumes "fds_ok c" "pending_native_creates c h = None"
  shows "fds_ok (c\<lparr>pending_native_creates := (pending_native_creates c)(h \<mapsto> p)\<rparr>)"
    and "held_fds (c\<lparr>pending_native_creates := (pending_native_creates c)(h \<mapsto> p)\<rparr>) =
      mset (pn_sync_fds p) + held_fds c"
  using assms native_fds_insert [of "pending_native_creates c" h p]
  by (auto simp: fds_ok_def held_fds_def ac_simps)

lemma balanced_create:
  assumes ok: "fds_ok c" and h: "on_create dup w h format flags c = (a, fds, c')"
  shows "balanced c fds c'"
proof -
  let ?i = "last_sender_id c"
  let ?b = "create_builder w h format flags"
  obtain r f c1 where p: "process_params dup ?i (\<lambda>host_id. queue_to_host host_id REQ_CREATE ?b) c = (r, f, c1)"
    by (cases "process_params dup ?i (\<lambda>host_id. queue_to_host host_id REQ_CREATE ?b) c")
  note pr = balanced_process [OF ok _ _ p, simplified]
  consider "?i \<in> used_dmabuf_params c" | "?i \<notin> used_dmabuf_params c" "\<not> valid_params c ?i w h format"
    | "?i \<notin> used_dmabuf_params c" "valid_params c ?i w h format"
    by blast
  then show ?thesis
  proof cases
    case 1
    then show ?thesis
      using h ok by (auto simp: on_create_def balanced_def)
  next
    case 2
    then have "reject_params ?i w h format c = (a, fds, c')"
      using h by (simp add: on_create_def)
    then show ?thesis
      by (rule balanced_reject [OF ok])
  next
    case 3
    then show ?thesis
      using h pr p held_native_create [of c1]
      by (auto simp: on_create_def balanced_def ac_simps split: option.splits prod.splits)
  qed
qed

lemma register_native_balance:
  assumes "fds_ok c" "register_native_buffer host sz fds c = (ok, c')"
  shows "fds_ok c'" and "held_fds c' = held_fds c + (if ok then mset fds else {#})"
  using assms entry_fds_insert [of buffer_sync_fds "HostId host" _ "render_buffers c"]
  by (auto simp: register_native_buffer_def with_registry_def register_native_def register_active_def
      fds_ok_def held_fds_def buffer_sync_fds_def Render_Buffer.active_def ac_simps split: option.splits)

lemma balanced_create_immed:
  assumes ok: "fds_ok c" and h: "on_create_immed dup buffer w h format flags c = Some (a, fds, c')"
  shows "balanced c fds c'"
proof -
  let ?i = "last_sender_id c"
  consider "?i \<in> used_dmabuf_params c \<or> hm_get (pending_params c) ?i = None"
    | (unmapped) ps where "?i \<notin> used_dmabuf_params c" "hm_get (pending_params c) ?i = Some ps"
        "get_host_id (shadow_table c) ?i = None"
    | (invalid) ps where "?i \<notin> used_dmabuf_params c" "hm_get (pending_params c) ?i = Some ps"
        "get_host_id (shadow_table c) ?i \<noteq> None" "\<not> valid_params c ?i w h format"
    | (valid) ps where "?i \<notin> used_dmabuf_params c" "hm_get (pending_params c) ?i = Some ps"
        "get_host_id (shadow_table c) ?i \<noteq> None" "valid_params c ?i w h format"
    by (cases "hm_get (pending_params c) ?i") auto
  then show ?thesis
  proof cases
    case 1
    then show ?thesis
      using h ok by (auto simp: on_create_immed_def Let_def balanced_def split: if_splits)
  next
    case unmapped
    then show ?thesis
      using h balanced_discard [OF ok, of ?i]
      by (auto simp: on_create_immed_def process_params_immed_eq discard_eq balanced_def)
  next
    case invalid
    then have "reject_params ?i w h format c = (a, fds, c')"
      using h by (auto simp: on_create_immed_def)
    then show ?thesis
      by (rule balanced_reject [OF ok])
  next
    case valid
    obtain host t where t: "allocate_host_id (shadow_table c) = (Some host, t)"
      using h valid by (cases "allocate_host_id (shadow_table c)") (auto simp: on_create_immed_def Let_def split: option.splits)
    let ?v = "case guest_object_version t ?i of Some v \<Rightarrow> v | None \<Rightarrow> 0xFFFFFFFF"
    let ?d = "c\<lparr>shadow_table := set_host_version host ?v
      (track_interface_with_version buffer ''wl_buffer'' ?v (map_id buffer host t))\<rparr>"
    let ?b = "create_immed_builder host w h format flags"
    obtain r f c1 where p: "process_params dup ?i (\<lambda>host_id. queue_to_host host_id REQ_CREATE_IMMED ?b) ?d = (r, f, c1)"
      by (cases "process_params dup ?i (\<lambda>host_id. queue_to_host host_id REQ_CREATE_IMMED ?b) ?d")
    have "fds_ok ?d"
      using ok by simp
    note pr = balanced_process [OF this _ _ p, simplified]
    show ?thesis
    proof (cases r)
      case None
      then show ?thesis
        using h valid t p pr by (auto simp: on_create_immed_def Let_def balanced_def ac_simps)
    next
      case (Some x)
      obtain hid sync where x: "x = (hid, sync)"
        by (cases x)
      obtain good c2 where g: "register_native_buffer host (w, h) sync c1 = (good, c2)"
        by (cases "register_native_buffer host (w, h) sync c1")
      show ?thesis
        using h valid t p pr Some register_native_balance [OF pr(1) g]
        by (cases good; cases f) (auto simp: on_create_immed_def Let_def balanced_def x g ac_simps)
    qed
  qed
qed

lemma balanced_drop_native:
  assumes "fds_ok c" "drop_native_create h c = (closed, c')"
  shows "fds_ok c'" and "mset closed + held_fds c' = held_fds c"
proof -
  have c': "closed = (case pending_native_creates c (HostId h) of Some p \<Rightarrow> pn_sync_fds p | None \<Rightarrow> [])"
    "c' = c\<lparr>pending_native_creates := (pending_native_creates c)(HostId h := None)\<rparr>"
    using assms(2) by (simp_all add: drop_native_create_def)
  have "mset closed = entry_of pn_sync_fds (pending_native_creates c (HostId h))"
    by (simp add: c'(1) split: option.split)
  then have "native_fds (pending_native_creates c) =
      native_fds ((pending_native_creates c)(HostId h := None)) + mset closed"
    using native_fds_remove [of "pending_native_creates c" "HostId h"] assms(1) by (simp add: fds_ok_def)
  then show "mset closed + held_fds c' = held_fds c"
    by (simp add: c'(2) held_fds_def ac_simps)
  show "fds_ok c'"
    using assms(1) by (simp add: c'(2) fds_ok_def)
qed

text \<open>\<open>params.destroy\<close> without its planes.\<close>

definition orphan_native_create :: "u32 \<Rightarrow> 'h ctx_scheme \<Rightarrow> raw_fd list \<times> 'h ctx_scheme" where
  "orphan_native_create i c =
     (case Option.bind (get_host_id (shadow_table c) i)
             (\<lambda>host. map_option (Pair host) (pending_native_creates c (HostId host))) of
        None \<Rightarrow> ([], c)
      | Some (host, p) \<Rightarrow>
          (pn_sync_fds p, c\<lparr>pending_native_creates := (pending_native_creates c)(HostId host := None),
             orphaned_dmabuf_params := (orphaned_dmabuf_params c)(host \<mapsto> i)\<rparr>))"

lemma on_params_destroy_eq:
  "on_params_destroy c =
     (case orphan_native_create (last_sender_id c)
             (c\<lparr>used_dmabuf_params := used_dmabuf_params c - {last_sender_id c}\<rparr>) of
        (closed, c1) \<Rightarrow> (Forward, ([], closed @ fst (discard_pending_params (last_sender_id c) c1)),
           snd (discard_pending_params (last_sender_id c) c1)))"
  by (simp add: on_params_destroy_def orphan_native_create_def drop_native_create_def Let_def
      split: option.split prod.split)

lemma balanced_orphan:
  assumes "fds_ok c" "orphan_native_create i c = (closed, c')"
  shows "fds_ok c'" and "mset closed + held_fds c' = held_fds c"
proof -
  have "fds_ok c' \<and> mset closed + held_fds c' = held_fds c"
  proof (cases "get_host_id (shadow_table c) i")
    case None
    then show ?thesis
      using assms by (simp add: orphan_native_create_def)
  next
    case (Some host)
    then show ?thesis
      using assms balanced_drop_native [OF assms(1), of host]
      by (cases "pending_native_creates c (HostId host)")
        (auto simp: orphan_native_create_def drop_native_create_def)
  qed
  then show "fds_ok c'" "mset closed + held_fds c' = held_fds c"
    by simp_all
qed

lemma balanced_params_destroy:
  assumes ok: "fds_ok c" and h: "on_params_destroy c = (a, fds, c')"
  shows "balanced c fds c'"
proof -
  let ?i = "last_sender_id c"
  obtain closed c1 where first:
    "orphan_native_create ?i (c\<lparr>used_dmabuf_params := used_dmabuf_params c - {?i}\<rparr>) = (closed, c1)"
    by (cases "orphan_native_create ?i (c\<lparr>used_dmabuf_params := used_dmabuf_params c - {?i}\<rparr>)")
  have c1: "fds_ok c1" "mset closed + held_fds c1 = held_fds c"
    using ok balanced_orphan [OF _ first] by simp_all
  have "fds = ([], closed @ fst (discard_pending_params ?i c1))" "c' = snd (discard_pending_params ?i c1)"
    using h by (simp_all add: on_params_destroy_eq first)
  then show ?thesis
    using c1 balanced_discard [OF c1(1), of ?i] by (simp add: balanced_def ac_simps)
qed

lemma release_orphaned_frame [simp]:
  "held_fds (release_orphaned_params h c) = held_fds c" "fds_ok (release_orphaned_params h c) = fds_ok c"
  by (simp_all add: release_orphaned_params_def)

text \<open>The table after the orphaned buffer is tracked and its destructor queued.\<close>

definition reserve_orphan :: "u32 \<Rightarrow> u32 \<Rightarrow> shadow_table \<Rightarrow> shadow_table" where
  "reserve_orphan host_params buffer t =
     snd (mark_pending_destroy_host buffer
       (track_host_interface_with_version buffer ''wl_buffer''
         (case host_object_version t host_params of Some v \<Rightarrow> v | None \<Rightarrow> 0xFFFFFFFF) t))"

lemma destroy_orphaned_buffer_eq:
  "destroy_orphaned_buffer host_params buffer c =
     (if is_host_id_available (shadow_table c) buffer
      then Some (drop_native_create host_params
        (c\<lparr>client_to_host_queue := client_to_host_queue c @ [buffer_destructor (HostId buffer)],
           shadow_table := reserve_orphan host_params buffer (shadow_table c),
           orphaned_dmabuf_params := (orphaned_dmabuf_params c)(host_params := None)\<rparr>))
      else None)"
  by (simp add: destroy_orphaned_buffer_def queue_host_buffer_destroy_def Let_def buffer_destructor_def
      reserve_orphan_def)

lemma balanced_destroy_orphan:
  assumes ok: "fds_ok c" and h: "destroy_orphaned_buffer h b c = Some (closed, c')"
  shows "fds_ok c'" and "mset closed + held_fds c' = held_fds c"
proof -
  let ?d = "c\<lparr>client_to_host_queue := client_to_host_queue c @ [buffer_destructor (HostId b)],
    shadow_table := reserve_orphan h b (shadow_table c),
    orphaned_dmabuf_params := (orphaned_dmabuf_params c)(h := None)\<rparr>"
  have "fds_ok ?d" "held_fds ?d = held_fds c"
    using ok by (simp_all add: fds_ok_def held_fds_def buffer_destructor_def empty_request_def)
  moreover have "drop_native_create h ?d = (closed, c')"
    using h by (simp add: destroy_orphaned_buffer_eq split: if_splits)
  ultimately show "fds_ok c'" "mset closed + held_fds c' = held_fds c"
    using balanced_drop_native [of ?d h closed c'] by simp_all
qed

lemma balanced_created:
  assumes ok: "fds_ok c" and h: "on_created buffer c = (a, fds, c')"
  shows "balanced c fds c'"
proof -
  let ?h = "last_sender_id c"
  have register: "balanced c fds c'"
    if "pending_native_creates c (HostId ?h) = Some p"
      "(case register_native_buffer buffer sz (pn_sync_fds p)
          (c\<lparr>pending_native_creates := (pending_native_creates c)(HostId ?h := None)\<rparr>) of
        (True, c2) \<Rightarrow> (Forward, ([], []), c2)
      | (False, c2) \<Rightarrow> (Forward, ([], pn_sync_fds p), c2\<lparr>fatal_protocol_error := True\<rparr>)) = (a, fds, c')" for p sz
  proof -
    let ?d = "c\<lparr>pending_native_creates := (pending_native_creates c)(HostId ?h := None)\<rparr>"
    have d: "fds_ok ?d" "mset (pn_sync_fds p) + held_fds ?d = held_fds c"
      using balanced_drop_native [OF ok, of ?h "pn_sync_fds p" ?d] that(1)
      by (simp_all add: drop_native_create_def)
    obtain good c2 where g: "register_native_buffer buffer sz (pn_sync_fds p) ?d = (good, c2)"
      by (cases "register_native_buffer buffer sz (pn_sync_fds p) ?d")
    show ?thesis
      using that(2) register_native_balance [OF d(1) g] d(2)
      by (cases good) (auto simp: balanced_def g ac_simps)
  qed
  have diverged: "balanced c ([], pn_sync_fds p) (c\<lparr>pending_native_creates :=
      (pending_native_creates c)(HostId ?h := None), fatal_protocol_error := True\<rparr>)"
    if "pending_native_creates c (HostId ?h) = Some p" for p
    using balanced_drop_native [OF ok, of ?h] that by (simp add: drop_native_create_def balanced_def)
  have orphan: "balanced c ([], closed) d"
    if "destroy_orphaned_buffer ?h buffer c = Some (closed, d)" for closed d
    using balanced_destroy_orphan [OF ok that] by (simp add: balanced_def)
  show ?thesis
    using h ok orphan register diverged
    by (auto simp: on_created_def Let_def balanced_def split: if_splits option.splits prod.splits)
qed

lemma balanced_failed:
  assumes ok: "fds_ok c" and h: "on_failed c = (a, fds, c')"
  shows "balanced c fds c'"
proof -
  let ?h = "last_sender_id c"
  have "balanced c ([], closed) d"
    if "drop_native_create ?h (c\<lparr>orphaned_dmabuf_params := r\<rparr>) = (closed, d) \<or> drop_native_create ?h c = (closed, d)"
    for r closed d
    using balanced_drop_native [OF ok, of ?h closed d]
      balanced_drop_native [of "c\<lparr>orphaned_dmabuf_params := r\<rparr>" ?h closed d] ok that
    by (auto simp: balanced_def)
  then show ?thesis
    using h ok by (fastforce simp: on_failed_def Let_def balanced_def split: if_splits option.splits prod.splits)
qed

lemma params_handler_balanced:
  assumes "fds_ok c" "params_handler x c = Some (a, fds, c')"
  shows "balanced c fds c'"
  using assms
  by (cases x) (auto intro: balanced_create_params balanced_add balanced_create balanced_create_immed
      balanced_params_destroy balanced_created balanced_failed)

text \<open>What was opened since the start is held by the context or closed, once.\<close>

definition ledger_ok :: "raw_fd multiset \<Rightarrow> fd_trace \<times> 'h ctx_scheme \<Rightarrow> bool" where
  "ledger_ok start s = (case s of ((opened, closed), c) \<Rightarrow>
     fds_ok c \<and> mset closed + held_fds c = mset opened + start)"

lemma params_apply_ledger:
  assumes "ledger_ok H s" "params_apply e s = Some s'"
  shows "ledger_ok H s'"
proof -
  obtain i x o1 c1 c where s: "e = (i, x)" "s = ((o1, c1), c)"
    by (metis prod.exhaust)
  obtain a o2 c2 c' where h: "params_handler x (c\<lparr>last_sender_id := i\<rparr>) = Some (a, (o2, c2), c')"
      "s' = ((o1 @ o2, c1 @ c2), c')"
    using assms(2) by (auto simp: params_apply_def s split: prod.splits)
  have "balanced (c\<lparr>last_sender_id := i\<rparr>) (o2, c2) c'"
    using assms(1) by (intro params_handler_balanced [OF _ h(1)]) (simp add: ledger_ok_def s)
  then have b: "fds_ok c'" "mset c2 + held_fds c' = mset o2 + held_fds c"
    by (simp_all add: balanced_def)
  have l: "mset c1 + held_fds c = mset o1 + H"
    using assms(1) by (simp add: ledger_ok_def s)
  have "mset (c1 @ c2) + held_fds c' = mset c1 + (mset c2 + held_fds c')"
    by (simp add: ac_simps)
  also have "\<dots> = mset o2 + (mset c1 + held_fds c)"
    unfolding b(2) by (simp add: ac_simps)
  also have "\<dots> = mset (o1 @ o2) + H"
    unfolding l by (simp add: ac_simps)
  finally show ?thesis
    using b(1) by (simp add: ledger_ok_def h(2))
qed

interpretation params_ledger: panicking_machine params_apply "ledger_ok H" for H
  by unfold_locales (rule params_apply_ledger)

section \<open>One buffer per params object\<close>

text \<open>The requests of a client on the params object \<open>i\<close> while it lives; the new buffer of a
  \<open>create_immed\<close> is another object.\<close>

fun use_request :: "u32 \<Rightarrow> params_op \<Rightarrow> bool" where
  "use_request i (AddPlane _ _ _ _ _ _ _ _) = True"
| "use_request i (Create _ _ _ _ _) = True"
| "use_request i (CreateImmed _ buffer _ _ _ _) = (buffer \<noteq> i)"
| "use_request i _ = False"

text \<open>Stride and modifier of the virtio-gpu resource behind a descriptor, where the device has them.\<close>

definition resource_metadata :: "drm_device option \<Rightarrow> raw_fd \<Rightarrow> (u32 \<times> u64) option" where
  "resource_metadata allocator fd =
     Option.bind allocator (\<lambda>dev. Option.bind (prime_fd_to_handle dev fd) (\<lambda>handle.
       Option.bind (virtgpu_resource_info dev handle) (\<lambda>r.
         if has_resource_info_type dev \<and> ri_stride r \<noteq> 0 then Some (ri_stride r, format_modifier r) else None)))"

text \<open>
  What an \<open>add\<close> request makes of its arguments: the duplicate of its descriptor, its plane index
  and offset, and its own stride and modifier, unless it is plane 0 of a known resource.
\<close>

fun added_plane :: "params_op \<Rightarrow> pending_param \<Rightarrow> bool" where
  "added_plane (AddPlane dup allocator fd plane offset stride hi lo) p \<longleftrightarrow>
     dup = Some (pp_fd p) \<and> pp_plane_idx p = plane \<and> pp_offset p = offset \<and>
     (case if plane = 0 then resource_metadata allocator fd else None of
        None \<Rightarrow> pp_stride p = stride \<and> pp_modifier_hi p = hi \<and> pp_modifier_lo p = lo
      | Some (s, m) \<Rightarrow> pp_stride p = s \<and> pp_modifier_hi p = ucast (drop_bit 32 m) \<and> pp_modifier_lo p = ucast m)"
| "added_plane _ p \<longleftrightarrow> False"

text \<open>The message a create request stands for.\<close>

fun create_message :: "params_op \<Rightarrow> i32 \<Rightarrow> i32 \<Rightarrow> u32 \<Rightarrow> u16 \<Rightarrow> u8 list \<Rightarrow> bool" where
  "create_message (Create _ w h format flags) width height drm_format opcode payload \<longleftrightarrow>
     width = w \<and> height = h \<and> drm_format = format \<and> opcode = REQ_CREATE \<and>
     payload = u32_to_ne_bytes (as_u32 w) @ u32_to_ne_bytes (as_u32 h) @ u32_to_ne_bytes format @ u32_to_ne_bytes flags"
| "create_message (CreateImmed _ _ w h format flags) width height drm_format opcode payload \<longleftrightarrow>
     width = w \<and> height = h \<and> drm_format = format \<and> opcode = REQ_CREATE_IMMED \<and>
     (\<exists>host_buffer. payload = u32_to_ne_bytes host_buffer @ u32_to_ne_bytes (as_u32 w) @ u32_to_ne_bytes (as_u32 h) @
        u32_to_ne_bytes format @ u32_to_ne_bytes flags)"
| "create_message _ width height drm_format opcode payload \<longleftrightarrow> False"

text \<open>
  One complete create for the host's params object: every plane of the format once, as one of the
  requests \<open>xs\<close> added it and in a message of its own, then the message of one of the create requests.
\<close>

definition complete_create :: "u32 \<Rightarrow> params_op set \<Rightarrow> packet list \<Rightarrow> bool" where
  "complete_create host_id xs out \<longleftrightarrow>
     (\<exists>(ps :: pending_param list) width height format opcode payload.
        out = map (\<lambda>p. wire_packet host_id REQ_ADD
            (u32_to_ne_bytes (pp_plane_idx p) @ u32_to_ne_bytes (pp_offset p) @ u32_to_ne_bytes (pp_stride p) @
             u32_to_ne_bytes (pp_modifier_hi p) @ u32_to_ne_bytes (pp_modifier_lo p)) [pp_fd p]) ps @
          [wire_packet host_id opcode payload []] \<and>
        (\<exists>x\<in>xs. create_message x width height format opcode payload) \<and> 0 < width \<and> 0 < height \<and>
        (\<forall>p\<in>set ps. \<exists>x\<in>xs. added_plane x p) \<and>
        length ps = (if format = WL_SHM_FORMAT_NV12 then 2 else 1) \<and> distinct (map pp_plane_idx ps) \<and>
        (\<forall>p\<in>set ps. unat (pp_plane_idx p) < length ps \<and> 0 \<le> pp_fd p))"

definition pending_planes :: "u32 \<Rightarrow> 'h ctx_scheme \<Rightarrow> pending_param set" where
  "pending_planes i c = (case hm_get (pending_params c) i of None \<Rightarrow> {} | Some ps \<Rightarrow> set ps)"

text \<open>Nothing has been sent for the params object \<open>i\<close>, or one complete create and it is used.\<close>

definition single_use :: "u32 \<Rightarrow> u32 \<Rightarrow> params_op set \<Rightarrow> packet list \<Rightarrow> 'h ctx_scheme \<Rightarrow> bool" where
  "single_use i host_id xs q c \<longleftrightarrow>
     get_host_id (shadow_table c) i = Some host_id \<and>
     (if i \<in> used_dmabuf_params c then \<exists>out. complete_create host_id xs out \<and> client_to_host_queue c = q @ out
      else client_to_host_queue c = q \<and> (\<forall>p\<in>pending_planes i c. \<exists>x\<in>xs. added_plane x p))"

lemma single_use_simps [simp]:
  "single_use i g xs q (c\<lparr>last_sender_id := k\<rparr>) = single_use i g xs q c"
  "single_use i g xs q (c\<lparr>fatal_protocol_error := b\<rparr>) = single_use i g xs q c"
  "single_use i g xs q (c\<lparr>pending_native_creates := n\<rparr>) = single_use i g xs q c"
  "single_use i g xs q (c\<lparr>render_buffers := r\<rparr>) = single_use i g xs q c"
  "single_use i g xs q (queue_protocol_error k code msg c) = single_use i g xs q c"
  by (simp_all add: single_use_def pending_planes_def)

lemma single_use_forget:
  "single_use i g xs q c \<Longrightarrow> single_use i g xs q (c\<lparr>pending_params := hm_remove i m\<rparr>)"
  by (simp add: single_use_def pending_planes_def)

lemma single_use_table:
  "single_use i g xs q c \<Longrightarrow> get_host_id t i = Some g \<Longrightarrow> single_use i g xs q (c\<lparr>shadow_table := t\<rparr>)"
  by (simp add: single_use_def pending_planes_def)

lemma modifier_split:
  fixes hi lo :: u32
  shows "ucast (drop_bit 32 (push_bit 32 (ucast hi :: u64) OR ucast lo)) = hi"
    and "ucast (push_bit 32 (ucast hi :: u64) OR ucast lo) = lo"
proof -
  have "\<not> bit lo (32 + n)" for n
    using bit_imp_le_length [of lo "32 + n"] by auto
  then show "ucast (drop_bit 32 (push_bit 32 (ucast hi :: u64) OR ucast lo)) = hi"
    "ucast (push_bit 32 (ucast hi :: u64) OR ucast lo) = lo"
    by (auto intro!: bit_word_eqI simp: bit_simps)
qed

lemma fixup_metadata:
  assumes "0 \<le> fd"
  shows "(fix_stride (fst (fixup_dmabuf_plane0 dev fd stride m)), fix_modifier (fst (fixup_dmabuf_plane0 dev fd stride m))) =
    (case resource_metadata (Some dev) fd of None \<Rightarrow> (stride, m) | Some x \<Rightarrow> x)"
  using assms
  by (auto simp: fixup_dmabuf_plane0_def resource_metadata_def apply_dmabuf_plane0_fixup_def split: option.split)

lemma added_metadata:
  assumes "0 \<le> fd"
    and "(if plane = 0 then case allocator of
        Some dev \<Rightarrow> let F = fst (fixup_dmabuf_plane0 dev fd stride (push_bit 32 (ucast hi) OR ucast lo))
                   in (fix_stride F, ucast (drop_bit 32 (fix_modifier F)), ucast (fix_modifier F))
      | None \<Rightarrow> (stride, hi, lo) else (stride, hi, lo)) = (s, mh, ml)"
  shows "added_plane (AddPlane (Some d) allocator fd plane offset stride hi lo)
    \<lparr>pp_fd = d, pp_plane_idx = plane, pp_offset = offset, pp_stride = s, pp_modifier_hi = mh, pp_modifier_lo = ml\<rparr>"
proof (cases "plane = 0 \<and> allocator \<noteq> None")
  case True
  then obtain dev where dev: "plane = 0" "allocator = Some dev"
    by auto
  obtain m :: u64 where m: "push_bit 32 (ucast hi) OR ucast lo = m" "ucast (drop_bit 32 m) = hi" "ucast m = lo"
    using modifier_split by blast
  show ?thesis
    using assms(2) fixup_metadata [OF assms(1), of dev stride m] unfolding m(1)
    by (cases "resource_metadata (Some dev) fd") (auto simp: dev Let_def m(2,3))
next
  case False
  then have "(if plane = 0 then resource_metadata allocator fd else None) = None"
    by (auto simp: resource_metadata_def)
  moreover have "(s, mh, ml) = (stride, hi, lo)"
    using assms(2) False by (auto split: if_splits)
  ultimately show ?thesis
    by simp
qed

lemma on_add_single:
  assumes s: "single_use i g xs q c" and i: "last_sender_id c = i"
    and x: "AddPlane dup allocator fd plane offset stride hi lo \<in> xs"
    and h: "on_add dup allocator fd plane offset stride hi lo c = (a, fds, c')"
  shows "single_use i g xs q c'"
proof -
  obtain st mh ml where m: "(if plane = 0 then case allocator of
        Some dev \<Rightarrow> let F = fst (fixup_dmabuf_plane0 dev fd stride (push_bit 32 (ucast hi) OR ucast lo))
                   in (fix_stride F, ucast (drop_bit 32 (fix_modifier F)), ucast (fix_modifier F))
      | None \<Rightarrow> (stride, hi, lo) else (stride, hi, lo)) = (st, mh, ml)"
    by (rule prod_cases3)
  note step = h [unfolded on_add_def Let_def i m [unfolded Let_def] prod.case]
  consider "single_use i g xs q c'"
    | (added) d ps where "0 \<le> fd" "i \<notin> used_dmabuf_params c" "dup = Some d" "hm_get (pending_params c) i = Some ps"
      "c' = c\<lparr>pending_params := hm_insert i (ps @ [\<lparr>pp_fd = d, pp_plane_idx = plane, pp_offset = offset,
        pp_stride = st, pp_modifier_hi = mh, pp_modifier_lo = ml\<rparr>]) (pending_params c)\<rparr>"
    using step s by (simp split: if_splits option.splits) auto
  then show ?thesis
  proof cases
    case added
    have "\<exists>x\<in>xs. added_plane x \<lparr>pp_fd = d, pp_plane_idx = plane, pp_offset = offset,
        pp_stride = st, pp_modifier_hi = mh, pp_modifier_lo = ml\<rparr>"
      using added_metadata [OF added(1) m, of d offset] x [unfolded added(3)] by blast
    then show ?thesis
      using s added(2,4) by (simp add: added(5) single_use_def pending_planes_def)
  qed
qed

lemma valid_params_complete:
  assumes v: "valid_params c i w h format" and ps: "hm_get (pending_params c) i = Some ps"
    and xs: "\<forall>p\<in>set ps. \<exists>x\<in>xs. added_plane x p" and m: "\<exists>x\<in>xs. create_message x w h format op (mb_payload b)"
  shows "complete_create g xs (create_stream g ps op b)"
proof -
  have a: "length ps = expected_planes format" "planes_valid {} format w h ps" "0 < w" "0 < h"
    using v ps by (simp_all add: valid_params_def)
  have "length ps = (if format = WL_SHM_FORMAT_NV12 then 2 else 1)"
    using a(1) by (simp add: expected_planes_def)
  moreover have "\<forall>p\<in>set ps. unat (pp_plane_idx p) < length ps \<and> 0 \<le> pp_fd p" "distinct (map pp_plane_idx ps)"
    using planes_valid_distinct [OF a(2)] a(1) by auto
  ultimately show ?thesis
    unfolding complete_create_def create_stream_def plane_packet_def [abs_def] add_payload
    using a(3,4) xs m by blast
qed

lemma process_params_single:
  assumes s: "single_use i g xs q c" "i \<notin> used_dmabuf_params c" "valid_params c i w h format"
    and m: "\<exists>x\<in>xs. create_message x w h format op (mb_payload b)"
    and b: "length (mb_payload b) + 8 \<le> 0xFFFF" "4 dvd length (mb_payload b)"
    and p: "process_params dup i (\<lambda>host_id. queue_to_host host_id op b) c = (r, fds, c')"
  shows "single_use i g xs q c' \<and> shadow_table c' = shadow_table c"
proof -
  obtain ps where ps: "hm_get (pending_params c) i = Some ps"
    using s(3) by (auto simp: valid_params_def split: option.splits)
  have q: "client_to_host_queue c = q" "get_host_id (shadow_table c) i = Some g"
    "\<forall>p\<in>set ps. \<exists>x\<in>xs. added_plane x p"
    using s(1,2) by (simp_all add: single_use_def pending_planes_def ps)
  obtain good sync where d: "dup_planes dup 0 ps = (good, sync)"
    by (cases "dup_planes dup 0 ps")
  show ?thesis
    using process_params_eq [OF ps b, of dup op, unfolded p] valid_params_complete [OF s(3) ps q(3) m, of g] s(2)
    by (cases "good \<and> ps \<noteq> []") (auto simp: Let_def d q single_use_def pending_planes_def)
qed

lemma single_use_reject:
  "reject_params i w h format c = (a, fds, c') \<Longrightarrow> single_use i g xs q c \<Longrightarrow> single_use i g xs q c'"
  by (auto simp: reject_params_def discard_eq intro: single_use_forget)

text \<open>The mapping of a new buffer leaves the one of the params object alone.\<close>

lemma map_fresh_guest:
  assumes "host_to_guest t host = None" and "buffer \<noteq> i"
  shows "get_host_id (map_id buffer host t) i = get_host_id t i"
  using assms by (auto simp: map_id_def get_host_id_def Let_def split: option.splits)

lemma remove_other_guest: "buffer \<noteq> i \<Longrightarrow> get_host_id (remove_id buffer t) i = get_host_id t i"
  by (simp add: remove_id_def get_host_id_def Let_def split: option.split)

lemma on_create_single:
  assumes s: "single_use i g xs q c" and i: "last_sender_id c = i" and x: "Create dup w h format flags \<in> xs"
    and e: "on_create dup w h format flags c = (a, fds, c')"
  shows "single_use i g xs q c'"
proof -
  let ?b = "create_builder w h format flags"
  obtain r f c1 where p: "process_params dup i (\<lambda>host_id. queue_to_host host_id REQ_CREATE ?b) c = (r, f, c1)"
    by (cases "process_params dup i (\<lambda>host_id. queue_to_host host_id REQ_CREATE ?b) c")
  have "\<exists>x\<in>xs. create_message x w h format REQ_CREATE (mb_payload ?b)"
    by (rule bexI [OF _ x]) simp
  then have "single_use i g xs q c1" if "i \<notin> used_dmabuf_params c" "valid_params c i w h format"
    using process_params_single [OF s that _ _ _ p] by simp
  then show ?thesis
    using e s p i single_use_reject [of i w h format c]
    by (auto simp: on_create_def Let_def split: if_splits option.splits prod.splits)
qed

lemma on_create_immed_single:
  assumes s: "single_use i g xs q c" and i: "last_sender_id c = i" and x: "CreateImmed dup buffer w h format flags \<in> xs"
    and fresh: "buffer \<noteq> i" and e: "on_create_immed dup buffer w h format flags c = Some (a, fds, c')"
  shows "single_use i g xs q c'"
proof -
  have g: "get_host_id (shadow_table c) i = Some g"
    using s by (simp add: single_use_def)
  consider "i \<in> used_dmabuf_params c \<or> hm_get (pending_params c) i = None"
    | (invalid) ps where "i \<notin> used_dmabuf_params c" "hm_get (pending_params c) i = Some ps" "\<not> valid_params c i w h format"
    | (valid) ps where "i \<notin> used_dmabuf_params c" "hm_get (pending_params c) i = Some ps" "valid_params c i w h format"
    by (cases "hm_get (pending_params c) i") auto
  then show ?thesis
  proof cases
    case 1
    then show ?thesis
      using e s i by (auto simp: on_create_immed_def Let_def split: if_splits)
  next
    case invalid
    then have "reject_params i w h format c = (a, fds, c')"
      using e i g by (auto simp: on_create_immed_def)
    then show ?thesis
      using single_use_reject s by blast
  next
    case valid
    obtain host t where t: "allocate_host_id (shadow_table c) = (Some host, t)"
      using e valid i g
      by (cases "allocate_host_id (shadow_table c)") (auto simp: on_create_immed_def Let_def split: option.splits)
    let ?v = "case guest_object_version t i of Some v \<Rightarrow> v | None \<Rightarrow> 0xFFFFFFFF"
    let ?t = "set_host_version host ?v (track_interface_with_version buffer ''wl_buffer'' ?v (map_id buffer host t))"
    let ?b = "create_immed_builder host w h format flags" and ?c = "c\<lparr>shadow_table := ?t\<rparr>"
    have "host_to_guest t host = None" "get_host_id t i = Some g"
      using allocate_host_id_fresh [of "shadow_table c" host] allocate_host_id_frame [of "shadow_table c"] t g
      by (auto simp: is_host_id_available_def get_host_id_def)
    then have table: "get_host_id ?t i = Some g"
      using map_fresh_guest [of t host buffer i] fresh
      by (simp add: set_host_version_def track_interface_with_version_def get_host_id_def)
    obtain r f c1 where p: "process_params dup i (\<lambda>host_id. queue_to_host host_id REQ_CREATE_IMMED ?b) ?c = (r, f, c1)"
      by (cases "process_params dup i (\<lambda>host_id. queue_to_host host_id REQ_CREATE_IMMED ?b) ?c")
    have "\<exists>x\<in>xs. create_message x w h format REQ_CREATE_IMMED (mb_payload ?b)"
      by (rule bexI [OF _ x]) auto
    then have "single_use i g xs q c1 \<and> shadow_table c1 = ?t"
      using process_params_single [OF single_use_table [OF s table] _ _ _ _ _ p, of w h format] valid
      by (auto simp: valid_params_def)
    then show ?thesis
      using e valid t p i g table remove_other_guest [OF fresh, of ?t]
      by (auto simp: on_create_immed_def Let_def register_native_buffer_def with_registry_def
          intro: single_use_table split: option.splits prod.splits bool.splits)
  qed
qed

lemma use_request_single:
  assumes "single_use i g xs q c" "x \<in> xs" "use_request i x" "last_sender_id c = i"
    and "params_handler x c = Some (a, fds, c')"
  shows "single_use i g xs q c'"
  using assms on_add_single [OF assms(1,4)] on_create_single [OF assms(1,4)] on_create_immed_single [OF assms(1,4)]
  by (cases x) auto

section \<open>The two orders of the host's answers\<close>

text \<open>\<open>params.destroy\<close> of the guest, as the dispatcher runs it.\<close>

definition destroy_params :: "u32 \<Rightarrow> 'h ctx_scheme \<Rightarrow> 'h ctx_scheme" where
  "destroy_params i c =
     (let d = snd (snd (on_params_destroy (c\<lparr>last_sender_id := i\<rparr>)))
      in d\<lparr>shadow_table := destructor_cleanup i (shadow_table d)\<rparr>)"

definition answer_created :: "u32 \<Rightarrow> u32 \<Rightarrow> 'h ctx_scheme \<Rightarrow> 'h ctx_scheme" where
  "answer_created host_params buffer c =
     snd (snd (on_created buffer (c\<lparr>last_sender_id := host_params\<rparr>)))\<lparr>last_sender_id := 1\<rparr>"

definition answer_delete_id :: "u32 \<Rightarrow> 'h ctx_scheme \<Rightarrow> 'h ctx_scheme" where
  "answer_delete_id i c = snd (on_delete_id i (c\<lparr>last_sender_id := 1\<rparr>))"

lemma destroy_params_in_flight:
  assumes "get_host_id (shadow_table c) i = Some h" "\<not> is_guest_server_id i"
    and "pending_native_creates c (HostId h) = Some p"
  shows "destroy_params i c = c\<lparr>last_sender_id := i, used_dmabuf_params := used_dmabuf_params c - {i},
    pending_native_creates := (pending_native_creates c)(HostId h := None),
    orphaned_dmabuf_params := (orphaned_dmabuf_params c)(h \<mapsto> i),
    pending_params := hm_remove i (pending_params c),
    shadow_table := (shadow_table c)\<lparr>pending_destroy_guest_ids :=
      insert i (pending_destroy_guest_ids (shadow_table c))\<rparr>\<rparr>"
  using assms
  by (simp add: destroy_params_def on_params_destroy_eq orphan_native_create_def discard_eq Let_def
      destructor_cleanup_def mark_pending_destroy_def get_host_id_def)

lemma reserve_orphan_fields:
  assumes "is_host_id_available t b"
  shows "reserve_orphan h b t = t\<lparr>host_interfaces := (host_interfaces t)(b := None),
    host_versions := (host_versions t)(b := None), retired_host_ids := retired_host_ids t - {b},
    pending_destroy_host_ids := insert b (pending_destroy_host_ids t)\<rparr>"
  using assms
  by (simp add: reserve_orphan_def mark_pending_destroy_host_def track_host_interface_with_version_def
      is_host_id_available_def)

text \<open>What is left when both answers to an orphaned create have arrived.\<close>

definition orphan_settled_table :: "u32 \<Rightarrow> u32 \<Rightarrow> u32 \<Rightarrow> shadow_table \<Rightarrow> shadow_table" where
  "orphan_settled_table i h b t = t\<lparr>
     guest_to_host := (guest_to_host t)(i := None), host_to_guest := (host_to_guest t)(h := None),
     interfaces := (interfaces t)(i := None), guest_versions := (guest_versions t)(i := None),
     host_interfaces := (host_interfaces t)(b := None, h := None),
     host_versions := (host_versions t)(b := None, h := None),
     pending_destroy_guest_ids := pending_destroy_guest_ids t - {i},
     pending_destroy_host_ids := insert b (pending_destroy_host_ids t)\<rparr>"

definition orphaned_create :: "'h ctx_scheme \<Rightarrow> u32 \<Rightarrow> u32 \<Rightarrow> u32 \<Rightarrow> bool" where
  "orphaned_create c i h b \<longleftrightarrow>
     table_ok (shadow_table c) \<and> get_host_id (shadow_table c) i = Some h \<and>
     get_interface (shadow_table c) i \<noteq> None \<and> \<not> is_guest_server_id i \<and> i \<noteq> 0 \<and>
     pending_native_creates c (HostId h) \<noteq> None \<and> \<not> contains (render_buffers c) (HostId h) \<and>
     is_host_id_available (shadow_table c) b"

definition settled :: "'h ctx_scheme \<Rightarrow> u32 \<Rightarrow> u32 \<Rightarrow> u32 \<Rightarrow> 'h ctx_scheme" where
  "settled c i h b = c\<lparr>last_sender_id := 1, used_dmabuf_params := used_dmabuf_params c - {i},
     pending_native_creates := (pending_native_creates c)(HostId h := None),
     orphaned_dmabuf_params := (orphaned_dmabuf_params c)(h := None),
     pending_params := hm_remove i (pending_params c),
     client_to_host_queue := client_to_host_queue c @ [buffer_destructor (HostId b)],
     host_to_client_queue := host_to_client_queue c @ [(display_event EVT_DELETE_ID (u32_bytes i), [])],
     shadow_table := orphan_settled_table i h b (shadow_table c)\<rparr>"

lemma orphaned_createD:
  assumes "orphaned_create c i h b"
  shows "guest_to_host (shadow_table c) i = Some h" "host_to_guest (shadow_table c) h = Some i" "b \<noteq> h"
    and "h \<notin> pending_destroy_host_ids (shadow_table c)" "h \<notin> retired_host_ids (shadow_table c)"
    and "b \<notin> retired_host_ids (shadow_table c)" "i \<noteq> 0" "is_host_id_available (shadow_table c) b"
    and "\<not> contains (render_buffers c) (HostId h)"
proof -
  show h: "guest_to_host (shadow_table c) i = Some h" "i \<noteq> 0" "is_host_id_available (shadow_table c) b"
      "\<not> contains (render_buffers c) (HostId h)"
    using assms by (simp_all add: orphaned_create_def get_host_id_def)
  then show g: "host_to_guest (shadow_table c) h = Some i"
    using assms by (simp add: orphaned_create_def table_ok_def paired_iff)
  show "b \<noteq> h"
    using h(3) g by (auto simp: is_host_id_available_def)
  show "h \<notin> pending_destroy_host_ids (shadow_table c)" "h \<notin> retired_host_ids (shadow_table c)"
      "b \<notin> retired_host_ids (shadow_table c)"
    using assms h reserved_ok_paired [of "shadow_table c" i h]
    by (simp_all add: orphaned_create_def table_ok_def is_host_id_available_def)
qed

lemma orphaned_destroyed:
  assumes "orphaned_create c i h b"
  shows "destroy_params i c = c\<lparr>last_sender_id := i, used_dmabuf_params := used_dmabuf_params c - {i},
    pending_native_creates := (pending_native_creates c)(HostId h := None),
    orphaned_dmabuf_params := (orphaned_dmabuf_params c)(h \<mapsto> i),
    pending_params := hm_remove i (pending_params c),
    shadow_table := (shadow_table c)\<lparr>pending_destroy_guest_ids :=
      insert i (pending_destroy_guest_ids (shadow_table c))\<rparr>\<rparr>"
proof -
  obtain p where "pending_native_creates c (HostId h) = Some p"
    using assms by (auto simp: orphaned_create_def)
  then show ?thesis
    using assms by (intro destroy_params_in_flight) (simp_all add: orphaned_create_def)
qed

lemma created_first:
  assumes o: "orphaned_create c i h b"
  shows "answer_delete_id h (answer_created h b (destroy_params i c)) = settled c i h b"
  using orphaned_createD [OF o]
  by (simp add: answer_created_def answer_delete_id_def orphaned_destroyed [OF o] on_created_def
      destroy_orphaned_buffer_eq is_host_id_available_def reserve_orphan_fields drop_native_create_def
      release_orphaned_params_def get_guest_id_def on_delete_id_def consume_host_delete_id_def
      remove_render_buffer_host_def with_registry_def registry_remove_def contains_def remove_id_def
      get_host_id_def settled_def orphan_settled_table_def Let_def)

text \<open>After \<open>delete_id\<close> the host object stays registered so that the late event has a receiver.\<close>

definition unmapped_table :: "u32 \<Rightarrow> u32 \<Rightarrow> string \<Rightarrow> shadow_table \<Rightarrow> shadow_table" where
  "unmapped_table i h name t = t\<lparr>
     guest_to_host := (guest_to_host t)(i := None), host_to_guest := (host_to_guest t)(h := None),
     interfaces := (interfaces t)(i := None), guest_versions := (guest_versions t)(i := None),
     host_interfaces := (host_interfaces t)
       (h \<mapsto> (case host_interfaces t h of Some n \<Rightarrow> n | None \<Rightarrow> name)),
     pending_destroy_guest_ids := pending_destroy_guest_ids t - {i}\<rparr>"

lemma unmapped:
  assumes "guest_to_host t i = Some h" "host_to_guest t h = Some i" "interfaces t i = Some name"
  shows "clear_pending_destroy_guest i (remove_guest_mapping i
     (t\<lparr>pending_destroy_guest_ids := insert i (pending_destroy_guest_ids t)\<rparr>)) = unmapped_table i h name t"
  using assms
  by (cases "host_interfaces t h")
    (simp_all add: remove_guest_mapping_def clear_pending_destroy_guest_def unmapped_table_def Let_def fun_upd_idem)

lemma deleted:
  assumes o: "orphaned_create c i h b" and name: "interfaces (shadow_table c) i = Some name"
  shows "answer_delete_id h (destroy_params i c) = c\<lparr>last_sender_id := 1,
    used_dmabuf_params := used_dmabuf_params c - {i},
    pending_native_creates := (pending_native_creates c)(HostId h := None),
    orphaned_dmabuf_params := (orphaned_dmabuf_params c)(h \<mapsto> i),
    pending_params := hm_remove i (pending_params c),
    host_to_client_queue := host_to_client_queue c @ [(display_event EVT_DELETE_ID (u32_bytes i), [])],
    shadow_table := unmapped_table i h name (shadow_table c)\<rparr>"
  using orphaned_createD [OF o] name unmapped [of "shadow_table c" i h name]
  by (simp add: answer_delete_id_def orphaned_destroyed [OF o] on_delete_id_def consume_host_delete_id_def
      get_guest_id_def queue_guest_delete_id_def get_interface_def)

lemma delete_id_first:
  assumes o: "orphaned_create c i h b"
  shows "answer_created h b (answer_delete_id h (destroy_params i c)) = settled c i h b"
proof -
  note f = orphaned_createD [OF o]
  obtain name where name: "interfaces (shadow_table c) i = Some name"
    using o by (auto simp: orphaned_create_def get_interface_def)
  let ?t = "unmapped_table i h name (shadow_table c)"
  have a: "is_host_id_available ?t b"
    using f(3,8) by (simp add: is_host_id_available_def unmapped_table_def)
  have "remove_host_interface h (reserve_orphan h b ?t) = orphan_settled_table i h b (shadow_table c)"
    unfolding reserve_orphan_fields [OF a] using f
    by (simp add: remove_host_interface_def orphan_settled_table_def unmapped_table_def fun_upd_twist)
  moreover have "get_guest_id (reserve_orphan h b ?t) h = None"
    unfolding reserve_orphan_fields [OF a] by (simp add: get_guest_id_def unmapped_table_def)
  ultimately show ?thesis
    using a by (simp add: answer_created_def deleted [OF o name] on_created_def destroy_orphaned_buffer_eq
        drop_native_create_def release_orphaned_params_def settled_def Let_def)
qed

section \<open>Runs\<close>

lemma single_use_run:
  "single_use i g xs q c \<Longrightarrow> \<forall>(j, x)\<in>set es. j = i \<and> use_request i x \<and> x \<in> xs \<Longrightarrow>
     try_each params_apply es (tr, c) = Some (tr', c') \<Longrightarrow> single_use i g xs q c'"
proof (induction es arbitrary: tr c)
  case (Cons e es)
  obtain x opened closed where e: "e = (i, x)" "use_request i x" "x \<in> xs" "tr = (opened, closed)"
    using Cons.prems(2) by (cases e; cases tr) auto
  obtain tr1 c1 where step: "params_apply e (tr, c) = Some (tr1, c1)"
    and rest: "try_each params_apply es (tr1, c1) = Some (tr', c')"
    using Cons.prems(3) by (cases "params_apply e (tr, c)") auto
  obtain a fds where "params_handler x (c\<lparr>last_sender_id := i\<rparr>) = Some (a, fds, c1)"
    using step by (auto simp: params_apply_def e)
  from use_request_single [OF _ e(3,2) _ this, of g q] Cons.prems(1) have "single_use i g xs q c1"
    by simp
  from Cons.IH [OF this _ rest] Cons.prems(2) show ?case
    by simp
qed simp

section \<open>An example\<close>

text \<open>A client adds the only plane of a 2 by 1 RGB565 buffer to its params object and creates the buffer.\<close>

definition params_session :: ctx where
  "params_session = context_empty\<lparr>pending_params := [(5, [])],
     shadow_table := track_interface 5 ''zwp_linux_buffer_params_v1'' (map_id 5 7 shadow_table_new)\<rparr>"

definition sample_plane :: pending_param where
  "sample_plane = \<lparr>pp_fd = 30, pp_plane_idx = 0, pp_offset = 0, pp_stride = 8, pp_modifier_hi = 0, pp_modifier_lo = 0\<rparr>"

abbreviation add_sample :: params_op where
  "add_sample \<equiv> AddPlane (Some 30) None 9 0 0 8 0 0"

abbreviation create_sample :: params_op where
  "create_sample \<equiv> Create (\<lambda>_. Some 40) 2 1 0x36314752 0"

definition sample_added :: ctx where
  "sample_added = params_session\<lparr>last_sender_id := 5, pending_params := [(5, [sample_plane])]\<rparr>"

definition sample_created :: ctx where
  "sample_created = sample_added\<lparr>pending_params := [], used_dmabuf_params := {5},
     client_to_host_queue := create_stream 7 [sample_plane] REQ_CREATE (create_builder 2 1 0x36314752 0),
     pending_native_creates := [HostId 7 \<mapsto>
       \<lparr>pn_guest_params_id = 5, pn_dimensions = (2, 1), pn_sync_fds = [40]\<rparr>]\<rparr>"

lemma sample_host: "get_host_id (shadow_table params_session) 5 = Some 7"
  by (simp add: params_session_def track_interface_def map_id_def shadow_table_new_def get_host_id_def)

lemma sample_fields:
  "used_dmabuf_params params_session = {}" "pending_native_creates params_session = Map.empty"
  "client_to_host_queue params_session = []" "render_buffers params_session = []"
  by (simp_all add: params_session_def context_new_def)

lemma sample_add: "params_apply (5, add_sample) ((o1, c1), params_session) = Some ((o1 @ [30], c1), sample_added)"
  using sample_fields(1)
  by (simp add: params_apply_def on_add_def Let_def sample_added_def params_session_def hm_get_def hm_insert_def
      sample_plane_def)

lemma sample_create:
  "params_apply (5, create_sample) ((o1, c1), sample_added) = Some ((o1 @ [40], c1), sample_created)"
proof -
  have fields: "hm_get (pending_params sample_added) 5 = Some [sample_plane]" "last_sender_id sample_added = 5"
    "used_dmabuf_params sample_added = {}" "pending_native_creates sample_added = Map.empty"
    "get_host_id (shadow_table sample_added) 5 = Some 7" "client_to_host_queue sample_added = []"
    "hm_remove 5 (pending_params sample_added) = []"
    using sample_host sample_fields
    by (simp_all add: sample_added_def, simp_all add: params_session_def hm_get_def hm_remove_def)
  have "valid_params sample_added 5 2 1 0x36314752"
    by (simp add: valid_params_def is_supported_drm_format_def fields expected_planes_def WL_SHM_FORMAT_NV12_def
        sample_plane_def valid_dmabuf_plane_def dmabuf_plane_layout_def usize_from_i32_def usize_checked_mul_def
        usize_checked_add_def usize_limit_def Let_def)
  moreover have "process_params (\<lambda>_. Some 40) 5 (\<lambda>host_id. queue_to_host host_id REQ_CREATE (create_builder 2 1 0x36314752 0))
      sample_added = (Some (HostId 7, [40]), ([40], []),
        sample_added\<lparr>pending_params := [], used_dmabuf_params := {5},
          client_to_host_queue := create_stream 7 [sample_plane] REQ_CREATE (create_builder 2 1 0x36314752 0)\<rparr>)"
    by (subst process_params_eq [OF fields(1)]) (simp_all add: fields Let_def)
  moreover have same: "sample_added\<lparr>last_sender_id := 5\<rparr> = sample_added"
    by (simp add: sample_added_def)
  ultimately show ?thesis
    by (simp add: params_apply_def same on_create_def fields Let_def) (simp add: sample_created_def fields)
qed

lemma sample_run:
  "try_each params_apply [(5, add_sample), (5, create_sample)] (([], []), params_session) =
     Some (([30, 40], []), sample_created)"
  by (simp add: sample_add sample_create)

section \<open>Properties\<close>

text \<open>C38: No descriptor of a dma-buf is lost or closed twice.  Over any run of the requests and events of
  params objects, whatever \<open>dup\<close> and the host answer, the descriptors closed so far and the ones the
  context still holds (planes that wait for their create request, packets in the outgoing queues,
  duplicates for synchronisation of creates in flight and of registered buffers) are exactly those
  the context held at the start and those opened since, each as often.\<close>

theorem dmabuf_descriptors_conserved:
  assumes "fds_ok c" and "try_each params_apply es (([], []), c) = Some ((opened, closed), c')"
  shows "mset closed + held_fds c' = mset opened + held_fds c"
  using params_ledger.run_inv [of "held_fds c" "(([], []), c)" es "((opened, closed), c')"] assms
  by (simp add: ledger_ok_def)

theorem dmabuf_descriptors_conserved_witness:
  "\<exists>c'. try_each params_apply [(5, add_sample), (5, create_sample)] (([], []), params_session) = Some (([30, 40], []), c') \<and>
     held_fds c' = {#30, 40#}"
proof -
  have ok: "fds_ok params_session" and none: "held_fds params_session = {#}"
    by (simp_all add: fds_ok_def held_fds_def params_session_def context_new_def hm_ok_def entry_fds_def
        native_fds_def params_fds_def)
  from dmabuf_descriptors_conserved [OF ok sample_run] have "held_fds sample_created = {#30, 40#}"
    by (simp add: none)
  with sample_run show ?thesis
    by blast
qed

text \<open>C39: A params object makes at most one buffer, and only a complete one.  However the client orders and
  repeats its requests on a new params object, the host receives nothing, or exactly one complete
  create on the host's params object, after which the object is used: every plane of the format once,
  in a message of its own that carries the index, offset, stride and modifier of the client's request
  (stride and modifier of the resource, for plane 0 of a known virtio-gpu resource) and the duplicate of
  its descriptor, and then the message of a create request of the client, of positive size.\<close>

theorem params_used_for_one_buffer:
  assumes "get_host_id (shadow_table c) i = Some host_id"
    and "hm_get (pending_params c) i = Some []" "i \<notin> used_dmabuf_params c"
    and "\<forall>(j, x)\<in>set es. j = i \<and> use_request i x"
    and "try_each params_apply es (tr, c) = Some (tr', c')"
  shows "(i \<notin> used_dmabuf_params c' \<and> client_to_host_queue c' = client_to_host_queue c) \<or>
    (i \<in> used_dmabuf_params c' \<and>
     (\<exists>out. complete_create host_id (snd ` set es) out \<and> client_to_host_queue c' = client_to_host_queue c @ out))"
proof -
  have "single_use i host_id (snd ` set es) (client_to_host_queue c) c"
    using assms(1-3) by (simp add: single_use_def pending_planes_def)
  moreover have "\<forall>(j, x)\<in>set es. j = i \<and> use_request i x \<and> x \<in> snd ` set es"
    using assms(4) by force
  ultimately have "single_use i host_id (snd ` set es) (client_to_host_queue c) c'"
    using assms(5) by (rule single_use_run)
  then show ?thesis
    by (auto simp: single_use_def split: if_splits)
qed

theorem params_used_for_one_buffer_witness:
  "\<exists>tr c'. try_each params_apply [(5, add_sample), (5, create_sample), (5, create_sample)] (([], []), params_session)
       = Some (tr, c') \<and> complete_create 7 {add_sample, create_sample} (client_to_host_queue c')"
proof -
  let ?es = "[(5, add_sample), (5, create_sample), (5, create_sample)]"
  obtain tr c' where again: "params_apply (5, create_sample) (([30, 40], []), sample_created) = Some (tr, c')"
    and used: "5 \<in> used_dmabuf_params c'"
    by (simp add: params_apply_def on_create_def sample_created_def Let_def)
  have run: "try_each params_apply ?es (([], []), params_session) = Some (tr, c')"
    by (simp add: sample_add sample_create again)
  have new: "hm_get (pending_params params_session) 5 = Some []"
    by (simp add: params_session_def hm_get_def)
  have "\<forall>(j, x)\<in>set ?es. j = 5 \<and> use_request 5 x" "5 \<notin> used_dmabuf_params params_session"
    by (simp_all add: sample_fields)
  from params_used_for_one_buffer [OF sample_host new this(2,1) run] used
  have "complete_create 7 (snd ` set ?es) (client_to_host_queue c')"
    by (auto simp: sample_fields)
  with run show ?thesis
    by auto
qed

text \<open>C40: A buffer the host creates for a params object that the guest has already destroyed is destroyed
  again, in whichever order the host's two answers arrive, \<open>created\<close> and the \<open>delete_id\<close> of the
  params object: both orders end in the same state, in which exactly one destructor of the new buffer
  has been sent to the host, the guest has got its one \<open>delete_id\<close>, the ids of the params object are free
  again, the buffer's id stays reserved until the host deletes it, and nothing of the create is left.\<close>

theorem orphan_answers_commute:
  assumes "orphaned_create c i h b"
  shows "answer_delete_id h (answer_created h b (destroy_params i c)) = settled c i h b \<and>
    answer_created h b (answer_delete_id h (destroy_params i c)) = settled c i h b"
  using created_first [OF assms] delete_id_first [OF assms] ..

theorem orphan_answers_commute_witness:
  "client_to_host_queue (answer_delete_id 7 (answer_created 7 0xFF000001 (destroy_params 5 sample_created))) =
     client_to_host_queue sample_created @ [buffer_destructor (HostId 0xFF000001)]"
proof -
  have t: "shadow_table sample_created = shadow_table params_session"
    by (simp add: sample_created_def sample_added_def)
  have maps: "guest_to_host (shadow_table params_session) = [5 \<mapsto> 7]" "host_to_guest (shadow_table params_session) = [7 \<mapsto> 5]"
    "interfaces (shadow_table params_session) 5 \<noteq> None" "host_interfaces (shadow_table params_session) = Map.empty"
    "retired_host_ids (shadow_table params_session) = {}" "pending_destroy_host_ids (shadow_table params_session) = {}"
    by (simp_all add: params_session_def track_interface_def map_id_def shadow_table_new_def Let_def)
  have "table_ok (shadow_table params_session)"
    by (auto simp: table_ok_def paired_def maps intro: reserved_okI)
  moreover have "pending_native_creates sample_created (HostId 7) \<noteq> None" "\<not> contains (render_buffers sample_created) (HostId 7)"
    by (simp_all add: sample_created_def sample_added_def sample_fields contains_def hm_get_def)
  ultimately have "orphaned_create sample_created 5 7 0xFF000001"
    using maps by (simp add: orphaned_create_def t get_host_id_def get_interface_def is_guest_server_id_def
        GUEST_SERVER_ID_START_def is_host_id_available_def)
  from orphan_answers_commute [OF this] show ?thesis
    by (simp add: settled_def)
qed

end
