(* ===== verification/Spec2Isabelle.thy ===== *)
theory Spec2Isabelle
  imports Wire Shadow_Table Render_Buffer Surface_State Context_Buffers Text_Input_State Key_Generation Keyboard_Focus
    Accelerator Connection Display_Handler Dispatch Proxy_Loop Virtwl_Channel Shm_Copy Shm_Handler Text_Input_Exchange Keyboard_Session
    Surface_Requests Dmabuf_Session
begin

text \<open>
  Verification development of sommelier-rs, a Wayland proxy: clients inside a virtual machine (the
  guest) talk to it as if it were a compositor, and it talks to the real compositor (the host) over
  a Unix socket or a VirtWL device.

  The program and its parts.  For every client the proxy keeps one \<open>Context\<close> and two
  connections.  The message pump (\<^verbatim>\<open>proxy.rs\<close>) cuts whole messages out of the two byte streams
  (\<^verbatim>\<open>connection.rs\<close>, \<^verbatim>\<open>virtwl_channel.rs\<close>), and runs for each one the dispatcher that
  \<^verbatim>\<open>wayland_codegen\<close> generates from the protocol files.  A dispatcher decodes the arguments
  (\<^verbatim>\<open>wire.rs\<close>), calls the handler of the interface (\<^verbatim>\<open>handler/*.rs\<close>), and, unless the
  handler drops the message, forwards it with object IDs translated by the \<open>ShadowTable\<close>
  (\<^verbatim>\<open>state.rs\<close>).  Handlers read and change the context (\<^verbatim>\<open>state.rs\<close>,
  \<^verbatim>\<open>state/render.rs\<close>, \<^verbatim>\<open>state/input.rs\<close>) and append messages of their own to its two
  queues, which the pump flushes.

  Theories, in the order of their dependencies.

  \<^item> \<open>Sommelier_Prelude\<close>: machine integers, \<open>HashMap\<close>s whose iteration matters as
    association lists (locale \<open>hash_map\<close>), runs of operations (locales \<open>guarded_machine\<close>
    and \<open>machine\<close>).
  \<^item> \<open>Wire\<close> (\<^verbatim>\<open>wire.rs\<close>): the typed reads and writes and the framing, with a codec
    contract from which the round trips follow.
  \<^item> \<open>Shadow_Table\<close> (\<^verbatim>\<open>state.rs\<close>): the two ID maps, the host and guest-server
    allocators, the reservations of destroyed objects.
  \<^item> \<open>Render_Buffer\<close>, \<open>Surface_State\<close> (\<^verbatim>\<open>state/render.rs\<close>): the lifecycle of a
    buffer, refined to an abstract machine; pending and committed surface state with rollback.
  \<^item> \<open>Text_Input_State\<close>, \<open>Key_Generation\<close>, \<open>Keyboard_Focus\<close>
    (\<^verbatim>\<open>state/input.rs\<close>): editor state and two-phase transactions (locale \<open>two_phase\<close>),
    the generations of pressed keys and their delivery to the guest, which keyboard is on which
    surface.
  \<^item> \<open>Accelerator\<close> (\<^verbatim>\<open>accelerator.rs\<close>): the parser of the host's reserved shortcuts.
  \<^item> \<open>Context_State\<close>, \<open>Context_Buffers\<close> (\<^verbatim>\<open>state.rs\<close>): the record of a client's
    whole state, its construction and its destructor.
  \<^item> \<open>Connection\<close>, \<open>Virtwl_Channel\<close> (\<^verbatim>\<open>connection.rs\<close>, \<^verbatim>\<open>virtwl.rs\<close>,
    \<^verbatim>\<open>virtwl_channel.rs\<close>): the control-message decoder, partial sends, the ioctl transfers.
  \<^item> \<open>Display_Handler\<close> (\<^verbatim>\<open>handler/display.rs\<close>, \<^verbatim>\<open>handler/seat.rs\<close>): fatal
    errors, \<open>delete_id\<close>, registry and sync objects.
  \<^item> \<open>Dispatch\<close> (\<^verbatim>\<open>generator.rs\<close>): the generated code as an interpreter of the parsed
    protocol: validation, translation of arguments, destructors, order of effects.
  \<^item> \<open>Proxy_Loop\<close> (\<^verbatim>\<open>proxy.rs\<close>): batches, descriptor association, stale events and
    the loop of one client, with the handlers as a parameter.
  \<^item> \<open>Shm_Copy\<close>, \<open>Shm_Handler\<close> (\<^verbatim>\<open>handler/shm.rs\<close>): plane geometry, damage, the
    copy between mappings; formats, pools and the deferred destruction of buffers.
  \<^item> \<open>Text_Input_Focus\<close>, \<open>Text_Input_Keys\<close>, \<open>Text_Input_Handler\<close>,
    \<open>Text_Input_Exchange\<close> (\<^verbatim>\<open>handler/text_input.rs\<close>): the bridge from the guest's
    text-input-v3 to the host's text-input-v1: activation barriers and focus, the recovery of
    keys the host IME consumed, every event and request, and what they exchange.
  \<^item> \<open>Keyboard_Handler\<close>, \<open>Keyboard_Keys\<close>, \<open>Keyboard_Session\<close>
    (\<^verbatim>\<open>handler/keyboard.rs\<close>): keymaps and keysym tables over an xkb interpreter, focus of
    a keyboard, the path of a key past shortcuts, grabs and the IME, and a whole keyboard session.
  \<^item> \<open>Binary64\<close>, \<open>Surface_Damage\<close>, \<open>Surface_Handler\<close>, \<open>Surface_Commit\<close>,
    \<open>Surface_Session\<close>, \<open>Surface_Requests\<close> (\<^verbatim>\<open>handler/compositor.rs\<close>): double
    arithmetic as rounded rationals, damage in buffer and surface coordinates, every request of
    surfaces, viewports and xdg objects, the commit with its copy and fences, the end of a surface
    (locales \<open>activation_blind\<close>, \<open>focus_blind\<close>), and the values a session can hold.
  \<^item> \<open>Dmabuf_Params\<close>, \<open>Dmabuf_Session\<close> (\<^verbatim>\<open>handler/linux_dmabuf.rs\<close>,
    \<^verbatim>\<open>allocator.rs\<close>): the params objects, from the planes a client adds to the checked create
    requests and the host's answers, orphaned creates included, with the descriptors every handler
    opens and closes; runs of them conserve the descriptors (\<open>panicking_machine\<close>).

  Conventions.  A struct is a record with the source's field names, prefixed where two structs
  share one.  A \<open>HashMap\<close> is a function to \<open>option\<close>, or an association list where the
  program iterates it; the order of such a list is arbitrary, and no property depends on it.
  \<open>None\<close> as the whole result of an operation is a panic (an exhausted ID space, \<open>expect\<close>,
  a failed \<open>debug_assert\<close>); a \<open>Result\<close> is a sum with the error on the left.  Integers of
  the wire and of IDs are words and wrap; signed 32-bit values are integers in range, as the
  decoder produces them.  What the operating system and libraries return (\<open>recvmsg\<close>,
  \<open>sendmsg\<close>, the ioctls, \<open>mmap\<close>, libxkbcommon) is an argument of the operation that calls
  it, so that every outcome is covered.

  Bounds and fuel.  The allocators scan at most \<open>2 ^ 32\<close> and \<open>2 ^ 24\<close> candidates, the
  source's own loop bounds; they are proved to find a free ID when there is one.  A batch is at
  most 32 messages, as in the source.  The control-buffer decoder, whose source loop follows
  lengths the kernel wrote, runs on fuel proportional to the buffer, and is proved never to run out.

  What the properties say.  Translation: the table's two directions stay inverse, and forwarded
  requests and events carry exactly the arguments as the table the handler leaves translates them.  Transport:
  bytes are framed, sent and received in order and once; every descriptor is owned or closed
  exactly once.  Keys: every press the host sends is decided once, acknowledged or given to the
  guest, and its release follows the press.  Buffers: damage is copied exactly and inside the mappings, host buffers are
  destroyed once and only when idle.  Surfaces: a commit happens completely or not at all, its pixels
  are on the host before it, its damage covers what the client named (except under a scaled crop,
  where the code loses damage), and a destroyed surface is forgotten everywhere.  Input: presses and releases shown to the guest balance,
  focus is unambiguous per seat, a focus change is a hard boundary for text input, edits and commits
  are atomic, events of inactive objects are ignored, barriers resume.  Message pump: events of
  objects the guest has destroyed are discarded, up to three exceptions; descriptors of an unknown
  object are never assigned to another message.  Dma-buf params: descriptors are conserved, a params
  object makes one buffer, and an orphaned buffer is destroyed in either order of the answers.
  The expected results are described independently of the code where a property would else quote
  it: the reset text input (\<open>unfocused_input\<close>), the documented table of accelerator tags
  (\<open>documented_tags\<close>), the order of copy and ioctls (\<open>commit_effect\<close>).
  Each property is numbered in a \<open>text\<close> block before it and followed by a concrete instance.

  Not modelled: the opening of devices and allocation of \<^verbatim>\<open>allocator.rs\<close>, which only call
  the kernel and libgbm; the accept loop, task spawning and polling of \<^verbatim>\<open>proxy.rs\<close>,
  \<^verbatim>\<open>main.rs\<close> and \<^verbatim>\<open>bin.rs\<close>, whose effects are scheduling; logging; the emission of
  tokens by the code generator; the test programs; and, for now, the format and
  feedback events of \<^verbatim>\<open>linux_dmabuf.rs\<close>, the poisoning of a pool's lock in
  \<^verbatim>\<open>shm.rs\<close>, and the handlers of \<^verbatim>\<open>registry.rs\<close>,
  \<^verbatim>\<open>data_device.rs\<close>, \<^verbatim>\<open>gtk_shell.rs\<close>, \<^verbatim>\<open>callback.rs\<close> and the allocating path of
  \<open>create_buffer\<close> in \<^verbatim>\<open>shm.rs\<close>, which the generic dispatcher model covers as a
  parameter.
\<close>

end
